(* ===== verification/Qlong_Prelude.thy ===== *)
theory Qlong_Prelude
  imports Complex_Main "HOL-Library.AList"
begin

text \<open>
  Shared vocabulary of the development.

  \<^item> JavaScript values: \<open>json\<close> is a parsed JSON value; a missing property (\<open>undefined\<close>) is
    \<open>None\<close> of \<open>obj_get\<close>. A JavaScript number is a rational: finite values with exact arithmetic,
    which agrees with doubles on the safe integers the envelope layer enforces (D23); NaN and the
    infinities, which no JSON text denotes, are left out. Strings are char lists, so the texts of
    the model are the 8-bit ones.
  \<^item> JavaScript maps: an association list in insertion order. \<open>AList.update\<close> overwrites in place
    and appends a new key at the end, as \<open>Map.set\<close> and property assignment do; \<open>map_of\<close> is
    \<open>Map.get\<close> and \<open>AList.delete\<close> is \<open>Map.delete\<close>.
  \<^item> Effects: an operation returns the new state and the list of actions it emits. \<open>run\<close> threads a
    step function through a list of events. The locales at the end state once what the component
    theories use of such machines: invariants, absorbing states, measures that never decrease, and
    invariants of the emitted trace. Each component interprets them with its own step function.
\<close>

section \<open>JSON values\<close>

type_synonym number = rat

datatype json =
    JNull
  | JBool bool
  | JNum number
  | JStr string
  | JArr "json list"
  | JObj "(string \<times> json) list"

type_synonym body = "(string \<times> json) list"

fun isPlainObject :: "json \<Rightarrow> bool" where
  "isPlainObject (JObj _) = True"
| "isPlainObject _ = False"

fun obj_get :: "json \<Rightarrow> string \<Rightarrow> json option" where
  "obj_get (JObj fs) k = map_of fs k"
| "obj_get _ k = None"

definition isSafeInteger :: "number \<Rightarrow> bool" where
  "isSafeInteger q \<longleftrightarrow> q = of_int \<lfloor>q\<rfloor> \<and> \<bar>q\<bar> \<le> 9007199254740991"

definition num_of :: "json option \<Rightarrow> number option" where
  "num_of v = (case v of Some (JNum q) \<Rightarrow> Some q | _ \<Rightarrow> None)"

definition str_of :: "json option \<Rightarrow> string option" where
  "str_of v = (case v of Some (JStr s) \<Rightarrow> Some s | _ \<Rightarrow> None)"

definition arr_of :: "json option \<Rightarrow> json list option" where
  "arr_of v = (case v of Some (JArr xs) \<Rightarrow> Some xs | _ \<Rightarrow> None)"

definition isNonEmptyStr :: "json option \<Rightarrow> bool" where
  "isNonEmptyStr v = (case v of Some (JStr s) \<Rightarrow> s \<noteq> [] | _ \<Rightarrow> False)"

definition isSafeIntGe :: "number \<Rightarrow> json option \<Rightarrow> bool" where
  "isSafeIntGe lo v = (case v of Some (JNum q) \<Rightarrow> isSafeInteger q \<and> lo \<le> q | _ \<Rightarrow> False)"

text \<open>A string that is not blank after \<open>trim\<close>, and the truth value of an optional string.\<close>

definition is_space :: "char \<Rightarrow> bool" where
  "is_space c \<longleftrightarrow> (of_char c :: nat) \<in> {9, 10, 11, 12, 13, 32, 160}"

definition named :: "json option \<Rightarrow> bool" where
  "named v = (case str_of v of None \<Rightarrow> False | Some s \<Rightarrow> list_ex (\<lambda>c. \<not> is_space c) s)"

definition truthy :: "string option \<Rightarrow> bool" where
  "truthy s = (case s of None \<Rightarrow> False | Some t \<Rightarrow> t \<noteq> [])"

text \<open>The finite-range check of \<open>isSafeInteger\<close> evaluates on integers.\<close>

lemma isSafeInteger_of_int [simp]:
  "isSafeInteger (of_int i) \<longleftrightarrow> \<bar>i\<bar> \<le> 9007199254740991"
  by (simp add: isSafeInteger_def flip: of_int_abs)

lemma isSafeInteger_numeral [simp]:
  "isSafeInteger (numeral n) \<longleftrightarrow> (numeral n :: int) \<le> 9007199254740991"
  using isSafeInteger_of_int [of "numeral n"] by simp

lemma isSafeInteger_0_1 [simp]: "isSafeInteger 0" "isSafeInteger 1"
  by (simp_all add: isSafeInteger_def)

lemma isSafeInteger_Ints: "isSafeInteger q \<Longrightarrow> q \<in> \<int>"
  by (metis Ints_of_int isSafeInteger_def)

lemma num_of_simps [simp]:
  "num_of None = None" "num_of (Some (JNum q)) = Some q"
  by (simp_all add: num_of_def)

lemma str_of_simps [simp]:
  "str_of None = None" "str_of (Some (JStr s)) = Some s"
  by (simp_all add: str_of_def)

lemma num_of_SomeD: "num_of v = Some q \<Longrightarrow> v = Some (JNum q)"
  by (auto simp: num_of_def split: option.splits json.splits)

lemma str_of_SomeD: "str_of v = Some s \<Longrightarrow> v = Some (JStr s)"
  by (auto simp: str_of_def split: option.splits json.splits)

section \<open>Strings and patterns\<close>

text \<open>A regular expression of fixed length is a list of character classes.\<close>

definition matches :: "(char \<Rightarrow> bool) list \<Rightarrow> string \<Rightarrow> bool" where
  "matches ps s = list_all2 (\<lambda>p c. p c) ps s"

definition is_digit :: "char \<Rightarrow> bool" where
  "is_digit c \<longleftrightarrow> c \<in> set ''0123456789''"

definition is_hex :: "char \<Rightarrow> bool" where
  "is_hex c \<longleftrightarrow> c \<in> set ''0123456789abcdef''"

definition is_hex_i :: "char \<Rightarrow> bool" where
  "is_hex_i c \<longleftrightarrow> c \<in> set ''0123456789abcdefABCDEF''"

definition is_lower :: "char \<Rightarrow> bool" where
  "is_lower c \<longleftrightarrow> c \<in> set ''abcdefghijklmnopqrstuvwxyz''"

text \<open>\<open>String.prototype.split\<close> with a one-character separator.\<close>

fun splitOn :: "char \<Rightarrow> string \<Rightarrow> string list" where
  "splitOn c [] = [[]]"
| "splitOn c (x # xs) =
     (if x = c then [] # splitOn c xs
      else (case splitOn c xs of [] \<Rightarrow> [[x]] | y # ys \<Rightarrow> (x # y) # ys))"

lemma splitOn_nonempty [simp]: "splitOn c s \<noteq> []"
  by (induction s) (auto split: list.splits)

lemma splitOn_no_sep: "seg \<in> set (splitOn c s) \<Longrightarrow> c \<notin> set seg"
proof (induction s arbitrary: seg)
  case Nil
  then show ?case by simp
next
  case (Cons x s)
  obtain y ys where "splitOn c s = y # ys"
    using splitOn_nonempty by (metis neq_Nil_conv)
  with Cons show ?case by (auto split: if_splits)
qed

text \<open>\<open>indexOf\<close> followed by two \<open>slice\<close>s: the text before and after the first separator.\<close>

definition cutAt :: "char \<Rightarrow> string \<Rightarrow> (string \<times> string) option" where
  "cutAt c s = (if c \<in> set s then Some (takeWhile (\<lambda>x. x \<noteq> c) s, drop 1 (dropWhile (\<lambda>x. x \<noteq> c) s))
                else None)"

lemma cutAt_append [simp]: "c \<notin> set a \<Longrightarrow> cutAt c (a @ c # b) = Some (a, b)"
proof -
  assume a: "c \<notin> set a"
  have ne: "\<And>x. x \<in> set a \<Longrightarrow> x \<noteq> c" using a by auto
  show ?thesis
    by (simp add: cutAt_def takeWhile_append2 dropWhile_append2 ne)
qed

section \<open>Maps in insertion order\<close>

text \<open>Every map of the model keeps its keys distinct.\<close>

definition wf_map :: "('k \<times> 'v) list \<Rightarrow> bool" where
  "wf_map m \<longleftrightarrow> distinct (map fst m)"

lemma wf_map_Nil [simp, intro]: "wf_map []"
  by (simp add: wf_map_def)

lemma wf_map_update [simp, intro]: "wf_map m \<Longrightarrow> wf_map (AList.update k v m)"
  by (simp add: wf_map_def distinct_update)

lemma wf_map_delete [simp, intro]: "wf_map m \<Longrightarrow> wf_map (AList.delete k m)"
  by (simp add: wf_map_def distinct_delete)

lemma distinct_fst_filter: "distinct (map fst m) \<Longrightarrow> distinct (map fst (filter P m))"
  by (induction m) auto

lemma wf_map_filter [simp, intro]: "wf_map m \<Longrightarrow> wf_map (filter P m)"
  by (simp add: wf_map_def distinct_fst_filter)

lemma map_of_update_eq [simp]:
  "map_of (AList.update k v m) k' = (if k' = k then Some v else map_of m k')"
  by (simp add: update_conv)

lemma map_of_delete_eq [simp]:
  "map_of (AList.delete k m) k' = (if k' = k then None else map_of m k')"
  by (simp add: delete_conv)

lemma wf_map_lookup: "wf_map m \<Longrightarrow> (k, v) \<in> set m \<longleftrightarrow> map_of m k = Some v"
  by (simp add: wf_map_def)

text \<open>Deleting while iterating over a map removes the entries that satisfy the test.\<close>

lemma map_of_filter_wf:
  "wf_map m \<Longrightarrow> map_of (filter (\<lambda>(k, v). P k v) m) k =
     (case map_of m k of None \<Rightarrow> None | Some v \<Rightarrow> if P k v then Some v else None)"
proof (induction m)
  case Nil
  then show ?case by simp
next
  case (Cons a m)
  obtain k1 v1 where a: "a = (k1, v1)" by (cases a)
  from Cons.prems a have wf: "wf_map m" and fresh: "k1 \<notin> fst ` set m"
    by (auto simp: wf_map_def)
  from fresh have "map_of m k1 = None" by (simp add: map_of_eq_None_iff)
  with Cons.IH [OF wf] a show ?case by (auto split: option.splits)
qed

text \<open>Updates in place: lengths, images and predicates over the entries.\<close>

lemma length_update:
  "length (AList.update k v m) = (if map_of m k = None then Suc (length m) else length m)"
  by (induction m) auto

lemma map_snd_update:
  "map_of m k = Some v \<Longrightarrow> f (k, v') = f (k, v) \<Longrightarrow> map f (AList.update k v' m) = map f m"
  by (induction m) (auto split: if_splits)

lemma map_update_fresh:
  "map_of m k = None \<Longrightarrow> map f (AList.update k v m) = map f m @ [f (k, v)]"
  by (induction m) auto

lemma update_fresh: "map_of m k = None \<Longrightarrow> AList.update k v m = m @ [(k, v)]"
  by (induction m) auto

lemma set_update_sub: "set (AList.update k v m) \<subseteq> insert (k, v) (set m)"
  by (induction m) auto

lemma list_all_update:
  "P (k, v) \<Longrightarrow> list_all P m \<Longrightarrow> list_all P (AList.update k v m)"
  using set_update_sub [of k v m] by (auto simp: list_all_iff)

lemma list_all_mono_on:
  "list_all P m \<Longrightarrow> (\<And>x. x \<in> set m \<Longrightarrow> P x \<Longrightarrow> Q x) \<Longrightarrow> list_all Q m"
  by (auto simp: list_all_iff)

lemma list_all_delete: "list_all P m \<Longrightarrow> list_all P (AList.delete k m)"
  by (auto simp: list_all_iff AList.delete_eq)

lemma list_all_lookup: "list_all P m \<Longrightarrow> map_of m k = Some v \<Longrightarrow> P (k, v)"
  by (auto simp: list_all_iff dest: map_of_SomeD)

lemma length_delete_le: "map_of m k \<noteq> None \<Longrightarrow> length (AList.delete k m) < length m"
proof -
  assume "map_of m k \<noteq> None"
  then have "\<exists>x \<in> set m. \<not> fst x \<noteq> k" by (force dest: map_of_SomeD)
  then show ?thesis
    by (auto simp: AList.delete_eq case_prod_beta intro!: length_filter_less)
qed

section \<open>Running a step function\<close>

fun run :: "('s \<Rightarrow> 'e \<Rightarrow> 's \<times> 'a list) \<Rightarrow> 's \<Rightarrow> 'e list \<Rightarrow> 's \<times> 'a list" where
  "run step s [] = (s, [])"
| "run step s (e # es) =
     (let (s1, a1) = step s e; (s2, a2) = run step s1 es in (s2, a1 @ a2))"

lemma run_Cons_fst [simp]: "fst (run step s (e # es)) = fst (run step (fst (step s e)) es)"
  by (simp add: case_prod_beta Let_def)

lemma run_Cons_snd [simp]:
  "snd (run step s (e # es)) = snd (step s e) @ snd (run step (fst (step s e)) es)"
  by (simp add: case_prod_beta Let_def)

lemma run_append_fst: "fst (run step s (es @ fs)) = fst (run step (fst (run step s es)) fs)"
  by (induction es arbitrary: s) (simp_all del: run.simps(2))

lemma run_append_snd:
  "snd (run step s (es @ fs)) = snd (run step s es) @ snd (run step (fst (run step s es)) fs)"
  by (induction es arbitrary: s) (simp_all del: run.simps(2))

text \<open>
  A caller's contract: \<open>good s e\<close> says that the host may raise event \<open>e\<close> in state \<open>s\<close>.
\<close>

fun good_run :: "('s \<Rightarrow> 'e \<Rightarrow> bool) \<Rightarrow> ('s \<Rightarrow> 'e \<Rightarrow> 's \<times> 'a list) \<Rightarrow> 's \<Rightarrow> 'e list \<Rightarrow> bool" where
  "good_run good step s [] = True"
| "good_run good step s (e # es) = (good s e \<and> good_run good step (fst (step s e)) es)"

lemma good_run_True [simp]: "good_run (\<lambda>_ _. True) step s es"
  by (induction es arbitrary: s) simp_all

section \<open>Contracts of state machines\<close>

text \<open>An invariant that every step keeps holds after every run.\<close>

locale invariant_machine =
  fixes step :: "'s \<Rightarrow> 'e \<Rightarrow> 's \<times> 'a list"
    and inv :: "'s \<Rightarrow> bool"
  assumes inv_step: "inv s \<Longrightarrow> inv (fst (step s e))"
begin

lemma inv_run: "inv s \<Longrightarrow> inv (fst (run step s es))"
  by (induction es arbitrary: s) (simp_all del: run.simps(2) add: inv_step)

end

text \<open>A final state ignores every event.\<close>

locale absorbing_machine =
  fixes step :: "'s \<Rightarrow> 'e \<Rightarrow> 's \<times> 'a list"
    and final :: "'s \<Rightarrow> bool"
  assumes final_step: "final s \<Longrightarrow> step s e = (s, [])"
begin

lemma final_run: "final s \<Longrightarrow> run step s es = (s, [])"
  by (induction es) (simp_all add: final_step)

lemma final_run_append:
  "final (fst (run step s es)) \<Longrightarrow> run step s (es @ fs) = run step s es"
  by (metis append_Nil2 final_run fst_conv prod.collapse run_append_fst run_append_snd snd_conv)

end

text \<open>A measure of the state that no step of a well-behaved host decreases.\<close>

locale monotone_machine =
  fixes step :: "'s \<Rightarrow> 'e \<Rightarrow> 's \<times> 'a list"
    and good :: "'s \<Rightarrow> 'e \<Rightarrow> bool"
    and level :: "'s \<Rightarrow> nat"
  assumes level_step: "good s e \<Longrightarrow> level s \<le> level (fst (step s e))"
begin

lemma level_run: "good_run good step s es \<Longrightarrow> level s \<le> level (fst (run step s es))"
proof (induction es arbitrary: s)
  case Nil
  then show ?case by simp
next
  case (Cons e es)
  then have "level s \<le> level (fst (step s e))"
    by (simp add: level_step)
  also have "\<dots> \<le> level (fst (run step (fst (step s e)) es))"
    using Cons by simp
  finally show ?case by (simp del: run.simps(2))
qed

end

text \<open>An invariant that relates the state to everything emitted so far.\<close>

locale traced_machine =
  fixes step :: "'s \<Rightarrow> 'e \<Rightarrow> 's \<times> 'a list"
    and good :: "'s \<Rightarrow> 'e \<Rightarrow> bool"
    and tinv :: "'a list \<Rightarrow> 's \<Rightarrow> bool"
  assumes tinv_step: "tinv tr s \<Longrightarrow> good s e \<Longrightarrow> tinv (tr @ snd (step s e)) (fst (step s e))"
begin

lemma tinv_run:
  "tinv tr s \<Longrightarrow> good_run good step s es \<Longrightarrow>
   tinv (tr @ snd (run step s es)) (fst (run step s es))"
proof (induction es arbitrary: tr s)
  case Nil
  then show ?case by simp
next
  case (Cons e es)
  from Cons.prems have "tinv (tr @ snd (step s e)) (fst (step s e))"
    by (simp add: tinv_step)
  from Cons.IH [OF this] Cons.prems show ?case by (simp del: run.simps(2))
qed

end

end
