(* ===== verification/Core_Params.thy ===== *)
theory Core_Params
  imports Qlong_Prelude
begin

text \<open>
  The protocol constants and pure rules of \<open>packages/core/src\<close>: the parameter table and the R1/R3
  formulas (\<open>params.ts\<close>), the reason-code tables (\<open>reason-codes.ts\<close>), expiry (\<open>freshness.ts\<close>),
  the R0 attempt gate (\<open>attempt-gate.ts\<close>), the id syntax and trace context (\<open>ids.ts\<close>). The lemmas
  show that the R3 configuration check is exactly the condition under which the lead declares an
  executor lost no later than the executor's own lease ends, that the shipped parameters meet it, and
  that the attempt gate lets no message of another attempt through.
\<close>

section \<open>Parameters\<close>

datatype task_kind = Aid | Project

record qlong_params =
  offerTtlMsProject :: number
  offerTtlMsAid :: number
  leaseMsProject :: number
  leaseMsAid :: number
  graceMs :: number
  drainMs :: number
  cancelWaitMs :: number
  expDriftBudgetMs :: number
  expHorizonMs :: number
  maxAttempts :: nat
  maxDispatchRounds :: nat
  maxHops :: nat
  maxBodyInlineBytes :: nat

definition DEFAULT_PARAMS :: qlong_params where
  "DEFAULT_PARAMS = \<lparr>
     offerTtlMsProject = 60000,
     offerTtlMsAid = 10000,
     leaseMsProject = 300000,
     leaseMsAid = 120000,
     graceMs = 30000,
     drainMs = 30000,
     cancelWaitMs = 30000,
     expDriftBudgetMs = 10 * 60 * 1000,
     expHorizonMs = 24 * 60 * 60 * 1000,
     maxAttempts = 3,
     maxDispatchRounds = 3,
     maxHops = 8,
     maxBodyInlineBytes = 256 * 1024\<rparr>"

definition defaultOfferTtlMs :: "task_kind \<Rightarrow> qlong_params \<Rightarrow> number" where
  "defaultOfferTtlMs kind p = (if kind = Aid then offerTtlMsAid p else offerTtlMsProject p)"

definition defaultLeaseMs :: "task_kind \<Rightarrow> qlong_params \<Rightarrow> number" where
  "defaultLeaseMs kind p = (if kind = Aid then leaseMsAid p else leaseMsProject p)"

definition heartbeatIntervalMs :: "number \<Rightarrow> number" where
  "heartbeatIntervalMs leaseMs = of_int \<lfloor>leaseMs / 3\<rfloor>"

definition lostAfterMs :: "number \<Rightarrow> qlong_params \<Rightarrow> number" where
  "lostAfterMs leaseMs p = 2 * heartbeatIntervalMs leaseMs + graceMs p"

definition dedupRetentionMs :: "task_kind \<Rightarrow> qlong_params \<Rightarrow> number" where
  "dedupRetentionMs kind p =
     max (defaultOfferTtlMs kind p) (defaultLeaseMs kind p) * of_nat (maxAttempts p) + drainMs p"

datatype lease_error = R3_violated number number number

definition assertLeaseInvariant :: "number \<Rightarrow> qlong_params \<Rightarrow> lease_error + unit" where
  "assertLeaseInvariant leaseMs p =
     (if \<not> (graceMs p \<le> leaseMs - 2 * heartbeatIntervalMs leaseMs)
      then Inl (R3_violated (graceMs p) leaseMs (heartbeatIntervalMs leaseMs))
      else Inr ())"

section \<open>Reason codes\<close>

definition REJECT_CODES :: "string list" where
  "REJECT_CODES = [''busy'', ''policy_denied'', ''unsupported_caps'', ''unsupported_version'',
     ''unsupported_type'', ''expired'', ''refused_loop'', ''stale_attempt'', ''other'']"

definition FAIL_CODES :: "string list" where
  "FAIL_CODES = [''deadline_exceeded'', ''caps_missing'', ''payload_unavailable'', ''payload_corrupt'',
     ''internal_error'', ''cancelled_by_peer'', ''other'']"

record normalized_code =
  norm_code :: string
  norm_custom :: bool

definition normalizeRejectCode :: "string \<Rightarrow> normalized_code" where
  "normalizeRejectCode raw =
     (if raw \<in> set REJECT_CODES then \<lparr>norm_code = raw, norm_custom = False\<rparr>
      else \<lparr>norm_code = ''other'', norm_custom = True\<rparr>)"

definition normalizeFailCode :: "string \<Rightarrow> normalized_code" where
  "normalizeFailCode raw =
     (if raw \<in> set FAIL_CODES then \<lparr>norm_code = raw, norm_custom = False\<rparr>
      else \<lparr>norm_code = ''other'', norm_custom = True\<rparr>)"

definition isPersistentReject :: "string \<Rightarrow> bool" where
  "isPersistentReject c \<longleftrightarrow> c = ''unsupported_caps'' \<or> c = ''policy_denied'' \<or> c = ''refused_loop''"

section \<open>Freshness\<close>

text \<open>
  \<open>Date.parse\<close> is a parameter: its value on texts that are not RFC 3339 is left to the JavaScript
  engine. \<open>None\<close> is NaN.
\<close>

type_synonym date_parser = "string \<Rightarrow> number option"

definition isExpiredByExp :: "date_parser \<Rightarrow> string \<Rightarrow> number \<Rightarrow> number \<Rightarrow> bool" where
  "isExpiredByExp parse expiry receivedAtMs driftBudgetMs =
     (case parse expiry of
        None \<Rightarrow> True
      | Some expMs \<Rightarrow> receivedAtMs > expMs + driftBudgetMs)"

definition isExpiredByTtl :: "number \<Rightarrow> number \<Rightarrow> number \<Rightarrow> bool" where
  "isExpiredByTtl startedAtMs ttlMs nowMs \<longleftrightarrow> nowMs > startedAtMs + ttlMs"

section \<open>The attempt gate\<close>

datatype gate_verdict = Process | RejectStale | ImplicitCancel | Drop

definition attemptGate :: "nat option \<Rightarrow> string \<Rightarrow> nat \<Rightarrow> gate_verdict" where
  "attemptGate localAttempt type attempt =
     (case localAttempt of
        None \<Rightarrow> Process
      | Some cur \<Rightarrow>
          if attempt = cur then Process
          else if attempt < cur then RejectStale
          else if type = ''task.offer'' then ImplicitCancel else Drop)"

section \<open>Identifiers and traces\<close>

definition uuid_pattern :: "(char \<Rightarrow> bool) list" where
  "uuid_pattern =
     replicate 8 is_hex_i @ [\<lambda>c. c = CHR ''-''] @ replicate 4 is_hex_i @ [\<lambda>c. c = CHR ''-''] @
     replicate 4 is_hex_i @ [\<lambda>c. c = CHR ''-''] @ replicate 4 is_hex_i @ [\<lambda>c. c = CHR ''-''] @
     replicate 12 is_hex_i"

definition isUuidStr :: "string \<Rightarrow> bool" where
  "isUuidStr s = matches uuid_pattern s"

definition isUuid :: "json option \<Rightarrow> bool" where
  "isUuid v = (case v of Some (JStr s) \<Rightarrow> isUuidStr s | _ \<Rightarrow> False)"

record trace_context =
  trace_id :: string
  parent_span :: "string option"
  origin_node :: string

definition newTraceContext :: "string \<Rightarrow> string \<Rightarrow> trace_context" where
  "newTraceContext newId originNode =
     \<lparr>trace_id = newId, parent_span = None, origin_node = originNode\<rparr>"

definition forkTraceForDispatch :: "trace_context \<Rightarrow> string \<Rightarrow> trace_context" where
  "forkTraceForDispatch t upstreamMsgId =
     \<lparr>trace_id = trace_id t, parent_span = Some upstreamMsgId, origin_node = origin_node t\<rparr>"

section \<open>Lemmas\<close>

lemma heartbeat_bounds:
  "3 * heartbeatIntervalMs l \<le> l" "l < 3 * heartbeatIntervalMs l + 3"
proof -
  have "of_int \<lfloor>l / 3\<rfloor> \<le> l / 3" "l / 3 < of_int \<lfloor>l / 3\<rfloor> + 1"
    by linarith+
  then show "3 * heartbeatIntervalMs l \<le> l" "l < 3 * heartbeatIntervalMs l + 3"
    by (simp_all add: heartbeatIntervalMs_def field_simps)
qed

lemma heartbeat_nonneg: "0 \<le> l \<Longrightarrow> 0 \<le> heartbeatIntervalMs l"
  by (simp add: heartbeatIntervalMs_def)

text \<open>
  the configuration check \<open>assertLeaseInvariant\<close> accepts a lease exactly when the lead's lost
  threshold \<open>lostAfterMs\<close> does not exceed the lease itself, so that an accepted configuration never
  lets an executor's lease run out before the lead has already declared it lost (R3).
\<close>

theorem assertLeaseInvariant_iff:
  "assertLeaseInvariant leaseMs p = Inr () \<longleftrightarrow> lostAfterMs leaseMs p \<le> leaseMs"
  by (auto simp: assertLeaseInvariant_def lostAfterMs_def)

lemma defaultLease_ok: "assertLeaseInvariant (defaultLeaseMs kind DEFAULT_PARAMS) DEFAULT_PARAMS = Inr ()"
  by (cases kind)
    (simp_all add: assertLeaseInvariant_def defaultLeaseMs_def heartbeatIntervalMs_def DEFAULT_PARAMS_def)

text \<open>A heartbeat that leaves on time and is delayed by less than a heartbeat and the grace is in time.\<close>

lemma heartbeat_beats_lost:
  assumes "delay < heartbeatIntervalMs l + graceMs p"
  shows "t + heartbeatIntervalMs l + delay < t + lostAfterMs l p"
  using assms by (simp add: lostAfterMs_def)

lemma dedupRetention_covers:
  assumes "0 < maxAttempts p" "0 \<le> drainMs p" "0 \<le> defaultLeaseMs kind p"
  shows "defaultLeaseMs kind p + drainMs p \<le> dedupRetentionMs kind p"
proof -
  let ?m = "max (defaultOfferTtlMs kind p) (defaultLeaseMs kind p)"
  have n: "1 \<le> (of_nat (maxAttempts p) :: rat)" using assms(1) by simp
  have "defaultLeaseMs kind p * 1 \<le> ?m * of_nat (maxAttempts p)"
    by (rule mult_mono) (use assms(3) n in \<open>auto simp: le_max_iff_disj\<close>)
  then show ?thesis by (simp add: dedupRetentionMs_def)
qed

lemma attemptGate_cases [simp]:
  "attemptGate None ty a = Process"
  "attemptGate (Some c) ty c = Process"
  "a < c \<Longrightarrow> attemptGate (Some c) ty a = RejectStale"
  "c < a \<Longrightarrow> attemptGate (Some c) ''task.offer'' a = ImplicitCancel"
  "c < a \<Longrightarrow> ty \<noteq> ''task.offer'' \<Longrightarrow> attemptGate (Some c) ty a = Drop"
  by (simp_all add: attemptGate_def)

text \<open>
  the R0 gate processes a message only when the task is unknown locally or the message carries
  the current attempt; a newer attempt supersedes the running one only through \<open>task.offer\<close>, an older
  one is always answered as stale, and everything else is dropped.
\<close>

theorem attemptGate_char:
  "(attemptGate cur ty a = Process \<longleftrightarrow> cur = None \<or> cur = Some a) \<and>
   (attemptGate cur ty a = RejectStale \<longleftrightarrow> (\<exists>c. cur = Some c \<and> a < c)) \<and>
   (attemptGate cur ty a = ImplicitCancel \<longleftrightarrow> (\<exists>c. cur = Some c \<and> c < a \<and> ty = ''task.offer'')) \<and>
   (attemptGate cur ty a = Drop \<longleftrightarrow> (\<exists>c. cur = Some c \<and> c < a \<and> ty \<noteq> ''task.offer''))"
  by (cases cur) (auto simp: attemptGate_def)

lemma isUuidStr_length: "isUuidStr s \<Longrightarrow> length s = 36"
  by (drule list_all2_lengthD [of "\<lambda>p c. p c", folded matches_def] |
      simp add: isUuidStr_def uuid_pattern_def matches_def)+

lemma normalizeRejectCode_known: "norm_code (normalizeRejectCode raw) \<in> set REJECT_CODES"
  by (simp add: normalizeRejectCode_def REJECT_CODES_def)

lemma normalizeFailCode_known: "norm_code (normalizeFailCode raw) \<in> set FAIL_CODES"
  by (simp add: normalizeFailCode_def FAIL_CODES_def)

end
