(* ===== verification/Core_Caps.thy ===== *)
theory Core_Caps
  imports Core_Params
begin

text \<open>
  Capability tags (\<open>packages/core/src/caps.ts\<close>), the one matcher that the executor's gate 3, the
  gateway's cross-team gate and the registry's directory filter share. \<open>Number\<close> on a digit string is
  its exact value. The lemmas show that matching one tag against one tag is a preorder on the tags
  that parse, so that requirements survive a chain of grants, and that \<open>matchCaps\<close> reports exactly the
  requirements nobody meets.
\<close>

definition KNOWN_CAP_CLASSES :: "string list" where
  "KNOWN_CAP_CLASSES = [''env'', ''tool'', ''hw'', ''net'', ''ext'']"

record parsed_tag =
  cls :: string
  tag_value :: string
  version :: "string list option"

definition parseTag :: "string \<Rightarrow> parsed_tag option" where
  "parseTag tag =
     (case cutAt (CHR '':'') tag of
        None \<Rightarrow> None
      | Some (c, rest) \<Rightarrow>
          if c = [] then None
          else (case cutAt (CHR ''@'') rest of
                  None \<Rightarrow> Some \<lparr>cls = c, tag_value = rest, version = None\<rparr>
                | Some (v, ver) \<Rightarrow>
                    Some \<lparr>cls = c, tag_value = v, version = Some (splitOn (CHR ''.'') ver)\<rparr>))"

definition isNumeric :: "string \<Rightarrow> bool" where
  "isNumeric s \<longleftrightarrow> s \<noteq> [] \<and> list_all is_digit s"

definition digit_value :: "char \<Rightarrow> nat" where
  "digit_value c = (of_char c :: nat) - 48"

definition js_Number :: "string \<Rightarrow> nat" where
  "js_Number s = foldl (\<lambda>n c. 10 * n + digit_value c) 0 s"

definition segMatch :: "string \<Rightarrow> string \<Rightarrow> bool" where
  "segMatch r ow =
     (if isNumeric r \<and> isNumeric ow then js_Number r = js_Number ow else r = ow)"

fun versionLoop :: "string list \<Rightarrow> string list \<Rightarrow> bool" where
  "versionLoop [] own = True"
| "versionLoop (r # rs) [] = False"
| "versionLoop (r # rs) (ow # os) = (segMatch r ow \<and> versionLoop rs os)"

definition versionMatch :: "string list \<Rightarrow> string list \<Rightarrow> bool" where
  "versionMatch req own = (if length own < length req then False else versionLoop req own)"

definition tagMatch :: "string \<Rightarrow> parsed_tag \<Rightarrow> bool \<Rightarrow> string \<Rightarrow> bool" where
  "tagMatch required r known own =
     (case parseTag own of
        None \<Rightarrow> False
      | Some p \<Rightarrow>
          if cls p \<noteq> cls r then False
          else if \<not> known then own = required
          else if tag_value p \<noteq> tag_value r then False
          else (case version r of
                  None \<Rightarrow> True
                | Some rv \<Rightarrow> (case version p of None \<Rightarrow> False | Some pv \<Rightarrow> versionMatch rv pv)))"

definition matchOne :: "string \<Rightarrow> string list \<Rightarrow> bool" where
  "matchOne required owned =
     (case parseTag required of
        None \<Rightarrow> False
      | Some r \<Rightarrow>
          let known = (cls r \<in> set KNOWN_CAP_CLASSES)
          in list_ex (tagMatch required r known) owned)"

record caps_match =
  caps_ok :: bool
  caps_missing :: "string list"

definition matchCaps :: "string list \<Rightarrow> string list \<Rightarrow> caps_match" where
  "matchCaps required owned =
     (let miss = filter (\<lambda>r. \<not> matchOne r owned) required
      in \<lparr>caps_ok = (length miss = 0), caps_missing = miss\<rparr>)"

section \<open>Lemmas\<close>

lemma segMatch_refl [simp]: "segMatch s s"
  by (simp add: segMatch_def)

lemma segMatch_trans: "segMatch a b \<Longrightarrow> segMatch b c \<Longrightarrow> segMatch a c"
  by (auto simp: segMatch_def split: if_splits)

lemma versionLoop_refl [simp]: "versionLoop v v"
  by (induction v) simp_all

lemma versionLoop_trans: "versionLoop a b \<Longrightarrow> versionLoop b c \<Longrightarrow> versionLoop a c"
proof (induction a b arbitrary: c rule: versionLoop.induct)
  case (3 r rs ow os)
  then show ?case by (cases c) (auto intro: segMatch_trans)
qed simp_all

lemma versionLoop_length: "versionLoop a b \<Longrightarrow> length a \<le> length b"
  by (induction a b rule: versionLoop.induct) simp_all

lemma versionLoop_append [simp]: "versionLoop a (a @ b)"
  by (induction a) simp_all

lemma versionMatch_eq_loop: "versionMatch a b = versionLoop a b"
  by (auto simp: versionMatch_def dest: versionLoop_length)

lemma matchOne_mono: "matchOne r owned \<Longrightarrow> set owned \<subseteq> set owned' \<Longrightarrow> matchOne r owned'"
  by (auto simp: matchOne_def Let_def list_ex_iff split: option.splits)

lemma matchOne_iff_single: "matchOne r owned \<longleftrightarrow> (\<exists>ow \<in> set owned. matchOne r [ow])"
  by (auto simp: matchOne_def Let_def list_ex_iff split: option.splits)

lemma matchOne_refl: "parseTag t \<noteq> None \<Longrightarrow> matchOne t [t]"
  by (auto simp: matchOne_def Let_def tagMatch_def versionMatch_eq_loop split: option.splits)

lemma matchOne_singleD:
  assumes "matchOne a [b]"
  obtains p q where "parseTag a = Some p" "parseTag b = Some q" "cls q = cls p"
    "if cls p \<in> set KNOWN_CAP_CLASSES
     then tag_value q = tag_value p \<and>
          (\<forall>v. version p = Some v \<longrightarrow> (\<exists>w. version q = Some w \<and> versionLoop v w))
     else b = a"
  using assms
  by (auto simp: matchOne_def Let_def tagMatch_def versionMatch_eq_loop
      split: option.splits if_splits)

lemma matchOne_singleI:
  assumes "parseTag a = Some p" "parseTag b = Some q" "cls q = cls p"
    "if cls p \<in> set KNOWN_CAP_CLASSES
     then tag_value q = tag_value p \<and>
          (\<forall>v. version p = Some v \<longrightarrow> (\<exists>w. version q = Some w \<and> versionLoop v w))
     else b = a"
  shows "matchOne a [b]"
  using assms
  by (auto simp: matchOne_def Let_def tagMatch_def versionMatch_eq_loop
      split: option.splits if_splits)

lemma matchOne_trans:
  assumes "matchOne a [b]" and "matchOne b [c]"
  shows "matchOne a [c]"
proof -
  from assms(1) obtain p q where ab: "parseTag a = Some p" "parseTag b = Some q" "cls q = cls p"
    "if cls p \<in> set KNOWN_CAP_CLASSES
     then tag_value q = tag_value p \<and>
          (\<forall>v. version p = Some v \<longrightarrow> (\<exists>w. version q = Some w \<and> versionLoop v w))
     else b = a"
    by (rule matchOne_singleD)
  from assms(2) obtain q' r where bc: "parseTag b = Some q'" "parseTag c = Some r" "cls r = cls q'"
    "if cls q' \<in> set KNOWN_CAP_CLASSES
     then tag_value r = tag_value q' \<and>
          (\<forall>v. version q' = Some v \<longrightarrow> (\<exists>w. version r = Some w \<and> versionLoop v w))
     else c = b"
    by (rule matchOne_singleD)
  show ?thesis
  proof (rule matchOne_singleI [OF ab(1) bc(2)])
    show "cls r = cls p" using ab bc by simp
    show "if cls p \<in> set KNOWN_CAP_CLASSES
      then tag_value r = tag_value p \<and>
           (\<forall>v. version p = Some v \<longrightarrow> (\<exists>w. version r = Some w \<and> versionLoop v w))
      else c = a"
    proof (cases "cls p \<in> set KNOWN_CAP_CLASSES")
      case True
      with ab(4) have pq: "tag_value q = tag_value p"
        "\<And>v. version p = Some v \<Longrightarrow> \<exists>w. version q = Some w \<and> versionLoop v w" by simp_all
      from True ab bc have qr: "tag_value r = tag_value q"
        "\<And>v. version q = Some v \<Longrightarrow> \<exists>w. version r = Some w \<and> versionLoop v w" by simp_all
      have "\<exists>w. version r = Some w \<and> versionLoop v w" if "version p = Some v" for v
        using pq(2) [OF that] qr(2) versionLoop_trans by blast
      with True pq(1) qr(1) show ?thesis by simp
    next
      case False
      with ab bc show ?thesis by simp
    qed
  qed
qed

lemma matchCaps_ok_iff: "caps_ok (matchCaps required owned) \<longleftrightarrow> (\<forall>r \<in> set required. matchOne r owned)"
  by (simp add: matchCaps_def Let_def filter_empty_conv)

text \<open>
  matching is a preorder: a tag that parses is met by itself, and when every required tag is met
  by a visible set and every tag of that set is met by an owned set, the owned set meets all
  requirements. A grant that narrows what a team sees can therefore never make the gateway admit a
  requirement that the tags behind the grant do not meet.
\<close>

theorem matchCaps_chain:
  assumes "caps_ok (matchCaps required visible)" and "caps_ok (matchCaps visible owned)"
  shows "caps_ok (matchCaps required owned)"
proof -
  have "matchOne r owned" if r: "r \<in> set required" for r
  proof -
    from assms(1) r obtain v where v: "v \<in> set visible" "matchOne r [v]"
      using matchCaps_ok_iff matchOne_iff_single [of r visible] by blast
    with assms(2) obtain w where w: "w \<in> set owned" "matchOne v [w]"
      using matchCaps_ok_iff matchOne_iff_single [of v owned] by blast
    with v have "matchOne r [w]" by (blast intro: matchOne_trans)
    with w show ?thesis using matchOne_iff_single [of r owned] by blast
  qed
  then show ?thesis by (simp add: matchCaps_ok_iff)
qed

lemma caps_example_1: "caps_ok (matchCaps [''env:py''] [''env:py@3.11''])"
  by code_simp

lemma caps_example_2: "caps_ok (matchCaps [''env:py@3.11''] [''env:py@03.11.4''])"
  by code_simp

lemma caps_example_3: "caps_missing (matchCaps [''env:pyt'', ''hw:gpu''] [''env:python'', ''hw:gpu'']) = [''env:pyt'']"
  by code_simp

theorem matchCaps_chain_witness:
  "caps_ok (matchCaps [''env:py''] [''env:py@3.11'']) \<and> caps_ok (matchCaps [''env:py@3.11''] [''env:py@03.11.4'']) \<and>
   caps_ok (matchCaps [''env:py''] [''env:py@03.11.4''])"
  using matchCaps_chain [OF caps_example_1 caps_example_2] caps_example_1 caps_example_2 by simp

end
