(* ===== verification/Core_Envelope.thy ===== *)
theory Core_Envelope
  imports Core_Params
begin

text \<open>
  The message envelope: its validator (\<open>packages/core/src/envelope.ts\<close>), signatures (\<open>sig.ts\<close>), the
  audit digest (\<open>audit.ts\<close>), the transport and gateway frames (\<open>transport.ts\<close>, \<open>frames.ts\<close>) and the lease
  renewal contract (\<open>lease.ts\<close>). An envelope is a JSON object; \<open>envelopeOf\<close> is the typed view the rest of
  the program reads after the cast to \<open>EnvelopeV1\<close>.

  Parameters, for code that is not in the repository: \<open>parse\<close> is \<open>Date.parse\<close> (\<open>None\<close> is NaN), \<open>b64len\<close> the
  number of bytes \<open>Buffer.from(s, 'base64')\<close> yields, \<open>jcs\<close> the canonical serialisation of the
  \<open>canonicalize\<close> package, \<open>sha\<close> the hex SHA-256 digest, and the ed25519 operations.
\<close>

section \<open>Syntax of types and timestamps\<close>

definition is_seg_char :: "char \<Rightarrow> bool" where
  "is_seg_char c \<longleftrightarrow> is_lower c \<or> is_digit c \<or> c = CHR ''-''"

definition TYPE_RE :: "string \<Rightarrow> bool" where
  "TYPE_RE s =
     (case splitOn (CHR ''.'') s of
        (c # cs) # seg # segs \<Rightarrow>
          is_lower c \<and> list_all is_seg_char cs \<and>
          list_all (\<lambda>x. x \<noteq> [] \<and> list_all is_seg_char x) (seg # segs)
      | _ \<Rightarrow> False)"

definition is_char :: "char \<Rightarrow> char \<Rightarrow> bool" where
  "is_char c d \<longleftrightarrow> d = c"

definition rfc_prefix :: "(char \<Rightarrow> bool) list" where
  "rfc_prefix =
     replicate 4 is_digit @ [is_char (CHR ''-'')] @ replicate 2 is_digit @ [is_char (CHR ''-'')] @
     replicate 2 is_digit @ [\<lambda>c. c \<in> set ''Tt''] @
     replicate 2 is_digit @ [is_char (CHR '':'')] @ replicate 2 is_digit @ [is_char (CHR '':'')] @
     replicate 2 is_digit"

definition rfc_zone :: "string \<Rightarrow> bool" where
  "rfc_zone s \<longleftrightarrow> s = ''Z'' \<or> s = ''z'' \<or>
     matches ([\<lambda>c. c \<in> set ''+-''] @ replicate 2 is_digit @ [is_char (CHR '':'')] @ replicate 2 is_digit) s"

definition RFC3339_RE :: "string \<Rightarrow> bool" where
  "RFC3339_RE s =
     (matches rfc_prefix (take 19 s) \<and>
      (case drop 19 s of
         c # rest \<Rightarrow>
           if c = CHR ''.''
           then takeWhile is_digit rest \<noteq> [] \<and> rfc_zone (dropWhile is_digit rest)
           else rfc_zone (c # rest)
       | [] \<Rightarrow> False))"

definition familyOf :: "string \<Rightarrow> string" where
  "familyOf type = hd (splitOn (CHR ''.'') type)"

definition KNOWN_FAMILIES :: "string list" where
  "KNOWN_FAMILIES = [''task'', ''rpc'']"

definition isKnownFamily :: "string \<Rightarrow> bool" where
  "isKnownFamily f = List.member KNOWN_FAMILIES f"

definition isRfc3339 :: "date_parser \<Rightarrow> json option \<Rightarrow> bool" where
  "isRfc3339 parse v = (case v of Some (JStr s) \<Rightarrow> RFC3339_RE s \<and> parse s \<noteq> None | _ \<Rightarrow> False)"

section \<open>Numbers\<close>

text \<open>Decimal digits of an array index.\<close>

fun show_nat :: "nat \<Rightarrow> string" where
  "show_nat n = (if n < 10 then [''0123456789'' ! n] else show_nat (n div 10) @ [''0123456789'' ! (n mod 10)])"

declare show_nat.simps [simp del]

text \<open>
  An error is the field it names; the texts of the source differ only in their wording. \<open>Ve_float\<close> is
  an entry of the deep check and carries its path.
\<close>

datatype env_error =
    Ve string
  | Ve_required string
  | Ve_hops_exceeded nat
  | Ve_sig_bytes
  | Ve_float string

fun assertNoFloats :: "json \<Rightarrow> string \<Rightarrow> env_error list"
  and assertNoFloats_arr :: "json list \<Rightarrow> string \<Rightarrow> nat \<Rightarrow> env_error list"
  and assertNoFloats_obj :: "(string \<times> json) list \<Rightarrow> string \<Rightarrow> env_error list" where
  "assertNoFloats (JNum q) path = (if isSafeInteger q then [] else [Ve_float path])"
| "assertNoFloats (JArr xs) path = assertNoFloats_arr xs path 0"
| "assertNoFloats (JObj fs) path = assertNoFloats_obj fs path"
| "assertNoFloats JNull path = []"
| "assertNoFloats (JBool b) path = []"
| "assertNoFloats (JStr s) path = []"
| "assertNoFloats_arr [] path i = []"
| "assertNoFloats_arr (x # xs) path i =
     assertNoFloats x (path @ ''['' @ show_nat i @ '']'') @ assertNoFloats_arr xs path (i + 1)"
| "assertNoFloats_obj [] path = []"
| "assertNoFloats_obj ((k, x) # fs) path =
     assertNoFloats x (path @ ''.'' @ k) @ assertNoFloats_obj fs path"

section \<open>The validator\<close>

definition must :: "bool \<Rightarrow> env_error \<Rightarrow> env_error list" where
  "must c e = (if c then [] else [e])"

definition optionally :: "(json option \<Rightarrow> bool) \<Rightarrow> json option \<Rightarrow> bool" where
  "optionally P v \<longleftrightarrow> v = None \<or> P v"

definition obj_opt :: "json option \<Rightarrow> string \<Rightarrow> json option" where
  "obj_opt v k = (case v of None \<Rightarrow> None | Some j \<Rightarrow> obj_get j k)"

definition is_obj :: "json option \<Rightarrow> bool" where
  "is_obj v = (case v of Some j \<Rightarrow> isPlainObject j | None \<Rightarrow> False)"

definition check_head :: "date_parser \<Rightarrow> json \<Rightarrow> env_error list" where
  "check_head parse e =
     must (obj_get e ''v'' = Some (JNum 1)) (Ve ''v'') @
     must (case obj_get e ''type'' of Some (JStr s) \<Rightarrow> TYPE_RE s | _ \<Rightarrow> False) (Ve ''type'') @
     must (isUuid (obj_get e ''msg_id'')) (Ve ''msg_id'') @
     must (isRfc3339 parse (obj_get e ''ts'')) (Ve ''ts'') @
     must (optionally isUuid (obj_get e ''reply_to'')) (Ve ''reply_to'')"

definition check_from :: "json option \<Rightarrow> env_error list" where
  "check_from f =
     (if \<not> is_obj f then [Ve ''from'']
      else must (isUuid (obj_opt f ''node_id'')) (Ve ''from.node_id'') @
           must (isSafeIntGe 1 (obj_opt f ''key_epoch'')) (Ve ''from.key_epoch'') @
           must (optionally isNonEmptyStr (obj_opt f ''team_id'')) (Ve ''from.team_id'') @
           must (optionally isNonEmptyStr (obj_opt f ''agent_id'')) (Ve ''from.agent_id''))"

definition check_to :: "json option \<Rightarrow> env_error list" where
  "check_to t =
     (if \<not> is_obj t then [Ve ''to'']
      else must (isUuid (obj_opt t ''node_id'')) (Ve ''to.node_id'') @
           must (optionally isNonEmptyStr (obj_opt t ''team_id'')) (Ve ''to.team_id''))"

definition check_trace :: "json option \<Rightarrow> env_error list" where
  "check_trace t =
     (if \<not> is_obj t then [Ve ''trace'']
      else must (isUuid (obj_opt t ''trace_id'')) (Ve ''trace.trace_id'') @
           must (obj_opt t ''parent_span'' = Some JNull \<or> isUuid (obj_opt t ''parent_span''))
             (Ve ''trace.parent_span'') @
           must (isUuid (obj_opt t ''origin_node'')) (Ve ''trace.origin_node''))"

definition check_hops :: "bool \<Rightarrow> qlong_params \<Rightarrow> json option \<Rightarrow> env_error list" where
  "check_hops isTask p hops =
     (case hops of
        None \<Rightarrow> if isTask then [Ve_required ''hops''] else []
      | Some h \<Rightarrow>
          if \<not> isSafeIntGe 0 hops then [Ve ''hops'']
          else if isTask \<and> of_nat (maxHops p) < the (num_of hops) then [Ve_hops_exceeded (maxHops p)]
          else [])"

definition check_task :: "bool \<Rightarrow> json option \<Rightarrow> json option \<Rightarrow> env_error list" where
  "check_task isTask tid att =
     (if isTask
      then must (isUuid tid) (Ve_required ''task_id'') @ must (isSafeIntGe 1 att) (Ve_required ''attempt'')
      else must (optionally isUuid tid) (Ve ''task_id'') @
           must (optionally (isSafeIntGe 1) att) (Ve ''attempt''))"

definition check_exp :: "date_parser \<Rightarrow> bool \<Rightarrow> json option \<Rightarrow> env_error list" where
  "check_exp parse isTask x =
     (case x of
        None \<Rightarrow> if isTask then [Ve_required ''exp''] else []
      | Some _ \<Rightarrow> must (isRfc3339 parse x) (Ve ''exp''))"

definition check_sig :: "(string \<Rightarrow> nat) \<Rightarrow> bool \<Rightarrow> json option \<Rightarrow> env_error list" where
  "check_sig b64len allowMissingSig s =
     (if \<not> is_obj s then (if allowMissingSig then [] else [Ve_required ''sig''])
      else must (obj_opt s ''alg'' = Some (JStr ''ed25519'')) (Ve ''sig.alg'') @
           (if \<not> isNonEmptyStr (obj_opt s ''value'') then [Ve ''sig.value'']
            else must (b64len (the (str_of (obj_opt s ''value''))) = 64) Ve_sig_bytes))"

definition validateEnvelope ::
  "date_parser \<Rightarrow> (string \<Rightarrow> nat) \<Rightarrow> json \<Rightarrow> qlong_params \<Rightarrow> bool \<Rightarrow> env_error list + json" where
  "validateEnvelope parse b64len raw p allowMissingSig =
     (if \<not> isPlainObject raw then Inl [Ve ''envelope'']
      else
        (let e = obj_get raw;
             fam = (case str_of (e ''type'') of Some t \<Rightarrow> familyOf t | None \<Rightarrow> []);
             isTask = (fam = ''task'');
             isRpc = (fam = ''rpc'');
             errors =
               check_head parse raw @ check_from (e ''from'') @ check_to (e ''to'') @
               check_trace (e ''trace'') @ check_hops isTask p (e ''hops'') @
               check_task isTask (e ''task_id'') (e ''attempt'') @ check_exp parse isTask (e ''exp'') @
               (if isTask \<or> isRpc then check_sig b64len allowMissingSig (e ''sig'') else []) @
               must (is_obj (e ''body'')) (Ve ''body'') @
               assertNoFloats raw ''envelope''
         in if errors \<noteq> [] then Inl errors else Inr raw))"

section \<open>The typed view\<close>

text \<open>
  \<open>EnvelopeV1\<close> as the other components read it. The validator guarantees that the fields have these
  types; epochs, attempts and hops are natural numbers.
\<close>

record envelope =
  e_type :: string
  e_msg_id :: string
  e_exp :: "string option"
  e_from_node :: string
  e_from_team :: "string option"
  e_key_epoch :: nat
  e_to_node :: string
  e_to_team :: "string option"
  e_reply_to :: "string option"
  e_trace :: trace_context
  e_hops :: "nat option"
  e_task_id :: "string option"
  e_attempt :: "nat option"
  e_body :: body

definition nat_of :: "json option \<Rightarrow> nat option" where
  "nat_of v = map_option (\<lambda>q. nat \<lfloor>q\<rfloor>) (num_of v)"

definition str_or :: "json option \<Rightarrow> string" where
  "str_or v = (case str_of v of Some s \<Rightarrow> s | None \<Rightarrow> [])"

definition envelopeOf :: "json \<Rightarrow> envelope" where
  "envelopeOf e =
     (let g = obj_get e; f = obj_opt (g ''from''); t = obj_opt (g ''to''); tr = obj_opt (g ''trace'') in
      \<lparr>e_type = str_or (g ''type''), e_msg_id = str_or (g ''msg_id''), e_exp = str_of (g ''exp''),
       e_from_node = str_or (f ''node_id''), e_from_team = str_of (f ''team_id''),
       e_key_epoch = (case nat_of (f ''key_epoch'') of Some n \<Rightarrow> n | None \<Rightarrow> 0),
       e_to_node = str_or (t ''node_id''), e_to_team = str_of (t ''team_id''),
       e_reply_to = str_of (g ''reply_to''),
       e_trace = \<lparr>trace_id = str_or (tr ''trace_id''), parent_span = str_of (tr ''parent_span''),
                  origin_node = str_or (tr ''origin_node'')\<rparr>,
       e_hops = nat_of (g ''hops''), e_task_id = str_of (g ''task_id''), e_attempt = nat_of (g ''attempt''),
       e_body = (case g ''body'' of Some (JObj b) \<Rightarrow> b | _ \<Rightarrow> [])\<rparr>)"

section \<open>Signatures and digests\<close>

text \<open>Object rest: the fields of the object without one of them.\<close>

definition without :: "string \<Rightarrow> body \<Rightarrow> body" where
  "without k fs = filter (\<lambda>(k', _). k' \<noteq> k) fs"

definition SUPPORTED_ALGS :: "string list" where
  "SUPPORTED_ALGS = [''ed25519'']"

datatype sig_failure = Missing_sig | Alg_not_allowed | Unknown_key | Bad_sig

definition signatureInput :: "(json \<Rightarrow> string) \<Rightarrow> body \<Rightarrow> string" where
  "signatureInput jcs env = jcs (JObj (without ''sig'' env))"

text \<open>Object spread with a new \<open>sig\<close>: it overwrites in place or is appended.\<close>

definition signEnvelope ::
  "(json \<Rightarrow> string) \<Rightarrow> (string \<Rightarrow> 'k \<Rightarrow> 'b) \<Rightarrow> ('b \<Rightarrow> string) \<Rightarrow> body \<Rightarrow> 'k \<Rightarrow> body" where
  "signEnvelope jcs sign toBase64 env priv =
     AList.update ''sig''
       (JObj [(''alg'', JStr ''ed25519''), (''value'', JStr (toBase64 (sign (signatureInput jcs env) priv)))]) env"

definition verifyEnvelopeSig ::
  "(json \<Rightarrow> string) \<Rightarrow> ('b \<Rightarrow> string \<Rightarrow> 'p \<Rightarrow> bool) \<Rightarrow> (string \<Rightarrow> 'b) \<Rightarrow> body
     \<Rightarrow> (string \<Rightarrow> number \<Rightarrow> 'p option) \<Rightarrow> sig_failure + unit" where
  "verifyEnvelopeSig jcs verify fromBase64 env getPublicKeyByEpoch =
     (case map_of env ''sig'' of
        None \<Rightarrow> Inl Missing_sig
      | Some sig \<Rightarrow>
          if \<not> (case str_of (obj_get sig ''alg'') of Some a \<Rightarrow> a \<in> set SUPPORTED_ALGS | None \<Rightarrow> False)
          then Inl Alg_not_allowed
          else (case getPublicKeyByEpoch (the (str_of (obj_opt (map_of env ''from'') ''node_id'')))
                       (the (num_of (obj_opt (map_of env ''from'') ''key_epoch''))) of
                  None \<Rightarrow> Inl Unknown_key
                | Some pub \<Rightarrow>
                    if verify (fromBase64 (the (str_of (obj_get sig ''value'')))) (signatureInput jcs env) pub
                    then Inr () else Inl Bad_sig))"

definition envelopeDigest :: "(json \<Rightarrow> string) \<Rightarrow> (string \<Rightarrow> string) \<Rightarrow> body \<Rightarrow> string" where
  "envelopeDigest jcs sha env = sha (jcs (JObj env))"

definition envelopeHeadDigest :: "(json \<Rightarrow> string) \<Rightarrow> (string \<Rightarrow> string) \<Rightarrow> body \<Rightarrow> string" where
  "envelopeHeadDigest jcs sha env = take 32 (sha (jcs (JObj (without ''body'' env))))"

section \<open>Frames\<close>

definition CUSTODY_FEATURES :: "string list" where
  "CUSTODY_FEATURES = [''durable-custody'', ''receiver-receipt'', ''lease-renewal'']"

definition MAX_TRANSPORT_BYTES :: number where
  "MAX_TRANSPORT_BYTES = 256 * 1024"

definition MAX_TRANSPORT_LIFETIME_MS :: number where
  "MAX_TRANSPORT_LIFETIME_MS = 24 * 60 * 60 * 1000"

definition hasCustodyFeatures :: "json option \<Rightarrow> bool" where
  "hasCustodyFeatures value =
     (case arr_of value of
        None \<Rightarrow> False
      | Some xs \<Rightarrow> list_all (\<lambda>feature. JStr feature \<in> set xs) CUSTODY_FEATURES)"

definition isDeliveryIdentity :: "json \<Rightarrow> bool" where
  "isDeliveryIdentity v \<longleftrightarrow>
     isPlainObject v \<and> isNonEmptyStr (obj_get v ''from_node'') \<and> isNonEmptyStr (obj_get v ''msg_id'') \<and>
     (case str_of (obj_get v ''digest'') of Some d \<Rightarrow> matches (replicate 64 is_hex) d | None \<Rightarrow> False)"

definition isStoredFrame :: "json \<Rightarrow> bool" where
  "isStoredFrame v \<longleftrightarrow> isDeliveryIdentity v \<and> obj_get v ''frame'' = Some (JStr ''stored'')"

definition isReceiptFrame :: "json \<Rightarrow> bool" where
  "isReceiptFrame v \<longleftrightarrow>
     isDeliveryIdentity v \<and> obj_get v ''frame'' = Some (JStr ''receipt'') \<and>
     (case str_of (obj_get v ''ticket'') of Some t \<Rightarrow> length t \<le> 128 \<and> 0 < length t | None \<Rightarrow> False)"

definition isGatewayAck :: "json \<Rightarrow> bool" where
  "isGatewayAck v \<longleftrightarrow>
     isPlainObject v \<and>
     obj_get v ''ack_type'' \<in> {Some (JStr ''delivered''), Some (JStr ''queued''), Some (JStr ''rejected'')} \<and>
     str_of (obj_get v ''msg_id'') \<noteq> None \<and>
     (obj_get v ''reason'' = None \<or> str_of (obj_get v ''reason'') \<noteq> None)"

definition isRoutingDenied :: "json \<Rightarrow> bool" where
  "isRoutingDenied v \<longleftrightarrow>
     isPlainObject v \<and> str_of (obj_get v ''rule'') \<noteq> None \<and> str_of (obj_get v ''reason_code'') \<noteq> None \<and>
     str_of (obj_get v ''msg_id'') \<noteq> None"

section \<open>Lease renewals\<close>

record lease_fence =
  lf_task_id :: string
  lf_attempt :: number
  lf_generation :: number
  lf_run_id :: string

definition isPositiveSafeInteger :: "number \<Rightarrow> bool" where
  "isPositiveSafeInteger q \<longleftrightarrow> isSafeInteger q \<and> 0 < q"

definition posSafeInt :: "json option \<Rightarrow> bool" where
  "posSafeInt v = (case num_of v of Some q \<Rightarrow> isPositiveSafeInteger q | None \<Rightarrow> False)"

definition isLeaseFence :: "lease_fence \<Rightarrow> bool" where
  "isLeaseFence f \<longleftrightarrow>
     isUuidStr (lf_task_id f) \<and> isPositiveSafeInteger (lf_attempt f) \<and>
     isPositiveSafeInteger (lf_generation f) \<and> isUuidStr (lf_run_id f)"

definition isLeaseRenewalBody :: "body \<Rightarrow> bool" where
  "isLeaseRenewalBody b \<longleftrightarrow>
     posSafeInt (map_of b ''generation'') \<and> isUuid (map_of b ''run_id'') \<and>
     isUuid (map_of b ''progress_msg_id'') \<and> posSafeInt (map_of b ''progress_seq'') \<and>
     posSafeInt (map_of b ''renewal_seq'') \<and> num_of (map_of b ''deadline_ms'') \<noteq> None"

text \<open>Every number of the model is finite, so the finiteness tests of the source hold throughout.\<close>

record renewal_input =
  ri_body :: body
  ri_fence :: lease_fence
  ri_progressMsgId :: string
  ri_progressSeq :: number
  ri_lastRenewalSeq :: number
  ri_now :: number
  ri_maxLeaseMs :: number
  ri_currentDeadlineMs :: number

definition canApplyLeaseRenewal :: "renewal_input \<Rightarrow> bool" where
  "canApplyLeaseRenewal input =
     (let b = ri_body input; fence = ri_fence input; now = ri_now input in
      if \<not> isLeaseRenewalBody b \<or> \<not> isLeaseFence fence then False
      else if \<not> isUuidStr (ri_progressMsgId input) \<or> \<not> isPositiveSafeInteger (ri_progressSeq input) then False
      else if \<not> isSafeInteger (ri_lastRenewalSeq input) \<or> ri_lastRenewalSeq input < 0 then False
      else if ri_maxLeaseMs input \<le> 0 then False
      else
        map_of b ''generation'' = Some (JNum (lf_generation fence)) \<and>
        map_of b ''run_id'' = Some (JStr (lf_run_id fence)) \<and>
        map_of b ''progress_msg_id'' = Some (JStr (ri_progressMsgId input)) \<and>
        map_of b ''progress_seq'' = Some (JNum (ri_progressSeq input)) \<and>
        ri_lastRenewalSeq input < the (num_of (map_of b ''renewal_seq'')) \<and>
        now < ri_currentDeadlineMs input \<and>
        now < the (num_of (map_of b ''deadline_ms'')) \<and>
        the (num_of (map_of b ''deadline_ms'')) \<le> now + ri_maxLeaseMs input)"

section \<open>The deep number check\<close>

fun numbers :: "json \<Rightarrow> number set" where
  "numbers (JNum q) = {q}"
| "numbers (JArr xs) = (\<Union>x\<in>set xs. numbers x)"
| "numbers (JObj fs) = (\<Union>(k, x)\<in>set fs. numbers x)"
| "numbers _ = {}"

lemma assertNoFloats_iff:
  "assertNoFloats v path = [] \<longleftrightarrow> (\<forall>q \<in> numbers v. isSafeInteger q)"
  "assertNoFloats_arr xs path i = [] \<longleftrightarrow> (\<forall>x \<in> set xs. \<forall>q \<in> numbers x. isSafeInteger q)"
  "assertNoFloats_obj fs path = [] \<longleftrightarrow> (\<forall>(k, x) \<in> set fs. \<forall>q \<in> numbers x. isSafeInteger q)"
  by (induction v path and xs path i and fs path
      rule: assertNoFloats_assertNoFloats_arr_assertNoFloats_obj.induct) auto

lemma must_Nil [simp]: "must c e = [] \<longleftrightarrow> c"
  by (simp add: must_def)

section \<open>What a valid envelope guarantees\<close>

definition family :: "json \<Rightarrow> string" where
  "family e = (case str_of (obj_get e ''type'') of Some t \<Rightarrow> familyOf t | None \<Rightarrow> [])"

text \<open>The promise of the header fields that every family has.\<close>

definition common_ok :: "date_parser \<Rightarrow> json \<Rightarrow> bool" where
  "common_ok parse e \<longleftrightarrow>
     obj_get e ''v'' = Some (JNum 1) \<and>
     (\<exists>t. obj_get e ''type'' = Some (JStr t) \<and> TYPE_RE t) \<and>
     isUuid (obj_get e ''msg_id'') \<and> isRfc3339 parse (obj_get e ''ts'') \<and>
     optionally isUuid (obj_get e ''reply_to'') \<and>
     (\<exists>f. obj_get e ''from'' = Some (JObj f) \<and> isUuid (map_of f ''node_id'') \<and>
        isSafeIntGe 1 (map_of f ''key_epoch'') \<and> optionally isNonEmptyStr (map_of f ''team_id'') \<and>
        optionally isNonEmptyStr (map_of f ''agent_id'')) \<and>
     (\<exists>t. obj_get e ''to'' = Some (JObj t) \<and> isUuid (map_of t ''node_id'') \<and>
        optionally isNonEmptyStr (map_of t ''team_id'')) \<and>
     (\<exists>t. obj_get e ''trace'' = Some (JObj t) \<and> isUuid (map_of t ''trace_id'') \<and>
        (map_of t ''parent_span'' = Some JNull \<or> isUuid (map_of t ''parent_span'')) \<and>
        isUuid (map_of t ''origin_node'')) \<and>
     (\<exists>b. obj_get e ''body'' = Some (JObj b))"

definition signed_ok :: "(string \<Rightarrow> nat) \<Rightarrow> json option \<Rightarrow> bool" where
  "signed_ok b64len s \<longleftrightarrow>
     (\<exists>fs v. s = Some (JObj fs) \<and> map_of fs ''alg'' = Some (JStr ''ed25519'') \<and>
        map_of fs ''value'' = Some (JStr v) \<and> v \<noteq> [] \<and> b64len v = 64)"

text \<open>What the family adds: a task message is bound to a task, an attempt, a horizon and a hop budget.\<close>

definition family_ok ::
  "date_parser \<Rightarrow> (string \<Rightarrow> nat) \<Rightarrow> qlong_params \<Rightarrow> bool \<Rightarrow> json \<Rightarrow> bool" where
  "family_ok parse b64len p allowMissingSig e \<longleftrightarrow>
     (if family e = ''task''
      then isUuid (obj_get e ''task_id'') \<and> isSafeIntGe 1 (obj_get e ''attempt'') \<and>
           isRfc3339 parse (obj_get e ''exp'') \<and>
           (\<exists>h. obj_get e ''hops'' = Some (JNum h) \<and> isSafeInteger h \<and> 0 \<le> h \<and> h \<le> of_nat (maxHops p))
      else optionally isUuid (obj_get e ''task_id'') \<and> optionally (isSafeIntGe 1) (obj_get e ''attempt'') \<and>
           optionally (isRfc3339 parse) (obj_get e ''exp'') \<and> optionally (isSafeIntGe 0) (obj_get e ''hops'')) \<and>
     (family e \<in> {''task'', ''rpc''} \<longrightarrow>
        signed_ok b64len (obj_get e ''sig'') \<or> allowMissingSig \<and> \<not> is_obj (obj_get e ''sig''))"

lemma is_obj_iff: "is_obj v \<longleftrightarrow> (\<exists>fs. v = Some (JObj fs))"
  by (cases v) (auto simp: is_obj_def elim: isPlainObject.elims)

lemma obj_opt_Some [simp]: "obj_opt (Some (JObj fs)) k = map_of fs k"
  by (simp add: obj_opt_def)

lemma isNonEmptyStr_iff: "isNonEmptyStr v \<longleftrightarrow> (\<exists>s. v = Some (JStr s) \<and> s \<noteq> [])"
  by (auto simp: isNonEmptyStr_def split: option.splits json.splits)

lemma isSafeIntGe_iff: "isSafeIntGe lo v \<longleftrightarrow> (\<exists>q. v = Some (JNum q) \<and> isSafeInteger q \<and> lo \<le> q)"
  by (auto simp: isSafeIntGe_def split: option.splits json.splits)

lemma check_sig_iff:
  "check_sig b64len allow s = [] \<longleftrightarrow> signed_ok b64len s \<or> allow \<and> \<not> is_obj s"
proof (cases "is_obj s")
  case True
  then obtain fs where "s = Some (JObj fs)" by (auto simp: is_obj_iff)
  then show ?thesis
    by (auto simp: check_sig_def is_obj_iff signed_ok_def isNonEmptyStr_iff)
next
  case False
  then show ?thesis by (auto simp: check_sig_def is_obj_iff signed_ok_def)
qed

lemma check_parts:
  "check_from f = [] \<longleftrightarrow> (\<exists>fs. f = Some (JObj fs) \<and> isUuid (map_of fs ''node_id'') \<and>
     isSafeIntGe 1 (map_of fs ''key_epoch'') \<and> optionally isNonEmptyStr (map_of fs ''team_id'') \<and>
     optionally isNonEmptyStr (map_of fs ''agent_id''))"
  "check_to f = [] \<longleftrightarrow> (\<exists>fs. f = Some (JObj fs) \<and> isUuid (map_of fs ''node_id'') \<and>
     optionally isNonEmptyStr (map_of fs ''team_id''))"
  "check_trace f = [] \<longleftrightarrow> (\<exists>fs. f = Some (JObj fs) \<and> isUuid (map_of fs ''trace_id'') \<and>
     (map_of fs ''parent_span'' = Some JNull \<or> isUuid (map_of fs ''parent_span'')) \<and>
     isUuid (map_of fs ''origin_node''))"
  by (cases "is_obj f"; auto simp: check_from_def check_to_def check_trace_def is_obj_iff)+

lemma check_hops_iff:
  "check_hops True p h = [] \<longleftrightarrow>
     (\<exists>q. h = Some (JNum q) \<and> isSafeInteger q \<and> 0 \<le> q \<and> q \<le> of_nat (maxHops p))"
  "check_hops False p h = [] \<longleftrightarrow> optionally (isSafeIntGe 0) h"
  by (cases h; auto simp: check_hops_def optionally_def isSafeIntGe_iff not_less)+

lemma check_exp_iff:
  "check_exp parse True x = [] \<longleftrightarrow> isRfc3339 parse x"
  "check_exp parse False x = [] \<longleftrightarrow> optionally (isRfc3339 parse) x"
  by (cases x; auto simp: check_exp_def optionally_def isRfc3339_def)+

lemma check_head_iff:
  "check_head parse e = [] \<longleftrightarrow>
     obj_get e ''v'' = Some (JNum 1) \<and> (\<exists>t. obj_get e ''type'' = Some (JStr t) \<and> TYPE_RE t) \<and>
     isUuid (obj_get e ''msg_id'') \<and> isRfc3339 parse (obj_get e ''ts'') \<and>
     optionally isUuid (obj_get e ''reply_to'')"
  by (auto simp: check_head_def split: option.splits json.splits)

lemma validate_iff:
  "(\<exists>v. validateEnvelope parse b64len e p allow = Inr v) \<longleftrightarrow>
     isPlainObject e \<and> common_ok parse e \<and> family_ok parse b64len p allow e \<and>
     (\<forall>q \<in> numbers e. isSafeInteger q)"
proof -
  have body: "is_obj (obj_get e ''body'') \<longleftrightarrow> (\<exists>b. obj_get e ''body'' = Some (JObj b))"
    by (simp add: is_obj_iff)
  have task: "check_task True t a = [] \<longleftrightarrow> isUuid t \<and> isSafeIntGe 1 a"
    "check_task False t a = [] \<longleftrightarrow> optionally isUuid t \<and> optionally (isSafeIntGe 1) a" for t a
    by (simp_all add: check_task_def)
  note parts = check_head_iff check_parts check_sig_iff check_hops_iff check_exp_iff task body
    assertNoFloats_iff(1)
  show ?thesis
  proof (cases "isPlainObject e")
    case False
    then show ?thesis by (simp add: validateEnvelope_def)
  next
    case True
    show ?thesis
    proof (cases "family e = ''task''")
      case t: True
      with True show ?thesis
        by (simp add: validateEnvelope_def Let_def family_def [symmetric] parts common_ok_def family_ok_def)
          blast
    next
      case t: False
      with True show ?thesis
        by (simp add: validateEnvelope_def Let_def family_def [symmetric] parts common_ok_def family_ok_def)
          blast
    qed
  qed
qed

section \<open>Properties\<close>

text \<open>
  C29: the validator decides the envelope contract exactly. A value is accepted if and only if it is an
  object whose header fields have their formats, whose family fields are present (a task message has
  task id, attempt at least 1, horizon, hops within \<open>MAX_HOPS\<close>; task and rpc messages carry an ed25519
  signature of 64 bytes) and in which every number, at any depth, is a safe integer (D23).
\<close>

theorem validateEnvelope_iff:
  "(\<exists>v. validateEnvelope parse b64len e p False = Inr v) \<longleftrightarrow>
     isPlainObject e \<and> common_ok parse e \<and> family_ok parse b64len p False e \<and>
     (\<forall>q \<in> numbers e. isSafeInteger q)"
  by (rule validate_iff)

definition demo_uuid :: string where
  "demo_uuid = ''0123abcd-0123-4567-89ab-0123456789AB''"

definition demo_fields :: body where
  "demo_fields =
     [(''v'', JNum 1), (''type'', JStr ''task.offer''), (''msg_id'', JStr demo_uuid),
      (''ts'', JStr ''2026-09-19T01:02:03.5Z''), (''exp'', JStr ''2026-09-19T01:12:03+08:00''),
      (''from'', JObj [(''node_id'', JStr demo_uuid), (''key_epoch'', JNum 1)]),
      (''to'', JObj [(''node_id'', JStr demo_uuid)]),
      (''trace'', JObj [(''trace_id'', JStr demo_uuid), (''parent_span'', JNull), (''origin_node'', JStr demo_uuid)]),
      (''hops'', JNum 0), (''task_id'', JStr demo_uuid), (''attempt'', JNum 1),
      (''sig'', JObj [(''alg'', JStr ''ed25519''), (''value'', JStr ''c2ln'')]),
      (''body'', JObj [(''n'', JArr [JNum 1, JNum 2])])]"

lemma demo_uuid_ok [simp]: "isUuidStr demo_uuid"
  by (simp add: demo_uuid_def isUuidStr_def uuid_pattern_def matches_def numeral_eq_Suc is_hex_i_def)

lemma demo_type_ok [simp]: "TYPE_RE ''task.offer''" "familyOf ''task.offer'' = ''task''"
  by (simp_all add: TYPE_RE_def familyOf_def is_lower_def is_seg_char_def)

lemma demo_ts_ok [simp]:
  "RFC3339_RE ''2026-09-19T01:02:03.5Z''" "RFC3339_RE ''2026-09-19T01:12:03+08:00''"
  by (simp_all add: RFC3339_RE_def rfc_prefix_def rfc_zone_def matches_def numeral_eq_Suc is_digit_def is_char_def)

lemma demo_fields_ok:
  "isPlainObject (JObj demo_fields)" "common_ok (\<lambda>_. Some 0) (JObj demo_fields)"
  "family_ok (\<lambda>_. Some 0) (\<lambda>_. 64) DEFAULT_PARAMS False (JObj demo_fields)"
  "\<forall>q \<in> numbers (JObj demo_fields). isSafeInteger q"
  by (simp_all add: demo_fields_def common_ok_def family_ok_def family_def signed_ok_def isUuid_def
      isRfc3339_def optionally_def isSafeIntGe_def DEFAULT_PARAMS_def)

theorem validateEnvelope_iff_witness:
  "\<exists>v. validateEnvelope (\<lambda>_. Some 0) (\<lambda>_. 64) (JObj demo_fields) DEFAULT_PARAMS False = Inr v"
  using validateEnvelope_iff [of "\<lambda>_. Some 0" "\<lambda>_. 64" "JObj demo_fields" DEFAULT_PARAMS] demo_fields_ok
  by blast

definition known_fields :: "string list" where
  "known_fields = [''v'', ''type'', ''msg_id'', ''ts'', ''exp'', ''from'', ''to'', ''reply_to'', ''trace'', ''hops'',
     ''task_id'', ''attempt'', ''sig'', ''body'']"

text \<open>
  forward compatibility. A field the version does not know, whose numbers are safe integers, changes
  no verdict: an extended envelope is accepted exactly when the plain one is.
\<close>

theorem unknown_field_ignored:
  assumes "k \<notin> set known_fields" "\<forall>q \<in> numbers x. isSafeInteger q"
  shows "(\<exists>v. validateEnvelope parse b64len (JObj (fs @ [(k, x)])) p allow = Inr v) \<longleftrightarrow>
    (\<exists>v. validateEnvelope parse b64len (JObj fs) p allow = Inr v)"
proof -
  have g: "obj_get (JObj (fs @ [(k, x)])) k' = obj_get (JObj fs) k'" if "k' \<in> set known_fields" for k'
  proof -
    have "k' \<noteq> k" using that assms(1) by blast
    then show ?thesis by (cases "map_of fs k'") (simp_all add: map_add_def)
  qed
  have fam: "family (JObj (fs @ [(k, x)])) = family (JObj fs)"
    using g [of "''type''"] by (simp only: family_def) (simp add: known_fields_def)
  have "common_ok parse (JObj (fs @ [(k, x)])) = common_ok parse (JObj fs)"
    "family_ok parse b64len p allow (JObj (fs @ [(k, x)])) = family_ok parse b64len p allow (JObj fs)"
    by (simp_all add: common_ok_def family_ok_def fam g known_fields_def del: obj_get.simps)
  moreover have "(\<forall>q \<in> numbers (JObj (fs @ [(k, x)])). isSafeInteger q) = (\<forall>q \<in> numbers (JObj fs). isSafeInteger q)"
    using assms(2) by auto
  ultimately show ?thesis unfolding validate_iff by (simp del: numbers.simps)
qed

theorem unknown_field_ignored_witness:
  "(\<exists>v. validateEnvelope (\<lambda>_. Some 0) (\<lambda>_. 64) (JObj (demo_fields @ [(''x-new'', JNum 7)])) DEFAULT_PARAMS False = Inr v)
   \<longleftrightarrow> (\<exists>v. validateEnvelope (\<lambda>_. Some 0) (\<lambda>_. 64) (JObj demo_fields) DEFAULT_PARAMS False = Inr v)"
  by (rule unknown_field_ignored) (simp_all add: known_fields_def)

lemma signatureInput_sig: "signatureInput jcs (AList.update ''sig'' x env) = signatureInput jcs env"
proof -
  have "without ''sig'' (AList.update ''sig'' x env) = without ''sig'' env"
    by (induction env) (auto simp: without_def)
  then show ?thesis by (simp add: signatureInput_def)
qed

text \<open>
  an envelope signed by \<open>signEnvelope\<close> verifies under the directory that maps the sender and its key
  epoch to the matching public key, whatever signature the envelope carried before. Hypotheses: ed25519
  verifies what it signed with the matching key, and base64 decoding inverts encoding.
\<close>

theorem sign_then_verify:
  assumes "\<And>m. verify (sign m priv) m pub" "\<And>b. fromBase64 (toBase64 b) = b"
    and "obj_opt (map_of env ''from'') ''node_id'' = Some (JStr node)"
    and "obj_opt (map_of env ''from'') ''key_epoch'' = Some (JNum ep)"
    and "directory node ep = Some pub"
  shows "verifyEnvelopeSig jcs verify fromBase64 (signEnvelope jcs sign toBase64 env priv) directory = Inr ()"
  using assms
  by (simp add: verifyEnvelopeSig_def signEnvelope_def signatureInput_sig SUPPORTED_ALGS_def)

theorem sign_then_verify_witness:
  "verifyEnvelopeSig (\<lambda>_. ''canonical'') (\<lambda>sig m pub. sig = rev m @ pub) rev
     (signEnvelope (\<lambda>_. ''canonical'') (\<lambda>m k. rev m @ k) rev demo_fields ''key'')
     (\<lambda>n ep. if n = demo_uuid \<and> ep = 1 then Some ''key'' else None) = Inr ()"
  by (rule sign_then_verify [where node = demo_uuid and ep = 1 and pub = "''key''"])
    (simp_all add: demo_fields_def)

text \<open>
  with \<open>allowMissingSig\<close> a signature that is present but not an object is not examined at all,
  although the option's comment says that a present signature is still validated.
\<close>

theorem lax_accepts_malformed_sig:
  "\<exists>v. validateEnvelope (\<lambda>_. Some 0) (\<lambda>_. 64) (JObj (AList.update ''sig'' (JStr ''garbage'') demo_fields))
     DEFAULT_PARAMS True = Inr v"
  by (simp add: validate_iff demo_fields_def common_ok_def family_ok_def family_def isUuid_def is_obj_def
      isRfc3339_def optionally_def isSafeIntGe_def DEFAULT_PARAMS_def)

end
