(* ===== verification/Core_Dedup.thy ===== *)
theory Core_Dedup
  imports Core_Envelope
begin

text \<open>
  Idempotent reception, \<open>packages/core/src/dedup.ts\<close>: outside \<open>task.progress\<close>, a message is identified by its
  task, attempt and type; the store remembers the hash of the first body for the retention time. The
  hash of a body (\<open>sha256Hex(jcs(body))\<close>) is a parameter. The store reads its clock twice in a call, once
  to evict and once to record, so a call carries both readings.
\<close>

datatype dedup_verdict = First | Duplicate | Mismatch

record dedup_entry =
  de_bodyHash :: string
  de_recordedAtMs :: number

record dedup_store =
  ds_map :: "(string \<times> dedup_entry) list"
  ds_retentionMs :: number

definition newDedupStore :: "task_kind + number \<Rightarrow> qlong_params \<Rightarrow> dedup_store" where
  "newDedupStore kindOrRetention p =
     \<lparr>ds_map = [], ds_retentionMs = (case kindOrRetention of Inl kind \<Rightarrow> dedupRetentionMs kind p | Inr ms \<Rightarrow> ms)\<rparr>"

definition evict :: "number \<Rightarrow> dedup_store \<Rightarrow> dedup_store" where
  "evict now st = st\<lparr>ds_map := filter (\<lambda>(k, e). \<not> ds_retentionMs st < now - de_recordedAtMs e) (ds_map st)\<rparr>"

definition dedup_key :: "string \<Rightarrow> nat \<Rightarrow> string \<Rightarrow> string" where
  "dedup_key taskId attempt type = taskId @ '':'' @ show_nat attempt @ '':'' @ type"

definition checkAndRecord ::
  "(json \<Rightarrow> string) \<Rightarrow> dedup_store \<Rightarrow> string \<Rightarrow> nat \<Rightarrow> string \<Rightarrow> json \<Rightarrow> number \<Rightarrow> number
     \<Rightarrow> dedup_store \<times> dedup_verdict" where
  "checkAndRecord bodyHash st taskId attempt type b now1 now2 =
     (if type = ''task.progress'' then (st, First)
      else
        (let st1 = evict now1 st;
             key = dedup_key taskId attempt type
         in (case map_of (ds_map st1) key of
               None \<Rightarrow>
                 (st1\<lparr>ds_map := AList.update key \<lparr>de_bodyHash = bodyHash b, de_recordedAtMs = now2\<rparr> (ds_map st1)\<rparr>, First)
             | Some prev \<Rightarrow>
                 if de_bodyHash prev \<noteq> bodyHash b then (st1, Mismatch) else (st1, Duplicate))))"

section \<open>Keys\<close>

lemma digit_chars: "n < 10 \<Longrightarrow> is_digit (''0123456789'' ! n)"
  unfolding is_digit_def by (rule nth_mem) simp

lemma show_nat_digits: "c \<in> set (show_nat n) \<Longrightarrow> is_digit c"
proof (induction n rule: show_nat.induct)
  case (1 n)
  show ?case
  proof (cases "n < 10")
    case True
    with 1(2) show ?thesis by (subst (asm) show_nat.simps) (simp add: digit_chars)
  next
    case False
    with 1(2) have "c \<in> set (show_nat (n div 10)) \<or> c = ''0123456789'' ! (n mod 10)"
      by (subst (asm) show_nat.simps) auto
    with 1(1) [OF False] show ?thesis
      by (auto intro: digit_chars)
  qed
qed

lemma show_nat_no_colon: "CHR '':'' \<notin> set (show_nat n)"
proof
  assume "CHR '':'' \<in> set (show_nat n)"
  from show_nat_digits [OF this] show False by (simp add: is_digit_def)
qed

lemma show_nat_ne [simp]: "show_nat n \<noteq> []" "[] \<noteq> show_nat n"
  by (subst show_nat.simps, simp)+

lemma digit_inj: "a < 10 \<Longrightarrow> b < 10 \<Longrightarrow> ''0123456789'' ! a = ''0123456789'' ! b \<Longrightarrow> a = b"
  using nth_eq_iff_index_eq [of "''0123456789''" a b] by simp

lemma show_nat_single: "n < 10 \<Longrightarrow> show_nat n = [''0123456789'' ! n]"
  by (subst show_nat.simps) simp

lemma show_nat_snoc: "\<not> n < 10 \<Longrightarrow> show_nat n = show_nat (n div 10) @ [''0123456789'' ! (n mod 10)]"
  by (subst show_nat.simps) simp

lemma show_nat_inj: "show_nat m = show_nat n \<Longrightarrow> m = n"
proof (induction m arbitrary: n rule: show_nat.induct)
  case (1 m)
  show ?case
  proof (cases "m < 10")
    case True
    then have m: "show_nat m = [''0123456789'' ! m]" by (rule show_nat_single)
    have n10: "n < 10"
    proof (rule ccontr)
      assume "\<not> n < 10"
      from show_nat_snoc [OF this] m 1(2) show False by simp
    qed
    with m 1(2) show_nat_single [OF n10] True show ?thesis by (auto intro: digit_inj)
  next
    case False
    have n10: "\<not> n < 10"
    proof
      assume "n < 10"
      from show_nat_single [OF this] show_nat_snoc [OF False] 1(2) show False by simp
    qed
    from 1(2) have eq: "show_nat (m div 10) = show_nat (n div 10)"
      "''0123456789'' ! (m mod 10) = ''0123456789'' ! (n mod 10)"
      unfolding show_nat_snoc [OF False] show_nat_snoc [OF n10] by simp_all
    have "m div 10 = n div 10" using 1(1) [OF False] eq(1) by blast
    moreover have "m mod 10 = n mod 10" using eq(2) by (intro digit_inj) simp_all
    ultimately show ?thesis by (metis div_mult_mod_eq)
  qed
qed

lemma cut_inj:
  fixes c :: char
  assumes "c \<notin> set a" "c \<notin> set a'" "a @ c # b = a' @ c # b'"
  shows "a = a' \<and> b = b'"
proof -
  have "Some (a, b) = Some (a', b')"
    unfolding cutAt_append [OF assms(1), symmetric] cutAt_append [OF assms(2), symmetric] assms(3) ..
  then show ?thesis by simp
qed

lemma isUuidStr_no_colon: "isUuidStr s \<Longrightarrow> CHR '':'' \<notin> set s"
proof
  assume u: "isUuidStr s" and c: "CHR '':'' \<in> set s"
  then obtain i where i: "i < length s" "s ! i = CHR '':''" by (auto simp: in_set_conv_nth)
  from u have "list_all2 (\<lambda>p c. p c) uuid_pattern s" by (simp add: isUuidStr_def matches_def)
  then have "(uuid_pattern ! i) (CHR '':'')" "i < length uuid_pattern"
    using i by (auto simp: list_all2_conv_all_nth)
  moreover have "\<forall>p \<in> set uuid_pattern. \<not> p (CHR '':'')"
    by (simp add: uuid_pattern_def is_hex_i_def)
  ultimately show False using nth_mem by blast
qed

lemma dedup_key_inj:
  assumes "isUuidStr t" "isUuidStr t'" "dedup_key t a ty = dedup_key t' a' ty'"
  shows "t = t' \<and> a = a' \<and> ty = ty'"
proof -
  from assms(3) have "t @ CHR '':'' # (show_nat a @ CHR '':'' # ty) = t' @ CHR '':'' # (show_nat a' @ CHR '':'' # ty')"
    by (simp add: dedup_key_def)
  from cut_inj [OF isUuidStr_no_colon isUuidStr_no_colon this] assms
  have "t = t'" and eq: "show_nat a @ CHR '':'' # ty = show_nat a' @ CHR '':'' # ty'" by auto
  with cut_inj [OF show_nat_no_colon show_nat_no_colon eq] show ?thesis
    by (auto dest: show_nat_inj)
qed

section \<open>The store in use\<close>

lemma evict_sel [simp]: "ds_retentionMs (evict now st) = ds_retentionMs st"
  by (simp add: evict_def)

lemma check_retention [simp]:
  "ds_retentionMs (fst (checkAndRecord h st t a ty b n1 n2)) = ds_retentionMs st"
  by (simp add: checkAndRecord_def Let_def split: option.split)

lemma evict_wf: "wf_map (ds_map st) \<Longrightarrow> wf_map (ds_map (evict now st))"
  by (simp add: evict_def)

lemma check_wf: "wf_map (ds_map st) \<Longrightarrow> wf_map (ds_map (fst (checkAndRecord h st t a ty b n1 n2)))"
  by (simp add: checkAndRecord_def Let_def evict_wf split: option.split)

lemma evict_lookup:
  assumes "wf_map (ds_map st)"
  shows "map_of (ds_map (evict now st)) k =
    (case map_of (ds_map st) k of
       None \<Rightarrow> None
     | Some e \<Rightarrow> if ds_retentionMs st < now - de_recordedAtMs e then None else Some e)"
  using map_of_filter_wf [OF assms, of "\<lambda>k e. \<not> ds_retentionMs st < now - de_recordedAtMs e" k]
  by (simp add: evict_def split: option.split)

lemma evict_dom: "dom (map_of (ds_map (evict n st))) \<subseteq> dom (map_of (ds_map st))"
  by (auto simp: evict_def dom_map_of_conv_image_fst)

lemma check_keeps:
  assumes "wf_map (ds_map st)" "map_of (ds_map st) k = Some e" "n1 \<le> de_recordedAtMs e + ds_retentionMs st"
  shows "map_of (ds_map (fst (checkAndRecord h st t a ty b n1 n2))) k = Some e"
proof -
  have "map_of (ds_map (evict n1 st)) k = Some e"
    using assms by (simp add: evict_lookup)
  then show ?thesis using assms(2)
    by (auto simp: checkAndRecord_def Let_def split: option.split)
qed

record dedup_call =
  dc_task_id :: string
  dc_attempt :: nat
  dc_type :: string
  dc_body :: json
  dc_now1 :: number
  dc_now2 :: number

definition dedup_step ::
  "(json \<Rightarrow> string) \<Rightarrow> dedup_store \<Rightarrow> dedup_call \<Rightarrow> dedup_store \<times> dedup_verdict list" where
  "dedup_step h st c =
     (let (st', v) = checkAndRecord h st (dc_task_id c) (dc_attempt c) (dc_type c) (dc_body c) (dc_now1 c) (dc_now2 c)
      in (st', [v]))"

lemma dedup_step_sel [simp]:
  "fst (dedup_step h st c) =
     fst (checkAndRecord h st (dc_task_id c) (dc_attempt c) (dc_type c) (dc_body c) (dc_now1 c) (dc_now2 c))"
  by (simp add: dedup_step_def Let_def case_prod_beta)

interpretation dedup_wf: invariant_machine "dedup_step h" "\<lambda>st. wf_map (ds_map st)" for h
  by unfold_locales (simp add: check_wf)

lemma run_keeps:
  assumes "wf_map (ds_map st)" "map_of (ds_map st) k = Some e"
    and "\<forall>c \<in> set cs. dc_now1 c \<le> de_recordedAtMs e + ds_retentionMs st"
  shows "map_of (ds_map (fst (run (dedup_step h) st cs))) k = Some e \<and>
    ds_retentionMs (fst (run (dedup_step h) st cs)) = ds_retentionMs st"
  using assms
proof (induction cs arbitrary: st)
  case Nil
  then show ?case by simp
next
  case (Cons c cs)
  let ?st1 = "fst (dedup_step h st c)"
  have "map_of (ds_map ?st1) k = Some e" using Cons.prems by (simp add: check_keeps)
  from Cons.IH [OF dedup_wf.inv_step [OF Cons.prems(1)] this] Cons.prems(3) show ?case
    by (simp del: run.simps(2))
qed

text \<open>Every stored key comes from a call that was answered \<open>First\<close>.\<close>

lemma keys_come_from_calls:
  "k \<in> dom (map_of (ds_map (fst (run (dedup_step h) st cs)))) \<Longrightarrow>
     k \<in> dom (map_of (ds_map st)) \<or>
     (\<exists>c \<in> set cs. dc_type c \<noteq> ''task.progress'' \<and> k = dedup_key (dc_task_id c) (dc_attempt c) (dc_type c))"
proof (induction cs arbitrary: st)
  case Nil
  then show ?case by simp
next
  case (Cons c cs)
  from Cons.IH [of "fst (dedup_step h st c)"] Cons.prems show ?case
    using evict_dom [of "dc_now1 c" st]
    by (auto simp: checkAndRecord_def Let_def simp del: run.simps(2) split: if_splits option.splits) blast+
qed

section \<open>Properties\<close>

text \<open>
  within the retention time a message is processed once. After it was recorded as first, every
  later copy, whatever other messages arrived in between, is a duplicate when its body hashes alike and
  a mismatch otherwise.
\<close>

theorem recorded_once:
  assumes "wf_map (ds_map st)" "ty \<noteq> ''task.progress''"
    and "checkAndRecord h st t a ty b n1 n2 = (st1, First)"
    and "\<forall>c \<in> set cs. dc_now1 c \<le> n2 + ds_retentionMs st" "n3 \<le> n2 + ds_retentionMs st"
  shows "snd (checkAndRecord h (fst (run (dedup_step h) st1 cs)) t a ty b' n3 n4) =
    (if h b' = h b then Duplicate else Mismatch)"
proof -
  let ?k = "dedup_key t a ty" and ?e = "\<lparr>de_bodyHash = h b, de_recordedAtMs = n2\<rparr>"
  let ?st2 = "fst (run (dedup_step h) st1 cs)"
  have st1: "map_of (ds_map st1) ?k = Some ?e" "ds_retentionMs st1 = ds_retentionMs st" "wf_map (ds_map st1)"
    using assms(1-3) check_wf [OF assms(1), of h t a ty b n1 n2]
    by (auto simp: checkAndRecord_def Let_def split: option.splits if_splits)
  have "map_of (ds_map ?st2) ?k = Some ?e" and r: "ds_retentionMs ?st2 = ds_retentionMs st"
    using run_keeps [OF st1(3,1)] st1(2) assms(4) by simp_all
  moreover have "wf_map (ds_map ?st2)" by (rule dedup_wf.inv_run [OF st1(3)])
  ultimately show ?thesis using assms(2,5) by (simp add: checkAndRecord_def Let_def evict_lookup)
qed

definition demo_store :: dedup_store where
  "demo_store = newDedupStore (Inr 1000) DEFAULT_PARAMS"

definition demo_calls :: "dedup_call list" where
  "demo_calls = [\<lparr>dc_task_id = demo_uuid, dc_attempt = 2, dc_type = ''task.offer'', dc_body = JNull, dc_now1 = 20, dc_now2 = 20\<rparr>]"

definition demo_hash :: "json \<Rightarrow> string" where
  "demo_hash j = (case j of JStr s \<Rightarrow> s | _ \<Rightarrow> ''?'')"

definition demo_store1 :: dedup_store where
  "demo_store1 = fst (checkAndRecord demo_hash demo_store demo_uuid 1 ''task.offer'' (JStr ''x'') 10 10)"

lemma demo_recorded:
  "wf_map (ds_map demo_store)" "''task.offer'' \<noteq> ''task.progress''"
  "checkAndRecord demo_hash demo_store demo_uuid 1 ''task.offer'' (JStr ''x'') 10 10 = (demo_store1, First)"
  "\<forall>c \<in> set demo_calls. dc_now1 c \<le> 10 + ds_retentionMs demo_store" "900 \<le> 10 + ds_retentionMs demo_store"
  by (simp_all add: demo_store_def demo_store1_def demo_calls_def newDedupStore_def checkAndRecord_def evict_def)

theorem recorded_once_witness:
  "snd (checkAndRecord demo_hash (fst (run (dedup_step demo_hash) demo_store1 demo_calls))
     demo_uuid 1 ''task.offer'' (JStr ''x'') 900 900) =
   (if demo_hash (JStr ''x'') = demo_hash (JStr ''x'') then Duplicate else Mismatch)"
  by (rule recorded_once [OF demo_recorded])

text \<open>
  no message is mistaken for another. From an empty store, a message that is not answered \<open>First\<close> has
  the task, attempt and type of an earlier call: the textual key confuses no two messages whose task
  ids are uuids, as the validator guarantees.
\<close>

theorem no_false_duplicate:
  assumes "\<forall>c \<in> set cs. isUuidStr (dc_task_id c)" "isUuidStr t"
    and "snd (checkAndRecord h (fst (run (dedup_step h) (newDedupStore r p) cs)) t a ty b n1 n2) \<noteq> First"
  shows "\<exists>c \<in> set cs. dc_task_id c = t \<and> dc_attempt c = a \<and> dc_type c = ty"
proof -
  let ?st = "fst (run (dedup_step h) (newDedupStore r p) cs)"
  have "map_of (ds_map (evict n1 ?st)) (dedup_key t a ty) \<noteq> None"
    using assms(3) by (auto simp: checkAndRecord_def Let_def split: if_splits option.splits)
  then have "dedup_key t a ty \<in> dom (map_of (ds_map ?st))"
    using evict_dom [of n1 ?st] by auto
  with keys_come_from_calls [of "dedup_key t a ty" h "newDedupStore r p" cs]
  obtain c where "c \<in> set cs" "dedup_key t a ty = dedup_key (dc_task_id c) (dc_attempt c) (dc_type c)"
    by (auto simp: newDedupStore_def)
  with dedup_key_inj [OF assms(2), of "dc_task_id c" a ty "dc_attempt c" "dc_type c"] assms(1)
  show ?thesis by auto
qed

lemma demo_not_first:
  "\<forall>c \<in> set demo_calls. isUuidStr (dc_task_id c)" "isUuidStr demo_uuid"
  "snd (checkAndRecord demo_hash (fst (run (dedup_step demo_hash) (newDedupStore (Inr 1000) DEFAULT_PARAMS) demo_calls))
     demo_uuid 2 ''task.offer'' JNull 30 30) \<noteq> First"
  by (simp_all add: demo_calls_def newDedupStore_def checkAndRecord_def evict_def demo_hash_def)

theorem no_false_duplicate_witness:
  "\<exists>c \<in> set demo_calls. dc_task_id c = demo_uuid \<and> dc_attempt c = 2 \<and> dc_type c = ''task.offer''"
  by (rule no_false_duplicate [OF demo_not_first])

end
