(* ===== verification/Node_Wire.thy ===== *)
theory Node_Wire
  imports Core_Params
begin

text \<open>
  What the two node state machines share: the outbound message specification
  (\<open>packages/node/src/wire.ts\<close>) and the audit events of \<open>packages/core/src/audit.ts\<close>. The diagnostic
  text of an audit event keeps its parameters in a datatype instead of a formatted string.
\<close>

record outbound =
  ob_type :: string
  ob_to_node :: string
  ob_task_id :: "string option"
  ob_attempt :: "nat option"
  ob_reply_to :: "string option"
  ob_body :: body

datatype audit_event =
    Sig_verify_failed | Exp_rejected | To_mismatch | Not_active | Acl_rejected_from_pin
  | Acl_rejected_cross_team | Dedup_mismatch | Stale_attempt_rejected | Reclaim | Escalate
  | Cap_tag_suspected | Cap_tag_removed | Cap_tag_recovered

text \<open>The final reasons of an escalation: which budget ran out, at which count, against which limit.\<close>

datatype final_reason =
    Accepted_failure_exhausted nat nat
  | Dispatch_round_exhausted nat nat

datatype audit_reason =
    Inbound_below nat nat
  | Inbound_above nat
  | Reason_text string
  | Final_reason final_reason

end
