(* ===== verification/Lead_Machine.thy ===== *)
theory Lead_Machine
  imports Node_Wire
begin

text \<open>
  The lead's task machine, \<open>packages/node/src/lead/machine.ts\<close>: one machine per task, driven by
  dispatch commands, inbound messages, timers and user commands, each an operation that returns the
  next machine and the actions for the host. \<open>lead_step\<close> gathers the operations. The acceptance
  validator and the parameters are fields of the machine, as in the class.
\<close>

section \<open>State\<close>

datatype lead_state =
    Drafting | Offered | Running | Reclaiming | Cancelling
  | Done | Failed | Escalated | Closed

datatype lead_outcome =
    Oc_offered | Oc_accepted | Oc_rejected | Oc_expired | Oc_lost | Oc_fail_retryable
  | Oc_fail_fatal | Oc_acceptance_failed | Oc_result_delivered | Oc_owner_redispatch

record lead_history_entry =
  h_node :: string
  h_attempt :: nat
  h_outcome :: lead_outcome
  h_reason_code :: "string option"

datatype exclusion = Permanent | Once

datatype cancel_reason = Cr_user | Cr_reclaim | Cr_acceptance_failed | Cr_project_aborted

record lead_record =
  lr_task_id :: string
  lr_kind :: task_kind
  lr_leaseMs :: number
  lr_state :: lead_state
  lr_attempt :: nat
  lr_target :: "string option"
  lr_acceptedThisAttempt :: bool
  lr_acceptedFailedBudget :: nat
  lr_dispatchRounds :: nat
  lr_renewalSeq :: nat
  lr_excluded :: "(string \<times> exclusion) list"
  lr_history :: "lead_history_entry list"
  lr_offerTtlUntil :: "number option"
  lr_leaseDeadline :: "number option"
  lr_drainUntil :: "number option"
  lr_drainClosed :: "bool option"
  lr_cancelWaitUntil :: "number option"
  lr_completedBeforeCancel :: "bool option"
  lr_resultBody :: "body option"
  lr_cancelReason :: "cancel_reason option"
  lr_contract :: "json option"

datatype timer_name = T_offer_ttl | T_lease | T_drain | T_cancel_wait

datatype lead_action =
    LSend outbound
  | LAudit audit_event audit_reason
  | LRequestDispatch nat
  | LSchedule timer_name number
  | LCancelTimers "timer_name list"
  | LTerminal lead_state
  | LEscalate string "lead_history_entry list" final_reason

definition ACTIVE_TIMERS :: "timer_name list" where
  "ACTIVE_TIMERS = [T_offer_ttl, T_lease, T_drain, T_cancel_wait]"

record lead_machine =
  lm_task_id :: string
  lm_rec :: lead_record
  lm_params :: qlong_params
  lm_terminal :: bool
  lm_validateAcceptance :: "body \<Rightarrow> bool"

definition defaultValidateAcceptance :: "task_kind \<Rightarrow> body \<Rightarrow> bool" where
  "defaultValidateAcceptance kind b =
     (if kind = Project then False
      else (case arr_of (map_of b ''acceptance_results'') of
              None \<Rightarrow> True
            | Some arr \<Rightarrow> list_all (\<lambda>x. obj_get x ''pass'' \<noteq> Some (JBool False)) arr))"

definition newLeadTaskMachine ::
  "string \<Rightarrow> task_kind \<Rightarrow> qlong_params option \<Rightarrow> (body \<Rightarrow> bool) option \<Rightarrow> lead_machine" where
  "newLeadTaskMachine task_id kind params validate =
     (let p = (case params of None \<Rightarrow> DEFAULT_PARAMS | Some q \<Rightarrow> q) in
      \<lparr>lm_task_id = task_id,
       lm_rec =
         \<lparr>lr_task_id = task_id, lr_kind = kind,
          lr_leaseMs = (if kind = Aid then leaseMsAid p else leaseMsProject p),
          lr_state = Drafting, lr_attempt = 0, lr_target = None,
          lr_acceptedThisAttempt = False, lr_acceptedFailedBudget = 0, lr_dispatchRounds = 0,
          lr_renewalSeq = 0, lr_excluded = [], lr_history = [],
          lr_offerTtlUntil = None, lr_leaseDeadline = None, lr_drainUntil = None,
          lr_drainClosed = None, lr_cancelWaitUntil = None, lr_completedBeforeCancel = None, lr_resultBody = None,
          lr_cancelReason = None, lr_contract = None\<rparr>,
       lm_params = p,
       lm_terminal = False,
       lm_validateAcceptance =
         (case validate of None \<Rightarrow> defaultValidateAcceptance kind | Some v \<Rightarrow> v)\<rparr>)"

section \<open>Contracts\<close>

definition isDeliverable :: "json \<Rightarrow> bool" where
  "isDeliverable d \<longleftrightarrow>
     isPlainObject d \<and>
     (named (obj_get d ''path'') \<or> named (obj_get d ''artifact'')) \<and>
     (obj_get d ''path'' = None \<or> named (obj_get d ''path'')) \<and>
     (obj_get d ''artifact'' = None \<or> named (obj_get d ''artifact'')) \<and>
     (obj_get d ''desc'' = None \<or> str_of (obj_get d ''desc'') \<noteq> None)"

definition isLeadContract :: "json option \<Rightarrow> bool" where
  "isLeadContract value =
     (case value of
        None \<Rightarrow> True
      | Some c \<Rightarrow>
          if \<not> isPlainObject c then False
          else if obj_get c ''acceptance'' \<noteq> None \<and> arr_of (obj_get c ''acceptance'') = None then False
          else (case obj_get c ''deliverables'' of
                  None \<Rightarrow> True
                | Some d \<Rightarrow>
                    (case arr_of (Some d) of None \<Rightarrow> False | Some ds \<Rightarrow> list_all isDeliverable ds)))"

definition asContract :: "json option \<Rightarrow> json option" where
  "asContract value = (if isLeadContract value then value else None)"

section \<open>Small steps\<close>

definition target_or :: "lead_record \<Rightarrow> string" where
  "target_or r = (case lr_target r of None \<Rightarrow> ''?'' | Some t \<Rightarrow> t)"

definition push :: "lead_history_entry \<Rightarrow> lead_record \<Rightarrow> lead_record" where
  "push h r = r\<lparr>lr_history := lr_history r @ [h]\<rparr>"

definition hist :: "string \<Rightarrow> lead_record \<Rightarrow> lead_outcome \<Rightarrow> string option \<Rightarrow> lead_history_entry" where
  "hist node r oc rc = \<lparr>h_node = node, h_attempt = lr_attempt r, h_outcome = oc, h_reason_code = rc\<rparr>"

definition exclude :: "exclusion \<Rightarrow> lead_record \<Rightarrow> lead_record" where
  "exclude how r =
     (case lr_target r of
        None \<Rightarrow> r
      | Some t \<Rightarrow> if t = [] then r else r\<lparr>lr_excluded := AList.update t how (lr_excluded r)\<rparr>)"

definition lead_out ::
  "lead_machine \<Rightarrow> string \<Rightarrow> string \<Rightarrow> body \<Rightarrow> string option \<Rightarrow> lead_action" where
  "lead_out m type to b replyTo =
     LSend \<lparr>ob_type = type, ob_to_node = to, ob_task_id = Some (lm_task_id m),
            ob_attempt = Some (lr_attempt (lm_rec m)), ob_reply_to = replyTo, ob_body = b\<rparr>"

definition stopTimers :: lead_action where
  "stopTimers = LCancelTimers ACTIVE_TIMERS"

definition finish :: "lead_state \<Rightarrow> lead_machine \<Rightarrow> lead_machine \<times> lead_action list" where
  "finish st m =
     (m\<lparr>lm_terminal := True, lm_rec := (lm_rec m)\<lparr>lr_state := st\<rparr>\<rparr>, [stopTimers, LTerminal st])"

definition cancel_msg :: "lead_machine \<Rightarrow> string \<Rightarrow> lead_action list" where
  "cancel_msg m reason =
     (case lr_target (lm_rec m) of
        None \<Rightarrow> []
      | Some t \<Rightarrow> if t = [] then [] else [lead_out m ''task.cancel'' t [(''reason'', JStr reason)] None])"

definition beginReclaim ::
  "string \<Rightarrow> number \<Rightarrow> lead_history_entry option \<Rightarrow> lead_machine \<Rightarrow> lead_machine \<times> lead_action list" where
  "beginReclaim reason now entry m =
     (let r0 = (case entry of None \<Rightarrow> lm_rec m | Some h \<Rightarrow> push h (lm_rec m));
          r1 = r0\<lparr>lr_state := Reclaiming, lr_drainClosed := Some False,
                   lr_drainUntil := Some (now + drainMs (lm_params m))\<rparr>;
          m1 = m\<lparr>lm_rec := r1\<rparr>
      in (m1, [stopTimers] @ cancel_msg m1 reason @
              [LAudit Reclaim (Reason_text reason), LSchedule T_drain (now + drainMs (lm_params m))]))"

definition budgetOrEscalate :: "bool \<Rightarrow> lead_machine \<Rightarrow> lead_machine \<times> lead_action list" where
  "budgetOrEscalate accepted m =
     (let r = lm_rec m; p = lm_params m;
          r1 = (if accepted then r\<lparr>lr_acceptedFailedBudget := lr_acceptedFailedBudget r + 1\<rparr>
                else r\<lparr>lr_dispatchRounds := lr_dispatchRounds r + 1\<rparr>);
          exhausted = (maxAttempts p \<le> lr_acceptedFailedBudget r1 \<or>
                       maxDispatchRounds p \<le> lr_dispatchRounds r1)
      in if exhausted then
           (let fr = (if accepted
                      then Accepted_failure_exhausted (lr_acceptedFailedBudget r1) (maxAttempts p)
                      else Dispatch_round_exhausted (lr_dispatchRounds r1) (maxDispatchRounds p))
            in (m\<lparr>lm_terminal := True, lm_rec := r1\<lparr>lr_state := Escalated\<rparr>\<rparr>,
                [stopTimers, LAudit Escalate (Final_reason fr),
                 LEscalate (lm_task_id m) (lr_history r1) fr, LTerminal Escalated]))
         else (m\<lparr>lm_rec := r1\<lparr>lr_state := Drafting\<rparr>\<rparr>, [LRequestDispatch (lr_attempt r1 + 1)]))"

definition applyExclusion :: "string \<Rightarrow> body \<Rightarrow> lead_record \<Rightarrow> lead_record" where
  "applyExclusion c b r =
     (if \<not> truthy (lr_target r) then r
      else if c = ''unsupported_caps'' \<or> c = ''policy_denied'' \<or> c = ''refused_loop''
           then exclude Permanent r
      else if c = ''busy'' \<and> num_of (map_of b ''retry_after_ms'') \<noteq> None then r
      else if c = ''busy'' then r
      else exclude Once r)"

definition failCodeOf :: "json option \<Rightarrow> string" where
  "failCodeOf raw =
     norm_code (normalizeFailCode (case str_of raw of None \<Rightarrow> ''other'' | Some s \<Rightarrow> s))"

definition rejectCodeOf :: "json option \<Rightarrow> string" where
  "rejectCodeOf raw =
     norm_code (normalizeRejectCode (case str_of raw of None \<Rightarrow> ''other'' | Some s \<Rightarrow> s))"

section \<open>Commands\<close>

definition ttl_of :: "lead_machine \<Rightarrow> body \<Rightarrow> number" where
  "ttl_of m offerBody =
     (case num_of (map_of offerBody ''offer_ttl_ms'') of
        None \<Rightarrow> defaultOfferTtlMs (lr_kind (lm_rec m)) (lm_params m)
      | Some ttl \<Rightarrow> ttl)"

definition offer_with ::
  "nat \<Rightarrow> lead_machine \<Rightarrow> string \<Rightarrow> body \<Rightarrow> number \<Rightarrow> lead_machine \<times> lead_action list" where
  "offer_with att m target offerBody now =
     (let r = lm_rec m;
          contract = asContract (map_of offerBody ''contract'');
          until = now + ttl_of m offerBody;
          r1 = r\<lparr>lr_attempt := att, lr_target := Some target, lr_acceptedThisAttempt := False,
                  lr_state := Offered,
                  lr_contract := (case contract of None \<Rightarrow> lr_contract r | Some c \<Rightarrow> Some c),
                  lr_offerTtlUntil := Some until,
                  lr_drainUntil := None, lr_drainClosed := None\<rparr>;
          m1 = m\<lparr>lm_rec := r1\<rparr>
      in (m1, [stopTimers, lead_out m1 ''task.offer'' target offerBody None,
               LSchedule T_offer_ttl until]))"

definition dispatchTo ::
  "lead_machine \<Rightarrow> string \<Rightarrow> body \<Rightarrow> number \<Rightarrow> lead_machine \<times> lead_action list" where
  "dispatchTo m target offerBody now =
     (if lm_terminal m then (m, [])
      else if lr_state (lm_rec m) \<noteq> Drafting then (m, [])
      else if \<not> isLeadContract (map_of offerBody ''contract'') then (m, [])
      else offer_with 1 m target offerBody now)"

definition redispatchTo ::
  "lead_machine \<Rightarrow> string \<Rightarrow> body \<Rightarrow> number \<Rightarrow> lead_machine \<times> lead_action list" where
  "redispatchTo m target offerBody now =
     (if lm_terminal m \<or> lr_state (lm_rec m) \<noteq> Drafting then (m, [])
      else if \<not> isLeadContract (map_of offerBody ''contract'') then (m, [])
      else offer_with (lr_attempt (lm_rec m) + 1) m target offerBody now)"

definition cancelByUser :: "lead_machine \<Rightarrow> number \<Rightarrow> lead_machine \<times> lead_action list" where
  "cancelByUser m now =
     (if lm_terminal m then (m, [])
      else if lr_state (lm_rec m) = Cancelling then (m, [])
      else
        (let until = now + cancelWaitMs (lm_params m);
             m1 = m\<lparr>lm_rec := (lm_rec m)\<lparr>lr_cancelReason := Some Cr_user,
                       lr_cancelWaitUntil := Some until, lr_state := Cancelling\<rparr>\<rparr>
         in (m1, [stopTimers] @ cancel_msg m ''user'' @ [LSchedule T_cancel_wait until])))"

definition redispatchByOwner :: "lead_machine \<Rightarrow> number \<Rightarrow> lead_machine \<times> lead_action list" where
  "redispatchByOwner m now =
     (if lm_terminal m then (m, [])
      else if lr_state (lm_rec m) = Cancelling then (m, [])
      else if lr_state (lm_rec m) = Reclaiming then (m, [])
      else
        (let r = exclude Once (lm_rec m) in
         if lr_state r = Drafting then (m\<lparr>lm_rec := r\<rparr>, [LRequestDispatch (lr_attempt r + 1)])
         else beginReclaim ''reclaim'' now None
                (m\<lparr>lm_rec := push (hist (target_or r) r Oc_owner_redispatch None) r\<rparr>)))"

section \<open>Messages\<close>

definition leaseRenewal ::
  "lead_machine \<Rightarrow> string \<Rightarrow> body \<Rightarrow> number \<Rightarrow> string option \<Rightarrow> lead_machine \<times> lead_action list" where
  "leaseRenewal m to b now msgId =
     (case msgId of
        None \<Rightarrow> (m, [])
      | Some mid \<Rightarrow>
          if \<not> isUuidStr mid then (m, [])
          else (case num_of (map_of b ''generation'') of
            None \<Rightarrow> (m, [])
          | Some generation \<Rightarrow>
            if \<not> isSafeInteger generation \<or> generation \<le> 0 then (m, [])
            else (case str_of (map_of b ''run_id'') of
              None \<Rightarrow> (m, [])
            | Some runId \<Rightarrow>
              if \<not> isUuidStr runId then (m, [])
              else (case num_of (map_of b ''seq'') of
                None \<Rightarrow> (m, [])
              | Some progressSeq \<Rightarrow>
                if \<not> isSafeInteger progressSeq \<or> progressSeq \<le> 0 then (m, [])
                else
                  (let r1 = (lm_rec m)\<lparr>lr_renewalSeq := lr_renewalSeq (lm_rec m) + 1\<rparr>;
                       m1 = m\<lparr>lm_rec := r1\<rparr>
                   in (m1, [lead_out m1 ''task.lease.renew'' to
                        [(''generation'', JNum generation), (''run_id'', JStr runId),
                         (''progress_msg_id'', JStr mid), (''progress_seq'', JNum progressSeq),
                         (''renewal_seq'', JNum (of_nat (lr_renewalSeq r1))),
                         (''deadline_ms'', JNum (now + lr_leaseMs r1))]
                        (Some mid)]))))))"

definition onOfferedMessage ::
  "lead_machine \<Rightarrow> string \<Rightarrow> string \<Rightarrow> body \<Rightarrow> number \<Rightarrow> lead_machine \<times> lead_action list" where
  "onOfferedMessage m type fromNode b now =
     (let r = lm_rec m in
      if type = ''task.accept'' then
        (let lease = (case num_of (map_of b ''lease_ms'') of None \<Rightarrow> lr_leaseMs r | Some l \<Rightarrow> l);
             dl = now + lostAfterMs lease (lm_params m);
             r1 = push (hist fromNode r Oc_accepted None)
                    (r\<lparr>lr_acceptedThisAttempt := True, lr_state := Running,
                       lr_leaseMs := lease, lr_leaseDeadline := Some dl\<rparr>)
         in (m\<lparr>lm_rec := r1\<rparr>, [stopTimers, LSchedule T_lease dl]))
      else if type = ''task.reject'' then
        (let c = rejectCodeOf (map_of b ''reason_code'');
             r1 = applyExclusion c b (push (hist fromNode r Oc_rejected (Some c)) r)
         in budgetOrEscalate False (m\<lparr>lm_rec := r1\<rparr>))
      else (m, []))"

definition onRunningMessage ::
  "lead_machine \<Rightarrow> string \<Rightarrow> string \<Rightarrow> body \<Rightarrow> number \<Rightarrow> string option
     \<Rightarrow> lead_machine \<times> lead_action list" where
  "onRunningMessage m type fromNode b now msgId =
     (let r = lm_rec m in
      if type = ''task.progress'' then
        (let dl = now + lostAfterMs (lr_leaseMs r) (lm_params m);
             (m1, renew) = leaseRenewal (m\<lparr>lm_rec := r\<lparr>lr_leaseDeadline := Some dl\<rparr>\<rparr>) fromNode b now msgId
         in (m1, [LCancelTimers [T_lease], LSchedule T_lease dl] @ renew))
      else if type = ''task.result'' then
        (let r1 = r\<lparr>lr_resultBody := Some b\<rparr> in
         if lm_validateAcceptance m b
         then finish Done (m\<lparr>lm_rec := push (hist fromNode r1 Oc_result_delivered None) r1\<rparr>)
         else beginReclaim ''acceptance_failed'' now
                (Some (hist fromNode r1 Oc_acceptance_failed None)) (m\<lparr>lm_rec := r1\<rparr>))
      else if type = ''task.fail'' then
        (let c = failCodeOf (map_of b ''reason_code'') in
         if map_of b ''retryable'' = Some (JBool False)
         then finish Failed (m\<lparr>lm_rec := push (hist fromNode r Oc_fail_fatal (Some c)) r\<rparr>)
         else beginReclaim ''reclaim'' now (Some (hist fromNode r Oc_fail_retryable (Some c))) m)
      else (m, []))"

definition onReclaimingMessage ::
  "lead_machine \<Rightarrow> string \<Rightarrow> body \<Rightarrow> lead_machine \<times> lead_action list" where
  "onReclaimingMessage m type b =
     (let r = lm_rec m in
      if lr_drainClosed r = Some True then (m, [])
      else if type = ''task.result'' then
        (let r1 = r\<lparr>lr_resultBody := Some b\<rparr> in
         if \<not> lm_validateAcceptance m b
         then (m\<lparr>lm_rec := push (hist (target_or r1) r1 Oc_acceptance_failed None) r1\<rparr>, [])
         else finish Done (m\<lparr>lm_rec := push (hist (target_or r1) r1 Oc_result_delivered None) r1\<rparr>))
      else if type = ''task.fail'' then
        (let c = failCodeOf (map_of b ''reason_code'') in
         if map_of b ''retryable'' = Some (JBool False)
         then finish Failed (m\<lparr>lm_rec := push (hist (target_or r) r Oc_fail_fatal (Some c)) r\<rparr>)
         else (m\<lparr>lm_rec := push (hist (target_or r) r Oc_fail_retryable (Some c)) r\<rparr>, []))
      else if type = ''task.cancel.ack'' then
        budgetOrEscalate (lr_acceptedThisAttempt r) (m\<lparr>lm_rec := r\<lparr>lr_drainClosed := Some True\<rparr>\<rparr>)
      else (m, []))"

definition onCancellingMessage ::
  "lead_machine \<Rightarrow> string \<Rightarrow> body \<Rightarrow> lead_machine \<times> lead_action list" where
  "onCancellingMessage m type b =
     (let r = lm_rec m in
      if type = ''task.result'' then
        (let r1 = r\<lparr>lr_resultBody := Some b\<rparr> in
         if \<not> lm_validateAcceptance m b
         then (m\<lparr>lm_rec := push (hist (target_or r1) r1 Oc_acceptance_failed None) r1\<rparr>, [])
         else finish Done (m\<lparr>lm_rec := push (hist (target_or r1) r1 Oc_result_delivered None) r1\<rparr>))
      else if type = ''task.fail'' then finish Closed m
      else if type = ''task.cancel.ack'' then finish Closed m
      else (m, []))"

definition onMessage ::
  "lead_machine \<Rightarrow> string \<Rightarrow> string \<Rightarrow> nat \<Rightarrow> body \<Rightarrow> number \<Rightarrow> string option
     \<Rightarrow> lead_machine \<times> lead_action list" where
  "onMessage m type fromNode att b now msgId =
     (let r = lm_rec m in
      if lm_terminal m \<or> Some fromNode \<noteq> lr_target r then (m, [])
      else if att \<noteq> lr_attempt r then
        (if att < lr_attempt r
         then (m, [lead_out m ''task.reject'' fromNode [(''reason_code'', JStr ''stale_attempt'')] None,
                   LAudit Stale_attempt_rejected (Inbound_below att (lr_attempt r))])
         else (m, [LAudit Stale_attempt_rejected (Inbound_above att)]))
      else (case lr_state r of
              Offered \<Rightarrow> onOfferedMessage m type fromNode b now
            | Running \<Rightarrow> onRunningMessage m type fromNode b now msgId
            | Reclaiming \<Rightarrow> onReclaimingMessage m type b
            | Cancelling \<Rightarrow> onCancellingMessage m type b
            | _ \<Rightarrow> (m, [])))"

section \<open>Timers\<close>

definition onTimer :: "lead_machine \<Rightarrow> timer_name \<Rightarrow> number \<Rightarrow> lead_machine \<times> lead_action list" where
  "onTimer m timer now =
     (let r = lm_rec m in
      if lm_terminal m then (m, [])
      else if timer = T_offer_ttl \<and> lr_state r = Offered then
        beginReclaim ''reclaim'' now None
          (m\<lparr>lm_rec := exclude Once (push (hist (target_or r) r Oc_expired None) r)\<rparr>)
      else if timer = T_lease \<and> lr_state r = Running then
        (if (case lr_leaseDeadline r of None \<Rightarrow> False | Some dl \<Rightarrow> now < dl)
         then (m, [LSchedule T_lease (the (lr_leaseDeadline r))])
         else
           (let (m1, acts) = beginReclaim ''reclaim'' now None
                  (m\<lparr>lm_rec := exclude Once (push (hist (target_or r) r Oc_lost None) r)\<rparr>)
            in (m1, LAudit Reclaim (Reason_text ''lease lost'') # acts)))
      else if timer = T_drain \<and> lr_state r = Reclaiming \<and> lr_drainClosed r \<noteq> Some True then
        budgetOrEscalate (lr_acceptedThisAttempt r) (m\<lparr>lm_rec := r\<lparr>lr_drainClosed := Some True\<rparr>\<rparr>)
      else if timer = T_cancel_wait \<and> lr_state r = Cancelling then finish Closed m
      else (m, []))"

section \<open>The machine as a step function\<close>

datatype lead_event =
    Ev_dispatch string body number
  | Ev_redispatch string body number
  | Ev_message string string nat body number "string option"
  | Ev_timer timer_name number
  | Ev_cancelByUser number
  | Ev_redispatchByOwner number

fun lead_step :: "lead_machine \<Rightarrow> lead_event \<Rightarrow> lead_machine \<times> lead_action list" where
  "lead_step m (Ev_dispatch target b now) = dispatchTo m target b now"
| "lead_step m (Ev_redispatch target b now) = redispatchTo m target b now"
| "lead_step m (Ev_message type fromNode att b now msgId) = onMessage m type fromNode att b now msgId"
| "lead_step m (Ev_timer timer now) = onTimer m timer now"
| "lead_step m (Ev_cancelByUser now) = cancelByUser m now"
| "lead_step m (Ev_redispatchByOwner now) = redispatchByOwner m now"

end
