(* ===== verification/Lead_Trace.thy ===== *)
theory Lead_Trace
  imports Lead_Props
begin

text \<open>
  Protocol properties of the lead machine over whole runs: which message completes a task, that an
  attempt is revoked or refused before the next one is offered (R4), that every attempt is offered
  exactly once, that excluded nodes stay excluded (R8), and that timers alone bring a silent task to an
  end. \<open>lead_host_ok\<close> is the contract of the host: the initial dispatch is used once, before the first
  attempt, and targets are named.
\<close>

section \<open>Completion\<close>

lemma block_state [simp]:
  "lr_state (lm_rec (fst (finish st m))) = st"
  "lr_state (lm_rec (fst (beginReclaim rs now h m))) = Reclaiming"
  "lr_state (lm_rec (fst (offer_with att m t b now))) = Offered"
  by (simp_all add: finish_def beginReclaim_def offer_with_def Let_def)

lemma budget_state:
  "lr_state (lm_rec (fst (budgetOrEscalate acc m))) = Drafting \<or>
   lr_state (lm_rec (fst (budgetOrEscalate acc m))) = Escalated"
  by (simp add: budgetOrEscalate_def Let_def)

lemma budget_not_Done [simp]: "lr_state (lm_rec (fst (budgetOrEscalate acc m))) \<noteq> Done"
  using budget_state [of acc m] by auto

lemma done_by_result:
  assumes "lr_state (lm_rec m) \<noteq> Done" and "lr_state (lm_rec (fst (lead_step m e))) = Done"
  shows "\<exists>fromNode b now msgId.
    e = Ev_message ''task.result'' fromNode (lr_attempt (lm_rec m)) b now msgId \<and>
    lr_target (lm_rec m) = Some fromNode \<and> lm_validateAcceptance m b"
proof (cases e)
  case (Ev_message ty f a b now i)
  with assms show ?thesis
    by (cases "lr_state (lm_rec m)")
      (auto simp: onMessage_def onOfferedMessage_def onRunningMessage_def onReclaimingMessage_def
        onCancellingMessage_def Let_def case_prod_beta split: if_splits)
qed (use assms in \<open>auto simp: lead_op_defs Let_def case_prod_beta split: if_splits\<close>)

text \<open>
  C3: the only event that turns a task into \<open>done\<close> is a \<open>task.result\<close> of the current attempt, sent by
  the current target, whose body the lead's own acceptance validator accepts.
\<close>

theorem done_needs_accepted_result:
  assumes "lr_state (lm_rec m) \<noteq> Done" and "lr_state (lm_rec (fst (lead_step m e))) = Done"
  shows "\<exists>fromNode b now msgId.
    e = Ev_message ''task.result'' fromNode (lr_attempt (lm_rec m)) b now msgId \<and>
    lr_target (lm_rec m) = Some fromNode \<and> lm_validateAcceptance m b"
  using assms by (rule done_by_result)

definition demo_result :: lead_event where
  "demo_result = Ev_message ''task.result'' ''n1'' 1 [] 20 None"

definition demo_running :: lead_machine where
  "demo_running = fst (run lead_step demo_lead
     [Ev_dispatch ''n1'' [] 0, Ev_message ''task.accept'' ''n1'' 1 [] 10 None])"

lemmas demo_defs = demo_running_def demo_lead_def demo_result_def newLeadTaskMachine_def DEFAULT_PARAMS_def
  dispatchTo_def offer_with_def onMessage_def onOfferedMessage_def onRunningMessage_def
  isLeadContract_def asContract_def ttl_of_def defaultValidateAcceptance_def arr_of_def
  finish_def push_def hist_def Let_def

lemma demo_running_done:
  "lr_state (lm_rec demo_running) \<noteq> Done" "lr_state (lm_rec (fst (lead_step demo_running demo_result))) = Done"
  by (simp_all add: demo_defs)

theorem done_needs_accepted_result_witness:
  "\<exists>fromNode b now msgId.
    demo_result = Ev_message ''task.result'' fromNode (lr_attempt (lm_rec demo_running)) b now msgId \<and>
    lr_target (lm_rec demo_running) = Some fromNode \<and> lm_validateAcceptance demo_running b"
  by (rule done_needs_accepted_result [OF demo_running_done])

text \<open>
  peer and attempt binding (R0): a message from anyone but the current target is ignored without a
  trace, and a message of another attempt never changes the machine; the sender learns that it is
  stale exactly when its attempt is older.
\<close>

theorem foreign_message_inert:
  "(lr_target (lm_rec m) \<noteq> Some fromNode \<longrightarrow> onMessage m ty fromNode a b now i = (m, [])) \<and>
   (a \<noteq> lr_attempt (lm_rec m) \<longrightarrow>
      fst (onMessage m ty fromNode a b now i) = m \<and>
      ((\<exists>o'. LSend o' \<in> set (snd (onMessage m ty fromNode a b now i))) \<longleftrightarrow>
         \<not> lm_terminal m \<and> lr_target (lm_rec m) = Some fromNode \<and> a < lr_attempt (lm_rec m)))"
  by (auto simp: onMessage_def Let_def lead_out_def)

lemma demo_running_sel:
  "lr_target (lm_rec demo_running) = Some ''n1''" "lr_attempt (lm_rec demo_running) = 1" "\<not> lm_terminal demo_running"
  by (simp_all add: demo_defs)

theorem foreign_message_inert_witness:
  "onMessage demo_running ''task.result'' ''n2'' 1 [] 5 None = (demo_running, []) \<and>
   fst (onMessage demo_running ''task.result'' ''n1'' 0 [] 5 None) = demo_running \<and>
   (\<exists>o'. LSend o' \<in> set (snd (onMessage demo_running ''task.result'' ''n1'' 0 [] 5 None)))"
  using foreign_message_inert [of demo_running "''n2''" "''task.result''" 1 "[]" 5 None]
    foreign_message_inert [of demo_running "''n1''" "''task.result''" 0 "[]" 5 None]
  by (simp only: demo_running_sel) simp

section \<open>Attempts are offered once and revoked first\<close>

fun offer_of :: "lead_action \<Rightarrow> nat option" where
  "offer_of (LSend out) = (if ob_type out = ''task.offer'' then ob_attempt out else None)"
| "offer_of _ = None"

fun cancel_of :: "lead_action \<Rightarrow> nat option" where
  "cancel_of (LSend out) = (if ob_type out = ''task.cancel'' then ob_attempt out else None)"
| "cancel_of _ = None"

fun offers :: "lead_action list \<Rightarrow> nat list" where
  "offers [] = []"
| "offers (a # tr) = (case offer_of a of None \<Rightarrow> offers tr | Some n \<Rightarrow> n # offers tr)"

fun cancels :: "lead_action list \<Rightarrow> nat list" where
  "cancels [] = []"
| "cancels (a # tr) = (case cancel_of a of None \<Rightarrow> cancels tr | Some n \<Rightarrow> n # cancels tr)"

lemma offers_append [simp]: "offers (tr @ tr') = offers tr @ offers tr'"
  by (induction tr) (simp_all split: option.split)

lemma cancels_append [simp]: "cancels (tr @ tr') = cancels tr @ cancels tr'"
  by (induction tr) (simp_all split: option.split)

definition revoked :: "nat \<Rightarrow> lead_action list \<Rightarrow> lead_history_entry list \<Rightarrow> bool" where
  "revoked a tr hs \<longleftrightarrow> a \<in> set (cancels tr) \<or>
     (\<exists>h \<in> set hs. h_outcome h = Oc_rejected \<and> h_attempt h = a)"

lemma revoked_mono: "revoked a tr hs \<Longrightarrow> set hs \<subseteq> set hs' \<Longrightarrow> revoked a (tr @ tr') hs'"
  by (auto simp: revoked_def)

definition lead_host_ok :: "lead_machine \<Rightarrow> lead_event \<Rightarrow> bool" where
  "lead_host_ok m e =
     (case e of
        Ev_dispatch target _ _ \<Rightarrow> target \<noteq> [] \<and> lr_attempt (lm_rec m) = 0
      | Ev_redispatch target _ _ \<Rightarrow> target \<noteq> []
      | _ \<Rightarrow> True)"

definition lead_tinv :: "lead_action list \<Rightarrow> lead_machine \<Rightarrow> bool" where
  "lead_tinv tr m \<longleftrightarrow>
     (let r = lm_rec m in
      offers tr = [1..<Suc (lr_attempt r)] \<and>
      lr_target r \<noteq> Some [] \<and>
      (lr_state r \<in> {Offered, Running, Reclaiming} \<longrightarrow> lr_target r \<noteq> None) \<and>
      (lr_state r = Reclaiming \<longrightarrow> lr_attempt r \<in> set (cancels tr)) \<and>
      (lr_state r = Drafting \<and> lr_attempt r \<noteq> 0 \<longrightarrow> revoked (lr_attempt r) tr (lr_history r)) \<and>
      (\<forall>i < length tr. \<forall>a. offer_of (tr ! i) = Some a \<and> 1 < a \<longrightarrow>
         revoked (a - 1) (take i tr) (lr_history r)))"

text \<open>A step that offers nothing keeps the trace invariant if it lands in a justified state.\<close>

lemma tinv_quiet:
  assumes inv: "lead_tinv tr m"
    and same: "lr_attempt (lm_rec m') = lr_attempt (lm_rec m)" "lr_target (lm_rec m') = lr_target (lm_rec m)"
    and hs: "set (lr_history (lm_rec m)) \<subseteq> set (lr_history (lm_rec m'))"
    and no: "\<forall>a \<in> set acts. offer_of a = None"
    and tgt: "lr_state (lm_rec m') \<in> {Offered, Running, Reclaiming} \<Longrightarrow> lr_target (lm_rec m) \<noteq> None"
    and rec: "lr_state (lm_rec m') = Reclaiming \<Longrightarrow> lr_attempt (lm_rec m) \<in> set (cancels (tr @ acts))"
    and dra: "lr_state (lm_rec m') = Drafting \<Longrightarrow> lr_attempt (lm_rec m) \<noteq> 0 \<Longrightarrow>
                revoked (lr_attempt (lm_rec m)) (tr @ acts) (lr_history (lm_rec m'))"
  shows "lead_tinv (tr @ acts) m'"
proof -
  have off: "offers acts = []"
    using no by (induction acts) simp_all
  have old: "revoked (a - 1) (take i (tr @ acts)) (lr_history (lm_rec m'))"
    if i: "i < length (tr @ acts)" "offer_of ((tr @ acts) ! i) = Some a" "1 < a" for i a
  proof (cases "i < length tr")
    case True
    with i inv have "revoked (a - 1) (take i tr) (lr_history (lm_rec m))"
      by (simp add: lead_tinv_def Let_def nth_append)
    with hs True show ?thesis
      using revoked_mono [of "a - 1" "take i tr" "lr_history (lm_rec m)" "lr_history (lm_rec m')" "[]"]
      by simp
  next
    case False
    with i no show ?thesis by (simp add: nth_append)
  qed
  show ?thesis
    using inv same tgt rec dra old off by (simp add: lead_tinv_def Let_def)
qed

lemma lead_out_of [simp]:
  "offer_of (lead_out m ty t b rp) = (if ty = ''task.offer'' then Some (lr_attempt (lm_rec m)) else None)"
  "cancel_of (lead_out m ty t b rp) = (if ty = ''task.cancel'' then Some (lr_attempt (lm_rec m)) else None)"
  "offer_of stopTimers = None" "cancel_of stopTimers = None"
  by (simp_all add: lead_out_def stopTimers_def)

lemma truthyD: "truthy t \<Longrightarrow> \<exists>y. t = Some y \<and> y \<noteq> []"
  by (simp add: truthy_def split: option.splits)

lemma cancel_msg_of:
  "\<forall>a \<in> set (cancel_msg m rs). offer_of a = None"
  "truthy (lr_target (lm_rec m)) \<Longrightarrow> cancels (cancel_msg m rs) = [lr_attempt (lm_rec m)]"
  by (auto simp: cancel_msg_def truthy_def split: option.splits)

lemma block_no_offer:
  "\<forall>a \<in> set (snd (finish st m)). offer_of a = None"
  "\<forall>a \<in> set (snd (beginReclaim rs now h m)). offer_of a = None"
  "\<forall>a \<in> set (snd (budgetOrEscalate acc m)). offer_of a = None"
  "\<forall>a \<in> set (snd (leaseRenewal m to b now i)). offer_of a = None"
proof -
  show "\<forall>a \<in> set (snd (leaseRenewal m to b now i)). offer_of a = None"
    by (cases rule: leaseRenewal_cases [of m to b now i]) (simp_all add: Let_def)
qed (use cancel_msg_of(1) in \<open>auto simp: finish_def beginReclaim_def budgetOrEscalate_def Let_def\<close>)

lemma block_keeps [simp]:
  "lr_attempt (lm_rec (fst (finish st m))) = lr_attempt (lm_rec m)"
  "lr_attempt (lm_rec (fst (beginReclaim rs now h m))) = lr_attempt (lm_rec m)"
  "lr_attempt (lm_rec (fst (budgetOrEscalate acc m))) = lr_attempt (lm_rec m)"
  "lr_target (lm_rec (fst (finish st m))) = lr_target (lm_rec m)"
  "lr_target (lm_rec (fst (beginReclaim rs now h m))) = lr_target (lm_rec m)"
  "lr_target (lm_rec (fst (budgetOrEscalate acc m))) = lr_target (lm_rec m)"
  "lr_history (lm_rec (fst (finish st m))) = lr_history (lm_rec m)"
  "lr_history (lm_rec (fst (budgetOrEscalate acc m))) = lr_history (lm_rec m)"
  "set (lr_history (lm_rec (fst (beginReclaim rs now h m)))) = set (lr_history (lm_rec m)) \<union> set_option h"
  by (auto simp: finish_def beginReclaim_def budgetOrEscalate_def Let_def split: option.splits)

lemma tinv_target:
  assumes "lead_tinv tr m"
  shows "lr_state (lm_rec m) \<in> {Offered, Running, Reclaiming} \<Longrightarrow> truthy (lr_target (lm_rec m))"
    "lr_state (lm_rec m) = Reclaiming \<Longrightarrow> lr_attempt (lm_rec m) \<in> set (cancels tr)"
    "lr_state (lm_rec m) = Drafting \<Longrightarrow> lr_attempt (lm_rec m) \<noteq> 0 \<Longrightarrow>
       revoked (lr_attempt (lm_rec m)) tr (lr_history (lm_rec m))"
  using assms by (auto simp: lead_tinv_def Let_def truthy_def split: option.splits)

lemma tinv_finish:
  assumes "lead_tinv tr m0" "st \<in> terminal_states"
    "lr_attempt (lm_rec m) = lr_attempt (lm_rec m0)" "lr_target (lm_rec m) = lr_target (lm_rec m0)"
    "set (lr_history (lm_rec m0)) \<subseteq> set (lr_history (lm_rec m))"
  shows "lead_tinv (tr @ snd (finish st m)) (fst (finish st m))"
  by (rule tinv_quiet [OF assms(1)]) (use assms(2-) block_no_offer(1) in auto)

lemma tinv_reclaim:
  assumes "lead_tinv tr m0" "truthy (lr_target (lm_rec m0))"
    "lr_attempt (lm_rec m) = lr_attempt (lm_rec m0)" "lr_target (lm_rec m) = lr_target (lm_rec m0)"
    "set (lr_history (lm_rec m0)) \<subseteq> set (lr_history (lm_rec m))"
  shows "lead_tinv (tr @ snd (beginReclaim rs now h m)) (fst (beginReclaim rs now h m))"
proof (rule tinv_quiet [OF assms(1)])
  let ?m1 = "fst (beginReclaim rs now h m)"
  show "lr_attempt (lm_rec m0) \<in> set (cancels (tr @ snd (beginReclaim rs now h m)))"
  proof -
    have "truthy (lr_target (lm_rec ?m1))" using assms by simp
    note c = cancel_msg_of(2) [OF this, of rs]
    show ?thesis using c assms(3) by (cases h) (simp_all add: beginReclaim_def Let_def)
  qed
qed (use assms block_no_offer(2) in \<open>auto simp: truthy_def split: option.splits\<close>)

lemma tinv_budget:
  assumes "lead_tinv tr m0"
    "lr_attempt (lm_rec m) = lr_attempt (lm_rec m0)" "lr_target (lm_rec m) = lr_target (lm_rec m0)"
    "set (lr_history (lm_rec m0)) \<subseteq> set (lr_history (lm_rec m))"
    "revoked (lr_attempt (lm_rec m)) tr (lr_history (lm_rec m))"
  shows "lead_tinv (tr @ snd (budgetOrEscalate acc m)) (fst (budgetOrEscalate acc m))"
proof (rule tinv_quiet [OF assms(1)])
  show "revoked (lr_attempt (lm_rec m0)) (tr @ snd (budgetOrEscalate acc m))
    (lr_history (lm_rec (fst (budgetOrEscalate acc m))))"
    using assms(2,5) revoked_mono by (metis block_keeps(8) order_refl)
qed (use assms block_no_offer(3) budget_state [of acc m] in auto)

lemma tinv_offer:
  assumes inv: "lead_tinv tr m" and st: "lr_state (lm_rec m) = Drafting"
    and att: "att = Suc (lr_attempt (lm_rec m))" and t: "t \<noteq> []"
  shows "lead_tinv (tr @ snd (offer_with att m t b now)) (fst (offer_with att m t b now))"
proof -
  let ?acts = "snd (offer_with att m t b now)" and ?m = "fst (offer_with att m t b now)"
  obtain o1 o3 where acts: "?acts = [stopTimers, o1, o3]" "offer_of o1 = Some att" "offer_of o3 = None"
    by (simp add: offer_with_def Let_def)
  have same: "lr_history (lm_rec ?m) = lr_history (lm_rec m)" "lr_attempt (lm_rec ?m) = att"
    "lr_target (lm_rec ?m) = Some t"
    by (simp_all add: offer_with_def Let_def)
  have rv: "revoked (lr_attempt (lm_rec m)) (tr @ [stopTimers]) (lr_history (lm_rec m))"
    if "lr_attempt (lm_rec m) \<noteq> 0"
    using tinv_target(3) [OF inv st that] by (rule revoked_mono) simp
  have old: "revoked (a - 1) (take i (tr @ ?acts)) (lr_history (lm_rec m))"
    if i: "i < length (tr @ ?acts)" "offer_of ((tr @ ?acts) ! i) = Some a" "1 < a" for i a
  proof (cases "i < length tr")
    case True
    with i inv show ?thesis by (simp add: lead_tinv_def Let_def nth_append)
  next
    case False
    with i(1) acts(1) consider "i = length tr" | "i = Suc (length tr)" | "i = Suc (Suc (length tr))"
      by (simp only: length_append list.size) linarith
    then show ?thesis
    proof cases
      case 2
      with i acts att have a: "a = Suc (lr_attempt (lm_rec m))" by (simp add: nth_append)
      with i(3) rv have "revoked (a - 1) (tr @ [stopTimers]) (lr_history (lm_rec m))" by simp
      with 2 acts show ?thesis by simp
    qed (use i acts in \<open>simp_all add: nth_append\<close>)
  qed
  have "offers ?acts = [att]" using acts by simp
  with inv same att t old show ?thesis by (simp add: lead_tinv_def Let_def)
qed

lemma tinv_same:
  assumes "lead_tinv tr m" "\<forall>a \<in> set acts. offer_of a = None"
  shows "lead_tinv (tr @ acts) m"
  by (rule tinv_quiet [OF assms(1)])
    (use assms tinv_target [OF assms(1)] revoked_mono in \<open>auto dest!: truthyD\<close>)

lemma tinv_onOffered:
  assumes inv: "lead_tinv tr m" and st: "lr_state (lm_rec m) = Offered"
  shows "lead_tinv (tr @ snd (onOfferedMessage m ty f b now)) (fst (onOfferedMessage m ty f b now))"
proof -
  have tgt: "lr_target (lm_rec m) \<noteq> None" using tinv_target(1) [OF inv] st by (auto dest!: truthyD)
  consider "ty = ''task.accept''" | "ty = ''task.reject''" | "ty \<noteq> ''task.accept''" "ty \<noteq> ''task.reject''"
    by blast
  then show ?thesis
  proof cases
    case 1
    show ?thesis
      by (rule tinv_quiet [OF inv]) (use 1 tgt in \<open>auto simp: onOfferedMessage_def Let_def\<close>)
  next
    case 2
    let ?c = "rejectCodeOf (map_of b ''reason_code'')"
    let ?m = "m\<lparr>lm_rec := applyExclusion ?c b (push (hist f (lm_rec m) Oc_rejected (Some ?c)) (lm_rec m))\<rparr>"
    have "lead_tinv (tr @ snd (budgetOrEscalate False ?m)) (fst (budgetOrEscalate False ?m))"
      by (rule tinv_budget [OF inv]) (auto simp: revoked_def hist_def)
    then show ?thesis using 2 by (simp add: onOfferedMessage_def Let_def)
  next
    case 3
    with inv show ?thesis by (simp add: onOfferedMessage_def Let_def)
  qed
qed

lemma tinv_onRunning:
  assumes inv: "lead_tinv tr m" and st: "lr_state (lm_rec m) = Running"
  shows "lead_tinv (tr @ snd (onRunningMessage m ty f b now i)) (fst (onRunningMessage m ty f b now i))"
proof -
  have tgt: "truthy (lr_target (lm_rec m))" using tinv_target(1) [OF inv] st by simp
  let ?r1 = "(lm_rec m)\<lparr>lr_resultBody := Some b\<rparr>"
  consider "ty = ''task.progress''" | "ty = ''task.result''" | "ty = ''task.fail''"
    | "ty \<notin> {''task.progress'', ''task.result'', ''task.fail''}"
    by blast
  then show ?thesis
  proof cases
    case 1
    show ?thesis
      by (rule tinv_quiet [OF inv])
        (use 1 tgt st block_no_offer(4) in \<open>auto simp: onRunningMessage_def Let_def case_prod_beta dest!: truthyD\<close>)
  next
    case 2
    have "lead_tinv (tr @ snd (finish Done (m\<lparr>lm_rec := push h ?r1\<rparr>))) (fst (finish Done (m\<lparr>lm_rec := push h ?r1\<rparr>)))" for h
      by (rule tinv_finish [OF inv]) auto
    moreover have "lead_tinv (tr @ snd (beginReclaim rs now h (m\<lparr>lm_rec := ?r1\<rparr>))) (fst (beginReclaim rs now h (m\<lparr>lm_rec := ?r1\<rparr>)))" for rs h
      by (rule tinv_reclaim [OF inv tgt]) auto
    ultimately show ?thesis using 2 by (simp add: onRunningMessage_def Let_def)
  next
    case 3
    have "lead_tinv (tr @ snd (finish Failed (m\<lparr>lm_rec := push h (lm_rec m)\<rparr>))) (fst (finish Failed (m\<lparr>lm_rec := push h (lm_rec m)\<rparr>)))" for h
      by (rule tinv_finish [OF inv]) auto
    moreover have "lead_tinv (tr @ snd (beginReclaim rs now h m)) (fst (beginReclaim rs now h m))" for rs h
      by (rule tinv_reclaim [OF inv tgt]) auto
    ultimately show ?thesis using 3 by (simp add: onRunningMessage_def Let_def)
  next
    case 4
    with inv show ?thesis by (simp add: onRunningMessage_def Let_def)
  qed
qed

lemma tinv_push:
  assumes "lead_tinv tr m" "lr_state (lm_rec m) \<noteq> Drafting"
  shows "lead_tinv tr (m\<lparr>lm_rec := push h ((lm_rec m)\<lparr>lr_resultBody := x\<rparr>)\<rparr>)"
    "lead_tinv tr (m\<lparr>lm_rec := push h (lm_rec m)\<rparr>)"
proof -
  have "lead_tinv (tr @ []) (m\<lparr>lm_rec := push h ((lm_rec m)\<lparr>lr_resultBody := x\<rparr>)\<rparr>)"
    by (rule tinv_quiet [OF assms(1)])
      (use assms(2) tinv_target [OF assms(1)] in \<open>auto dest!: truthyD\<close>)
  then show "lead_tinv tr (m\<lparr>lm_rec := push h ((lm_rec m)\<lparr>lr_resultBody := x\<rparr>)\<rparr>)" by simp
  have "lead_tinv (tr @ []) (m\<lparr>lm_rec := push h (lm_rec m)\<rparr>)"
    by (rule tinv_quiet [OF assms(1)])
      (use assms(2) tinv_target [OF assms(1)] in \<open>auto dest!: truthyD\<close>)
  then show "lead_tinv tr (m\<lparr>lm_rec := push h (lm_rec m)\<rparr>)" by simp
qed

lemma tinv_drained:
  assumes "lead_tinv tr m" "lr_state (lm_rec m) = Reclaiming"
  shows "lead_tinv (tr @ snd (budgetOrEscalate acc (m\<lparr>lm_rec := (lm_rec m)\<lparr>lr_drainClosed := x\<rparr>\<rparr>)))
           (fst (budgetOrEscalate acc (m\<lparr>lm_rec := (lm_rec m)\<lparr>lr_drainClosed := x\<rparr>\<rparr>)))"
  by (rule tinv_budget [OF assms(1)]) (use tinv_target(2) [OF assms] in \<open>auto simp: revoked_def\<close>)

lemma tinv_onReclaiming:
  assumes inv: "lead_tinv tr m" and st: "lr_state (lm_rec m) = Reclaiming"
  shows "lead_tinv (tr @ snd (onReclaimingMessage m ty b)) (fst (onReclaimingMessage m ty b))"
proof -
  let ?r1 = "(lm_rec m)\<lparr>lr_resultBody := Some b\<rparr>"
  have fin1: "lead_tinv (tr @ snd (finish Done (m\<lparr>lm_rec := push h ?r1\<rparr>))) (fst (finish Done (m\<lparr>lm_rec := push h ?r1\<rparr>)))" for h
    by (rule tinv_finish [OF inv]) auto
  have fin2: "lead_tinv (tr @ snd (finish Failed (m\<lparr>lm_rec := push h (lm_rec m)\<rparr>))) (fst (finish Failed (m\<lparr>lm_rec := push h (lm_rec m)\<rparr>)))" for h
    by (rule tinv_finish [OF inv]) auto
  show ?thesis
    using inv st fin1 fin2 tinv_push [OF inv] tinv_drained [OF inv st]
    by (simp add: onReclaimingMessage_def Let_def)
qed

lemma tinv_onCancelling:
  assumes inv: "lead_tinv tr m" and st: "lr_state (lm_rec m) = Cancelling"
  shows "lead_tinv (tr @ snd (onCancellingMessage m ty b)) (fst (onCancellingMessage m ty b))"
proof -
  let ?r1 = "(lm_rec m)\<lparr>lr_resultBody := Some b\<rparr>"
  have fin1: "lead_tinv (tr @ snd (finish Done (m\<lparr>lm_rec := push h ?r1\<rparr>))) (fst (finish Done (m\<lparr>lm_rec := push h ?r1\<rparr>)))" for h
    by (rule tinv_finish [OF inv]) auto
  have fin2: "lead_tinv (tr @ snd (finish Closed m)) (fst (finish Closed m))"
    by (rule tinv_finish [OF inv]) auto
  show ?thesis
    using inv st fin1 fin2 tinv_push [OF inv] by (simp add: onCancellingMessage_def Let_def)
qed

lemma tinv_onMessage:
  "lead_tinv tr m \<Longrightarrow> lead_tinv (tr @ snd (onMessage m ty f a b now i)) (fst (onMessage m ty f a b now i))"
  by (cases "lr_state (lm_rec m)")
    (simp_all add: onMessage_def Let_def tinv_same tinv_onOffered tinv_onRunning tinv_onReclaiming
      tinv_onCancelling)

lemma tinv_onTimer:
  assumes inv: "lead_tinv tr m"
  shows "lead_tinv (tr @ snd (onTimer m t now)) (fst (onTimer m t now))"
proof -
  have re: "lead_tinv (tr @ snd (beginReclaim rs now None (m\<lparr>lm_rec := exclude Once (push h (lm_rec m))\<rparr>)))
      (fst (beginReclaim rs now None (m\<lparr>lm_rec := exclude Once (push h (lm_rec m))\<rparr>)))"
    if "lr_state (lm_rec m) \<in> {Offered, Running}" for rs h
    by (rule tinv_reclaim [OF inv]) (use tinv_target(1) [OF inv] that in auto)
  have lost: "lead_tinv (tr @ x # snd (beginReclaim rs now None (m\<lparr>lm_rec := exclude Once (push h (lm_rec m))\<rparr>)))
      (fst (beginReclaim rs now None (m\<lparr>lm_rec := exclude Once (push h (lm_rec m))\<rparr>)))"
    if "lr_state (lm_rec m) \<in> {Offered, Running}" "offer_of x = None" for rs h x
    using tinv_reclaim [OF tinv_same [OF inv, of "[x]"], of "m\<lparr>lm_rec := exclude Once (push h (lm_rec m))\<rparr>" rs now None]
      tinv_target(1) [OF inv] that by auto
  have fin: "lead_tinv (tr @ snd (finish Closed m)) (fst (finish Closed m))"
    by (rule tinv_finish [OF inv]) auto
  show ?thesis
    using inv re lost fin tinv_drained [OF inv] tinv_same [OF inv]
    by (simp add: onTimer_def Let_def case_prod_beta)
qed

lemma tinv_cancelByUser:
  assumes inv: "lead_tinv tr m"
  shows "lead_tinv (tr @ snd (cancelByUser m now)) (fst (cancelByUser m now))"
proof (cases "lm_terminal m \<or> lr_state (lm_rec m) = Cancelling")
  case True
  with inv show ?thesis by (auto simp: cancelByUser_def)
next
  case False
  show ?thesis
    by (rule tinv_quiet [OF inv]) (use False cancel_msg_of(1) in \<open>auto simp: cancelByUser_def Let_def\<close>)
qed

lemma tinv_redispatchByOwner:
  assumes inv: "lead_tinv tr m" and li: "lr_state (lm_rec m) \<notin> terminal_states \<or> lm_terminal m"
  shows "lead_tinv (tr @ snd (redispatchByOwner m now)) (fst (redispatchByOwner m now))"
proof -
  have re: "lead_tinv (tr @ snd (beginReclaim rs now None (m\<lparr>lm_rec := push h (exclude Once (lm_rec m))\<rparr>)))
      (fst (beginReclaim rs now None (m\<lparr>lm_rec := push h (exclude Once (lm_rec m))\<rparr>)))"
    if "lr_state (lm_rec m) \<in> {Offered, Running}" for rs h
    by (rule tinv_reclaim [OF inv]) (use tinv_target(1) [OF inv] that in auto)
  have ex: "lead_tinv (tr @ [LRequestDispatch n]) (m\<lparr>lm_rec := exclude Once (lm_rec m)\<rparr>)"
    if "lr_state (lm_rec m) = Drafting" for n
    by (rule tinv_quiet [OF inv])
      (use that tinv_target(3) [OF inv that] revoked_mono in auto)
  show ?thesis
    using inv re ex li
    by (cases "lr_state (lm_rec m)") (simp_all add: redispatchByOwner_def Let_def)
qed

text \<open>The trace invariant together with well-formedness is kept by every step of a well-behaved host.\<close>

definition lead_trace_inv :: "lead_action list \<Rightarrow> lead_machine \<Rightarrow> bool" where
  "lead_trace_inv tr m \<longleftrightarrow> lead_inv m \<and> lead_tinv tr m"

lemma lead_trace_step:
  assumes "lead_trace_inv tr m" "lead_host_ok m e"
  shows "lead_trace_inv (tr @ snd (lead_step m e)) (fst (lead_step m e))"
proof -
  from assms(1) have li: "lead_inv m" and ti: "lead_tinv tr m" by (simp_all add: lead_trace_inv_def)
  have "lead_tinv (tr @ snd (lead_step m e)) (fst (lead_step m e))"
  proof (cases e)
    case (Ev_dispatch t b now)
    with assms(2) ti show ?thesis
      by (auto simp: dispatchTo_def lead_host_ok_def intro: tinv_offer)
  next
    case (Ev_redispatch t b now)
    with assms(2) ti show ?thesis
      by (auto simp: redispatchTo_def lead_host_ok_def intro: tinv_offer)
  next
    case (Ev_redispatchByOwner now)
    with tinv_redispatchByOwner [OF ti] lead_inv_terminal [OF li] show ?thesis by auto
  qed (simp_all add: ti tinv_onMessage tinv_onTimer tinv_cancelByUser)
  with li show ?thesis by (simp add: lead_trace_inv_def lead_inv_step)
qed

interpretation lead_tr: traced_machine lead_step lead_host_ok lead_trace_inv
  by unfold_locales (rule lead_trace_step)

lemma lead_trace_new:
  assumes "0 < maxAttempts p" and "0 < maxDispatchRounds p"
  shows "lead_trace_inv [] (newLeadTaskMachine tid k (Some p) v)"
  using lead_inv_new [OF assms]
  by (simp add: lead_trace_inv_def lead_tinv_def newLeadTaskMachine_def Let_def)

text \<open>
  C1: revoke before redispatch (R4). In a run of a host that dispatches initially once, the attempts
  are offered exactly once each, in order, and the offer of attempt \<open>a > 1\<close> is preceded in the emitted
  actions by a \<open>task.cancel\<close> of attempt \<open>a - 1\<close>, unless the executor of attempt \<open>a - 1\<close> refused it.
\<close>

theorem revoke_before_redispatch:
  assumes "0 < maxAttempts p" and "0 < maxDispatchRounds p"
    and "good_run lead_host_ok lead_step (newLeadTaskMachine tid k (Some p) v) es"
    and "run lead_step (newLeadTaskMachine tid k (Some p) v) es = (m, tr)"
  shows "offers tr = [1..<Suc (lr_attempt (lm_rec m))] \<and>
    (\<forall>i < length tr. \<forall>a. offer_of (tr ! i) = Some a \<and> 1 < a \<longrightarrow>
       revoked (a - 1) (take i tr) (lr_history (lm_rec m)))"
proof -
  have "lead_tinv tr m"
    using lead_tr.tinv_run [OF lead_trace_new [OF assms(1,2)] assms(3)] assms(4)
    by (simp add: lead_trace_inv_def)
  then show ?thesis by (simp add: lead_tinv_def Let_def)
qed

definition demo_new :: lead_machine where
  "demo_new = newLeadTaskMachine ''t'' Aid (Some DEFAULT_PARAMS) None"

definition demo_events :: "lead_event list" where
  "demo_events = [Ev_dispatch ''n1'' [] 0, Ev_timer T_offer_ttl 10000, Ev_timer T_drain 40000,
     Ev_redispatch ''n2'' [] 40000]"

lemma demo_good: "good_run lead_host_ok lead_step (newLeadTaskMachine ''t'' Aid (Some DEFAULT_PARAMS) None) demo_events"
  by (simp add: demo_events_def lead_host_ok_def demo_defs onTimer_def beginReclaim_def budgetOrEscalate_def
      exclude_def target_or_def)

theorem revoke_before_redispatch_witness:
  "good_run lead_host_ok lead_step demo_new demo_events \<and>
   (\<exists>m tr. run lead_step demo_new demo_events = (m, tr) \<and>
     offers tr = [1..<Suc (lr_attempt (lm_rec m))] \<and>
     (\<forall>i < length tr. \<forall>a. offer_of (tr ! i) = Some a \<and> 1 < a \<longrightarrow>
        revoked (a - 1) (take i tr) (lr_history (lm_rec m))))"
proof -
  obtain m tr where r: "run lead_step demo_new demo_events = (m, tr)" by (cases "run lead_step demo_new demo_events")
  have "0 < maxAttempts DEFAULT_PARAMS" "0 < maxDispatchRounds DEFAULT_PARAMS"
    by (simp_all add: DEFAULT_PARAMS_def)
  from revoke_before_redispatch [OF this demo_good r [unfolded demo_new_def]] demo_good r show ?thesis
    unfolding demo_new_def by blast
qed

section \<open>Exclusions\<close>

lemma exclude_dom: "fst ` set (lr_excluded r) \<subseteq> fst ` set (lr_excluded (exclude how r))"
  by (auto simp: exclude_def dom_update simp flip: dom_map_of_conv_image_fst split: option.splits)

lemma applyExclusion_dom: "fst ` set (lr_excluded r) \<subseteq> fst ` set (lr_excluded (applyExclusion c b r))"
  using exclude_dom by (auto simp: applyExclusion_def)

lemma block_excluded [simp]:
  "lr_excluded (lm_rec (fst (finish st m))) = lr_excluded (lm_rec m)"
  "lr_excluded (lm_rec (fst (beginReclaim rs now h m))) = lr_excluded (lm_rec m)"
  "lr_excluded (lm_rec (fst (budgetOrEscalate acc m))) = lr_excluded (lm_rec m)"
  "lr_excluded (lm_rec (fst (offer_with att m t b now))) = lr_excluded (lm_rec m)"
  by (simp_all add: finish_def beginReclaim_def budgetOrEscalate_def offer_with_def Let_def
      split: option.split)

definition excluded_nodes :: "lead_machine \<Rightarrow> string set" where
  "excluded_nodes m = fst ` set (lr_excluded (lm_rec m))"

lemma excluded_step: "excluded_nodes m \<subseteq> excluded_nodes (fst (lead_step m e))"
proof -
  have ex: "fst ` set (lr_excluded (lm_rec m)) \<subseteq> fst ` set (lr_excluded (exclude how (push h (lm_rec m))))"
    "fst ` set (lr_excluded (lm_rec m)) \<subseteq> fst ` set (lr_excluded (exclude how (lm_rec m)))"
    "fst ` set (lr_excluded (lm_rec m)) \<subseteq> fst ` set (lr_excluded (applyExclusion c b (push h (lm_rec m))))"
    for how h c b
    using exclude_dom [of "push h (lm_rec m)"] exclude_dom [of "lm_rec m"]
      applyExclusion_dom [of "push h (lm_rec m)"] by simp_all
  show ?thesis
    by (cases e; cases "lr_state (lm_rec m)")
      (simp_all add: excluded_nodes_def lead_op_defs Let_def case_prod_beta ex)
qed

text \<open>
  R8 exclusions never lapse. Once a node is in the exclusion table of a task, no event removes it,
  whichever mark (\<open>permanent\<close> or \<open>once\<close>) it carries.
\<close>

theorem exclusions_never_lapse:
  "excluded_nodes m \<subseteq> excluded_nodes (fst (run lead_step m es))"
proof (induction es arbitrary: m)
  case Nil
  then show ?case by simp
next
  case (Cons e es)
  have "excluded_nodes m \<subseteq> excluded_nodes (fst (lead_step m e))" by (rule excluded_step)
  also have "\<dots> \<subseteq> excluded_nodes (fst (run lead_step (fst (lead_step m e)) es))" by (rule Cons)
  finally show ?case by (simp del: run.simps(2))
qed

section \<open>Two corners of the code\<close>

definition demo_refused :: lead_machine where
  "demo_refused = fst (run lead_step demo_lead
     [Ev_dispatch ''n1'' [] 0, Ev_message ''task.reject'' ''n1'' 1 [(''reason_code'', JStr ''policy_denied'')] 5 None])"

lemmas demo_refused_defs = demo_refused_def demo_defs budgetOrEscalate_def applyExclusion_def exclude_def
  rejectCodeOf_def normalizeRejectCode_def REJECT_CODES_def truthy_def

text \<open>
  \<open>dispatchTo\<close> is only safe as the first dispatch. Its guard looks at the state alone, so used as
  the answer to a redispatch request it offers attempt 1 again, although attempt 1 has already been
  offered and refused, while \<open>redispatchTo\<close> offers attempt 2.
\<close>

theorem dispatchTo_reuses_attempt:
  "lr_attempt (lm_rec demo_refused) = 1 \<and> lr_state (lm_rec demo_refused) = Drafting \<and>
   offers (snd (dispatchTo demo_refused ''n2'' [] 6)) = [1] \<and>
   offers (snd (redispatchTo demo_refused ''n2'' [] 6)) = [2]"
  by (simp add: demo_refused_defs redispatchTo_def)

text \<open>
  an owner redispatch downgrades a lasting exclusion. After the executor refused with
  \<open>policy_denied\<close> it is excluded for the life of the task; the owner command, issued while the task
  waits for its next target, overwrites that mark with \<open>once\<close>.
\<close>

theorem owner_redispatch_downgrades:
  "map_of (lr_excluded (lm_rec demo_refused)) ''n1'' = Some Permanent \<and>
   map_of (lr_excluded (lm_rec (fst (redispatchByOwner demo_refused 7)))) ''n1'' = Some Once"
  by (simp add: demo_refused_defs redispatchByOwner_def)

end
