(* ===== verification/Lead_Checkpoint.thy ===== *)
theory Lead_Checkpoint
  imports Lead_Trace
begin

text \<open>
  Persistence of lead machines: checkpoints and timer re-arming
  (\<open>packages/node/src/lead/checkpoint.ts\<close>), the checkpoint store interface and its in-memory
  implementation (\<open>store.ts\<close>), the supervisor that saves after every transition (\<open>supervisor.ts\<close>) and
  the export and import of a takeover bundle (\<open>takeover.ts\<close>). A blob is the checkpoint its JSON text
  denotes; \<open>None\<close> is the empty text. The store is an interface (locale \<open>checkpoint_store\<close>): the
  supervisor and the importer take its operations as arguments, and their lemmas hold for every store
  that keeps the laws, of which \<open>MemoryStore\<close> is one.
\<close>

section \<open>Checkpoints\<close>

record lead_checkpoint =
  cp_v :: nat
  cp_task_id :: string
  cp_kind :: task_kind
  cp_terminal :: bool
  cp_rec :: lead_record

definition checkpointLeadMachine :: "lead_machine \<Rightarrow> lead_checkpoint" where
  "checkpointLeadMachine m =
     \<lparr>cp_v = 1, cp_task_id = lm_task_id m, cp_kind = lr_kind (lm_rec m), cp_terminal = lm_terminal m,
      cp_rec = lm_rec m\<rparr>"

datatype lead_error =
    Checkpoint_version nat
  | Bundle_version nat
  | No_such_task string
  | Bad_json

definition restoreLeadMachine ::
  "lead_checkpoint \<Rightarrow> qlong_params option \<Rightarrow> (body \<Rightarrow> bool) option \<Rightarrow> lead_error + lead_machine" where
  "restoreLeadMachine cp params validate =
     (if cp_v cp \<noteq> 1 then Inl (Checkpoint_version (cp_v cp))
      else Inr ((newLeadTaskMachine (cp_task_id cp) (cp_kind cp) params validate)
                  \<lparr>lm_rec := cp_rec cp, lm_terminal := cp_terminal cp\<rparr>))"

definition pendingTimers :: "lead_machine \<Rightarrow> (timer_name \<times> number) list" where
  "pendingTimers m =
     (let r = lm_rec m in
      (case lr_offerTtlUntil r of
         Some due \<Rightarrow> if lr_state r = Offered then [(T_offer_ttl, due)] else []
       | None \<Rightarrow> []) @
      (case lr_leaseDeadline r of
         Some due \<Rightarrow> if lr_state r = Running then [(T_lease, due)] else []
       | None \<Rightarrow> []) @
      (case lr_drainUntil r of
         Some due \<Rightarrow> if lr_state r = Reclaiming \<and> lr_drainClosed r \<noteq> Some True then [(T_drain, due)] else []
       | None \<Rightarrow> []) @
      (case lr_cancelWaitUntil r of
         Some due \<Rightarrow> if lr_state r = Cancelling then [(T_cancel_wait, due)] else []
       | None \<Rightarrow> []))"

section \<open>The checkpoint store\<close>

locale checkpoint_store =
  fixes save :: "string \<Rightarrow> lead_checkpoint \<Rightarrow> 's \<Rightarrow> 's"
    and load :: "string \<Rightarrow> 's \<Rightarrow> lead_checkpoint option"
    and list_ids :: "'s \<Rightarrow> string list"
    and remove_id :: "string \<Rightarrow> 's \<Rightarrow> 's"
    and sinv :: "'s \<Rightarrow> bool"
  assumes load_save: "sinv s \<Longrightarrow> load t (save u cp s) = (if t = u then Some cp else load t s)"
    and load_remove: "sinv s \<Longrightarrow> load t (remove_id u s) = (if t = u then None else load t s)"
    and list_load: "sinv s \<Longrightarrow> t \<in> set (list_ids s) \<longleftrightarrow> load t s \<noteq> None"
    and list_distinct: "sinv s \<Longrightarrow> distinct (list_ids s)"
    and sinv_save: "sinv s \<Longrightarrow> sinv (save u cp s)"
    and sinv_remove: "sinv s \<Longrightarrow> sinv (remove_id u s)"

type_synonym memory_store = "(string \<times> lead_checkpoint) list"

definition ms_save :: "string \<Rightarrow> lead_checkpoint \<Rightarrow> memory_store \<Rightarrow> memory_store" where
  "ms_save taskId blob s = AList.update taskId blob s"

definition ms_load :: "string \<Rightarrow> memory_store \<Rightarrow> lead_checkpoint option" where
  "ms_load taskId s = map_of s taskId"

definition ms_list :: "memory_store \<Rightarrow> string list" where
  "ms_list s = map fst s"

definition ms_delete :: "string \<Rightarrow> memory_store \<Rightarrow> memory_store" where
  "ms_delete taskId s = AList.delete taskId s"

lemmas ms_defs = ms_save_def ms_load_def ms_list_def ms_delete_def

interpretation ms: checkpoint_store ms_save ms_load ms_list ms_delete wf_map
  by unfold_locales
    (auto simp: ms_defs wf_map_def distinct_update distinct_delete map_of_eq_None_iff image_iff
      split: if_splits)

section \<open>The supervisor\<close>

record 's supervisor =
  sup_machines :: "(string \<times> lead_machine) list"
  sup_store :: 's
  sup_params :: "qlong_params option"
  sup_validate :: "(body \<Rightarrow> bool) option"

type_synonym 's saver = "string \<Rightarrow> lead_checkpoint \<Rightarrow> 's \<Rightarrow> 's"

definition sup_persist :: "'s saver \<Rightarrow> lead_machine \<Rightarrow> 's supervisor \<Rightarrow> 's supervisor" where
  "sup_persist save m sv =
     sv\<lparr>sup_store := save (lm_task_id m) (checkpointLeadMachine m) (sup_store sv)\<rparr>"

definition sup_create ::
  "'s saver \<Rightarrow> string \<Rightarrow> task_kind \<Rightarrow> 's supervisor \<Rightarrow> 's supervisor \<times> lead_machine" where
  "sup_create save taskId kind sv =
     (let m = newLeadTaskMachine taskId kind (sup_params sv) (sup_validate sv) in
      (sup_persist save m (sv\<lparr>sup_machines := AList.update taskId m (sup_machines sv)\<rparr>), m))"

text \<open>
  \<open>dispatch\<close>, \<open>redispatch\<close>, \<open>deliver\<close>, \<open>tick\<close> and \<open>cancel\<close> all look the machine up, run one transition in
  place and persist it.
\<close>

definition sup_transition ::
  "'s saver \<Rightarrow> string \<Rightarrow> lead_event \<Rightarrow> 's supervisor \<Rightarrow> lead_error + ('s supervisor \<times> lead_action list)" where
  "sup_transition save taskId e sv =
     (case map_of (sup_machines sv) taskId of
        None \<Rightarrow> Inl (No_such_task taskId)
      | Some m \<Rightarrow>
          (let (m1, acts) = lead_step m e in
           Inr (sup_persist save m1 (sv\<lparr>sup_machines := AList.update taskId m1 (sup_machines sv)\<rparr>), acts)))"

definition sup_dispatch where
  "sup_dispatch save taskId target b now = sup_transition save taskId (Ev_dispatch target b now)"

definition sup_redispatch where
  "sup_redispatch save taskId target b now = sup_transition save taskId (Ev_redispatch target b now)"

definition sup_deliver where
  "sup_deliver save taskId ty fromNode att b now =
     sup_transition save taskId (Ev_message ty fromNode att b now None)"

definition sup_tick where
  "sup_tick save taskId timer now = sup_transition save taskId (Ev_timer timer now)"

definition sup_cancel where
  "sup_cancel save taskId now = sup_transition save taskId (Ev_cancelByUser now)"

text \<open>
  The result of \<open>restoreAll\<close>: the machines, and what the host is told: the timers to re-arm and the
  tasks that wait for a dispatch, with the attempt they will get.
\<close>

record restored =
  rs_machines :: "(string \<times> lead_machine) list"
  rs_restored :: "string list"
  rs_rearm :: "(string \<times> (timer_name \<times> number) list) list"
  rs_needDispatch :: "(string \<times> nat) list"

fun sup_restore_loop ::
  "(string \<Rightarrow> lead_checkpoint option) \<Rightarrow> qlong_params option \<Rightarrow> (body \<Rightarrow> bool) option \<Rightarrow> string list
     \<Rightarrow> restored \<Rightarrow> lead_error + restored" where
  "sup_restore_loop load params validate [] acc = Inr acc"
| "sup_restore_loop load params validate (taskId # ids) acc =
     (case load taskId of
        None \<Rightarrow> sup_restore_loop load params validate ids acc
      | Some blob \<Rightarrow>
          (case restoreLeadMachine blob params validate of
             Inl err \<Rightarrow> Inl err
           | Inr m \<Rightarrow>
               (let acc1 = acc\<lparr>rs_machines := AList.update taskId m (rs_machines acc),
                               rs_restored := rs_restored acc @ [taskId]\<rparr>;
                    acc2 = (if lm_terminal m then acc1
                            else acc1\<lparr>rs_rearm := rs_rearm acc1 @ [(taskId, pendingTimers m)],
                                      rs_needDispatch := rs_needDispatch acc1 @
                                        (if lr_state (lm_rec m) = Drafting
                                         then [(taskId, lr_attempt (lm_rec m) + 1)] else [])\<rparr>)
                in sup_restore_loop load params validate ids acc2)))"

definition sup_restoreAll ::
  "(string \<Rightarrow> 's \<Rightarrow> lead_checkpoint option) \<Rightarrow> ('s \<Rightarrow> string list) \<Rightarrow> 's supervisor
     \<Rightarrow> lead_error + restored" where
  "sup_restoreAll load list_ids sv =
     sup_restore_loop (\<lambda>t. load t (sup_store sv)) (sup_params sv) (sup_validate sv)
       (list_ids (sup_store sv))
       \<lparr>rs_machines = sup_machines sv, rs_restored = [], rs_rearm = [], rs_needDispatch = []\<rparr>"

section \<open>Takeover\<close>

record takeover_bundle =
  tb_v :: nat
  tb_checkpoints :: "(string \<times> lead_checkpoint option) list"

record import_result =
  imp_imported :: "string list"
  imp_fenced :: "string list"
  imp_archived :: "string list"
  imp_dispatch :: "(string \<times> nat) list"

definition exportCheckpoints ::
  "(string \<Rightarrow> 's \<Rightarrow> lead_checkpoint option) \<Rightarrow> ('s \<Rightarrow> string list) \<Rightarrow> 's \<Rightarrow> takeover_bundle" where
  "exportCheckpoints load list_ids s =
     \<lparr>tb_v = 1, tb_checkpoints = map (\<lambda>t. (t, load t s)) (list_ids s)\<rparr>"

definition fencedBlob :: "lead_machine \<Rightarrow> lead_checkpoint" where
  "fencedBlob incoming =
     (let r = (lm_rec incoming)\<lparr>lr_attempt := lr_attempt (lm_rec incoming) + 1, lr_state := Drafting\<rparr> in
      \<lparr>cp_v = 1, cp_task_id = lm_task_id incoming, cp_kind = lr_kind r,
       cp_terminal = lm_terminal incoming, cp_rec = r\<rparr>)"

definition importOne ::
  "'s saver \<Rightarrow> (string \<Rightarrow> 's \<Rightarrow> lead_checkpoint option) \<Rightarrow> qlong_params option \<Rightarrow> (body \<Rightarrow> bool) option
     \<Rightarrow> string \<Rightarrow> lead_checkpoint \<Rightarrow> 's \<times> import_result \<Rightarrow> lead_error + ('s \<times> import_result)" where
  "importOne save load params validate taskId blob st =
     (let (s, res) = st in
      (case restoreLeadMachine blob params validate of
         Inl err \<Rightarrow> Inl err
       | Inr incoming \<Rightarrow>
           (let proceed =
              (if lm_terminal incoming
               then Inr (save taskId blob s, res\<lparr>imp_archived := imp_archived res @ [taskId]\<rparr>)
               else Inr (save taskId (fencedBlob incoming) s,
                      res\<lparr>imp_imported := imp_imported res @ [taskId],
                          imp_dispatch := imp_dispatch res @
                            [(lm_task_id incoming, lr_attempt (lm_rec incoming) + 1)]\<rparr>))
            in (case load taskId s of
                  None \<Rightarrow> proceed
                | Some localBlob \<Rightarrow>
                    (case restoreLeadMachine localBlob params validate of
                       Inl err \<Rightarrow> Inl err
                     | Inr loc \<Rightarrow>
                         if lr_attempt (lm_rec incoming) \<le> lr_attempt (lm_rec loc)
                         then Inr (s, res\<lparr>imp_fenced := imp_fenced res @ [taskId]\<rparr>)
                         else proceed)))))"

fun importLoop ::
  "'s saver \<Rightarrow> (string \<Rightarrow> 's \<Rightarrow> lead_checkpoint option) \<Rightarrow> qlong_params option \<Rightarrow> (body \<Rightarrow> bool) option
     \<Rightarrow> (string \<times> lead_checkpoint option) list \<Rightarrow> 's \<times> import_result \<Rightarrow> lead_error + ('s \<times> import_result)" where
  "importLoop save load params validate [] st = Inr st"
| "importLoop save load params validate ((taskId, blob) # cps) st =
     (case blob of
        None \<Rightarrow> importLoop save load params validate cps st
      | Some b \<Rightarrow>
          (case importOne save load params validate taskId b st of
             Inl err \<Rightarrow> Inl err
           | Inr st' \<Rightarrow> importLoop save load params validate cps st'))"

definition importCheckpoints ::
  "'s saver \<Rightarrow> (string \<Rightarrow> 's \<Rightarrow> lead_checkpoint option) \<Rightarrow> qlong_params option \<Rightarrow> (body \<Rightarrow> bool) option
     \<Rightarrow> takeover_bundle \<Rightarrow> 's \<Rightarrow> lead_error + ('s \<times> import_result)" where
  "importCheckpoints save load params validate bundle s =
     (if tb_v bundle \<noteq> 1 then Inl (Bundle_version (tb_v bundle))
      else importLoop save load params validate (tb_checkpoints bundle)
             (s, \<lparr>imp_imported = [], imp_fenced = [], imp_archived = [], imp_dispatch = []\<rparr>))"

definition restoreFromBundle ::
  "takeover_bundle \<Rightarrow> string \<Rightarrow> qlong_params option \<Rightarrow> (body \<Rightarrow> bool) option
     \<Rightarrow> lead_error + lead_machine" where
  "restoreFromBundle bundle taskId params validate =
     (case map_of (tb_checkpoints bundle) taskId of
        None \<Rightarrow> Inl (No_such_task taskId)
      | Some None \<Rightarrow> Inl Bad_json
      | Some (Some blob) \<Rightarrow> restoreLeadMachine blob params validate)"

section \<open>Timers leave every waiting state\<close>

text \<open>
  no task is stuck without a timer. A well-formed task that is neither terminal nor waiting for a
  dispatch has exactly one pending timer to re-arm after a restart, and firing it at its deadline takes
  the machine out of its state: to \<open>reclaiming\<close>, back to \<open>drafting\<close>, or to a terminal state.
\<close>

theorem pending_timer_progress:
  assumes "lead_inv m" "\<not> lm_terminal m" "lr_state (lm_rec m) \<noteq> Drafting"
  shows "\<exists>t due. pendingTimers m = [(t, due)] \<and>
    lr_state (lm_rec (fst (onTimer m t due))) \<noteq> lr_state (lm_rec m) \<and>
    lr_state (lm_rec (fst (onTimer m t due))) \<in> {Reclaiming, Drafting} \<union> terminal_states"
proof (cases "lr_state (lm_rec m)")
  case Offered
  with assms obtain due where "lr_offerTtlUntil (lm_rec m) = Some due"
    by (auto simp: lead_inv_def Let_def)
  with Offered assms(2) show ?thesis
    by (simp add: pendingTimers_def onTimer_def Let_def split: option.split)
next
  case Running
  with assms obtain due where "lr_leaseDeadline (lm_rec m) = Some due"
    by (auto simp: lead_inv_def Let_def)
  with Running have "pendingTimers m = [(T_lease, due)]"
    by (simp add: pendingTimers_def Let_def split: option.split)
  moreover have "lr_state (lm_rec (fst (onTimer m T_lease due))) = Reclaiming"
    using Running assms(2) \<open>lr_leaseDeadline (lm_rec m) = Some due\<close>
    by (simp add: onTimer_def Let_def case_prod_beta)
  ultimately show ?thesis using Running by simp
next
  case Reclaiming
  with assms obtain due where "lr_drainUntil (lm_rec m) = Some due" "lr_drainClosed (lm_rec m) = Some False"
    by (auto simp: lead_inv_def Let_def)
  with Reclaiming assms(2) show ?thesis
    using budget_state [of "lr_acceptedThisAttempt (lm_rec m)" "m\<lparr>lm_rec := (lm_rec m)\<lparr>lr_drainClosed := Some True\<rparr>\<rparr>"]
    by (auto simp: pendingTimers_def onTimer_def Let_def split: option.split)
next
  case Cancelling
  with assms obtain due where "lr_cancelWaitUntil (lm_rec m) = Some due"
    by (auto simp: lead_inv_def Let_def)
  with Cancelling assms(2) show ?thesis
    by (simp add: pendingTimers_def onTimer_def Let_def split: option.split)
qed (use assms in \<open>auto simp: lead_inv_terminal\<close>)

lemma demo_running_ok:
  "lead_inv demo_running" "\<not> lm_terminal demo_running" "lr_state (lm_rec demo_running) \<noteq> Drafting"
  by (simp_all add: demo_defs lead_inv_def)

theorem pending_timer_progress_witness:
  "\<exists>t due. pendingTimers demo_running = [(t, due)] \<and>
    lr_state (lm_rec (fst (onTimer demo_running t due))) \<noteq> lr_state (lm_rec demo_running) \<and>
    lr_state (lm_rec (fst (onTimer demo_running t due))) \<in> {Reclaiming, Drafting} \<union> terminal_states"
  by (rule pending_timer_progress [OF demo_running_ok])

text \<open>
  One silent round: the host dispatches to a target that never answers, the offer expires and the drain
  window closes.
\<close>

definition silent_round :: "string \<times> body \<times> number \<times> number \<times> number \<Rightarrow> lead_event list" where
  "silent_round x = (case x of (target, b, t0, t1, t2) \<Rightarrow>
     [Ev_redispatch target b t0, Ev_timer T_offer_ttl t1, Ev_timer T_drain t2])"

lemma silent_round_effect:
  assumes "lead_inv m" "lr_state (lm_rec m) = Drafting" "isLeadContract (map_of b ''contract'')"
  shows "let m' = fst (run lead_step m (silent_round (target, b, t0, t1, t2))) in
    lead_inv m' \<and> lr_state (lm_rec m') = (if maxDispatchRounds (lm_params m) \<le> lr_dispatchRounds (lm_rec m) + 1
      then Escalated else Drafting) \<and>
    lr_dispatchRounds (lm_rec m') = lr_dispatchRounds (lm_rec m) + 1"
proof -
  let ?r = "silent_round (target, b, t0, t1, t2)"
  have nt: "\<not> lm_terminal m" using assms lead_inv_terminal by auto
  have inv: "lead_inv (fst (run lead_step m ?r))" by (rule lead.inv_run [OF assms(1)])
  have "\<not> maxAttempts (lm_params m) \<le> lr_acceptedFailedBudget (lm_rec m)"
    using lead_inv_budgets [OF assms(1) nt] by simp
  then show ?thesis
    using assms(2,3) nt inv
    by (simp add: silent_round_def redispatchTo_def offer_with_def onTimer_def beginReclaim_def
        budgetOrEscalate_def Let_def)
qed

text \<open>
  C36: a silent network cannot keep a task alive. If every target the host picks stays silent, then
  after as many rounds as the dispatch budget still allows the task is escalated.
\<close>

theorem silent_network_escalates:
  assumes "lead_inv m" "lr_state (lm_rec m) = Drafting"
    and "\<forall>x \<in> set rounds. isLeadContract (map_of (fst (snd x)) ''contract'')"
    and "maxDispatchRounds (lm_params m) \<le> lr_dispatchRounds (lm_rec m) + length rounds"
  shows "lr_state (lm_rec (fst (run lead_step m (concat (map silent_round rounds))))) = Escalated"
  using assms
proof (induction rounds arbitrary: m)
  case Nil
  then have "\<not> lm_terminal m" using lead_inv_terminal by auto
  with Nil show ?case using lead_inv_budgets(2) [of m] by simp
next
  case (Cons x rounds)
  obtain target b t0 t1 t2 where x: "x = (target, b, t0, t1, t2)" by (cases x)
  let ?m' = "fst (run lead_step m (silent_round x))"
  from Cons.prems(3) x have "isLeadContract (map_of b ''contract'')" by simp
  from silent_round_effect [OF Cons.prems(1,2) this, of target t0 t1 t2, folded x]
  have m': "lead_inv ?m'" "lr_dispatchRounds (lm_rec ?m') = lr_dispatchRounds (lm_rec m) + 1"
    "lr_state (lm_rec ?m') = (if maxDispatchRounds (lm_params m) \<le> lr_dispatchRounds (lm_rec m) + 1
       then Escalated else Drafting)"
    by (simp_all add: Let_def)
  show ?case
  proof (cases "maxDispatchRounds (lm_params m) \<le> lr_dispatchRounds (lm_rec m) + 1")
    case True
    with m' have "lm_terminal ?m'" by (simp add: lead_inv_terminal)
    from lead_final.final_run [OF this] True m' show ?thesis by (simp add: run_append_fst)
  next
    case False
    with m' Cons.IH [of ?m'] Cons.prems show ?thesis by (simp add: run_append_fst)
  qed
qed

definition demo_rounds :: "(string \<times> body \<times> number \<times> number \<times> number) list" where
  "demo_rounds = [(''n1'', [], 0, 1, 2), (''n2'', [], 3, 4, 5), (''n3'', [], 6, 7, 8)]"

lemma demo_rounds_ok:
  "lead_inv demo_lead" "lr_state (lm_rec demo_lead) = Drafting"
  "\<forall>x \<in> set demo_rounds. isLeadContract (map_of (fst (snd x)) ''contract'')"
  "maxDispatchRounds (lm_params demo_lead) \<le> lr_dispatchRounds (lm_rec demo_lead) + length demo_rounds"
  by (simp_all add: demo_rounds_def demo_defs lead_inv_def)

theorem silent_network_escalates_witness:
  "lr_state (lm_rec (fst (run lead_step demo_lead (concat (map silent_round demo_rounds))))) = Escalated"
  by (rule silent_network_escalates [OF demo_rounds_ok])

end
