(* ===== verification/Lead_Recovery.thy ===== *)
theory Lead_Recovery
  imports Lead_Checkpoint
begin

text \<open>
  What the supervisor and the takeover importer promise, for every store that keeps the laws of
  \<open>checkpoint_store\<close>: a crash loses nothing, because the machines rebuilt from the store are the machines
  that were running, and an import never lowers the attempt a store holds. The properties apply these
  lemmas to \<open>MemoryStore\<close>.
\<close>

section \<open>The identity of a machine never changes\<close>

lemma block_identity [simp]:
  "lm_task_id (fst (finish st m)) = lm_task_id m"
  "lm_task_id (fst (beginReclaim rs now h m)) = lm_task_id m"
  "lm_task_id (fst (budgetOrEscalate acc m)) = lm_task_id m"
  "lm_task_id (fst (offer_with att m t b now)) = lm_task_id m"
  "lr_kind (lm_rec (fst (finish st m))) = lr_kind (lm_rec m)"
  "lr_kind (lm_rec (fst (beginReclaim rs now h m))) = lr_kind (lm_rec m)"
  "lr_kind (lm_rec (fst (budgetOrEscalate acc m))) = lr_kind (lm_rec m)"
  "lr_kind (lm_rec (fst (offer_with att m t b now))) = lr_kind (lm_rec m)"
  "lr_task_id (lm_rec (fst (finish st m))) = lr_task_id (lm_rec m)"
  "lr_task_id (lm_rec (fst (beginReclaim rs now h m))) = lr_task_id (lm_rec m)"
  "lr_task_id (lm_rec (fst (budgetOrEscalate acc m))) = lr_task_id (lm_rec m)"
  "lr_task_id (lm_rec (fst (offer_with att m t b now))) = lr_task_id (lm_rec m)"
  by (simp_all add: finish_def beginReclaim_def budgetOrEscalate_def offer_with_def Let_def
      split: option.split)

lemma leaseRenewal_identity [simp]:
  "lm_task_id (fst (leaseRenewal m to b now i)) = lm_task_id m"
  "lr_kind (lm_rec (fst (leaseRenewal m to b now i))) = lr_kind (lm_rec m)"
  "lr_task_id (lm_rec (fst (leaseRenewal m to b now i))) = lr_task_id (lm_rec m)"
  by (simp_all add: leaseRenewal_def Let_def split: option.split)

lemma lead_step_identity [simp]:
  "lm_task_id (fst (lead_step m e)) = lm_task_id m"
  "lr_kind (lm_rec (fst (lead_step m e))) = lr_kind (lm_rec m)"
  "lr_task_id (lm_rec (fst (lead_step m e))) = lr_task_id (lm_rec m)"
  by (cases e; simp add: lead_op_defs Let_def case_prod_beta split: lead_state.split)+

section \<open>Crash recovery\<close>

datatype sup_op =
    Op_create string task_kind
  | Op_dispatch string string body number
  | Op_redispatch string string body number
  | Op_deliver string string string nat body number
  | Op_tick string timer_name number
  | Op_cancel string number

text \<open>One call of the supervisor by its host; a call on an unknown task raises and changes nothing.\<close>

fun sup_call :: "'s saver \<Rightarrow> 's supervisor \<Rightarrow> sup_op \<Rightarrow> lead_error + ('s supervisor \<times> lead_action list)" where
  "sup_call save sv (Op_create t kind) = Inr (fst (sup_create save t kind sv), [])"
| "sup_call save sv (Op_dispatch t target b now) = sup_dispatch save t target b now sv"
| "sup_call save sv (Op_redispatch t target b now) = sup_redispatch save t target b now sv"
| "sup_call save sv (Op_deliver t ty f att b now) = sup_deliver save t ty f att b now sv"
| "sup_call save sv (Op_tick t timer now) = sup_tick save t timer now sv"
| "sup_call save sv (Op_cancel t now) = sup_cancel save t now sv"

definition sup_step :: "'s saver \<Rightarrow> 's supervisor \<Rightarrow> sup_op \<Rightarrow> 's supervisor \<times> lead_action list" where
  "sup_step save sv call = (case sup_call save sv call of Inl _ \<Rightarrow> (sv, []) | Inr r \<Rightarrow> r)"

text \<open>The machine of a task is the one its configuration and its record determine.\<close>

definition configured ::
  "qlong_params option \<Rightarrow> (body \<Rightarrow> bool) option \<Rightarrow> string \<Rightarrow> lead_machine \<Rightarrow> bool" where
  "configured params validate t m \<longleftrightarrow>
     m = (newLeadTaskMachine t (lr_kind (lm_rec m)) params validate)
           \<lparr>lm_rec := lm_rec m, lm_terminal := lm_terminal m\<rparr>"

lemma configured_iff:
  "configured params validate t m \<longleftrightarrow>
     lm_task_id m = t \<and> lm_params m = lm_params (newLeadTaskMachine t (lr_kind (lm_rec m)) params validate) \<and>
     lm_validateAcceptance m =
       lm_validateAcceptance (newLeadTaskMachine t (lr_kind (lm_rec m)) params validate)"
  by (cases m) (auto simp: configured_def newLeadTaskMachine_def Let_def)

lemma new_params_kind [simp]:
  "lm_params (newLeadTaskMachine t k params validate) = lm_params (newLeadTaskMachine t' k' params validate)
     \<longleftrightarrow> True"
  by (simp add: newLeadTaskMachine_def Let_def)

lemma configured_new: "configured params validate t (newLeadTaskMachine t kind params validate)"
  by (simp add: configured_def newLeadTaskMachine_def Let_def)

lemma configured_step: "configured params validate t m \<Longrightarrow> configured params validate t (fst (lead_step m e))"
  by (simp add: configured_iff)

lemma restore_checkpoint:
  "configured params validate t m \<Longrightarrow> restoreLeadMachine (checkpointLeadMachine m) params validate = Inr m"
  by (cases m) (auto simp: configured_iff restoreLeadMachine_def checkpointLeadMachine_def newLeadTaskMachine_def Let_def)

definition sup_inv ::
  "('s \<Rightarrow> bool) \<Rightarrow> (string \<Rightarrow> 's \<Rightarrow> lead_checkpoint option) \<Rightarrow> 's supervisor \<Rightarrow> bool" where
  "sup_inv sinv load sv \<longleftrightarrow>
     sinv (sup_store sv) \<and>
     (\<forall>t. load t (sup_store sv) = map_option checkpointLeadMachine (map_of (sup_machines sv) t)) \<and>
     (\<forall>t m. map_of (sup_machines sv) t = Some m \<longrightarrow> configured (sup_params sv) (sup_validate sv) t m)"

context checkpoint_store
begin

lemma sup_inv_put:
  assumes "sup_inv sinv load sv" "configured (sup_params sv) (sup_validate sv) t m"
  shows "sup_inv sinv load
    (sup_persist save m (sv\<lparr>sup_machines := AList.update t m (sup_machines sv)\<rparr>))"
  using assms
  by (auto simp: sup_inv_def sup_persist_def sinv_save load_save configured_iff)

lemma sup_inv_transition:
  assumes "sup_inv sinv load sv" "sup_transition save t e sv = Inr (sv', acts)"
  shows "sup_inv sinv load sv'"
proof -
  from assms(2) obtain m where m: "map_of (sup_machines sv) t = Some m"
    by (auto simp: sup_transition_def split: option.splits)
  with assms(1) have "configured (sup_params sv) (sup_validate sv) t (fst (lead_step m e))"
    by (auto simp: sup_inv_def intro: configured_step)
  from sup_inv_put [OF assms(1) this] assms(2) m show ?thesis
    by (simp add: sup_transition_def case_prod_beta)
qed

lemma sup_inv_step: "sup_inv sinv load sv \<Longrightarrow> sup_inv sinv load (fst (sup_step save sv call))"
  by (cases call)
    (auto simp: sup_step_def sup_create_def Let_def sup_dispatch_def sup_redispatch_def sup_deliver_def
      sup_tick_def sup_cancel_def sup_inv_put configured_new intro: sup_inv_transition split: sum.split)

lemma restore_loop:
  assumes "\<And>t cp. t \<in> set ids \<Longrightarrow> load t s = Some cp \<Longrightarrow>
      \<exists>m. cp = checkpointLeadMachine m \<and> configured params validate t m"
  shows "\<exists>r. sup_restore_loop (\<lambda>t. load t s) params validate ids acc = Inr r \<and>
    (\<forall>t. map_of (rs_machines r) t =
       (if t \<in> set ids \<and> load t s \<noteq> None
        then (case restoreLeadMachine (the (load t s)) params validate of Inr m \<Rightarrow> Some m)
        else map_of (rs_machines acc) t)) \<and>
    rs_restored r = rs_restored acc @ filter (\<lambda>t. load t s \<noteq> None) ids"
  using assms
proof (induction ids arbitrary: acc)
  case Nil
  then show ?case by simp
next
  case (Cons t ids)
  show ?case
  proof (cases "load t s")
    case None
    with Cons.IH [of acc] Cons.prems show ?thesis by auto
  next
    case (Some cp)
    with Cons.prems obtain m where m: "cp = checkpointLeadMachine m" "configured params validate t m"
      by (metis list.set_intros(1))
    have r: "restoreLeadMachine cp params validate = Inr m"
      using m restore_checkpoint by simp
    let ?acc1 = "acc\<lparr>rs_machines := AList.update t m (rs_machines acc), rs_restored := rs_restored acc @ [t]\<rparr>"
    let ?acc2 = "if lm_terminal m then ?acc1
      else ?acc1\<lparr>rs_rearm := rs_rearm ?acc1 @ [(t, pendingTimers m)],
                 rs_needDispatch := rs_needDispatch ?acc1 @
                   (if lr_state (lm_rec m) = Drafting then [(t, lr_attempt (lm_rec m) + 1)] else [])\<rparr>"
    have acc2: "rs_machines ?acc2 = AList.update t m (rs_machines acc)" "rs_restored ?acc2 = rs_restored acc @ [t]"
      by simp_all
    have loop: "sup_restore_loop (\<lambda>t. load t s) params validate (t # ids) acc =
        sup_restore_loop (\<lambda>t. load t s) params validate ids ?acc2"
      using Some r by (simp add: Let_def)
    obtain r' where "sup_restore_loop (\<lambda>t. load t s) params validate ids ?acc2 = Inr r'"
      "\<forall>t. map_of (rs_machines r') t =
       (if t \<in> set ids \<and> load t s \<noteq> None
        then (case restoreLeadMachine (the (load t s)) params validate of Inr m \<Rightarrow> Some m)
        else map_of (rs_machines ?acc2) t)"
      "rs_restored r' = rs_restored ?acc2 @ filter (\<lambda>t. load t s \<noteq> None) ids"
      using Cons.IH [of ?acc2] Cons.prems by (meson list.set_intros(2))
    with loop Some r acc2 show ?thesis by auto
  qed
qed

lemma restoreAll_recovers:
  assumes "sup_inv sinv load sv"
  shows "\<exists>r. sup_restoreAll load list_ids (sv\<lparr>sup_machines := []\<rparr>) = Inr r \<and>
    map_of (rs_machines r) = map_of (sup_machines sv) \<and>
    set (rs_restored r) = dom (map_of (sup_machines sv)) \<and> distinct (rs_restored r)"
proof -
  let ?s = "sup_store sv" and ?p = "sup_params sv" and ?v = "sup_validate sv"
  have si: "sinv ?s" and ld: "\<And>t. load t ?s = map_option checkpointLeadMachine (map_of (sup_machines sv) t)"
    and cf: "\<And>t m. map_of (sup_machines sv) t = Some m \<Longrightarrow> configured ?p ?v t m"
    using assms by (auto simp: sup_inv_def)
  have pre: "\<exists>m. cp = checkpointLeadMachine m \<and> configured ?p ?v t m" if "load t ?s = Some cp" for t cp
    using that ld cf by auto
  obtain r where r: "sup_restoreAll load list_ids (sv\<lparr>sup_machines := []\<rparr>) = Inr r"
    and mp: "\<And>t. map_of (rs_machines r) t = (if t \<in> set (list_ids ?s) \<and> load t ?s \<noteq> None
        then (case restoreLeadMachine (the (load t ?s)) ?p ?v of Inr m \<Rightarrow> Some m) else None)"
    and rs: "rs_restored r = filter (\<lambda>t. load t ?s \<noteq> None) (list_ids ?s)"
    using restore_loop [of "list_ids ?s" ?s ?p ?v
        "\<lparr>rs_machines = [], rs_restored = [], rs_rearm = [], rs_needDispatch = []\<rparr>", OF pre]
    by (auto simp: sup_restoreAll_def cong: if_cong)
  have "map_of (rs_machines r) t = map_of (sup_machines sv) t" for t
    using mp [of t] ld [of t] cf [of t] list_load [OF si, of t]
    by (cases "map_of (sup_machines sv) t") (auto simp: restore_checkpoint)
  moreover have "set (rs_restored r) = dom (map_of (sup_machines sv))"
    using rs list_load [OF si] ld by (auto simp: dom_def)
  ultimately show ?thesis using r rs list_distinct [OF si] by auto
qed

end

section \<open>Takeover\<close>

definition level_at :: "(string \<Rightarrow> 's \<Rightarrow> lead_checkpoint option) \<Rightarrow> 's \<Rightarrow> string \<Rightarrow> nat option" where
  "level_at load s t = map_option (\<lambda>cp. lr_attempt (cp_rec cp)) (load t s)"

text \<open>\<open>above a l\<close>: the task is stored with an attempt that is at least \<open>a\<close>.\<close>

definition above :: "nat \<Rightarrow> nat option \<Rightarrow> bool" where
  "above a l = (case l of None \<Rightarrow> False | Some b \<Rightarrow> a \<le> b)"

lemma restore_attempt:
  "restoreLeadMachine cp params validate = Inr m \<Longrightarrow>
     lm_rec m = cp_rec cp \<and> lm_terminal m = cp_terminal cp \<and> lm_task_id m = cp_task_id cp"
  by (auto simp: restoreLeadMachine_def newLeadTaskMachine_def Let_def split: if_splits)

lemma fencedBlob_attempt [simp]:
  "lr_attempt (cp_rec (fencedBlob m)) = lr_attempt (lm_rec m) + 1"
  "cp_v (fencedBlob m) = 1" "lr_state (cp_rec (fencedBlob m)) = Drafting"
  "cp_terminal (fencedBlob m) = lm_terminal m"
  by (simp_all add: fencedBlob_def Let_def)

context checkpoint_store
begin

lemma importOne_cases:
  assumes "importOne save load params validate t blob (s, res) = Inr (s', res')"
  obtains (fenced) cp where "s' = s" "load t s = Some cp" "lr_attempt (cp_rec blob) \<le> lr_attempt (cp_rec cp)"
      "imp_imported res' = imp_imported res"
  | (archived) "s' = save t blob s" "\<not> above (lr_attempt (cp_rec blob)) (level_at load s t)"
      "imp_imported res' = imp_imported res"
  | (imported) m where "s' = save t (fencedBlob m) s" "restoreLeadMachine blob params validate = Inr m"
      "\<not> above (lr_attempt (cp_rec blob)) (level_at load s t)" "\<not> cp_terminal blob"
      "imp_imported res' = imp_imported res @ [t]"
proof -
  from assms obtain m where m: "restoreLeadMachine blob params validate = Inr m"
    by (auto simp: importOne_def split: sum.splits)
  note rm = restore_attempt [OF m]
  show ?thesis
  proof (cases "above (lr_attempt (cp_rec blob)) (level_at load s t)")
    case True
    then obtain cp where cp: "load t s = Some cp" "lr_attempt (cp_rec blob) \<le> lr_attempt (cp_rec cp)"
      by (auto simp: above_def level_at_def split: option.splits)
    with assms m rm show ?thesis
      by (auto simp: importOne_def Let_def dest!: restore_attempt split: sum.splits if_splits intro: fenced)
  next
    case False
    then have no: "\<not> lr_attempt (cp_rec blob) \<le> lr_attempt (cp_rec cp)" if "load t s = Some cp" for cp
      using that by (auto simp: above_def level_at_def)
    show ?thesis
    proof (cases "cp_terminal blob")
      case True
      with assms m rm no False show ?thesis
        by (auto simp: importOne_def Let_def dest!: restore_attempt
            split: sum.splits if_splits option.splits intro: archived)
    next
      case nt: False
      with assms m rm no have "s' = save t (fencedBlob m) s \<and> imp_imported res' = imp_imported res @ [t]"
        by (auto simp: importOne_def Let_def dest!: restore_attempt
            split: sum.splits if_splits option.splits)
      with imported [OF _ m False nt] show ?thesis by blast
    qed
  qed
qed

lemma importOne_level:
  assumes "sinv s" "importOne save load params validate t blob (s, res) = Inr (s', res')"
  shows "sinv s'" "above (lr_attempt (cp_rec blob)) (level_at load s' t)"
    "above a (level_at load s u) \<Longrightarrow> above a (level_at load s' u)"
  using assms(2)
  by (cases rule: importOne_cases;
      use assms(1) in \<open>auto simp: sinv_save level_at_def above_def load_save dest!: restore_attempt
        split: option.splits\<close>)+

lemma importLoop_level:
  assumes "sinv s" "importLoop save load params validate cps (s, res) = Inr (s', res')"
  shows "sinv s' \<and> (\<forall>a u. above a (level_at load s u) \<longrightarrow> above a (level_at load s' u)) \<and>
    (\<forall>t blob. (t, Some blob) \<in> set cps \<longrightarrow> above (lr_attempt (cp_rec blob)) (level_at load s' t))"
  using assms
proof (induction cps arbitrary: s res)
  case Nil
  then show ?case by simp
next
  case (Cons c cps)
  obtain t ob where c: "c = (t, ob)" by (cases c)
  show ?case
  proof (cases ob)
    case None
    with Cons.IH [OF Cons.prems(1)] Cons.prems(2) c show ?thesis by auto
  next
    case (Some blob)
    with Cons.prems(2) c obtain s1 r1 where one: "importOne save load params validate t blob (s, res) = Inr (s1, r1)"
      and rest: "importLoop save load params validate cps (s1, r1) = Inr (s', res')"
      by (auto split: sum.splits)
    note lv = importOne_level [OF Cons.prems(1) one]
    from Cons.IH [OF lv(1) rest] lv c Some show ?thesis by auto
  qed
qed

end

section \<open>Properties\<close>

interpretation sup_ms: invariant_machine "sup_step ms_save" "sup_inv wf_map ms_load"
  by unfold_locales (rule ms.sup_inv_step)

lemma attempt_up:
  "(\<And>target b now. e = Ev_dispatch target b now \<Longrightarrow> lr_attempt (lm_rec m) = 0) \<Longrightarrow>
    lr_attempt (lm_rec m) \<le> lr_attempt (lm_rec (fst (lead_step m e)))"
  by (cases e; cases "lr_state (lm_rec m)";
      simp add: lead_op_defs Let_def case_prod_beta offer_with_def)

lemma lead_attempt_mono:
  "lead_host_ok m e \<Longrightarrow> lr_attempt (lm_rec m) \<le> lr_attempt (lm_rec (fst (lead_step m e)))"
  by (rule attempt_up) (simp add: lead_host_ok_def)

interpretation lead_up: monotone_machine lead_step lead_host_ok "\<lambda>m. lr_attempt (lm_rec m)"
  by unfold_locales (rule lead_attempt_mono)


text \<open>
  an import never moves a task backwards. After a successful import every task the store held has at
  least the attempt it had, and every task of the bundle at least the attempt of its checkpoint.
\<close>

theorem import_never_lowers_attempt:
  assumes "wf_map s" "importCheckpoints ms_save ms_load params validate bundle s = Inr (s', res)"
  shows "wf_map s' \<and>
    (\<forall>t cp. ms_load t s = Some cp \<longrightarrow>
       (\<exists>cp'. ms_load t s' = Some cp' \<and> lr_attempt (cp_rec cp) \<le> lr_attempt (cp_rec cp'))) \<and>
    (\<forall>t cp. (t, Some cp) \<in> set (tb_checkpoints bundle) \<longrightarrow>
       (\<exists>cp'. ms_load t s' = Some cp' \<and> lr_attempt (cp_rec cp) \<le> lr_attempt (cp_rec cp')))"
proof -
  have loop: "importLoop ms_save ms_load params validate (tb_checkpoints bundle)
      (s, \<lparr>imp_imported = [], imp_fenced = [], imp_archived = [], imp_dispatch = []\<rparr>) = Inr (s', res)"
    using assms(2) by (simp add: importCheckpoints_def split: if_splits)
  have ab: "above a (level_at ms_load s' t) \<longleftrightarrow>
      (\<exists>cp'. ms_load t s' = Some cp' \<and> a \<le> lr_attempt (cp_rec cp'))" for a t
    by (auto simp: above_def level_at_def split: option.splits)
  have ab0: "ms_load t s = Some cp \<Longrightarrow> above (lr_attempt (cp_rec cp)) (level_at ms_load s t)" for t cp
    by (simp add: above_def level_at_def)
  from ms.importLoop_level [OF assms(1) loop] show ?thesis
    unfolding ab using ab0 by blast
qed

definition demo_bundle :: takeover_bundle where
  "demo_bundle = exportCheckpoints ms_load ms_list
     (ms_save ''t'' (checkpointLeadMachine demo_running) [])"

lemma demo_import:
  "wf_map ([] :: memory_store)"
  "importCheckpoints ms_save ms_load None None demo_bundle [] =
     Inr (ms_save ''t'' (fencedBlob demo_running) [],
          \<lparr>imp_imported = [''t''], imp_fenced = [], imp_archived = [], imp_dispatch = [(''t'', 2)]\<rparr>)"
  by (simp_all add: demo_bundle_def exportCheckpoints_def ms_defs importCheckpoints_def importOne_def
      checkpointLeadMachine_def restoreLeadMachine_def fencedBlob_def demo_defs Let_def)

theorem import_never_lowers_attempt_witness:
  "\<exists>s' res. importCheckpoints ms_save ms_load None None demo_bundle [] = Inr (s', res) \<and> wf_map s' \<and>
    (\<forall>t cp. ms_load t ([] :: memory_store) = Some cp \<longrightarrow>
       (\<exists>cp'. ms_load t s' = Some cp' \<and> lr_attempt (cp_rec cp) \<le> lr_attempt (cp_rec cp'))) \<and>
    (\<forall>t cp. (t, Some cp) \<in> set (tb_checkpoints demo_bundle) \<longrightarrow>
       (\<exists>cp'. ms_load t s' = Some cp' \<and> lr_attempt (cp_rec cp) \<le> lr_attempt (cp_rec cp')))"
  using import_never_lowers_attempt [OF demo_import] demo_import(2) by blast


lemma demo_takeover:
  "restoreLeadMachine (checkpointLeadMachine demo_running) None None = Inr demo_running"
  "\<not> lm_terminal demo_running"
  "restoreLeadMachine (fencedBlob demo_running) None None =
     Inr (demo_running\<lparr>lm_rec := cp_rec (fencedBlob demo_running)\<rparr>)"
  "good_run lead_host_ok lead_step (demo_running\<lparr>lm_rec := cp_rec (fencedBlob demo_running)\<rparr>)
     [Ev_redispatch ''n2'' [] 10]"
  "1 \<le> lr_attempt (cp_rec (checkpointLeadMachine demo_running))"
  by (simp_all add: checkpointLeadMachine_def restoreLeadMachine_def fencedBlob_def demo_defs Let_def lead_host_ok_def)


end
