(* ===== verification/Exec_Machine.thy ===== *)
theory Exec_Machine
  imports Node_Wire Core_Caps
begin

text \<open>
  The executor's side of a task: the acceptance gates (\<open>packages/node/src/executor/gates.ts\<close>), the
  execution profile (\<open>profile.ts\<close>) and the state machine (\<open>machine.ts\<close>). What the class calls back into its
  host for while it evaluates an offer (the policy, the capabilities, the load, the confirmation channel
  and the clock formats of the JavaScript library) is the record \<open>exec_env\<close>, an argument of each offer. An
  operation returns the next machine and its actions. \<open>XThrow\<close> is an uncaught \<open>TypeError\<close>: the actions
  collected so far are lost, and the record stays as it was assigned.
\<close>

section \<open>Gates\<close>

record gate_result =
  g_ok :: bool
  g_code :: "string option"
  g_detail :: body

datatype policy_result = Policy_ok | Policy_denied "number option"

definition pass_gate :: gate_result where
  "pass_gate = \<lparr>g_ok = True, g_code = None, g_detail = []\<rparr>"

definition retry_detail :: "number option \<Rightarrow> body" where
  "retry_detail retry = (case retry of None \<Rightarrow> [] | Some ms \<Rightarrow> [(''retry_after_ms'', JNum ms)])"

definition gatePolicy :: "(body \<Rightarrow> policy_result) option \<Rightarrow> body \<Rightarrow> gate_result" where
  "gatePolicy policy offer =
     (case policy of
        None \<Rightarrow> pass_gate
      | Some f \<Rightarrow>
          (case f offer of
             Policy_ok \<Rightarrow> pass_gate
           | Policy_denied retry \<Rightarrow>
               \<lparr>g_ok = False, g_code = Some ''policy_denied'', g_detail = retry_detail retry\<rparr>))"

definition gateCaps :: "string list \<Rightarrow> string list \<Rightarrow> gate_result" where
  "gateCaps requiredCaps owned =
     (if requiredCaps = [] then pass_gate
      else (let m = matchCaps requiredCaps owned in
            if caps_ok m then pass_gate
            else \<lparr>g_ok = False, g_code = Some ''unsupported_caps'',
                  g_detail = [(''missing'', JArr (map JStr (caps_missing m)))]\<rparr>))"

record load_snapshot =
  ld_queueDepth :: number
  ld_running :: number
  ld_maxQueue :: number
  ld_maxRunning :: number
  ld_retryAfterMs :: "number option"

definition gateLoad :: "load_snapshot option \<Rightarrow> gate_result" where
  "gateLoad load =
     (case load of
        None \<Rightarrow> pass_gate
      | Some l \<Rightarrow>
          if ld_maxQueue l < ld_queueDepth l \<or> ld_maxRunning l < ld_running l
          then \<lparr>g_ok = False, g_code = Some ''busy'', g_detail = retry_detail (ld_retryAfterMs l)\<rparr>
          else pass_gate)"

section \<open>The execution profile\<close>

record require_entry =
  rq_cls :: string
  rq_value :: string

record execution_profile =
  pr_toolWhitelist :: "string list"
  pr_netWhitelist :: "string list"
  pr_confirmChannel :: bool

datatype violation_reason = Tool_not_allowed | Net_not_allowed | No_confirm_channel

fun checkRequires ::
  "require_entry list \<Rightarrow> execution_profile \<Rightarrow> (string \<times> string \<times> violation_reason) list" where
  "checkRequires [] profile = []"
| "checkRequires (r # rs) profile =
     (if rq_cls r = ''tool'' \<and> rq_value r \<notin> set (pr_toolWhitelist profile)
      then [(rq_cls r, rq_value r, Tool_not_allowed)] else []) @
     (if rq_cls r = ''net'' \<and> rq_value r \<notin> set (pr_netWhitelist profile)
      then [(rq_cls r, rq_value r, Net_not_allowed)] else []) @
     (if rq_cls r = ''confirm'' \<and> \<not> pr_confirmChannel profile
      then [(rq_cls r, rq_value r, No_confirm_channel)] else []) @
     checkRequires rs profile"

section \<open>State\<close>

datatype exec_state =
    XIdle | XOffered | XRunning | XResultSent | XFailSent | XRejected | XStopped | XCleaned

record exec_record =
  xr_state :: exec_state
  xr_task_id :: "string option"
  xr_attempt :: "nat option"
  xr_from :: "string option"
  xr_msg_id :: "string option"
  xr_offerBody :: "body option"
  xr_receivedAt :: "number option"
  xr_ttlMs :: "number option"
  xr_leaseConfirmedMs :: "number option"
  xr_leaseSelfDeadline :: "number option"
  xr_lastSeq :: nat
  xr_driverCompleted :: bool
  xr_cancelReceived :: bool
  xr_paused :: bool
  xr_resultBody :: "body option"

datatype exec_timer = XT_ttl | XT_lease_self | XT_heartbeat

datatype exec_action =
    XSend outbound
  | XAudit audit_event string
  | XStartDriver string nat body
  | XStopDriver
  | XPauseDriver
  | XResumeDriver
  | XSchedule exec_timer number
  | XCancelTimers "exec_timer list"
  | XThrow

definition ALL_TIMERS :: "exec_timer list" where
  "ALL_TIMERS = [XT_ttl, XT_lease_self, XT_heartbeat]"

record exec_machine =
  xm_rec :: exec_record
  xm_params :: qlong_params

record exec_env =
  xe_policy :: "(body \<Rightarrow> policy_result) option"
  xe_capabilities :: "string list option"
  xe_load :: "load_snapshot option"
  xe_confirm :: "(json \<Rightarrow> body \<Rightarrow> bool) option"
  xe_parse :: date_parser
  xe_iso :: "number \<Rightarrow> string"

record exec_offer =
  of_from :: string
  of_task_id :: string
  of_attempt :: nat
  of_msg_id :: string
  of_body :: body
  of_now :: number
  of_exp :: "string option"

text \<open>A record literal with only a state.\<close>

definition blank :: "exec_state \<Rightarrow> exec_record" where
  "blank st =
     \<lparr>xr_state = st, xr_task_id = None, xr_attempt = None, xr_from = None, xr_msg_id = None,
      xr_offerBody = None, xr_receivedAt = None, xr_ttlMs = None, xr_leaseConfirmedMs = None,
      xr_leaseSelfDeadline = None, xr_lastSeq = 0, xr_driverCompleted = False,
      xr_cancelReceived = False, xr_paused = False, xr_resultBody = None\<rparr>"

definition newExecutorMachine :: "qlong_params option \<Rightarrow> exec_machine" where
  "newExecutorMachine params =
     \<lparr>xm_rec = blank XIdle, xm_params = (case params of None \<Rightarrow> DEFAULT_PARAMS | Some p \<Rightarrow> p)\<rparr>"

definition exec_out :: "exec_machine \<Rightarrow> string \<Rightarrow> string \<Rightarrow> body \<Rightarrow> exec_action" where
  "exec_out m type to b =
     XSend \<lparr>ob_type = type, ob_to_node = to, ob_task_id = xr_task_id (xm_rec m),
            ob_attempt = xr_attempt (xm_rec m), ob_reply_to = None, ob_body = b\<rparr>"

definition outFor :: "exec_offer \<Rightarrow> string \<Rightarrow> body \<Rightarrow> exec_action" where
  "outFor o' type b =
     XSend \<lparr>ob_type = type, ob_to_node = of_from o', ob_task_id = Some (of_task_id o'),
            ob_attempt = Some (of_attempt o'), ob_reply_to = Some (of_msg_id o'), ob_body = b\<rparr>"

definition stopAllTimers :: exec_action where
  "stopAllTimers = XCancelTimers ALL_TIMERS"

definition from_or :: "exec_machine \<Rightarrow> string" where
  "from_or m = (case xr_from (xm_rec m) of None \<Rightarrow> [] | Some f \<Rightarrow> f)"

definition lease_or :: "exec_machine \<Rightarrow> number" where
  "lease_or m = (case xr_leaseConfirmedMs (xm_rec m) of None \<Rightarrow> leaseMsProject (xm_params m) | Some l \<Rightarrow> l)"

text \<open>Object spread: later fields overwrite in place.\<close>

definition spread :: "body \<Rightarrow> body \<Rightarrow> body" where
  "spread base b = foldl (\<lambda>acc (k, v). AList.update k v acc) base b"

fun state_text :: "exec_state \<Rightarrow> string" where
  "state_text XIdle = ''idle''"
| "state_text XOffered = ''offered''"
| "state_text XRunning = ''running''"
| "state_text XResultSent = ''result_sent''"
| "state_text XFailSent = ''fail_sent''"
| "state_text XRejected = ''rejected''"
| "state_text XStopped = ''stopped''"
| "state_text XCleaned = ''cleaned''"

section \<open>Offers\<close>

definition reason_code :: "string \<Rightarrow> body \<Rightarrow> body" where
  "reason_code c detail = spread [(''reason_code'', JStr c)] detail"

text \<open>
  A \<open>required_caps\<close> array with an element that is not a string makes \<open>parseTag\<close> raise; \<open>None\<close> is that raise.
\<close>

definition required_of :: "body \<Rightarrow> string list option" where
  "required_of b =
     (case arr_of (map_of b ''required_caps'') of
        None \<Rightarrow> Some []
      | Some xs \<Rightarrow>
          if list_all (\<lambda>x. str_of (Some x) \<noteq> None) xs then Some (map (\<lambda>x. the (str_of (Some x))) xs) else None)"

definition confirm_of :: "body \<Rightarrow> json option" where
  "confirm_of b =
     (case arr_of (map_of b ''requires'') of
        None \<Rightarrow> None
      | Some rs \<Rightarrow> find (\<lambda>r. obj_get r ''cls'' = Some (JStr ''confirm'')) rs)"

definition gate5_record :: "exec_offer \<Rightarrow> exec_record" where
  "gate5_record o' =
     (blank XRejected)\<lparr>xr_task_id := Some (of_task_id o'), xr_attempt := Some (of_attempt o'),
        xr_from := Some (of_from o'), xr_msg_id := Some (of_msg_id o'), xr_offerBody := Some (of_body o'),
        xr_receivedAt := Some (of_now o')\<rparr>"

definition offered_lease :: "exec_machine \<Rightarrow> exec_offer \<Rightarrow> number" where
  "offered_lease m o' =
     (case num_of (map_of (of_body o') ''lease_ms'') of None \<Rightarrow> leaseMsProject (xm_params m) | Some l \<Rightarrow> l)"

definition accept_offer :: "exec_env \<Rightarrow> exec_machine \<Rightarrow> exec_offer \<Rightarrow> exec_machine \<times> exec_action list" where
  "accept_offer env m o' =
     (let lease = offered_lease m o';
          r = (blank XRunning)\<lparr>xr_task_id := Some (of_task_id o'), xr_attempt := Some (of_attempt o'),
                xr_from := Some (of_from o'), xr_msg_id := Some (of_msg_id o'),
                xr_offerBody := Some (of_body o'), xr_receivedAt := Some (of_now o'),
                xr_ttlMs := num_of (map_of (of_body o') ''offer_ttl_ms''),
                xr_leaseConfirmedMs := Some lease, xr_leaseSelfDeadline := Some (of_now o' + lease)\<rparr>;
          hb = heartbeatIntervalMs lease
      in (m\<lparr>xm_rec := r\<rparr>,
          [outFor o' ''task.accept''
             [(''lease_ms'', JNum lease), (''started_at'', JStr (xe_iso env (of_now o')))],
           XStartDriver (of_task_id o') (of_attempt o') (of_body o'),
           XSchedule XT_heartbeat (of_now o' + hb),
           XSchedule XT_lease_self (of_now o' + lease)]))"

definition evaluateOffer :: "exec_env \<Rightarrow> exec_machine \<Rightarrow> exec_offer \<Rightarrow> exec_machine \<times> exec_action list" where
  "evaluateOffer env m o' =
     (let policy = gatePolicy (xe_policy env) (of_body o') in
      if \<not> g_ok policy then
        (m\<lparr>xm_rec := blank XRejected\<rparr>, [outFor o' ''task.reject'' (reason_code ''policy_denied'' (g_detail policy))])
      else (case required_of (of_body o') of
        None \<Rightarrow> (m, [XThrow])
      | Some required \<Rightarrow>
        (let caps = gateCaps required (case xe_capabilities env of None \<Rightarrow> [] | Some cs \<Rightarrow> cs) in
         if \<not> g_ok caps then
           (m\<lparr>xm_rec := blank XRejected\<rparr>, [outFor o' ''task.reject'' (reason_code ''unsupported_caps'' (g_detail caps))])
         else
           (let load = gateLoad (xe_load env) in
            if \<not> g_ok load then
              (m\<lparr>xm_rec := blank XRejected\<rparr>, [outFor o' ''task.reject'' (reason_code ''busy'' (g_detail load))])
            else (case confirm_of (of_body o') of
              None \<Rightarrow> accept_offer env m o'
            | Some req \<Rightarrow>
              (case xe_confirm env of
                 None \<Rightarrow> (m\<lparr>xm_rec := gate5_record o'\<rparr>,
                   [outFor o' ''task.reject'' (reason_code ''policy_denied''
                      [(''detail'', JObj [(''reason'', JStr ''confirm_required_no_channel'')])])])
               | Some handler \<Rightarrow>
                   if \<not> handler req (of_body o') then
                     (m\<lparr>xm_rec := gate5_record o'\<rparr>,
                      [outFor o' ''task.reject'' (reason_code ''policy_denied''
                         [(''detail'', JObj [(''reason'', JStr ''confirmed_denied'')])])])
                   else accept_offer env m o'))))))"

definition decided :: "exec_state \<Rightarrow> bool" where
  "decided st \<longleftrightarrow> st = XResultSent \<or> st = XFailSent \<or> st = XStopped \<or> st = XCleaned"

definition attempt_or :: "exec_record \<Rightarrow> nat" where
  "attempt_or r = (case xr_attempt r of None \<Rightarrow> 0 | Some a \<Rightarrow> a)"

definition num_json :: "nat option \<Rightarrow> (string \<times> json) list" where
  "num_json a = (case a of None \<Rightarrow> [] | Some n \<Rightarrow> [(''old_attempt'', JNum (of_nat n))])"

definition onOffer :: "exec_env \<Rightarrow> exec_machine \<Rightarrow> exec_offer \<Rightarrow> exec_machine \<times> exec_action list" where
  "onOffer env m o' =
     (let r = xm_rec m in
      if xr_task_id r = Some (of_task_id o') \<and> decided (xr_state r) \<and> of_attempt o' \<le> attempt_or r
      then (m, [])
      else if (case of_exp o' of None \<Rightarrow> False
               | Some x \<Rightarrow> isExpiredByExp (xe_parse env) x (of_now o') (expDriftBudgetMs DEFAULT_PARAMS))
      then (if xr_state r = XIdle \<or> xr_state r = XRejected then m\<lparr>xm_rec := blank XRejected\<rparr> else m,
            [outFor o' ''task.reject'' [(''reason_code'', JStr ''expired'')]])
      else if (xr_state r = XOffered \<or> xr_state r = XRunning) \<and> xr_task_id r = Some (of_task_id o')
      then
        (if Some (of_attempt o') = xr_attempt r then (m, [])
         else if of_attempt o' < attempt_or r
         then (m, [exec_out m ''task.reject'' (of_from o') [(''reason_code'', JStr ''stale_attempt'')],
                   XAudit Stale_attempt_rejected ''inbound attempt < local''])
         else
           (let staleReject = XSend \<lparr>ob_type = ''task.reject'', ob_to_node = of_from o',
                  ob_task_id = Some (of_task_id o'), ob_attempt = xr_attempt r, ob_reply_to = None,
                  ob_body = [(''reason_code'', JStr ''stale_attempt''),
                    (''detail'', JObj (num_json (xr_attempt r) @ [(''old_state'', JStr (state_text (xr_state r)))]))]\<rparr>;
                cleanups = (if xr_state r = XRunning \<and> \<not> xr_driverCompleted r then [XStopDriver] else []);
                (m1, acts) = evaluateOffer env (m\<lparr>xm_rec := blank XIdle\<rparr>) o'
            in if XThrow \<in> set acts then (m1, [XThrow])
               else (m1, cleanups @ [stopAllTimers, staleReject,
                  XAudit Stale_attempt_rejected ''implicit cancel by higher attempt''] @ acts)))
      else if xr_state r = XRunning \<or> xr_state r = XOffered
      then (m, [outFor o' ''task.reject'' [(''reason_code'', JStr ''busy''),
                  (''detail'', JObj [(''reason'', JStr ''v1 single execution slot'')])]])
      else evaluateOffer env m o')"

section \<open>Timers\<close>

definition onTtlCheck :: "exec_machine \<Rightarrow> number \<Rightarrow> exec_machine \<times> exec_action list" where
  "onTtlCheck m now =
     (let r = xm_rec m in
      (case xr_receivedAt r of
         None \<Rightarrow> (m, [])
       | Some receivedAt \<Rightarrow>
           if xr_state r \<noteq> XOffered then (m, [])
           else
             (let ttl = (case xr_ttlMs r of None \<Rightarrow> offerTtlMsAid (xm_params m) | Some t \<Rightarrow> t) in
              if receivedAt + ttl < now
              then (m\<lparr>xm_rec := r\<lparr>xr_state := XRejected\<rparr>\<rparr>,
                    [exec_out m ''task.reject'' (from_or m) [(''reason_code'', JStr ''expired'')]])
              else (m, []))))"

definition onHeartbeatDue :: "exec_machine \<Rightarrow> number \<Rightarrow> exec_machine \<times> exec_action list" where
  "onHeartbeatDue m now =
     (let r = xm_rec m in
      if xr_state r \<noteq> XRunning \<or> xr_paused r then (m, [])
      else
        (let sq = xr_lastSeq r + 1;
             m1 = m\<lparr>xm_rec := r\<lparr>xr_lastSeq := sq\<rparr>\<rparr>
         in (m1, [exec_out m1 ''task.progress'' (from_or m1)
                    [(''state'', JStr ''working''), (''seq'', JNum (of_nat sq))],
                  XSchedule XT_heartbeat (now + heartbeatIntervalMs (lease_or m1))])))"

definition onHeartbeatAcked :: "exec_machine \<Rightarrow> number \<Rightarrow> exec_machine \<times> exec_action list" where
  "onHeartbeatAcked m now =
     (let r = xm_rec m; dl = now + lease_or m in
      if xr_state r \<noteq> XRunning then (m, [])
      else if xr_paused r
      then (m\<lparr>xm_rec := r\<lparr>xr_paused := False, xr_leaseSelfDeadline := Some dl\<rparr>\<rparr>,
            [XResumeDriver, XSchedule XT_lease_self dl])
      else (m\<lparr>xm_rec := r\<lparr>xr_leaseSelfDeadline := Some dl\<rparr>\<rparr>,
            [XCancelTimers [XT_lease_self], XSchedule XT_lease_self dl]))"

definition onLeaseSelfTimeout :: "exec_machine \<Rightarrow> number \<Rightarrow> exec_machine \<times> exec_action list" where
  "onLeaseSelfTimeout m now =
     (let r = xm_rec m in
      if xr_state r \<noteq> XRunning then (m, [])
      else if now < (case xr_leaseSelfDeadline r of None \<Rightarrow> 0 | Some dl \<Rightarrow> dl)
      then (m, [XSchedule XT_lease_self (case xr_leaseSelfDeadline r of None \<Rightarrow> now | Some dl \<Rightarrow> dl)])
      else (m\<lparr>xm_rec := r\<lparr>xr_paused := True\<rparr>\<rparr>, [XPauseDriver]))"

section \<open>The driver and the lead\<close>

definition onDriverCompleted :: "exec_machine \<Rightarrow> body \<Rightarrow> exec_machine \<times> exec_action list" where
  "onDriverCompleted m resultBody =
     (if xr_state (xm_rec m) \<noteq> XRunning then (m, [])
      else
        (let r = (xm_rec m)\<lparr>xr_driverCompleted := True, xr_resultBody := Some resultBody\<rparr> in
         if xr_paused r \<or> xr_cancelReceived r
         then (let m1 = m\<lparr>xm_rec := r\<lparr>xr_state := XStopped\<rparr>\<rparr>
               in (m1, [stopAllTimers, exec_out m1 ''task.cancel.ack'' (from_or m1) []]))
         else (let m1 = m\<lparr>xm_rec := r\<lparr>xr_state := XResultSent\<rparr>\<rparr>
               in (m1, [stopAllTimers,
                        exec_out m1 ''task.result'' (from_or m1) (spread [(''status'', JStr ''done'')] resultBody)]))))"

definition onDriverFailed :: "exec_machine \<Rightarrow> body \<Rightarrow> exec_machine \<times> exec_action list" where
  "onDriverFailed m failBody =
     (if xr_state (xm_rec m) \<noteq> XRunning then (m, [])
      else (let m1 = m\<lparr>xm_rec := (xm_rec m)\<lparr>xr_state := XFailSent\<rparr>\<rparr>
            in (m1, [stopAllTimers, exec_out m1 ''task.fail'' (from_or m1) failBody])))"

definition onCancel :: "exec_machine \<Rightarrow> string \<Rightarrow> nat \<Rightarrow> exec_machine \<times> exec_action list" where
  "onCancel m fromNode attempt =
     (let r = xm_rec m in
      if Some fromNode \<noteq> xr_from r \<or> Some attempt \<noteq> xr_attempt r then (m, [])
      else if xr_state r = XRunning then
        (let r1 = r\<lparr>xr_cancelReceived := True\<rparr> in
         if xr_driverCompleted r1
         then (let m1 = m\<lparr>xm_rec := r1\<lparr>xr_state := XResultSent\<rparr>\<rparr>;
                   result = AList.update ''completed_before_cancel'' (JBool True)
                     (spread [(''status'', JStr ''done'')] (case xr_resultBody r1 of None \<Rightarrow> [] | Some b \<Rightarrow> b))
               in (m1, [stopAllTimers, exec_out m1 ''task.result'' fromNode result]))
         else (let m1 = m\<lparr>xm_rec := r1\<lparr>xr_state := XStopped\<rparr>\<rparr>
               in (m1, [stopAllTimers, XStopDriver, exec_out m1 ''task.cancel.ack'' fromNode []])))
      else if xr_state r = XOffered
      then (let m1 = m\<lparr>xm_rec := r\<lparr>xr_state := XStopped\<rparr>\<rparr>
            in (m1, [stopAllTimers, exec_out m1 ''task.cancel.ack'' fromNode []]))
      else if xr_state r = XResultSent
      then (m, [exec_out m ''task.cancel.ack'' fromNode [(''completed_before_cancel'', JBool True)]])
      else (m, []))"

definition onStaleReject :: "exec_machine \<Rightarrow> exec_machine \<times> exec_action list" where
  "onStaleReject m =
     (let r = xm_rec m in
      if xr_state r = XRunning \<or> xr_state r = XOffered
      then (m\<lparr>xm_rec := r\<lparr>xr_state := XCleaned\<rparr>\<rparr>,
            (if xr_state r = XRunning then [XStopDriver] else []) @ [stopAllTimers])
      else (m, []))"

section \<open>The machine as a step function\<close>

datatype exec_event =
    Xv_offer exec_env exec_offer
  | Xv_ttl number
  | Xv_heartbeat number
  | Xv_acked number
  | Xv_lease number
  | Xv_completed body
  | Xv_failed body
  | Xv_cancel string nat
  | Xv_stale

fun exec_step :: "exec_machine \<Rightarrow> exec_event \<Rightarrow> exec_machine \<times> exec_action list" where
  "exec_step m (Xv_offer env o') = onOffer env m o'"
| "exec_step m (Xv_ttl now) = onTtlCheck m now"
| "exec_step m (Xv_heartbeat now) = onHeartbeatDue m now"
| "exec_step m (Xv_acked now) = onHeartbeatAcked m now"
| "exec_step m (Xv_lease now) = onLeaseSelfTimeout m now"
| "exec_step m (Xv_completed b) = onDriverCompleted m b"
| "exec_step m (Xv_failed b) = onDriverFailed m b"
| "exec_step m (Xv_cancel f a) = onCancel m f a"
| "exec_step m Xv_stale = onStaleReject m"

end
