(* ===== verification/Exec_Props.thy ===== *)
theory Exec_Props
  imports Exec_Machine
begin

text \<open>
  What the executor promises: the invariant of its record, what it takes to start a driver, the
  single-slot rule, the ordering of progress messages and the R5 rule on results after a cancel or a
  lease timeout. The operations are classified once by what they emit, and the properties read off that
  classification.
\<close>

section \<open>The invariant\<close>

text \<open>
  A running record is complete, and its driver has neither finished nor been cancelled; the state
  \<open>offered\<close> is never entered.
\<close>

definition exec_inv :: "exec_machine \<Rightarrow> bool" where
  "exec_inv m \<longleftrightarrow>
     (let r = xm_rec m in
      xr_state r \<noteq> XOffered \<and>
      (xr_state r = XRunning \<longrightarrow>
         xr_task_id r \<noteq> None \<and> xr_attempt r \<noteq> None \<and> xr_from r \<noteq> None \<and>
         xr_leaseConfirmedMs r \<noteq> None \<and> xr_leaseSelfDeadline r \<noteq> None \<and>
         \<not> xr_driverCompleted r \<and> \<not> xr_cancelReceived r))"

lemma blank_sel [simp]:
  "xr_state (blank st) = st" "xr_task_id (blank st) = None" "xr_attempt (blank st) = None"
  "xr_from (blank st) = None" "xr_leaseConfirmedMs (blank st) = None" "xr_leaseSelfDeadline (blank st) = None"
  "xr_lastSeq (blank st) = 0" "xr_driverCompleted (blank st) = False" "xr_cancelReceived (blank st) = False"
  "xr_paused (blank st) = False"
  by (simp_all add: blank_def)

lemma exec_inv_new: "exec_inv (newExecutorMachine p)"
  by (simp add: exec_inv_def newExecutorMachine_def)

text \<open>The four ways an evaluation can end.\<close>

lemma evaluateOffer_cases:
  obtains (refused) st rc detail where "st = blank XRejected \<or> st = gate5_record o'"
      "evaluateOffer env m o' = (m\<lparr>xm_rec := st\<rparr>, [outFor o' ''task.reject'' (reason_code rc detail)])"
  | (raised) "evaluateOffer env m o' = (m, [XThrow])"
  | (accepted) required where
      "g_ok (gatePolicy (xe_policy env) (of_body o'))" "required_of (of_body o') = Some required"
      "g_ok (gateCaps required (case xe_capabilities env of None \<Rightarrow> [] | Some cs \<Rightarrow> cs))"
      "g_ok (gateLoad (xe_load env))"
      "\<forall>req. confirm_of (of_body o') = Some req \<longrightarrow> (\<exists>h. xe_confirm env = Some h \<and> h req (of_body o'))"
      "evaluateOffer env m o' = accept_offer env m o'"
proof -
  let ?caps = "\<lambda>r. gateCaps r (case xe_capabilities env of None \<Rightarrow> [] | Some cs \<Rightarrow> cs)"
  show ?thesis
  proof (cases "g_ok (gatePolicy (xe_policy env) (of_body o'))")
    case False
    then show ?thesis by (intro refused [of "blank XRejected"]) (simp_all add: evaluateOffer_def Let_def)
  next
    case pol: True
    show ?thesis
    proof (cases "required_of (of_body o')")
      case None
      with pol show ?thesis by (intro raised) (simp add: evaluateOffer_def Let_def)
    next
      case req: (Some required)
      show ?thesis
      proof (cases "g_ok (?caps required)")
        case False
        with pol req show ?thesis
          by (intro refused [of "blank XRejected"]) (simp_all add: evaluateOffer_def Let_def)
      next
        case caps: True
        show ?thesis
        proof (cases "g_ok (gateLoad (xe_load env))")
          case False
          with pol req caps show ?thesis
            by (intro refused [of "blank XRejected"]) (simp_all add: evaluateOffer_def Let_def)
        next
          case load: True
          show ?thesis
          proof (cases "\<exists>q. confirm_of (of_body o') = Some q \<and> (\<forall>h. xe_confirm env = Some h \<longrightarrow> \<not> h q (of_body o'))")
            case True
            then obtain q where "confirm_of (of_body o') = Some q" "\<forall>h. xe_confirm env = Some h \<longrightarrow> \<not> h q (of_body o')"
              by blast
            with pol req caps load show ?thesis
              by (cases "xe_confirm env"; intro refused [of "gate5_record o'"])
                (simp_all add: evaluateOffer_def Let_def)
          next
            case False
            with pol req caps load have "evaluateOffer env m o' = accept_offer env m o'"
              by (auto simp: evaluateOffer_def Let_def split: option.splits)
            moreover have "\<forall>req. confirm_of (of_body o') = Some req \<longrightarrow>
                (\<exists>h. xe_confirm env = Some h \<and> h req (of_body o'))"
              using False by auto
            ultimately show ?thesis using accepted [OF pol req caps load] by simp
          qed
        qed
      qed
    qed
  qed
qed

lemma accept_offer_rec:
  "xm_rec (fst (accept_offer env m o')) =
     (blank XRunning)\<lparr>xr_task_id := Some (of_task_id o'), xr_attempt := Some (of_attempt o'),
        xr_from := Some (of_from o'), xr_msg_id := Some (of_msg_id o'), xr_offerBody := Some (of_body o'),
        xr_receivedAt := Some (of_now o'), xr_ttlMs := num_of (map_of (of_body o') ''offer_ttl_ms''),
        xr_leaseConfirmedMs := Some (offered_lease m o'),
        xr_leaseSelfDeadline := Some (of_now o' + offered_lease m o')\<rparr>"
  by (simp add: accept_offer_def Let_def)

lemma gate5_sel [simp]: "xr_state (gate5_record o') = XRejected"
  by (simp add: gate5_record_def)

lemma exec_inv_evaluate: "xr_state (xm_rec m) \<noteq> XRunning \<Longrightarrow> exec_inv m \<Longrightarrow> exec_inv (fst (evaluateOffer env m o'))"
  by (cases rule: evaluateOffer_cases [of o' env m]) (auto simp: exec_inv_def accept_offer_rec)

lemmas exec_op_defs =
  onTtlCheck_def onHeartbeatDue_def onHeartbeatAcked_def onLeaseSelfTimeout_def onDriverCompleted_def
  onDriverFailed_def onCancel_def onStaleReject_def

text \<open>The ways an offer can end.\<close>

definition expired_offer :: "exec_env \<Rightarrow> exec_offer \<Rightarrow> bool" where
  "expired_offer env o' =
     (case of_exp o' of None \<Rightarrow> False
      | Some x \<Rightarrow> isExpiredByExp (xe_parse env) x (of_now o') (expDriftBudgetMs DEFAULT_PARAMS))"

lemma onOffer_cases:
  assumes "exec_inv m"
  obtains (ignored) acts where "onOffer env m o' = (m, acts)" "\<forall>a \<in> set acts. \<exists>out. a = XSend out \<and> ob_type out = ''task.reject'' \<or> (\<exists>e t. a = XAudit e t)"
  | (expired) "expired_offer env o'" "xr_state (xm_rec m) \<in> {XIdle, XRejected}"
      "onOffer env m o' = (m\<lparr>xm_rec := blank XRejected\<rparr>, [outFor o' ''task.reject'' [(''reason_code'', JStr ''expired'')]])"
  | (superseded) m1 acts out where "\<not> expired_offer env o'" "xr_state (xm_rec m) = XRunning"
      "xr_task_id (xm_rec m) = Some (of_task_id o')" "attempt_or (xm_rec m) < of_attempt o'"
      "evaluateOffer env (m\<lparr>xm_rec := blank XIdle\<rparr>) o' = (m1, acts)"
      "ob_type out = ''task.reject''"
      "onOffer env m o' = (m1, if XThrow \<in> set acts then [XThrow]
         else [XStopDriver, stopAllTimers, XSend out,
               XAudit Stale_attempt_rejected ''implicit cancel by higher attempt''] @ acts)"
  | (evaluated) "\<not> expired_offer env o'" "xr_state (xm_rec m) \<notin> {XRunning, XOffered}"
      "\<not> (xr_task_id (xm_rec m) = Some (of_task_id o') \<and> decided (xr_state (xm_rec m)) \<and> of_attempt o' \<le> attempt_or (xm_rec m))"
      "onOffer env m o' = evaluateOffer env m o'"
proof -
  let ?r = "xm_rec m"
  have no: "xr_state ?r \<noteq> XOffered" using assms by (simp add: exec_inv_def Let_def)
  consider (dec) "xr_task_id ?r = Some (of_task_id o') \<and> decided (xr_state ?r) \<and> of_attempt o' \<le> attempt_or ?r"
    | (exp) "\<not> (xr_task_id ?r = Some (of_task_id o') \<and> decided (xr_state ?r) \<and> of_attempt o' \<le> attempt_or ?r)"
        "expired_offer env o'"
    | (run) "\<not> (xr_task_id ?r = Some (of_task_id o') \<and> decided (xr_state ?r) \<and> of_attempt o' \<le> attempt_or ?r)"
        "\<not> expired_offer env o'" "xr_state ?r = XRunning"
    | (free) "\<not> (xr_task_id ?r = Some (of_task_id o') \<and> decided (xr_state ?r) \<and> of_attempt o' \<le> attempt_or ?r)"
        "\<not> expired_offer env o'" "xr_state ?r \<notin> {XRunning, XOffered}"
    using no by blast
  then show ?thesis
  proof cases
    case dec
    then show ?thesis by (intro ignored [of "[]"]) (simp_all add: onOffer_def Let_def)
  next
    case exp
    then have e: "onOffer env m o' =
      (if xr_state ?r = XIdle \<or> xr_state ?r = XRejected then m\<lparr>xm_rec := blank XRejected\<rparr> else m,
       [outFor o' ''task.reject'' [(''reason_code'', JStr ''expired'')]])"
      by (simp add: onOffer_def expired_offer_def [symmetric] Let_def)
    show ?thesis
    proof (cases "xr_state ?r \<in> {XIdle, XRejected}")
      case True
      with e exp(2) show ?thesis by (intro expired) auto
    next
      case False
      with e show ?thesis by (intro ignored) (auto simp: outFor_def)
    qed
  next
    case free
    then show ?thesis
      by (intro evaluated) (auto simp: onOffer_def expired_offer_def [symmetric] Let_def)
  next
    case run
    with assms obtain a where a: "xr_attempt ?r = Some a" "\<not> xr_driverCompleted ?r"
      by (auto simp: exec_inv_def Let_def)
    have d: "\<not> decided (xr_state ?r)" using run by (simp add: decided_def)
    show ?thesis
    proof (cases "xr_task_id ?r = Some (of_task_id o') \<and> a < of_attempt o'")
      case True
      obtain m1 acts where ev: "evaluateOffer env (m\<lparr>xm_rec := blank XIdle\<rparr>) o' = (m1, acts)" by fastforce
      show ?thesis
        by (rule superseded [OF run(2,3) _ _ ev, of "\<lparr>ob_type = ''task.reject'', ob_to_node = of_from o',
                  ob_task_id = Some (of_task_id o'), ob_attempt = xr_attempt ?r, ob_reply_to = None,
                  ob_body = [(''reason_code'', JStr ''stale_attempt''),
                    (''detail'', JObj (num_json (xr_attempt ?r) @ [(''old_state'', JStr (state_text (xr_state ?r)))]))]\<rparr>"])
          (use True run a d ev in \<open>simp_all add: onOffer_def expired_offer_def [symmetric] Let_def attempt_or_def\<close>)
    next
      case False
      with run a d show ?thesis
        by (intro ignored [of "snd (onOffer env m o')"])
          (auto simp: onOffer_def expired_offer_def [symmetric] Let_def attempt_or_def exec_out_def outFor_def)
    qed
  qed
qed

lemma exec_inv_onOffer:
  assumes "exec_inv m"
  shows "exec_inv (fst (onOffer env m o'))"
proof (cases rule: onOffer_cases [OF assms, of env o'])
  case (3 m1 acts out)
  have "exec_inv (fst (evaluateOffer env (m\<lparr>xm_rec := blank XIdle\<rparr>) o'))"
    by (rule exec_inv_evaluate) (simp_all add: exec_inv_def)
  with 3 show ?thesis by simp
qed (use assms exec_inv_evaluate in \<open>auto simp: exec_inv_def\<close>)

lemma exec_inv_step: "exec_inv m \<Longrightarrow> exec_inv (fst (exec_step m e))"
proof (cases e)
  case (Xv_offer env o')
  assume "exec_inv m"
  with Xv_offer show ?thesis by (simp add: exec_inv_onOffer)
qed (auto simp: exec_op_defs exec_inv_def Let_def split: option.splits)

interpretation exec: invariant_machine exec_step exec_inv
  by unfold_locales (rule exec_inv_step)

section \<open>What a step emits\<close>

definition is_start :: "exec_action \<Rightarrow> bool" where
  "is_start a = (case a of XStartDriver _ _ _ \<Rightarrow> True | _ \<Rightarrow> False)"

fun sent_type :: "exec_action \<Rightarrow> string option" where
  "sent_type (XSend out) = Some (ob_type out)"
| "sent_type _ = None"

definition is_answer :: "exec_action \<Rightarrow> bool" where
  "is_answer a \<longleftrightarrow> sent_type a = Some ''task.result'' \<or> sent_type a = Some ''task.fail''"

lemma emitted_simps [simp]:
  "sent_type (outFor o' ty b) = Some ty" "sent_type (exec_out m ty to b) = Some ty"
  "sent_type stopAllTimers = None" "is_start (outFor o' ty b) = False" "is_start (exec_out m ty to b) = False"
  "is_start stopAllTimers = False" "is_start (XSend out) = False" "is_start (XStartDriver t a b) = True"
  "is_start XStopDriver = False" "is_start (XAudit e r) = False" "is_start (XSchedule tm ms) = False"
  "is_start XThrow = False" "is_start (XCancelTimers ts) = False" "is_start XPauseDriver = False"
  "is_start XResumeDriver = False"
  by (simp_all add: is_start_def outFor_def exec_out_def stopAllTimers_def)

lemma other_steps_start:
  "\<forall>env o'. e \<noteq> Xv_offer env o' \<Longrightarrow> a \<in> set (snd (exec_step m e)) \<Longrightarrow> \<not> is_start a"
  by (cases e) (auto simp: exec_op_defs Let_def split: option.splits if_splits)

lemma other_steps_throw:
  "\<forall>env o'. e \<noteq> Xv_offer env o' \<Longrightarrow> XThrow \<notin> set (snd (exec_step m e))"
  by (cases e) (auto simp: exec_op_defs Let_def exec_out_def stopAllTimers_def split: option.splits if_splits)

lemma evaluate_answers:
  "a \<in> set (snd (evaluateOffer env m o')) \<Longrightarrow> \<not> is_answer a"
  by (cases rule: evaluateOffer_cases [of o' env m])
    (auto simp: accept_offer_def Let_def is_answer_def)

lemma offer_answers:
  assumes "exec_inv m" "a \<in> set (snd (onOffer env m o'))"
  shows "\<not> is_answer a"
proof (cases rule: onOffer_cases [OF assms(1), of env o'])
  case (1 acts)
  with assms(2) show ?thesis by (auto simp: is_answer_def)
next
  case 2
  with assms(2) show ?thesis by (auto simp: is_answer_def)
next
  case (3 m1 acts out)
  with assms(2) evaluate_answers [of a env "m\<lparr>xm_rec := blank XIdle\<rparr>" o'] show ?thesis
    by (auto simp: is_answer_def split: if_splits)
next
  case 4
  with assms(2) show ?thesis by (simp add: evaluate_answers)
qed

section \<open>Properties\<close>

definition gates_pass :: "exec_env \<Rightarrow> exec_offer \<Rightarrow> bool" where
  "gates_pass env o' \<longleftrightarrow>
     (\<forall>f. xe_policy env = Some f \<longrightarrow> f (of_body o') = Policy_ok) \<and>
     (\<exists>required. required_of (of_body o') = Some required \<and>
        (\<forall>r \<in> set required. matchOne r (case xe_capabilities env of None \<Rightarrow> [] | Some cs \<Rightarrow> cs))) \<and>
     (\<forall>l. xe_load env = Some l \<longrightarrow> ld_queueDepth l \<le> ld_maxQueue l \<and> ld_running l \<le> ld_maxRunning l) \<and>
     (\<forall>req. confirm_of (of_body o') = Some req \<longrightarrow> (\<exists>h. xe_confirm env = Some h \<and> h req (of_body o')))"

lemma gates_pass_iff:
  assumes "g_ok (gatePolicy (xe_policy env) (of_body o'))" "required_of (of_body o') = Some required"
    "g_ok (gateCaps required (case xe_capabilities env of None \<Rightarrow> [] | Some cs \<Rightarrow> cs))"
    "g_ok (gateLoad (xe_load env))"
    "\<forall>req. confirm_of (of_body o') = Some req \<longrightarrow> (\<exists>h. xe_confirm env = Some h \<and> h req (of_body o'))"
  shows "gates_pass env o'"
proof -
  have "\<forall>f. xe_policy env = Some f \<longrightarrow> f (of_body o') = Policy_ok"
    using assms(1) by (auto simp: gatePolicy_def split: policy_result.splits)
  moreover have "\<forall>r \<in> set required. matchOne r (case xe_capabilities env of None \<Rightarrow> [] | Some cs \<Rightarrow> cs)"
    using assms(3) by (auto simp: gateCaps_def Let_def matchCaps_def filter_empty_conv split: if_splits)
  moreover have "\<forall>l. xe_load env = Some l \<longrightarrow> ld_queueDepth l \<le> ld_maxQueue l \<and> ld_running l \<le> ld_maxRunning l"
    using assms(4) by (auto simp: gateLoad_def split: if_splits)
  ultimately show ?thesis using assms(2,5) by (auto simp: gates_pass_def)
qed

lemma evaluate_start:
  assumes "XStartDriver t a b \<in> set (snd (evaluateOffer env m o'))"
  shows "gates_pass env o' \<and> t = of_task_id o' \<and> a = of_attempt o' \<and> b = of_body o' \<and>
    xr_state (xm_rec (fst (evaluateOffer env m o'))) = XRunning \<and>
    Some ''task.accept'' \<in> sent_type ` set (snd (evaluateOffer env m o'))"
proof (cases rule: evaluateOffer_cases [of o' env m])
  case (accepted required)
  with gates_pass_iff [OF accepted(1-5)] assms show ?thesis
    by (simp add: accept_offer_def Let_def outFor_def)
qed (use assms in \<open>auto simp: outFor_def\<close>)


definition demo_env :: exec_env where
  "demo_env = \<lparr>xe_policy = None, xe_capabilities = Some [''tool:git@2.40''], xe_load = None,
     xe_confirm = None, xe_parse = (\<lambda>_. Some 100), xe_iso = (\<lambda>_. ''t'')\<rparr>"

definition demo_offer :: exec_offer where
  "demo_offer = \<lparr>of_from = ''lead'', of_task_id = ''t1'', of_attempt = 1, of_msg_id = ''m1'',
     of_body = [(''lease_ms'', JNum 900000)], of_now = 50, of_exp = Some ''x''\<rparr>"

lemmas demo_exec_defs = demo_env_def demo_offer_def newExecutorMachine_def onOffer_def Let_def
  evaluateOffer_def accept_offer_def isExpiredByExp_def DEFAULT_PARAMS_def gatePolicy_def gateCaps_def
  gateLoad_def pass_gate_def required_of_def confirm_of_def arr_of_def offered_lease_def

lemma demo_exec_start:
  "exec_inv (newExecutorMachine None)"
  "XStartDriver ''t1'' 1 [(''lease_ms'', JNum 900000)]
     \<in> set (snd (exec_step (newExecutorMachine None) (Xv_offer demo_env demo_offer)))"
  by (rule exec_inv_new) (simp add: demo_exec_defs)


text \<open>
  R5. A result is sent only when the driver completes while the task is running, its lease has not
  run out (not paused) and no cancel arrived; it goes to the lead that made the offer, under the
  accepted task and attempt, and the task is then decided.
\<close>

theorem result_only_live:
  assumes "exec_inv m" "XSend out \<in> set (snd (exec_step m e))" "ob_type out = ''task.result''"
  shows "(\<exists>b. e = Xv_completed b \<and> ob_body out = spread [(''status'', JStr ''done'')] b) \<and>
    xr_state (xm_rec m) = XRunning \<and> \<not> xr_paused (xm_rec m) \<and> \<not> xr_cancelReceived (xm_rec m) \<and>
    xr_from (xm_rec m) = Some (ob_to_node out) \<and> ob_task_id out = xr_task_id (xm_rec m) \<and>
    ob_attempt out = xr_attempt (xm_rec m) \<and> xr_state (xm_rec (fst (exec_step m e))) = XResultSent"
proof (cases e)
  case (Xv_offer env o')
  have "is_answer (XSend out)" using assms(3) by (simp add: is_answer_def)
  with offer_answers [OF assms(1), of "XSend out" env o'] assms(2) Xv_offer show ?thesis by simp
next
  case (Xv_completed b)
  with assms show ?thesis
    by (auto simp: onDriverCompleted_def Let_def exec_inv_def exec_out_def from_or_def stopAllTimers_def
        split: if_splits)
qed (use assms in \<open>auto simp: exec_op_defs Let_def exec_inv_def exec_out_def stopAllTimers_def
      split: option.splits if_splits\<close>)

definition demo_exec :: exec_machine where
  "demo_exec = fst (exec_step (newExecutorMachine None) (Xv_offer demo_env demo_offer))"

lemma demo_exec_result:
  "exec_inv demo_exec"
  "XSend \<lparr>ob_type = ''task.result'', ob_to_node = ''lead'', ob_task_id = Some ''t1'', ob_attempt = Some 1,
     ob_reply_to = None, ob_body = [(''status'', JStr ''done''), (''n'', JNum 3)]\<rparr>
     \<in> set (snd (exec_step demo_exec (Xv_completed [(''n'', JNum 3)])))"
  "ob_type \<lparr>ob_type = ''task.result'', ob_to_node = ''lead'', ob_task_id = Some ''t1'', ob_attempt = Some 1,
     ob_reply_to = None, ob_body = [(''status'', JStr ''done''), (''n'', JNum 3)]\<rparr> = ''task.result''"
  by (simp_all add: demo_exec_def exec_inv_step exec_inv_new del: exec_step.simps)
    (simp add: demo_exec_defs onDriverCompleted_def exec_out_def from_or_def spread_def)

theorem result_only_live_witness:
  "(\<exists>b. Xv_completed [(''n'', JNum 3)] = Xv_completed b) \<and> xr_state (xm_rec demo_exec) = XRunning \<and>
   xr_from (xm_rec demo_exec) = Some ''lead'' \<and>
   xr_state (xm_rec (fst (exec_step demo_exec (Xv_completed [(''n'', JNum 3)])))) = XResultSent"
  using result_only_live [OF demo_exec_result] by simp

section \<open>Traces\<close>

definition starts :: "exec_action list \<Rightarrow> nat" where
  "starts tr = length (filter is_start tr)"

definition answers :: "exec_action list \<Rightarrow> nat" where
  "answers tr = length (filter is_answer tr)"

definition running_count :: "exec_machine \<Rightarrow> nat" where
  "running_count m = (if xr_state (xm_rec m) = XRunning then 1 else 0)"

definition exec_tinv :: "exec_action list \<Rightarrow> exec_machine \<Rightarrow> bool" where
  "exec_tinv tr m \<longleftrightarrow> exec_inv m \<and> answers tr + running_count m \<le> starts tr"

lemma no_filter: "(\<And>a. a \<in> set tr \<Longrightarrow> \<not> P a) \<Longrightarrow> length (filter P tr) = 0"
  by (simp add: filter_empty_conv)

lemma evaluate_running:
  "xr_state (xm_rec m) \<noteq> XRunning \<Longrightarrow>
     running_count (fst (evaluateOffer env m o')) \<le> starts (snd (evaluateOffer env m o'))"
  by (cases rule: evaluateOffer_cases [of o' env m])
    (auto simp: running_count_def starts_def accept_offer_def Let_def)

lemma offer_running:
  assumes "exec_inv m"
  shows "running_count (fst (onOffer env m o')) \<le> starts (snd (onOffer env m o')) + running_count m"
proof (cases rule: onOffer_cases [OF assms, of env o'])
  case (3 m1 acts out)
  have "running_count m1 \<le> starts acts" using evaluate_running [of "m\<lparr>xm_rec := blank XIdle\<rparr>" env o'] 3(5) by simp
  with 3 show ?thesis by (auto simp: starts_def running_count_def)
next
  case 4
  then show ?thesis using evaluate_running [of m env o'] by simp
qed (auto simp: running_count_def)

lemma other_running:
  "\<forall>env o'. e \<noteq> Xv_offer env o' \<Longrightarrow> exec_inv m \<Longrightarrow>
     answers (snd (exec_step m e)) + running_count (fst (exec_step m e)) \<le> running_count m"
  by (cases e)
    (auto simp: exec_op_defs Let_def answers_def running_count_def is_answer_def exec_inv_def split: option.splits)

lemma exec_tinv_step:
  assumes "exec_tinv tr m"
  shows "exec_tinv (tr @ snd (exec_step m e)) (fst (exec_step m e))"
proof -
  have inv: "exec_inv m" using assms by (simp add: exec_tinv_def)
  have "answers (snd (exec_step m e)) + running_count (fst (exec_step m e)) \<le>
      starts (snd (exec_step m e)) + running_count m"
  proof (cases "\<exists>env o'. e = Xv_offer env o'")
    case True
    then obtain env o' where e: "e = Xv_offer env o'" by blast
    have "answers (snd (onOffer env m o')) = 0"
      unfolding answers_def by (rule no_filter) (rule offer_answers [OF inv])
    with offer_running [OF inv, of env o'] e show ?thesis by simp
  next
    case False
    with other_running [of e m] inv show ?thesis by auto
  qed
  with assms inv show ?thesis by (simp add: exec_tinv_def exec_inv_step answers_def starts_def)
qed

interpretation exec_tr: traced_machine exec_step "\<lambda>_ _. True" exec_tinv
  by unfold_locales (rule exec_tinv_step)

text \<open>
  an accepted offer is answered at most once. At every moment of every run the executor has sent no
  more results and failures than it has started drivers, and strictly fewer while a task is running.
\<close>

theorem answers_bounded_by_starts:
  "let (m, tr) = run exec_step (newExecutorMachine p) es in answers tr + running_count m \<le> starts tr"
proof -
  have "exec_tinv [] (newExecutorMachine p)"
    using exec_inv_new [of p]
    by (simp add: exec_tinv_def answers_def starts_def running_count_def) (simp add: newExecutorMachine_def)
  from exec_tr.tinv_run [OF this, of es] show ?thesis by (simp add: exec_tinv_def case_prod_beta)
qed

fun progress_seqs :: "exec_action list \<Rightarrow> number option list" where
  "progress_seqs [] = []"
| "progress_seqs (a # tr) =
     (case a of
        XSend out \<Rightarrow> (if ob_type out = ''task.progress'' then [num_of (map_of (ob_body out) ''seq'')] else [])
      | _ \<Rightarrow> []) @ progress_seqs tr"

lemma progress_seqs_append [simp]: "progress_seqs (tr @ tr') = progress_seqs tr @ progress_seqs tr'"
  by (induction tr) simp_all

fun is_offer_event :: "exec_event \<Rightarrow> bool" where
  "is_offer_event (Xv_offer env o') = True"
| "is_offer_event _ = False"

lemma progress_step:
  assumes "\<not> is_offer_event e"
  shows "progress_seqs (snd (exec_step m e)) =
      map (\<lambda>n. Some (of_nat n)) [Suc (xr_lastSeq (xm_rec m))..<Suc (xr_lastSeq (xm_rec (fst (exec_step m e))))] \<and>
    xr_lastSeq (xm_rec m) \<le> xr_lastSeq (xm_rec (fst (exec_step m e)))"
  using assms
  by (cases e) (simp_all add: exec_op_defs Let_def exec_out_def stopAllTimers_def split: option.split)

text \<open>
  progress messages are numbered consecutively. Between two offers, the sequence numbers of the
  progress messages continue the record's counter without gap or repetition, which is what lets the
  lead drop reordered ones.
\<close>

theorem progress_consecutive:
  assumes "\<forall>e \<in> set es. \<not> is_offer_event e"
  shows "let (m', tr) = run exec_step m es in
    progress_seqs tr = map (\<lambda>n. Some (of_nat n)) [Suc (xr_lastSeq (xm_rec m))..<Suc (xr_lastSeq (xm_rec m'))]"
proof -
  have "progress_seqs (snd (run exec_step m es)) =
      map (\<lambda>n. Some (of_nat n)) [Suc (xr_lastSeq (xm_rec m))..<Suc (xr_lastSeq (xm_rec (fst (run exec_step m es))))] \<and>
    xr_lastSeq (xm_rec m) \<le> xr_lastSeq (xm_rec (fst (run exec_step m es)))"
    using assms
  proof (induction es arbitrary: m)
    case Nil
    then show ?case by simp
  next
    case (Cons e es)
    let ?m1 = "fst (exec_step m e)"
    let ?a = "xr_lastSeq (xm_rec m)" and ?b = "xr_lastSeq (xm_rec ?m1)"
      and ?c = "xr_lastSeq (xm_rec (fst (run exec_step ?m1 es)))"
    have s: "progress_seqs (snd (exec_step m e)) = map (\<lambda>n. Some (of_nat n)) [Suc ?a..<Suc ?b]" "?a \<le> ?b"
      using progress_step [of e m] Cons.prems by simp_all
    have r: "progress_seqs (snd (run exec_step ?m1 es)) = map (\<lambda>n. Some (of_nat n)) [Suc ?b..<Suc ?c]" "?b \<le> ?c"
      using Cons by simp_all
    have "[Suc ?a..<Suc ?c] = [Suc ?a..<Suc ?b] @ [Suc ?b..<Suc ?c]"
      using upt_add_eq_append [of "Suc ?a" "Suc ?b" "?c - ?b"] s(2) r(2) by simp
    with s r show ?case by (simp del: run.simps(2) upt_Suc)
  qed
  then show ?thesis by (simp add: case_prod_beta)
qed

theorem progress_consecutive_witness:
  "let (m', tr) = run exec_step demo_exec [Xv_heartbeat 100, Xv_acked 110, Xv_heartbeat 200] in
    progress_seqs tr = map (\<lambda>n. Some (of_nat n)) [Suc (xr_lastSeq (xm_rec demo_exec))..<Suc (xr_lastSeq (xm_rec m'))]"
  by (rule progress_consecutive) simp

definition replay_ok :: "exec_machine \<Rightarrow> exec_event \<Rightarrow> bool" where
  "replay_ok m e = (case e of Xv_offer env o' \<Rightarrow>
     xr_task_id (xm_rec m) = Some (of_task_id o') \<and> of_attempt o' \<le> attempt_or (xm_rec m) | _ \<Rightarrow> True)"

lemma decided_step:
  assumes "decided (xr_state (xm_rec m))" "replay_ok m e"
  shows "fst (exec_step m e) = m" "\<forall>a \<in> set (snd (exec_step m e)). \<not> is_start a"
proof -
  have st: "xr_state (xm_rec m) \<noteq> XRunning" "xr_state (xm_rec m) \<noteq> XOffered"
    using assms(1) by (auto simp: decided_def)
  have "fst (exec_step m e) = m \<and> (\<forall>a \<in> set (snd (exec_step m e)). \<not> is_start a)"
  proof (cases e)
    case (Xv_offer env o')
    with assms show ?thesis by (simp add: onOffer_def replay_ok_def)
  qed (simp_all add: exec_op_defs Let_def st split: option.split)
  then show "fst (exec_step m e) = m" "\<forall>a \<in> set (snd (exec_step m e)). \<not> is_start a" by simp_all
qed

text \<open>
  a decided task is not run again. After the executor has delivered, failed, stopped or cleaned a
  task, no sequence of timers, cancels, driver reports and repeated offers of that task with the same
  or an older attempt starts a driver or changes the record's decision.
\<close>

theorem decided_not_rerun:
  assumes "decided (xr_state (xm_rec m))" "\<forall>e \<in> set es. replay_ok m e"
  shows "fst (run exec_step m es) = m \<and> starts (snd (run exec_step m es)) = 0"
  using assms
proof (induction es)
  case Nil
  then show ?case by (simp add: starts_def)
next
  case (Cons e es)
  with decided_step [of m e] show ?case
    by (simp del: run.simps(2) add: starts_def filter_empty_conv)
qed

definition demo_decided :: exec_machine where
  "demo_decided = fst (exec_step demo_exec (Xv_completed []))"

lemma demo_decided_ok:
  "decided (xr_state (xm_rec demo_decided))" "\<forall>e \<in> set [Xv_offer demo_env demo_offer, Xv_cancel ''lead'' 1]. replay_ok demo_decided e"
  by (simp_all add: demo_decided_def demo_exec_def demo_exec_defs onDriverCompleted_def decided_def replay_ok_def attempt_or_def)

theorem decided_not_rerun_witness:
  "fst (run exec_step demo_decided [Xv_offer demo_env demo_offer, Xv_cancel ''lead'' 1]) = demo_decided \<and>
   starts (snd (run exec_step demo_decided [Xv_offer demo_env demo_offer, Xv_cancel ''lead'' 1])) = 0"
  by (rule decided_not_rerun [OF demo_decided_ok])

text \<open>
  the guard against re-running a decided task remembers only the last record. An offer of another
  task that a gate refuses erases it, and a redelivery of the already delivered attempt is then accepted
  and run a second time.
\<close>

theorem decided_forgotten:
  "let busy = demo_env\<lparr>xe_policy := Some (\<lambda>_. Policy_denied None)\<rparr>;
       other = demo_offer\<lparr>of_task_id := ''t2''\<rparr>;
       tr = snd (run exec_step (newExecutorMachine None)
              [Xv_offer demo_env demo_offer, Xv_completed [], Xv_offer busy other, Xv_offer demo_env demo_offer])
   in filter is_start tr =
        [XStartDriver ''t1'' 1 [(''lease_ms'', JNum 900000)], XStartDriver ''t1'' 1 [(''lease_ms'', JNum 900000)]]"
  by (simp add: demo_exec_defs onDriverCompleted_def decided_def attempt_or_def)

text \<open>
  the TTL check of the executor never fires. Offers are decided in the call that delivers them, so no
  reachable record is in state \<open>offered\<close>, and \<open>onTtlCheck\<close> does nothing in every run.
\<close>

theorem ttl_check_inert:
  "onTtlCheck (fst (run exec_step (newExecutorMachine p) es)) now = (fst (run exec_step (newExecutorMachine p) es), [])"
  using exec.inv_run [OF exec_inv_new, of p es]
  by (simp add: onTtlCheck_def exec_inv_def Let_def split: option.split)

end
