(* ===== verification/Node_Protocol.thy ===== *)
theory Node_Protocol
  imports Lead_Recovery Exec_Props Core_Envelope
begin

text \<open>
  The two ends of a task together. The messages that one machine sends are delivered to the other by
  the two functions \<open>to_exec\<close> and \<open>to_lead\<close>, which fill in what the transport adds: the sender, the message
  id, the horizon and the time of arrival.
\<close>

section \<open>Delivery\<close>

fun sends_l :: "lead_action list \<Rightarrow> outbound list" where
  "sends_l [] = []"
| "sends_l (LSend out # acts) = out # sends_l acts"
| "sends_l (_ # acts) = sends_l acts"

fun sends_x :: "exec_action list \<Rightarrow> outbound list" where
  "sends_x [] = []"
| "sends_x (XSend out # acts) = out # sends_x acts"
| "sends_x (_ # acts) = sends_x acts"

definition to_exec :: "string \<Rightarrow> string \<Rightarrow> number \<Rightarrow> string option \<Rightarrow> outbound \<Rightarrow> exec_offer" where
  "to_exec lead mid now ex out =
     \<lparr>of_from = lead, of_task_id = the (ob_task_id out), of_attempt = the (ob_attempt out), of_msg_id = mid,
      of_body = ob_body out, of_now = now, of_exp = ex\<rparr>"

definition to_lead :: "string \<Rightarrow> number \<Rightarrow> outbound \<Rightarrow> lead_event" where
  "to_lead node now out = Ev_message (ob_type out) node (the (ob_attempt out)) (ob_body out) now None"

text \<open>Dispatch, acceptance, completion: one attempt of a task from the offer to the result.\<close>

definition exchange where
  "exchange m x lead node b env mid ex t0 t1 t2 rb t3 =
     (let (m1, a1) = lead_step m (Ev_redispatch node b t0);
          (x1, b1) = exec_step x (Xv_offer env (to_exec lead mid t1 ex (hd (sends_l a1))));
          (m2, a2) = run lead_step m1 (map (to_lead node t2) (sends_x b1));
          (x2, b2) = exec_step x1 (Xv_completed rb);
          (m3, a3) = run lead_step m2 (map (to_lead node t3) (sends_x b2))
      in (m1, m2, m3, x1, x2))"

section \<open>Evaluating an exchange\<close>

lemma gate_ok_of_pass:
  assumes "gates_pass env o'"
  shows "evaluateOffer env x o' = accept_offer env x o'"
proof -
  obtain required where req: "required_of (of_body o') = Some required"
    and all: "\<forall>r \<in> set required. matchOne r (case xe_capabilities env of None \<Rightarrow> [] | Some cs \<Rightarrow> cs)"
    using assms by (auto simp: gates_pass_def)
  have "g_ok (gatePolicy (xe_policy env) (of_body o'))"
    using assms by (auto simp: gates_pass_def gatePolicy_def pass_gate_def split: option.split)
  moreover have "g_ok (gateCaps required (case xe_capabilities env of None \<Rightarrow> [] | Some cs \<Rightarrow> cs))"
    using all by (auto simp: gateCaps_def matchCaps_def pass_gate_def Let_def filter_empty_conv)
  moreover have "g_ok (gateLoad (xe_load env))"
    using assms by (auto simp: gates_pass_def gateLoad_def pass_gate_def split: option.split)
  moreover have "\<forall>req. confirm_of (of_body o') = Some req \<longrightarrow> (\<exists>h. xe_confirm env = Some h \<and> h req (of_body o'))"
    using assms by (simp add: gates_pass_def)
  ultimately show ?thesis using req
    by (auto simp: evaluateOffer_def Let_def split: option.split)
qed

lemma offer_accepted:
  assumes "xr_state (xm_rec x) \<in> {XIdle, XRejected}" "\<not> expired_offer env o'" "gates_pass env o'"
  shows "exec_step x (Xv_offer env o') = accept_offer env x o'"
  using assms gate_ok_of_pass [OF assms(3), of x]
  by (auto simp: onOffer_def expired_offer_def [symmetric] decided_def Let_def)

lemma redispatch_offer:
  assumes "\<not> lm_terminal m" "lr_state (lm_rec m) = Drafting" "isLeadContract (map_of b ''contract'')"
  shows "lead_step m (Ev_redispatch node b t0) = offer_with (lr_attempt (lm_rec m) + 1) m node b t0"
  using assms by (simp add: redispatchTo_def)

text \<open>What \<open>offer_with\<close> sends and leaves behind.\<close>

lemma offer_with_facts:
  "sends_l (snd (offer_with att m node b t0)) =
     [\<lparr>ob_type = ''task.offer'', ob_to_node = node, ob_task_id = Some (lm_task_id m), ob_attempt = Some att,
       ob_reply_to = None, ob_body = b\<rparr>]"
  "lr_state (lm_rec (fst (offer_with att m node b t0))) = Offered"
  "lr_attempt (lm_rec (fst (offer_with att m node b t0))) = att"
  "lr_target (lm_rec (fst (offer_with att m node b t0))) = Some node"
  "lm_terminal (fst (offer_with att m node b t0)) = lm_terminal m"
  by (simp_all add: offer_with_def Let_def stopTimers_def lead_out_def)

lemma accept_offer_facts:
  "sends_x (snd (accept_offer env x o')) =
     [\<lparr>ob_type = ''task.accept'', ob_to_node = of_from o', ob_task_id = Some (of_task_id o'),
       ob_attempt = Some (of_attempt o'), ob_reply_to = Some (of_msg_id o'),
       ob_body = [(''lease_ms'', JNum (offered_lease x o')), (''started_at'', JStr (xe_iso env (of_now o')))]\<rparr>]"
  by (simp add: accept_offer_def Let_def outFor_def)

lemma lead_accepts:
  assumes "\<not> lm_terminal m" "lr_state (lm_rec m) = Offered" "lr_target (lm_rec m) = Some node"
    "lr_attempt (lm_rec m) = a" "map_of b ''lease_ms'' = Some (JNum l)"
  shows "let m' = fst (lead_step m (Ev_message ''task.accept'' node a b now i)) in
    lr_state (lm_rec m') = Running \<and> lr_leaseMs (lm_rec m') = l \<and> lr_target (lm_rec m') = Some node \<and>
    lr_attempt (lm_rec m') = a \<and> \<not> lm_terminal m' \<and> lm_validateAcceptance m' = lm_validateAcceptance m \<and>
    lr_leaseDeadline (lm_rec m') = Some (now + lostAfterMs l (lm_params m))"
  using assms by (simp add: onMessage_def onOfferedMessage_def Let_def)

lemma lead_result:
  assumes "\<not> lm_terminal m" "lr_state (lm_rec m) = Running" "lr_target (lm_rec m) = Some node"
    "lr_attempt (lm_rec m) = a"
  shows "lr_state (lm_rec (fst (lead_step m (Ev_message ''task.result'' node a b now i)))) =
    (if lm_validateAcceptance m b then Done else Reclaiming)"
  using assms by (simp add: onMessage_def onRunningMessage_def Let_def)

section \<open>Properties\<close>

text \<open>
  C8: delivery end to end. An offer of a drafting lead task that reaches a free executor fresh and
  passes its gates is accepted under the next attempt; both ends then agree on the lease, and the lead
  finishes the task as done when the driver's result passes acceptance, or reclaims it when it does not.
\<close>

theorem offer_to_done:
  assumes "\<not> lm_terminal m" "lr_state (lm_rec m) = Drafting" "isLeadContract (map_of b ''contract'')"
    and "xr_state (xm_rec x) \<in> {XIdle, XRejected}"
    and "o' = to_exec lead mid t1 ex \<lparr>ob_type = ''task.offer'', ob_to_node = node, ob_task_id = Some (lm_task_id m),
           ob_attempt = Some (lr_attempt (lm_rec m) + 1), ob_reply_to = None, ob_body = b\<rparr>"
    and "\<not> expired_offer env o'" "gates_pass env o'"
    and "exchange m x lead node b env mid ex t0 t1 t2 rb t3 = (m1, m2, m3, x1, x2)"
  shows "lr_state (lm_rec m2) = Running \<and> xr_state (xm_rec x1) = XRunning \<and>
    lr_attempt (lm_rec m2) = lr_attempt (lm_rec m) + 1 \<and> xr_attempt (xm_rec x1) = Some (lr_attempt (lm_rec m2)) \<and>
    xr_leaseConfirmedMs (xm_rec x1) = Some (lr_leaseMs (lm_rec m2)) \<and>
    xr_state (xm_rec x2) = XResultSent \<and>
    lr_state (lm_rec m3) =
      (if lm_validateAcceptance m (spread [(''status'', JStr ''done'')] rb) then Done else Reclaiming)"
proof -
  define a where "a = lr_attempt (lm_rec m) + 1"
  let ?a = a and ?l = "offered_lease x o'"
  have off: "o' = to_exec lead mid t1 ex \<lparr>ob_type = ''task.offer'', ob_to_node = node, ob_task_id = Some (lm_task_id m),
      ob_attempt = Some a, ob_reply_to = None, ob_body = b\<rparr>"
    using assms(5) by (simp add: a_def)
  have disp: "lead_step m (Ev_redispatch node b t0) = offer_with a m node b t0"
    using redispatch_offer [OF assms(1-3)] by (simp add: a_def)
  have m1: "m1 = fst (offer_with ?a m node b t0)" and x1: "(x1, snd (accept_offer env x o')) = accept_offer env x o'"
    and m2: "m2 = fst (run lead_step m1 (map (to_lead node t2) (sends_x (snd (accept_offer env x o')))))"
    and x2: "x2 = fst (onDriverCompleted x1 rb)"
    and m3: "m3 = fst (run lead_step m2 (map (to_lead node t3) (sends_x (snd (onDriverCompleted x1 rb)))))"
    using assms(8) offer_accepted [OF assms(4,6,7)]
    by (auto simp: exchange_def case_prod_beta Let_def disp offer_with_facts off [symmetric] prod_eq_iff
        simp del: exec_step.simps(1) lead_step.simps)
  have acc: "sends_x (snd (accept_offer env x o')) =
     [\<lparr>ob_type = ''task.accept'', ob_to_node = lead, ob_task_id = Some (lm_task_id m), ob_attempt = Some ?a,
       ob_reply_to = Some mid,
       ob_body = [(''lease_ms'', JNum ?l), (''started_at'', JStr (xe_iso env t1))]\<rparr>]"
    by (simp add: accept_offer_facts) (simp add: off to_exec_def)
  have m2': "m2 = fst (lead_step m1 (Ev_message ''task.accept'' node ?a
      [(''lease_ms'', JNum ?l), (''started_at'', JStr (xe_iso env t1))] t2 None))"
    using m2 acc by (simp add: to_lead_def case_prod_beta del: lead_step.simps)
  have f2: "lr_state (lm_rec m2) = Running" "lr_leaseMs (lm_rec m2) = ?l" "lr_target (lm_rec m2) = Some node"
    "lr_attempt (lm_rec m2) = ?a" "\<not> lm_terminal m2" "lm_validateAcceptance m2 = lm_validateAcceptance m"
    using lead_accepts [of m1 node ?a "[(''lease_ms'', JNum ?l), (''started_at'', JStr (xe_iso env t1))]" ?l t2 None]
      m1 m2' assms(1) by (simp_all add: offer_with_facts Let_def del: lead_step.simps)
  have r1: "xr_state (xm_rec x1) = XRunning" "xr_attempt (xm_rec x1) = Some ?a" "xr_leaseConfirmedMs (xm_rec x1) = Some ?l"
    "\<not> xr_paused (xm_rec x1)" "\<not> xr_cancelReceived (xm_rec x1)"
    using x1 accept_offer_rec [of env x o'] by (simp_all add: prod_eq_iff) (simp add: off to_exec_def)
  have out: "sends_x (snd (onDriverCompleted x1 rb)) = [\<lparr>ob_type = ''task.result'', ob_to_node = from_or x2,
      ob_task_id = xr_task_id (xm_rec x1), ob_attempt = Some ?a, ob_reply_to = None,
      ob_body = spread [(''status'', JStr ''done'')] rb\<rparr>]" "xr_state (xm_rec x2) = XResultSent"
    using r1 x2 by (simp_all add: onDriverCompleted_def Let_def stopAllTimers_def exec_out_def)
  have "m3 = fst (lead_step m2 (Ev_message ''task.result'' node ?a (spread [(''status'', JStr ''done'')] rb) t3 None))"
    using m3 out by (simp add: to_lead_def case_prod_beta del: lead_step.simps)
  with lead_result [OF f2(5,1,3,4), of "spread [(''status'', JStr ''done'')] rb" t3 None] f2 r1 out(2) show ?thesis
    by (simp add: a_def)
qed

lemma demo_exchange:
  "\<not> lm_terminal demo_new" "lr_state (lm_rec demo_new) = Drafting" "isLeadContract (map_of [] ''contract'')"
  "xr_state (xm_rec (newExecutorMachine None)) \<in> {XIdle, XRejected}"
  "to_exec ''lead'' ''m1'' 50 None \<lparr>ob_type = ''task.offer'', ob_to_node = ''n1'', ob_task_id = Some (lm_task_id demo_new),
     ob_attempt = Some (lr_attempt (lm_rec demo_new) + 1), ob_reply_to = None, ob_body = []\<rparr> =
   to_exec ''lead'' ''m1'' 50 None \<lparr>ob_type = ''task.offer'', ob_to_node = ''n1'', ob_task_id = Some (lm_task_id demo_new),
     ob_attempt = Some (lr_attempt (lm_rec demo_new) + 1), ob_reply_to = None, ob_body = []\<rparr>"
  "\<not> expired_offer demo_env (to_exec ''lead'' ''m1'' 50 None \<lparr>ob_type = ''task.offer'', ob_to_node = ''n1'',
     ob_task_id = Some (lm_task_id demo_new), ob_attempt = Some (lr_attempt (lm_rec demo_new) + 1),
     ob_reply_to = None, ob_body = []\<rparr>)"
  "gates_pass demo_env (to_exec ''lead'' ''m1'' 50 None \<lparr>ob_type = ''task.offer'', ob_to_node = ''n1'',
     ob_task_id = Some (lm_task_id demo_new), ob_attempt = Some (lr_attempt (lm_rec demo_new) + 1),
     ob_reply_to = None, ob_body = []\<rparr>)"
  by (simp_all add: demo_new_def newLeadTaskMachine_def isLeadContract_def newExecutorMachine_def expired_offer_def
      to_exec_def gates_pass_def demo_env_def required_of_def confirm_of_def arr_of_def)

theorem offer_to_done_witness:
  "\<exists>m1 m2 m3 x1 x2.
     exchange demo_new (newExecutorMachine None) ''lead'' ''n1'' [] demo_env ''m1'' None 0 50 60 [] 70 = (m1, m2, m3, x1, x2) \<and>
     lr_state (lm_rec m2) = Running \<and> xr_state (xm_rec x1) = XRunning \<and> xr_state (xm_rec x2) = XResultSent \<and>
     lr_state (lm_rec m3) =
       (if lm_validateAcceptance demo_new (spread [(''status'', JStr ''done'')] []) then Done else Reclaiming)"
proof -
  obtain m1 m2 m3 x1 x2 where e:
    "exchange demo_new (newExecutorMachine None) ''lead'' ''n1'' [] demo_env ''m1'' None 0 50 60 [] 70 = (m1, m2, m3, x1, x2)"
    by (cases "exchange demo_new (newExecutorMachine None) ''lead'' ''n1'' [] demo_env ''m1'' None 0 50 60 [] 70")
  from offer_to_done [OF demo_exchange e] e show ?thesis by blast
qed

text \<open>
  C37: a cancel closes both ends. When the user cancels a running task, the cancel reaches the executor that
  runs that attempt for that lead, its driver is stopped, and its acknowledgement closes the lead's task.
\<close>

theorem cancel_handshake:
  assumes "\<not> lm_terminal m" "lr_state (lm_rec m) = Running" "lr_target (lm_rec m) = Some node" "node \<noteq> []"
    and "exec_inv x" "xr_state (xm_rec x) = XRunning" "xr_from (xm_rec x) = Some lead"
    and "xr_attempt (xm_rec x) = Some (lr_attempt (lm_rec m))"
  shows "\<exists>out ack.
    sends_l (snd (lead_step m (Ev_cancelByUser t0))) = [out] \<and> ob_type out = ''task.cancel'' \<and> ob_to_node out = node \<and>
    (let (x1, acts) = exec_step x (Xv_cancel lead (the (ob_attempt out))) in
       xr_state (xm_rec x1) = XStopped \<and> XStopDriver \<in> set acts \<and> sends_x acts = [ack] \<and>
       ob_type ack = ''task.cancel.ack'' \<and> ob_to_node ack = lead \<and>
       (let m2 = fst (lead_step (fst (lead_step m (Ev_cancelByUser t0))) (to_lead node t1 ack)) in
          lr_state (lm_rec m2) = Closed \<and> lm_terminal m2))"
proof -
  have nc: "\<not> xr_driverCompleted (xm_rec x)" using assms(5,6) by (simp add: exec_inv_def Let_def)
  show ?thesis
    using assms nc
    by (auto simp: cancelByUser_def Let_def cancel_msg_def lead_out_def stopTimers_def onCancel_def exec_out_def
        stopAllTimers_def to_lead_def onMessage_def onCancellingMessage_def finish_def)
qed

lemma demo_cancel:
  "\<not> lm_terminal demo_running" "lr_state (lm_rec demo_running) = Running" "lr_target (lm_rec demo_running) = Some ''n1''"
  "''n1'' \<noteq> []" "exec_inv demo_exec" "xr_state (xm_rec demo_exec) = XRunning" "xr_from (xm_rec demo_exec) = Some ''lead''"
  "xr_attempt (xm_rec demo_exec) = Some (lr_attempt (lm_rec demo_running))"
  by (simp_all add: demo_defs exec_inv_def demo_exec_def) (simp_all add: demo_exec_defs)

theorem cancel_handshake_witness:
  "\<exists>out. sends_l (snd (lead_step demo_running (Ev_cancelByUser 7))) = [out] \<and> ob_type out = ''task.cancel'' \<and>
     ob_to_node out = ''n1'' \<and>
     xr_state (xm_rec (fst (exec_step demo_exec (Xv_cancel ''lead'' (the (ob_attempt out)))))) = XStopped"
  using cancel_handshake [OF demo_cancel, of 7 9] by (auto simp: case_prod_beta Let_def simp del: lead_step.simps exec_step.simps)

text \<open>
  the renewal the lead sends is one the executor's contract accepts. When a progress message makes the
  lead renew, the renewal goes back to the sender under the current attempt and passes
  \<open>canApplyLeaseRenewal\<close> for the run it names, provided the executor has not applied a later renewal and its
  clock, in the same domain, is between the lead's and the new deadline.
\<close>

theorem renewal_applies:
  assumes "\<not> lm_terminal m" "lr_state (lm_rec m) = Running" "lr_target (lm_rec m) = Some node"
    and "LSend out \<in> set (snd (lead_step m (Ev_message ''task.progress'' node (lr_attempt (lm_rec m)) b now (Some mid))))"
    and "isLeaseFence f" "map_of b ''generation'' = Some (JNum (lf_generation f))" "map_of b ''run_id'' = Some (JStr (lf_run_id f))"
    and "map_of b ''seq'' = Some (JNum sq)"
    and "isSafeInteger (of_nat (lr_renewalSeq (lm_rec m) + 1))"
    and "isSafeInteger lst" "0 \<le> lst" "lst \<le> of_nat (lr_renewalSeq (lm_rec m))"
    and "now \<le> xnow" "xnow < now + lr_leaseMs (lm_rec m)" "xnow < dl"
  shows "ob_type out = ''task.lease.renew'' \<and> ob_to_node out = node \<and> ob_attempt out = Some (lr_attempt (lm_rec m)) \<and>
    canApplyLeaseRenewal \<lparr>ri_body = ob_body out, ri_fence = f, ri_progressMsgId = mid, ri_progressSeq = sq,
      ri_lastRenewalSeq = lst, ri_now = xnow, ri_maxLeaseMs = lr_leaseMs (lm_rec m), ri_currentDeadlineMs = dl\<rparr>"
proof -
  let ?m1 = "m\<lparr>lm_rec := (lm_rec m)\<lparr>lr_leaseDeadline := Some (now + lostAfterMs (lr_leaseMs (lm_rec m)) (lm_params m))\<rparr>\<rparr>"
  have mem: "LSend out \<in> set (snd (leaseRenewal ?m1 node b now (Some mid)))"
    using assms(1-4) by (simp add: onMessage_def onRunningMessage_def Let_def case_prod_beta)
  show ?thesis
  proof (cases rule: leaseRenewal_cases [of ?m1 node b now "Some mid"])
    case skip
    with mem show ?thesis by simp
  next
    case (renew mid' g rid q)
    have sel: "mid' = mid" "g = lf_generation f" "rid = lf_run_id f" "q = sq"
      using renew(1,3,6,8) assms(6-8) by simp_all
    have out: "ob_type out = ''task.lease.renew''" "ob_to_node out = node" "ob_attempt out = Some (lr_attempt (lm_rec m))"
      "ob_body out = [(''generation'', JNum (lf_generation f)), (''run_id'', JStr (lf_run_id f)),
         (''progress_msg_id'', JStr mid), (''progress_seq'', JNum sq),
         (''renewal_seq'', JNum (of_nat (lr_renewalSeq (lm_rec m) + 1))),
         (''deadline_ms'', JNum (now + lr_leaseMs (lm_rec m)))]"
      using mem renew(11) sel by (simp_all add: Let_def lead_out_def)
    have "(0::rat) < of_nat (lr_renewalSeq (lm_rec m) + 1)" "0 < lr_leaseMs (lm_rec m)"
      "lst < of_nat (lr_renewalSeq (lm_rec m) + 1)" "now + lr_leaseMs (lm_rec m) \<le> xnow + lr_leaseMs (lm_rec m)"
      using assms(12-14) by simp_all
    moreover have "isUuidStr mid" "isPositiveSafeInteger sq" "isUuidStr (lf_run_id f)" "isPositiveSafeInteger (lf_generation f)"
      using renew sel assms(5) by (simp_all add: isPositiveSafeInteger_def isLeaseFence_def)
    ultimately show ?thesis
      using out assms(5,9-15)
      by (simp add: canApplyLeaseRenewal_def Let_def isLeaseRenewalBody_def posSafeInt_def isUuid_def isPositiveSafeInteger_def
          del: of_nat_add of_nat_Suc)
  qed
qed

definition demo_fence :: lease_fence where
  "demo_fence = \<lparr>lf_task_id = demo_uuid, lf_attempt = 1, lf_generation = 3, lf_run_id = demo_uuid\<rparr>"

definition demo_progress :: body where
  "demo_progress = [(''generation'', JNum 3), (''run_id'', JStr demo_uuid), (''seq'', JNum 5)]"

definition demo_renewal :: outbound where
  "demo_renewal = \<lparr>ob_type = ''task.lease.renew'', ob_to_node = ''n1'', ob_task_id = Some ''t'', ob_attempt = Some 1,
     ob_reply_to = Some demo_uuid, ob_body = [(''generation'', JNum 3), (''run_id'', JStr demo_uuid),
         (''progress_msg_id'', JStr demo_uuid), (''progress_seq'', JNum 5), (''renewal_seq'', JNum 1),
         (''deadline_ms'', JNum (100 + lr_leaseMs (lm_rec demo_running)))]\<rparr>"

lemma demo_renewal_ok:
  "LSend demo_renewal \<in> set (snd (lead_step demo_running (Ev_message ''task.progress'' ''n1''
     (lr_attempt (lm_rec demo_running)) demo_progress 100 (Some demo_uuid))))"
  "isLeaseFence demo_fence" "map_of demo_progress ''generation'' = Some (JNum (lf_generation demo_fence))"
  "map_of demo_progress ''run_id'' = Some (JStr (lf_run_id demo_fence))" "map_of demo_progress ''seq'' = Some (JNum 5)"
  "isSafeInteger (of_nat (lr_renewalSeq (lm_rec demo_running) + 1))" "isSafeInteger 0" "(0::rat) \<le> 0"
  "0 \<le> (of_nat (lr_renewalSeq (lm_rec demo_running)) :: rat)" "(100::rat) \<le> 110"
  "110 < 100 + lr_leaseMs (lm_rec demo_running)" "(110::rat) < 200"
  by (simp_all add: demo_renewal_def demo_fence_def demo_progress_def isLeaseFence_def isPositiveSafeInteger_def
      demo_defs lead_out_def Let_def leaseRenewal_def)

theorem renewal_applies_witness:
  "canApplyLeaseRenewal \<lparr>ri_body = ob_body demo_renewal, ri_fence = demo_fence, ri_progressMsgId = demo_uuid,
     ri_progressSeq = 5, ri_lastRenewalSeq = 0, ri_now = 110, ri_maxLeaseMs = lr_leaseMs (lm_rec demo_running),
     ri_currentDeadlineMs = 200\<rparr>"
  using renewal_applies [OF demo_cancel(1-3) demo_renewal_ok] by simp

end
