(* ===== verification/Gateway_Acl.thy ===== *)
theory Gateway_Acl
  imports Core_Envelope Core_Caps Node_Wire
begin

text \<open>
  The gateway's uplink authorisation, \<open>packages/gateway/src/acl.ts\<close> with the types of \<open>types.ts\<close>. The directory
  is an interface: \<open>evaluateUplink\<close> threads a state through the lookup it is given, because the gateway's
  lookup fills a cache. The locale \<open>directory\<close> says what a lookup promises; inside it the verdict is shown
  to depend only on the directory the state represents, and routing is characterised exactly.
\<close>

section \<open>Types\<close>

datatype node_status = Active | Suspended | Revoked

record directory_entry =
  de_node_id :: string
  de_team_id :: string
  de_status :: node_status
  de_currentEpoch :: nat

record gateway_connection =
  gc_connId :: string
  gc_nodeId :: string
  gc_teamId :: string
  gc_connectedAt :: number
  gc_generation :: nat

datatype acl_rule = A0 | A1 | A2

datatype acl_code = Acl_cross_team | Acl_caps_not_granted | Not_team_member | Node_not_active

datatype acl_reason =
    From_node_mismatch
  | From_team_mismatch
  | No_connection
  | Sender_status node_status
  | Sender_unknown
  | Receiver_unknown
  | To_team_mismatch
  | No_grant
  | Malformed_caps
  | Caps_missing "string list"

datatype acl_verdict =
    Route string
  | Silent_drop acl_rule audit_event acl_reason
  | Routing_denied acl_rule acl_code audit_event acl_reason

section \<open>The decision\<close>

definition checkFromPin :: "gateway_connection \<Rightarrow> envelope \<Rightarrow> acl_verdict option" where
  "checkFromPin conn head =
     (if e_from_node head \<noteq> gc_nodeId conn
      then Some (Silent_drop A0 Acl_rejected_from_pin From_node_mismatch)
      else if e_from_team head \<noteq> None \<and> e_from_team head \<noteq> Some (gc_teamId conn)
      then Some (Silent_drop A0 Acl_rejected_from_pin From_team_mismatch)
      else None)"

definition requiredCapsOf :: "body \<Rightarrow> string list option" where
  "requiredCapsOf b =
     (case map_of b ''required_caps'' of
        None \<Rightarrow> Some []
      | Some rc \<Rightarrow>
          (case arr_of (Some rc) of
             None \<Rightarrow> None
           | Some xs \<Rightarrow>
               if list_all (\<lambda>c. isNonEmptyStr (Some c)) xs
               then Some (map (\<lambda>c. the (str_of (Some c))) xs) else None))"

type_synonym grant_lookup = "string \<Rightarrow> string \<Rightarrow> string list option"

definition evaluateUplink ::
  "('s \<Rightarrow> string \<Rightarrow> 's \<times> directory_entry option) \<Rightarrow> grant_lookup option \<Rightarrow> 's
     \<Rightarrow> gateway_connection \<Rightarrow> envelope \<Rightarrow> 's \<times> acl_verdict" where
  "evaluateUplink lookup grantLookup s conn head =
     (case checkFromPin conn head of
        Some pin \<Rightarrow> (s, pin)
      | None \<Rightarrow>
        (let (s1, sender) = lookup s (gc_nodeId conn) in
         (case sender of
            None \<Rightarrow> (s1, Routing_denied A2 Node_not_active Not_active Sender_unknown)
          | Some sn \<Rightarrow>
            if de_status sn \<noteq> Active
            then (s1, Routing_denied A2 Node_not_active Not_active (Sender_status (de_status sn)))
            else
              (let (s2, receiver) = lookup s1 (e_to_node head) in
               (case receiver of
                  None \<Rightarrow> (s2, Routing_denied A1 Not_team_member To_mismatch Receiver_unknown)
                | Some rc \<Rightarrow>
                  if e_to_team head \<noteq> None \<and> e_to_team head \<noteq> Some (de_team_id rc)
                  then (s2, Routing_denied A1 Acl_cross_team Acl_rejected_cross_team To_team_mismatch)
                  else if de_team_id sn \<noteq> de_team_id rc then
                    (case (case grantLookup of None \<Rightarrow> None | Some g \<Rightarrow> g (de_team_id sn) (de_team_id rc)) of
                       None \<Rightarrow> (s2, Routing_denied A1 Acl_cross_team Acl_rejected_cross_team No_grant)
                     | Some visible \<Rightarrow>
                         (case requiredCapsOf (e_body head) of
                            None \<Rightarrow> (s2, Routing_denied A1 Acl_caps_not_granted Acl_rejected_cross_team Malformed_caps)
                          | Some required \<Rightarrow>
                              (let m = matchCaps required visible in
                               if \<not> caps_ok m
                               then (s2, Routing_denied A1 Acl_caps_not_granted Acl_rejected_cross_team
                                           (Caps_missing (caps_missing m)))
                               else (s2, Route (de_team_id rc)))))
                  else (s2, Route (de_team_id rc)))))))"

section \<open>The directory as an interface\<close>

text \<open>
  A lookup may change the state it works on, but never the directory the state stands for.
\<close>

locale directory =
  fixes lookup :: "'s \<Rightarrow> string \<Rightarrow> 's \<times> directory_entry option"
    and view :: "'s \<Rightarrow> string \<Rightarrow> directory_entry option"
    and dinv :: "'s \<Rightarrow> bool"
  assumes lookup_value: "dinv s \<Longrightarrow> snd (lookup s n) = view s n"
    and lookup_view: "dinv s \<Longrightarrow> view (fst (lookup s n)) = view s"
    and lookup_inv: "dinv s \<Longrightarrow> dinv (fst (lookup s n))"

text \<open>What may pass: the sender is who it claims to be and active, the receiver is known where it is
  claimed to be, and teams are equal or a grant covers every required capability.\<close>

definition pinned :: "gateway_connection \<Rightarrow> envelope \<Rightarrow> bool" where
  "pinned conn head \<longleftrightarrow>
     e_from_node head = gc_nodeId conn \<and> (\<forall>t. e_from_team head = Some t \<longrightarrow> t = gc_teamId conn)"

definition grant_covers :: "grant_lookup option \<Rightarrow> string \<Rightarrow> string \<Rightarrow> body \<Rightarrow> bool" where
  "grant_covers gl from_team to_team b \<longleftrightarrow>
     (\<exists>g visible required. gl = Some g \<and> g from_team to_team = Some visible \<and>
        requiredCapsOf b = Some required \<and> (\<forall>r \<in> set required. matchOne r visible))"

definition may_route ::
  "(string \<Rightarrow> directory_entry option) \<Rightarrow> grant_lookup option \<Rightarrow> gateway_connection \<Rightarrow> envelope \<Rightarrow> string \<Rightarrow> bool" where
  "may_route dir gl conn head team \<longleftrightarrow>
     pinned conn head \<and>
     (\<exists>sn rc. dir (gc_nodeId conn) = Some sn \<and> de_status sn = Active \<and>
        dir (e_to_node head) = Some rc \<and> team = de_team_id rc \<and>
        (\<forall>t. e_to_team head = Some t \<longrightarrow> t = de_team_id rc) \<and>
        (de_team_id sn = de_team_id rc \<or> grant_covers gl (de_team_id sn) (de_team_id rc) (e_body head)))"

lemma checkFromPin_None: "checkFromPin conn head = None \<longleftrightarrow> pinned conn head"
  by (auto simp: checkFromPin_def pinned_def)

lemma checkFromPin_drop: "checkFromPin conn head = Some v \<Longrightarrow> \<exists>r. v = Silent_drop A0 Acl_rejected_from_pin r"
  by (auto simp: checkFromPin_def split: if_splits)

lemma caps_ok_all: "caps_ok (matchCaps required visible) \<longleftrightarrow> (\<forall>r \<in> set required. matchOne r visible)"
  by (auto simp: matchCaps_def Let_def filter_empty_conv)

context directory
begin

lemma evaluate_state:
  assumes "dinv s"
  shows "dinv (fst (evaluateUplink lookup gl s conn head))"
    "view (fst (evaluateUplink lookup gl s conn head)) = view s"
proof -
  let ?s1 = "fst (lookup s (gc_nodeId conn))"
  let ?s2 = "fst (lookup ?s1 (e_to_node head))"
  have "fst (evaluateUplink lookup gl s conn head) \<in> {s, ?s1, ?s2}"
    by (simp add: evaluateUplink_def Let_def case_prod_beta split: option.split)
  moreover have "dinv ?s1" "view ?s1 = view s" "dinv ?s2" "view ?s2 = view s"
    using assms by (simp_all add: lookup_inv lookup_view)
  ultimately show "dinv (fst (evaluateUplink lookup gl s conn head))"
    "view (fst (evaluateUplink lookup gl s conn head)) = view s"
    using assms by auto
qed

lemma route_iff:
  assumes "dinv s"
  shows "snd (evaluateUplink lookup gl s conn head) = Route team \<longleftrightarrow> may_route (view s) gl conn head team"
proof (cases "pinned conn head")
  case False
  then obtain v where "checkFromPin conn head = Some v" using checkFromPin_None by (cases "checkFromPin conn head") auto
  with False checkFromPin_drop [OF this] show ?thesis by (auto simp: evaluateUplink_def may_route_def)
next
  case pin: True
  let ?s1 = "fst (lookup s (gc_nodeId conn))"
  have l: "snd (lookup s (gc_nodeId conn)) = view s (gc_nodeId conn)" "snd (lookup ?s1 n) = view s n" for n
    using assms by (simp_all add: lookup_value lookup_inv lookup_view)
  show ?thesis
  proof (cases "view s (gc_nodeId conn)")
    case None
    with pin l show ?thesis by (simp add: evaluateUplink_def checkFromPin_None [THEN iffD2] may_route_def case_prod_beta)
  next
    case sn: (Some sn)
    show ?thesis
    proof (cases "view s (e_to_node head)")
      case None
      with pin l sn show ?thesis
        by (simp add: evaluateUplink_def checkFromPin_None [THEN iffD2] may_route_def case_prod_beta)
    next
      case (Some rc)
      with pin l sn show ?thesis
        by (auto simp: evaluateUplink_def checkFromPin_None [THEN iffD2] may_route_def case_prod_beta Let_def
            grant_covers_def caps_ok_all split: option.splits)
    qed
  qed
qed

lemma silent_iff:
  assumes "dinv s"
  shows "(\<exists>r a x. snd (evaluateUplink lookup gl s conn head) = Silent_drop r a x) \<longleftrightarrow> \<not> pinned conn head"
proof (cases "pinned conn head")
  case False
  then obtain v where "checkFromPin conn head = Some v" using checkFromPin_None by (cases "checkFromPin conn head") auto
  with False checkFromPin_drop [OF this] show ?thesis by (auto simp: evaluateUplink_def)
next
  case True
  then show ?thesis
    by (auto simp: evaluateUplink_def checkFromPin_None [THEN iffD2] case_prod_beta Let_def split: option.splits)
qed

end

end
