(* ===== verification/Gateway_Core.thy ===== *)
theory Gateway_Core
  imports Gateway_Acl
begin

text \<open>
  The gateway core: the inbox (\<open>packages/gateway/src/mailbox.ts\<close>) with its file persistence, and the
  connection table, directory cache, uplink and redelivery of \<open>core.ts\<close>. The file of the inbox is the list
  of boxes its JSON text denotes; a failed write leaves the old file, which the code tolerates. An audit
  record is its event, node and reason (its digest and time stamp are diagnostics). The grant lookup,
  which the host installs, is a field. The gateway interprets the locale \<open>directory\<close> with its cached lookup.
\<close>

section \<open>The inbox\<close>

record inbox_entry =
  ie_msgId :: string
  ie_envelope :: envelope
  ie_enqueuedAt :: number

record inbox_store =
  ib_boxes :: "(string \<times> inbox_entry list) list"
  ib_capacity :: nat

definition newInboxStore :: "nat \<Rightarrow> inbox_store" where
  "newInboxStore cap = \<lparr>ib_boxes = [], ib_capacity = max 1 cap\<rparr>"

definition box_of :: "inbox_store \<Rightarrow> string \<Rightarrow> inbox_entry list" where
  "box_of ib nodeId = (case map_of (ib_boxes ib) nodeId of None \<Rightarrow> [] | Some b \<Rightarrow> b)"

definition inbox_offer :: "inbox_store \<Rightarrow> string \<Rightarrow> envelope \<Rightarrow> number \<Rightarrow> inbox_store" where
  "inbox_offer ib nodeId env now =
     (let box = box_of ib nodeId;
          box1 = (if ib_capacity ib \<le> length box then tl box else box);
          box2 = box1 @ [\<lparr>ie_msgId = e_msg_id env, ie_envelope = env, ie_enqueuedAt = now\<rparr>]
      in ib\<lparr>ib_boxes := AList.update nodeId box2 (ib_boxes ib)\<rparr>)"

definition inbox_drain ::
  "inbox_store \<Rightarrow> string \<Rightarrow> (envelope \<Rightarrow> bool) \<Rightarrow> inbox_store \<times> inbox_entry list \<times> inbox_entry list" where
  "inbox_drain ib nodeId isExpired =
     (let box = box_of ib nodeId in
      (ib\<lparr>ib_boxes := AList.update nodeId [] (ib_boxes ib)\<rparr>,
       filter (\<lambda>e. \<not> isExpired (ie_envelope e)) box,
       filter (\<lambda>e. isExpired (ie_envelope e)) box))"

definition inbox_size :: "inbox_store \<Rightarrow> string \<Rightarrow> nat" where
  "inbox_size ib nodeId = length (box_of ib nodeId)"

text \<open>What \<open>persist\<close> writes, and what the constructor's \<open>load\<close> makes of it.\<close>

type_synonym inbox_file = "(string \<times> inbox_entry list) list"

definition inbox_persist :: "inbox_store \<Rightarrow> inbox_file" where
  "inbox_persist ib = filter (\<lambda>(n, es). 0 < length es) (ib_boxes ib)"

definition inbox_load :: "inbox_file option \<Rightarrow> inbox_store \<Rightarrow> inbox_store" where
  "inbox_load f ib =
     (case f of
        None \<Rightarrow> ib
      | Some boxes \<Rightarrow>
          ib\<lparr>ib_boxes := foldl (\<lambda>m (n, es). if 0 < length es then AList.update n es m else m) (ib_boxes ib) boxes\<rparr>)"

section \<open>The core\<close>

record directory_snapshot =
  dsn_epoch :: nat
  dsn_nodes :: "directory_entry list"

record cache_entry =
  ce_epoch :: nat
  ce_entry :: "directory_entry option"

record gateway =
  gw_connections :: "(string \<times> gateway_connection) list"
  gw_inbox :: inbox_store
  gw_directory :: directory_snapshot
  gw_dirCache :: "(string \<times> cache_entry) list"
  gw_params :: qlong_params
  gw_grantLookup :: "grant_lookup option"

definition newGatewayCore :: "qlong_params option \<Rightarrow> nat option \<Rightarrow> gateway" where
  "newGatewayCore params cap =
     \<lparr>gw_connections = [], gw_inbox = newInboxStore (case cap of None \<Rightarrow> 200 | Some c \<Rightarrow> c),
      gw_directory = \<lparr>dsn_epoch = 0, dsn_nodes = []\<rparr>, gw_dirCache = [],
      gw_params = (case params of None \<Rightarrow> DEFAULT_PARAMS | Some p \<Rightarrow> p), gw_grantLookup = None\<rparr>"

definition setDirectory :: "gateway \<Rightarrow> directory_snapshot \<Rightarrow> gateway" where
  "setDirectory gw snapshot =
     (if dsn_epoch snapshot < dsn_epoch (gw_directory gw) then gw
      else gw\<lparr>gw_directory := snapshot, gw_dirCache := []\<rparr>)"

definition lookup :: "gateway \<Rightarrow> string \<Rightarrow> gateway \<times> directory_entry option" where
  "lookup gw nodeId =
     (case map_of (gw_dirCache gw) nodeId of
        Some c \<Rightarrow>
          if ce_epoch c = dsn_epoch (gw_directory gw) then (gw, ce_entry c)
          else (let entry = find (\<lambda>n. de_node_id n = nodeId) (dsn_nodes (gw_directory gw)) in
                (gw\<lparr>gw_dirCache := AList.update nodeId
                      \<lparr>ce_epoch = dsn_epoch (gw_directory gw), ce_entry = entry\<rparr> (gw_dirCache gw)\<rparr>, entry))
      | None \<Rightarrow>
          (let entry = find (\<lambda>n. de_node_id n = nodeId) (dsn_nodes (gw_directory gw)) in
           (gw\<lparr>gw_dirCache := AList.update nodeId
                 \<lparr>ce_epoch = dsn_epoch (gw_directory gw), ce_entry = entry\<rparr> (gw_dirCache gw)\<rparr>, entry)))"

definition connect :: "gateway \<Rightarrow> gateway_connection \<Rightarrow> gateway" where
  "connect gw conn = gw\<lparr>gw_connections := AList.update (gc_nodeId conn) conn (gw_connections gw)\<rparr>"

definition disconnect :: "gateway \<Rightarrow> string \<Rightarrow> gateway" where
  "disconnect gw nodeId = gw\<lparr>gw_connections := AList.delete nodeId (gw_connections gw)\<rparr>"

record admin_close =
  ac_nodeId :: string
  ac_code :: nat
  ac_status :: node_status

definition applyAdminEvent :: "gateway \<Rightarrow> string \<Rightarrow> node_status \<Rightarrow> gateway \<times> admin_close list" where
  "applyAdminEvent gw nodeId status =
     (let gw1 = disconnect gw nodeId in
      (case map_of (gw_connections gw) nodeId of
         None \<Rightarrow> (gw1, [])
       | Some conn \<Rightarrow>
           (gw1, [\<lparr>ac_nodeId = nodeId, ac_code = (if status = Suspended then 4001 else 4002), ac_status = status\<rparr>])))"

definition authorizeUplink :: "gateway \<Rightarrow> string \<Rightarrow> envelope \<Rightarrow> gateway \<times> acl_verdict" where
  "authorizeUplink gw fromNodeId env =
     (case map_of (gw_connections gw) fromNodeId of
        None \<Rightarrow> (gw, Silent_drop A0 Acl_rejected_from_pin No_connection)
      | Some conn \<Rightarrow> evaluateUplink lookup (gw_grantLookup gw) gw conn env)"

datatype ack_type = Ack_delivered | Ack_queued | Ack_rejected

record gateway_ack =
  ga_type :: ack_type
  ga_msg_id :: string
  ga_reason :: "string option"

datatype audit_why = Why_expired | Why_acl acl_reason | Why_expired_redelivery

record audit_record =
  au_event :: audit_event
  au_node_id :: string
  au_reason :: audit_why

record uplink_result =
  ur_ack :: "gateway_ack option"
  ur_deferred :: "(string \<times> envelope) option"
  ur_routingDenied :: "(acl_rule \<times> acl_code \<times> string) option"
  ur_audits :: "audit_record list"
  ur_deliveries :: "(string \<times> envelope) list"
  ur_queued :: "(string \<times> envelope) list"

definition no_result :: uplink_result where
  "no_result = \<lparr>ur_ack = None, ur_deferred = None, ur_routingDenied = None, ur_audits = [],
     ur_deliveries = [], ur_queued = []\<rparr>"

definition env_expired :: "date_parser \<Rightarrow> envelope \<Rightarrow> number \<Rightarrow> bool" where
  "env_expired parse env now =
     (case e_exp env of None \<Rightarrow> False | Some x \<Rightarrow> isExpiredByExp parse x now (expDriftBudgetMs DEFAULT_PARAMS))"

definition uplink ::
  "date_parser \<Rightarrow> gateway \<Rightarrow> string \<Rightarrow> envelope \<Rightarrow> number \<Rightarrow> bool \<Rightarrow> gateway \<times> uplink_result" where
  "uplink parse gw fromNodeId env now deferOffline =
     (if env_expired parse env now
      then (gw, no_result\<lparr>ur_audits := [\<lparr>au_event = Exp_rejected, au_node_id = fromNodeId, au_reason = Why_expired\<rparr>]\<rparr>)
      else
        (let (gw1, verdict) = authorizeUplink gw fromNodeId env; toNodeId = e_to_node env in
         (case verdict of
            Silent_drop r ev reason \<Rightarrow>
              (gw1, no_result\<lparr>ur_audits := [\<lparr>au_event = ev, au_node_id = fromNodeId, au_reason = Why_acl reason\<rparr>]\<rparr>)
          | Routing_denied rule rcode ev reason \<Rightarrow>
              (gw1, no_result\<lparr>ur_audits := [\<lparr>au_event = ev, au_node_id = fromNodeId, au_reason = Why_acl reason\<rparr>],
                 ur_ack := Some \<lparr>ga_type = Ack_rejected, ga_msg_id = e_msg_id env, ga_reason = Some ''acl_rejected''\<rparr>,
                 ur_routingDenied := Some (rule, rcode, e_msg_id env)\<rparr>)
          | Route team \<Rightarrow>
              if map_of (gw_connections gw1) toNodeId \<noteq> None
              then (gw1, no_result\<lparr>ur_deliveries := [(toNodeId, env)],
                      ur_ack := Some \<lparr>ga_type = Ack_delivered, ga_msg_id = e_msg_id env, ga_reason = None\<rparr>\<rparr>)
              else if deferOffline
              then (gw1, no_result\<lparr>ur_deferred := Some (toNodeId, env)\<rparr>)
              else if map_of (e_body env) ''kind'' = Some (JStr ''aid'')
              then (gw1, no_result\<lparr>ur_ack := Some \<lparr>ga_type = Ack_rejected, ga_msg_id = e_msg_id env,
                                      ga_reason = Some ''offline_not_stored''\<rparr>\<rparr>)
              else (gw1\<lparr>gw_inbox := inbox_offer (gw_inbox gw1) toNodeId env now\<rparr>,
                    no_result\<lparr>ur_queued := [(toNodeId, env)],
                      ur_ack := Some \<lparr>ga_type = Ack_queued, ga_msg_id = e_msg_id env, ga_reason = None\<rparr>\<rparr>))))"

definition queueInbox :: "gateway \<Rightarrow> envelope \<Rightarrow> number \<Rightarrow> gateway" where
  "queueInbox gw env now = gw\<lparr>gw_inbox := inbox_offer (gw_inbox gw) (e_to_node env) env now\<rparr>"

definition isConnected :: "gateway \<Rightarrow> string \<Rightarrow> bool" where
  "isConnected gw nodeId = (map_of (gw_connections gw) nodeId \<noteq> None)"

definition takeInbox ::
  "date_parser \<Rightarrow> gateway \<Rightarrow> string \<Rightarrow> number \<Rightarrow> gateway \<times> (string \<times> envelope) list \<times> audit_record list" where
  "takeInbox parse gw nodeId now =
     (let (ib, deliver, dropped) = inbox_drain (gw_inbox gw) nodeId (\<lambda>e. env_expired parse e now) in
      (gw\<lparr>gw_inbox := ib\<rparr>,
       map (\<lambda>e. (nodeId, ie_envelope e)) deliver,
       map (\<lambda>e. \<lparr>au_event = Exp_rejected, au_node_id = nodeId, au_reason = Why_expired_redelivery\<rparr>) dropped))"

section \<open>The cached lookup is the directory\<close>

definition dir_view :: "gateway \<Rightarrow> string \<Rightarrow> directory_entry option" where
  "dir_view gw n = find (\<lambda>e. de_node_id e = n) (dsn_nodes (gw_directory gw))"

definition cache_ok :: "gateway \<Rightarrow> bool" where
  "cache_ok gw \<longleftrightarrow>
     (\<forall>n c. map_of (gw_dirCache gw) n = Some c \<and> ce_epoch c = dsn_epoch (gw_directory gw) \<longrightarrow> ce_entry c = dir_view gw n)"

lemma lookup_frame [simp]:
  "gw_directory (fst (lookup gw n)) = gw_directory gw" "gw_connections (fst (lookup gw n)) = gw_connections gw"
  "gw_inbox (fst (lookup gw n)) = gw_inbox gw" "gw_grantLookup (fst (lookup gw n)) = gw_grantLookup gw"
  "gw_params (fst (lookup gw n)) = gw_params gw"
  by (simp_all add: lookup_def Let_def split: option.split)

interpretation gwdir: directory lookup dir_view cache_ok
proof
  fix gw n
  assume c: "cache_ok gw"
  show "snd (lookup gw n) = dir_view gw n"
    using c by (auto simp: lookup_def Let_def cache_ok_def dir_view_def split: option.split)
  show "dir_view (fst (lookup gw n)) = dir_view gw"
    by (simp add: dir_view_def fun_eq_iff)
  show "cache_ok (fst (lookup gw n))"
    using c by (auto simp: lookup_def Let_def cache_ok_def dir_view_def split: option.splits if_splits)
qed

section \<open>The gateway as a step function\<close>

datatype gw_event =
    Gv_directory directory_snapshot
  | Gv_grants "grant_lookup option"
  | Gv_connect gateway_connection
  | Gv_disconnect string
  | Gv_admin string node_status
  | Gv_uplink string envelope number bool
  | Gv_queue envelope number
  | Gv_take string number

text \<open>What a step hands to the transport: the node and the envelope of each delivery.\<close>

fun gw_step :: "date_parser \<Rightarrow> gateway \<Rightarrow> gw_event \<Rightarrow> gateway \<times> (string \<times> envelope) list" where
  "gw_step parse gw (Gv_directory snapshot) = (setDirectory gw snapshot, [])"
| "gw_step parse gw (Gv_grants g) = (gw\<lparr>gw_grantLookup := g\<rparr>, [])"
| "gw_step parse gw (Gv_connect conn) = (connect gw conn, [])"
| "gw_step parse gw (Gv_disconnect n) = (disconnect gw n, [])"
| "gw_step parse gw (Gv_admin n st) = (fst (applyAdminEvent gw n st), [])"
| "gw_step parse gw (Gv_uplink f env now dfr) =
     (let (gw1, res) = uplink parse gw f env now dfr in (gw1, ur_deliveries res))"
| "gw_step parse gw (Gv_queue env now) = (queueInbox gw env now, [])"
| "gw_step parse gw (Gv_take n now) = (let (gw1, ds, au) = takeInbox parse gw n now in (gw1, ds))"

definition inbox_ok :: "inbox_store \<Rightarrow> bool" where
  "inbox_ok ib \<longleftrightarrow> 1 \<le> ib_capacity ib \<and> (\<forall>n. length (box_of ib n) \<le> ib_capacity ib)"

definition gw_inv :: "gateway \<Rightarrow> bool" where
  "gw_inv gw \<longleftrightarrow>
     cache_ok gw \<and> inbox_ok (gw_inbox gw) \<and>
     (\<forall>n c. map_of (gw_connections gw) n = Some c \<longrightarrow> gc_nodeId c = n)"

lemma box_of_offer:
  "box_of (inbox_offer ib n env now) n' =
     (if n' = n
      then (if ib_capacity ib \<le> length (box_of ib n) then tl (box_of ib n) else box_of ib n) @
           [\<lparr>ie_msgId = e_msg_id env, ie_envelope = env, ie_enqueuedAt = now\<rparr>]
      else box_of ib n')"
  by (simp add: box_of_def inbox_offer_def Let_def)

lemma inbox_offer_cap [simp]: "ib_capacity (inbox_offer ib n env now) = ib_capacity ib"
  by (simp add: inbox_offer_def Let_def)

lemma inbox_ok_offer: "inbox_ok ib \<Longrightarrow> inbox_ok (inbox_offer ib n env now)"
proof -
  assume "inbox_ok ib"
  then have "1 \<le> ib_capacity ib" "length (box_of ib m) \<le> ib_capacity ib" for m by (simp_all add: inbox_ok_def)
  then show ?thesis by (auto simp: inbox_ok_def box_of_offer not_le Suc_le_eq) (metis Suc_le_eq Suc_pred le_0_eq length_0_conv not_gr_zero order.strict_trans1)
qed

lemma inbox_ok_drain: "inbox_ok ib \<Longrightarrow> inbox_ok (fst (inbox_drain ib n P))"
  by (auto simp: inbox_ok_def inbox_drain_def box_of_def Let_def split: option.split)

lemma evaluate_frame:
  "gw_connections (fst (evaluateUplink lookup gl gw conn head)) = gw_connections gw \<and>
   gw_inbox (fst (evaluateUplink lookup gl gw conn head)) = gw_inbox gw \<and>
   gw_directory (fst (evaluateUplink lookup gl gw conn head)) = gw_directory gw \<and>
   gw_grantLookup (fst (evaluateUplink lookup gl gw conn head)) = gw_grantLookup gw"
  by (simp add: evaluateUplink_def Let_def case_prod_beta split: option.split)

lemma authorize_frame [simp]:
  "gw_connections (fst (authorizeUplink gw f env)) = gw_connections gw"
  "gw_inbox (fst (authorizeUplink gw f env)) = gw_inbox gw"
  "gw_directory (fst (authorizeUplink gw f env)) = gw_directory gw"
  "gw_grantLookup (fst (authorizeUplink gw f env)) = gw_grantLookup gw"
  by (simp_all add: authorizeUplink_def evaluate_frame split: option.split)

lemma authorize_cache: "cache_ok gw \<Longrightarrow> cache_ok (fst (authorizeUplink gw f env))"
  by (simp add: authorizeUplink_def gwdir.evaluate_state split: option.split)

lemma cache_ok_frame:
  "gw_directory gw' = gw_directory gw \<Longrightarrow> gw_dirCache gw' = gw_dirCache gw \<Longrightarrow> cache_ok gw' = cache_ok gw"
  by (simp add: cache_ok_def dir_view_def)

lemma cache_ok_inbox [simp]: "cache_ok (gw\<lparr>gw_inbox := x\<rparr>) = cache_ok gw"
  by (rule cache_ok_frame) simp_all

lemma uplink_state:
  "fst (uplink parse gw f env now dfr) \<in>
     {gw, fst (authorizeUplink gw f env),
      (fst (authorizeUplink gw f env))\<lparr>gw_inbox := inbox_offer (gw_inbox gw) (e_to_node env) env now\<rparr>}"
  by (simp add: uplink_def Let_def case_prod_beta split: acl_verdict.split)

lemma gw_inv_uplink: "gw_inv gw \<Longrightarrow> gw_inv (fst (uplink parse gw f env now dfr))"
proof -
  assume inv: "gw_inv gw"
  let ?a = "fst (authorizeUplink gw f env)"
  have "gw_inv ?a" using inv by (simp add: gw_inv_def authorize_cache)
  moreover have "gw_inv (?a\<lparr>gw_inbox := inbox_offer (gw_inbox gw) (e_to_node env) env now\<rparr>)"
    using calculation inv by (simp add: gw_inv_def inbox_ok_offer)
  ultimately show ?thesis using uplink_state [of parse gw f env now dfr] inv by auto
qed

lemma gw_inv_step: "gw_inv gw \<Longrightarrow> gw_inv (fst (gw_step parse gw e))"
proof (cases e)
  case (Gv_uplink f env now dfr)
  assume "gw_inv gw"
  with Gv_uplink show ?thesis by (simp add: case_prod_beta Let_def gw_inv_uplink)
next
  case (Gv_take n now)
  assume inv: "gw_inv gw"
  have "inbox_ok (fst (inbox_drain (gw_inbox gw) n (\<lambda>e. env_expired parse e now)))"
    using inv by (simp add: gw_inv_def inbox_ok_drain)
  with inv Gv_take show ?thesis
    by (simp add: takeInbox_def case_prod_beta Let_def gw_inv_def)
qed (auto simp: gw_inv_def setDirectory_def cache_ok_def dir_view_def connect_def disconnect_def applyAdminEvent_def
    queueInbox_def inbox_ok_offer Let_def split: option.splits)

interpretation gw: invariant_machine "gw_step parse" gw_inv for parse
  by unfold_locales (rule gw_inv_step)

lemma gw_epoch_step: "dsn_epoch (gw_directory gw) \<le> dsn_epoch (gw_directory (fst (gw_step parse gw e)))"
proof (cases e)
  case (Gv_uplink f env now dfr)
  then show ?thesis using uplink_state [of parse gw f env now dfr] by (auto simp: case_prod_beta Let_def)
qed (auto simp: setDirectory_def connect_def disconnect_def applyAdminEvent_def queueInbox_def takeInbox_def
    case_prod_beta Let_def split: option.splits)

interpretation gw_up: monotone_machine "gw_step parse" "\<lambda>_ _. True" "\<lambda>gw. dsn_epoch (gw_directory gw)" for parse
  by unfold_locales (rule gw_epoch_step)

lemma gw_inv_new: "gw_inv (newGatewayCore p cap)"
  by (simp add: gw_inv_def newGatewayCore_def cache_ok_def inbox_ok_def newInboxStore_def box_of_def)

section \<open>Properties\<close>

definition authorized :: "gateway \<Rightarrow> string \<Rightarrow> envelope \<Rightarrow> bool" where
  "authorized gw f env \<longleftrightarrow>
     (\<exists>conn team. map_of (gw_connections gw) f = Some conn \<and>
        may_route (dir_view gw) (gw_grantLookup gw) conn env team)"

lemma authorize_route:
  assumes "gw_inv gw"
  shows "(\<exists>team. snd (authorizeUplink gw f env) = Route team) \<longleftrightarrow> authorized gw f env"
  using assms gwdir.route_iff [of gw "gw_grantLookup gw" _ env]
  by (auto simp: authorizeUplink_def authorized_def gw_inv_def split: option.splits)

text \<open>
  C10: the gateway routes exactly the authorised traffic. After any sequence of events, a message that is
  expired or not authorised by the current directory and grants reaches no connection, no inbox and no
  other gateway; an authorised one is delivered when its receiver is connected, handed to the cluster
  when the caller defers, refused when it is an aid request for an offline node, and stored otherwise.
\<close>

theorem uplink_contract:
  assumes "gw = fst (run (gw_step parse) (newGatewayCore p cap) es)"
    and "uplink parse gw f env now dfr = (gw', res)"
  shows "(env_expired parse env now \<or> \<not> authorized gw f env \<longrightarrow>
      ur_deliveries res = [] \<and> ur_queued res = [] \<and> ur_deferred res = None \<and> gw_inbox gw' = gw_inbox gw) \<and>
    (\<not> env_expired parse env now \<and> authorized gw f env \<longrightarrow>
      (if isConnected gw (e_to_node env) then ur_deliveries res = [(e_to_node env, env)] \<and> gw_inbox gw' = gw_inbox gw
       else if dfr then ur_deferred res = Some (e_to_node env, env) \<and> gw_inbox gw' = gw_inbox gw
       else if map_of (e_body env) ''kind'' = Some (JStr ''aid'')
         then (\<exists>a. ur_ack res = Some a \<and> ga_type a = Ack_rejected) \<and> gw_inbox gw' = gw_inbox gw
       else ur_queued res = [(e_to_node env, env)] \<and> gw_inbox gw' = inbox_offer (gw_inbox gw) (e_to_node env) env now))"
proof -
  have inv: "gw_inv gw" unfolding assms(1) by (rule gw.inv_run [OF gw_inv_new])
  have res: "res = snd (uplink parse gw f env now dfr)" "gw' = fst (uplink parse gw f env now dfr)"
    using assms(2) by simp_all
  note rt = authorize_route [OF inv, of f env]
  show ?thesis
  proof (cases "env_expired parse env now")
    case True
    then show ?thesis by (simp add: res uplink_def no_result_def)
  next
    case False
    then show ?thesis
      using rt by (cases "snd (authorizeUplink gw f env)")
        (auto simp: res uplink_def no_result_def case_prod_beta Let_def isConnected_def)
  qed
qed

definition demo_gateway_events :: "gw_event list" where
  "demo_gateway_events =
     [Gv_directory \<lparr>dsn_epoch = 3, dsn_nodes =
        [\<lparr>de_node_id = ''a'', de_team_id = ''t'', de_status = Active, de_currentEpoch = 1\<rparr>,
         \<lparr>de_node_id = ''b'', de_team_id = ''t'', de_status = Active, de_currentEpoch = 1\<rparr>]\<rparr>,
      Gv_connect \<lparr>gc_connId = ''c1'', gc_nodeId = ''a'', gc_teamId = ''t'', gc_connectedAt = 0, gc_generation = 1\<rparr>]"

definition demo_gateway :: gateway where
  "demo_gateway = fst (run (gw_step (\<lambda>_. Some 0)) (newGatewayCore None None) demo_gateway_events)"

definition demo_msg :: envelope where
  "demo_msg = \<lparr>e_type = ''task.offer'', e_msg_id = ''m'', e_exp = None, e_from_node = ''a'', e_from_team = None,
     e_key_epoch = 1, e_to_node = ''b'', e_to_team = None, e_reply_to = None,
     e_trace = \<lparr>trace_id = ''x'', parent_span = None, origin_node = ''a''\<rparr>, e_hops = Some 0, e_task_id = Some ''k'',
     e_attempt = Some 1, e_body = [(''kind'', JStr ''project'')]\<rparr>"

lemma demo_gateway_sel:
  "gw_connections demo_gateway = [(''a'', \<lparr>gc_connId = ''c1'', gc_nodeId = ''a'', gc_teamId = ''t'', gc_connectedAt = 0, gc_generation = 1\<rparr>)]"
  "dir_view demo_gateway ''a'' = Some \<lparr>de_node_id = ''a'', de_team_id = ''t'', de_status = Active, de_currentEpoch = 1\<rparr>"
  "dir_view demo_gateway ''b'' = Some \<lparr>de_node_id = ''b'', de_team_id = ''t'', de_status = Active, de_currentEpoch = 1\<rparr>"
  by (simp_all add: demo_gateway_def demo_gateway_events_def setDirectory_def newGatewayCore_def connect_def dir_view_def)

lemma demo_authorized: "authorized demo_gateway ''a'' demo_msg" "\<not> env_expired (\<lambda>_. Some 0) demo_msg 5"
  "\<not> isConnected demo_gateway ''b''"
  by (simp_all add: authorized_def may_route_def pinned_def demo_gateway_sel demo_msg_def env_expired_def isConnected_def)

theorem uplink_contract_witness:
  "ur_queued (snd (uplink (\<lambda>_. Some 0) demo_gateway ''a'' demo_msg 5 False)) = [(''b'', demo_msg)]"
  using uplink_contract [OF demo_gateway_def surjective_pairing, where f = "''a''" and env = demo_msg and now = 5 and dfr = False] demo_authorized
  by (simp add: demo_msg_def)

fun is_directory_event :: "gw_event \<Rightarrow> bool" where
  "is_directory_event (Gv_directory _) = True"
| "is_directory_event _ = False"

lemma directory_frame:
  "\<not> is_directory_event e \<Longrightarrow> gw_directory (fst (gw_step parse gw e)) = gw_directory gw"
proof (cases e)
  case (Gv_uplink f env now dfr)
  then show ?thesis using uplink_state [of parse gw f env now dfr] by (auto simp: case_prod_beta Let_def)
qed (simp_all add: connect_def disconnect_def applyAdminEvent_def queueInbox_def takeInbox_def
    case_prod_beta Let_def split: option.split)

lemma directory_frame_run:
  "\<forall>e \<in> set es. \<not> is_directory_event e \<Longrightarrow> gw_directory (fst (run (gw_step parse) gw es)) = gw_directory gw"
  by (induction es arbitrary: gw) (simp_all del: run.simps(2) gw_step.simps add: directory_frame)

text \<open>
  a directory change takes effect at once. After a snapshot that is not older than the current one and
  in which a node is missing or not active, nothing that node sends is routed, whatever was cached or
  connected before and whatever happens until the next snapshot.
\<close>

theorem directory_change_immediate:
  assumes "gw_inv gw" "dsn_epoch (gw_directory gw) \<le> dsn_epoch snap"
    and "\<forall>sn. find (\<lambda>e. de_node_id e = n) (dsn_nodes snap) = Some sn \<longrightarrow> de_status sn \<noteq> Active"
    and "\<forall>e \<in> set es. \<not> is_directory_event e"
    and "gw1 = fst (run (gw_step parse) (setDirectory gw snap) es)"
  shows "ur_deliveries (snd (uplink parse gw1 n env now dfr)) = [] \<and>
    ur_queued (snd (uplink parse gw1 n env now dfr)) = [] \<and> ur_deferred (snd (uplink parse gw1 n env now dfr)) = None"
proof -
  have set: "setDirectory gw snap = fst (gw_step parse gw (Gv_directory snap))" by simp
  have inv: "gw_inv gw1"
    unfolding assms(5) set by (intro gw.inv_run gw.inv_step assms(1))
  have "gw_directory gw1 = snap"
    using directory_frame_run [OF assms(4)] assms(2,5) by (simp add: setDirectory_def)
  then have "\<not> authorized gw1 n env"
    using assms(3) inv by (auto simp: authorized_def may_route_def dir_view_def gw_inv_def)
  with authorize_route [OF inv] have "\<nexists>team. snd (authorizeUplink gw1 n env) = Route team" by simp
  then show ?thesis
    by (auto simp: uplink_def no_result_def case_prod_beta Let_def split: acl_verdict.split)
qed

definition demo_snapshot :: directory_snapshot where
  "demo_snapshot = \<lparr>dsn_epoch = 4, dsn_nodes =
     [\<lparr>de_node_id = ''a'', de_team_id = ''t'', de_status = Revoked, de_currentEpoch = 1\<rparr>]\<rparr>"

lemma demo_change:
  "gw_inv demo_gateway" "dsn_epoch (gw_directory demo_gateway) \<le> dsn_epoch demo_snapshot"
  "\<forall>sn. find (\<lambda>e. de_node_id e = ''a'') (dsn_nodes demo_snapshot) = Some sn \<longrightarrow> de_status sn \<noteq> Active"
  "\<forall>e \<in> set [Gv_queue demo_msg 3]. \<not> is_directory_event e"
  subgoal unfolding demo_gateway_def by (rule gw.inv_run [OF gw_inv_new])
  by (simp_all add: demo_gateway_def demo_gateway_events_def setDirectory_def newGatewayCore_def connect_def demo_snapshot_def)

theorem directory_change_immediate_witness:
  "ur_queued (snd (uplink (\<lambda>_. Some 0)
     (fst (run (gw_step (\<lambda>_. Some 0)) (setDirectory demo_gateway demo_snapshot) [Gv_queue demo_msg 3])) ''a'' demo_msg 5 False)) = []"
  using directory_change_immediate [OF demo_change refl] by blast

definition newest :: "nat \<Rightarrow> 'a list \<Rightarrow> 'a list" where
  "newest k xs = drop (length xs - k) xs"

definition entry_of :: "envelope \<times> number \<Rightarrow> inbox_entry" where
  "entry_of x = \<lparr>ie_msgId = e_msg_id (fst x), ie_envelope = fst x, ie_enqueuedAt = snd x\<rparr>"

lemma newest_snoc:
  assumes "1 \<le> k"
  shows "newest k (xs @ [x]) = (let b = newest k xs in (if k \<le> length b then tl b else b)) @ [x]"
proof (cases "k \<le> length xs")
  case True
  then have "newest k (xs @ [x]) = drop (Suc (length xs - k)) xs @ [x]"
    using assms by (simp add: newest_def Suc_diff_le)
  with True show ?thesis by (simp add: newest_def drop_Suc tl_drop)
next
  case False
  then have "length xs + 1 - k = 0" by simp
  with False show ?thesis by (simp add: newest_def Let_def)
qed

lemma box_after_offers:
  assumes "inbox_ok ib"
  shows "box_of (foldl (\<lambda>ib x. inbox_offer ib n (fst x) (snd x)) ib xs) n =
      newest (ib_capacity ib) (box_of ib n @ map entry_of xs) \<and>
    ib_capacity (foldl (\<lambda>ib x. inbox_offer ib n (fst x) (snd x)) ib xs) = ib_capacity ib"
proof (induction xs rule: rev_induct)
  case Nil
  with assms show ?case by (simp add: newest_def inbox_ok_def)
next
  case (snoc x xs)
  have c: "1 \<le> ib_capacity ib" using assms by (simp add: inbox_ok_def)
  have "box_of ib n @ map entry_of (xs @ [x]) = (box_of ib n @ map entry_of xs) @ [entry_of x]" by simp
  with snoc newest_snoc [OF c, of "box_of ib n @ map entry_of xs" "entry_of x"] show ?case
    by (simp add: box_of_offer entry_of_def [symmetric] Let_def)
qed

lemma box_of_load:
  "box_of (inbox_load (Some f) \<lparr>ib_boxes = [], ib_capacity = c\<rparr>) n =
     (case map_of (rev (filter (\<lambda>(n, es). 0 < length es) f)) n of None \<Rightarrow> [] | Some b \<Rightarrow> b)"
proof -
  have "map_of (foldl (\<lambda>m (n, es). if 0 < length es then AList.update n es m else m) m0 f) n =
      (map_of m0 ++ map_of (rev (filter (\<lambda>(n, es). 0 < length es) f))) n" for m0
  proof (induction f arbitrary: m0)
    case Nil
    then show ?case by simp
  next
    case (Cons x f)
    obtain k es where x: "x = (k, es)" by (cases x)
    show ?case
    proof (cases es)
      case Nil
      with Cons [of m0] x show ?thesis by simp
    next
      case (Cons e es')
      with Cons.IH [of "AList.update k es m0"] x show ?thesis
        by (simp add: map_add_def split: option.split)
    qed
  qed
  from this [of "[]"] show ?thesis by (simp add: box_of_def inbox_load_def)
qed

lemma restart_keeps_boxes:
  assumes "wf_map (ib_boxes ib)"
  shows "box_of (inbox_load (Some (inbox_persist ib)) \<lparr>ib_boxes = [], ib_capacity = c\<rparr>) n = box_of ib n"
proof -
  let ?f = "inbox_persist ib"
  have wf: "wf_map ?f" unfolding inbox_persist_def using assms by simp
  have "filter (\<lambda>(n, es). 0 < length es) ?f = ?f" by (simp add: inbox_persist_def)
  moreover have "map_of (rev ?f) n = map_of ?f n"
    using wf map_of_inject_set [of "rev ?f" ?f] by (simp add: wf_map_def rev_map [symmetric])
  moreover have "map_of ?f n = (case map_of (ib_boxes ib) n of None \<Rightarrow> None | Some es \<Rightarrow> if 0 < length es then Some es else None)"
    unfolding inbox_persist_def using map_of_filter_wf [OF assms, of "\<lambda>n es. 0 < length es" n] by simp
  ultimately show ?thesis
    unfolding box_of_load by (auto simp: box_of_def split: option.split)
qed

text \<open>
  the inbox keeps the newest messages in order. After any sequence of offers to a node its box is the
  suffix of all messages of the length of the capacity, oldest first; draining hands over exactly the
  unexpired ones in that order and empties the box; and a restart from the file keeps every box.
\<close>

theorem inbox_delivers_newest:
  assumes "inbox_ok ib" "wf_map (ib_boxes ib)"
    and "ib1 = foldl (\<lambda>ib x. inbox_offer ib n (fst x) (snd x)) ib xs"
    and "ib2 = inbox_load (Some (inbox_persist ib1)) (newInboxStore (ib_capacity ib))"
    and "inbox_drain ib2 n isExpired = (ib3, deliver, dropped)"
  shows "deliver = filter (\<lambda>e. \<not> isExpired (ie_envelope e)) (newest (ib_capacity ib) (box_of ib n @ map entry_of xs)) \<and>
    dropped = filter (\<lambda>e. isExpired (ie_envelope e)) (newest (ib_capacity ib) (box_of ib n @ map entry_of xs)) \<and>
    box_of ib3 n = [] \<and> length deliver + length dropped \<le> ib_capacity ib"
proof -
  have "wf_map (ib_boxes (foldl (\<lambda>ib x. inbox_offer ib n (fst x) (snd x)) ib xs))"
    using assms(2) by (induction xs rule: rev_induct) (simp_all add: inbox_offer_def Let_def)
  with assms(3,4) have b: "box_of ib2 n = newest (ib_capacity ib) (box_of ib n @ map entry_of xs)"
    using box_after_offers [OF assms(1), of n xs] by (simp add: newInboxStore_def restart_keeps_boxes)
  have d: "deliver = filter (\<lambda>e. \<not> isExpired (ie_envelope e)) (box_of ib2 n)"
    "dropped = filter (\<lambda>e. isExpired (ie_envelope e)) (box_of ib2 n)" "box_of ib3 n = []"
    using assms(5) by (auto simp: inbox_drain_def Let_def box_of_def)
  have "length deliver + length dropped = length (box_of ib2 n)"
    using d sum_length_filter_compl [of "\<lambda>e. isExpired (ie_envelope e)" "box_of ib2 n"] by simp
  moreover have "length (box_of ib2 n) \<le> ib_capacity ib" unfolding b by (simp add: newest_def)
  ultimately show ?thesis using d b by simp
qed

lemma demo_inbox: "inbox_ok (newInboxStore 2)" "wf_map (ib_boxes (newInboxStore 2))"
  by (simp_all add: inbox_ok_def newInboxStore_def box_of_def)

theorem inbox_delivers_newest_witness:
  "\<exists>ib3 deliver dropped.
     inbox_drain (inbox_load (Some (inbox_persist (foldl (\<lambda>ib x. inbox_offer ib ''b'' (fst x) (snd x)) (newInboxStore 2)
       [(demo_msg, 1), (demo_msg, 2), (demo_msg, 3)]))) (newInboxStore (ib_capacity (newInboxStore 2)))) ''b'' (\<lambda>_. False)
       = (ib3, deliver, dropped) \<and>
     deliver = filter (\<lambda>e. \<not> False) (newest (ib_capacity (newInboxStore 2))
       (box_of (newInboxStore 2) ''b'' @ map entry_of [(demo_msg, 1), (demo_msg, 2), (demo_msg, 3)]))"
proof -
  obtain ib3 deliver dropped where d:
    "inbox_drain (inbox_load (Some (inbox_persist (foldl (\<lambda>ib x. inbox_offer ib ''b'' (fst x) (snd x)) (newInboxStore 2)
       [(demo_msg, 1), (demo_msg, 2), (demo_msg, 3)]))) (newInboxStore (ib_capacity (newInboxStore 2)))) ''b'' (\<lambda>_. False)
       = (ib3, deliver, dropped)" using prod_cases3 by blast
  from inbox_delivers_newest [OF demo_inbox refl refl d] d show ?thesis by blast
qed

end
