(* ===== verification/Gateway_Cluster.thy ===== *)
theory Gateway_Cluster
  imports Gateway_Core "HOL-Library.Word"
begin

unbundle bit_operations_syntax

text \<open>
  Routing between gateways of one cluster, \<open>packages/gateway/src/cluster.ts\<close>. A member is a gateway core with
  the two callbacks of its transport: \<open>has\<close>, kept as a field, and \<open>deliver\<close>, whose calls are the emitted
  deliveries (member index, node, envelope). The shard hash is FNV-1a on 32-bit words. \<open>routeAsync\<close> awaits the
  bus, so the members after the await are a second argument: nothing is assumed about what happened in
  between.
\<close>

record cluster_member =
  cm_name :: string
  cm_core :: gateway
  cm_has :: "string \<Rightarrow> bool"

type_synonym members = "cluster_member list"

type_synonym delivery = "nat \<times> string \<times> envelope"

datatype route_outcome = Ro_delivered | Ro_queued | Ro_unknown

definition cluster_register :: "members \<Rightarrow> cluster_member \<Rightarrow> members \<times> nat" where
  "cluster_register ms m = (ms @ [m], length (ms @ [m]) - 1)"

definition fnv_step :: "32 word \<Rightarrow> char \<Rightarrow> 32 word" where
  "fnv_step h c = (h XOR of_nat (of_char c)) * 0x01000193"

definition fnv1a :: "string \<Rightarrow> 32 word" where
  "fnv1a s = foldl fnv_step 0x811c9dc5 s"

definition shardOf :: "members \<Rightarrow> string \<Rightarrow> nat option" where
  "shardOf ms nodeId = (if length ms = 0 then None else Some (unat (fnv1a nodeId) mod length ms))"

text \<open>The first member that holds the connection.\<close>

fun holder_from :: "nat \<Rightarrow> members \<Rightarrow> string \<Rightarrow> nat option" where
  "holder_from i [] nodeId = None"
| "holder_from i (m # ms) nodeId = (if cm_has m nodeId then Some i else holder_from (i + 1) ms nodeId)"

definition put_core :: "members \<Rightarrow> nat \<Rightarrow> gateway \<Rightarrow> members" where
  "put_core ms i gw = ms[i := (ms ! i)\<lparr>cm_core := gw\<rparr>]"

definition route :: "members \<Rightarrow> envelope \<Rightarrow> string \<Rightarrow> number \<Rightarrow> members \<times> delivery list \<times> route_outcome" where
  "route ms env toNodeId now =
     (if length ms = 0 then (ms, [], Ro_unknown)
      else (case holder_from 0 ms toNodeId of
        Some i \<Rightarrow> (ms, [(i, toNodeId, env)], Ro_delivered)
      | None \<Rightarrow>
        (case shardOf ms toNodeId of
           None \<Rightarrow> (ms, [], Ro_unknown)
         | Some h \<Rightarrow> (put_core ms h (queueInbox (cm_core (ms ! h)) env now), [], Ro_queued))))"

text \<open>
  \<open>ms\<close> is the cluster when the call starts, \<open>bus\<close> the answer of the bus (\<open>None\<close>: no bus or nobody took over), and
  \<open>ms'\<close> the cluster when the await returns.
\<close>

definition routeAsync ::
  "date_parser \<Rightarrow> members \<Rightarrow> route_outcome option \<Rightarrow> members \<Rightarrow> envelope \<Rightarrow> string \<Rightarrow> number
     \<Rightarrow> members \<times> delivery list \<times> route_outcome" where
  "routeAsync parse ms bus ms' env toNodeId now =
     (case holder_from 0 ms toNodeId of
        Some i \<Rightarrow> (ms, [(i, toNodeId, env)], Ro_delivered)
      | None \<Rightarrow>
        (case bus of
           Some r \<Rightarrow> (ms', [], r)
         | None \<Rightarrow>
           (case shardOf ms' toNodeId of
              None \<Rightarrow> (ms', [], Ro_unknown)
            | Some h \<Rightarrow>
              (let gw1 = queueInbox (cm_core (ms' ! h)) env now in
               if cm_has (ms' ! h) toNodeId
               then (let (gw2, ds, au) = takeInbox parse gw1 toNodeId now
                     in (put_core ms' h gw2, map (\<lambda>(n, e). (h, n, e)) ds, Ro_queued))
               else (put_core ms' h gw1, [], Ro_queued)))))"

section \<open>Lemmas\<close>

lemma shardOf_lt: "shardOf ms n = Some h \<Longrightarrow> h < length ms"
  by (auto simp: shardOf_def split: if_splits)

lemma shardOf_stable: "length ms = length ms' \<Longrightarrow> shardOf ms n = shardOf ms' n"
  by (simp add: shardOf_def)

lemma holder_from_Some: "holder_from i ms n = Some j \<Longrightarrow> i \<le> j \<and> j < i + length ms \<and> cm_has (ms ! (j - i)) n"
proof (induction ms arbitrary: i)
  case Nil
  then show ?case by simp
next
  case (Cons m ms)
  show ?case
  proof (cases "cm_has m n")
    case True
    with Cons.prems show ?thesis by simp
  next
    case False
    with Cons.prems Cons.IH [of "i + 1"] have "i + 1 \<le> j \<and> j < i + 1 + length ms \<and> cm_has (ms ! (j - (i + 1))) n" by simp
    moreover from this have "j - i = Suc (j - (i + 1))" by (auto simp: Suc_diff_Suc)
    ultimately show ?thesis by simp
  qed
qed

lemma holder_from_None: "holder_from i ms n = None \<longleftrightarrow> (\<forall>m \<in> set ms. \<not> cm_has m n)"
  by (induction ms arbitrary: i) auto

lemma put_core_same [simp]:
  "length (put_core ms h gw) = length ms" "h < length ms \<Longrightarrow> cm_core (put_core ms h gw ! h) = gw"
  by (simp_all add: put_core_def)

lemma queue_last:
  "last (box_of (gw_inbox (queueInbox gw env now)) (e_to_node env)) =
     \<lparr>ie_msgId = e_msg_id env, ie_envelope = env, ie_enqueuedAt = now\<rparr>"
  "box_of (gw_inbox (queueInbox gw env now)) (e_to_node env) \<noteq> []"
  by (simp_all add: queueInbox_def box_of_offer)

section \<open>Properties\<close>

text \<open>
  cluster routing loses nothing. With at least one member, an envelope is either handed to a member that
  holds the receiver's connection, or it is the newest entry of the receiver's box at its home shard, the
  shard that depends only on the node and the number of members; and if the receiver connected to the
  home gateway while the bus was asked, an unexpired envelope is delivered at once and the box is empty.
\<close>

theorem cluster_routes:
  assumes "ms \<noteq> []" "length ms' = length ms" "toNode = e_to_node env"
    and "routeAsync parse ms None ms' env toNode now = (ms2, ds, oc)"
  shows "(oc = Ro_delivered \<and> (\<exists>i < length ms. ds = [(i, toNode, env)] \<and> cm_has (ms ! i) toNode)) \<or>
    (oc = Ro_queued \<and> (\<exists>h < length ms. shardOf ms toNode = Some h \<and>
       (if cm_has (ms' ! h) toNode
        then box_of (gw_inbox (cm_core (ms2 ! h))) toNode = [] \<and>
             (\<not> env_expired parse env now \<longrightarrow> (h, toNode, env) \<in> set ds)
        else box_of (gw_inbox (cm_core (ms2 ! h))) toNode \<noteq> [] \<and>
             ie_envelope (last (box_of (gw_inbox (cm_core (ms2 ! h))) toNode)) = env)))"
proof (cases "holder_from 0 ms toNode")
  case (Some i)
  with holder_from_Some [OF Some] assms(4) show ?thesis by (auto simp: routeAsync_def)
next
  case None
  obtain h where h: "shardOf ms toNode = Some h" using assms(1) by (simp add: shardOf_def)
  then have h': "shardOf ms' toNode = Some h" "h < length ms" "h < length ms'"
    using shardOf_stable [OF assms(2)] shardOf_lt [OF h] assms(2) by simp_all
  let ?gw = "queueInbox (cm_core (ms' ! h)) env now"
  show ?thesis
  proof (cases "cm_has (ms' ! h) toNode")
    case False
    with None h' assms(4) have "oc = Ro_queued" "ms2 = put_core ms' h ?gw"
      by (simp_all add: routeAsync_def Let_def)
    with False h h' queue_last [of "cm_core (ms' ! h)" env now] assms(3) show ?thesis by auto
  next
    case True
    let ?e = "\<lparr>ie_msgId = e_msg_id env, ie_envelope = env, ie_enqueuedAt = now\<rparr>"
    have q: "oc = Ro_queued" "ms2 = put_core ms' h (fst (takeInbox parse ?gw toNode now))"
      "ds = map (\<lambda>(n, e). (h, n, e)) (fst (snd (takeInbox parse ?gw toNode now)))"
      using True None h' assms(4) by (simp_all add: routeAsync_def Let_def case_prod_beta)
    have "?e \<in> set (box_of (gw_inbox ?gw) toNode)"
      using queue_last [of "cm_core (ms' ! h)" env now] assms(3) last_in_set by metis
    then have "\<not> env_expired parse env now \<Longrightarrow> (h, toNode, env) \<in> set ds"
      unfolding q(3) by (force simp: takeInbox_def inbox_drain_def Let_def)
    moreover have "box_of (gw_inbox (fst (takeInbox parse ?gw toNode now))) toNode = []"
      by (simp add: takeInbox_def inbox_drain_def box_of_def Let_def)
    ultimately show ?thesis using True h h' q by auto
  qed
qed

definition demo_members :: members where
  "demo_members = [\<lparr>cm_name = ''g0'', cm_core = demo_gateway, cm_has = (\<lambda>_. False)\<rparr>]"

lemma demo_members_ok: "demo_members \<noteq> []" "length demo_members = length demo_members" "''b'' = e_to_node demo_msg"
  by (simp_all add: demo_members_def demo_msg_def)

theorem cluster_routes_witness:
  "\<exists>ms2 ds oc. routeAsync (\<lambda>_. Some 0) demo_members None demo_members demo_msg ''b'' 5 = (ms2, ds, oc) \<and> oc = Ro_queued"
proof -
  obtain ms2 ds oc where r: "routeAsync (\<lambda>_. Some 0) demo_members None demo_members demo_msg ''b'' 5 = (ms2, ds, oc)"
    using prod_cases3 by blast
  have "\<not> (\<exists>i < length demo_members. cm_has (demo_members ! i) ''b'')" by (simp add: demo_members_def)
  with cluster_routes [OF demo_members_ok r] r show ?thesis by blast
qed

end
