(* ===== verification/Gateway_Claim.thy ===== *)
theory Gateway_Claim
  imports Core_Params
begin

text \<open>
  Connection ownership in a cluster: the claim registry port of \<open>packages/gateway/src/claim.ts\<close>, its in-memory
  implementation \<open>LocalClaimRegistry\<close>, and the SQLite implementation of \<open>claim-store.ts\<close>. The port is the
  locale \<open>claim_registry\<close>: what every operation does to the current claims and to the high-water mark of
  generations. Inside it the fencing properties are proved once; both implementations interpret it, and
  the SQLite store is shown to refine the in-memory one step by step.

  A table is a list of rows in rowid order, keyed by its primary key: an upsert overwrites in place, an
  insert appends. \<open>store.transaction\<close> commits the returned state or, on a raise (\<open>Inl\<close>), leaves the state as it
  was. A violated CHECK constraint is a raise.
\<close>

section \<open>Claims and their operations\<close>

record claim =
  cl_nodeId :: string
  cl_authorityId :: string
  cl_generation :: nat
  cl_leaseExpiresAt :: number

datatype claim_op =
    Cl_claim string string number
  | Cl_release string string nat
  | Cl_renew string string nat number
  | Cl_reap number

datatype claim_out =
    Out_claim claim
  | Out_bool bool
  | Out_ids "string list"

definition DEFAULT_LEASE_TTL_MS :: number where
  "DEFAULT_LEASE_TTL_MS = 30000"

datatype claim_error = Range_error number | Type_error | Database_corrupt | Constraint_failed

definition resolveLeaseTtlMs :: "number option \<Rightarrow> claim_error + number" where
  "resolveLeaseTtlMs v =
     (let ttl = (case v of None \<Rightarrow> DEFAULT_LEASE_TTL_MS | Some t \<Rightarrow> t) in
      if \<not> isSafeInteger ttl \<or> ttl \<le> 0 then Inl (Range_error ttl) else Inr ttl)"

text \<open>Whether the current claim is the one named by an authority and a generation.\<close>

definition holds :: "claim option \<Rightarrow> string \<Rightarrow> nat \<Rightarrow> bool" where
  "holds c a g = (case c of None \<Rightarrow> False | Some cl \<Rightarrow> cl_authorityId cl = a \<and> cl_generation cl = g)"

section \<open>The port\<close>

locale claim_registry =
  fixes step :: "'s \<Rightarrow> claim_op \<Rightarrow> 's \<times> claim_out list"
    and look :: "'s \<Rightarrow> string \<Rightarrow> claim option"
    and high :: "'s \<Rightarrow> string \<Rightarrow> nat"
    and good :: "'s \<Rightarrow> claim_op \<Rightarrow> bool"
    and cinv :: "'s \<Rightarrow> bool"
  assumes claim_law: "cinv s \<Longrightarrow> good s (Cl_claim n a now) \<Longrightarrow>
      \<exists>c. snd (step s (Cl_claim n a now)) = [Out_claim c] \<and> cl_nodeId c = n \<and> cl_authorityId c = a \<and>
        cl_generation c = high s n + 1 \<and>
        high (fst (step s (Cl_claim n a now))) = (high s)(n := high s n + 1) \<and>
        look (fst (step s (Cl_claim n a now))) = (look s)(n := Some c)"
    and release_law: "cinv s \<Longrightarrow> good s (Cl_release n a g) \<Longrightarrow>
      snd (step s (Cl_release n a g)) = [Out_bool (holds (look s n) a g)] \<and>
      high (fst (step s (Cl_release n a g))) = high s \<and>
      look (fst (step s (Cl_release n a g))) = (if holds (look s n) a g then (look s)(n := None) else look s)"
    and renew_law: "cinv s \<Longrightarrow> good s (Cl_renew n a g now) \<Longrightarrow>
      snd (step s (Cl_renew n a g now)) = [Out_bool (holds (look s n) a g)] \<and>
      high (fst (step s (Cl_renew n a g now))) = high s \<and>
      (\<exists>l. look (fst (step s (Cl_renew n a g now))) =
         (if holds (look s n) a g then (look s)(n := map_option (\<lambda>c. c\<lparr>cl_leaseExpiresAt := l\<rparr>) (look s n)) else look s))"
    and reap_law: "cinv s \<Longrightarrow> good s (Cl_reap now) \<Longrightarrow>
      high (fst (step s (Cl_reap now))) = high s \<and> (\<exists>ids. snd (step s (Cl_reap now)) = [Out_ids ids]) \<and>
      look (fst (step s (Cl_reap now))) =
        (\<lambda>n. case look s n of None \<Rightarrow> None | Some c \<Rightarrow> if cl_leaseExpiresAt c \<le> now then None else Some c)"
    and current_generation: "cinv s \<Longrightarrow> look s n = Some c \<Longrightarrow> cl_generation c = high s n"
    and cinv_step: "cinv s \<Longrightarrow> good s e \<Longrightarrow> cinv (fst (step s e))"

text \<open>The generations a run has issued for a node.\<close>

fun issued :: "string \<Rightarrow> claim_out list \<Rightarrow> nat list" where
  "issued n [] = []"
| "issued n (Out_claim c # tr) = (if cl_nodeId c = n then [cl_generation c] else []) @ issued n tr"
| "issued n (_ # tr) = issued n tr"

lemma issued_append [simp]: "issued n (tr @ tr') = issued n tr @ issued n tr'"
proof (induction tr)
  case Nil
  then show ?case by simp
next
  case (Cons x tr)
  then show ?case by (cases x) simp_all
qed

context claim_registry
begin

lemma step_issues:
  assumes "cinv s" "good s e"
  shows "high s n \<le> high (fst (step s e)) n \<and>
    issued n (snd (step s e)) = [Suc (high s n)..<Suc (high (fst (step s e)) n)]"
proof (cases e)
  case (Cl_claim m a now)
  then show ?thesis using claim_law [of s m a now] assms by (auto split: if_splits)
next
  case (Cl_release m a g)
  then show ?thesis using release_law [of s m a g] assms by auto
next
  case (Cl_renew m a g now)
  then show ?thesis using renew_law [of s m a g now] assms by auto
next
  case (Cl_reap now)
  then show ?thesis using reap_law [of s now] assms by auto
qed

lemma run_issues:
  assumes "cinv s" "good_run good step s es"
  shows "cinv (fst (run step s es)) \<and> high s n \<le> high (fst (run step s es)) n \<and>
    issued n (snd (run step s es)) = [Suc (high s n)..<Suc (high (fst (run step s es)) n)]"
  using assms
proof (induction es arbitrary: s)
  case Nil
  then show ?case by simp
next
  case (Cons e es)
  let ?s1 = "fst (step s e)"
  let ?s2 = "fst (run step ?s1 es)"
  have g: "good s e" "good_run good step ?s1 es" using Cons.prems by simp_all
  have i: "cinv ?s2" "high ?s1 n \<le> high ?s2 n" "issued n (snd (run step ?s1 es)) = [Suc (high ?s1 n)..<Suc (high ?s2 n)]"
    using Cons.IH [OF cinv_step [OF Cons.prems(1) g(1)] g(2)] by simp_all
  have st: "high s n \<le> high ?s1 n" "issued n (snd (step s e)) = [Suc (high s n)..<Suc (high ?s1 n)]"
    using step_issues [OF Cons.prems(1) g(1)] by simp_all
  have "[Suc (high s n)..<Suc (high ?s2 n)] = [Suc (high s n)..<Suc (high ?s1 n)] @ [Suc (high ?s1 n)..<Suc (high ?s2 n)]"
    using upt_add_eq_append [of "Suc (high s n)" "Suc (high ?s1 n)" "high ?s2 n - high ?s1 n"] st(1) i(2) by simp
  with i st show ?case by (simp del: run.simps(2) upt_Suc)
qed

text \<open>An owner whose generation is no longer the newest can neither release nor renew.\<close>

lemma stale_fenced:
  assumes "cinv s" "g < high s n"
  shows "good s (Cl_release n a g) \<Longrightarrow> snd (step s (Cl_release n a g)) = [Out_bool False] \<and>
      look (fst (step s (Cl_release n a g))) = look s"
    and "good s (Cl_renew n a g now) \<Longrightarrow> snd (step s (Cl_renew n a g now)) = [Out_bool False] \<and>
      look (fst (step s (Cl_renew n a g now))) = look s"
proof -
  have "\<not> holds (look s n) a g"
    using current_generation [OF assms(1)] assms(2) by (auto simp: holds_def split: option.split)
  then show "good s (Cl_release n a g) \<Longrightarrow> snd (step s (Cl_release n a g)) = [Out_bool False] \<and>
      look (fst (step s (Cl_release n a g))) = look s"
    "good s (Cl_renew n a g now) \<Longrightarrow> snd (step s (Cl_renew n a g now)) = [Out_bool False] \<and>
      look (fst (step s (Cl_renew n a g now))) = look s"
    using release_law [OF assms(1), of n a g] renew_law [OF assms(1), of n a g now] by auto
qed

end

section \<open>The in-memory registry\<close>

record local_claims =
  lc_claims :: "(string \<times> claim) list"
  lc_highWater :: "(string \<times> nat) list"
  lc_leaseTtlMs :: number

definition newLocalClaimRegistry :: "number option \<Rightarrow> claim_error + local_claims" where
  "newLocalClaimRegistry opt =
     (case resolveLeaseTtlMs opt of
        Inl e \<Rightarrow> Inl e
      | Inr ttl \<Rightarrow> Inr \<lparr>lc_claims = [], lc_highWater = [], lc_leaseTtlMs = ttl\<rparr>)"

definition lc_claim :: "local_claims \<Rightarrow> string \<Rightarrow> string \<Rightarrow> number \<Rightarrow> local_claims \<times> claim" where
  "lc_claim s nodeId authorityId now =
     (let generation = (case map_of (lc_highWater s) nodeId of None \<Rightarrow> 0 | Some g \<Rightarrow> g) + 1;
          c = \<lparr>cl_nodeId = nodeId, cl_authorityId = authorityId, cl_generation = generation,
               cl_leaseExpiresAt = now + lc_leaseTtlMs s\<rparr>
      in (s\<lparr>lc_highWater := AList.update nodeId generation (lc_highWater s),
            lc_claims := AList.update nodeId c (lc_claims s)\<rparr>, c))"

definition lc_lookup :: "local_claims \<Rightarrow> string \<Rightarrow> claim option" where
  "lc_lookup s nodeId = map_of (lc_claims s) nodeId"

definition lc_release :: "local_claims \<Rightarrow> string \<Rightarrow> string \<Rightarrow> nat \<Rightarrow> local_claims \<times> bool" where
  "lc_release s nodeId authorityId generation =
     (case map_of (lc_claims s) nodeId of
        None \<Rightarrow> (s, False)
      | Some current \<Rightarrow>
          if cl_authorityId current \<noteq> authorityId \<or> cl_generation current \<noteq> generation then (s, False)
          else (s\<lparr>lc_claims := AList.delete nodeId (lc_claims s)\<rparr>, True))"

definition lc_renew :: "local_claims \<Rightarrow> string \<Rightarrow> string \<Rightarrow> nat \<Rightarrow> number \<Rightarrow> local_claims \<times> bool" where
  "lc_renew s nodeId authorityId generation now =
     (case map_of (lc_claims s) nodeId of
        None \<Rightarrow> (s, False)
      | Some current \<Rightarrow>
          if cl_authorityId current \<noteq> authorityId \<or> cl_generation current \<noteq> generation then (s, False)
          else (s\<lparr>lc_claims := AList.update nodeId (current\<lparr>cl_leaseExpiresAt := now + lc_leaseTtlMs s\<rparr>) (lc_claims s)\<rparr>, True))"

definition lc_reapExpired :: "local_claims \<Rightarrow> number \<Rightarrow> local_claims \<times> string list" where
  "lc_reapExpired s now =
     (let expired = map fst (filter (\<lambda>(n, c). cl_leaseExpiresAt c \<le> now) (lc_claims s))
      in (s\<lparr>lc_claims := foldl (\<lambda>m n. AList.delete n m) (lc_claims s) expired\<rparr>, expired))"

fun lc_step :: "local_claims \<Rightarrow> claim_op \<Rightarrow> local_claims \<times> claim_out list" where
  "lc_step s (Cl_claim n a now) = (let (s', c) = lc_claim s n a now in (s', [Out_claim c]))"
| "lc_step s (Cl_release n a g) = (let (s', b) = lc_release s n a g in (s', [Out_bool b]))"
| "lc_step s (Cl_renew n a g now) = (let (s', b) = lc_renew s n a g now in (s', [Out_bool b]))"
| "lc_step s (Cl_reap now) = (let (s', ids) = lc_reapExpired s now in (s', [Out_ids ids]))"

definition lc_high :: "local_claims \<Rightarrow> string \<Rightarrow> nat" where
  "lc_high s n = (case map_of (lc_highWater s) n of None \<Rightarrow> 0 | Some g \<Rightarrow> g)"

definition lc_inv :: "local_claims \<Rightarrow> bool" where
  "lc_inv s \<longleftrightarrow> wf_map (lc_claims s) \<and> (\<forall>n c. map_of (lc_claims s) n = Some c \<longrightarrow> cl_generation c = lc_high s n)"

text \<open>Deleting the collected keys is filtering.\<close>

lemma foldl_delete: "foldl (\<lambda>m n. AList.delete n m) m ns = filter (\<lambda>(k, v). k \<notin> set ns) m"
proof (induction ns arbitrary: m)
  case Nil
  then show ?case by simp
next
  case (Cons n ns)
  have "AList.delete n m = filter (\<lambda>(k, v). k \<noteq> n) m" by (auto simp: AList.delete_eq intro: filter_cong)
  with Cons show ?case by (auto intro: filter_cong)
qed

lemma reap_claims:
  assumes "wf_map m"
  shows "foldl (\<lambda>m n. AList.delete n m) m (map fst (filter (\<lambda>(n, c). P c) m)) = filter (\<lambda>(n, c). \<not> P c) m"
proof -
  have "k \<in> set (map fst (filter (\<lambda>(n, c). P c) m)) \<longleftrightarrow> P v" if "(k, v) \<in> set m" for k v
    using that assms by (force simp: wf_map_lookup)
  then show ?thesis unfolding foldl_delete by (auto intro: filter_cong)
qed

lemma lc_step_wf: "wf_map (lc_claims s) \<Longrightarrow> wf_map (lc_claims (fst (lc_step s e)))"
  by (cases e) (simp_all add: lc_claim_def lc_release_def lc_renew_def lc_reapExpired_def reap_claims Let_def case_prod_beta
      split: option.split)

interpretation lc: claim_registry lc_step lc_lookup lc_high "\<lambda>_ _. True" lc_inv
proof
  fix s n a g now e and c :: claim
  assume inv: "lc_inv s"
  have wf: "wf_map (lc_claims s)" using inv by (simp add: lc_inv_def)
  show "\<exists>c. snd (lc_step s (Cl_claim n a now)) = [Out_claim c] \<and> cl_nodeId c = n \<and> cl_authorityId c = a \<and>
        cl_generation c = lc_high s n + 1 \<and>
        lc_high (fst (lc_step s (Cl_claim n a now))) = (lc_high s)(n := lc_high s n + 1) \<and>
        lc_lookup (fst (lc_step s (Cl_claim n a now))) = (lc_lookup s)(n := Some c)"
    by (simp add: lc_claim_def lc_high_def lc_lookup_def Let_def fun_eq_iff)
  show "snd (lc_step s (Cl_release n a g)) = [Out_bool (holds (lc_lookup s n) a g)] \<and>
      lc_high (fst (lc_step s (Cl_release n a g))) = lc_high s \<and>
      lc_lookup (fst (lc_step s (Cl_release n a g))) = (if holds (lc_lookup s n) a g then (lc_lookup s)(n := None) else lc_lookup s)"
    by (auto simp: lc_release_def lc_high_def lc_lookup_def holds_def Let_def fun_eq_iff split: option.split)
  show "snd (lc_step s (Cl_renew n a g now)) = [Out_bool (holds (lc_lookup s n) a g)] \<and>
      lc_high (fst (lc_step s (Cl_renew n a g now))) = lc_high s \<and>
      (\<exists>l. lc_lookup (fst (lc_step s (Cl_renew n a g now))) =
         (if holds (lc_lookup s n) a g then (lc_lookup s)(n := map_option (\<lambda>c. c\<lparr>cl_leaseExpiresAt := l\<rparr>) (lc_lookup s n)) else lc_lookup s))"
    by (auto simp: lc_renew_def lc_high_def lc_lookup_def holds_def Let_def fun_eq_iff split: option.split)
  show "lc_high (fst (lc_step s (Cl_reap now))) = lc_high s \<and> (\<exists>ids. snd (lc_step s (Cl_reap now)) = [Out_ids ids]) \<and>
      lc_lookup (fst (lc_step s (Cl_reap now))) =
        (\<lambda>n. case lc_lookup s n of None \<Rightarrow> None | Some c \<Rightarrow> if cl_leaseExpiresAt c \<le> now then None else Some c)"
    using map_of_filter_wf [OF wf, of "\<lambda>n c. \<not> cl_leaseExpiresAt c \<le> now"] reap_claims [OF wf, of "\<lambda>c. cl_leaseExpiresAt c \<le> now"]
    by (auto simp: lc_reapExpired_def lc_high_def lc_lookup_def Let_def fun_eq_iff split: option.split)
  show "lc_lookup s n = Some c \<Longrightarrow> cl_generation c = lc_high s n"
    using inv by (simp add: lc_inv_def lc_lookup_def)
  show "lc_inv (fst (lc_step s e))"
  proof (cases e)
    case (Cl_reap now)
    with inv show ?thesis
      using map_of_filter_wf [OF wf, of "\<lambda>n c. \<not> cl_leaseExpiresAt c \<le> now"] reap_claims [OF wf, of "\<lambda>c. cl_leaseExpiresAt c \<le> now"]
      by (auto simp: lc_inv_def lc_reapExpired_def lc_high_def Let_def split: option.splits if_splits)
  qed (use inv in \<open>auto simp: lc_inv_def lc_claim_def lc_release_def lc_renew_def lc_high_def Let_def split: option.splits\<close>)
qed

section \<open>The SQLite store\<close>

record claim_row =
  rw_authority_id :: string
  rw_generation :: nat
  rw_claimed_at :: number
  rw_lease_expires_at :: number

record claim_db =
  db_claim :: "(string \<times> claim_row) list"
  db_seq :: "(string \<times> nat) list"
  db_leaseTtlMs :: number

definition validTime :: "number \<Rightarrow> bool" where
  "validTime v \<longleftrightarrow> isSafeInteger v \<and> \<bar>v\<bar> \<le> 8640000000000000"

definition validGeneration :: "nat \<Rightarrow> bool" where
  "validGeneration g \<longleftrightarrow> g \<le> 9007199254740991 \<and> 1 \<le> g"

definition row_claim :: "string \<Rightarrow> claim_row \<Rightarrow> claim" where
  "row_claim n r = \<lparr>cl_nodeId = n, cl_authorityId = rw_authority_id r, cl_generation = rw_generation r,
     cl_leaseExpiresAt = rw_lease_expires_at r\<rparr>"

definition sq_load :: "string \<times> claim_row \<Rightarrow> claim_error + claim" where
  "sq_load raw =
     (let (n, r) = raw in
      if isUuidStr n \<and> 0 < length (rw_authority_id r) \<and> validGeneration (rw_generation r) \<and>
         validTime (rw_claimed_at r) \<and> validTime (rw_lease_expires_at r) \<and> rw_claimed_at r \<le> rw_lease_expires_at r
      then Inr (row_claim n r) else Inl Database_corrupt)"

fun load_all :: "(string \<times> claim_row) list \<Rightarrow> claim_error + claim list" where
  "load_all [] = Inr []"
| "load_all (raw # rows) =
     (case sq_load raw of
        Inl e \<Rightarrow> Inl e
      | Inr c \<Rightarrow> (case load_all rows of Inl e \<Rightarrow> Inl e | Inr cs \<Rightarrow> Inr (c # cs)))"

text \<open>The constructor: every active row is valid and dominated by its high-water mark.\<close>

fun check_rows :: "(string \<times> claim_row) list \<Rightarrow> (string \<times> nat) list \<Rightarrow> claim_error + unit" where
  "check_rows [] sq = Inr ()"
| "check_rows (raw # rows) sq =
     (case sq_load raw of
        Inl e \<Rightarrow> Inl e
      | Inr c \<Rightarrow>
          (case map_of sq (fst raw) of
             None \<Rightarrow> Inl Database_corrupt
           | Some lst \<Rightarrow> if validGeneration lst \<and> cl_generation c \<le> lst then check_rows rows sq else Inl Database_corrupt))"

definition newSqliteClaimStore ::
  "(string \<times> claim_row) list \<Rightarrow> (string \<times> nat) list \<Rightarrow> number option \<Rightarrow> claim_error + claim_db" where
  "newSqliteClaimStore rows sq opt =
     (case resolveLeaseTtlMs opt of
        Inl e \<Rightarrow> Inl e
      | Inr ttl \<Rightarrow>
          (case check_rows rows sq of
             Inl e \<Rightarrow> Inl e
           | Inr u \<Rightarrow> Inr \<lparr>db_claim = rows, db_seq = sq, db_leaseTtlMs = ttl\<rparr>))"

definition sq_claim :: "claim_db \<Rightarrow> string \<Rightarrow> string \<Rightarrow> number \<Rightarrow> claim_error + (claim_db \<times> claim)" where
  "sq_claim s nodeId authorityId now =
     (if \<not> isUuidStr nodeId \<or> length authorityId = 0 \<or> \<not> validTime now then Inl Type_error
      else
        (let lease = now + db_leaseTtlMs s;
             generation = (case map_of (db_seq s) nodeId of None \<Rightarrow> 1 | Some g \<Rightarrow> g + 1)
         in if \<not> validGeneration generation then Inl Database_corrupt
            else if lease < now then Inl Constraint_failed
            else Inr (s\<lparr>db_seq := AList.update nodeId generation (db_seq s),
                        db_claim := AList.update nodeId \<lparr>rw_authority_id = authorityId, rw_generation = generation,
                          rw_claimed_at = now, rw_lease_expires_at = lease\<rparr> (db_claim s)\<rparr>,
                      \<lparr>cl_nodeId = nodeId, cl_authorityId = authorityId, cl_generation = generation,
                       cl_leaseExpiresAt = lease\<rparr>)))"

definition sq_lookup :: "claim_db \<Rightarrow> string \<Rightarrow> claim_error + claim option" where
  "sq_lookup s nodeId =
     (if \<not> isUuidStr nodeId then Inr None
      else (case map_of (db_claim s) nodeId of
              None \<Rightarrow> Inr None
            | Some r \<Rightarrow> (case sq_load (nodeId, r) of Inl e \<Rightarrow> Inl e | Inr c \<Rightarrow> Inr (Some c))))"

definition row_matches :: "claim_row option \<Rightarrow> string \<Rightarrow> nat \<Rightarrow> bool" where
  "row_matches r a g = (case r of None \<Rightarrow> False | Some rw \<Rightarrow> rw_authority_id rw = a \<and> rw_generation rw = g)"

definition sq_release :: "claim_db \<Rightarrow> string \<Rightarrow> string \<Rightarrow> nat \<Rightarrow> claim_db \<times> bool" where
  "sq_release s nodeId authorityId generation =
     (if \<not> isUuidStr nodeId \<or> \<not> validGeneration generation then (s, False)
      else if row_matches (map_of (db_claim s) nodeId) authorityId generation
      then (s\<lparr>db_claim := AList.delete nodeId (db_claim s)\<rparr>, True)
      else (s, False))"

definition sq_renew :: "claim_db \<Rightarrow> string \<Rightarrow> string \<Rightarrow> nat \<Rightarrow> number \<Rightarrow> claim_error + (claim_db \<times> bool)" where
  "sq_renew s nodeId authorityId generation now =
     (if \<not> isUuidStr nodeId \<or> \<not> validGeneration generation \<or> \<not> validTime now then Inr (s, False)
      else if row_matches (map_of (db_claim s) nodeId) authorityId generation
      then (let r = the (map_of (db_claim s) nodeId); lease = now + db_leaseTtlMs s in
            if lease < rw_claimed_at r then Inl Constraint_failed
            else Inr (s\<lparr>db_claim := AList.update nodeId (r\<lparr>rw_lease_expires_at := lease\<rparr>) (db_claim s)\<rparr>, True))
      else Inr (s, False))"

definition sq_reapExpired :: "claim_db \<Rightarrow> number \<Rightarrow> claim_error + (claim_db \<times> string list)" where
  "sq_reapExpired s now =
     (if \<not> validTime now then Inr (s, [])
      else
        (case load_all (filter (\<lambda>(n, r). rw_lease_expires_at r \<le> now) (db_claim s)) of
           Inl e \<Rightarrow> Inl e
         | Inr expired \<Rightarrow>
             Inr (s\<lparr>db_claim := filter (\<lambda>(n, r). \<not> rw_lease_expires_at r \<le> now) (db_claim s)\<rparr>,
                  map cl_nodeId expired)))"

text \<open>One call; a raise leaves the committed state alone and returns nothing.\<close>

fun sq_step :: "claim_db \<Rightarrow> claim_op \<Rightarrow> claim_db \<times> claim_out list" where
  "sq_step s (Cl_claim n a now) = (case sq_claim s n a now of Inl e \<Rightarrow> (s, []) | Inr (s', c) \<Rightarrow> (s', [Out_claim c]))"
| "sq_step s (Cl_release n a g) = (let (s', b) = sq_release s n a g in (s', [Out_bool b]))"
| "sq_step s (Cl_renew n a g now) = (case sq_renew s n a g now of Inl e \<Rightarrow> (s, []) | Inr (s', b) \<Rightarrow> (s', [Out_bool b]))"
| "sq_step s (Cl_reap now) = (case sq_reapExpired s now of Inl e \<Rightarrow> (s, []) | Inr (s', ids) \<Rightarrow> (s', [Out_ids ids]))"

section \<open>The SQLite store refines the in-memory registry\<close>

definition abs_claims :: "(string \<times> claim_row) list \<Rightarrow> (string \<times> claim) list" where
  "abs_claims rows = map (\<lambda>(n, r). (n, row_claim n r)) rows"

definition claim_abs :: "claim_db \<Rightarrow> local_claims" where
  "claim_abs s = \<lparr>lc_claims = abs_claims (db_claim s), lc_highWater = db_seq s, lc_leaseTtlMs = db_leaseTtlMs s\<rparr>"

definition row_ok :: "claim_db \<Rightarrow> string \<Rightarrow> claim_row \<Rightarrow> bool" where
  "row_ok s n r \<longleftrightarrow> sq_load (n, r) = Inr (row_claim n r) \<and> map_of (db_seq s) n = Some (rw_generation r)"

definition sq_inv :: "claim_db \<Rightarrow> bool" where
  "sq_inv s \<longleftrightarrow>
     wf_map (db_claim s) \<and> 0 < db_leaseTtlMs s \<and> isSafeInteger (db_leaseTtlMs s) \<and>
     (\<forall>n r. map_of (db_claim s) n = Some r \<longrightarrow> row_ok s n r)"

text \<open>
  The calls the gateway makes: uuid node ids, named authorities, times whose lease is still a valid time
  and not before the claim, and generations that are still safe integers.
\<close>

definition claim_call_ok :: "claim_db \<Rightarrow> claim_op \<Rightarrow> bool" where
  "claim_call_ok s e =
     (case e of
        Cl_claim n a now \<Rightarrow> isUuidStr n \<and> a \<noteq> [] \<and> validTime now \<and> validTime (now + db_leaseTtlMs s) \<and>
          validGeneration (lc_high (claim_abs s) n + 1)
      | Cl_release n a g \<Rightarrow> isUuidStr n \<and> validGeneration g
      | Cl_renew n a g now \<Rightarrow> isUuidStr n \<and> validGeneration g \<and> validTime now \<and> validTime (now + db_leaseTtlMs s) \<and>
          (\<forall>r. map_of (db_claim s) n = Some r \<longrightarrow> rw_claimed_at r \<le> now + db_leaseTtlMs s)
      | Cl_reap now \<Rightarrow> validTime now)"

lemma abs_update: "abs_claims (AList.update n r rows) = AList.update n (row_claim n r) (abs_claims rows)"
  by (induction rows) (auto simp: abs_claims_def)

lemma abs_delete: "abs_claims (AList.delete n rows) = AList.delete n (abs_claims rows)"
  by (induction rows) (auto simp: abs_claims_def)

lemma map_of_abs: "map_of (abs_claims rows) n = map_option (row_claim n) (map_of rows n)"
  by (induction rows) (auto simp: abs_claims_def)

lemma abs_filter:
  "filter (\<lambda>(n, c). P (cl_leaseExpiresAt c)) (abs_claims rows) = abs_claims (filter (\<lambda>(n, r). P (rw_lease_expires_at r)) rows)"
  by (induction rows) (auto simp: abs_claims_def row_claim_def)

lemma abs_fst [simp]: "map fst (abs_claims rows) = map fst rows"
  by (simp add: abs_claims_def case_prod_beta comp_def)

lemma wf_abs [simp]: "wf_map (abs_claims rows) = wf_map rows"
  by (simp add: wf_map_def)

lemma load_all_ok:
  assumes "\<forall>(n, r) \<in> set rows. sq_load (n, r) = Inr (row_claim n r)"
  shows "load_all rows = Inr (map (\<lambda>(n, r). row_claim n r) rows)"
  using assms by (induction rows) auto

lemma row_claim_sel [simp]:
  "cl_nodeId (row_claim n r) = n" "cl_authorityId (row_claim n r) = rw_authority_id r"
  "cl_generation (row_claim n r) = rw_generation r" "cl_leaseExpiresAt (row_claim n r) = rw_lease_expires_at r"
  by (simp_all add: row_claim_def)

lemma refine_claim:
  assumes "sq_inv s" "claim_call_ok s (Cl_claim n a now)"
  shows "sq_inv (fst (sq_step s (Cl_claim n a now))) \<and>
    lc_step (claim_abs s) (Cl_claim n a now) = (claim_abs (fst (sq_step s (Cl_claim n a now))), snd (sq_step s (Cl_claim n a now)))"
proof -
  define g where "g = lc_high (claim_abs s) n + 1"
  define r where "r = \<lparr>rw_authority_id = a, rw_generation = g, rw_claimed_at = now, rw_lease_expires_at = now + db_leaseTtlMs s\<rparr>"
  define s' where "s' = s\<lparr>db_seq := AList.update n g (db_seq s), db_claim := AList.update n r (db_claim s)\<rparr>"
  have h: "(case map_of (db_seq s) n of None \<Rightarrow> 1 | Some g \<Rightarrow> g + 1) = g"
    by (simp add: g_def lc_high_def claim_abs_def split: option.split)
  have ttl: "0 < db_leaseTtlMs s" using assms(1) by (simp add: sq_inv_def)
  have step: "sq_step s (Cl_claim n a now) = (s', [Out_claim (row_claim n r)])"
    using assms(2) ttl unfolding sq_step.simps sq_claim_def Let_def h claim_call_ok_def claim_op.case g_def [symmetric]
    by (simp add: s'_def r_def row_claim_def)
  have "sq_load (n, r) = Inr (row_claim n r)"
    using assms(2) ttl by (simp add: sq_load_def claim_call_ok_def r_def g_def)
  then have "sq_inv s'"
    using assms(1) by (auto simp: sq_inv_def s'_def row_ok_def r_def)
  moreover have "lc_step (claim_abs s) (Cl_claim n a now) = (claim_abs s', [Out_claim (row_claim n r)])"
    by (simp add: lc_claim_def s'_def claim_abs_def abs_update g_def lc_high_def r_def row_claim_def Let_def)
  ultimately show ?thesis unfolding step by simp
qed

lemma refine_step:
  assumes "sq_inv s" "claim_call_ok s e"
  shows "sq_inv (fst (sq_step s e)) \<and> lc_step (claim_abs s) e = (claim_abs (fst (sq_step s e)), snd (sq_step s e))"
proof (cases e)
  case (Cl_claim n a now)
  with assms refine_claim show ?thesis by blast
next
  case (Cl_release n a g)
  with assms show ?thesis
    by (auto simp: sq_release_def lc_release_def claim_abs_def claim_call_ok_def row_matches_def map_of_abs abs_delete
        sq_inv_def row_ok_def Let_def split: option.split)
next
  case (Cl_renew n a g now)
  show ?thesis
  proof (cases "row_matches (map_of (db_claim s) n) a g")
    case True
    then obtain r where r: "map_of (db_claim s) n = Some r" "rw_authority_id r = a" "rw_generation r = g"
      by (auto simp: row_matches_def split: option.splits)
    let ?r = "r\<lparr>rw_lease_expires_at := now + db_leaseTtlMs s\<rparr>"
    let ?s = "s\<lparr>db_claim := AList.update n ?r (db_claim s)\<rparr>"
    have c: "rw_claimed_at r \<le> now + db_leaseTtlMs s" "isUuidStr n" "validGeneration g" "validTime now" "validTime (now + db_leaseTtlMs s)"
      using assms(2) Cl_renew r(1) by (auto simp: claim_call_ok_def)
    have ok: "row_ok s n r" using assms(1) r(1) by (simp add: sq_inv_def)
    have "sq_step s e = (?s, [Out_bool True])"
      using Cl_renew True r c by (simp add: sq_renew_def)
    moreover have "lc_step (claim_abs s) e = (claim_abs ?s, [Out_bool True])"
      using Cl_renew r by (simp add: lc_renew_def claim_abs_def map_of_abs abs_update row_claim_def)
    moreover have "sq_load (n, ?r) = Inr (row_claim n ?r)"
      using ok c by (auto simp: row_ok_def sq_load_def split: if_splits)
    then have "sq_inv ?s" using assms(1) ok by (auto simp: sq_inv_def row_ok_def)
    ultimately show ?thesis by simp
  next
    case False
    with Cl_renew assms show ?thesis
      by (auto simp: sq_renew_def lc_renew_def claim_abs_def claim_call_ok_def row_matches_def map_of_abs split: option.splits)
  qed
next
  case (Cl_reap now)
  let ?rows = "filter (\<lambda>(n, r). rw_lease_expires_at r \<le> now) (db_claim s)"
  let ?s = "s\<lparr>db_claim := filter (\<lambda>(n, r). \<not> rw_lease_expires_at r \<le> now) (db_claim s)\<rparr>"
  have wf: "wf_map (db_claim s)" using assms(1) by (simp add: sq_inv_def)
  have "\<forall>(n, r) \<in> set ?rows. sq_load (n, r) = Inr (row_claim n r)"
    using assms(1) wf by (auto simp: sq_inv_def row_ok_def wf_map_lookup [OF wf])
  from load_all_ok [OF this] have step: "sq_step s e = (?s, [Out_ids (map fst ?rows)])"
    using Cl_reap assms(2) by (simp add: sq_reapExpired_def claim_call_ok_def comp_def case_prod_beta)
  have "lc_step (claim_abs s) e = (claim_abs ?s, [Out_ids (map fst ?rows)])"
    using Cl_reap reap_claims [of "abs_claims (db_claim s)" "\<lambda>c. cl_leaseExpiresAt c \<le> now"] wf
      abs_filter [of "\<lambda>t. t \<le> now" "db_claim s"] abs_filter [of "\<lambda>t. \<not> t \<le> now" "db_claim s"]
    by (simp add: lc_reapExpired_def claim_abs_def Let_def)
  moreover have "sq_inv ?s"
    using assms(1) wf map_of_filter_wf [OF wf, of "\<lambda>n r. \<not> rw_lease_expires_at r \<le> now"]
    by (auto simp: sq_inv_def row_ok_def split: option.splits if_splits)
  ultimately show ?thesis by (simp add: step)
qed

lemma refine_lookup:
  assumes "sq_inv s" "isUuidStr n"
  shows "sq_lookup s n = Inr (lc_lookup (claim_abs s) n)"
  using assms by (auto simp: sq_lookup_def lc_lookup_def claim_abs_def map_of_abs sq_inv_def row_ok_def split: option.split)

lemma sq_inv_abs: "sq_inv s \<Longrightarrow> lc_inv (claim_abs s)"
  by (auto simp: sq_inv_def lc_inv_def row_ok_def claim_abs_def map_of_abs lc_high_def)

text \<open>The port's laws for the SQLite store come from those of the registry it refines.\<close>

interpretation sq: claim_registry sq_step "\<lambda>s. lc_lookup (claim_abs s)" "\<lambda>s. lc_high (claim_abs s)" claim_call_ok sq_inv
proof
  fix s n a g now e and c :: claim
  assume inv: "sq_inv s"
  note l = sq_inv_abs [OF inv]
  show "claim_call_ok s (Cl_claim n a now) \<Longrightarrow> \<exists>c. snd (sq_step s (Cl_claim n a now)) = [Out_claim c] \<and> cl_nodeId c = n \<and> cl_authorityId c = a \<and>
        cl_generation c = lc_high (claim_abs s) n + 1 \<and>
        lc_high (claim_abs (fst (sq_step s (Cl_claim n a now)))) = (lc_high (claim_abs s))(n := lc_high (claim_abs s) n + 1) \<and>
        lc_lookup (claim_abs (fst (sq_step s (Cl_claim n a now)))) = (lc_lookup (claim_abs s))(n := Some c)"
    using lc.claim_law [OF l, of n a now] refine_step [OF inv, of "Cl_claim n a now"] by (simp del: lc_step.simps sq_step.simps)
  show "claim_call_ok s (Cl_release n a g) \<Longrightarrow> snd (sq_step s (Cl_release n a g)) = [Out_bool (holds (lc_lookup (claim_abs s) n) a g)] \<and>
      lc_high (claim_abs (fst (sq_step s (Cl_release n a g)))) = lc_high (claim_abs s) \<and>
      lc_lookup (claim_abs (fst (sq_step s (Cl_release n a g)))) =
        (if holds (lc_lookup (claim_abs s) n) a g then (lc_lookup (claim_abs s))(n := None) else lc_lookup (claim_abs s))"
    using lc.release_law [OF l, of n a g] refine_step [OF inv, of "Cl_release n a g"] by (simp del: lc_step.simps sq_step.simps)
  show "claim_call_ok s (Cl_renew n a g now) \<Longrightarrow> snd (sq_step s (Cl_renew n a g now)) = [Out_bool (holds (lc_lookup (claim_abs s) n) a g)] \<and>
      lc_high (claim_abs (fst (sq_step s (Cl_renew n a g now)))) = lc_high (claim_abs s) \<and>
      (\<exists>l. lc_lookup (claim_abs (fst (sq_step s (Cl_renew n a g now)))) =
         (if holds (lc_lookup (claim_abs s) n) a g
          then (lc_lookup (claim_abs s))(n := map_option (\<lambda>c. c\<lparr>cl_leaseExpiresAt := l\<rparr>) (lc_lookup (claim_abs s) n))
          else lc_lookup (claim_abs s)))"
    using lc.renew_law [OF l, of n a g now] refine_step [OF inv, of "Cl_renew n a g now"] by (simp del: lc_step.simps sq_step.simps)
  show "claim_call_ok s (Cl_reap now) \<Longrightarrow> lc_high (claim_abs (fst (sq_step s (Cl_reap now)))) = lc_high (claim_abs s) \<and>
      (\<exists>ids. snd (sq_step s (Cl_reap now)) = [Out_ids ids]) \<and>
      lc_lookup (claim_abs (fst (sq_step s (Cl_reap now)))) =
        (\<lambda>n. case lc_lookup (claim_abs s) n of None \<Rightarrow> None | Some c \<Rightarrow> if cl_leaseExpiresAt c \<le> now then None else Some c)"
    using lc.reap_law [OF l, of now] refine_step [OF inv, of "Cl_reap now"] by (simp del: lc_step.simps sq_step.simps)
  show "lc_lookup (claim_abs s) n = Some c \<Longrightarrow> cl_generation c = lc_high (claim_abs s) n"
    by (rule lc.current_generation [OF l])
  show "claim_call_ok s e \<Longrightarrow> sq_inv (fst (sq_step s e))" using refine_step [OF inv] by blast
qed

section \<open>Properties\<close>

definition empty_db :: "number \<Rightarrow> claim_db" where
  "empty_db ttl = \<lparr>db_claim = [], db_seq = [], db_leaseTtlMs = ttl\<rparr>"

lemma sq_inv_empty: "0 < ttl \<Longrightarrow> isSafeInteger ttl \<Longrightarrow> sq_inv (empty_db ttl)"
  by (simp add: sq_inv_def empty_db_def)

lemma lc_high_empty [simp]: "lc_high (claim_abs (empty_db ttl)) n = 0"
  by (simp add: lc_high_def claim_abs_def empty_db_def)

lemma refine_run:
  assumes "sq_inv s" "good_run claim_call_ok sq_step s es"
  shows "sq_inv (fst (run sq_step s es)) \<and>
    run lc_step (claim_abs s) es = (claim_abs (fst (run sq_step s es)), snd (run sq_step s es))"
  using assms
proof (induction es arbitrary: s)
  case Nil
  then show ?case by simp
next
  case (Cons e es)
  have st: "sq_inv (fst (sq_step s e))" "lc_step (claim_abs s) e = (claim_abs (fst (sq_step s e)), snd (sq_step s e))"
    using refine_step [OF Cons.prems(1), of e] Cons.prems(2) by simp_all
  from Cons.IH [OF st(1)] Cons.prems(2) st(2) show ?case
    by (simp add: case_prod_beta Let_def)
qed

lemma reopen_ok:
  assumes "sq_inv s"
  shows "newSqliteClaimStore (db_claim s) (db_seq s) (Some (db_leaseTtlMs s)) = Inr s"
proof -
  have wf: "wf_map (db_claim s)" using assms by (simp add: sq_inv_def)
  have rows: "\<forall>(n, r) \<in> set (db_claim s). row_ok s n r"
    using assms by (auto simp: sq_inv_def wf_map_lookup [OF wf])
  have "check_rows rows (db_seq s) = Inr ()" if "\<forall>(n, r) \<in> set rows. row_ok s n r" for rows
    using that
  proof (induction rows)
    case Nil
    then show ?case by simp
  next
    case (Cons x rows)
    obtain n r where x: "x = (n, r)" by (cases x)
    with Cons.prems have "row_ok s n r" by simp
    moreover from this have "validGeneration (rw_generation r)"
      by (auto simp: row_ok_def sq_load_def split: if_splits)
    ultimately show ?case using Cons x by (simp add: row_ok_def)
  qed
  from this [OF rows] assms show ?thesis
    by (simp add: newSqliteClaimStore_def resolveLeaseTtlMs_def sq_inv_def)
qed

text \<open>
  C15: the SQLite claim store refines the in-memory registry. For calls with uuid nodes, named authorities
  and times in range, any history of claims, releases, renewals and reaps on the store gives the same
  answers as on the registry, ends in corresponding states and agrees on every lookup; and a process that
  reopens the tables finds them valid.
\<close>

theorem claim_store_refines:
  assumes "0 < ttl" "isSafeInteger ttl" "good_run claim_call_ok sq_step (empty_db ttl) es"
    and "run sq_step (empty_db ttl) es = (s, outs)"
  shows "run lc_step \<lparr>lc_claims = [], lc_highWater = [], lc_leaseTtlMs = ttl\<rparr> es = (claim_abs s, outs) \<and>
    (\<forall>n. isUuidStr n \<longrightarrow> sq_lookup s n = Inr (lc_lookup (claim_abs s) n)) \<and>
    newSqliteClaimStore (db_claim s) (db_seq s) (Some (db_leaseTtlMs s)) = Inr s"
proof -
  have a: "claim_abs (empty_db ttl) = \<lparr>lc_claims = [], lc_highWater = [], lc_leaseTtlMs = ttl\<rparr>"
    by (simp add: claim_abs_def empty_db_def abs_claims_def)
  from refine_run [OF sq_inv_empty [OF assms(1,2)] assms(3)] assms(4) a
  show ?thesis by (simp add: refine_lookup reopen_ok)
qed

definition demo_node :: string where
  "demo_node = ''0123abcd-0123-4567-89ab-0123456789AB''"

definition demo_claims :: "claim_op list" where
  "demo_claims = [Cl_claim demo_node ''gw1'' 100, Cl_claim demo_node ''gw2'' 200, Cl_release demo_node ''gw1'' 1, Cl_reap 300]"

lemma demo_node_ok [simp]: "isUuidStr demo_node"
  by (simp add: demo_node_def isUuidStr_def uuid_pattern_def matches_def numeral_eq_Suc is_hex_i_def)

lemma demo_claims_ok: "0 < (30000::rat)" "isSafeInteger 30000" "good_run claim_call_ok sq_step (empty_db 30000) demo_claims"
  by (simp_all add: demo_claims_def claim_call_ok_def sq_claim_def empty_db_def validTime_def validGeneration_def
      lc_high_def claim_abs_def sq_release_def row_matches_def)

theorem claim_store_refines_witness:
  "\<exists>s outs. run sq_step (empty_db 30000) demo_claims = (s, outs) \<and>
     run lc_step \<lparr>lc_claims = [], lc_highWater = [], lc_leaseTtlMs = 30000\<rparr> demo_claims = (claim_abs s, outs) \<and>
     newSqliteClaimStore (db_claim s) (db_seq s) (Some (db_leaseTtlMs s)) = Inr s"
proof -
  obtain s outs where r: "run sq_step (empty_db 30000) demo_claims = (s, outs)" by fastforce
  with claim_store_refines [OF demo_claims_ok r] show ?thesis by blast
qed

text \<open>
  C35: fencing tokens are never reused, and a superseded owner is powerless. In any history of the shared
  store the generations issued for a node are 1, 2, 3, ... in order, across releases and reaps; and an
  owner holding any generation but the newest can neither release nor renew the current claim.
\<close>

theorem fencing_tokens:
  assumes "0 < ttl" "isSafeInteger ttl" "good_run claim_call_ok sq_step (empty_db ttl) es"
    and "run sq_step (empty_db ttl) es = (s, outs)"
  shows "issued n outs = [1..<Suc (length (issued n outs))] \<and>
    (\<forall>g a. g \<in> set (issued n outs) \<and> g \<noteq> last (issued n outs) \<and> isUuidStr n \<longrightarrow>
       (validGeneration g \<longrightarrow> snd (sq_step s (Cl_release n a g)) = [Out_bool False] \<and>
          lc_lookup (claim_abs (fst (sq_step s (Cl_release n a g)))) = lc_lookup (claim_abs s)) \<and>
       (\<forall>now. claim_call_ok s (Cl_renew n a g now) \<longrightarrow> snd (sq_step s (Cl_renew n a g now)) = [Out_bool False]))"
proof -
  have r: "sq_inv s" "issued n outs = [1..<Suc (lc_high (claim_abs s) n)]"
    using sq.run_issues [OF sq_inv_empty [OF assms(1,2)] assms(3), of n] assms(4) by simp_all
  have st: "snd (sq_step s (Cl_release n a g)) = [Out_bool False] \<and>
        lc_lookup (claim_abs (fst (sq_step s (Cl_release n a g)))) = lc_lookup (claim_abs s)"
      "claim_call_ok s (Cl_renew n a g now) \<Longrightarrow> snd (sq_step s (Cl_renew n a g now)) = [Out_bool False]"
    if g: "g \<in> set (issued n outs)" "g \<noteq> last (issued n outs)" and u: "isUuidStr n" "validGeneration g" for g a now
  proof -
    have lt: "g < lc_high (claim_abs s) n" using g unfolding r(2) by (auto simp: le_less split: if_splits)
    have ok: "claim_call_ok s (Cl_release n a g)" using u by (simp add: claim_call_ok_def)
    show "snd (sq_step s (Cl_release n a g)) = [Out_bool False] \<and>
        lc_lookup (claim_abs (fst (sq_step s (Cl_release n a g)))) = lc_lookup (claim_abs s)"
      by (rule sq.stale_fenced(1) [OF r(1) lt ok])
    show "claim_call_ok s (Cl_renew n a g now) \<Longrightarrow> snd (sq_step s (Cl_renew n a g now)) = [Out_bool False]"
      using sq.stale_fenced(2) [OF r(1) lt] by blast
  qed
  have "validGeneration g" if "claim_call_ok s (Cl_renew n a g now)" for g a now
    using that by (simp add: claim_call_ok_def)
  then show ?thesis using st r(2) by (auto simp del: sq_step.simps upt_Suc)
qed

theorem fencing_tokens_witness:
  "\<exists>s outs. run sq_step (empty_db 30000) demo_claims = (s, outs) \<and>
     issued demo_node outs = [1..<Suc (length (issued demo_node outs))] \<and> length (issued demo_node outs) = 2"
proof -
  obtain s outs where r: "run sq_step (empty_db 30000) demo_claims = (s, outs)" by fastforce
  moreover have "length (issued demo_node (snd (run sq_step (empty_db 30000) demo_claims))) = 2"
    by (simp add: demo_claims_def sq_claim_def empty_db_def validTime_def validGeneration_def sq_release_def row_matches_def
        sq_reapExpired_def)
  ultimately show ?thesis
    using fencing_tokens [OF demo_claims_ok r, of demo_node, THEN conjunct1] by (auto simp del: upt_Suc)
qed

end
