(* ===== verification/Gateway_Custody.thy ===== *)
theory Gateway_Custody
  imports Gateway_Acl Gateway_Claim
begin

text \<open>
  Durable custody of messages, \<open>packages/gateway/src/custody-store.ts\<close>: the encoding of an envelope, the row
  validation that every read performs, and the operations of \<open>SqliteCustodyStore\<close>. The table is a list of rows
  in rowid order keyed by sender and message id; a raise (\<open>Inl\<close>) rolls the transaction back.

  What the code takes from libraries is the record \<open>codec\<close>: canonical JSON and its parser, the SHA-256 digest,
  the UTF-8 length, \<open>Date.parse\<close>, and base64 decoding (decoded length, and whether re-encoding gives the
  text back). \<open>codec_ok\<close> states what is relied on: the canonical form is a fixed point of parsing and
  printing, its parse passes the same snapshot check, and a digest is 64 hex digits.
\<close>

record codec =
  cd_jcs :: "json \<Rightarrow> string"
  cd_reparse :: "string \<Rightarrow> json"
  cd_sha :: "string \<Rightarrow> string"
  cd_bytes :: "string \<Rightarrow> nat"
  cd_parse :: date_parser
  cd_b64len :: "string \<Rightarrow> nat"
  cd_b64canon :: "string \<Rightarrow> bool"

section \<open>Encoding\<close>

definition digits :: "nat \<Rightarrow> nat \<Rightarrow> string \<Rightarrow> nat" where
  "digits i n s = js_Number (take n (drop i s))"

definition zone_of :: "string \<Rightarrow> string" where
  "zone_of s = (case drop 19 s of c # rest \<Rightarrow> if c = CHR ''.'' then dropWhile is_digit rest else c # rest | [] \<Rightarrow> [])"

definition month_days :: "nat \<Rightarrow> nat list" where
  "month_days y =
     (let leap = (y mod 4 = 0 \<and> (y mod 100 \<noteq> 0 \<or> y mod 400 = 0)) in
      [31, if leap then 29 else 28, 31, 30, 31, 30, 31, 31, 30, 31, 30, 31])"

definition absoluteTime :: "date_parser \<Rightarrow> json option \<Rightarrow> number option" where
  "absoluteTime parse v =
     (case str_of v of
        None \<Rightarrow> None
      | Some s \<Rightarrow>
          if \<not> RFC3339_RE s then None
          else
            (let y = digits 0 4 s; m = digits 5 2 s; d = digits 8 2 s; z = zone_of s;
                 numeric = (z \<noteq> ''Z'' \<and> z \<noteq> ''z'');
                 oh = (if numeric then digits 1 2 z else 0); om = (if numeric then digits 4 2 z else 0)
             in if m < 1 \<or> 12 < m \<or> d < 1 \<or> month_days y ! (m - 1) < d \<or> 23 < digits 11 2 s \<or> 59 < digits 14 2 s \<or>
                   59 < digits 17 2 s \<or> 23 < oh \<or> 59 < om
                then None
                else (case parse s of None \<Rightarrow> None | Some t \<Rightarrow> if validTime t then Some t else None)))"

text \<open>The budget left after taking the snapshot of a JSON value, or \<open>None\<close> when it raises.\<close>

fun jsonSnapshot :: "json \<Rightarrow> int \<Rightarrow> nat \<Rightarrow> int option"
  and snapshot_list :: "json list \<Rightarrow> int \<Rightarrow> nat \<Rightarrow> int option"
  and snapshot_fields :: "(string \<times> json) list \<Rightarrow> int \<Rightarrow> nat \<Rightarrow> int option" where
  "jsonSnapshot JNull left depth = (if left - 1 < 0 \<or> 64 < depth then None else Some (left - 1))"
| "jsonSnapshot (JBool b) left depth = (if left - 1 < 0 \<or> 64 < depth then None else Some (left - 1))"
| "jsonSnapshot (JNum q) left depth =
     (if left - 1 < 0 \<or> 64 < depth then None else if isSafeInteger q then Some (left - 1) else None)"
| "jsonSnapshot (JStr s) left depth =
     (if left - 1 < 0 \<or> 64 < depth then None
      else if left - 1 - int (length s) < 0 then None else Some (left - 1 - int (length s)))"
| "jsonSnapshot (JArr xs) left depth =
     (if left - 1 < 0 \<or> 64 < depth then None
      else if left - 1 < int (length xs) then None else snapshot_list xs (left - 1) (depth + 1))"
| "jsonSnapshot (JObj fs) left depth =
     (if left - 1 < 0 \<or> 64 < depth then None else snapshot_fields fs (left - 1) (depth + 1))"
| "snapshot_list [] left depth = Some left"
| "snapshot_list (x # xs) left depth =
     (case jsonSnapshot x left depth of None \<Rightarrow> None | Some l \<Rightarrow> snapshot_list xs l depth)"
| "snapshot_fields [] left depth = Some left"
| "snapshot_fields ((k, x) # fs) left depth =
     (case jsonSnapshot x (left - int (length k)) depth of None \<Rightarrow> None | Some l \<Rightarrow> snapshot_fields fs l depth)"

definition max_bytes :: nat where
  "max_bytes = 256 * 1024"

record encoded =
  en_raw :: json
  en_payload :: string
  en_bytes :: nat
  en_digest :: string
  en_expires :: number

definition sig_canonical :: "codec \<Rightarrow> json option \<Rightarrow> bool" where
  "sig_canonical cd sig =
     (obj_opt sig ''alg'' = Some (JStr ''ed25519'') \<and>
      (case str_of (obj_opt sig ''value'') of None \<Rightarrow> False | Some v \<Rightarrow> cd_b64len cd v = 64 \<and> cd_b64canon cd v))"

definition encode :: "codec \<Rightarrow> json \<Rightarrow> encoded option" where
  "encode cd v =
     (if jsonSnapshot v (int max_bytes) 0 = None then None
      else
        (let payload = cd_jcs cd v; bytes = cd_bytes cd payload; raw = cd_reparse cd payload in
         if max_bytes < bytes then None
         else (case validateEnvelope (cd_parse cd) (cd_b64len cd) raw DEFAULT_PARAMS False of
           Inl _ \<Rightarrow> None
         | Inr env \<Rightarrow>
             if \<not> sig_canonical cd (obj_get env ''sig'') then None
             else (case absoluteTime (cd_parse cd) (obj_get env ''exp'') of
               None \<Rightarrow> None
             | Some expires \<Rightarrow>
                 if absoluteTime (cd_parse cd) (obj_get env ''ts'') = None then None
                 else Some \<lparr>en_raw = env, en_payload = payload, en_bytes = bytes,
                            en_digest = cd_sha cd (cd_jcs cd env), en_expires = expires\<rparr>))))"

section \<open>Rows\<close>

datatype custody_status = Pending | Received | Expired

record custody_row =
  cu_to_node :: string
  cu_digest :: string
  cu_status :: custody_status
  cu_stored_at :: number
  cu_expires_at :: number
  cu_payload :: "string option"
  cu_payload_bytes :: nat

type_synonym custody_key = "string \<times> string"

type_synonym custody_db = "(custody_key \<times> custody_row) list"

datatype custody_error = Corrupt | Constraint | Range

definition is_digest :: "string \<Rightarrow> bool" where
  "is_digest d = matches (replicate 64 is_hex) d"

definition load_ok :: "codec \<Rightarrow> custody_key \<Rightarrow> custody_row \<Rightarrow> bool" where
  "load_ok cd k r \<longleftrightarrow>
     isUuidStr (fst k) \<and> isUuidStr (snd k) \<and> isUuidStr (cu_to_node r) \<and> is_digest (cu_digest r) \<and>
     validTime (cu_stored_at r) \<and> validTime (cu_expires_at r) \<and> cu_stored_at r < cu_expires_at r \<and>
     cu_expires_at r - cu_stored_at r \<le> MAX_TRANSPORT_LIFETIME_MS \<and>
     (if cu_status r \<noteq> Pending then cu_payload r = None \<and> cu_payload_bytes r = 0
      else (case cu_payload r of
              None \<Rightarrow> False
            | Some p \<Rightarrow>
                cd_bytes cd p \<le> max_bytes \<and>
                (case encode cd (cd_reparse cd p) of
                   None \<Rightarrow> False
                 | Some en \<Rightarrow>
                     en_payload en = p \<and> en_bytes en = cu_payload_bytes r \<and> en_digest en = cu_digest r \<and>
                     en_expires en = cu_expires_at r \<and> e_from_node (envelopeOf (en_raw en)) = fst k \<and>
                     e_to_node (envelopeOf (en_raw en)) = cu_to_node r \<and> e_msg_id (envelopeOf (en_raw en)) = snd k)))"

definition cu_load :: "codec \<Rightarrow> custody_key \<Rightarrow> custody_row \<Rightarrow> custody_error + custody_row" where
  "cu_load cd k r = (if load_ok cd k r then Inr r else Inl Corrupt)"

definition cu_find :: "codec \<Rightarrow> custody_db \<Rightarrow> custody_key \<Rightarrow> custody_error + custody_row option" where
  "cu_find cd db k =
     (case map_of db k of
        None \<Rightarrow> Inr None
      | Some r \<Rightarrow> (case cu_load cd k r of Inl e \<Rightarrow> Inl e | Inr row \<Rightarrow> Inr (Some row)))"

definition closed :: "custody_status \<Rightarrow> custody_row \<Rightarrow> custody_row" where
  "closed st r = r\<lparr>cu_status := st, cu_payload := None, cu_payload_bytes := 0\<rparr>"

definition cu_finish :: "custody_db \<Rightarrow> custody_key \<Rightarrow> custody_status \<Rightarrow> custody_error + custody_db" where
  "cu_finish db k st =
     (case map_of db k of
        Some r \<Rightarrow> if cu_status r = Pending then Inr (AList.update k (closed st r) db) else Inl Corrupt
      | None \<Rightarrow> Inl Corrupt)"

fun expire_rows :: "codec \<Rightarrow> (custody_key \<times> custody_row) list \<Rightarrow> custody_db \<Rightarrow> custody_error + custody_db" where
  "expire_rows cd [] db = Inr db"
| "expire_rows cd ((k, r) # rows) db =
     (case cu_load cd k r of
        Inl e \<Rightarrow> Inl e
      | Inr row \<Rightarrow> (case cu_finish db k Expired of Inl e \<Rightarrow> Inl e | Inr db1 \<Rightarrow> expire_rows cd rows db1))"

definition due :: "number \<Rightarrow> custody_row \<Rightarrow> bool" where
  "due now r \<longleftrightarrow> cu_status r = Pending \<and> cu_expires_at r \<le> now"

definition cu_expire :: "codec \<Rightarrow> custody_db \<Rightarrow> number \<Rightarrow> custody_error + custody_db" where
  "cu_expire cd db now = expire_rows cd (filter (\<lambda>(k, r). due now r) db) db"

section \<open>Operations\<close>

record custody_limits =
  cl_maxEntries :: nat
  cl_maxBytes :: nat
  cl_perNodeEntries :: nat

datatype offer_result = Or_stored | Or_full | Or_conflict | Or_expired | Or_invalid

definition quota :: "number option \<Rightarrow> number \<Rightarrow> custody_error + number" where
  "quota v fallback =
     (let limit = (case v of None \<Rightarrow> fallback | Some x \<Rightarrow> x) in
      if \<not> isSafeInteger limit \<or> limit \<le> 0 then Inl Range else Inr limit)"

definition retentionWindow :: "number option \<Rightarrow> custody_error + number option" where
  "retentionWindow v =
     (case v of None \<Rightarrow> Inr None | Some x \<Rightarrow> if \<not> isSafeInteger x \<or> x < 0 then Inl Range else Inr (Some x))"

definition total_bytes :: "custody_db \<Rightarrow> nat" where
  "total_bytes db = sum_list (map (\<lambda>(k, r). cu_payload_bytes r) db)"

definition pending_for :: "string \<Rightarrow> custody_db \<Rightarrow> (custody_key \<times> custody_row) list" where
  "pending_for to_node db = filter (\<lambda>(k, r). cu_to_node r = to_node \<and> cu_status r = Pending) db"

definition offerInTransaction ::
  "codec \<Rightarrow> custody_db \<Rightarrow> encoded \<Rightarrow> number \<Rightarrow> custody_limits \<Rightarrow> custody_error + (custody_db \<times> offer_result)" where
  "offerInTransaction cd db en now limits =
     (let env = envelopeOf (en_raw en); k = (e_from_node env, e_msg_id env) in
      (case cu_find cd db k of
         Inl e \<Rightarrow> Inl e
       | Inr (Some existing) \<Rightarrow> Inr (db, if cu_digest existing = en_digest en then Or_stored else Or_conflict)
       | Inr None \<Rightarrow>
           if en_expires en \<le> now then Inr (db, Or_expired)
           else if MAX_TRANSPORT_LIFETIME_MS < en_expires en - now then Inr (db, Or_invalid)
           else (case cu_expire cd db now of
             Inl e \<Rightarrow> Inl e
           | Inr db1 \<Rightarrow>
               if cl_maxEntries limits \<le> length db1 \<or> cl_maxBytes limits < en_bytes en + total_bytes db1 \<or>
                  cl_perNodeEntries limits \<le> length (pending_for (e_to_node env) db1)
               then Inr (db1, Or_full)
               else if en_bytes en = 0 then Inl Constraint
               else Inr (AList.update k \<lparr>cu_to_node = e_to_node env, cu_digest = en_digest en, cu_status = Pending,
                          cu_stored_at = now, cu_expires_at = en_expires en, cu_payload = Some (en_payload en),
                          cu_payload_bytes = en_bytes en\<rparr> db1, Or_stored))))"

definition cu_offer ::
  "codec \<Rightarrow> custody_limits \<Rightarrow> custody_db \<Rightarrow> json \<Rightarrow> number \<Rightarrow> custody_error + (custody_db \<times> offer_result)" where
  "cu_offer cd limits db v now =
     (case encode cd v of
        None \<Rightarrow> Inr (db, Or_invalid)
      | Some en \<Rightarrow> if \<not> validTime now then Inr (db, Or_invalid) else offerInTransaction cd db en now limits)"

fun load_pending :: "codec \<Rightarrow> (custody_key \<times> custody_row) list \<Rightarrow> custody_error + (json \<times> string) list" where
  "load_pending cd [] = Inr []"
| "load_pending cd ((k, r) # rows) =
     (case cu_load cd k r of
        Inl e \<Rightarrow> Inl e
      | Inr row \<Rightarrow>
          (case cu_payload row of
             None \<Rightarrow> Inl Corrupt
           | Some p \<Rightarrow>
               (case encode cd (cd_reparse cd p) of
                  None \<Rightarrow> Inl Corrupt
                | Some en \<Rightarrow>
                    (case load_pending cd rows of
                       Inl e \<Rightarrow> Inl e
                     | Inr rest \<Rightarrow> Inr ((en_raw en, cu_digest row) # rest)))))"

definition cu_pending ::
  "codec \<Rightarrow> custody_db \<Rightarrow> string \<Rightarrow> number \<Rightarrow> nat \<Rightarrow> custody_error + (custody_db \<times> (json \<times> string) list)" where
  "cu_pending cd db toNode now limit =
     (if \<not> isUuidStr toNode \<or> \<not> validTime now then Inr (db, [])
      else (case cu_expire cd db now of
        Inl e \<Rightarrow> Inl e
      | Inr db1 \<Rightarrow>
          (case load_pending cd (take limit (pending_for toNode db1)) of
             Inl e \<Rightarrow> Inl e
           | Inr out \<Rightarrow> Inr (db1, out))))"

definition acknowledge ::
  "codec \<Rightarrow> custody_db \<Rightarrow> string \<Rightarrow> string \<Rightarrow> string \<Rightarrow> string \<Rightarrow> number \<Rightarrow> custody_error + (custody_db \<times> bool)" where
  "acknowledge cd db toNode fromNode msgId digest now =
     (if \<not> isUuidStr toNode \<or> \<not> isUuidStr fromNode \<or> \<not> isUuidStr msgId \<or> \<not> is_digest digest \<or> \<not> validTime now
      then Inr (db, False)
      else (case cu_find cd db (fromNode, msgId) of
        Inl e \<Rightarrow> Inl e
      | Inr None \<Rightarrow> Inr (db, False)
      | Inr (Some row) \<Rightarrow>
          if cu_to_node row \<noteq> toNode \<or> cu_digest row \<noteq> digest \<or> cu_status row = Expired then Inr (db, False)
          else if cu_status row = Received then Inr (db, True)
          else if cu_expires_at row \<le> now
          then (case cu_finish db (fromNode, msgId) Expired of Inl e \<Rightarrow> Inl e | Inr db1 \<Rightarrow> Inr (db1, False))
          else (case cu_finish db (fromNode, msgId) Received of Inl e \<Rightarrow> Inl e | Inr db1 \<Rightarrow> Inr (db1, True))))"

definition outcome ::
  "codec \<Rightarrow> custody_db \<Rightarrow> string \<Rightarrow> string \<Rightarrow> custody_error + (custody_status \<times> string \<times> string) option" where
  "outcome cd db fromNode msgId =
     (if \<not> isUuidStr fromNode \<or> \<not> isUuidStr msgId then Inr None
      else (case cu_find cd db (fromNode, msgId) of
        Inl e \<Rightarrow> Inl e
      | Inr None \<Rightarrow> Inr None
      | Inr (Some row) \<Rightarrow> Inr (Some (cu_status row, cu_digest row, cu_to_node row))))"

definition prunable :: "number \<Rightarrow> custody_row \<Rightarrow> bool" where
  "prunable cutoff r \<longleftrightarrow> cu_status r \<noteq> Pending \<and> cu_stored_at r \<le> cutoff"

definition prune ::
  "codec \<Rightarrow> number option \<Rightarrow> custody_db \<Rightarrow> number \<Rightarrow> custody_error + (custody_db \<times> nat)" where
  "prune cd retentionMs db now =
     (case retentionMs of
        None \<Rightarrow> Inr (db, 0)
      | Some ret \<Rightarrow>
          if \<not> validTime now then Inr (db, 0)
          else
            (let cutoff = now - ret; rows = filter (\<lambda>(k, r). prunable cutoff r) db in
             if \<not> list_all (\<lambda>(k, r). load_ok cd k r) rows then Inl Corrupt
             else Inr (filter (\<lambda>(k, r). \<not> prunable cutoff r) db, length rows)))"

text \<open>The constructor refuses to serve a table with an invalid row.\<close>

definition newSqliteCustodyStore ::
  "codec \<Rightarrow> custody_db \<Rightarrow> number option \<Rightarrow> number option \<Rightarrow> number option \<Rightarrow> number option
     \<Rightarrow> custody_error + (number \<times> number \<times> number \<times> number option)" where
  "newSqliteCustodyStore cd db maxEntries maxBytes perNodeEntries retentionMs =
     (case quota maxEntries 10000 of
        Inl e \<Rightarrow> Inl e
      | Inr me \<Rightarrow>
        (case quota maxBytes (64 * 1024 * 1024) of
           Inl e \<Rightarrow> Inl e
         | Inr mb \<Rightarrow>
           (case quota perNodeEntries 1000 of
              Inl e \<Rightarrow> Inl e
            | Inr pn \<Rightarrow>
              (case retentionWindow retentionMs of
                 Inl e \<Rightarrow> Inl e
               | Inr ret \<Rightarrow>
                 if list_all (\<lambda>(k, r). load_ok cd k r) db then Inr (me, mb, pn, ret) else Inl Corrupt))))"

end
