(* ===== verification/Gateway_Custody_Props.thy ===== *)
theory Gateway_Custody_Props
  imports Gateway_Custody
begin

text \<open>
  What custody promises: no operation ever leaves an invalid row or raises, a stored message stays
  deliverable until it is acknowledged or expires, its identity is settled by the first offer, and the
  quotas hold at every moment.
\<close>

section \<open>Encoding is stable\<close>

definition codec_ok :: "codec \<Rightarrow> bool" where
  "codec_ok cd \<longleftrightarrow>
     (\<forall>v. cd_jcs cd (cd_reparse cd (cd_jcs cd v)) = cd_jcs cd v) \<and>
     (\<forall>v. jsonSnapshot v (int max_bytes) 0 \<noteq> None \<longrightarrow>
        jsonSnapshot (cd_reparse cd (cd_jcs cd v)) (int max_bytes) 0 \<noteq> None) \<and>
     (\<forall>s. is_digest (cd_sha cd s)) \<and> (\<forall>v. 0 < cd_bytes cd (cd_jcs cd v))"

lemma encode_facts:
  assumes "encode cd v = Some en"
  shows "en_payload en = cd_jcs cd v" "en_raw en = cd_reparse cd (cd_jcs cd v)" "en_bytes en = cd_bytes cd (cd_jcs cd v)"
    "en_bytes en \<le> max_bytes" "en_digest en = cd_sha cd (cd_jcs cd (en_raw en))" "validTime (en_expires en)"
    "common_ok (cd_parse cd) (en_raw en)"
proof -
  let ?raw = "cd_reparse cd (cd_jcs cd v)"
  obtain env where env: "validateEnvelope (cd_parse cd) (cd_b64len cd) ?raw DEFAULT_PARAMS False = Inr env"
    using assms by (auto simp: encode_def Let_def split: if_splits sum.splits)
  have raw: "env = ?raw" using env by (auto simp: validateEnvelope_def Let_def split: if_splits)
  have "common_ok (cd_parse cd) ?raw" using validate_iff env by blast
  moreover have "validTime t" if "absoluteTime (cd_parse cd) x = Some t" for x t
    using that by (auto simp: absoluteTime_def Let_def split: option.splits if_splits)
  ultimately show "en_payload en = cd_jcs cd v" "en_raw en = cd_reparse cd (cd_jcs cd v)" "en_bytes en = cd_bytes cd (cd_jcs cd v)"
    "en_bytes en \<le> max_bytes" "en_digest en = cd_sha cd (cd_jcs cd (en_raw en))" "validTime (en_expires en)"
    "common_ok (cd_parse cd) (en_raw en)"
    using assms env raw by (auto simp: encode_def Let_def split: if_splits option.splits)
qed

lemma encode_stable:
  assumes "codec_ok cd" "encode cd v = Some en"
  shows "encode cd (cd_reparse cd (en_payload en)) = Some en"
proof -
  have p: "en_payload en = cd_jcs cd v" using encode_facts [OF assms(2)] by simp
  have fix1: "cd_jcs cd (cd_reparse cd (cd_jcs cd v)) = cd_jcs cd v" using assms(1) by (simp add: codec_ok_def)
  have "jsonSnapshot v (int max_bytes) 0 \<noteq> None"
    using assms(2) by (auto simp: encode_def split: if_splits)
  then have "jsonSnapshot (cd_reparse cd (cd_jcs cd v)) (int max_bytes) 0 \<noteq> None"
    using assms(1) by (simp add: codec_ok_def)
  then show ?thesis using assms(2) unfolding p encode_def fix1 by (auto split: if_splits)
qed

lemma envelope_ids:
  assumes "common_ok parse raw"
  shows "isUuidStr (e_from_node (envelopeOf raw))" "isUuidStr (e_to_node (envelopeOf raw))" "isUuidStr (e_msg_id (envelopeOf raw))"
  using assms by (auto simp: common_ok_def envelopeOf_def Let_def isUuid_def str_or_def split: option.splits json.splits)

section \<open>The table invariant\<close>

definition custody_inv :: "codec \<Rightarrow> custody_db \<Rightarrow> bool" where
  "custody_inv cd db \<longleftrightarrow> wf_map db \<and> (\<forall>k r. map_of db k = Some r \<longrightarrow> load_ok cd k r)"

lemma load_ok_closed: "load_ok cd k r \<Longrightarrow> st \<noteq> Pending \<Longrightarrow> load_ok cd k (closed st r)"
  by (simp add: load_ok_def closed_def)

lemma closed_sel [simp]:
  "cu_status (closed st r) = st" "cu_payload_bytes (closed st r) = 0" "cu_to_node (closed st r) = cu_to_node r"
  "cu_digest (closed st r) = cu_digest r" "cu_expires_at (closed st r) = cu_expires_at r"
  "cu_stored_at (closed st r) = cu_stored_at r"
  by (simp_all add: closed_def)

lemma update_present:
  "wf_map m \<Longrightarrow> map_of m k = Some r \<Longrightarrow> AList.update k v m = map (\<lambda>(k', r'). (k', if k' = k then v else r')) m"
proof (induction m)
  case Nil
  then show ?case by simp
next
  case (Cons x m)
  obtain k1 r1 where x: "x = (k1, r1)" by (cases x)
  show ?case
  proof (cases "k1 = k")
    case True
    with Cons.prems x have "k \<notin> fst ` set m" by (auto simp: wf_map_def)
    then have "map (\<lambda>(k', r'). (k', if k' = k then v else r')) m = m"
      by (intro map_idI) (auto simp: image_iff)
    with True x show ?thesis by simp
  next
    case False
    with Cons x show ?thesis by (simp add: wf_map_def)
  qed
qed

definition expired_db :: "number \<Rightarrow> custody_db \<Rightarrow> custody_db" where
  "expired_db now db = map (\<lambda>(k, r). (k, if due now r then closed Expired r else r)) db"

lemma map_of_map_val: "map_of (map (\<lambda>(k, r). (k, f k r)) m) k = map_option (f k) (map_of m k)"
  by (induction m) auto

lemma map_val_fst [simp]: "map fst (map (\<lambda>(k, r). (k, f k r)) m) = map fst m"
  by (simp add: case_prod_beta comp_def)

lemma wf_map_val [simp]: "wf_map (map (\<lambda>(k, r). (k, f k r)) m) = wf_map m"
  unfolding wf_map_def map_val_fst ..

lemma map_of_expired: "map_of (expired_db now db) k = map_option (\<lambda>r. if due now r then closed Expired r else r) (map_of db k)"
  unfolding expired_db_def by (rule map_of_map_val)

lemma expire_rows_eq:
  assumes "wf_map db" "distinct (map fst rows)"
    and "\<forall>(k, r) \<in> set rows. map_of db k = Some r \<and> cu_status r = Pending \<and> load_ok cd k r"
  shows "expire_rows cd rows db = Inr (map (\<lambda>(k, r). (k, if k \<in> fst ` set rows then closed Expired r else r)) db)"
  using assms
proof (induction rows arbitrary: db)
  case Nil
  then show ?case by (simp add: case_prod_beta)
next
  case (Cons x rows)
  obtain k r where x: "x = (k, r)" by (cases x)
  have k: "map_of db k = Some r" "cu_status r = Pending" "load_ok cd k r" "k \<notin> fst ` set rows"
    using Cons.prems x by auto
  let ?db = "AList.update k (closed Expired r) db"
  have "\<forall>(k', r') \<in> set rows. map_of ?db k' = Some r' \<and> cu_status r' = Pending \<and> load_ok cd k' r'"
  proof safe
    fix a c r'
    assume "((a, c), r') \<in> set rows"
    moreover from this have "(a, c) \<noteq> k" using k(4) by force
    ultimately show "map_of ?db (a, c) = Some r'" "cu_status r' = Pending" "load_ok cd (a, c) r'"
      using Cons.prems(3) by auto
  qed
  then have "expire_rows cd rows ?db = Inr (map (\<lambda>(k, r). (k, if k \<in> fst ` set rows then closed Expired r else r)) ?db)"
    using Cons.IH [of ?db] Cons.prems by simp
  moreover have "map (\<lambda>(k, r). (k, if k \<in> fst ` set rows then closed Expired r else r)) ?db =
      map (\<lambda>(k, r). (k, if k \<in> fst ` set (x # rows) then closed Expired r else r)) db"
    using k(1,4) wf_map_lookup [OF Cons.prems(1)] x
    by (auto simp: update_present [OF Cons.prems(1) k(1)] comp_def)
  ultimately show ?case using x k by (simp add: cu_load_def cu_finish_def)
qed

lemma cu_expire_eq:
  assumes "custody_inv cd db"
  shows "cu_expire cd db now = Inr (expired_db now db)"
proof -
  let ?rows = "filter (\<lambda>(k, r). due now r) db"
  have wf: "wf_map db" using assms by (simp add: custody_inv_def)
  have rows: "\<forall>(k, r) \<in> set ?rows. map_of db k = Some r \<and> cu_status r = Pending \<and> load_ok cd k r"
    using assms by (auto simp: custody_inv_def due_def wf_map_lookup [OF wf])
  have key: "k \<in> fst ` set ?rows \<longleftrightarrow> due now r" if "(k, r) \<in> set db" for k r
    using that wf by (force simp: wf_map_lookup)
  have "distinct (map fst ?rows)" using wf wf_map_filter by (simp add: wf_map_def distinct_fst_filter)
  from expire_rows_eq [OF wf this rows] show ?thesis
    unfolding cu_expire_def expired_db_def using key by (auto intro!: map_cong)
qed

lemma custody_inv_expired: "custody_inv cd db \<Longrightarrow> custody_inv cd (expired_db now db)"
  by (auto simp: custody_inv_def map_of_expired load_ok_closed) (simp add: expired_db_def)

lemma custody_inv_update: "custody_inv cd db \<Longrightarrow> load_ok cd k r \<Longrightarrow> custody_inv cd (AList.update k r db)"
  by (simp add: custody_inv_def)

lemma cu_find_eq: "custody_inv cd db \<Longrightarrow> cu_find cd db k = Inr (map_of db k)"
  by (cases "map_of db k") (simp_all add: cu_find_def cu_load_def custody_inv_def del: split_paired_All)

text \<open>The row an accepted offer inserts.\<close>

definition new_row :: "encoded \<Rightarrow> number \<Rightarrow> custody_row" where
  "new_row en now = \<lparr>cu_to_node = e_to_node (envelopeOf (en_raw en)), cu_digest = en_digest en, cu_status = Pending,
     cu_stored_at = now, cu_expires_at = en_expires en, cu_payload = Some (en_payload en), cu_payload_bytes = en_bytes en\<rparr>"

definition key_of :: "encoded \<Rightarrow> custody_key" where
  "key_of en = (e_from_node (envelopeOf (en_raw en)), e_msg_id (envelopeOf (en_raw en)))"

lemma new_row_ok:
  assumes "codec_ok cd" "encode cd v = Some en" "validTime now" "now < en_expires en"
    "en_expires en - now \<le> MAX_TRANSPORT_LIFETIME_MS"
  shows "load_ok cd (key_of en) (new_row en now)"
proof -
  note f = encode_facts [OF assms(2)]
  have "is_digest (en_digest en)" using assms(1) f(5) by (simp add: codec_ok_def)
  with f envelope_ids [OF f(7)] encode_stable [OF assms(1,2)] assms(3-5) show ?thesis
    by (simp add: load_ok_def new_row_def key_of_def)
qed

text \<open>What an offer does, on every branch.\<close>

lemma offer_cases:
  assumes "codec_ok cd" "custody_inv cd db"
  obtains (invalid) "cu_offer cd limits db v now = Inr (db, Or_invalid)"
  | (known) en r where "encode cd v = Some en" "validTime now" "map_of db (key_of en) = Some r"
      "cu_offer cd limits db v now = Inr (db, if cu_digest r = en_digest en then Or_stored else Or_conflict)"
  | (late) en where "encode cd v = Some en" "map_of db (key_of en) = None" "en_expires en \<le> now"
      "cu_offer cd limits db v now = Inr (db, Or_expired)"
  | (full) en where "encode cd v = Some en" "map_of db (key_of en) = None"
      "cu_offer cd limits db v now = Inr (expired_db now db, Or_full)"
  | (stored) en where "encode cd v = Some en" "map_of db (key_of en) = None" "validTime now"
      "load_ok cd (key_of en) (new_row en now)" "length db < cl_maxEntries limits"
      "en_bytes en + total_bytes (expired_db now db) \<le> cl_maxBytes limits"
      "length (pending_for (e_to_node (envelopeOf (en_raw en))) (expired_db now db)) < cl_perNodeEntries limits"
      "cu_offer cd limits db v now = Inr (AList.update (key_of en) (new_row en now) (expired_db now db), Or_stored)"
proof (cases "encode cd v")
  case None
  then show ?thesis by (intro invalid) (simp add: cu_offer_def)
next
  case en: (Some en)
  show ?thesis
  proof (cases "validTime now")
    case False
    with en show ?thesis by (intro invalid) (simp add: cu_offer_def)
  next
    case t: True
    have off: "cu_offer cd limits db v now = offerInTransaction cd db en now limits"
      using en t by (simp add: cu_offer_def)
    have bytes: "en_bytes en \<noteq> 0" using assms(1) encode_facts(3) [OF en] by (simp add: codec_ok_def)
    note fe = cu_find_eq [OF assms(2), of "key_of en"] cu_expire_eq [OF assms(2), of now]
    have len: "length (expired_db now db) = length db" by (simp add: expired_db_def)
    show ?thesis
    proof (cases "map_of db (key_of en)")
      case (Some r)
      with fe(1) off en t show ?thesis
        by (intro known [of en r]) (simp_all add: offerInTransaction_def Let_def key_of_def)
    next
      case new: None
      consider "en_expires en \<le> now" | "now < en_expires en" "MAX_TRANSPORT_LIFETIME_MS < en_expires en - now"
        | (live) "now < en_expires en" "en_expires en - now \<le> MAX_TRANSPORT_LIFETIME_MS" by linarith
      then show ?thesis
      proof cases
        case 1
        with new fe off en show ?thesis
          by (intro late [of en]) (simp_all add: offerInTransaction_def Let_def key_of_def)
      next
        case 2
        with new fe off en show ?thesis
          by (intro invalid) (simp add: offerInTransaction_def Let_def key_of_def)
      next
        case live
        show ?thesis
        proof (cases "cl_maxEntries limits \<le> length db \<or> cl_maxBytes limits < en_bytes en + total_bytes (expired_db now db) \<or>
            cl_perNodeEntries limits \<le> length (pending_for (e_to_node (envelopeOf (en_raw en))) (expired_db now db))")
          case True
          with new fe off en live len show ?thesis
            by (intro full [of en]) (auto simp: offerInTransaction_def Let_def key_of_def)
        next
          case False
          with new fe off en live len bytes t new_row_ok [OF assms(1) en t live] show ?thesis
            by (intro stored [of en]) (auto simp: offerInTransaction_def Let_def key_of_def new_row_def)
        qed
      qed
    qed
  qed
qed

lemma ack_cases:
  assumes "custody_inv cd db"
  obtains (same) ok' where "acknowledge cd db to_node f mid dg now = Inr (db, ok')"
  | (changed) r st where "map_of db (f, mid) = Some r" "cu_status r = Pending" "cu_to_node r = to_node" "cu_digest r = dg"
      "st = (if cu_expires_at r \<le> now then Expired else Received)"
      "acknowledge cd db to_node f mid dg now = Inr (AList.update (f, mid) (closed st r) db, st = Received)"
proof -
  consider (bad) "\<not> isUuidStr to_node \<or> \<not> isUuidStr f \<or> \<not> isUuidStr mid \<or> \<not> is_digest dg \<or> \<not> validTime now"
    | (none) "map_of db (f, mid) = None"
    | (some) r where "isUuidStr to_node" "isUuidStr f" "isUuidStr mid" "is_digest dg" "validTime now" "map_of db (f, mid) = Some r"
    by (cases "map_of db (f, mid)") auto
  then show ?thesis
  proof cases
    case bad
    then show ?thesis by (intro same [of False]) (auto simp: acknowledge_def)
  next
    case none
    then show ?thesis by (intro same [of False]) (auto simp: acknowledge_def cu_find_eq [OF assms])
  next
    case some
    have fe: "cu_find cd db (f, mid) = Inr (Some r)" using some(6) cu_find_eq [OF assms] by simp
    show ?thesis
    proof (cases "cu_to_node r = to_node \<and> cu_digest r = dg \<and> cu_status r = Pending")
      case True
      with some fe show ?thesis
        by (intro changed [OF some(6), of "if cu_expires_at r \<le> now then Expired else Received"])
          (auto simp: acknowledge_def cu_finish_def)
    next
      case False
      show ?thesis
      proof (cases "cu_to_node r \<noteq> to_node \<or> cu_digest r \<noteq> dg \<or> cu_status r = Expired")
        case True
        with some fe show ?thesis by (intro same [of False]) (auto simp: acknowledge_def)
      next
        case ok: False
        with False have "cu_status r = Received" by (cases "cu_status r") auto
        with ok some fe show ?thesis by (intro same [of True]) (auto simp: acknowledge_def)
      qed
    qed
  qed
qed

section \<open>The store as a step function\<close>

datatype cu_op =
    Cu_offer json number
  | Cu_pending string number nat
  | Cu_ack string string string string number
  | Cu_prune number

datatype cu_out =
    Co_offer offer_result
  | Co_pending "(json \<times> string) list"
  | Co_ack bool
  | Co_pruned nat
  | Co_raised custody_error

fun cu_step :: "codec \<Rightarrow> custody_limits \<Rightarrow> number option \<Rightarrow> custody_db \<Rightarrow> cu_op \<Rightarrow> custody_db \<times> cu_out list" where
  "cu_step cd limits ret db (Cu_offer v now) =
     (case cu_offer cd limits db v now of Inl e \<Rightarrow> (db, [Co_raised e]) | Inr (db', x) \<Rightarrow> (db', [Co_offer x]))"
| "cu_step cd limits ret db (Cu_pending n now limit) =
     (case cu_pending cd db n now limit of Inl e \<Rightarrow> (db, [Co_raised e]) | Inr (db', x) \<Rightarrow> (db', [Co_pending x]))"
| "cu_step cd limits ret db (Cu_ack t f m d now) =
     (case acknowledge cd db t f m d now of Inl e \<Rightarrow> (db, [Co_raised e]) | Inr (db', x) \<Rightarrow> (db', [Co_ack x]))"
| "cu_step cd limits ret db (Cu_prune now) =
     (case prune cd ret db now of Inl e \<Rightarrow> (db, [Co_raised e]) | Inr (db', x) \<Rightarrow> (db', [Co_pruned x]))"

lemma load_pending_ok:
  assumes "\<forall>(k, r) \<in> set rows. load_ok cd k r \<and> cu_status r = Pending"
  shows "load_pending cd rows =
    Inr (map (\<lambda>(k, r). (en_raw (the (encode cd (cd_reparse cd (the (cu_payload r))))), cu_digest r)) rows)"
  using assms
proof (induction rows)
  case Nil
  then show ?case by simp
next
  case (Cons x rows)
  obtain k r where x: "x = (k, r)" by (cases x)
  with Cons.prems have l: "load_ok cd k r" "cu_status r = Pending" by auto
  then obtain p en where "cu_payload r = Some p" "encode cd (cd_reparse cd p) = Some en"
    by (auto simp: load_ok_def split: option.splits)
  with Cons x l show ?case by (simp add: cu_load_def)
qed

lemma pending_for_rows:
  assumes "custody_inv cd db"
  shows "\<forall>(k, r) \<in> set (take limit (pending_for n db)). load_ok cd k r \<and> cu_status r = Pending"
proof safe
  fix a c r
  assume "((a, c), r) \<in> set (take limit (pending_for n db))"
  then have m: "((a, c), r) \<in> set db" "cu_status r = Pending"
    by (auto simp: pending_for_def dest: in_set_takeD)
  have wf: "wf_map db" using assms by (simp add: custody_inv_def)
  from m assms show "load_ok cd (a, c) r" "cu_status r = Pending"
    by (auto simp: custody_inv_def wf_map_lookup [OF wf])
qed

lemma cu_pending_eq:
  assumes "custody_inv cd db" "isUuidStr n" "validTime now"
  shows "cu_pending cd db n now limit = Inr (expired_db now db,
    map (\<lambda>(k, r). (en_raw (the (encode cd (cd_reparse cd (the (cu_payload r))))), cu_digest r))
      (take limit (pending_for n (expired_db now db))))"
  using assms load_pending_ok [OF pending_for_rows [OF custody_inv_expired [OF assms(1)]]]
  by (simp add: cu_pending_def cu_expire_eq)

lemma prune_eq:
  assumes "custody_inv cd db"
  shows "prune cd ret db now = Inr (if ret = None \<or> \<not> validTime now then (db, 0)
    else (filter (\<lambda>(k, r). \<not> prunable (now - the ret) r) db, length (filter (\<lambda>(k, r). prunable (now - the ret) r) db)))"
proof -
  have wf: "wf_map db" using assms by (simp add: custody_inv_def)
  have "list_all (\<lambda>(k, r). load_ok cd k r) (filter P db)" for P
    using assms by (auto simp: list_all_iff custody_inv_def wf_map_lookup [OF wf])
  then show ?thesis by (simp add: prune_def Let_def split: option.split)
qed

text \<open>Each call, as a transformation of the table.\<close>

lemma cu_step_cases:
  assumes "codec_ok cd" "custody_inv cd db"
  obtains (same) "fst (cu_step cd limits ret db op) = db"
  | (expired) n now limit v where "op = Cu_pending n now limit \<or> op = Cu_offer v now" "fst (cu_step cd limits ret db op) = expired_db now db"
  | (inserted) v now en where "op = Cu_offer v now" "encode cd v = Some en" "map_of db (key_of en) = None"
      "load_ok cd (key_of en) (new_row en now)" "length db < cl_maxEntries limits"
      "en_bytes en + total_bytes (expired_db now db) \<le> cl_maxBytes limits"
      "length (pending_for (e_to_node (envelopeOf (en_raw en))) (expired_db now db)) < cl_perNodeEntries limits"
      "fst (cu_step cd limits ret db op) = AList.update (key_of en) (new_row en now) (expired_db now db)"
  | (closed) t f m d now r where "op = Cu_ack t f m d now" "map_of db (f, m) = Some r" "cu_status r = Pending"
      "cu_to_node r = t" "cu_digest r = d"
      "fst (cu_step cd limits ret db op) =
         AList.update (f, m) (closed (if cu_expires_at r \<le> now then Expired else Received) r) db"
  | (pruned) now where "op = Cu_prune now" "ret \<noteq> None"
      "fst (cu_step cd limits ret db op) = filter (\<lambda>(k, r). \<not> prunable (now - the ret) r) db"
proof (cases op)
  case (Cu_offer v now)
  show ?thesis
    by (cases rule: offer_cases [OF assms, of limits v now])
      (use Cu_offer same expired inserted in \<open>auto\<close>)
next
  case (Cu_pending n now limit)
  show ?thesis
  proof (cases "isUuidStr n \<and> validTime now")
    case True
    with Cu_pending expired [of n now limit] cu_pending_eq [OF assms(2), of n now limit] show ?thesis by auto
  next
    case False
    with Cu_pending same show ?thesis by (auto simp: cu_pending_def)
  qed
next
  case (Cu_ack t f m d now)
  show ?thesis
    by (cases rule: ack_cases [OF assms(2), of t f m d now]) (use Cu_ack same closed in \<open>auto\<close>)
next
  case (Cu_prune now)
  with same pruned [of now] prune_eq [OF assms(2), of ret now] show ?thesis by (auto split: if_splits)
qed

lemma cu_step_inv:
  assumes "codec_ok cd" "custody_inv cd db"
  shows "custody_inv cd (fst (cu_step cd limits ret db op))"
proof (cases rule: cu_step_cases [OF assms, of limits ret op])
  case 1
  with assms show ?thesis by simp
next
  case (2 n now limit v)
  with assms show ?thesis by (simp add: custody_inv_expired)
next
  case (3 v now en)
  with assms show ?thesis by (simp add: custody_inv_update custody_inv_expired)
next
  case (4 t f m d now r)
  have "load_ok cd (f, m) r" using assms(2) 4(2) by (simp add: custody_inv_def)
  then have "load_ok cd (f, m) (closed st r)" if "st \<noteq> Pending" for st using that by (rule load_ok_closed)
  with 4 assms show ?thesis by (auto intro!: custody_inv_update)
next
  case (5 now)
  have wf: "wf_map db" using assms(2) by (simp add: custody_inv_def)
  have "\<forall>k r. map_of (filter (\<lambda>(k, r). \<not> prunable (now - the ret) r) db) k = Some r \<longrightarrow> load_ok cd k r"
    using assms(2) map_of_filter_wf [OF wf, of "\<lambda>k r. \<not> prunable (now - the ret) r"]
    by (simp add: custody_inv_def split: option.splits if_splits del: split_paired_All)
  with 5 wf show ?thesis by (simp add: custody_inv_def del: split_paired_All)
qed

text \<open>No call on a valid table raises.\<close>

lemma cu_step_no_raise:
  assumes "codec_ok cd" "custody_inv cd db"
  shows "Co_raised e \<notin> set (snd (cu_step cd limits ret db op))"
proof (cases op)
  case (Cu_offer v now)
  show ?thesis by (cases rule: offer_cases [OF assms, of limits v now]) (use Cu_offer in auto)
next
  case (Cu_pending n now limit)
  show ?thesis
    using Cu_pending cu_pending_eq [OF assms(2), of n now limit]
    by (cases "isUuidStr n \<and> validTime now") (auto simp: cu_pending_def)
next
  case (Cu_ack t f m d now)
  show ?thesis by (cases rule: ack_cases [OF assms(2), of t f m d now]) (use Cu_ack in auto)
next
  case (Cu_prune now)
  then show ?thesis using prune_eq [OF assms(2), of ret now] by auto
qed

section \<open>Quotas\<close>

definition within_quota :: "custody_limits \<Rightarrow> custody_db \<Rightarrow> bool" where
  "within_quota limits db \<longleftrightarrow>
     length db \<le> cl_maxEntries limits \<and> total_bytes db \<le> cl_maxBytes limits \<and>
     (\<forall>n. length (pending_for n db) \<le> cl_perNodeEntries limits)"

text \<open>Closing or removing rows only lowers what is counted.\<close>

definition shrinks :: "custody_db \<Rightarrow> custody_db \<Rightarrow> bool" where
  "shrinks db' db \<longleftrightarrow>
     length db' \<le> length db \<and> total_bytes db' \<le> total_bytes db \<and>
     (\<forall>n. length (pending_for n db') \<le> length (pending_for n db))"

lemma quota_shrinks: "within_quota limits db \<Longrightarrow> shrinks db' db \<Longrightarrow> within_quota limits db'"
  by (auto simp: within_quota_def shrinks_def intro: order_trans)

lemma shrinks_map:
  assumes "\<And>k r. f k r = r \<or> (\<exists>st. st \<noteq> Pending \<and> f k r = closed st r)"
  shows "shrinks (map (\<lambda>(k, r). (k, f k r)) db) db"
proof (induction db)
  case Nil
  then show ?case by (simp add: shrinks_def)
next
  case (Cons x db)
  obtain k r where x: "x = (k, r)" by (cases x)
  have "cu_payload_bytes (f k r) \<le> cu_payload_bytes r"
    "cu_to_node (f k r) = n \<and> cu_status (f k r) = Pending \<Longrightarrow> cu_to_node r = n \<and> cu_status r = Pending" for n
    using assms [of k r] by auto
  with Cons x show ?case by (auto simp: shrinks_def total_bytes_def pending_for_def intro: add_mono le_SucI)
qed

lemma shrinks_expired: "shrinks (expired_db now db) db"
  unfolding expired_db_def by (rule shrinks_map) auto

lemma shrinks_filter: "shrinks (filter P db) db"
proof (induction db)
  case Nil
  then show ?case by (simp add: shrinks_def)
next
  case (Cons x db)
  then show ?case by (auto simp: shrinks_def total_bytes_def pending_for_def case_prod_beta intro: le_SucI trans_le_add2)
qed

lemma shrinks_close:
  assumes "wf_map db" "map_of db k = Some r" "st \<noteq> Pending"
  shows "shrinks (AList.update k (closed st r) db) db"
proof -
  have "AList.update k (closed st r) db = map (\<lambda>(k', r'). (k', if k' = k then closed st r' else r')) db"
    unfolding update_present [OF assms(1,2)] using wf_map_lookup [OF assms(1)] assms(2) by (intro map_cong) auto
  moreover have "shrinks (map (\<lambda>(k', r'). (k', if k' = k then closed st r' else r')) db) db"
    using assms(3) by (intro shrinks_map) auto
  ultimately show ?thesis by simp
qed

lemma cu_step_quota:
  assumes "codec_ok cd" "custody_inv cd db" "within_quota limits db"
  shows "within_quota limits (fst (cu_step cd limits ret db op))"
proof (cases rule: cu_step_cases [OF assms(1,2), of limits ret op])
  case 1
  with assms show ?thesis by simp
next
  case (2 n now limit v)
  with quota_shrinks [OF assms(3) shrinks_expired] show ?thesis by simp
next
  case (3 v now en)
  have q: "within_quota limits (expired_db now db)" by (rule quota_shrinks [OF assms(3) shrinks_expired])
  have "map_of (expired_db now db) (key_of en) = None" using 3(3) by (simp add: map_of_expired)
  then have "fst (cu_step cd limits ret db op) = expired_db now db @ [(key_of en, new_row en now)]"
    using 3(8) update_fresh by simp
  moreover have "length (expired_db now db) = length db" by (simp add: expired_db_def)
  ultimately show ?thesis
    using q 3(5-7) by (auto simp: within_quota_def total_bytes_def pending_for_def new_row_def)
next
  case (4 t f m d now r)
  have wf: "wf_map db" using assms(2) by (simp add: custody_inv_def)
  from 4 quota_shrinks [OF assms(3) shrinks_close [OF wf 4(2)]] show ?thesis by simp
next
  case (5 now)
  with quota_shrinks [OF assms(3) shrinks_filter] show ?thesis by simp
qed

definition custody_ok :: "codec \<Rightarrow> custody_limits \<Rightarrow> custody_db \<Rightarrow> bool" where
  "custody_ok cd limits db \<longleftrightarrow> (codec_ok cd \<longrightarrow> custody_inv cd db \<and> within_quota limits db)"

interpretation cu: invariant_machine "cu_step cd limits ret" "custody_ok cd limits" for cd limits ret
  by unfold_locales (auto simp: custody_ok_def cu_step_inv cu_step_quota simp del: cu_step.simps)

lemma custody_ok_Nil: "custody_ok cd limits []"
  by (simp add: custody_ok_def custody_inv_def within_quota_def total_bytes_def pending_for_def)

section \<open>A stored message stays\<close>

fun op_time :: "cu_op \<Rightarrow> number" where
  "op_time (Cu_offer v now) = now"
| "op_time (Cu_pending n now limit) = now"
| "op_time (Cu_ack t f m d now) = now"
| "op_time (Cu_prune now) = now"

definition acks :: "cu_op \<Rightarrow> custody_key \<Rightarrow> custody_row \<Rightarrow> bool" where
  "acks op k r \<longleftrightarrow> (\<exists>now. op = Cu_ack (cu_to_node r) (fst k) (snd k) (cu_digest r) now)"

lemma step_keeps_pending:
  assumes "codec_ok cd" "custody_inv cd db" "map_of db k = Some r" "cu_status r = Pending"
    and "op_time op < cu_expires_at r" "\<not> acks op k r"
  shows "map_of (fst (cu_step cd limits ret db op)) k = Some r"
proof (cases rule: cu_step_cases [OF assms(1,2), of limits ret op])
  case 1
  with assms show ?thesis by simp
next
  case (2 n now limit v)
  then have "op_time op = now" by auto
  with 2 assms show ?thesis by (simp add: map_of_expired due_def)
next
  case (3 v now en)
  then have "key_of en \<noteq> k" using assms(3) by auto
  with 3 assms show ?thesis by (simp add: map_of_expired due_def)
next
  case (4 t f m d now r')
  have "(f, m) \<noteq> k"
  proof
    assume "(f, m) = k"
    with 4 assms(3) have "r' = r" by simp
    with 4 assms(6) \<open>(f, m) = k\<close> show False by (auto simp: acks_def)
  qed
  with 4 assms show ?thesis by simp
next
  case (5 now)
  have wf: "wf_map db" using assms(2) by (simp add: custody_inv_def)
  with 5 assms(3,4) map_of_filter_wf [OF wf, of "\<lambda>k r. \<not> prunable (now - the ret) r" k] show ?thesis
    by (simp add: prunable_def)
qed

lemma run_keeps_pending:
  assumes "codec_ok cd" "custody_inv cd db" "map_of db k = Some r" "cu_status r = Pending"
    and "\<forall>op \<in> set ops. op_time op < cu_expires_at r \<and> \<not> acks op k r"
  shows "map_of (fst (run (cu_step cd limits ret) db ops)) k = Some r \<and>
    custody_inv cd (fst (run (cu_step cd limits ret) db ops))"
  using assms
proof (induction ops arbitrary: db)
  case Nil
  then show ?case by simp
next
  case (Cons op ops)
  let ?db = "fst (cu_step cd limits ret db op)"
  have "custody_inv cd ?db" by (rule cu_step_inv [OF Cons.prems(1,2)])
  moreover have "map_of ?db k = Some r"
    using step_keeps_pending [OF Cons.prems(1-4)] Cons.prems(5) by simp
  ultimately show ?case using Cons by (simp del: run.simps(2) cu_step.simps)
qed

text \<open>The identity of a known message is never forgotten while no retention window is set.\<close>

lemma run_keeps_identity:
  assumes "codec_ok cd" "custody_inv cd db" "map_of db k = Some r"
  shows "custody_inv cd (fst (run (cu_step cd limits None) db ops)) \<and>
    (\<exists>r'. map_of (fst (run (cu_step cd limits None) db ops)) k = Some r' \<and> cu_digest r' = cu_digest r)"
  using assms
proof (induction ops arbitrary: db r)
  case Nil
  then show ?case by simp
next
  case (Cons op ops)
  let ?db = "fst (cu_step cd limits None db op)"
  have inv: "custody_inv cd ?db" by (rule cu_step_inv [OF Cons.prems(1,2)])
  have "\<exists>r'. map_of ?db k = Some r' \<and> cu_digest r' = cu_digest r"
  proof (cases rule: cu_step_cases [OF Cons.prems(1,2), of limits None op])
    case 1
    with Cons.prems show ?thesis by simp
  next
    case (2 n now limit v)
    with Cons.prems show ?thesis by (simp add: map_of_expired)
  next
    case (3 v now en)
    then have "key_of en \<noteq> k" using Cons.prems(3) by auto
    with 3 Cons.prems show ?thesis by (simp add: map_of_expired)
  next
    case (4 t f m d now r')
    with Cons.prems(3) show ?thesis by (cases "k = (f, m)") simp_all
  next
    case (5 now)
    then show ?thesis by simp
  qed
  then obtain r' where "map_of ?db k = Some r'" "cu_digest r' = cu_digest r" by blast
  with Cons.IH [OF Cons.prems(1) inv] show ?case by (simp del: run.simps(2) cu_step.simps)
qed

section \<open>Properties\<close>

text \<open>
  C18: custody loses no message. Once an offer has been stored by a store within its quotas, then after any
  calls made before its expiry that do not acknowledge it, its receiver still gets it from \<open>pending\<close>: the
  original envelope with its digest.
\<close>

theorem custody_no_loss:
  assumes "codec_ok cd" "db = fst (run (cu_step cd limits ret) [] ops0)" "encode cd v = Some en"
    and "map_of db (key_of en) = None" "cu_offer cd limits db v t0 = Inr (db1, Or_stored)"
    and "\<forall>op \<in> set ops. op_time op < en_expires en \<and> \<not> acks op (key_of en) (new_row en t0)"
    and "validTime now" "now < en_expires en"
  shows "\<exists>db2 out. cu_pending cd (fst (run (cu_step cd limits ret) db1 ops)) (e_to_node (envelopeOf (en_raw en))) now
      (length (fst (run (cu_step cd limits ret) db1 ops))) = Inr (db2, out) \<and> (en_raw en, en_digest en) \<in> set out"
proof -
  let ?to = "e_to_node (envelopeOf (en_raw en))" and ?db = "fst (run (cu_step cd limits ret) db1 ops)"
  have inv: "custody_inv cd db"
    using cu.inv_run [OF custody_ok_Nil, of cd limits ret ops0] assms(1,2) by (simp add: custody_ok_def)
  have db1: "map_of db1 (key_of en) = Some (new_row en t0)" "custody_inv cd db1"
  proof -
    have i1: "custody_inv cd (fst (cu_step cd limits ret db (Cu_offer v t0)))" by (rule cu_step_inv [OF assms(1) inv])
    show "custody_inv cd db1" using i1 assms(5) by simp
    show "map_of db1 (key_of en) = Some (new_row en t0)"
      by (cases rule: offer_cases [OF assms(1) inv, of limits v t0]) (use assms(3-5) in auto)
  qed
  have k: "map_of ?db (key_of en) = Some (new_row en t0)" "custody_inv cd ?db"
    using run_keeps_pending [OF assms(1) db1(2,1), of ops limits ret] assms(6) by (simp_all add: new_row_def)
  have to: "isUuidStr ?to" using envelope_ids(2) encode_facts(7) [OF assms(3)] .
  have "map_of (expired_db now ?db) (key_of en) = Some (new_row en t0)"
    using k(1) assms(8) by (simp add: map_of_expired due_def new_row_def)
  then have "(key_of en, new_row en t0) \<in> set (pending_for ?to (expired_db now ?db))"
    by (auto simp: pending_for_def new_row_def dest: map_of_SomeD)
  moreover have "take (length ?db) (pending_for ?to (expired_db now ?db)) = pending_for ?to (expired_db now ?db)"
    by (simp add: pending_for_def expired_db_def le_trans [OF length_filter_le])
  ultimately have "(en_raw en, en_digest en) \<in> set (map (\<lambda>(k, r). (en_raw (the (encode cd (cd_reparse cd (the (cu_payload r))))), cu_digest r))
      (take (length ?db) (pending_for ?to (expired_db now ?db))))"
    using encode_stable [OF assms(1,3)] by (force simp: new_row_def)
  with cu_pending_eq [OF k(2) to assms(7), of "length ?db"] show ?thesis by blast
qed

text \<open>
  an operation's identity is settled once. Without a retention window, whatever happens after a message
  was first stored, offering the same sender and message id again is answered \<open>stored\<close> for the same digest
  and \<open>conflict\<close> for any other, even after acknowledgement or expiry and whatever the quotas; and no
  operation of the store ever raises.
\<close>

theorem custody_identity:
  assumes "codec_ok cd" "db = fst (run (cu_step cd limits None) [] ops0)" "encode cd v = Some en"
    and "cu_offer cd limits db v t0 = Inr (db1, Or_stored)"
    and "encode cd v' = Some en'" "key_of en' = key_of en" "validTime now"
    and "db2 = fst (run (cu_step cd limits None) db1 ops)"
  shows "cu_offer cd limits db2 v' now = Inr (db2, if en_digest en' = en_digest en then Or_stored else Or_conflict) \<and>
    Co_raised e \<notin> set (snd (cu_step cd limits None db2 op))"
proof -
  have inv: "custody_inv cd db"
    using cu.inv_run [OF custody_ok_Nil, of cd limits None ops0] assms(1,2) by (simp add: custody_ok_def)
  have i1: "custody_inv cd db1" using cu_step_inv [OF assms(1) inv, of limits None "Cu_offer v t0"] assms(4) by simp
  have "\<exists>r. map_of db1 (key_of en) = Some r \<and> cu_digest r = en_digest en"
  proof (cases rule: offer_cases [OF assms(1) inv, of limits v t0])
    case (2 en2 r)
    with assms(3,4) show ?thesis by (auto split: if_splits)
  qed (use assms(3,4) in \<open>auto simp: new_row_def\<close>)
  then obtain r where "map_of db1 (key_of en) = Some r" "cu_digest r = en_digest en" by blast
  with run_keeps_identity [OF assms(1) i1, of "key_of en" r limits ops] assms(8)
  obtain r' where r': "map_of db2 (key_of en) = Some r'" "cu_digest r' = en_digest en" and i2: "custody_inv cd db2" by auto
  have "cu_offer cd limits db2 v' now = Inr (db2, if en_digest en' = en_digest en then Or_stored else Or_conflict)"
    using r' assms(5-7) cu_find_eq [OF i2, of "key_of en"]
    by (auto simp: cu_offer_def offerInTransaction_def key_of_def Let_def)
  with cu_step_no_raise [OF assms(1) i2] show ?thesis by blast
qed

text \<open>
  quotas hold at every moment: however the store is used, it never keeps more identities, pending payload
  bytes or pending messages per recipient than configured.
\<close>

theorem custody_quotas:
  assumes "codec_ok cd"
  shows "within_quota limits (fst (run (cu_step cd limits ret) [] ops))"
  using cu.inv_run [OF custody_ok_Nil, of cd limits ret ops] assms by (simp add: custody_ok_def)

text \<open>A concrete codec: one canonical document.\<close>

definition demo_codec :: codec where
  "demo_codec = \<lparr>cd_jcs = (\<lambda>_. ''doc''), cd_reparse = (\<lambda>_. JObj demo_fields), cd_sha = (\<lambda>_. replicate 64 (CHR ''a'')),
     cd_bytes = length, cd_parse = (\<lambda>_. Some 1000), cd_b64len = (\<lambda>_. 64), cd_b64canon = (\<lambda>_. True)\<rparr>"

definition demo_encoded :: encoded where
  "demo_encoded = \<lparr>en_raw = JObj demo_fields, en_payload = ''doc'', en_bytes = 3,
     en_digest = replicate 64 (CHR ''a''), en_expires = 1000\<rparr>"

lemma demo_snapshot_ok: "jsonSnapshot (JObj demo_fields) (int max_bytes) 0 \<noteq> None"
  by (simp add: demo_fields_def max_bytes_def demo_uuid_def)

lemma demo_codec_ok: "codec_ok demo_codec"
  using demo_snapshot_ok
  by (simp add: codec_ok_def demo_codec_def is_digest_def matches_def list_all2_conv_all_nth is_hex_def)

lemma demo_times:
  "absoluteTime (\<lambda>_. Some 1000) (Some (JStr ''2026-09-19T01:02:03.5Z'')) = Some 1000"
  "absoluteTime (\<lambda>_. Some 1000) (Some (JStr ''2026-09-19T01:12:03+08:00'')) = Some 1000"
  by (simp_all add: absoluteTime_def Let_def digits_def js_Number_def digit_value_def month_days_def zone_of_def validTime_def
      is_digit_def)

lemma demo_encode: "encode demo_codec (JObj demo_fields) = Some demo_encoded"
proof -
  have "common_ok (\<lambda>_. Some 1000) (JObj demo_fields)" "family_ok (\<lambda>_. Some 1000) (\<lambda>_. 64) DEFAULT_PARAMS False (JObj demo_fields)"
    by (simp_all add: demo_fields_def common_ok_def family_ok_def family_def signed_ok_def isUuid_def
        isRfc3339_def optionally_def isSafeIntGe_def DEFAULT_PARAMS_def)
  then have "\<exists>v. validateEnvelope (\<lambda>_. Some 1000) (\<lambda>_. 64) (JObj demo_fields) DEFAULT_PARAMS False = Inr v"
    using validate_iff demo_fields_ok(1,4) by blast
  then have "validateEnvelope (\<lambda>_. Some 1000) (\<lambda>_. 64) (JObj demo_fields) DEFAULT_PARAMS False = Inr (JObj demo_fields)"
    by (auto simp: validateEnvelope_def Let_def split: if_splits)
  moreover have "obj_get (JObj demo_fields) ''exp'' = Some (JStr ''2026-09-19T01:12:03+08:00'')"
    "obj_get (JObj demo_fields) ''ts'' = Some (JStr ''2026-09-19T01:02:03.5Z'')"
    "sig_canonical demo_codec (obj_get (JObj demo_fields) ''sig'')"
    by (simp_all add: demo_fields_def sig_canonical_def demo_codec_def)
  ultimately show ?thesis using demo_snapshot_ok demo_times
    by (simp add: encode_def demo_codec_def Let_def max_bytes_def demo_encoded_def del: obj_get.simps)
qed

definition demo_limits :: custody_limits where
  "demo_limits = \<lparr>cl_maxEntries = 10, cl_maxBytes = 100, cl_perNodeEntries = 5\<rparr>"

lemma demo_stored:
  "cu_offer demo_codec demo_limits [] (JObj demo_fields) 500 =
     Inr ([(key_of demo_encoded, new_row demo_encoded 500)], Or_stored)"
  by (simp add: cu_offer_def demo_encode offerInTransaction_def Let_def cu_find_def cu_expire_def validTime_def
      MAX_TRANSPORT_LIFETIME_MS_def demo_limits_def total_bytes_def pending_for_def key_of_def new_row_def)
    (simp add: demo_encoded_def)

lemma demo_empty: "[] = fst (run (cu_step demo_codec demo_limits None) [] [])" "map_of [] (key_of demo_encoded) = (None :: custody_row option)"
  by simp_all

theorem custody_no_loss_witness:
  "\<exists>db2 out. cu_pending demo_codec (fst (run (cu_step demo_codec demo_limits None) [(key_of demo_encoded, new_row demo_encoded 500)]
      [Cu_prune 600])) (e_to_node (envelopeOf (en_raw demo_encoded))) 700
      (length (fst (run (cu_step demo_codec demo_limits None) [(key_of demo_encoded, new_row demo_encoded 500)] [Cu_prune 600])))
      = Inr (db2, out) \<and> (en_raw demo_encoded, en_digest demo_encoded) \<in> set out"
  by (rule custody_no_loss [OF demo_codec_ok demo_empty(1) demo_encode demo_empty(2) demo_stored])
    (simp_all add: demo_encoded_def acks_def validTime_def)

theorem custody_identity_witness:
  "cu_offer demo_codec demo_limits (fst (run (cu_step demo_codec demo_limits None)
      [(key_of demo_encoded, new_row demo_encoded 500)] [Cu_prune 600])) (JObj demo_fields) 5000 =
    Inr (fst (run (cu_step demo_codec demo_limits None) [(key_of demo_encoded, new_row demo_encoded 500)] [Cu_prune 600]), Or_stored)"
proof -
  have "validTime 5000" by (simp add: validTime_def)
  from custody_identity [OF demo_codec_ok demo_empty(1) demo_encode demo_stored demo_encode refl this refl,
      where ops = "[Cu_prune 600]", THEN conjunct1] show ?thesis by (simp del: cu_step.simps)
qed

theorem custody_quotas_witness:
  "within_quota demo_limits (fst (run (cu_step demo_codec demo_limits None) [] [Cu_offer (JObj demo_fields) 500]))"
  by (rule custody_quotas [OF demo_codec_ok])

end
