(* ===== verification/Registry.thy ===== *)
theory Registry
  imports Gateway_Core "HOL-Library.List_Lexorder" "HOL-Library.Char_ord"
begin

text \<open>
  The registration centre: \<open>packages/registry/src/directory.ts\<close> (class \<open>Registry\<close>) with \<open>task-projection.ts\<close>,
  \<open>errors.ts\<close> and the state validation of \<open>state-store.ts\<close>.

  An operation takes the library functions it calls (\<open>reg_lib\<close>: SHA-256, \<open>toISOString\<close>, \<open>Date.parse\<close>, canonical
  JSON), the clock, the random values it draws and its arguments, and returns the new state and a result or
  an error. This is the memory mode of the class, in which a call that raises may already have touched
  \<open>last_seen\<close>. The durable mode runs the same operation on a draft, validates the draft and publishes it, or
  keeps the old state: \<open>mutate\<close>. Node, team, grant and token identifiers are drawn by the caller of the model;
  that they are fresh is a hypothesis of the theorems that need it.
\<close>

section \<open>Errors\<close>

datatype error_code =
    Enroll_token_invalid | Enroll_token_expired | Enroll_token_used | Enroll_token_in_flight
  | Not_member | Node_revoked | Node_suspended | Key_epoch_conflict | Rate_limited | Quota_exceeded
  | Owner_auth_unconfigured | Unauthorized | Auth_failed | Auth_error | Csrf_mismatch | Bad_request

text \<open>\<open>ApiError\<close> with its code, HTTP status and the reason of its details; a storage error and a \<open>TypeError\<close>.\<close>

datatype api_error =
    ApiError error_code nat "string option"
  | Storage_corrupt
  | Storage_failed
  | Js_type_error

section \<open>Records\<close>

record key_entry =
  ke_epoch :: nat
  ke_pubkey :: string

record node_record =
  n_node_id :: string
  n_team_id :: string
  n_name :: string
  n_status :: node_status
  n_keys :: "key_entry list"
  n_tokenHash :: string
  n_platform :: "string option"
  n_qlong_version :: "string option"
  n_caps :: "string list"
  n_caps_rev :: nat
  n_load :: "json option"
  n_last_seen :: "string option"
  n_joined_at :: string

datatype team_state = Ts_active | Ts_self_owned | Ts_orphan

record team_record =
  tm_team_id :: string
  tm_name :: string
  tm_owner :: "string option"
  tm_state :: team_state
  tm_created_at :: string

record enroll_record =
  er_tokenHash :: string
  er_team_id :: string
  er_created_by :: "string option"
  er_expiresAt :: number
  er_used_by :: "string option"
  er_consumed_at :: "string option"

record enroll_input =
  ei_token :: "string option"
  ei_pubkey :: string
  ei_platform :: "string option"
  ei_qlong_version :: "string option"

record enroll_result =
  es_node_id :: string
  es_team_id :: string
  es_node_token :: string
  es_key_epoch :: nat

record grant_record =
  gr_grant_id :: string
  gr_from_team :: string
  gr_to_team :: string
  gr_caps_visible :: "string list"
  gr_expires_at :: "number option"
  gr_created_by :: "string option"
  gr_created_at :: string

record task_projection =
  tp_task_id :: string
  tp_type :: string
  tp_team_id :: string
  tp_lead :: string
  tp_exec :: "string option"
  tp_attempt :: nat
  tp_status :: string
  tp_task_seq :: nat

record task_record =
  tr_task :: task_projection
  tr_content_hash :: string
  tr_updated_at :: string

record audit_entry =
  ae_ts :: string
  ae_event :: string
  ae_node :: string
  ae_team :: string
  ae_reason :: string
  ae_trace_id :: "string option"

record registry =
  rg_teams :: "(string \<times> team_record) list"
  rg_nodes :: "(string \<times> node_record) list"
  rg_enrollTokens :: "(string \<times> enroll_record) list"
  rg_nodeByTokenHash :: "(string \<times> string) list"
  rg_grants :: "(string \<times> grant_record) list"
  rg_taskIndex :: "(string \<times> task_record) list"
  rg_auditLog :: "audit_entry list"
  rg_auditOffset :: nat
  rg_directoryEpoch :: nat
  rg_presence :: "(string \<times> bool) list"
  rg_enrollTtlMs :: number
  rg_maxKeysPerNode :: nat
  rg_maxNodesPerOwner :: nat
  rg_orphanTeamTtlMs :: number
  rg_offlineNodeTtlMs :: number

record reg_lib =
  lb_sha :: "string \<Rightarrow> string"
  lb_iso :: "number \<Rightarrow> string"
  lb_parse :: date_parser
  lb_jcs :: "json \<Rightarrow> string"

type_synonym 'a reg_result = "registry \<times> (api_error + 'a)"

record registry_options =
  ro_enrollTtlMs :: "number option"
  ro_maxKeysPerNode :: "nat option"
  ro_maxNodesPerOwner :: "nat option"
  ro_orphanTeamTtlMs :: "number option"
  ro_offlineNodeTtlMs :: "number option"

definition or_default :: "'a option \<Rightarrow> 'a \<Rightarrow> 'a" where
  "or_default v d = (case v of None \<Rightarrow> d | Some x \<Rightarrow> x)"

definition newRegistry :: "registry_options \<Rightarrow> registry" where
  "newRegistry opts =
     \<lparr>rg_teams = [], rg_nodes = [], rg_enrollTokens = [], rg_nodeByTokenHash = [], rg_grants = [], rg_taskIndex = [],
      rg_auditLog = [], rg_auditOffset = 0, rg_directoryEpoch = 0, rg_presence = [],
      rg_enrollTtlMs = or_default (ro_enrollTtlMs opts) (30 * 60 * 1000),
      rg_maxKeysPerNode = max 3 (or_default (ro_maxKeysPerNode opts) 5),
      rg_maxNodesPerOwner = max 1 (or_default (ro_maxNodesPerOwner opts) 100),
      rg_orphanTeamTtlMs = or_default (ro_orphanTeamTtlMs opts) (30 * 24 * 3600000),
      rg_offlineNodeTtlMs = or_default (ro_offlineNodeTtlMs opts) (30 * 24 * 3600000)\<rparr>"

definition fail :: "error_code \<Rightarrow> nat \<Rightarrow> registry \<Rightarrow> 'a reg_result" where
  "fail c status s = (s, Inl (ApiError c status None))"

definition bumpEpoch :: "registry \<Rightarrow> registry" where
  "bumpEpoch s = s\<lparr>rg_directoryEpoch := rg_directoryEpoch s + 1\<rparr>"

text \<open>A record of the model is a value; a change of the object a map holds writes it back under its id.\<close>

definition put_node :: "node_record \<Rightarrow> registry \<Rightarrow> registry" where
  "put_node n s = s\<lparr>rg_nodes := AList.update (n_node_id n) n (rg_nodes s)\<rparr>"

section \<open>Teams and enrolment\<close>

definition createTeam :: "reg_lib \<Rightarrow> number \<Rightarrow> string \<Rightarrow> string option \<Rightarrow> string option \<Rightarrow> registry \<Rightarrow> registry \<times> team_record" where
  "createTeam L now uuid name owner s =
     (let team = \<lparr>tm_team_id = uuid, tm_name = or_default name ''qlong-team'', tm_owner = owner,
                  tm_state = (if truthy owner then Ts_active else Ts_orphan), tm_created_at = lb_iso L now\<rparr>
      in (s\<lparr>rg_teams := AList.update uuid team (rg_teams s)\<rparr>, team))"

definition issueEnrollToken ::
  "reg_lib \<Rightarrow> number \<Rightarrow> string \<Rightarrow> string \<Rightarrow> number option \<Rightarrow> string option \<Rightarrow> registry \<Rightarrow> string reg_result" where
  "issueEnrollToken L now token teamId ttlMs created_by s =
     (if map_of (rg_teams s) teamId = None then fail Bad_request 404 s
      else (s\<lparr>rg_enrollTokens := AList.update (lb_sha L token)
                \<lparr>er_tokenHash = lb_sha L token, er_team_id = teamId, er_created_by = created_by,
                 er_expiresAt = now + or_default ttlMs (rg_enrollTtlMs s), er_used_by = None, er_consumed_at = None\<rparr>
                (rg_enrollTokens s)\<rparr>, Inr token))"

text \<open>The nodes of all teams of an owner.\<close>

definition owned_nodes :: "string option \<Rightarrow> registry \<Rightarrow> nat" where
  "owned_nodes owner s =
     sum_list (map (\<lambda>(_, t). if tm_owner t = owner
                            then length (filter (\<lambda>(_, n). n_team_id n = tm_team_id t) (rg_nodes s)) else 0) (rg_teams s))"

definition over_quota :: "string \<Rightarrow> registry \<Rightarrow> bool" where
  "over_quota teamId s =
     (case map_of (rg_teams s) teamId of
        None \<Rightarrow> False
      | Some team \<Rightarrow> truthy (tm_owner team) \<and> rg_maxNodesPerOwner s \<le> owned_nodes (tm_owner team) s)"

definition new_node :: "reg_lib \<Rightarrow> number \<Rightarrow> string \<Rightarrow> string \<Rightarrow> string \<Rightarrow> enroll_input \<Rightarrow> node_record" where
  "new_node L now node_id node_token teamId input =
     \<lparr>n_node_id = node_id, n_team_id = teamId, n_name = ''node-'' @ take 8 node_id, n_status = Active,
      n_keys = [\<lparr>ke_epoch = 1, ke_pubkey = ei_pubkey input\<rparr>], n_tokenHash = lb_sha L node_token,
      n_platform = ei_platform input, n_qlong_version = ei_qlong_version input, n_caps = [], n_caps_rev = 1,
      n_load = None, n_last_seen = None, n_joined_at = lb_iso L now\<rparr>"

definition doEnroll ::
  "reg_lib \<Rightarrow> number \<Rightarrow> string \<Rightarrow> string \<Rightarrow> string \<Rightarrow> enroll_input \<Rightarrow> registry \<Rightarrow> enroll_result reg_result" where
  "doEnroll L now node_id node_token teamId input s =
     (if over_quota teamId s then fail Quota_exceeded 429 s
      else (let node = new_node L now node_id node_token teamId input;
                s1 = s\<lparr>rg_nodes := AList.update node_id node (rg_nodes s),
                       rg_nodeByTokenHash := AList.update (n_tokenHash node) node_id (rg_nodeByTokenHash s),
                       rg_presence := AList.update node_id False (rg_presence s)\<rparr>
            in (bumpEpoch s1, Inr \<lparr>es_node_id = node_id, es_team_id = teamId, es_node_token = node_token, es_key_epoch = 1\<rparr>)))"

text \<open>The checks that \<open>enroll\<close> and \<open>joinTeam\<close> make on an enrolment token.\<close>

definition token_check :: "number \<Rightarrow> enroll_record option \<Rightarrow> (error_code \<times> nat) + enroll_record" where
  "token_check now rec =
     (case rec of
        None \<Rightarrow> Inl (Enroll_token_invalid, 400)
      | Some r \<Rightarrow>
          if truthy (er_consumed_at r) then Inl (Enroll_token_used, 409)
          else if er_expiresAt r < now then Inl (Enroll_token_expired, 400)
          else Inr r)"

definition consume :: "reg_lib \<Rightarrow> number \<Rightarrow> string \<Rightarrow> enroll_record \<Rightarrow> string \<Rightarrow> registry \<Rightarrow> registry" where
  "consume L now h r node_id s =
     s\<lparr>rg_enrollTokens := AList.update h (r\<lparr>er_consumed_at := Some (lb_iso L now), er_used_by := Some node_id\<rparr>)
                          (rg_enrollTokens s)\<rparr>"

definition enroll ::
  "reg_lib \<Rightarrow> number \<Rightarrow> string \<Rightarrow> string \<Rightarrow> string \<Rightarrow> enroll_input \<Rightarrow> registry \<Rightarrow> enroll_result reg_result" where
  "enroll L now team_uuid node_uuid node_token input s =
     (if ei_pubkey input = [] then fail Bad_request 400 s
      else if \<not> truthy (ei_token input) then
        (let (s1, team) = createTeam L now team_uuid (Some ''self-owned'') None s;
             s2 = s1\<lparr>rg_teams := AList.update team_uuid (team\<lparr>tm_state := Ts_self_owned\<rparr>) (rg_teams s1)\<rparr>
         in doEnroll L now node_uuid node_token team_uuid input s2)
      else
        (let h = lb_sha L (or_default (ei_token input) []) in
         case token_check now (map_of (rg_enrollTokens s) h) of
           Inl (c, status) \<Rightarrow> fail c status s
         | Inr rec \<Rightarrow>
             (case doEnroll L now node_uuid node_token (er_team_id rec) input s of
                (s1, Inl e) \<Rightarrow> (s1, Inl e)
              | (s1, Inr res) \<Rightarrow> (consume L now h rec (es_node_id res) s1, Inr res))))"

section \<open>Authentication\<close>

definition authByToken :: "reg_lib \<Rightarrow> number \<Rightarrow> string \<Rightarrow> registry \<Rightarrow> node_record reg_result" where
  "authByToken L now token s =
     (let nodeId = map_of (rg_nodeByTokenHash s) (lb_sha L token);
          node = (if truthy nodeId then map_of (rg_nodes s) (or_default nodeId []) else None)
      in case node of
           None \<Rightarrow> fail Not_member 401 s
         | Some n \<Rightarrow>
             (case n_status n of
                Suspended \<Rightarrow> fail Node_suspended 403 s
              | Revoked \<Rightarrow> fail Node_revoked 403 s
              | Active \<Rightarrow> (let n1 = n\<lparr>n_last_seen := Some (lb_iso L now)\<rparr> in (put_node n1 s, Inr n1))))"

text \<open>An operation that first authenticates: the continuation gets the touched state and the node.\<close>

definition with_node ::
  "reg_lib \<Rightarrow> number \<Rightarrow> string \<Rightarrow> registry \<Rightarrow> (registry \<Rightarrow> node_record \<Rightarrow> 'a reg_result) \<Rightarrow> 'a reg_result" where
  "with_node L now token s k =
     (case authByToken L now token s of (s1, Inl e) \<Rightarrow> (s1, Inl e) | (s1, Inr n) \<Rightarrow> k s1 n)"

definition joinTeam :: "reg_lib \<Rightarrow> number \<Rightarrow> string \<Rightarrow> string \<Rightarrow> registry \<Rightarrow> (string \<times> string) reg_result" where
  "joinTeam L now nodeToken enrollToken s =
     with_node L now nodeToken s (\<lambda>s1 node.
       (let h = lb_sha L enrollToken in
        case token_check now (map_of (rg_enrollTokens s1) h) of
          Inl (c, status) \<Rightarrow> fail c status s1
        | Inr rec \<Rightarrow>
            (let s2 = put_node (node\<lparr>n_team_id := er_team_id rec\<rparr>) s1
             in (bumpEpoch (consume L now h rec (n_node_id node) s2), Inr (er_team_id rec, n_team_id node)))))"

definition getNode :: "registry \<Rightarrow> string \<Rightarrow> node_record option" where
  "getNode s nodeId = map_of (rg_nodes s) nodeId"

definition updateNodeName :: "reg_lib \<Rightarrow> number \<Rightarrow> string \<Rightarrow> string \<Rightarrow> registry \<Rightarrow> node_record reg_result" where
  "updateNodeName L now nodeToken name s =
     (if \<not> named (Some (JStr name)) then fail Bad_request 400 s
      else with_node L now nodeToken s (\<lambda>s1 node.
             (let n1 = node\<lparr>n_name := name\<rparr> in (put_node n1 s1, Inr n1))))"

section \<open>Keys and status\<close>

datatype pubkey_lookup =
    Pk_current string nat
  | Pk_historical string nat
  | Pk_unknown_epoch
  | Pk_node_inactive node_status
  | Pk_node_unknown
  | Pk_type_error

definition lookupPubkey :: "registry \<Rightarrow> string \<Rightarrow> nat option \<Rightarrow> pubkey_lookup" where
  "lookupPubkey s nodeId epoch =
     (case map_of (rg_nodes s) nodeId of
        None \<Rightarrow> Pk_node_unknown
      | Some node \<Rightarrow>
          if n_status node \<noteq> Active then Pk_node_inactive (n_status node)
          else if n_keys node = [] then Pk_type_error
          else (let current = last (n_keys node) in
                if epoch = None \<or> epoch = Some (ke_epoch current) then Pk_current (ke_pubkey current) (ke_epoch current)
                else (case find (\<lambda>k. Some (ke_epoch k) = epoch) (n_keys node) of
                        Some hit \<Rightarrow> Pk_historical (ke_pubkey hit) (ke_epoch hit)
                      | None \<Rightarrow> Pk_unknown_epoch)))"

text \<open>\<open>while (keys.length > max) keys.shift()\<close>\<close>

definition keep_last :: "nat \<Rightarrow> 'a list \<Rightarrow> 'a list" where
  "keep_last n xs = drop (length xs - n) xs"

text \<open>The verifier is the caller's; \<open>None\<close> of its result is an exception.\<close>

type_synonym sig_verifier = "node_record \<Rightarrow> string \<Rightarrow> string \<Rightarrow> bool option"

definition rotateKeys ::
  "reg_lib \<Rightarrow> number \<Rightarrow> string \<Rightarrow> string \<Rightarrow> string option \<Rightarrow> sig_verifier option \<Rightarrow> registry \<Rightarrow> nat reg_result" where
  "rotateKeys L now nodeToken pubkey sig verifier s =
     with_node L now nodeToken s (\<lambda>s1 node.
       case verifier of
         None \<Rightarrow> fail Bad_request 503 s1
       | Some verify \<Rightarrow>
           if \<not> truthy sig then fail Bad_request 401 s1
           else if verify node pubkey (or_default sig []) \<noteq> Some True then fail Bad_request 401 s1
           else if pubkey = [] then fail Bad_request 400 s1
           else if n_keys node = [] then (s1, Inl Js_type_error)
           else (let epoch = ke_epoch (last (n_keys node)) + 1;
                     keys = keep_last (rg_maxKeysPerNode s1) (n_keys node @ [\<lparr>ke_epoch = epoch, ke_pubkey = pubkey\<rparr>])
                 in (bumpEpoch (put_node (node\<lparr>n_keys := keys\<rparr>) s1), Inr epoch)))"

definition mustNode :: "string \<Rightarrow> registry \<Rightarrow> (registry \<Rightarrow> node_record \<Rightarrow> 'a reg_result) \<Rightarrow> 'a reg_result" where
  "mustNode nodeId s k = (case map_of (rg_nodes s) nodeId of None \<Rightarrow> fail Bad_request 404 s | Some n \<Rightarrow> k s n)"

definition suspend :: "string \<Rightarrow> registry \<Rightarrow> nat reg_result" where
  "suspend nodeId s =
     mustNode nodeId s (\<lambda>s node.
       if n_status node = Revoked then fail Node_revoked 409 s
       else (bumpEpoch (put_node (node\<lparr>n_status := Suspended\<rparr>) s), Inr 4001))"

definition resume :: "string \<Rightarrow> registry \<Rightarrow> unit reg_result" where
  "resume nodeId s =
     mustNode nodeId s (\<lambda>s node.
       if n_status node = Suspended then (bumpEpoch (put_node (node\<lparr>n_status := Active\<rparr>) s), Inr ())
       else (s, Inr ()))"

definition revoke :: "string \<Rightarrow> registry \<Rightarrow> nat reg_result" where
  "revoke nodeId s =
     mustNode nodeId s (\<lambda>s node.
       (let s1 = put_node (node\<lparr>n_status := Revoked\<rparr>) s
        in (bumpEpoch (s1\<lparr>rg_presence := AList.update nodeId False (rg_presence s1)\<rparr>), Inr 4002)))"

section \<open>Capabilities, load and the address book\<close>

definition putCaps :: "reg_lib \<Rightarrow> number \<Rightarrow> string \<Rightarrow> json \<Rightarrow> registry \<Rightarrow> nat reg_result" where
  "putCaps L now nodeToken tags s =
     with_node L now nodeToken s (\<lambda>s1 node.
       case arr_of (Some tags) of
         None \<Rightarrow> fail Bad_request 400 s1
       | Some ts \<Rightarrow>
           if list_ex (\<lambda>t. \<not> isNonEmptyStr (Some t)) ts then fail Bad_request 400 s1
           else (let sorted = sort (map (\<lambda>t. or_default (str_of (Some t)) []) ts);
                     changed = (sorted \<noteq> sort (n_caps node));
                     n1 = node\<lparr>n_caps := sorted, n_caps_rev := (if changed then n_caps_rev node + 1 else n_caps_rev node)\<rparr>
                 in (put_node n1 s1, Inr (n_caps_rev n1))))"

definition putLoad :: "reg_lib \<Rightarrow> number \<Rightarrow> string \<Rightarrow> body \<Rightarrow> registry \<Rightarrow> unit reg_result" where
  "putLoad L now nodeToken load s =
     with_node L now nodeToken s (\<lambda>s1 node. (put_node (node\<lparr>n_load := Some (JObj load)\<rparr>) s1, Inr ()))"

record node_listing =
  nl_node_id :: string
  nl_name :: string
  nl_status :: node_status
  nl_online :: bool
  nl_caps :: "string list"
  nl_caps_rev :: nat
  nl_load :: "json option"
  nl_platform :: "string option"
  nl_qlong_version :: "string option"

definition listTeamNodes :: "registry \<Rightarrow> string \<Rightarrow> string list option \<Rightarrow> node_listing list" where
  "listTeamNodes s teamId caps =
     map (\<lambda>(_, node).
            \<lparr>nl_node_id = n_node_id node, nl_name = n_name node, nl_status = n_status node,
             nl_online = or_default (map_of (rg_presence s) (n_node_id node)) False,
             nl_caps = n_caps node, nl_caps_rev = n_caps_rev node, nl_load = n_load node,
             nl_platform = n_platform node, nl_qlong_version = n_qlong_version node\<rparr>)
         (filter (\<lambda>(_, node).
            n_team_id node = teamId \<and> n_status node \<noteq> Revoked \<and>
            list_all (\<lambda>c. matchOne c (n_caps node)) (or_default caps [])) (rg_nodes s))"

section \<open>Grants\<close>

definition createGrant ::
  "reg_lib \<Rightarrow> number \<Rightarrow> string \<Rightarrow> string \<Rightarrow> string \<Rightarrow> string list option \<Rightarrow> number option \<Rightarrow> string option \<Rightarrow> registry
     \<Rightarrow> grant_record reg_result" where
  "createGrant L now gid from_team to_team caps_visible ttlMs created_by s =
     (if map_of (rg_teams s) from_team = None \<or> map_of (rg_teams s) to_team = None then fail Bad_request 404 s
      else if from_team = to_team then fail Bad_request 400 s
      else (let rec = \<lparr>gr_grant_id = gid, gr_from_team = from_team, gr_to_team = to_team,
                       gr_caps_visible = or_default caps_visible [],
                       gr_expires_at = (case ttlMs of None \<Rightarrow> None | Some t \<Rightarrow> if t = 0 then None else Some (now + t)),
                       gr_created_by = created_by, gr_created_at = lb_iso L now\<rparr>
            in (bumpEpoch (s\<lparr>rg_grants := AList.update gid rec (rg_grants s)\<rparr>), Inr rec)))"

definition revokeGrant :: "string \<Rightarrow> registry \<Rightarrow> unit reg_result" where
  "revokeGrant gid s =
     (if map_of (rg_grants s) gid = None then fail Bad_request 404 s
      else (bumpEpoch (s\<lparr>rg_grants := AList.delete gid (rg_grants s)\<rparr>), Inr ()))"

definition listGrants :: "registry \<Rightarrow> string \<Rightarrow> grant_record list" where
  "listGrants s teamId = filter (\<lambda>g. gr_from_team g = teamId \<or> gr_to_team g = teamId) (map snd (rg_grants s))"

definition live_between :: "number \<Rightarrow> string \<Rightarrow> string \<Rightarrow> grant_record \<Rightarrow> bool" where
  "live_between now a b g \<longleftrightarrow>
     \<not> (case gr_expires_at g of None \<Rightarrow> False | Some t \<Rightarrow> t < now) \<and>
     (gr_from_team g = a \<and> gr_to_team g = b \<or> gr_from_team g = b \<and> gr_to_team g = a)"

text \<open>\<open>Set.add\<close>: the first occurrence fixes the position.\<close>

definition add_all :: "'a list \<Rightarrow> 'a list \<Rightarrow> 'a list" where
  "add_all u xs = foldl (\<lambda>u x. if x \<in> set u then u else u @ [x]) u xs"

definition grantCaps :: "registry \<Rightarrow> number \<Rightarrow> string \<Rightarrow> string \<Rightarrow> string list option" where
  "grantCaps s now fromTeam toTeam =
     (let gs = filter (live_between now fromTeam toTeam) (map snd (rg_grants s))
      in if gs = [] then None else Some (foldl (\<lambda>u g. add_all u (gr_caps_visible g)) [] gs))"

definition hasGrant :: "registry \<Rightarrow> number \<Rightarrow> string \<Rightarrow> string \<Rightarrow> bool" where
  "hasGrant s now fromTeam toTeam \<longleftrightarrow> grantCaps s now fromTeam toTeam \<noteq> None"

section \<open>Audit log\<close>

definition logAudit ::
  "reg_lib \<Rightarrow> number \<Rightarrow> string \<Rightarrow> string \<Rightarrow> string \<Rightarrow> string \<Rightarrow> string option \<Rightarrow> registry \<Rightarrow> registry" where
  "logAudit L now event node team reason traceId s =
     (let lg = rg_auditLog s @ [\<lparr>ae_ts = lb_iso L now, ae_event = event, ae_node = node, ae_team = team,
                                 ae_reason = reason, ae_trace_id = traceId\<rparr>]
      in if 10000 < length lg then s\<lparr>rg_auditLog := drop 1 lg, rg_auditOffset := rg_auditOffset s + 1\<rparr>
         else s\<lparr>rg_auditLog := lg\<rparr>)"

text \<open>\<open>slice(-limit)\<close>: a limit of zero is \<open>slice(-0)\<close>, the whole list.\<close>

definition slice_last :: "int \<Rightarrow> 'a list \<Rightarrow> 'a list" where
  "slice_last limit xs = (if limit \<le> 0 then drop (nat (- limit)) xs else keep_last (nat limit) xs)"

definition getAuditEvents :: "registry \<Rightarrow> string \<Rightarrow> int \<Rightarrow> audit_entry list" where
  "getAuditEvents s teamId limit = slice_last limit (filter (\<lambda>e. ae_team e = teamId) (rg_auditLog s))"

section \<open>Task projections\<close>

definition TASK_STATUSES :: "string list" where
  "TASK_STATUSES = [''drafting'', ''offered'', ''running'', ''reclaiming'', ''cancelling'',
                    ''done'', ''failed'', ''escalated'', ''closed'']"

definition task_fields :: "string list" where
  "task_fields = [''task_id'', ''type'', ''kind'', ''team_id'', ''lead'', ''exec'', ''attempt'', ''status'', ''task_seq'']"

definition bad_request :: "api_error + 'a" where
  "bad_request = Inl (ApiError Bad_request 400 None)"

definition parseTaskProjection :: "json \<Rightarrow> api_error + task_projection" where
  "parseTaskProjection input =
     (case input of
        JObj fs \<Rightarrow>
          (let g = map_of fs; type = (if g ''type'' \<noteq> None then g ''type'' else g ''kind'') in
           if list_ex (\<lambda>k. k \<notin> set task_fields) (map fst fs) then bad_request
           else if (g ''type'' \<noteq> None) = (g ''kind'' \<noteq> None) then bad_request
           else if type \<noteq> Some (JStr ''aid'') \<and> type \<noteq> Some (JStr ''project'') then bad_request
           else if \<not> named (g ''task_id'') \<or> \<not> named (g ''team_id'') \<or> \<not> named (g ''lead'') then bad_request
           else if g ''exec'' \<noteq> None \<and> g ''exec'' \<noteq> Some JNull \<and> \<not> named (g ''exec'') then bad_request
           else if \<not> isSafeIntGe 0 (g ''task_seq'') then bad_request
           else if \<not> isSafeIntGe 1 (g ''attempt'') then bad_request
           else if \<not> list_ex (\<lambda>st. g ''status'' = Some (JStr st)) TASK_STATUSES then bad_request
           else Inr \<lparr>tp_task_id = str_or (g ''task_id''), tp_type = str_or type, tp_team_id = str_or (g ''team_id''),
                     tp_lead = str_or (g ''lead''), tp_exec = str_of (g ''exec''),
                     tp_attempt = or_default (nat_of (g ''attempt'')) 0, tp_status = str_or (g ''status''),
                     tp_task_seq = or_default (nat_of (g ''task_seq'')) 0\<rparr>)
      | _ \<Rightarrow> bad_request)"

definition taskProjectionHash :: "reg_lib \<Rightarrow> task_projection \<Rightarrow> string" where
  "taskProjectionHash L t =
     lb_sha L (lb_jcs L (JObj
       [(''task_id'', JStr (tp_task_id t)), (''type'', JStr (tp_type t)), (''team_id'', JStr (tp_team_id t)),
        (''lead'', JStr (tp_lead t)), (''exec'', case tp_exec t of None \<Rightarrow> JNull | Some x \<Rightarrow> JStr x),
        (''attempt'', JNum (of_nat (tp_attempt t))), (''status'', JStr (tp_status t)),
        (''task_seq'', JNum (of_nat (tp_task_seq t)))]))"

definition conflict :: "string \<Rightarrow> registry \<Rightarrow> 'a reg_result" where
  "conflict reason s = (s, Inl (ApiError Bad_request 409 (Some reason)))"

definition store_task :: "reg_lib \<Rightarrow> number \<Rightarrow> task_projection \<Rightarrow> registry \<Rightarrow> task_record reg_result" where
  "store_task L now task s =
     (let rec = \<lparr>tr_task = task, tr_content_hash = taskProjectionHash L task, tr_updated_at = lb_iso L now\<rparr>
      in (s\<lparr>rg_taskIndex := AList.update (tp_task_id task) rec (rg_taskIndex s)\<rparr>, Inr rec))"

text \<open>The guards of a report against the record it would replace; \<open>Inr None\<close> lets the report through.\<close>

definition report_guard ::
  "reg_lib \<Rightarrow> string \<Rightarrow> string \<Rightarrow> task_projection \<Rightarrow> task_record option \<Rightarrow> api_error + task_record option" where
  "report_guard L teamId nodeId task prev =
     (case prev of
        None \<Rightarrow> Inr None
      | Some p \<Rightarrow>
          let old = tr_task p in
          if tp_team_id old \<noteq> teamId \<or> tp_lead old \<noteq> nodeId then Inl (ApiError Not_member 403 None)
          else if tp_type old \<noteq> tp_type task then Inl (ApiError Bad_request 409 (Some ''task_kind_conflict''))
          else if tp_task_seq old = tp_task_seq task then
            (if tr_content_hash p \<noteq> taskProjectionHash L task
             then Inl (ApiError Bad_request 409 (Some ''task_revision_conflict'')) else Inr (Some p))
          else if tp_task_seq task < tp_task_seq old \<or> tp_attempt task < tp_attempt old
          then Inl (ApiError Bad_request 409 (Some ''stale_task_report''))
          else Inr None)"

definition reportTask :: "reg_lib \<Rightarrow> number \<Rightarrow> string \<Rightarrow> string \<Rightarrow> json \<Rightarrow> registry \<Rightarrow> task_record reg_result" where
  "reportTask L now nodeToken teamId input s =
     with_node L now nodeToken s (\<lambda>s1 node.
       case parseTaskProjection input of
         Inl e \<Rightarrow> (s1, Inl e)
       | Inr task \<Rightarrow>
           if n_team_id node \<noteq> teamId \<or> tp_team_id task \<noteq> teamId \<or> tp_lead task \<noteq> n_node_id node
           then fail Not_member 403 s1
           else (case report_guard L teamId (n_node_id node) task (map_of (rg_taskIndex s1) (tp_task_id task)) of
                   Inl e \<Rightarrow> (s1, Inl e)
                 | Inr (Some p) \<Rightarrow> (s1, Inr p)
                 | Inr None \<Rightarrow>
                     (case tp_exec task of
                        None \<Rightarrow> store_task L now task s1
                      | Some x \<Rightarrow> if map_of (rg_nodes s1) x = None then fail Bad_request 400 s1
                                  else store_task L now task s1)))"

definition upsertTask :: "reg_lib \<Rightarrow> number \<Rightarrow> body \<Rightarrow> registry \<Rightarrow> task_record reg_result" where
  "upsertTask L now t s =
     (let next_seq = (case map_of (rg_taskIndex s) (str_or (map_of t ''task_id'')) of
                        None \<Rightarrow> 0 | Some p \<Rightarrow> tp_task_seq (tr_task p) + 1)
      in case parseTaskProjection (JObj (AList.update ''task_seq'' (JNum (of_nat next_seq)) t)) of
           Inl e \<Rightarrow> (s, Inl e)
         | Inr task \<Rightarrow> store_task L now task s)"

definition listTasks :: "registry \<Rightarrow> string \<Rightarrow> int \<Rightarrow> task_record list" where
  "listTasks s teamId limit =
     slice_last limit (filter (\<lambda>t. tp_team_id (tr_task t) = teamId) (map snd (rg_taskIndex s)))"

definition getTask :: "registry \<Rightarrow> string \<Rightarrow> string \<Rightarrow> task_record option" where
  "getTask s teamId taskId =
     (case map_of (rg_taskIndex s) taskId of
        None \<Rightarrow> None
      | Some t \<Rightarrow> if tp_team_id (tr_task t) = teamId then Some t else None)"

section \<open>Garbage collection\<close>

definition team_in_use :: "string \<Rightarrow> registry \<Rightarrow> bool" where
  "team_in_use teamId s \<longleftrightarrow>
     list_ex (\<lambda>(_, n). n_team_id n = teamId) (rg_nodes s) \<or>
     list_ex (\<lambda>(_, g). gr_from_team g = teamId \<or> gr_to_team g = teamId) (rg_grants s) \<or>
     list_ex (\<lambda>(_, t). tp_team_id (tr_task t) = teamId) (rg_taskIndex s)"

definition gc_team_due :: "reg_lib \<Rightarrow> number \<Rightarrow> team_record \<Rightarrow> registry \<Rightarrow> bool" where
  "gc_team_due L now t s \<longleftrightarrow>
     \<not> truthy (tm_owner t) \<and> \<not> team_in_use (tm_team_id t) s \<and>
     (case lb_parse L (tm_created_at t) of None \<Rightarrow> False | Some c \<Rightarrow> rg_orphanTeamTtlMs s \<le> now - c)"

fun gc_teams :: "reg_lib \<Rightarrow> number \<Rightarrow> team_record list \<Rightarrow> registry \<times> nat \<Rightarrow> registry \<times> nat" where
  "gc_teams L now [] (s, n) = (s, n)"
| "gc_teams L now (t # ts) (s, n) =
     (if gc_team_due L now t s
      then gc_teams L now ts
             (bumpEpoch (s\<lparr>rg_teams := AList.delete (tm_team_id t) (rg_teams s),
                           rg_enrollTokens := filter (\<lambda>(_, r). er_team_id r \<noteq> tm_team_id t) (rg_enrollTokens s)\<rparr>), n + 1)
      else gc_teams L now ts (s, n))"

definition gc_node_due :: "reg_lib \<Rightarrow> number \<Rightarrow> node_record \<Rightarrow> registry \<Rightarrow> bool" where
  "gc_node_due L now node s \<longleftrightarrow>
     n_status node = Active \<and> map_of (rg_presence s) (n_node_id node) \<noteq> Some True \<and>
     (let lst = or_default (n_last_seen node) (n_joined_at node) in
      case (if lst = [] then None else lb_parse L lst) of None \<Rightarrow> False | Some ts \<Rightarrow> rg_offlineNodeTtlMs s \<le> now - ts)"

fun gc_nodes :: "reg_lib \<Rightarrow> number \<Rightarrow> node_record list \<Rightarrow> registry \<times> nat \<Rightarrow> registry \<times> nat" where
  "gc_nodes L now [] (s, n) = (s, n)"
| "gc_nodes L now (node # ns) (s, n) =
     (if gc_node_due L now node s
      then (let s1 = put_node (node\<lparr>n_status := Revoked, n_caps := [], n_load := None\<rparr>) s in
            gc_nodes L now ns
              (bumpEpoch (s1\<lparr>rg_presence := AList.update (n_node_id node) False (rg_presence s1)\<rparr>), n + 1))
      else gc_nodes L now ns (s, n))"

definition gc :: "reg_lib \<Rightarrow> number \<Rightarrow> registry \<Rightarrow> registry \<times> nat \<times> nat" where
  "gc L now s =
     (let (s1, removed) = gc_teams L now (map snd (rg_teams s)) (s, 0);
          (s2, revoked) = gc_nodes L now (map snd (rg_nodes s1)) (s1, 0)
      in (s2, removed, revoked))"

section \<open>Views\<close>

record team_listing =
  tl_team :: team_record
  tl_nodes :: nat
  tl_online :: nat

definition listTeams :: "registry \<Rightarrow> team_listing list" where
  "listTeams s =
     map (\<lambda>(_, t).
       (let ns = filter (\<lambda>n. n_team_id n = tm_team_id t \<and> n_status n \<noteq> Revoked) (map snd (rg_nodes s))
        in \<lparr>tl_team = t, tl_nodes = length ns,
            tl_online = length (filter (\<lambda>n. map_of (rg_presence s) (n_node_id n) = Some True) ns)\<rparr>)) (rg_teams s)"

text \<open>The snapshot the gateway subscribes to. Its entries carry the key list too, which the gateway does not read.\<close>

definition entry_view :: "node_record \<Rightarrow> directory_entry" where
  "entry_view n =
     \<lparr>de_node_id = n_node_id n, de_team_id = n_team_id n, de_status = n_status n,
      de_currentEpoch = (if n_keys n = [] then 0 else ke_epoch (last (n_keys n)))\<rparr>"

record reg_snapshot =
  rs_epoch :: nat
  rs_nodes :: "(directory_entry \<times> key_entry list) list"

definition snapshot :: "registry \<Rightarrow> reg_snapshot" where
  "snapshot s = \<lparr>rs_epoch = rg_directoryEpoch s, rs_nodes = map (\<lambda>(_, n). (entry_view n, n_keys n)) (rg_nodes s)\<rparr>"

section \<open>State validation\<close>

text \<open>
  \<open>validateRegistryState\<close> of \<open>state-store.ts\<close>. The shapes check types that the records of the model have by
  construction; what is left of them are the conditions on values.
\<close>

definition MAX_SAFE :: nat where
  "MAX_SAFE = 9007199254740991"

definition is_hash :: "string \<Rightarrow> bool" where
  "is_hash s = matches (replicate 64 is_hex) s"

definition is_timestamp :: "reg_lib \<Rightarrow> string \<Rightarrow> bool" where
  "is_timestamp L v = (case lb_parse L v of None \<Rightarrow> False | Some t \<Rightarrow> lb_iso L t = v)"

definition opt_all :: "('a \<Rightarrow> bool) \<Rightarrow> 'a option \<Rightarrow> bool" where
  "opt_all P v = (case v of None \<Rightarrow> True | Some x \<Rightarrow> P x)"

definition teamShape :: "reg_lib \<Rightarrow> team_record \<Rightarrow> bool" where
  "teamShape L t \<longleftrightarrow> tm_team_id t \<noteq> [] \<and> is_timestamp L (tm_created_at t)"

definition keyShape :: "key_entry \<Rightarrow> bool" where
  "keyShape k \<longleftrightarrow> 0 < ke_epoch k \<and> ke_epoch k \<le> MAX_SAFE \<and> ke_pubkey k \<noteq> []"

definition nodeShape :: "reg_lib \<Rightarrow> node_record \<Rightarrow> bool" where
  "nodeShape L n \<longleftrightarrow>
     n_node_id n \<noteq> [] \<and> n_team_id n \<noteq> [] \<and> n_name n \<noteq> [] \<and> is_hash (n_tokenHash n) \<and>
     list_all keyShape (n_keys n) \<and> list_all (\<lambda>c. c \<noteq> []) (n_caps n) \<and>
     0 < n_caps_rev n \<and> n_caps_rev n \<le> MAX_SAFE \<and>
     opt_all isPlainObject (n_load n) \<and> opt_all (is_timestamp L) (n_last_seen n) \<and> is_timestamp L (n_joined_at n)"

definition enrollShape :: "reg_lib \<Rightarrow> enroll_record \<Rightarrow> bool" where
  "enrollShape L r \<longleftrightarrow>
     is_hash (er_tokenHash r) \<and> er_team_id r \<noteq> [] \<and> opt_all (\<lambda>u. u \<noteq> []) (er_used_by r) \<and>
     opt_all (is_timestamp L) (er_consumed_at r)"

definition grantShape :: "reg_lib \<Rightarrow> grant_record \<Rightarrow> bool" where
  "grantShape L g \<longleftrightarrow>
     gr_grant_id g \<noteq> [] \<and> gr_from_team g \<noteq> [] \<and> gr_to_team g \<noteq> [] \<and>
     list_all (\<lambda>c. c \<noteq> []) (gr_caps_visible g) \<and> is_timestamp L (gr_created_at g)"

definition taskShape :: "reg_lib \<Rightarrow> task_record \<Rightarrow> bool" where
  "taskShape L r \<longleftrightarrow>
     (let t = tr_task r in
      tp_task_id t \<noteq> [] \<and> tp_type t \<in> {''aid'', ''project''} \<and> tp_team_id t \<noteq> [] \<and> tp_lead t \<noteq> [] \<and>
      opt_all (\<lambda>x. x \<noteq> []) (tp_exec t) \<and> 0 < tp_attempt t \<and> tp_attempt t \<le> MAX_SAFE \<and>
      tp_status t \<in> set TASK_STATUSES \<and> tp_task_seq t \<le> MAX_SAFE) \<and>
     is_hash (tr_content_hash r) \<and> is_timestamp L (tr_updated_at r)"

definition auditShape :: "reg_lib \<Rightarrow> audit_entry \<Rightarrow> bool" where
  "auditShape L a \<longleftrightarrow> is_timestamp L (ae_ts a) \<and> ae_event a \<noteq> []"

definition has :: "(string \<times> 'v) list \<Rightarrow> string \<Rightarrow> bool" where
  "has m k \<longleftrightarrow> map_of m k \<noteq> None"

definition valid_meta :: "registry \<Rightarrow> bool" where
  "valid_meta s \<longleftrightarrow>
     rg_directoryEpoch s \<le> MAX_SAFE \<and> rg_auditOffset s + length (rg_auditLog s) \<le> MAX_SAFE \<and>
     length (rg_auditLog s) \<le> 10000 \<and> length (rg_nodes s) + length (rg_grants s) \<le> rg_directoryEpoch s"

definition valid_team :: "reg_lib \<Rightarrow> string \<Rightarrow> team_record \<Rightarrow> bool" where
  "valid_team L k t \<longleftrightarrow> teamShape L t \<and> tm_team_id t = k"

definition valid_node :: "reg_lib \<Rightarrow> registry \<Rightarrow> string \<Rightarrow> node_record \<Rightarrow> bool" where
  "valid_node L s k n \<longleftrightarrow>
     nodeShape L n \<and> n_node_id n = k \<and> has (rg_teams s) (n_team_id n) \<and>
     n_keys n \<noteq> [] \<and> sorted_wrt (<) (map ke_epoch (n_keys n)) \<and>
     ke_epoch (last (n_keys n)) \<le> rg_directoryEpoch s"

definition valid_tokens :: "registry \<Rightarrow> bool" where
  "valid_tokens s \<longleftrightarrow>
     distinct (map (\<lambda>(_, n). n_tokenHash n) (rg_nodes s)) \<and>
     length (rg_nodes s) = length (rg_nodeByTokenHash s) \<and>
     list_all (\<lambda>(k, n). map_of (rg_nodeByTokenHash s) (n_tokenHash n) = Some k) (rg_nodes s)"

definition valid_enroll :: "reg_lib \<Rightarrow> registry \<Rightarrow> string \<Rightarrow> enroll_record \<Rightarrow> bool" where
  "valid_enroll L s k r \<longleftrightarrow>
     enrollShape L r \<and> er_tokenHash r = k \<and> has (rg_teams s) (er_team_id r) \<and>
     (er_used_by r = None) = (er_consumed_at r = None) \<and> opt_all (has (rg_nodes s)) (er_used_by r)"

definition valid_grant :: "reg_lib \<Rightarrow> registry \<Rightarrow> string \<Rightarrow> grant_record \<Rightarrow> bool" where
  "valid_grant L s k g \<longleftrightarrow>
     grantShape L g \<and> gr_grant_id g = k \<and> gr_from_team g \<noteq> gr_to_team g \<and>
     has (rg_teams s) (gr_from_team g) \<and> has (rg_teams s) (gr_to_team g)"

definition valid_task :: "reg_lib \<Rightarrow> registry \<Rightarrow> string \<Rightarrow> task_record \<Rightarrow> bool" where
  "valid_task L s k r \<longleftrightarrow>
     taskShape L r \<and> tp_task_id (tr_task r) = k \<and> has (rg_teams s) (tp_team_id (tr_task r)) \<and>
     has (rg_nodes s) (tp_lead (tr_task r)) \<and> opt_all (has (rg_nodes s)) (tp_exec (tr_task r)) \<and>
     tr_content_hash r = taskProjectionHash L (tr_task r)"

definition validateRegistryState :: "reg_lib \<Rightarrow> registry \<Rightarrow> bool" where
  "validateRegistryState L s \<longleftrightarrow>
     valid_meta s \<and> list_all (\<lambda>(k, t). valid_team L k t) (rg_teams s) \<and>
     list_all (\<lambda>(k, n). valid_node L s k n) (rg_nodes s) \<and> valid_tokens s \<and>
     list_all (\<lambda>(k, r). valid_enroll L s k r) (rg_enrollTokens s) \<and>
     list_all (\<lambda>(k, g). valid_grant L s k g) (rg_grants s) \<and>
     list_all (\<lambda>(k, t). valid_task L s k t) (rg_taskIndex s) \<and> list_all (auditShape L) (rg_auditLog s)"

text \<open>
  The durable mode: the operation runs on a draft; its result is published after the draft is valid and the
  transaction, whose outcome is \<open>commits\<close>, has committed. On every exception the old state stays.
\<close>

definition mutate :: "reg_lib \<Rightarrow> bool \<Rightarrow> (registry \<Rightarrow> 'a reg_result) \<Rightarrow> registry \<Rightarrow> 'a reg_result" where
  "mutate L commits operation s =
     (case operation s of
        (_, Inl e) \<Rightarrow> (s, Inl e)
      | (draft, Inr result) \<Rightarrow>
          if \<not> validateRegistryState L draft then (s, Inl Storage_corrupt)
          else if \<not> commits then (s, Inl Storage_failed)
          else (draft, Inr result))"

section \<open>Calls\<close>

text \<open>The operations that change the registry, with the random values each draws, and the gateway's presence feed.\<close>

datatype reg_op =
    Rop_createTeam string "string option" "string option"
  | Rop_issue string string "number option" "string option"
  | Rop_enroll string string string enroll_input
  | Rop_join string string
  | Rop_auth string
  | Rop_rename string string
  | Rop_rotate string string "string option" "sig_verifier option"
  | Rop_suspend string
  | Rop_resume string
  | Rop_revoke string
  | Rop_putCaps string json
  | Rop_putLoad string body
  | Rop_grant string string string "string list option" "number option" "string option"
  | Rop_revokeGrant string
  | Rop_audit string string string string "string option"
  | Rop_report string string json
  | Rop_upsert body
  | Rop_gc
  | Rop_presence string bool

datatype reg_out =
    Out_team team_record
  | Out_token string
  | Out_enrolled enroll_result
  | Out_joined string string
  | Out_node node_record
  | Out_nat nat
  | Out_unit
  | Out_grant grant_record
  | Out_task task_record
  | Out_gc nat nat

definition lift :: "('a \<Rightarrow> reg_out) \<Rightarrow> 'a reg_result \<Rightarrow> reg_out reg_result" where
  "lift f r = (fst r, map_sum (\<lambda>e. e) f (snd r))"

fun reg_call :: "reg_lib \<Rightarrow> number \<Rightarrow> reg_op \<Rightarrow> registry \<Rightarrow> reg_out reg_result" where
  "reg_call L now (Rop_createTeam uuid name owner) s =
     (case createTeam L now uuid name owner s of (s1, t) \<Rightarrow> (s1, Inr (Out_team t)))"
| "reg_call L now (Rop_issue token team ttl by) s = lift Out_token (issueEnrollToken L now token team ttl by s)"
| "reg_call L now (Rop_enroll tu nu nt input) s = lift Out_enrolled (enroll L now tu nu nt input s)"
| "reg_call L now (Rop_join nt et) s = lift (\<lambda>(a, b). Out_joined a b) (joinTeam L now nt et s)"
| "reg_call L now (Rop_auth nt) s = lift Out_node (authByToken L now nt s)"
| "reg_call L now (Rop_rename nt name) s = lift Out_node (updateNodeName L now nt name s)"
| "reg_call L now (Rop_rotate nt pk sig v) s = lift Out_nat (rotateKeys L now nt pk sig v s)"
| "reg_call L now (Rop_suspend i) s = lift Out_nat (suspend i s)"
| "reg_call L now (Rop_resume i) s = lift (\<lambda>_. Out_unit) (resume i s)"
| "reg_call L now (Rop_revoke i) s = lift Out_nat (revoke i s)"
| "reg_call L now (Rop_putCaps nt tags) s = lift Out_nat (putCaps L now nt tags s)"
| "reg_call L now (Rop_putLoad nt b) s = lift (\<lambda>_. Out_unit) (putLoad L now nt b s)"
| "reg_call L now (Rop_grant g a b cs ttl by) s = lift Out_grant (createGrant L now g a b cs ttl by s)"
| "reg_call L now (Rop_revokeGrant g) s = lift (\<lambda>_. Out_unit) (revokeGrant g s)"
| "reg_call L now (Rop_audit e n t r tr) s = (logAudit L now e n t r tr s, Inr Out_unit)"
| "reg_call L now (Rop_report nt t j) s = lift Out_task (reportTask L now nt t j s)"
| "reg_call L now (Rop_upsert t) s = lift Out_task (upsertTask L now t s)"
| "reg_call L now Rop_gc s = (case gc L now s of (s1, a, b) \<Rightarrow> (s1, Inr (Out_gc a b)))"
| "reg_call L now (Rop_presence i on) s = (s\<lparr>rg_presence := AList.update i on (rg_presence s)\<rparr>, Inr Out_unit)"

definition reg_step :: "reg_lib \<Rightarrow> registry \<Rightarrow> number \<times> reg_op \<Rightarrow> registry \<times> (api_error + reg_out) list" where
  "reg_step L s c = (case reg_call L (fst c) (snd c) s of (s1, r) \<Rightarrow> (s1, [r]))"

definition durable_step :: "reg_lib \<Rightarrow> registry \<Rightarrow> number \<times> reg_op \<times> bool \<Rightarrow> registry \<times> (api_error + reg_out) list" where
  "durable_step L s c =
     (case c of (now, opn, commits) \<Rightarrow> case mutate L commits (reg_call L now opn) s of (s1, r) \<Rightarrow> (s1, [r]))"

end
