(* ===== verification/Registry_Props.thy ===== *)
theory Registry_Props
  imports Registry
begin

text \<open>
  The registry's abstract specification and what follows from it. \<open>eff\<close> lists the changes an operation may make,
  each with the conditions under which the code makes it; \<open>reg_call_eff\<close> shows that every call is a sequence
  of such changes, and the properties are proved on the changes.
\<close>

section \<open>Lookups\<close>

lemma has_update [simp]: "has (AList.update k v m) k' \<longleftrightarrow> k' = k \<or> has m k'"
  by (simp add: has_def)

lemma opt_all_simps [simp]: "opt_all P None" "opt_all P (Some x) = P x"
  by (simp_all add: opt_all_def)

lemma opt_all_mono: "opt_all P v \<Longrightarrow> (\<And>x. P x \<Longrightarrow> Q x) \<Longrightarrow> opt_all Q v"
  by (cases v) auto

section \<open>Frames\<close>

lemma put_node_sel [simp]:
  "rg_teams (put_node n s) = rg_teams s" "rg_enrollTokens (put_node n s) = rg_enrollTokens s"
  "rg_nodeByTokenHash (put_node n s) = rg_nodeByTokenHash s" "rg_grants (put_node n s) = rg_grants s"
  "rg_taskIndex (put_node n s) = rg_taskIndex s" "rg_auditLog (put_node n s) = rg_auditLog s"
  "rg_auditOffset (put_node n s) = rg_auditOffset s" "rg_directoryEpoch (put_node n s) = rg_directoryEpoch s"
  "rg_presence (put_node n s) = rg_presence s" "rg_maxKeysPerNode (put_node n s) = rg_maxKeysPerNode s"
  "rg_maxNodesPerOwner (put_node n s) = rg_maxNodesPerOwner s"
  "rg_nodes (put_node n s) = AList.update (n_node_id n) n (rg_nodes s)"
  by (simp_all add: put_node_def)

lemma bumpEpoch_sel [simp]:
  "rg_teams (bumpEpoch s) = rg_teams s" "rg_enrollTokens (bumpEpoch s) = rg_enrollTokens s"
  "rg_nodeByTokenHash (bumpEpoch s) = rg_nodeByTokenHash s" "rg_grants (bumpEpoch s) = rg_grants s"
  "rg_taskIndex (bumpEpoch s) = rg_taskIndex s" "rg_auditLog (bumpEpoch s) = rg_auditLog s"
  "rg_auditOffset (bumpEpoch s) = rg_auditOffset s" "rg_directoryEpoch (bumpEpoch s) = Suc (rg_directoryEpoch s)"
  "rg_presence (bumpEpoch s) = rg_presence s" "rg_maxKeysPerNode (bumpEpoch s) = rg_maxKeysPerNode s"
  "rg_maxNodesPerOwner (bumpEpoch s) = rg_maxNodesPerOwner s" "rg_nodes (bumpEpoch s) = rg_nodes s"
  by (simp_all add: bumpEpoch_def)

section \<open>Changes\<close>

text \<open>A new revision of a stored node record: its identity and credential never change.\<close>

definition revises :: "reg_lib \<Rightarrow> node_record \<Rightarrow> node_record \<Rightarrow> registry \<Rightarrow> bool" where
  "revises L n n' s \<longleftrightarrow>
     map_of (rg_nodes s) (n_node_id n) = Some n \<and> n_node_id n' = n_node_id n \<and> n_tokenHash n' = n_tokenHash n \<and>
     n_joined_at n' = n_joined_at n \<and> nodeShape L n'"

definition key_step :: "nat \<Rightarrow> key_entry list \<Rightarrow> key_entry list \<Rightarrow> bool" where
  "key_step mx ks ks' \<longleftrightarrow>
     ks' = ks \<or> (\<exists>pk. ks' = keep_last mx (ks @ [\<lparr>ke_epoch = ke_epoch (last ks) + 1, ke_pubkey = pk\<rparr>]))"

definition succeeds :: "bool \<Rightarrow> task_projection \<Rightarrow> task_projection \<Rightarrow> bool" where
  "succeeds free old new \<longleftrightarrow>
     tp_task_seq old < tp_task_seq new \<and>
     (free \<or> tp_team_id new = tp_team_id old \<and> tp_lead new = tp_lead old \<and> tp_type new = tp_type old \<and>
             tp_attempt old \<le> tp_attempt new)"

inductive eff :: "reg_lib \<Rightarrow> string set \<Rightarrow> bool \<Rightarrow> registry \<Rightarrow> registry \<Rightarrow> bool"
  for L :: reg_lib and issue :: "string set" and free :: bool where
  eff_touch: "eff L issue free s (put_node n' s)"
    if "revises L n n' s" "n_team_id n' = n_team_id n" "n_status n' = n_status n" "n_keys n' = n_keys n"
| eff_dir: "eff L issue free s (bumpEpoch (put_node n' s))"
    if "revises L n n' s" "has (rg_teams s) (n_team_id n')" "key_step (rg_maxKeysPerNode s) (n_keys n) (n_keys n')"
       "n_status n = Revoked \<Longrightarrow> n_status n' = Revoked" "rg_directoryEpoch s < MAX_SAFE"
| eff_enroll: "eff L issue free s
      (bumpEpoch (s\<lparr>rg_nodes := AList.update (n_node_id n) n (rg_nodes s),
                    rg_nodeByTokenHash := AList.update (n_tokenHash n) (n_node_id n) (rg_nodeByTokenHash s),
                    rg_presence := AList.update (n_node_id n) False (rg_presence s)\<rparr>))"
    if "map_of (rg_nodes s) (n_node_id n) = None" "map_of (rg_nodeByTokenHash s) (n_tokenHash n) = None"
       "nodeShape L n" "has (rg_teams s) (n_team_id n)" "map ke_epoch (n_keys n) = [1]" "rg_directoryEpoch s < MAX_SAFE"
| eff_team: "eff L issue free s (s\<lparr>rg_teams := AList.update (tm_team_id t) t (rg_teams s)\<rparr>)"
    if "teamShape L t"
| eff_issue: "eff L issue free s (s\<lparr>rg_enrollTokens := AList.update (er_tokenHash r) r (rg_enrollTokens s)\<rparr>)"
    if "enrollShape L r" "has (rg_teams s) (er_team_id r)" "er_used_by r = None" "er_consumed_at r = None"
       "er_tokenHash r \<in> issue"
| eff_consume: "eff L issue free s
      (s\<lparr>rg_enrollTokens := AList.update (er_tokenHash r) (r\<lparr>er_consumed_at := Some c, er_used_by := Some k\<rparr>) (rg_enrollTokens s)\<rparr>)"
    if "map_of (rg_enrollTokens s) (er_tokenHash r) = Some r" "\<not> truthy (er_consumed_at r)" "has (rg_nodes s) k"
       "is_timestamp L c" "c \<noteq> []" "k \<noteq> []"
| eff_presence: "eff L issue free s (s\<lparr>rg_presence := p\<rparr>)"
| eff_grant: "eff L issue free s (bumpEpoch (s\<lparr>rg_grants := AList.update (gr_grant_id g) g (rg_grants s)\<rparr>))"
    if "grantShape L g" "gr_from_team g \<noteq> gr_to_team g" "has (rg_teams s) (gr_from_team g)" "has (rg_teams s) (gr_to_team g)"
       "rg_directoryEpoch s < MAX_SAFE"
| eff_ungrant: "eff L issue free s (bumpEpoch (s\<lparr>rg_grants := AList.delete k (rg_grants s)\<rparr>))"
    if "rg_directoryEpoch s < MAX_SAFE"
| eff_audit: "eff L issue free s (s\<lparr>rg_auditLog := lg, rg_auditOffset := off\<rparr>)"
    if "list_all (auditShape L) lg" "length lg \<le> 10000" "off + length lg \<le> MAX_SAFE"
| eff_task: "eff L issue free s (s\<lparr>rg_taskIndex := AList.update (tp_task_id (tr_task r)) r (rg_taskIndex s)\<rparr>)"
    if "taskShape L r" "has (rg_teams s) (tp_team_id (tr_task r))" "has (rg_nodes s) (tp_lead (tr_task r))"
       "opt_all (has (rg_nodes s)) (tp_exec (tr_task r))" "tr_content_hash r = taskProjectionHash L (tr_task r)"
       "\<And>p. map_of (rg_taskIndex s) (tp_task_id (tr_task r)) = Some p \<Longrightarrow> succeeds free (tr_task p) (tr_task r)"
| eff_drop_team: "eff L issue free s
      (bumpEpoch (s\<lparr>rg_teams := AList.delete k (rg_teams s),
                    rg_enrollTokens := filter (\<lambda>(_, r). er_team_id r \<noteq> k) (rg_enrollTokens s)\<rparr>))"
    if "\<not> team_in_use k s" "rg_directoryEpoch s < MAX_SAFE"

section \<open>Validity\<close>

definition reg_ok :: "reg_lib \<Rightarrow> registry \<Rightarrow> bool" where
  "reg_ok L s \<longleftrightarrow>
     validateRegistryState L s \<and> wf_map (rg_teams s) \<and> wf_map (rg_nodes s) \<and> wf_map (rg_enrollTokens s) \<and>
     wf_map (rg_nodeByTokenHash s) \<and> wf_map (rg_grants s) \<and> wf_map (rg_taskIndex s) \<and> 3 \<le> rg_maxKeysPerNode s"

definition grows :: "registry \<Rightarrow> registry \<Rightarrow> bool" where
  "grows s s' \<longleftrightarrow>
     (\<forall>k. has (rg_teams s) k \<longrightarrow> has (rg_teams s') k) \<and> (\<forall>k. has (rg_nodes s) k \<longrightarrow> has (rg_nodes s') k) \<and>
     rg_directoryEpoch s \<le> rg_directoryEpoch s'"

lemma grows_valid:
  assumes "grows s s'"
  shows "valid_node L s k n \<Longrightarrow> valid_node L s' k n" "valid_enroll L s k r \<Longrightarrow> valid_enroll L s' k r"
    "valid_grant L s k g \<Longrightarrow> valid_grant L s' k g" "valid_task L s k t \<Longrightarrow> valid_task L s' k t"
  using assms
  by (auto simp: grows_def valid_node_def valid_enroll_def valid_grant_def valid_task_def intro: opt_all_mono)

lemma grows_list:
  assumes "grows s s'"
  shows "list_all (\<lambda>(k, n). valid_node L s k n) m1 \<Longrightarrow> list_all (\<lambda>(k, n). valid_node L s' k n) m1"
    "list_all (\<lambda>(k, n). valid_enroll L s k n) m2 \<Longrightarrow> list_all (\<lambda>(k, n). valid_enroll L s' k n) m2"
    "list_all (\<lambda>(k, n). valid_grant L s k n) m3 \<Longrightarrow> list_all (\<lambda>(k, n). valid_grant L s' k n) m3"
    "list_all (\<lambda>(k, n). valid_task L s k n) m4 \<Longrightarrow> list_all (\<lambda>(k, n). valid_task L s' k n) m4"
  by (auto simp: list_all_iff intro: grows_valid [OF assms])

text \<open>The node lookups of a valid state.\<close>

lemma reg_ok_node:
  assumes "reg_ok L s" "map_of (rg_nodes s) k = Some n"
  shows "valid_node L s k n" "n_node_id n = k" "map_of (rg_nodeByTokenHash s) (n_tokenHash n) = Some k"
  using assms list_all_lookup [OF _ assms(2)]
  by (auto simp: reg_ok_def validateRegistryState_def valid_tokens_def valid_node_def dest!: list_all_lookup [OF _ assms(2)])

text \<open>A revision keeps the credential index.\<close>

lemma revises_tokens:
  assumes "valid_tokens s" "revises L n n' s"
  shows "valid_tokens (put_node n' s)"
proof -
  have lk: "map_of (rg_nodes s) (n_node_id n') = Some n" "n_tokenHash n' = n_tokenHash n" "n_node_id n' = n_node_id n"
    using assms(2) by (auto simp: revises_def)
  have "map (\<lambda>(_, n). n_tokenHash n) (AList.update (n_node_id n') n' (rg_nodes s)) = map (\<lambda>(_, n). n_tokenHash n) (rg_nodes s)"
    by (rule map_snd_update [OF lk(1)]) (simp add: lk)
  moreover have "map_of (rg_nodeByTokenHash s) (n_tokenHash n') = Some (n_node_id n')"
    using assms(1) list_all_lookup [OF _ lk(1)] lk by (fastforce simp: valid_tokens_def)
  ultimately show ?thesis
    using assms(1) lk by (auto simp: valid_tokens_def length_update intro!: list_all_update)
qed

lemma valid_meta_nodes:
  "valid_meta s \<Longrightarrow> rg_auditLog s' = rg_auditLog s \<Longrightarrow> rg_auditOffset s' = rg_auditOffset s \<Longrightarrow>
   rg_directoryEpoch s \<le> rg_directoryEpoch s' \<Longrightarrow> rg_directoryEpoch s' \<le> MAX_SAFE \<Longrightarrow>
   length (rg_nodes s') = length (rg_nodes s) \<Longrightarrow> length (rg_grants s') \<le> length (rg_grants s) \<Longrightarrow> valid_meta s'"
  by (simp add: valid_meta_def)

lemma sorted_epochs_le_last:
  "sorted_wrt (<) (map ke_epoch ks) \<Longrightarrow> k \<in> set ks \<Longrightarrow> ke_epoch k \<le> ke_epoch (last ks)"
  by (induction ks) (auto intro: less_imp_le)

lemma keep_last_snoc: "0 < n \<Longrightarrow> keep_last n (xs @ [x]) = drop (Suc (length xs) - n) xs @ [x]"
  by (simp add: keep_last_def)

lemma key_step_valid:
  assumes "key_step mx ks ks'" "0 < mx" "ks \<noteq> []" "sorted_wrt (<) (map ke_epoch ks)" "ke_epoch (last ks) \<le> e"
  shows "ks' \<noteq> []" "sorted_wrt (<) (map ke_epoch ks')" "ke_epoch (last ks') \<le> Suc e"
proof -
  have "ks' \<noteq> [] \<and> sorted_wrt (<) (map ke_epoch ks') \<and> ke_epoch (last ks') \<le> Suc e"
  proof (cases "ks' = ks")
    case True
    then show ?thesis using assms by simp
  next
    case False
    then obtain pk where "ks' = keep_last mx (ks @ [\<lparr>ke_epoch = ke_epoch (last ks) + 1, ke_pubkey = pk\<rparr>])"
      using assms(1) by (auto simp: key_step_def)
    moreover have "sorted_wrt (<) (map ke_epoch (ks @ [\<lparr>ke_epoch = ke_epoch (last ks) + 1, ke_pubkey = pk\<rparr>]))"
      using assms(4) sorted_epochs_le_last [OF assms(4)] by (auto simp: sorted_wrt_append less_Suc_eq_le)
    ultimately show ?thesis
      using assms by (auto simp: keep_last_snoc sorted_wrt_append sorted_wrt_drop drop_map [symmetric] dest!: in_set_dropD)
  qed
  then show "ks' \<noteq> []" "sorted_wrt (<) (map ke_epoch ks')" "ke_epoch (last ks') \<le> Suc e" by auto
qed

lemma put_node_grows:
  "map_of (rg_nodes s) (n_node_id n') \<noteq> None \<Longrightarrow> grows s (put_node n' s)" "grows s (bumpEpoch (put_node n' s))"
  by (auto simp: grows_def)

text \<open>Every change keeps a valid state valid.\<close>

lemma revise_ok:
  assumes ok: "reg_ok L s" and rv: "revises L n n' s" and team: "has (rg_teams s) (n_team_id n')"
    and keys: "key_step (rg_maxKeysPerNode s) (n_keys n) (n_keys n')"
    and sx: "s' = put_node n' s \<and> n_keys n' = n_keys n \<or> s' = bumpEpoch (put_node n' s) \<and> rg_directoryEpoch s < MAX_SAFE"
  shows "reg_ok L s'"
proof -
  have lk: "map_of (rg_nodes s) (n_node_id n') = Some n" "n_node_id n' = n_node_id n" "nodeShape L n'"
    using rv by (auto simp: revises_def)
  have mx: "0 < rg_maxKeysPerNode s" using ok by (simp add: reg_ok_def)
  have vn: "valid_node L s (n_node_id n) n" using reg_ok_node(1) [OF ok lk(1)] lk by simp
  have ks: "n_keys n' \<noteq> []" "sorted_wrt (<) (map ke_epoch (n_keys n'))"
    "ke_epoch (last (n_keys n')) \<le> Suc (rg_directoryEpoch s)"
    using key_step_valid [OF keys mx, of "rg_directoryEpoch s"] vn by (auto simp: valid_node_def)
  have g: "grows s s'" using sx lk by (auto intro: put_node_grows)
  have v': "valid_node L s' (n_node_id n') n'"
    using sx vn ks lk team by (auto simp: valid_node_def)
  have tok: "valid_tokens s'"
    using ok revises_tokens [OF _ rv] sx by (auto simp: reg_ok_def validateRegistryState_def valid_tokens_def)
  have sel: "rg_teams s' = rg_teams s" "rg_enrollTokens s' = rg_enrollTokens s" "rg_grants s' = rg_grants s"
    "rg_taskIndex s' = rg_taskIndex s" "rg_maxKeysPerNode s' = rg_maxKeysPerNode s" "rg_nodeByTokenHash s' = rg_nodeByTokenHash s" "rg_auditLog s' = rg_auditLog s"
    "rg_nodes s' = AList.update (n_node_id n') n' (rg_nodes s)"
    using sx by auto
  have meta: "valid_meta s'"
    using ok sx lk by (auto simp: reg_ok_def validateRegistryState_def valid_meta_def length_update)
  show ?thesis
    using ok tok meta v' unfolding reg_ok_def validateRegistryState_def sel
    by (auto intro!: list_all_update intro: grows_list [OF g])
qed

lemma has_delete [simp]: "has (AList.delete k m) k' \<longleftrightarrow> k' \<noteq> k \<and> has m k'"
  by (simp add: has_def)

lemma drop_team_ok:
  assumes ok: "reg_ok L s" and free: "\<not> team_in_use k s" and room: "rg_directoryEpoch s < MAX_SAFE"
  shows "reg_ok L (bumpEpoch (s\<lparr>rg_teams := AList.delete k (rg_teams s),
                    rg_enrollTokens := filter (\<lambda>(_, r). er_team_id r \<noteq> k) (rg_enrollTokens s)\<rparr>))" (is "reg_ok L ?s'")
proof -
  have nodes: "list_all (\<lambda>(i, n). valid_node L ?s' i n) (rg_nodes s)"
    using ok free by (auto simp: reg_ok_def validateRegistryState_def list_all_iff team_in_use_def list_ex_iff valid_node_def)
  have grants: "list_all (\<lambda>(i, g). valid_grant L ?s' i g) (rg_grants s)"
    using ok free by (auto simp: reg_ok_def validateRegistryState_def list_all_iff team_in_use_def list_ex_iff valid_grant_def)
  have tasks: "list_all (\<lambda>(i, t). valid_task L ?s' i t) (rg_taskIndex s)"
    using ok free by (auto simp: reg_ok_def validateRegistryState_def list_all_iff team_in_use_def list_ex_iff valid_task_def)
  have toks: "list_all (\<lambda>(i, r). valid_enroll L ?s' i r) (rg_enrollTokens ?s')"
    using ok by (auto simp: reg_ok_def validateRegistryState_def list_all_iff valid_enroll_def)
  have "valid_meta ?s'" "valid_tokens ?s'"
    using ok room by (auto simp: reg_ok_def validateRegistryState_def valid_meta_def valid_tokens_def)
  then show ?thesis
    using ok nodes grants tasks toks
    by (simp add: reg_ok_def validateRegistryState_def list_all_delete)
qed

lemma enroll_ok:
  assumes ok: "reg_ok L s" and fresh: "map_of (rg_nodes s) (n_node_id n) = None" "map_of (rg_nodeByTokenHash s) (n_tokenHash n) = None"
    and n: "nodeShape L n" "has (rg_teams s) (n_team_id n)" "map ke_epoch (n_keys n) = [1]" and room: "rg_directoryEpoch s < MAX_SAFE"
  shows "reg_ok L (bumpEpoch (s\<lparr>rg_nodes := AList.update (n_node_id n) n (rg_nodes s),
                    rg_nodeByTokenHash := AList.update (n_tokenHash n) (n_node_id n) (rg_nodeByTokenHash s),
                    rg_presence := AList.update (n_node_id n) False (rg_presence s)\<rparr>))" (is "reg_ok L ?s'")
proof -
  have g: "grows s ?s'" by (simp add: grows_def)
  have nk: "n_keys n \<noteq> []" "ke_epoch (last (n_keys n)) = 1" using n(3) by auto
  have v: "valid_node L ?s' (n_node_id n) n"
    using n nk by (simp add: valid_node_def)
  have old: "map_of (rg_nodeByTokenHash s) (n_tokenHash m) = Some i" if "(i, m) \<in> set (rg_nodes s)" for i m
    using ok that by (auto simp: reg_ok_def validateRegistryState_def valid_tokens_def list_all_iff)
  have dist: "n_tokenHash n \<notin> n_tokenHash ` snd ` set (rg_nodes s)"
    using old fresh(2) by force
  have tok: "valid_tokens ?s'"
    using ok fresh dist old
    by (auto simp: reg_ok_def validateRegistryState_def valid_tokens_def map_update_fresh length_update update_fresh
          list_all_iff image_iff map_add_def)
  have "valid_meta ?s'"
    using ok room fresh by (auto simp: reg_ok_def validateRegistryState_def valid_meta_def length_update)
  then show ?thesis
    using ok tok v by (auto simp: reg_ok_def validateRegistryState_def intro!: list_all_update intro: grows_list [OF g])
qed

lemmas reg_ok_unfold = reg_ok_def validateRegistryState_def

lemma table_ok:
  assumes ok: "reg_ok L s"
  shows "teamShape L t \<Longrightarrow> reg_ok L (s\<lparr>rg_teams := AList.update (tm_team_id t) t (rg_teams s)\<rparr>)" (is "_ \<Longrightarrow> reg_ok L ?t")
    and "valid_enroll L s (er_tokenHash r) r \<Longrightarrow>
         reg_ok L (s\<lparr>rg_enrollTokens := AList.update (er_tokenHash r) r (rg_enrollTokens s)\<rparr>)" (is "_ \<Longrightarrow> reg_ok L ?e")
    and "valid_grant L s (gr_grant_id g) g \<Longrightarrow> rg_directoryEpoch s < MAX_SAFE \<Longrightarrow>
         reg_ok L (bumpEpoch (s\<lparr>rg_grants := AList.update (gr_grant_id g) g (rg_grants s)\<rparr>))" (is "_ \<Longrightarrow> _ \<Longrightarrow> reg_ok L ?g")
    and "rg_directoryEpoch s < MAX_SAFE \<Longrightarrow>
         reg_ok L (bumpEpoch (s\<lparr>rg_grants := AList.delete k (rg_grants s)\<rparr>))" (is "_ \<Longrightarrow> reg_ok L ?u")
    and "valid_task L s (tp_task_id (tr_task tr)) tr \<Longrightarrow>
         reg_ok L (s\<lparr>rg_taskIndex := AList.update (tp_task_id (tr_task tr)) tr (rg_taskIndex s)\<rparr>)" (is "_ \<Longrightarrow> reg_ok L ?k")
proof -
  have gs: "grows s ?t" "grows s ?e" "grows s ?g" "grows s ?u" "grows s ?k" by (simp_all add: grows_def)
  have tok: "valid_tokens s" "valid_meta s" using ok by (auto simp: reg_ok_unfold)
  have tok': "valid_tokens ?t" "valid_tokens ?e" "valid_tokens ?g" "valid_tokens ?u" "valid_tokens ?k"
    using tok by (auto simp: valid_tokens_def)
  have len: "length (AList.delete k (rg_grants s)) \<le> length (rg_grants s)"
    by (simp add: AList.delete_eq)
  show "reg_ok L ?t" if "teamShape L t"
    using ok that tok tok' by (auto simp: reg_ok_unfold valid_meta_def valid_team_def intro!: list_all_update intro: grows_list [OF gs(1)])
  show "reg_ok L ?e" if "valid_enroll L s (er_tokenHash r) r"
    using ok that tok tok' grows_valid(2) [OF gs(2) that]
    by (auto simp: reg_ok_unfold valid_meta_def intro!: list_all_update intro: grows_list [OF gs(2)])
  show "reg_ok L ?g" if "valid_grant L s (gr_grant_id g) g" "rg_directoryEpoch s < MAX_SAFE"
    using ok that tok tok' grows_valid(3) [OF gs(3) that(1)]
    by (auto simp: reg_ok_unfold valid_meta_def length_update intro!: list_all_update intro: grows_list [OF gs(3)])
  show "reg_ok L ?u" if "rg_directoryEpoch s < MAX_SAFE"
    using ok that tok tok' len
    by (auto simp: reg_ok_unfold valid_meta_def intro!: list_all_delete intro: grows_list [OF gs(4)])
  show "reg_ok L ?k" if "valid_task L s (tp_task_id (tr_task tr)) tr"
    using ok that tok tok' grows_valid(4) [OF gs(5) that]
    by (auto simp: reg_ok_unfold valid_meta_def intro!: list_all_update intro: grows_list [OF gs(5)])
qed

lemma eff_ok: "eff L issue free s s' \<Longrightarrow> reg_ok L s \<Longrightarrow> reg_ok L s'"
proof (induction rule: eff.induct)
  case (eff_touch n n' s)
  then have "map_of (rg_nodes s) (n_node_id n) = Some n" by (simp add: revises_def)
  with eff_touch have "has (rg_teams s) (n_team_id n')"
    using reg_ok_node(1) by (fastforce simp: valid_node_def)
  with eff_touch show ?case by (auto intro: revise_ok simp: key_step_def)
next
  case (eff_dir n n' s)
  then show ?case by (auto intro: revise_ok)
next
  case (eff_enroll s n)
  then show ?case by (auto intro: enroll_ok)
next
  case (eff_team t s)
  then show ?case by (auto intro: table_ok)
next
  case (eff_issue r s)
  then show ?case by (auto intro!: table_ok simp: valid_enroll_def)
next
  case (eff_consume s r k c)
  let ?r = "r\<lparr>er_consumed_at := Some c, er_used_by := Some k\<rparr>"
  have "valid_enroll L s (er_tokenHash r) r"
    using eff_consume list_all_lookup [OF _ eff_consume(1)] by (fastforce simp: reg_ok_unfold)
  then have "valid_enroll L s (er_tokenHash ?r) ?r"
    using eff_consume by (simp add: valid_enroll_def enrollShape_def)
  from table_ok(2) [OF eff_consume(7) this] show ?case by simp
next
  case (eff_presence s p)
  then show ?case
    by (simp add: reg_ok_unfold valid_meta_def valid_tokens_def valid_node_def valid_enroll_def valid_grant_def valid_task_def)
next
  case (eff_grant g s)
  then show ?case by (auto intro!: table_ok simp: valid_grant_def)
next
  case (eff_ungrant s k)
  then show ?case by (auto intro: table_ok)
next
  case (eff_audit lg off s)
  then show ?case
    by (simp add: reg_ok_unfold valid_meta_def valid_tokens_def valid_node_def valid_enroll_def valid_grant_def valid_task_def)
next
  case (eff_task r s)
  then show ?case by (auto intro!: table_ok simp: valid_task_def)
next
  case (eff_drop_team k s)
  then show ?case by (auto intro: drop_team_ok)
qed

lemma effs_ok: "(eff L issue free)\<^sup>*\<^sup>* s s' \<Longrightarrow> reg_ok L s \<Longrightarrow> reg_ok L s'"
  by (induction rule: rtranclp_induct) (auto intro: eff_ok)

lemma new_registry_ok: "reg_ok L (newRegistry opts)"
  by (simp add: reg_ok_unfold newRegistry_def valid_meta_def valid_tokens_def MAX_SAFE_def)

section \<open>Every call is a sequence of changes\<close>

text \<open>What is relied on of the library: \<open>Date.parse\<close> reads back what \<open>toISOString\<close> writes, and a digest is 64 hex digits.\<close>

definition lib_ok :: "reg_lib \<Rightarrow> number \<Rightarrow> bool" where
  "lib_ok L now \<longleftrightarrow> is_timestamp L (lb_iso L now) \<and> lb_iso L now \<noteq> [] \<and> (\<forall>x. is_hash (lb_sha L x))"

text \<open>The counters have room below the largest safe integer.\<close>

definition room :: "registry \<Rightarrow> bool" where
  "room s \<longleftrightarrow>
     rg_directoryEpoch s + length (rg_teams s) + length (rg_nodes s) < MAX_SAFE \<and>
     rg_auditOffset s + length (rg_auditLog s) < MAX_SAFE \<and>
     list_all (\<lambda>(_, n). n_caps_rev n < MAX_SAFE) (rg_nodes s)"

text \<open>The arguments of a call: drawn identifiers are non-empty and, for a node, new; typed texts are non-empty.\<close>

fun call_ok :: "reg_lib \<Rightarrow> registry \<Rightarrow> reg_op \<Rightarrow> bool" where
  "call_ok L s (Rop_createTeam uuid _ _) \<longleftrightarrow> uuid \<noteq> []"
| "call_ok L s (Rop_enroll tu nu nt _) \<longleftrightarrow>
     tu \<noteq> [] \<and> nu \<noteq> [] \<and> \<not> has (rg_nodes s) nu \<and> \<not> has (rg_nodeByTokenHash s) (lb_sha L nt)"
| "call_ok L s (Rop_grant g _ _ cs _ _) \<longleftrightarrow> g \<noteq> [] \<and> list_all (\<lambda>c. c \<noteq> []) (or_default cs [])"
| "call_ok L s (Rop_audit e _ _ _ _) \<longleftrightarrow> e \<noteq> []"
| "call_ok L s (Rop_upsert t) \<longleftrightarrow>
     has (rg_teams s) (str_or (map_of t ''team_id'')) \<and> has (rg_nodes s) (str_or (map_of t ''lead'')) \<and>
     opt_all (has (rg_nodes s)) (str_of (map_of t ''exec''))"
| "call_ok L s _ \<longleftrightarrow> True"

fun issued_by :: "reg_lib \<Rightarrow> reg_op \<Rightarrow> string set" where
  "issued_by L (Rop_issue token _ _ _) = {lb_sha L token}"
| "issued_by L _ = {}"

fun is_upsert :: "reg_op \<Rightarrow> bool" where
  "is_upsert (Rop_upsert _) = True"
| "is_upsert _ = False"

abbreviation effs :: "reg_lib \<Rightarrow> string set \<Rightarrow> bool \<Rightarrow> registry \<Rightarrow> registry \<Rightarrow> bool" where
  "effs L issue free \<equiv> (eff L issue free)\<^sup>*\<^sup>*"

lemma effs_one: "eff L issue free s s' \<Longrightarrow> effs L issue free s s'"
  by (rule r_into_rtranclp)

lemma effs_Cons: "eff L issue free s t \<Longrightarrow> effs L issue free t u \<Longrightarrow> effs L issue free s u"
  by (rule converse_rtranclp_into_rtranclp)

lemma fst_fail [simp]: "fst (fail c st s) = s" "snd (fail c st s) = Inl (ApiError c st None)"
  by (simp_all add: fail_def)

lemma fst_conflict [simp]: "fst (conflict r s) = s"
  by (simp add: conflict_def)

text \<open>What a continuation of \<open>with_node\<close> may assume.\<close>

definition touched :: "reg_lib \<Rightarrow> number \<Rightarrow> registry \<Rightarrow> registry \<Rightarrow> node_record \<Rightarrow> bool" where
  "touched L now s s1 n1 \<longleftrightarrow>
     (\<exists>n. map_of (rg_nodes s) (n_node_id n) = Some n \<and> n_status n = Active \<and>
          n1 = n\<lparr>n_last_seen := Some (lb_iso L now)\<rparr> \<and> s1 = put_node n1 s)"

lemma authByToken_cases:
  assumes "reg_ok L s"
  shows "(\<exists>c st. authByToken L now tok s = (s, Inl (ApiError c st None))) \<or>
         (\<exists>s1 n1. authByToken L now tok s = (s1, Inr n1) \<and> touched L now s s1 n1)"
proof -
  define nid where "nid = map_of (rg_nodeByTokenHash s) (lb_sha L tok)"
  define nd where "nd = (if truthy nid then map_of (rg_nodes s) (or_default nid []) else None)"
  have auth: "authByToken L now tok s =
    (case nd of None \<Rightarrow> fail Not_member 401 s
     | Some n \<Rightarrow> (case n_status n of Suspended \<Rightarrow> fail Node_suspended 403 s | Revoked \<Rightarrow> fail Node_revoked 403 s
         | Active \<Rightarrow> (let n1 = n\<lparr>n_last_seen := Some (lb_iso L now)\<rparr> in (put_node n1 s, Inr n1))))"
    by (simp add: authByToken_def Let_def nid_def nd_def)
  show ?thesis
  proof (cases nd)
    case None
    then show ?thesis by (simp add: auth fail_def)
  next
    case (Some n)
    then have lk: "map_of (rg_nodes s) (or_default nid []) = Some n" by (auto simp: nd_def split: if_splits)
    with reg_ok_node(2) [OF assms lk] have "map_of (rg_nodes s) (n_node_id n) = Some n" by simp
    with Some show ?thesis
      by (cases "n_status n") (auto simp: auth fail_def touched_def Let_def)
  qed
qed

lemma touched_facts:
  assumes "reg_ok L s" "lib_ok L now" "touched L now s s1 n1"
  shows "eff L issue free s s1" "reg_ok L s1" "map_of (rg_nodes s1) (n_node_id n1) = Some n1" "n_status n1 = Active"
    "room s \<Longrightarrow> room s1" "nodeShape L n1" "has (rg_teams s1) (n_team_id n1)" "n_node_id n1 \<noteq> []"
    "rg_teams s1 = rg_teams s" "rg_enrollTokens s1 = rg_enrollTokens s" "rg_taskIndex s1 = rg_taskIndex s"
    "rg_directoryEpoch s1 = rg_directoryEpoch s" "rg_maxKeysPerNode s1 = rg_maxKeysPerNode s" "n_keys n1 \<noteq> []"
    "room s \<Longrightarrow> n_caps_rev n1 < MAX_SAFE"
proof -
  obtain n where n: "map_of (rg_nodes s) (n_node_id n) = Some n" "n_status n = Active"
    "n1 = n\<lparr>n_last_seen := Some (lb_iso L now)\<rparr>" "s1 = put_node n1 s"
    using assms(3) by (auto simp: touched_def)
  have vn: "valid_node L s (n_node_id n) n" using reg_ok_node(1) [OF assms(1) n(1)] .
  then have sh: "nodeShape L n1" using n assms(2) by (simp add: valid_node_def nodeShape_def lib_ok_def)
  then have rv: "revises L n n1 s" using n by (simp add: revises_def)
  show e: "eff L issue free s s1" for issue free
    unfolding n(4) by (rule eff_touch [OF rv]) (simp_all add: n)
  show "reg_ok L s1" by (rule eff_ok [OF e assms(1)])
  show "map_of (rg_nodes s1) (n_node_id n1) = Some n1" "n_status n1 = Active" "nodeShape L n1"
    "has (rg_teams s1) (n_team_id n1)" "n_node_id n1 \<noteq> []" "n_keys n1 \<noteq> []"
    using n sh vn by (auto simp: valid_node_def nodeShape_def)
  show "rg_teams s1 = rg_teams s" "rg_enrollTokens s1 = rg_enrollTokens s" "rg_taskIndex s1 = rg_taskIndex s"
    "rg_directoryEpoch s1 = rg_directoryEpoch s" "rg_maxKeysPerNode s1 = rg_maxKeysPerNode s"
    using n by simp_all
  show cr: "room s \<Longrightarrow> n_caps_rev n1 < MAX_SAFE"
    using n list_all_lookup [OF _ n(1)] by (fastforce simp: room_def)
  then show "room s \<Longrightarrow> room s1"
    using n by (auto simp: room_def length_update intro!: list_all_update)
qed

lemma with_node_effs:
  assumes "reg_ok L s" "lib_ok L now"
    and "\<And>s1 n1. touched L now s s1 n1 \<Longrightarrow> effs L issue free s1 (fst (k s1 n1))"
  shows "effs L issue free s (fst (with_node L now tok s k))"
  using authByToken_cases [OF assms(1), of now tok]
proof (elim disjE exE conjE)
  fix s1 n1 assume "authByToken L now tok s = (s1, Inr n1)" and t: "touched L now s s1 n1"
  then show ?thesis
    using effs_Cons [OF touched_facts(1) [OF assms(1,2) t] assms(3) [OF t]]
    by (simp add: with_node_def)
qed (simp add: with_node_def)

text \<open>A change of the authenticated node, with and without an epoch.\<close>

lemma touched_revise:
  assumes "touched L now s s1 n1" "reg_ok L s" "lib_ok L now"
    and "n_node_id n2 = n_node_id n1" "n_tokenHash n2 = n_tokenHash n1" "n_joined_at n2 = n_joined_at n1" "nodeShape L n2"
  shows "n_team_id n2 = n_team_id n1 \<Longrightarrow> n_status n2 = n_status n1 \<Longrightarrow> n_keys n2 = n_keys n1 \<Longrightarrow>
         effs L issue free s1 (put_node n2 s1)"
    and "room s \<Longrightarrow> has (rg_teams s1) (n_team_id n2) \<Longrightarrow> key_step (rg_maxKeysPerNode s1) (n_keys n1) (n_keys n2) \<Longrightarrow>
         effs L issue free s1 (bumpEpoch (put_node n2 s1))"
proof -
  note tf = touched_facts [OF assms(2,3,1)]
  have rv: "revises L n1 n2 s1" using assms(4-7) tf(3) by (simp add: revises_def)
  show "effs L issue free s1 (put_node n2 s1)"
    if "n_team_id n2 = n_team_id n1" "n_status n2 = n_status n1" "n_keys n2 = n_keys n1"
    using eff_touch [OF rv that] by (rule effs_one)
  show "effs L issue free s1 (bumpEpoch (put_node n2 s1))"
    if "room s" "has (rg_teams s1) (n_team_id n2)" "key_step (rg_maxKeysPerNode s1) (n_keys n1) (n_keys n2)"
    using eff_dir [OF rv that(2,3)] tf(4) tf(5) [OF that(1)] by (intro effs_one) (auto simp: room_def)
qed

lemma auth_effs:
  assumes "reg_ok L s" "lib_ok L now"
  shows "effs L issue free s (fst (authByToken L now tok s))"
  using authByToken_cases [OF assms(1), of now tok]
  by (elim disjE exE conjE) (simp_all add: effs_one [OF touched_facts(1) [OF assms]])

lemma rename_effs:
  assumes "reg_ok L s" "lib_ok L now"
  shows "effs L issue free s (fst (updateNodeName L now tok name s))"
proof (cases "named (Some (JStr name))")
  case True
  then have ne: "name \<noteq> []" by (auto simp: named_def)
  show ?thesis
    using True ne touched_facts(6) [OF assms]
    by (auto simp: updateNodeName_def Let_def nodeShape_def intro!: with_node_effs [OF assms] touched_revise [OF _ assms])
qed (simp add: updateNodeName_def)

lemma putLoad_effs:
  assumes "reg_ok L s" "lib_ok L now"
  shows "effs L issue free s (fst (putLoad L now tok b s))"
  using touched_facts(6) [OF assms]
  by (auto simp: putLoad_def nodeShape_def intro!: with_node_effs [OF assms] touched_revise [OF _ assms])

lemma putCaps_effs:
  assumes "reg_ok L s" "lib_ok L now" "room s"
  shows "effs L issue free s (fst (putCaps L now tok tags s))"
  unfolding putCaps_def
proof (rule with_node_effs [OF assms(1,2)])
  fix s1 n1 assume t: "touched L now s s1 n1"
  note tf = touched_facts [OF assms(1,2) t]
  have caps: "list_all (\<lambda>c. c \<noteq> []) (sort (map (\<lambda>t. or_default (str_of (Some t)) []) ts))"
    if "\<not> list_ex (\<lambda>t. \<not> isNonEmptyStr (Some t)) ts" for ts
    using that by (force simp: list_all_iff list_ex_iff isNonEmptyStr_def str_of_def or_default_def split: json.splits)
  show "effs L issue free s1 (fst (case arr_of (Some tags) of
         None \<Rightarrow> fail Bad_request 400 s1
       | Some ts \<Rightarrow>
           if list_ex (\<lambda>t. \<not> isNonEmptyStr (Some t)) ts then fail Bad_request 400 s1
           else (let sorted = sort (map (\<lambda>t. or_default (str_of (Some t)) []) ts);
                     changed = (sorted \<noteq> sort (n_caps n1));
                     n1 = n1\<lparr>n_caps := sorted, n_caps_rev := (if changed then n_caps_rev n1 + 1 else n_caps_rev n1)\<rparr>
                 in (put_node n1 s1, Inr (n_caps_rev n1)))))"
    using caps tf(6) tf(15) [OF assms(3)]
    by (auto simp: Let_def nodeShape_def list_all_iff split: option.splits intro!: touched_revise [OF t assms(1,2)])
qed

lemma rotate_effs:
  assumes "reg_ok L s" "lib_ok L now" "room s"
  shows "effs L issue free s (fst (rotateKeys L now tok pk sig v s))"
  unfolding rotateKeys_def
proof (rule with_node_effs [OF assms(1,2)])
  fix s1 n1 assume t: "touched L now s s1 n1"
  note tf = touched_facts [OF assms(1,2) t]
  define e where "e = Suc (ke_epoch (last (n_keys n1)))"
  define n2 where "n2 = n1\<lparr>n_keys := keep_last (rg_maxKeysPerNode s1) (n_keys n1 @ [\<lparr>ke_epoch = e, ke_pubkey = pk\<rparr>])\<rparr>"
  have le: "ke_epoch (last (n_keys n1)) < MAX_SAFE"
    using reg_ok_node(1) [OF tf(2,3)] tf(5) [OF assms(3)] by (auto simp: valid_node_def room_def)
  have "effs L issue free s1 (bumpEpoch (put_node n2 s1))" if "pk \<noteq> []"
  proof (rule touched_revise(2) [OF t assms(1,2) _ _ _ _ assms(3)])
    have "list_all keyShape (n_keys n1)" using tf(6) by (simp add: nodeShape_def)
    then show "nodeShape L n2"
      using tf(6) le that by (auto simp: n2_def nodeShape_def keep_last_def list_all_iff keyShape_def e_def dest!: in_set_dropD)
  qed (use tf in \<open>auto simp: n2_def key_step_def e_def\<close>)
  then show "effs L issue free s1 (fst (case v of
         None \<Rightarrow> fail Bad_request 503 s1
       | Some verify \<Rightarrow>
           if \<not> truthy sig then fail Bad_request 401 s1
           else if verify n1 pk (or_default sig []) \<noteq> Some True then fail Bad_request 401 s1
           else if pk = [] then fail Bad_request 400 s1
           else if n_keys n1 = [] then (s1, Inl Js_type_error)
           else (let epoch = ke_epoch (last (n_keys n1)) + 1;
                     keys = keep_last (rg_maxKeysPerNode s1) (n_keys n1 @ [\<lparr>ke_epoch = epoch, ke_pubkey = pk\<rparr>])
                 in (bumpEpoch (put_node (n1\<lparr>n_keys := keys\<rparr>) s1), Inr epoch))))"
    by (auto simp: n2_def e_def Let_def split: option.splits)
qed

lemma status_effs:
  assumes "reg_ok L s" "room s"
  shows "effs L issue free s (fst (suspend k s))" "effs L issue free s (fst (resume k s))" "effs L issue free s (fst (revoke k s))"
proof -
  have step: "effs L issue free s (bumpEpoch (put_node (n\<lparr>n_status := st\<rparr>) s))"
    if "map_of (rg_nodes s) k = Some n" "n_status n = Revoked \<longrightarrow> st = Revoked" for n st
  proof (rule effs_one, rule eff_dir)
    have "valid_node L s k n" "n_node_id n = k" using reg_ok_node [OF assms(1) that(1)] by auto
    then show "revises L n (n\<lparr>n_status := st\<rparr>) s" "has (rg_teams s) (n_team_id (n\<lparr>n_status := st\<rparr>))"
      using that by (auto simp: revises_def valid_node_def nodeShape_def)
  qed (use that assms(2) in \<open>auto simp: key_step_def room_def\<close>)
  show "effs L issue free s (fst (suspend k s))" "effs L issue free s (fst (resume k s))"
    using step by (auto simp: suspend_def resume_def mustNode_def split: option.splits)
  have "effs L issue free s (bumpEpoch ((put_node (n\<lparr>n_status := Revoked\<rparr>) s)\<lparr>rg_presence := p\<rparr>))"
    if "map_of (rg_nodes s) k = Some n" for n p
  proof -
    have "bumpEpoch ((put_node (n\<lparr>n_status := Revoked\<rparr>) s)\<lparr>rg_presence := p\<rparr>) =
      (bumpEpoch (put_node (n\<lparr>n_status := Revoked\<rparr>) s))\<lparr>rg_presence := p\<rparr>"
      by (simp add: bumpEpoch_def)
    then show ?thesis
      using rtranclp.rtrancl_into_rtrancl [OF step [OF that] eff_presence] by simp
  qed
  then show "effs L issue free s (fst (revoke k s))"
    by (auto simp: revoke_def mustNode_def Let_def split: option.splits)
qed

lemma createTeam_shape: "lib_ok L now \<Longrightarrow> uuid \<noteq> [] \<Longrightarrow> teamShape L (snd (createTeam L now uuid name owner s))"
  "tm_team_id (snd (createTeam L now uuid name owner s)) = uuid"
  "fst (createTeam L now uuid name owner s) = s\<lparr>rg_teams := AList.update uuid (snd (createTeam L now uuid name owner s)) (rg_teams s)\<rparr>"
  by (simp_all add: createTeam_def Let_def teamShape_def lib_ok_def)

lemma createTeam_eff:
  assumes "lib_ok L now" "uuid \<noteq> []"
  shows "eff L issue free s (fst (createTeam L now uuid name owner s))"
  using eff_team [OF createTeam_shape(1) [OF assms], of issue free s name owner s] by (simp add: createTeam_shape(2,3))

lemma issue_effs:
  assumes "reg_ok L s" "lib_ok L now"
  shows "effs L {lb_sha L token} free s (fst (issueEnrollToken L now token team ttl by s))"
proof (cases "map_of (rg_teams s) team")
  case (Some t)
  then have "team \<noteq> []"
    using assms(1) list_all_lookup [OF _ Some] by (fastforce simp: reg_ok_unfold valid_team_def teamShape_def)
  with Some assms(2) show ?thesis
    by (auto simp: issueEnrollToken_def enrollShape_def lib_ok_def has_def intro!: effs_one eff_issue
        [of _ "\<lparr>er_tokenHash = lb_sha L token, er_team_id = team, er_created_by = by,
                 er_expiresAt = now + or_default ttl (rg_enrollTtlMs s), er_used_by = None, er_consumed_at = None\<rparr>", simplified])
qed (simp add: issueEnrollToken_def)

lemma new_node_shape:
  assumes "lib_ok L now" "nu \<noteq> []" "team \<noteq> []" "ei_pubkey i \<noteq> []"
  shows "nodeShape L (new_node L now nu nt team i)"
  using assms by (simp add: nodeShape_def new_node_def keyShape_def lib_ok_def MAX_SAFE_def)

lemma has_team_ne: "reg_ok L s \<Longrightarrow> has (rg_teams s) k \<Longrightarrow> k \<noteq> []"
  by (auto simp: has_def reg_ok_unfold valid_team_def teamShape_def dest!: list_all_lookup)

lemma doEnroll_effs:
  assumes ok: "reg_ok L s" and lib: "lib_ok L now" and nu: "nu \<noteq> []" "\<not> has (rg_nodes s) nu"
    and nt: "\<not> has (rg_nodeByTokenHash s) (lb_sha L nt)" and team: "has (rg_teams s) team" and pk: "ei_pubkey i \<noteq> []"
    and room: "rg_directoryEpoch s < MAX_SAFE"
  shows "effs L issue free s (fst (doEnroll L now nu nt team i s))"
proof -
  define n where "n = new_node L now nu nt team i"
  have n: "n_node_id n = nu" "n_tokenHash n = lb_sha L nt" "n_team_id n = team" "map ke_epoch (n_keys n) = [1]"
    by (simp_all add: n_def new_node_def)
  have "nodeShape L n" unfolding n_def by (rule new_node_shape [OF lib nu(1) has_team_ne [OF ok team] pk])
  from effs_one [OF eff_enroll [of s n L issue free]] this n nu nt team room show ?thesis
    by (auto simp: doEnroll_def n_def [symmetric] Let_def has_def)
qed

lemma doEnroll_out:
  "snd (doEnroll L now nu nt team i s) = Inr r \<Longrightarrow> es_node_id r = nu \<and> has (rg_nodes (fst (doEnroll L now nu nt team i s))) nu"
  by (auto simp: doEnroll_def Let_def split: if_splits)

lemma token_check_Inr:
  "token_check now x = Inr r \<Longrightarrow> x = Some r \<and> \<not> truthy (er_consumed_at r) \<and> now \<le> er_expiresAt r"
  by (auto simp: token_check_def split: option.splits if_splits)

lemma consume_eff:
  assumes "reg_ok L s" "lib_ok L now" "token_check t (map_of (rg_enrollTokens s) h) = Inr r"
    and "rg_enrollTokens s' = rg_enrollTokens s" "has (rg_nodes s') k" "k \<noteq> []"
  shows "eff L issue free s' (consume L now h r k s')"
proof -
  have r: "map_of (rg_enrollTokens s) h = Some r" "\<not> truthy (er_consumed_at r)" using token_check_Inr [OF assms(3)] by auto
  have "er_tokenHash r = h" using assms(1) list_all_lookup [OF _ r(1)] by (fastforce simp: reg_ok_unfold valid_enroll_def)
  with r assms(2,4-6) show ?thesis
    using eff_consume [of s' r k L "lb_iso L now" issue free] by (simp add: consume_def lib_ok_def)
qed

lemma doEnroll_tokens [simp]: "rg_enrollTokens (fst (doEnroll L now nu nt team i s)) = rg_enrollTokens s"
  by (simp add: doEnroll_def Let_def)

lemma token_team:
  assumes "reg_ok L s" "token_check t (map_of (rg_enrollTokens s) h) = Inr r"
  shows "has (rg_teams s) (er_team_id r)"
  using assms(1) list_all_lookup [OF _ token_check_Inr [OF assms(2), THEN conjunct1]]
  by (fastforce simp: reg_ok_unfold valid_enroll_def)

lemma enroll_solo_effs:
  assumes ok: "reg_ok L s" and lib: "lib_ok L now" and room: "room s" and c: "call_ok L s (Rop_enroll tu nu nt i)"
    and pk: "ei_pubkey i \<noteq> []"
    and s2: "s2 = s\<lparr>rg_teams := AList.update tu t (rg_teams s)\<rparr>" and t: "teamShape L t" "tm_team_id t = tu"
  shows "effs L issue free s (fst (doEnroll L now nu nt tu i s2))"
proof -
  have e: "eff L issue free s s2" using eff_team [OF t(1), of issue free s] t(2) s2 by simp
  have "effs L issue free s2 (fst (doEnroll L now nu nt tu i s2))"
    using c room by (intro doEnroll_effs [OF eff_ok [OF e ok] lib _ _ _ _ pk]) (auto simp: s2 room_def)
  with e show ?thesis by (rule effs_Cons)
qed

lemma enroll_effs:
  assumes ok: "reg_ok L s" and lib: "lib_ok L now" and room: "room s" and c: "call_ok L s (Rop_enroll tu nu nt i)"
  shows "effs L issue free s (fst (enroll L now tu nu nt i s))"
proof -
  consider (bad) "ei_pubkey i = []" | (solo) "ei_pubkey i \<noteq> []" "\<not> truthy (ei_token i)"
    | (tok) "ei_pubkey i \<noteq> []" "truthy (ei_token i)" by blast
  then show ?thesis
  proof cases
    case bad
    then show ?thesis by (simp add: enroll_def)
  next
    case solo
    define t where "t = (snd (createTeam L now tu (Some ''self-owned'') None s))\<lparr>tm_state := Ts_self_owned\<rparr>"
    have "teamShape L t" "tm_team_id t = tu"
      using c lib by (simp_all add: t_def createTeam_def Let_def teamShape_def lib_ok_def)
    from enroll_solo_effs [OF ok lib room c solo(1) _ this, of "s\<lparr>rg_teams := AList.update tu t (rg_teams s)\<rparr>"] solo
    show ?thesis by (simp add: enroll_def createTeam_def Let_def t_def)
  next
    case tok
    define h where "h = lb_sha L (or_default (ei_token i) [])"
    have unf: "enroll L now tu nu nt i s = (case token_check now (map_of (rg_enrollTokens s) h) of
        Inl (c, status) \<Rightarrow> fail c status s
      | Inr rec \<Rightarrow> (case doEnroll L now nu nt (er_team_id rec) i s of
           (s1, Inl e) \<Rightarrow> (s1, Inl e) | (s1, Inr res) \<Rightarrow> (consume L now h rec (es_node_id res) s1, Inr res)))"
      unfolding h_def using tok by (simp add: enroll_def Let_def)
    show ?thesis
    proof (cases "token_check now (map_of (rg_enrollTokens s) h)")
      case (Inl a)
      then show ?thesis by (cases a) (simp add: unf)
    next
      case (Inr r)
      have e1: "effs L issue free s (fst (doEnroll L now nu nt (er_team_id r) i s))"
        using c room by (intro doEnroll_effs [OF ok lib _ _ _ token_team [OF ok Inr] tok(1)]) (auto simp: room_def)
      show ?thesis
      proof (cases "snd (doEnroll L now nu nt (er_team_id r) i s)")
        case (Inl e)
        then show ?thesis using e1 Inr by (simp add: unf case_prod_beta)
      next
        case (Inr res)
        have "eff L issue free (fst (doEnroll L now nu nt (er_team_id r) i s))
           (consume L now h r (es_node_id res) (fst (doEnroll L now nu nt (er_team_id r) i s)))"
          using doEnroll_out [OF Inr] c by (intro consume_eff [OF ok lib \<open>token_check _ _ = Inr r\<close>]) auto
        with e1 show ?thesis
          using Inr \<open>token_check _ _ = Inr r\<close> by (simp add: unf case_prod_beta)
      qed
    qed
  qed
qed

lemma join_effs:
  assumes ok: "reg_ok L s" and lib: "lib_ok L now" and room: "room s"
  shows "effs L issue free s (fst (joinTeam L now nt et s))"
  unfolding joinTeam_def
proof (rule with_node_effs [OF ok lib])
  fix s1 n1 assume t: "touched L now s s1 n1"
  note tf = touched_facts [OF ok lib t]
  define h where "h = lb_sha L et"
  show "effs L issue free s1 (fst (let h = lb_sha L et in
        case token_check now (map_of (rg_enrollTokens s1) h) of
          Inl (c, status) \<Rightarrow> fail c status s1
        | Inr rec \<Rightarrow>
            (let s2 = put_node (n1\<lparr>n_team_id := er_team_id rec\<rparr>) s1
             in (bumpEpoch (consume L now h rec (n_node_id n1) s2), Inr (er_team_id rec, n_team_id n1)))))"
  proof (cases "token_check now (map_of (rg_enrollTokens s1) h)")
    case (Inl a)
    then show ?thesis by (cases a) (simp add: h_def Let_def)
  next
    case (Inr r)
    have team: "has (rg_teams s1) (er_team_id r)" by (rule token_team [OF tf(2) Inr])
    let ?s2 = "put_node (n1\<lparr>n_team_id := er_team_id r\<rparr>) s1"
    have e1: "effs L issue free s1 (bumpEpoch ?s2)"
      using tf(6) team has_team_ne [OF tf(2) team]
      by (intro touched_revise(2) [OF t ok lib _ _ _ _ room]) (auto simp: nodeShape_def key_step_def)
    have "eff L issue free (bumpEpoch ?s2) (consume L now h r (n_node_id n1) (bumpEpoch ?s2))"
      by (rule consume_eff [OF tf(2) lib Inr]) (simp_all add: tf(8))
    moreover have "consume L now h r (n_node_id n1) (bumpEpoch ?s2) = bumpEpoch (consume L now h r (n_node_id n1) ?s2)"
      by (simp add: consume_def bumpEpoch_def)
    ultimately show ?thesis
      using rtranclp.rtrancl_into_rtrancl [OF e1] Inr by (simp add: h_def Let_def)
  qed
qed

lemma grant_effs:
  assumes "reg_ok L s" "lib_ok L now" "room s" "call_ok L s (Rop_grant g a b cs ttl by)"
  shows "effs L issue free s (fst (createGrant L now g a b cs ttl by s))"
    and "effs L issue free s (fst (revokeGrant k s))"
proof -
  define rec where "rec = \<lparr>gr_grant_id = g, gr_from_team = a, gr_to_team = b, gr_caps_visible = or_default cs [],
       gr_expires_at = (case ttl of None \<Rightarrow> None | Some t \<Rightarrow> if t = 0 then None else Some (now + t)),
       gr_created_by = by, gr_created_at = lb_iso L now\<rparr>"
  have "eff L issue free s (bumpEpoch (s\<lparr>rg_grants := AList.update g rec (rg_grants s)\<rparr>))"
    if "has (rg_teams s) a" "has (rg_teams s) b" "a \<noteq> b"
    using eff_grant [of L rec s issue free] that assms has_team_ne [OF assms(1)]
    by (auto simp: rec_def grantShape_def lib_ok_def room_def)
  then show "effs L issue free s (fst (createGrant L now g a b cs ttl by s))"
    by (auto simp: createGrant_def rec_def Let_def has_def intro!: effs_one)
  show "effs L issue free s (fst (revokeGrant k s))"
    using assms(3) by (auto simp: revokeGrant_def room_def intro!: effs_one eff_ungrant)
qed

lemma logAudit_effs:
  assumes "reg_ok L s" "lib_ok L now" "room s" "e \<noteq> []"
  shows "effs L issue free s (logAudit L now e n t r tr s)"
proof -
  define a where "a = \<lparr>ae_ts = lb_iso L now, ae_event = e, ae_node = n, ae_team = t, ae_reason = r, ae_trace_id = tr\<rparr>"
  define lg where "lg = rg_auditLog s @ [a]"
  have a: "auditShape L a" using assms(2,4) by (simp add: a_def auditShape_def lib_ok_def)
  have old: "list_all (auditShape L) (rg_auditLog s)" "length (rg_auditLog s) \<le> 10000"
    "rg_auditOffset s + length (rg_auditLog s) < MAX_SAFE"
    using assms(1,3) by (auto simp: reg_ok_unfold valid_meta_def room_def)
  have all: "list_all (auditShape L) lg" "list_all (auditShape L) (drop 1 lg)"
    using old(1) a by (auto simp: lg_def list_all_iff dest: in_set_dropD)
  have "logAudit L now e n t r tr s = (if 10000 < length lg
       then s\<lparr>rg_auditLog := drop 1 lg, rg_auditOffset := rg_auditOffset s + 1\<rparr> else s\<lparr>rg_auditLog := lg, rg_auditOffset := rg_auditOffset s\<rparr>)"
    by (simp add: logAudit_def lg_def a_def Let_def)
  then show ?thesis
    using effs_one [OF eff_audit [OF all(1), where s = s and off = "rg_auditOffset s"]]
      effs_one [OF eff_audit [OF all(2), where s = s and off = "rg_auditOffset s + 1"]] old
    by (auto simp: lg_def)
qed

text \<open>What a parsed projection satisfies.\<close>

lemma named_ne: "named v \<Longrightarrow> str_or v \<noteq> [] \<and> str_of v = Some (str_or v)"
  by (auto simp: named_def str_or_def split: option.splits)

lemma safe_nat:
  assumes "isSafeIntGe lo v" "0 \<le> lo"
  shows "or_default (nat_of v) 0 \<le> MAX_SAFE" "lo = 1 \<Longrightarrow> 0 < or_default (nat_of v) 0"
proof -
  obtain q where q: "v = Some (JNum q)" "isSafeInteger q" "lo \<le> q"
    using assms by (auto simp: isSafeIntGe_def split: option.splits json.splits)
  have fl: "q = of_int \<lfloor>q\<rfloor>" "\<bar>q\<bar> \<le> 9007199254740991" using q(2) by (auto simp: isSafeInteger_def)
  have "of_int \<lfloor>q\<rfloor> \<le> (of_int 9007199254740991 :: rat)" using fl by linarith
  then have "\<lfloor>q\<rfloor> \<le> 9007199254740991" by (simp only: of_int_le_iff)
  then have "nat \<lfloor>q\<rfloor> \<le> nat 9007199254740991" by (rule nat_mono)
  then show "or_default (nat_of v) 0 \<le> MAX_SAFE"
    using q(1) by (simp add: nat_of_def or_default_def MAX_SAFE_def del: nat_le_iff)
  show "0 < or_default (nat_of v) 0" if "lo = 1"
    using q that by (simp add: nat_of_def or_default_def)
qed

lemma parse_task:
  assumes "parseTaskProjection (JObj fs) = Inr t"
  shows "tp_task_id t \<noteq> []" "tp_type t \<in> {''aid'', ''project''}" "tp_team_id t \<noteq> []" "tp_lead t \<noteq> []"
    "opt_all (\<lambda>x. x \<noteq> []) (tp_exec t)" "0 < tp_attempt t" "tp_attempt t \<le> MAX_SAFE" "tp_status t \<in> set TASK_STATUSES"
    "tp_task_seq t \<le> MAX_SAFE"
    and "tp_task_id t = str_or (map_of fs ''task_id'')" "tp_team_id t = str_or (map_of fs ''team_id'')"
    "tp_lead t = str_or (map_of fs ''lead'')" "tp_exec t = str_of (map_of fs ''exec'')"
    "tp_task_seq t = or_default (nat_of (map_of fs ''task_seq'')) 0"
proof -
  define ty where "ty = (if map_of fs ''type'' \<noteq> None then map_of fs ''type'' else map_of fs ''kind'')"
  have c: "ty = Some (JStr ''aid'') \<or> ty = Some (JStr ''project'')"
    "named (map_of fs ''task_id'')" "named (map_of fs ''team_id'')" "named (map_of fs ''lead'')"
    "map_of fs ''exec'' = None \<or> map_of fs ''exec'' = Some JNull \<or> named (map_of fs ''exec'')"
    "isSafeIntGe 0 (map_of fs ''task_seq'')" "isSafeIntGe 1 (map_of fs ''attempt'')"
    "list_ex (\<lambda>st. map_of fs ''status'' = Some (JStr st)) TASK_STATUSES"
    and t: "t = \<lparr>tp_task_id = str_or (map_of fs ''task_id''), tp_type = str_or ty, tp_team_id = str_or (map_of fs ''team_id''),
       tp_lead = str_or (map_of fs ''lead''), tp_exec = str_of (map_of fs ''exec''),
       tp_attempt = or_default (nat_of (map_of fs ''attempt'')) 0, tp_status = str_or (map_of fs ''status''),
       tp_task_seq = or_default (nat_of (map_of fs ''task_seq'')) 0\<rparr>"
    using assms unfolding ty_def by (auto simp: parseTaskProjection_def Let_def bad_request_def split: if_split_asm)
  show "tp_task_id t \<noteq> []" "tp_team_id t \<noteq> []" "tp_lead t \<noteq> []" using c(2-4) named_ne by (auto simp: t)
  show "tp_type t \<in> {''aid'', ''project''}" using c(1) by (auto simp: t str_or_def)
  show "opt_all (\<lambda>x. x \<noteq> []) (tp_exec t)"
    using c(5) named_ne by (fastforce simp: t str_of_def opt_all_def split: option.splits json.splits)
  show "0 < tp_attempt t" "tp_attempt t \<le> MAX_SAFE" "tp_task_seq t \<le> MAX_SAFE"
    using safe_nat [OF c(6)] safe_nat [OF c(7)] by (simp_all add: t)
  show "tp_status t \<in> set TASK_STATUSES" using c(8) by (auto simp: t list_ex_iff str_or_def)
qed (use assms in \<open>auto simp: parseTaskProjection_def Let_def bad_request_def split: if_split_asm\<close>)

lemma parse_obj: "parseTaskProjection j = Inr t \<Longrightarrow> \<exists>fs. j = JObj fs"
  by (cases j) (auto simp: parseTaskProjection_def bad_request_def)

lemma store_task_effs:
  assumes "lib_ok L now" "parseTaskProjection j = Inr t"
    and "has (rg_teams s) (tp_team_id t)" "has (rg_nodes s) (tp_lead t)" "opt_all (has (rg_nodes s)) (tp_exec t)"
    and "\<And>p. map_of (rg_taskIndex s) (tp_task_id t) = Some p \<Longrightarrow> succeeds free (tr_task p) t"
  shows "effs L issue free s (fst (store_task L now t s))"
proof -
  obtain fs where j: "j = JObj fs" using parse_obj [OF assms(2)] by blast
  have "taskShape L \<lparr>tr_task = t, tr_content_hash = taskProjectionHash L t, tr_updated_at = lb_iso L now\<rparr>"
    using assms(1) parse_task(1-9) [OF assms(2) [unfolded j]]
    by (simp add: taskShape_def lib_ok_def taskProjectionHash_def)
  from effs_one [OF eff_task [OF this]] assms show ?thesis
    by (simp add: store_task_def Let_def)
qed

lemma report_guard_None:
  assumes "report_guard L teamId nodeId task (Some p) = Inr None" "tp_team_id task = teamId" "tp_lead task = nodeId"
  shows "succeeds free (tr_task p) task"
  using assms by (auto simp: report_guard_def succeeds_def Let_def split: if_split_asm)

lemma report_effs:
  assumes "reg_ok L s" "lib_ok L now"
  shows "effs L issue free s (fst (reportTask L now nt team j s))"
  unfolding reportTask_def
proof (rule with_node_effs [OF assms])
  fix s1 n1 assume t: "touched L now s s1 n1"
  note tf = touched_facts [OF assms t]
  have "effs L issue free s1 (fst (store_task L now task s1))"
    if "parseTaskProjection j = Inr task" "n_team_id n1 = team" "tp_team_id task = team" "tp_lead task = n_node_id n1"
       "report_guard L team (n_node_id n1) task (map_of (rg_taskIndex s1) (tp_task_id task)) = Inr None"
       "opt_all (has (rg_nodes s1)) (tp_exec task)" for task
    using that tf(3,7) report_guard_None [of L team "n_node_id n1" task]
    by (intro store_task_effs [OF assms(2) that(1)]) (auto simp: has_def)
  then show "effs L issue free s1 (fst (case parseTaskProjection j of
         Inl e \<Rightarrow> (s1, Inl e)
       | Inr task \<Rightarrow>
           if n_team_id n1 \<noteq> team \<or> tp_team_id task \<noteq> team \<or> tp_lead task \<noteq> n_node_id n1
           then fail Not_member 403 s1
           else (case report_guard L team (n_node_id n1) task (map_of (rg_taskIndex s1) (tp_task_id task)) of
                   Inl e \<Rightarrow> (s1, Inl e)
                 | Inr (Some p) \<Rightarrow> (s1, Inr p)
                 | Inr None \<Rightarrow>
                     (case tp_exec task of
                        None \<Rightarrow> store_task L now task s1
                      | Some x \<Rightarrow> if map_of (rg_nodes s1) x = None then fail Bad_request 400 s1
                                  else store_task L now task s1))))"
    by (auto simp: has_def split: sum.splits option.splits)
qed

lemma upsert_effs:
  assumes "reg_ok L s" "lib_ok L now" "call_ok L s (Rop_upsert t)"
  shows "effs L issue True s (fst (upsertTask L now t s))"
proof -
  define seq where "seq = (case map_of (rg_taskIndex s) (str_or (map_of t ''task_id'')) of
                        None \<Rightarrow> 0 | Some p \<Rightarrow> tp_task_seq (tr_task p) + 1)"
  define fs where "fs = AList.update ''task_seq'' (JNum (of_nat seq)) t"
  have "effs L issue True s (fst (store_task L now task s))" if p: "parseTaskProjection (JObj fs) = Inr task" for task
  proof -
    note pt = parse_task(10-14) [OF p]
    have "tp_task_seq task = seq" using pt(5) by (simp add: fs_def nat_of_def or_default_def)
    then show ?thesis
      using pt assms(3) by (intro store_task_effs [OF assms(2) p]) (auto simp: fs_def succeeds_def seq_def)
  qed
  then show ?thesis
    by (auto simp: upsertTask_def Let_def seq_def [symmetric] fs_def [symmetric] split: sum.splits)
qed

lemma gc_teams_effs:
  assumes "gc_teams L now ts (s, n) = (s', n')" "rg_directoryEpoch s + length ts \<le> MAX_SAFE"
  shows "effs L issue free s s' \<and> rg_directoryEpoch s' \<le> rg_directoryEpoch s + length ts \<and> rg_nodes s' = rg_nodes s"
  using assms
proof (induction ts arbitrary: s n)
  case Nil
  then show ?case by simp
next
  case (Cons t ts)
  show ?case
  proof (cases "gc_team_due L now t s")
    case False
    with Cons.prems Cons.IH [of s n] show ?thesis by simp
  next
    case True
    let ?s1 = "bumpEpoch (s\<lparr>rg_teams := AList.delete (tm_team_id t) (rg_teams s),
                           rg_enrollTokens := filter (\<lambda>(_, r). er_team_id r \<noteq> tm_team_id t) (rg_enrollTokens s)\<rparr>)"
    have e: "eff L issue free s ?s1"
      using True Cons.prems by (intro eff_drop_team) (auto simp: gc_team_due_def)
    have "effs L issue free ?s1 s' \<and> rg_directoryEpoch s' \<le> rg_directoryEpoch ?s1 + length ts \<and> rg_nodes s' = rg_nodes ?s1"
      using True Cons.prems by (intro Cons.IH [of _ "n + 1"]) simp_all
    with e show ?thesis by (auto intro: effs_Cons)
  qed
qed

lemma gc_nodes_effs:
  assumes "gc_nodes L now ns (s, n) = (s', n')" "reg_ok L s" "rg_directoryEpoch s + length ns \<le> MAX_SAFE"
    and "\<And>x. x \<in> set ns \<Longrightarrow> map_of (rg_nodes s) (n_node_id x) = Some x" "distinct (map n_node_id ns)"
  shows "effs L issue free s s' \<and> rg_directoryEpoch s' \<le> rg_directoryEpoch s + length ns"
  using assms
proof (induction ns arbitrary: s n)
  case Nil
  then show ?case by simp
next
  case (Cons x ns)
  show ?case
  proof (cases "gc_node_due L now x s")
    case False
    with Cons.prems Cons.IH [of s n] show ?thesis by simp
  next
    case True
    define x' where "x' = x\<lparr>n_status := Revoked, n_caps := [], n_load := None\<rparr>"
    define s1 where "s1 = bumpEpoch (put_node x' s)"
    define s2 where "s2 = s1\<lparr>rg_presence := AList.update (n_node_id x) False (rg_presence s)\<rparr>"
    have lk: "map_of (rg_nodes s) (n_node_id x) = Some x" by (rule Cons.prems(4)) simp
    have vx: "valid_node L s (n_node_id x) x" by (rule reg_ok_node(1) [OF Cons.prems(2) lk])
    have "revises L x x' s" using vx lk by (auto simp: revises_def x'_def valid_node_def nodeShape_def)
    then have e1: "eff L issue free s s1"
      unfolding s1_def using vx Cons.prems(3)
      by (rule_tac eff_dir) (auto simp: x'_def valid_node_def key_step_def)
    have e2: "eff L issue free s1 s2" unfolding s2_def by (rule eff_presence)
    have "s2 = bumpEpoch ((put_node x' s)\<lparr>rg_presence := AList.update (n_node_id x) False (rg_presence s)\<rparr>)"
      by (simp add: s2_def s1_def bumpEpoch_def)
    then have run: "gc_nodes L now ns (s2, n + 1) = (s', n')"
      using Cons.prems(1) True by (simp add: x'_def Let_def)
    have "effs L issue free s2 s' \<and> rg_directoryEpoch s' \<le> rg_directoryEpoch s2 + length ns"
    proof (rule Cons.IH [OF run])
      show "reg_ok L s2" using e1 e2 Cons.prems(2) eff_ok by blast
      show "map_of (rg_nodes s2) (n_node_id y) = Some y" if "y \<in> set ns" for y
        using that Cons.prems(4) [of y] Cons.prems(5) by (auto simp: s2_def s1_def x'_def image_iff)
    qed (use Cons.prems in \<open>auto simp: s2_def s1_def\<close>)
    moreover have "rg_directoryEpoch s2 = Suc (rg_directoryEpoch s)" by (simp add: s2_def s1_def)
    ultimately show ?thesis
      using effs_Cons [OF e1 effs_Cons [OF e2]] by auto
  qed
qed

lemma stored_nodes:
  assumes "reg_ok L s"
  shows "x \<in> set (map snd (rg_nodes s)) \<Longrightarrow> map_of (rg_nodes s) (n_node_id x) = Some x" "distinct (map n_node_id (map snd (rg_nodes s)))"
proof -
  have id: "n_node_id n = k \<and> map_of (rg_nodes s) k = Some n" if "(k, n) \<in> set (rg_nodes s)" for k n
    using assms that reg_ok_node(2) [OF assms] by (auto simp: reg_ok_def wf_map_def)
  then show "x \<in> set (map snd (rg_nodes s)) \<Longrightarrow> map_of (rg_nodes s) (n_node_id x) = Some x" by auto
  have "map n_node_id (map snd (rg_nodes s)) = map fst (rg_nodes s)" using id by auto
  then show "distinct (map n_node_id (map snd (rg_nodes s)))" using assms by (simp only: reg_ok_def wf_map_def)
qed

lemma gc_effs:
  assumes ok: "reg_ok L s" and room: "room s"
  shows "effs L issue free s (fst (gc L now s))"
proof -
  obtain s1 a where r1: "gc_teams L now (map snd (rg_teams s)) (s, 0) = (s1, a)" by fastforce
  obtain s2 b where r2: "gc_nodes L now (map snd (rg_nodes s1)) (s1, 0) = (s2, b)" by fastforce
  have t: "effs L issue free s s1 \<and> rg_directoryEpoch s1 \<le> rg_directoryEpoch s + length (rg_teams s) \<and> rg_nodes s1 = rg_nodes s"
    using gc_teams_effs [OF r1, of issue free] room by (simp add: room_def)
  then have ok1: "reg_ok L s1" using effs_ok ok by blast
  have "effs L issue free s1 s2"
    using gc_nodes_effs [OF r2 ok1 _ stored_nodes [OF ok1], of issue free] t room by (simp add: room_def)
  with t r1 r2 show ?thesis by (auto simp: gc_def)
qed

text \<open>The refinement: every call is a sequence of the changes of the specification.\<close>

lemma reg_call_effs:
  assumes "reg_ok L s" "lib_ok L now" "room s" "call_ok L s c"
  shows "effs L (issued_by L c) (is_upsert c) s (fst (reg_call L now c s))"
proof (cases c)
  case (Rop_createTeam u n ow)
  then show ?thesis
    using createTeam_eff [of L now u "{}" False s n ow] assms by (auto simp: case_prod_beta intro: effs_one)
next
  case Rop_gc
  then show ?thesis using gc_effs [OF assms(1,3)] by (simp add: case_prod_beta)
next
  case (Rop_grant g a b cs ttl who)
  then show ?thesis using grant_effs(1) [OF assms(1-3)] assms(4) by (simp add: lift_def)
next
  case (Rop_revokeGrant g)
  then show ?thesis using grant_effs(2) [OF assms(1-3), of "''x''" "[]" "[]" None None None] by (simp add: lift_def or_default_def)
next
  case (Rop_presence k on)
  then show ?thesis by (auto intro!: effs_one eff_presence)
qed (use assms issue_effs enroll_effs join_effs auth_effs rename_effs rotate_effs status_effs putCaps_effs putLoad_effs
      logAudit_effs report_effs upsert_effs in \<open>simp_all add: lift_def del: call_ok.simps(2)\<close>)

lemma reg_step_ok:
  assumes "reg_ok L s" "lib_ok L now" "room s" "call_ok L s c"
  shows "reg_ok L (fst (reg_call L now c s))"
  using effs_ok [OF reg_call_effs [OF assms] assms(1)] .

end
