(* ===== verification/Registry_Theorems.thy ===== *)
theory Registry_Theorems
  imports Registry_Props
begin

text \<open>
  What the registry guarantees over whole histories of calls. The locale \<open>history\<close> lifts a relation that every
  change of the specification respects to every history of well-formed calls; it is interpreted for the
  directory epoch, revocation, enrolment tokens, task revisions and the key history.
\<close>

section \<open>Histories\<close>

text \<open>A call the host may make: \<open>issue\<close> bounds the enrolment tokens it may draw, \<open>free\<close> admits the demo upsert.\<close>

definition reg_good :: "reg_lib \<Rightarrow> string set \<Rightarrow> bool \<Rightarrow> registry \<Rightarrow> number \<times> reg_op \<Rightarrow> bool" where
  "reg_good L issue free s e \<longleftrightarrow>
     lib_ok L (fst e) \<and> room s \<and> call_ok L s (snd e) \<and> issued_by L (snd e) \<subseteq> issue \<and> (is_upsert (snd e) \<longrightarrow> free)"

lemma eff_mono: "eff L I f s s' \<Longrightarrow> I \<subseteq> J \<Longrightarrow> (f \<longrightarrow> g) \<Longrightarrow> eff L J g s s'"
proof (induction rule: eff.induct)
  case (eff_task r s)
  then show ?case by (intro eff.eff_task) (auto simp: succeeds_def)
qed (auto intro: eff.intros)

lemma effs_mono: "effs L I f s s' \<Longrightarrow> I \<subseteq> J \<Longrightarrow> (f \<longrightarrow> g) \<Longrightarrow> effs L J g s s'"
  by (induction rule: rtranclp_induct) (auto intro: rtranclp.rtrancl_into_rtrancl eff_mono)

lemma fst_reg_step [simp]: "fst (reg_step L s e) = fst (reg_call L (fst e) (snd e) s)"
  by (simp add: reg_step_def case_prod_beta)

lemma reg_good_effs:
  assumes "reg_ok L s" "reg_good L I f s e"
  shows "effs L I f s (fst (reg_step L s e))"
  using effs_mono [OF reg_call_effs [OF assms(1)]] assms(2) by (auto simp: reg_good_def)

locale history =
  fixes L :: reg_lib and issue :: "string set" and free :: bool and R :: "registry \<Rightarrow> registry \<Rightarrow> bool"
  assumes R_refl: "R s s"
    and R_trans: "R s t \<Longrightarrow> R t u \<Longrightarrow> R s u"
    and R_eff: "reg_ok L s \<Longrightarrow> eff L issue free s t \<Longrightarrow> R s t"
begin

lemma effs_R: "effs L issue free s t \<Longrightarrow> reg_ok L s \<Longrightarrow> R s t"
proof (induction rule: rtranclp_induct)
  case base
  then show ?case by (simp add: R_refl)
next
  case (step t u)
  then have "reg_ok L t" using effs_ok by blast
  with step show ?case using R_eff R_trans by blast
qed

lemma run_R:
  "reg_ok L s \<Longrightarrow> good_run (reg_good L issue free) (reg_step L) s es \<Longrightarrow>
   reg_ok L (fst (run (reg_step L) s es)) \<and> R s (fst (run (reg_step L) s es))"
proof (induction es arbitrary: s)
  case Nil
  then show ?case by (simp add: R_refl)
next
  case (Cons e es)
  let ?t = "fst (reg_step L s e)"
  have e: "effs L issue free s ?t" using Cons.prems by (intro reg_good_effs) simp_all
  have "reg_ok L ?t" "R s ?t" using e Cons.prems(1) effs_ok effs_R by blast+
  with Cons.IH [of ?t] Cons.prems(2) show ?case
    by (auto intro: R_trans simp del: run.simps(2) fst_reg_step)
qed

end

lemma good_run_append:
  "good_run good step s (es @ fs) \<longleftrightarrow> good_run good step s es \<and> good_run good step (fst (run step s es)) fs"
  by (induction es arbitrary: s) (simp_all del: run.simps(2))

section \<open>The directory epoch\<close>

definition epoch_rel :: "registry \<Rightarrow> registry \<Rightarrow> bool" where
  "epoch_rel s t \<longleftrightarrow>
     rg_directoryEpoch s \<le> rg_directoryEpoch t \<and>
     (rg_directoryEpoch s = rg_directoryEpoch t \<longrightarrow> snapshot s = snapshot t \<and> rg_grants s = rg_grants t)"

lemma revise_snapshot:
  assumes "revises L n n' s" "n_team_id n' = n_team_id n" "n_status n' = n_status n" "n_keys n' = n_keys n"
  shows "rs_nodes (snapshot (put_node n' s)) = rs_nodes (snapshot s)"
  unfolding snapshot_def using assms
  by (auto simp: revises_def entry_view_def intro!: map_snd_update)

interpretation epochs: history L UNIV True epoch_rel for L
proof
  show "epoch_rel s s" for s by (simp add: epoch_rel_def)
  show "epoch_rel s t \<Longrightarrow> epoch_rel t u \<Longrightarrow> epoch_rel s u" for s t u by (auto simp: epoch_rel_def)
  show "eff L UNIV True s t \<Longrightarrow> epoch_rel s t" for s t
  proof (induction rule: eff.induct)
    case (eff_touch n n' s)
    from revise_snapshot [OF this] show ?case by (simp add: epoch_rel_def snapshot_def)
  qed (auto simp: epoch_rel_def snapshot_def)
qed

text \<open>
  C25: The directory epoch identifies the directory. Over any history of calls the epoch never decreases, and two
  moments with the same epoch have the same snapshot (teams, statuses, keys) and the same grants; so a cache
  that compares epochs never serves a stale entry.
\<close>

theorem epoch_identifies_directory:
  assumes "good_run (reg_good L UNIV True) (reg_step L) (newRegistry opts) (es @ fs)"
  defines "s1 \<equiv> fst (run (reg_step L) (newRegistry opts) es)"
  defines "s2 \<equiv> fst (run (reg_step L) (newRegistry opts) (es @ fs))"
  shows "rg_directoryEpoch s1 \<le> rg_directoryEpoch s2 \<and>
         (rg_directoryEpoch s1 = rg_directoryEpoch s2 \<longrightarrow> snapshot s1 = snapshot s2 \<and> rg_grants s1 = rg_grants s2)"
proof -
  have g: "good_run (reg_good L UNIV True) (reg_step L) (newRegistry opts) es"
    "good_run (reg_good L UNIV True) (reg_step L) s1 fs"
    using assms(1) by (simp_all add: good_run_append s1_def)
  have "reg_ok L s1" using epochs.run_R [OF new_registry_ok g(1)] by (simp add: s1_def)
  from epochs.run_R [OF this g(2)] show ?thesis
    by (simp add: s1_def s2_def run_append_fst epoch_rel_def)
qed

section \<open>A concrete history\<close>

definition demo_lib :: reg_lib where
  "demo_lib = \<lparr>lb_sha = (\<lambda>x. replicate 64 (if x = ''k2'' then CHR ''b'' else CHR ''a'')), lb_iso = (\<lambda>_. ''T''),
               lb_parse = (\<lambda>s. if s = ''T'' then Some 0 else None), lb_jcs = (\<lambda>_. [])\<rparr>"

definition demo_opts :: registry_options where
  "demo_opts = \<lparr>ro_enrollTtlMs = None, ro_maxKeysPerNode = None, ro_maxNodesPerOwner = None, ro_orphanTeamTtlMs = None,
                ro_offlineNodeTtlMs = None\<rparr>"

definition demo_enroll :: reg_op where
  "demo_enroll = Rop_enroll ''T2'' ''N1'' ''k1'' \<lparr>ei_token = None, ei_pubkey = ''p1'', ei_platform = None, ei_qlong_version = None\<rparr>"

definition demo_rotate :: reg_op where
  "demo_rotate = Rop_rotate ''k1'' ''p2'' (Some ''sig'') (Some (\<lambda>_ _ _. Some True))"

definition demo_history :: "(number \<times> reg_op) list" where
  "demo_history = [(0, Rop_createTeam ''T1'' None (Some ''owner'')), (0, Rop_issue ''tok'' ''T1'' None None), (0, demo_enroll)]"

definition demo_registry :: registry where
  "demo_registry = fst (run (reg_step demo_lib) (newRegistry demo_opts) demo_history)"

lemma demo_lib_ok: "lib_ok demo_lib now"
  by (simp add: lib_ok_def demo_lib_def is_timestamp_def is_hash_def matches_def is_hex_def list_all2_conv_all_nth)

lemma demo_lib_sel:
  "lb_sha demo_lib x = replicate 64 (if x = ''k2'' then CHR ''b'' else CHR ''a'')" "lb_iso demo_lib t = ''T''"
  "lb_parse demo_lib v = (if v = ''T'' then Some 0 else None)" "lb_jcs demo_lib j = []"
  by (simp_all add: demo_lib_def)

lemmas reg_eval = demo_lib_sel demo_history_def demo_enroll_def demo_rotate_def demo_opts_def newRegistry_def or_default_def reg_good_def demo_lib_ok room_def
  has_def createTeam_def issueEnrollToken_def enroll_def doEnroll_def over_quota_def owned_nodes_def new_node_def truthy_def bumpEpoch_def put_node_def lift_def Let_def
  fail_def with_node_def authByToken_def MAX_SAFE_def

lemma demo_registry_eq:
  "demo_registry =
     \<lparr>rg_teams = [(''T1'', \<lparr>tm_team_id = ''T1'', tm_name = ''qlong-team'', tm_owner = Some ''owner'', tm_state = Ts_active, tm_created_at = ''T''\<rparr>),
                  (''T2'', \<lparr>tm_team_id = ''T2'', tm_name = ''self-owned'', tm_owner = None, tm_state = Ts_self_owned, tm_created_at = ''T''\<rparr>)],
      rg_nodes = [(''N1'', \<lparr>n_node_id = ''N1'', n_team_id = ''T2'', n_name = ''node-N1'', n_status = Active,
                    n_keys = [\<lparr>ke_epoch = 1, ke_pubkey = ''p1''\<rparr>], n_tokenHash = lb_sha demo_lib ''k1'', n_platform = None,
                    n_qlong_version = None, n_caps = [], n_caps_rev = 1, n_load = None, n_last_seen = None, n_joined_at = ''T''\<rparr>)],
      rg_enrollTokens = [(lb_sha demo_lib ''tok'', \<lparr>er_tokenHash = lb_sha demo_lib ''tok'', er_team_id = ''T1'', er_created_by = None,
                    er_expiresAt = 1800000, er_used_by = None, er_consumed_at = None\<rparr>)],
      rg_nodeByTokenHash = [(lb_sha demo_lib ''k1'', ''N1'')], rg_grants = [], rg_taskIndex = [], rg_auditLog = [],
      rg_auditOffset = 0, rg_directoryEpoch = 1, rg_presence = [(''N1'', False)], rg_enrollTtlMs = 1800000,
      rg_maxKeysPerNode = 5, rg_maxNodesPerOwner = 100, rg_orphanTeamTtlMs = 2592000000, rg_offlineNodeTtlMs = 2592000000\<rparr>"
  by (simp add: demo_registry_def reg_eval reg_step_def)

lemma demo_history_good: "good_run (reg_good demo_lib UNIV True) (reg_step demo_lib) (newRegistry demo_opts) demo_history"
  by (simp add: reg_eval reg_step_def)

lemma demo_rotate_good:
  "good_run (reg_good demo_lib UNIV True) (reg_step demo_lib) (newRegistry demo_opts) (demo_history @ [(0, demo_rotate)])"
  by (simp add: good_run_append demo_history_good demo_registry_def [symmetric])
    (simp add: demo_registry_eq reg_eval)

theorem epoch_identifies_directory_witness:
  "let s1 = fst (run (reg_step demo_lib) (newRegistry demo_opts) demo_history);
       s2 = fst (run (reg_step demo_lib) (newRegistry demo_opts) (demo_history @ [(0, demo_rotate)]))
   in rg_directoryEpoch s1 \<le> rg_directoryEpoch s2 \<and> rg_directoryEpoch s1 = 1"
  using epoch_identifies_directory [OF demo_rotate_good]
  by (simp add: Let_def demo_registry_def [symmetric]) (simp add: demo_registry_eq)

section \<open>Validity\<close>

text \<open>
  C14: The registry never corrupts its own state. After any history of calls on a new registry the state satisfies
  the validation that the durable store applies before it publishes a draft; hence in durable mode no
  well-formed call is ever refused as corrupt: it returns what the memory mode returns, and when it raises
  nothing is changed.
\<close>

theorem registry_always_valid:
  assumes "good_run (reg_good L UNIV True) (reg_step L) (newRegistry opts) es"
  defines "s \<equiv> fst (run (reg_step L) (newRegistry opts) es)"
  shows "validateRegistryState L s \<and>
    (reg_good L UNIV True s (now, c) \<longrightarrow>
       snd (mutate L True (reg_call L now c) s) = snd (reg_call L now c s) \<and>
       fst (mutate L True (reg_call L now c) s) = (if isl (snd (reg_call L now c s)) then s else fst (reg_call L now c s)))"
proof -
  have ok: "reg_ok L s" using epochs.run_R [OF new_registry_ok assms(1)] by (simp add: s_def)
  have "reg_ok L (fst (reg_call L now c s))" if "reg_good L UNIV True s (now, c)"
    using reg_step_ok [OF ok] that by (simp add: reg_good_def)
  with ok show ?thesis
    by (auto simp: reg_ok_def mutate_def split: prod.splits sum.splits)
qed

theorem registry_always_valid_witness:
  "validateRegistryState demo_lib demo_registry \<and>
   snd (mutate demo_lib True (reg_call demo_lib 0 demo_rotate) demo_registry) = Inr (Out_nat 2)"
proof -
  have "reg_good demo_lib UNIV True demo_registry (0, demo_rotate)"
    using demo_rotate_good by (simp add: good_run_append demo_registry_def)
  moreover have "snd (reg_call demo_lib 0 demo_rotate demo_registry) = Inr (Out_nat 2)"
    by (simp add: demo_registry_eq reg_eval rotateKeys_def)
  ultimately show ?thesis
    using registry_always_valid [OF demo_history_good, of 0 demo_rotate] by (simp add: demo_registry_def)
qed

section \<open>Revocation\<close>

definition is_revoked :: "registry \<Rightarrow> string \<Rightarrow> bool" where
  "is_revoked s k \<longleftrightarrow> (\<exists>n. map_of (rg_nodes s) k = Some n \<and> n_status n = Revoked)"

text \<open>A node record keeps its credential; revocation is kept.\<close>

definition node_rel :: "registry \<Rightarrow> registry \<Rightarrow> bool" where
  "node_rel s t \<longleftrightarrow>
     (\<forall>k n. map_of (rg_nodes s) k = Some n \<longrightarrow>
        (\<exists>n'. map_of (rg_nodes t) k = Some n' \<and> n_tokenHash n' = n_tokenHash n \<and>
              (n_status n = Revoked \<longrightarrow> n_status n' = Revoked)))"

lemma node_rel_put:
  "revises L n n' s \<Longrightarrow> (n_status n = Revoked \<Longrightarrow> n_status n' = Revoked) \<Longrightarrow> node_rel s (put_node n' s)"
  by (auto simp: node_rel_def revises_def)

lemma node_rel_same: "rg_nodes t = rg_nodes s \<Longrightarrow> node_rel s t"
  by (simp add: node_rel_def)

lemma node_rel_bump: "node_rel s t \<Longrightarrow> node_rel s (bumpEpoch t)"
  by (simp add: node_rel_def)

interpretation nodes: history L UNIV True node_rel for L
proof
  show "node_rel s s" for s by (simp add: node_rel_def)
  show "node_rel s t \<Longrightarrow> node_rel t u \<Longrightarrow> node_rel s u" for s t u
    unfolding node_rel_def by metis
  show "eff L UNIV True s t \<Longrightarrow> node_rel s t" for s t
  proof (induction rule: eff.induct)
    case (eff_touch n n' s)
    then show ?case by (auto intro: node_rel_put)
  next
    case (eff_dir n n' s)
    then show ?case by (auto intro: node_rel_put node_rel_bump)
  next
    case (eff_enroll s n)
    then show ?case by (auto simp: node_rel_def)
  qed (simp_all add: node_rel_same)
qed

text \<open>
  C23: Revocation is final. Once a node is revoked, then whatever calls follow, it stays revoked: its credential
  is answered with \<open>node_revoked\<close>, its keys are not served, it is in no address book, and every snapshot for
  the gateway lists it as revoked.
\<close>

theorem revocation_is_final:
  assumes "good_run (reg_good L UNIV True) (reg_step L) (newRegistry opts) (es @ fs)"
    and "map_of (rg_nodes (fst (run (reg_step L) (newRegistry opts) es))) k = Some n" "n_status n = Revoked"
    and "lb_sha L tok = n_tokenHash n"
  defines "s \<equiv> fst (run (reg_step L) (newRegistry opts) (es @ fs))"
  shows "snd (authByToken L now tok s) = Inl (ApiError Node_revoked 403 None) \<and>
         lookupPubkey s k e = Pk_node_inactive Revoked \<and>
         k \<notin> nl_node_id ` set (listTeamNodes s team caps) \<and>
         (\<exists>d. d \<in> fst ` set (rs_nodes (snapshot s)) \<and> de_node_id d = k \<and> de_status d = Revoked)"
proof -
  define s1 where "s1 = fst (run (reg_step L) (newRegistry opts) es)"
  have g: "good_run (reg_good L UNIV True) (reg_step L) (newRegistry opts) es" "good_run (reg_good L UNIV True) (reg_step L) s1 fs"
    using assms(1) by (simp_all add: good_run_append s1_def)
  have ok1: "reg_ok L s1" using nodes.run_R [OF new_registry_ok g(1)] by (simp add: s1_def)
  have ok: "reg_ok L s" and "node_rel s1 s"
    using nodes.run_R [OF ok1 g(2)] by (simp_all add: s1_def s_def run_append_fst)
  then obtain n' where n': "map_of (rg_nodes s) k = Some n'" "n_tokenHash n' = lb_sha L tok" "n_status n' = Revoked"
    using assms(2-4) unfolding node_rel_def s1_def by metis
  have id: "n_node_id n' = k" "map_of (rg_nodeByTokenHash s) (lb_sha L tok) = Some k" "k \<noteq> []"
    using reg_ok_node [OF ok n'(1)] n'(2) by (auto simp: valid_node_def nodeShape_def)
  have uniq: "n_status m = Revoked" if "(i, m) \<in> set (rg_nodes s)" "n_node_id m = k" for i m
  proof -
    have "map_of (rg_nodes s) i = Some m" using that(1) ok by (simp add: reg_ok_def wf_map_lookup)
    with reg_ok_node(2) [OF ok this] that(2) n' show ?thesis by simp
  qed
  have "(k, n') \<in> set (rg_nodes s)" using n'(1) by (rule map_of_SomeD)
  then have "entry_view n' \<in> fst ` set (rs_nodes (snapshot s))"
    by (force simp: snapshot_def image_iff)
  then have "\<exists>d. d \<in> fst ` set (rs_nodes (snapshot s)) \<and> de_node_id d = k \<and> de_status d = Revoked"
    by (rule_tac x = "entry_view n'" in exI) (simp add: entry_view_def n' id)
  moreover have "k \<notin> nl_node_id ` set (listTeamNodes s team caps)"
    using uniq by (auto simp: listTeamNodes_def)
  ultimately show ?thesis
    using n' id by (simp add: authByToken_def truthy_def or_default_def lookupPubkey_def)
qed

lemma demo_revoke_good:
  "good_run (reg_good demo_lib UNIV True) (reg_step demo_lib) (newRegistry demo_opts)
     ((demo_history @ [(0, Rop_revoke ''N1'')]) @ [(5, Rop_gc)])"
  by (simp add: good_run_append run_append_fst demo_history_good demo_registry_def [symmetric])
    (simp add: demo_registry_eq reg_eval revoke_def mustNode_def)

lemma demo_revoked:
  "map_of (rg_nodes (fst (run (reg_step demo_lib) (newRegistry demo_opts) (demo_history @ [(0, Rop_revoke ''N1'')])))) ''N1''
     = Some (snd (hd (rg_nodes demo_registry))\<lparr>n_status := Revoked\<rparr>)"
  by (simp add: run_append_fst demo_registry_def [symmetric]) (simp add: demo_registry_eq reg_eval revoke_def mustNode_def)

lemma demo_revoked_sel:
  "n_status (snd (hd (rg_nodes demo_registry))\<lparr>n_status := Revoked\<rparr>) = Revoked"
  "lb_sha demo_lib ''k1'' = n_tokenHash (snd (hd (rg_nodes demo_registry))\<lparr>n_status := Revoked\<rparr>)"
  by (simp_all add: demo_registry_eq)

theorem revocation_is_final_witness:
  "let s = fst (run (reg_step demo_lib) (newRegistry demo_opts) ((demo_history @ [(0, Rop_revoke ''N1'')]) @ [(5, Rop_gc)]))
   in snd (authByToken demo_lib 9 ''k1'' s) = Inl (ApiError Node_revoked 403 None) \<and>
      lookupPubkey s ''N1'' None = Pk_node_inactive Revoked"
  using revocation_is_final [OF demo_revoke_good demo_revoked demo_revoked_sel, of 9 None "''T2''" None]
  unfolding Let_def by blast

section \<open>Key history\<close>

definition key_chain :: "nat \<Rightarrow> node_record \<Rightarrow> bool" where
  "key_chain mx n \<longleftrightarrow>
     (let c = ke_epoch (last (n_keys n)) in
      length (n_keys n) = min c mx \<and> map ke_epoch (n_keys n) = [Suc c - length (n_keys n) ..< Suc c])"

definition all_chain :: "nat \<Rightarrow> registry \<Rightarrow> bool" where
  "all_chain mx s \<longleftrightarrow> (\<forall>k n. map_of (rg_nodes s) k = Some n \<longrightarrow> key_chain mx n)"

definition chain_rel :: "registry \<Rightarrow> registry \<Rightarrow> bool" where
  "chain_rel s t \<longleftrightarrow>
     rg_maxKeysPerNode t = rg_maxKeysPerNode s \<and> (all_chain (rg_maxKeysPerNode s) s \<longrightarrow> all_chain (rg_maxKeysPerNode s) t)"

lemma all_chain_update:
  assumes "all_chain mx s" "key_chain mx n" "rg_nodes t = AList.update k n (rg_nodes s)"
  shows "all_chain mx t"
  unfolding all_chain_def
proof (intro allI impI)
  fix i m assume "map_of (rg_nodes t) i = Some m"
  then have "m = n \<or> map_of (rg_nodes s) i = Some m" unfolding assms(3) by (simp split: if_splits)
  then show "key_chain mx m" using assms(1,2) unfolding all_chain_def by blast
qed

lemma all_chain_same: "rg_nodes t = rg_nodes s \<Longrightarrow> all_chain mx t = all_chain mx s"
  by (simp add: all_chain_def)

lemma chain_same: "rg_nodes t = rg_nodes s \<Longrightarrow> rg_maxKeysPerNode t = rg_maxKeysPerNode s \<Longrightarrow> chain_rel s t"
  unfolding chain_rel_def by (simp add: all_chain_same [of t s])

lemma key_chain_cong: "n_keys n' = n_keys n \<Longrightarrow> key_chain mx n' = key_chain mx n"
  by (simp add: key_chain_def)

lemma rotate_chain:
  assumes "key_chain mx n" "n_keys n \<noteq> []" "0 < mx"
    "n_keys n' = keep_last mx (n_keys n @ [\<lparr>ke_epoch = ke_epoch (last (n_keys n)) + 1, ke_pubkey = pk\<rparr>])"
  shows "key_chain mx n'"
proof -
  define c where "c = ke_epoch (last (n_keys n))"
  define len where "len = length (n_keys n)"
  have len: "len = min c mx" and eps: "map ke_epoch (n_keys n) = [Suc c - len ..< Suc c]"
    using assms(1) by (simp_all add: key_chain_def Let_def c_def len_def)
  have keys: "n_keys n' = drop (Suc len - mx) (n_keys n) @ [\<lparr>ke_epoch = Suc c, ke_pubkey = pk\<rparr>]"
    using assms(3,4) by (simp add: keep_last_snoc c_def len_def)
  have "map ke_epoch (n_keys n') = drop (Suc len - mx) [Suc c - len ..< Suc c] @ [Suc c]"
    unfolding keys map_append drop_map [symmetric] eps by simp
  also have "\<dots> = [Suc c - len + (Suc len - mx) ..< Suc c] @ [Suc c]" by (simp only: drop_upt)
  also have "\<dots> = [Suc c - len + (Suc len - mx) ..< Suc (Suc c)]"
    using len assms(3) by (intro upt_Suc_append [symmetric]) linarith
  finally have m: "map ke_epoch (n_keys n') = [Suc c - len + (Suc len - mx) ..< Suc (Suc c)]" .
  have l: "length (n_keys n') = min (Suc c) mx"
    using len assms(3) by (simp add: keys len_def [symmetric])
  have "Suc c - len + (Suc len - mx) = Suc (Suc c) - min (Suc c) mx"
    using len assms(3) by linarith
  with m l show ?thesis by (simp add: key_chain_def Let_def keys)
qed

lemma chain_put:
  assumes ok: "reg_ok L s" and rv: "revises L n n' s" and ks: "key_step (rg_maxKeysPerNode s) (n_keys n) (n_keys n')"
  shows "chain_rel s (put_node n' s)"
proof -
  have lk: "map_of (rg_nodes s) (n_node_id n) = Some n" "n_node_id n' = n_node_id n" using rv by (auto simp: revises_def)
  have ne: "n_keys n \<noteq> []" using reg_ok_node(1) [OF ok lk(1)] by (simp add: valid_node_def)
  have mx: "0 < rg_maxKeysPerNode s" using ok by (simp add: reg_ok_def)
  have "key_chain (rg_maxKeysPerNode s) n'" if c: "key_chain (rg_maxKeysPerNode s) n"
    using ks unfolding key_step_def
  proof (elim disjE exE)
    show "n_keys n' = n_keys n \<Longrightarrow> key_chain (rg_maxKeysPerNode s) n'" by (rule key_chain_cong [THEN iffD2, OF _ c])
  qed (rule rotate_chain [OF c ne mx])
  then have "all_chain (rg_maxKeysPerNode s) (put_node n' s)" if "all_chain (rg_maxKeysPerNode s) s"
    using that lk(1) by (intro all_chain_update [OF that]) (simp_all add: all_chain_def)
  then show ?thesis by (simp add: chain_rel_def)
qed

interpretation chains: history L UNIV True chain_rel for L
proof
  show "chain_rel s s" for s by (simp add: chain_rel_def)
  show "chain_rel s t \<Longrightarrow> chain_rel t u \<Longrightarrow> chain_rel s u" for s t u
    unfolding chain_rel_def by (elim conjE) simp
  show "chain_rel s t" if "reg_ok L s" "eff L UNIV True s t" for s t
    using that(2,1)
  proof (induction rule: eff.induct)
    case (eff_touch n n' s)
    then show ?case by (auto intro!: chain_put simp: key_step_def)
  next
    case (eff_dir n n' s)
    then have "chain_rel s (put_node n' s)" by (auto intro: chain_put)
    then show ?case by (simp add: chain_rel_def all_chain_same [of "bumpEpoch (put_node n' s)" "put_node n' s"])
  next
    case (eff_enroll s n)
    from eff_enroll.hyps(5) obtain e where e: "n_keys n = [e]" "ke_epoch e = 1" by auto
    have "0 < rg_maxKeysPerNode s" using eff_enroll by (simp add: reg_ok_def)
    then have "key_chain (rg_maxKeysPerNode s) n" using e by (simp add: key_chain_def)
    from all_chain_update [OF _ this, of s] show ?case by (simp add: chain_rel_def)
  qed (auto intro!: chain_same)
qed

text \<open>
  Key history. At any time the key store of an active node answers exactly the newest epochs: with current
  epoch \<open>c\<close> and \<open>mx\<close> kept keys (at least three), epoch \<open>e\<close> is served if and only if \<open>c - mx < e \<le> c\<close> and
  \<open>e \<ge> 1\<close>; the newest as current, the others as historical. So a message signed up to two rotations ago can
  still be verified.
\<close>

theorem key_history_window:
  assumes "good_run (reg_good L UNIV True) (reg_step L) (newRegistry opts) es"
  defines "s \<equiv> fst (run (reg_step L) (newRegistry opts) es)"
  assumes "map_of (rg_nodes s) k = Some n" "n_status n = Active"
  defines "c \<equiv> ke_epoch (last (n_keys n))" and "mx \<equiv> rg_maxKeysPerNode s"
  shows "3 \<le> mx \<and> (\<exists>pk. lookupPubkey s k None = Pk_current pk c) \<and>
    ((\<exists>pk. lookupPubkey s k (Some e) = Pk_current pk e \<or> lookupPubkey s k (Some e) = Pk_historical pk e) \<longleftrightarrow>
       1 \<le> e \<and> e \<le> c \<and> c < e + mx)"
proof -
  have ok: "reg_ok L s" and "chain_rel (newRegistry opts) s"
    using chains.run_R [OF new_registry_ok assms(1)] by (simp_all add: s_def)
  then have "all_chain mx s" by (simp add: chain_rel_def newRegistry_def mx_def all_chain_def)
  then have ch: "key_chain mx n" using assms(3) unfolding all_chain_def by blast
  have ne: "n_keys n \<noteq> []" using reg_ok_node(1) [OF ok assms(3)] by (simp add: valid_node_def)
  have mx: "3 \<le> mx" using ok by (simp add: reg_ok_def mx_def)
  have "ke_epoch ` set (n_keys n) = set (map ke_epoch (n_keys n))" by simp
  also have "\<dots> = {x. 1 \<le> x \<and> x \<le> c \<and> c < x + mx}"
    using ch ne unfolding key_chain_def Let_def c_def by (auto simp: min_def split: if_splits)
  finally have img: "ke_epoch ` set (n_keys n) = {x. 1 \<le> x \<and> x \<le> c \<and> c < x + mx}" .
  have "(\<exists>x\<in>set (n_keys n). ke_epoch x = e) \<longleftrightarrow> e \<in> ke_epoch ` set (n_keys n)" by auto
  then have window: "(\<exists>x\<in>set (n_keys n). ke_epoch x = e) \<longleftrightarrow> 1 \<le> e \<and> e \<le> c \<and> c < e + mx"
    by (simp only: img mem_Collect_eq)
  have hit: "(\<exists>pk. lookupPubkey s k (Some e) = Pk_current pk e \<or> lookupPubkey s k (Some e) = Pk_historical pk e) \<longleftrightarrow>
     (\<exists>x\<in>set (n_keys n). ke_epoch x = e)"
  proof (cases "e = c")
    case True
    have "lookupPubkey s k (Some c) = Pk_current (ke_pubkey (last (n_keys n))) c"
      using assms(3,4) ne by (simp add: lookupPubkey_def c_def Let_def)
    moreover have "\<exists>x\<in>set (n_keys n). ke_epoch x = c"
      unfolding c_def using last_in_set [OF ne] by blast
    ultimately show ?thesis unfolding True by blast
  next
    case False
    show ?thesis
    proof (cases "find (\<lambda>x. Some (ke_epoch x) = Some e) (n_keys n)")
      case None
      then have "lookupPubkey s k (Some e) = Pk_unknown_epoch"
        using assms(3,4) ne False by (simp add: lookupPubkey_def c_def Let_def)
      moreover have "\<not> (\<exists>x\<in>set (n_keys n). ke_epoch x = e)" using None by (auto simp: find_None_iff)
      ultimately show ?thesis by simp
    next
      case (Some x)
      then have "x \<in> set (n_keys n)" "ke_epoch x = e" by (auto simp: find_Some_iff)
      then show ?thesis using assms(3,4) ne False Some by (auto simp: lookupPubkey_def c_def)
    qed
  qed
  show ?thesis
    unfolding hit window using mx assms(3,4) ne by (simp add: lookupPubkey_def Let_def c_def)
qed

lemma demo_rotated:
  "map_of (rg_nodes (fst (run (reg_step demo_lib) (newRegistry demo_opts) (demo_history @ [(0, demo_rotate)])))) ''N1'' =
     Some (snd (hd (rg_nodes demo_registry))\<lparr>n_last_seen := Some ''T'',
             n_keys := [\<lparr>ke_epoch = 1, ke_pubkey = ''p1''\<rparr>, \<lparr>ke_epoch = 2, ke_pubkey = ''p2''\<rparr>]\<rparr>)"
  by (simp add: run_append_fst demo_registry_def [symmetric])
    (simp add: demo_registry_eq reg_eval rotateKeys_def keep_last_def)

theorem key_history_window_witness:
  "let s = fst (run (reg_step demo_lib) (newRegistry demo_opts) (demo_history @ [(0, demo_rotate)])) in
   (\<exists>pk. lookupPubkey s ''N1'' None = Pk_current pk 2) \<and>
   (\<exists>pk. lookupPubkey s ''N1'' (Some 1) = Pk_current pk 1 \<or> lookupPubkey s ''N1'' (Some 1) = Pk_historical pk 1)"
  using key_history_window [OF demo_rotate_good demo_rotated, of 1]
  by (simp add: Let_def demo_registry_eq del: run.simps)

section \<open>Enrolment tokens\<close>

definition spent :: "registry \<Rightarrow> string \<Rightarrow> bool" where
  "spent s h \<longleftrightarrow> (\<forall>r. map_of (rg_enrollTokens s) h = Some r \<longrightarrow> truthy (er_consumed_at r))"

definition spent_rel :: "string \<Rightarrow> registry \<Rightarrow> registry \<Rightarrow> bool" where
  "spent_rel h s t \<longleftrightarrow> (spent s h \<longrightarrow> spent t h)"

lemma map_of_filter_Some: "wf_map m \<Longrightarrow> map_of (filter (\<lambda>(_, v). P v) m) k = Some v \<Longrightarrow> map_of m k = Some v"
  by (auto simp: map_of_filter_wf split: option.splits if_splits)

interpretation tokens: history L "- {h}" True "spent_rel h" for L h
proof
  show "spent_rel h s s" for s by (simp add: spent_rel_def)
  show "spent_rel h s t \<Longrightarrow> spent_rel h t u \<Longrightarrow> spent_rel h s u" for s t u by (simp add: spent_rel_def)
  show "spent_rel h s t" if "reg_ok L s" "eff L (- {h}) True s t" for s t
    using that(2,1)
  proof (induction rule: eff.induct)
    case (eff_drop_team k s)
    have wf: "wf_map (rg_enrollTokens s)" using eff_drop_team by (simp add: reg_ok_def)
    show ?case by (auto simp: spent_rel_def spent_def dest: map_of_filter_Some [OF wf])
  next
    case (eff_consume s r k c)
    then show ?case by (auto simp: spent_rel_def spent_def truthy_def)
  qed (auto simp: spent_rel_def spent_def)
qed

text \<open>A call that uses an enrolment token with a given hash, and succeeds.\<close>

fun uses_token :: "reg_lib \<Rightarrow> string \<Rightarrow> reg_op \<Rightarrow> bool" where
  "uses_token L h (Rop_enroll _ _ _ i) \<longleftrightarrow> truthy (ei_token i) \<and> lb_sha L (or_default (ei_token i) []) = h"
| "uses_token L h (Rop_join _ et) \<longleftrightarrow> lb_sha L et = h"
| "uses_token L h _ \<longleftrightarrow> False"

lemma spent_check: "spent s h \<Longrightarrow> isl (token_check now (map_of (rg_enrollTokens s) h))"
  by (auto simp: spent_def token_check_def split: option.splits)

lemma spent_refused:
  assumes ok: "reg_ok L s" and sp: "spent s h" and u: "uses_token L h c"
  shows "isl (snd (reg_call L now c s))"
  using u
proof (cases c)
  case (Rop_enroll tu nu nt i)
  obtain a where "token_check now (map_of (rg_enrollTokens s) h) = Inl a"
    using spent_check [OF sp, of now] by (auto simp: isl_def)
  with u Rop_enroll show ?thesis
    by (cases a) (auto simp: lift_def enroll_def Let_def)
next
  case (Rop_join nt et)
  have "isl (snd (joinTeam L now nt et s))"
    using authByToken_cases [OF ok, of now nt]
  proof (elim disjE exE conjE)
    fix s1 n1 assume a: "authByToken L now nt s = (s1, Inr n1)" and t: "touched L now s s1 n1"
    have "rg_enrollTokens s1 = rg_enrollTokens s" using t by (auto simp: touched_def)
    moreover obtain e where "token_check now (map_of (rg_enrollTokens s) h) = Inl e"
      using spent_check [OF sp, of now] by (auto simp: isl_def)
    ultimately show ?thesis
      using a u Rop_join by (cases e) (simp add: joinTeam_def with_node_def Let_def)
  qed (simp add: joinTeam_def with_node_def)
  with Rop_join show ?thesis by (auto simp: lift_def isl_def)
qed simp_all

lemma consume_spent: "lb_iso L now \<noteq> [] \<Longrightarrow> spent (consume L now h r k s) h"
  by (simp add: spent_def consume_def truthy_def)

lemma use_spends:
  assumes ok: "reg_ok L s" and lib: "lib_ok L now" and u: "uses_token L h c" and r: "snd (reg_call L now c s) = Inr r"
  shows "spent (fst (reg_call L now c s)) h"
  using u
proof (cases c)
  case (Rop_enroll tu nu nt i)
  with r have "\<exists>x. snd (enroll L now tu nu nt i s) = Inr x"
    by (auto simp: lift_def map_sum_def split: sum.splits)
  with u Rop_enroll lib show ?thesis
    by (auto simp: lift_def enroll_def Let_def lib_ok_def case_prod_beta intro!: consume_spent split: if_splits sum.splits)
next
  case (Rop_join nt et)
  with r obtain x where x: "snd (joinTeam L now nt et s) = Inr x"
    by (auto simp: lift_def map_sum_def split: sum.splits)
  from authByToken_cases [OF ok, of now nt] show ?thesis
  proof (elim disjE exE conjE)
    fix s1 n1 assume "authByToken L now nt s = (s1, Inr n1)"
    with x u Rop_join lib show ?thesis
      by (auto simp: lift_def joinTeam_def with_node_def Let_def lib_ok_def spent_def consume_def truthy_def
          split: sum.splits)
  qed (use x in \<open>simp add: joinTeam_def with_node_def\<close>)
qed simp_all

text \<open>
  C21: An enrolment token admits one node. After a call that used a token has succeeded, then whatever calls
  follow, as long as the same token is not drawn again, no enrolment and no team change with that token
  succeeds.
\<close>

theorem enroll_token_once:
  assumes "good_run (reg_good L UNIV True) (reg_step L) (newRegistry opts) es"
  defines "s \<equiv> fst (run (reg_step L) (newRegistry opts) es)"
  assumes "reg_good L UNIV True s (now, c)" "uses_token L h c" "snd (reg_call L now c s) = Inr r"
    and "good_run (reg_good L (- {h}) True) (reg_step L) (fst (reg_call L now c s)) fs" "uses_token L h c'"
  shows "isl (snd (reg_call L now' c' (fst (run (reg_step L) (fst (reg_call L now c s)) fs))))"
proof -
  have ok: "reg_ok L s" using epochs.run_R [OF new_registry_ok assms(1)] by (simp add: s_def)
  have lib: "lib_ok L now" using assms(3) by (simp add: reg_good_def)
  have ok1: "reg_ok L (fst (reg_call L now c s))"
    using reg_step_ok [OF ok] assms(3) by (simp add: reg_good_def)
  have sp: "spent (fst (reg_call L now c s)) h" by (rule use_spends [OF ok lib assms(4,5)])
  from tokens.run_R [OF ok1 assms(6)] sp show ?thesis
    by (intro spent_refused [OF _ _ assms(7)]) (auto simp: spent_rel_def)
qed

definition demo_join :: reg_op where
  "demo_join = Rop_join ''k1'' ''tok''"

lemma demo_join_ok:
  "reg_good demo_lib UNIV True demo_registry (1, demo_join)" "uses_token demo_lib (lb_sha demo_lib ''tok'') demo_join"
  "snd (reg_call demo_lib 1 demo_join demo_registry) = Inr (Out_joined ''T1'' ''T2'')"
  by (simp_all add: demo_registry_eq reg_eval demo_join_def joinTeam_def token_check_def consume_def)

theorem enroll_token_once_witness:
  "isl (snd (reg_call demo_lib 2 demo_join (fst (reg_call demo_lib 1 demo_join demo_registry))))"
  using enroll_token_once [OF demo_history_good demo_join_ok [unfolded demo_registry_def], of "[]" demo_join 2]
    demo_join_ok(2) by (simp add: demo_registry_def)

section \<open>Task revisions\<close>

definition task_rel :: "registry \<Rightarrow> registry \<Rightarrow> bool" where
  "task_rel s t \<longleftrightarrow>
     (\<forall>i p. map_of (rg_taskIndex s) i = Some p \<longrightarrow>
        (\<exists>q. map_of (rg_taskIndex t) i = Some q \<and> (q = p \<or> succeeds False (tr_task p) (tr_task q))))"

lemma succeeds_trans: "succeeds f a b \<Longrightarrow> succeeds f b c \<Longrightarrow> succeeds f a c"
  by (auto simp: succeeds_def)

interpretation tasks: history L UNIV False task_rel for L
proof
  show "task_rel s s" for s by (simp add: task_rel_def)
  show "task_rel s t \<Longrightarrow> task_rel t u \<Longrightarrow> task_rel s u" for s t u
    unfolding task_rel_def using succeeds_trans by metis
  show "eff L UNIV False s t \<Longrightarrow> task_rel s t" for s t
    by (induction rule: eff.induct) (auto simp: task_rel_def)
qed


definition demo_report :: "nat \<Rightarrow> nat \<Rightarrow> reg_op" where
  "demo_report seq a = Rop_report ''k1'' ''T2''
     (JObj [(''task_id'', JStr ''t''), (''type'', JStr ''aid''), (''team_id'', JStr ''T2''), (''lead'', JStr ''N1''),
            (''attempt'', JNum (of_nat a)), (''status'', JStr ''running''), (''task_seq'', JNum (of_nat seq))])"

definition demo_task :: "nat \<Rightarrow> nat \<Rightarrow> task_record" where
  "demo_task seq a =
     \<lparr>tr_task = \<lparr>tp_task_id = ''t'', tp_type = ''aid'', tp_team_id = ''T2'', tp_lead = ''N1'', tp_exec = None, tp_attempt = a,
                 tp_status = ''running'', tp_task_seq = seq\<rparr>,
      tr_content_hash = lb_sha demo_lib [], tr_updated_at = ''T''\<rparr>"

lemma demo_parse:
  "parseTaskProjection (JObj [(''task_id'', JStr ''t''), (''type'', JStr ''aid''), (''team_id'', JStr ''T2''), (''lead'', JStr ''N1''),
     (''attempt'', JNum 1), (''status'', JStr ''running''), (''task_seq'', JNum 2)]) = Inr (tr_task (demo_task 2 1))"
  by (simp add: parseTaskProjection_def task_fields_def named_def is_space_def isSafeIntGe_def TASK_STATUSES_def str_or_def
      nat_of_def or_default_def demo_task_def Let_def)

lemma demo_reported:
  "good_run (reg_good demo_lib UNIV False) (reg_step demo_lib) (newRegistry demo_opts)
     ((demo_history @ [(0, demo_report 2 1)]) @ [(1, demo_report 1 1)])"
  "map_of (rg_taskIndex (fst (run (reg_step demo_lib) (newRegistry demo_opts) (demo_history @ [(0, demo_report 2 1)])))) ''t'' =
     Some (demo_task 2 1)"
proof -
  have g: "good_run (reg_good demo_lib UNIV False) (reg_step demo_lib) (newRegistry demo_opts) demo_history"
    by (simp add: reg_eval reg_step_def)
  show "good_run (reg_good demo_lib UNIV False) (reg_step demo_lib) (newRegistry demo_opts)
     ((demo_history @ [(0, demo_report 2 1)]) @ [(1, demo_report 1 1)])"
    using g by (simp add: good_run_append run_append_fst demo_registry_def [symmetric])
      (simp add: demo_registry_eq reg_eval demo_report_def reportTask_def demo_parse report_guard_def store_task_def demo_task_def)
  show "map_of (rg_taskIndex (fst (run (reg_step demo_lib) (newRegistry demo_opts) (demo_history @ [(0, demo_report 2 1)])))) ''t'' =
     Some (demo_task 2 1)"
    by (simp add: run_append_fst demo_registry_def [symmetric])
      (simp add: demo_registry_eq reg_eval demo_report_def reportTask_def demo_parse report_guard_def store_task_def
        demo_task_def taskProjectionHash_def)
qed


section \<open>Owner quota\<close>

definition quota_history :: "(number \<times> reg_op) list" where
  "quota_history =
     [(0, Rop_createTeam ''T1'' None (Some ''owner'')), (0, Rop_issue ''tok'' ''T1'' None None), (0, demo_enroll), (0, Rop_join ''k1'' ''tok''),
      (0, Rop_enroll ''T3'' ''N2'' ''k2'' \<lparr>ei_token = None, ei_pubkey = ''p'', ei_platform = None, ei_qlong_version = None\<rparr>),
      (0, Rop_issue ''k2'' ''T1'' None None), (0, Rop_join ''k2'' ''k2'')]"

text \<open>
  The owner quota is not kept by team changes: \<open>joinTeam\<close> moves a node into a team without the quota check that
  \<open>enroll\<close> makes. Two nodes that each enrolled a team of their own join a team of an owner whose quota is one.
\<close>

theorem join_ignores_quota:
  "let s = fst (run (reg_step demo_lib) (newRegistry (demo_opts\<lparr>ro_maxNodesPerOwner := Some 1\<rparr>)) quota_history)
   in rg_maxNodesPerOwner s = 1 \<and> owned_nodes (Some ''owner'') s = 2"
  by code_simp

end
