(* ===== verification/Registry_Gateway.thy ===== *)
theory Registry_Gateway
  imports Registry_Theorems
begin

text \<open>
  The registry and the gateway together: the gateway enforces the directory snapshot and the grants of the
  registry it is subscribed to.
\<close>

section \<open>Grants\<close>

lemma set_add_all: "set (add_all u xs) = set u \<union> set xs \<and> (distinct u \<longrightarrow> distinct (add_all u xs))"
  unfolding add_all_def by (induction xs arbitrary: u) auto

lemma set_union_caps:
  "set (foldl (\<lambda>u g. add_all u (gr_caps_visible g)) u gs) = set u \<union> (\<Union>g \<in> set gs. set (gr_caps_visible g))"
  by (induction gs arbitrary: u) (auto simp: set_add_all)

lemma live_between_sym: "live_between now a b = live_between now b a"
  by (auto simp: live_between_def fun_eq_iff)

text \<open>
  The grants between two teams: the visible capabilities are the union over the grants in either direction
  that have not expired, and nothing when there is none; the answer does not depend on the order of the teams.
\<close>

theorem grantCaps_spec:
  "grantCaps s now a b = grantCaps s now b a \<and>
   map_option set (grantCaps s now a b) =
     (if \<exists>g \<in> snd ` set (rg_grants s). live_between now a b g
      then Some (\<Union>g \<in> {g \<in> snd ` set (rg_grants s). live_between now a b g}. set (gr_caps_visible g)) else None)"
proof -
  have "filter (live_between now a b) (map snd (rg_grants s)) = [] \<longleftrightarrow> \<not> (\<exists>g \<in> snd ` set (rg_grants s). live_between now a b g)"
    by (auto simp: filter_empty_conv)
  then show ?thesis
    by (auto simp: grantCaps_def Let_def set_union_caps live_between_sym [of now b a])
qed

section \<open>The snapshot as the gateway's directory\<close>

definition gateway_view :: "registry \<Rightarrow> directory_snapshot" where
  "gateway_view s = \<lparr>dsn_epoch = rs_epoch (snapshot s), dsn_nodes = map fst (rs_nodes (snapshot s))\<rparr>"

lemma find_entry:
  assumes "\<And>i n. (i, n) \<in> set m \<Longrightarrow> n_node_id n = i"
  shows "find (\<lambda>e. de_node_id e = k) (map (\<lambda>(_, n). entry_view n) m) = map_option entry_view (map_of m k)"
  using assms
proof (induction m)
  case Nil
  then show ?case by simp
next
  case (Cons x m)
  have "n_node_id (snd x) = fst x" using Cons.prems [of "fst x" "snd x"] by simp
  with Cons.IH [OF Cons.prems] show ?case by (cases x) (simp add: entry_view_def)
qed

lemma gateway_view_lookup:
  assumes "reg_ok L s"
  shows "find (\<lambda>e. de_node_id e = k) (dsn_nodes (gateway_view s)) = map_option entry_view (map_of (rg_nodes s) k)"
proof -
  have "n_node_id n = i" if "(i, n) \<in> set (rg_nodes s)" for i n
    using assms that reg_ok_node(2) [OF assms, of i n] by (simp add: reg_ok_def wf_map_lookup)
  from find_entry [OF this] show ?thesis
    by (simp add: gateway_view_def snapshot_def case_prod_beta' comp_def)
qed

definition registry_allows :: "registry \<Rightarrow> number \<Rightarrow> string \<Rightarrow> envelope \<Rightarrow> bool" where
  "registry_allows s now f env \<longleftrightarrow>
     (\<exists>n m. map_of (rg_nodes s) f = Some n \<and> n_status n = Active \<and> map_of (rg_nodes s) (e_to_node env) = Some m \<and>
        (n_team_id n = n_team_id m \<or>
         (\<exists>required visible. requiredCapsOf (e_body env) = Some required \<and>
            grantCaps s now (n_team_id n) (n_team_id m) = Some visible \<and> (\<forall>r \<in> set required. matchOne r visible))))"

text \<open>The events that replace the gateway's directory or its grant source.\<close>

definition is_policy_event :: "gw_event \<Rightarrow> bool" where
  "is_policy_event e \<longleftrightarrow> is_directory_event e \<or> (\<exists>g. e = Gv_grants g)"

lemma grantLookup_frame: "\<not> is_policy_event e \<Longrightarrow> gw_grantLookup (fst (gw_step parse gw e)) = gw_grantLookup gw"
proof (cases e)
  case (Gv_uplink f env now dfr)
  then show ?thesis using uplink_state [of parse gw f env now dfr] by (auto simp: case_prod_beta Let_def)
qed (simp_all add: is_policy_event_def connect_def disconnect_def applyAdminEvent_def queueInbox_def takeInbox_def
    case_prod_beta Let_def split: option.split)

lemma grantLookup_run:
  "\<forall>e \<in> set es. \<not> is_policy_event e \<Longrightarrow> gw_grantLookup (fst (run (gw_step parse) gw es)) = gw_grantLookup gw"
  by (induction es arbitrary: gw) (simp_all del: run.simps(2) gw_step.simps add: grantLookup_frame)

text \<open>
  C7: The registry decides what the gateway routes. A gateway that has received the registry's current snapshot
  and asks it for grants passes a message on (to a connection, an inbox or another gateway), whatever
  happened before and whatever happens until the next snapshot, only if the registry knows the sender as
  active, knows the receiver, and both are in one team or a live grant between their teams covers every
  capability the message requires.
\<close>

theorem registry_decides_routing:
  assumes hist: "good_run (reg_good L UNIV True) (reg_step L) (newRegistry opts) cs"
    and s: "s = fst (run (reg_step L) (newRegistry opts) cs)"
    and gw: "gw_inv gw" "dsn_epoch (gw_directory gw) \<le> rg_directoryEpoch s" "gw_grantLookup gw = Some (grantCaps s t)"
    and es: "\<forall>e \<in> set es. \<not> is_policy_event e"
    and gw1: "gw1 = fst (run (gw_step parse) (setDirectory gw (gateway_view s)) es)"
    and res: "res = snd (uplink parse gw1 f env now dfr)"
    and routed: "ur_deliveries res \<noteq> [] \<or> ur_queued res \<noteq> [] \<or> ur_deferred res \<noteq> None"
  shows "e_from_node env = f \<and> registry_allows s t f env"
proof -
  have ok: "reg_ok L s" using epochs.run_R [OF new_registry_ok hist] s by simp
  have step: "setDirectory gw (gateway_view s) = fst (gw_step parse gw (Gv_directory (gateway_view s)))" by simp
  have inv: "gw_inv gw1" unfolding gw1 step by (intro gw.inv_run gw.inv_step gw(1))
  have dir: "gw_directory gw1 = gateway_view s"
    using directory_frame_run [of es parse "setDirectory gw (gateway_view s)"] es gw(2) gw1
    by (simp add: is_policy_event_def setDirectory_def gateway_view_def snapshot_def)
  have grants: "gw_grantLookup gw1 = Some (grantCaps s t)"
    using gw(3) by (simp add: gw1 grantLookup_run [OF es] setDirectory_def)
  have view: "dir_view gw1 k = map_option entry_view (map_of (rg_nodes s) k)" for k
    using gateway_view_lookup [OF ok] dir by (simp add: dir_view_def)
  have "\<exists>team. snd (authorizeUplink gw1 f env) = Route team"
    using routed by (cases "snd (authorizeUplink gw1 f env)")
      (auto simp: res uplink_def no_result_def case_prod_beta Let_def split: if_splits)
  then obtain conn team where c: "map_of (gw_connections gw1) f = Some conn"
    and mr: "may_route (dir_view gw1) (gw_grantLookup gw1) conn env team"
    using authorize_route [OF inv] by (auto simp: authorized_def)
  have f: "gc_nodeId conn = f" using inv c by (simp add: gw_inv_def)
  obtain sn rc where "dir_view gw1 f = Some sn" "de_status sn = Active" "dir_view gw1 (e_to_node env) = Some rc"
    "de_team_id sn = de_team_id rc \<or> grant_covers (gw_grantLookup gw1) (de_team_id sn) (de_team_id rc) (e_body env)"
    using mr f by (auto simp: may_route_def)
  moreover have "e_from_node env = f" using mr f by (simp add: may_route_def pinned_def)
  ultimately show ?thesis
    by (auto simp: view grants registry_allows_def grant_covers_def entry_view_def)
qed

definition demo_core :: gateway where
  "demo_core = (newGatewayCore None None)\<lparr>gw_grantLookup := Some (grantCaps demo_registry 0)\<rparr>"

definition demo_connect :: gw_event where
  "demo_connect = Gv_connect \<lparr>gc_connId = ''c'', gc_nodeId = ''N1'', gc_teamId = ''T2'', gc_connectedAt = 0, gc_generation = 1\<rparr>"

definition demo_note :: envelope where
  "demo_note = demo_msg\<lparr>e_from_node := ''N1'', e_to_node := ''N1''\<rparr>"

definition demo_served :: gateway where
  "demo_served = fst (run (gw_step (\<lambda>_. Some 0)) (setDirectory demo_core (gateway_view demo_registry)) [demo_connect])"

lemma demo_core_ok:
  "gw_inv demo_core" "dsn_epoch (gw_directory demo_core) \<le> rg_directoryEpoch demo_registry"
  "gw_grantLookup demo_core = Some (grantCaps demo_registry 0)" "\<forall>e \<in> set [demo_connect]. \<not> is_policy_event e"
  using gw_inv_new [of None None]
  by (auto simp: demo_core_def newGatewayCore_def gw_inv_def cache_ok_def dir_view_def is_policy_event_def demo_connect_def)

lemma demo_delivered:
  "ur_deliveries (snd (uplink (\<lambda>_. Some 0) demo_served ''N1'' demo_note 5 False)) = [(''N1'', demo_note)]"
  by (simp add: demo_served_def demo_core_def demo_connect_def demo_note_def demo_msg_def uplink_def env_expired_def authorizeUplink_def
      evaluateUplink_def checkFromPin_def lookup_def setDirectory_def gateway_view_def snapshot_def demo_registry_eq newGatewayCore_def
      connect_def entry_view_def no_result_def isConnected_def Let_def)

theorem registry_decides_routing_witness:
  "e_from_node demo_note = ''N1'' \<and> registry_allows demo_registry 0 ''N1'' demo_note"
  using registry_decides_routing [OF demo_history_good demo_registry_def demo_core_ok demo_served_def refl, of "''N1''" demo_note 5 False]
    demo_delivered by simp

end
