(* ===== verification/Storage.thy ===== *)
theory Storage
  imports Qlong_Prelude
begin

text \<open>
  The storage layer, \<open>packages/storage/src\<close>: the error classes (\<open>errors.ts\<close>), the schema history of a
  database (\<open>migrations.ts\<close>) and the life cycle and transactions of \<open>SqliteStore\<close> (\<open>sqlite.ts\<close>).

  SQLite itself is a parameter: what the platform answers to \<open>BEGIN\<close>, \<open>COMMIT\<close>, \<open>ROLLBACK\<close>, the ownership
  lock and the pragma checks during one call is a value of the record \<open>platform\<close>; the effect of a migration's SQL
  on the tables is a function argument. A callback is a function of the database, so it cannot re-enter the
  store, close it or return a promise; these misuses are not representable and are left out. The locale
  \<open>tx_client\<close> states what a client of \<open>transaction\<close> gets: its invariant and exactly its acknowledged writes.
\<close>

section \<open>Results\<close>

definition andThen :: "'e + 'a \<Rightarrow> ('a \<Rightarrow> 'e + 'b) \<Rightarrow> 'e + 'b" where
  "andThen m f = (case m of Inl e \<Rightarrow> Inl e | Inr x \<Rightarrow> f x)"

definition ensure :: "bool \<Rightarrow> 'e \<Rightarrow> 'e + unit" where
  "ensure c e = (if c then Inr () else Inl e)"

fun each :: "('a \<Rightarrow> 'e + 'b) \<Rightarrow> 'a list \<Rightarrow> 'e + 'b list" where
  "each f [] = Inr []"
| "each f (x # xs) = andThen (f x) (\<lambda>y. andThen (each f xs) (\<lambda>ys. Inr (y # ys)))"

lemma andThen_simps [simp]: "andThen (Inl e) f = Inl e" "andThen (Inr x) f = f x"
  by (simp_all add: andThen_def)

lemma andThen_Inr [simp]: "andThen m f = Inr y \<longleftrightarrow> (\<exists>x. m = Inr x \<and> f x = Inr y)"
  by (simp add: andThen_def split: sum.splits)

lemma andThen_Inl: "andThen m f = Inl e \<longleftrightarrow> m = Inl e \<or> (\<exists>x. m = Inr x \<and> f x = Inl e)"
  by (simp add: andThen_def split: sum.splits)

lemma ensure_simps [simp]: "ensure True e = Inr ()" "ensure False e = Inl e"
  by (simp_all add: ensure_def)

lemma ensure_Inr [simp]: "ensure c e = Inr u \<longleftrightarrow> c"
  by (simp add: ensure_def)

lemma ensure_Inl: "ensure c e = Inl e' \<longleftrightarrow> \<not> c \<and> e' = e"
  by (auto simp: ensure_def)

lemma each_Inr: "each f xs = Inr ys \<longleftrightarrow> list_all2 (\<lambda>x y. f x = Inr y) xs ys"
  by (induction xs arbitrary: ys) (auto simp: list_all2_Cons1)

lemma each_total: "(\<And>x. x \<in> set xs \<Longrightarrow> f x = Inr (g x)) \<Longrightarrow> each f xs = Inr (map g xs)"
  by (induction xs) auto

section \<open>Errors\<close>

datatype storage_code =
    S_invalid_options | S_ownership_lost | S_exists | S_missing | S_schema_unsupported
  | S_migration_checksum | S_migration_failed | S_corrupt | S_sqlite_failure | S_durability
  | S_misuse | S_faulted | S_closed

text \<open>What a call can throw: a \<open>StorageError\<close>, an SQLite error with its extended code, or the caller's own error.\<close>

datatype 'e raised = Storage_error storage_code | Sqlite_error nat | Domain_error 'e

definition sqliteCode :: "'e raised \<Rightarrow> nat option" where
  "sqliteCode e = (case e of Sqlite_error n \<Rightarrow> Some (n mod 256) | _ \<Rightarrow> None)"

definition isBusy :: "'e raised \<Rightarrow> bool" where
  "isBusy e \<longleftrightarrow> sqliteCode e = Some 5 \<or> sqliteCode e = Some 6"

definition storageFailure :: "'e raised \<Rightarrow> storage_code" where
  "storageFailure e =
     (case e of
        Storage_error c \<Rightarrow> c
      | _ \<Rightarrow> if sqliteCode e = Some 11 \<or> sqliteCode e = Some 26 then S_corrupt else S_sqlite_failure)"

section \<open>Transactions\<close>

record platform =
  pf_held :: bool
  pf_connected :: bool
  pf_pragmas :: bool
  pf_begin :: "nat option"
  pf_held_after :: bool
  pf_connected_after :: bool
  pf_pragmas_after :: bool
  pf_commit :: "nat option"
  pf_rollback :: "nat option"

datatype store_state = Open | Faulted | Closed

record 'db store =
  st_db :: 'db
  st_state :: store_state
  st_fault :: "storage_code option"

definition poison :: "'e raised \<Rightarrow> 'db store \<Rightarrow> 'db store" where
  "poison e st = st\<lparr>st_state := Faulted, st_fault := Some (storageFailure e)\<rparr>"

definition assertOpen :: "platform \<Rightarrow> 'db store \<Rightarrow> 'db store \<times> ('e raised + unit)" where
  "assertOpen pf st =
     (case st_state st of
        Closed \<Rightarrow> (st, Inl (Storage_error S_closed))
      | Faulted \<Rightarrow> (st, Inl (Storage_error S_faulted))
      | Open \<Rightarrow>
          let failed = (\<lambda>c. (poison (Storage_error c :: 'e raised) st, Inl (Storage_error c)))
          in if \<not> pf_held pf then failed S_ownership_lost
             else if \<not> pf_connected pf then failed S_misuse
             else if \<not> pf_pragmas pf then failed S_durability
             else (st, Inr ()))"

text \<open>The \<open>try\<close> block: the staged database and result, or the error and whether it was thrown by \<open>COMMIT\<close>.\<close>

definition attempt :: "platform \<Rightarrow> 'db \<Rightarrow> ('db \<Rightarrow> 'e raised + 'db \<times> 'r) \<Rightarrow> ('e raised \<times> bool) + 'db \<times> 'r" where
  "attempt pf db callback =
     (case pf_begin pf of
        Some n \<Rightarrow> Inl (Sqlite_error n, False)
      | None \<Rightarrow>
          (case callback db of
             Inl e \<Rightarrow> Inl (e, False)
           | Inr res \<Rightarrow>
               if \<not> pf_held_after pf then Inl (Storage_error S_ownership_lost, False)
               else if \<not> pf_connected_after pf then Inl (Storage_error S_misuse, False)
               else if \<not> pf_pragmas_after pf then Inl (Storage_error S_durability, False)
               else (case pf_commit pf of Some n \<Rightarrow> Inl (Sqlite_error n, True) | None \<Rightarrow> Inr res)))"

definition poisons :: "'e raised \<Rightarrow> bool \<Rightarrow> bool" where
  "poisons e committing \<longleftrightarrow>
     committing \<or> (\<exists>c. e = Storage_error c) \<or>
     (case sqliteCode e of None \<Rightarrow> False | Some n \<Rightarrow> n \<noteq> 19 \<and> \<not> isBusy e)"

definition transaction ::
  "platform \<Rightarrow> 'db store \<Rightarrow> ('db \<Rightarrow> 'e raised + 'db \<times> 'r) \<Rightarrow> 'db store \<times> ('e raised + 'r)" where
  "transaction pf st callback =
     (case assertOpen pf st of
        (st1, Inl e) \<Rightarrow> (st1, Inl e)
      | (st1, Inr _) \<Rightarrow>
          (case attempt pf (st_db st1) callback of
             Inr (db, r) \<Rightarrow> (st1\<lparr>st_db := db\<rparr>, Inr r)
           | Inl (e, committing) \<Rightarrow>
               (case pf_rollback pf of
                  Some n \<Rightarrow>
                    let st2 = poison (Sqlite_error n :: 'e raised) st1
                    in (st2, Inl (Storage_error (storageFailure (Sqlite_error n :: 'e raised))))
                | None \<Rightarrow> (if poisons e committing then poison e st1 else st1, Inl e))))"

text \<open>Closing the business connection and then the ownership lock; \<open>err\<close> is what either of them throws.\<close>

definition close_store :: "'e raised option \<Rightarrow> 'db store \<Rightarrow> 'db store \<times> ('e raised + unit)" where
  "close_store err st =
     (if st_state st = Closed then (st, Inr ())
      else (case err of
        None \<Rightarrow> (st\<lparr>st_state := Closed\<rparr>, Inr ())
      | Some e \<Rightarrow> (poison e st, Inl (Storage_error (storageFailure e)))))"

section \<open>Schema history\<close>

record migration =
  mg_version :: nat
  mg_name :: string
  mg_sql :: string
  mg_checksum :: string

record schema =
  sc_id :: string
  sc_migrations :: "migration list"

text \<open>\<open>hash\<close> is the SHA-256 of the JSON text of version, name and SQL.\<close>

definition migrationChecksum :: "(nat \<times> string \<times> string \<Rightarrow> string) \<Rightarrow> nat \<Rightarrow> string \<Rightarrow> string \<Rightarrow> string" where
  "migrationChecksum hash version name sql = hash (version, name, sql)"

definition defineMigration :: "(nat \<times> string \<times> string \<Rightarrow> string) \<Rightarrow> nat \<Rightarrow> string \<Rightarrow> string \<Rightarrow> migration" where
  "defineMigration hash version name sql =
     \<lparr>mg_version = version, mg_name = name, mg_sql = sql, mg_checksum = migrationChecksum hash version name sql\<rparr>"

definition blank :: "string \<Rightarrow> bool" where
  "blank s = list_all is_space s"

definition schema_id_ok :: "string \<Rightarrow> bool" where
  "schema_id_ok s =
     (case s of
        [] \<Rightarrow> False
      | c # cs \<Rightarrow> is_lower c \<and> length cs \<le> 127 \<and>
          list_all (\<lambda>x. is_lower x \<or> is_digit x \<or> x \<in> set ''_.-'') cs)"

fun check_migrations :: "(nat \<times> string \<times> string \<Rightarrow> string) \<Rightarrow> nat \<Rightarrow> migration list \<Rightarrow> storage_code + unit" where
  "check_migrations hash index [] = Inr ()"
| "check_migrations hash index (m # ms) =
     (if mg_version m \<noteq> index + 1 \<or> blank (mg_name m) \<or> blank (mg_sql m) then Inl S_invalid_options
      else if mg_checksum m \<noteq> migrationChecksum hash (mg_version m) (mg_name m) (mg_sql m) then Inl S_migration_checksum
      else check_migrations hash (index + 1) ms)"

definition validateSchema :: "(nat \<times> string \<times> string \<Rightarrow> string) \<Rightarrow> schema \<Rightarrow> storage_code + unit" where
  "validateSchema hash schema =
     (if \<not> schema_id_ok (sc_id schema) \<or> sc_migrations schema = [] then Inl S_invalid_options
      else check_migrations hash 0 (sc_migrations schema))"

text \<open>
  A database file: header fields, the two metadata tables (\<open>None\<close>: absent or unreadable) and the domain tables.
  The engine gives the tables of an empty file, runs a script on the tables and runs the integrity checks.
\<close>

record 'tables dbfile =
  df_application :: nat
  df_version :: nat
  df_meta :: "(nat \<times> nat \<times> string) list option"
  df_ledger :: "(nat \<times> string \<times> string) list option"
  df_tables :: 'tables

record 'tables engine =
  eg_none :: 'tables
  eg_exec :: "string \<Rightarrow> 'tables \<Rightarrow> 'tables option"
  eg_integrity :: "'tables \<Rightarrow> bool"

definition APPLICATION_ID :: nat where
  "APPLICATION_ID = 1363955271"

definition ledger_row :: "migration \<Rightarrow> nat \<times> string \<times> string" where
  "ledger_row m = (mg_version m, mg_name m, mg_checksum m)"

fun check_ledger :: "(nat \<times> string \<times> string) list \<Rightarrow> migration list \<Rightarrow> storage_code + unit" where
  "check_ledger [] ms = Inr ()"
| "check_ledger (row # rows) [] = Inl S_schema_unsupported"
| "check_ledger (row # rows) (m # ms) =
     (if fst row \<noteq> mg_version m then Inl S_schema_unsupported
      else if snd row \<noteq> (mg_name m, mg_checksum m) then Inl S_migration_checksum
      else check_ledger rows ms)"

definition schemaVersion :: "'tables engine \<Rightarrow> 'tables dbfile \<Rightarrow> schema \<Rightarrow> bool \<Rightarrow> storage_code + nat" where
  "schemaVersion eg df schema isNew =
     (if \<not> eg_integrity eg (df_tables df) then Inl S_corrupt
      else if isNew then
        (if df_application df \<noteq> 0 \<or> df_version df \<noteq> 0 \<or> df_meta df \<noteq> None \<or> df_ledger df \<noteq> None \<or>
            df_tables df \<noteq> eg_none eg
         then Inl S_schema_unsupported else Inr 0)
      else if df_application df \<noteq> APPLICATION_ID \<or> df_version df < 1 \<or>
              length (sc_migrations schema) < df_version df
      then Inl S_schema_unsupported
      else (case (df_meta df, df_ledger df) of
        (Some meta, Some ledger) \<Rightarrow>
          if meta \<noteq> [(1, 1, sc_id schema)] then Inl S_schema_unsupported
          else
            (let rows = sort_key fst ledger in
             if length rows \<noteq> df_version df then Inl S_schema_unsupported
             else andThen (check_ledger rows (sc_migrations schema)) (\<lambda>_. Inr (df_version df)))
      | _ \<Rightarrow> Inl S_schema_unsupported))"

definition init_meta :: "schema \<Rightarrow> 'tables dbfile \<Rightarrow> 'tables dbfile" where
  "init_meta schema df =
     df\<lparr>df_meta := Some [(1, 1, sc_id schema)], df_ledger := Some [], df_application := APPLICATION_ID\<rparr>"

fun migrate :: "'tables engine \<Rightarrow> migration list \<Rightarrow> 'tables dbfile \<Rightarrow> 'tables dbfile option" where
  "migrate eg [] df = Some df"
| "migrate eg (m # ms) df =
     (case eg_exec eg (mg_sql m) (df_tables df) of
        None \<Rightarrow> None
      | Some tables \<Rightarrow>
          (case df_ledger df of
             None \<Rightarrow> None
           | Some ledger \<Rightarrow>
               if mg_version m = 0 \<or> mg_version m \<in> fst ` set ledger then None
               else migrate eg ms (df\<lparr>df_tables := tables, df_ledger := Some (ledger @ [ledger_row m]),
                                      df_version := mg_version m\<rparr>)))"

text \<open>\<open>durable\<close>: the pragma check and the final \<open>COMMIT\<close> succeed. Any failure rolls everything back.\<close>

definition applyMigrations ::
  "'tables engine \<Rightarrow> bool \<Rightarrow> 'tables dbfile \<Rightarrow> schema \<Rightarrow> nat \<Rightarrow> storage_code + 'tables dbfile" where
  "applyMigrations eg durable df schema since =
     (if since = length (sc_migrations schema) then Inr df
      else
        (case migrate eg (drop since (sc_migrations schema)) (if since = 0 then init_meta schema df else df) of
           None \<Rightarrow> Inl S_migration_failed
         | Some df1 \<Rightarrow>
             if durable \<and> eg_integrity eg (df_tables df1) \<and> \<not> isl (schemaVersion eg df1 schema False)
             then Inr df1 else Inl S_migration_failed))"

datatype open_mode = Create_mode | Open_mode

definition new_dbfile :: "'tables engine \<Rightarrow> 'tables dbfile" where
  "new_dbfile eg = \<lparr>df_application = 0, df_version = 0, df_meta = None, df_ledger = None, df_tables = eg_none eg\<rparr>"

text \<open>\<open>SqliteStore.open\<close> on a data directory that is already owned; \<open>existing\<close> is the file found there.\<close>

definition open_store ::
  "(nat \<times> string \<times> string \<Rightarrow> string) \<Rightarrow> 'tables engine \<Rightarrow> bool \<Rightarrow> schema \<Rightarrow> open_mode \<Rightarrow> 'tables dbfile option
     \<Rightarrow> storage_code + 'tables dbfile" where
  "open_store hash eg durable schema mode existing =
     andThen (validateSchema hash schema) (\<lambda>_.
       if existing \<noteq> None \<and> mode = Create_mode then Inl S_exists
       else if existing = None \<and> mode = Open_mode then Inl S_missing
       else
         (let df = (case existing of None \<Rightarrow> new_dbfile eg | Some f \<Rightarrow> f) in
          andThen (schemaVersion eg df schema (existing = None)) (\<lambda>since.
            applyMigrations eg durable df schema since)))"

end
