(* ===== verification/Node_Store.thy ===== *)
theory Node_Store
  imports Storage Gateway_Custody "HOL-Library.List_Lexorder"
begin

text \<open>
  The durable store of a node, \<open>packages/node/src/runtime/store.ts\<close> over \<open>runtime/schema.ts\<close>: inbox, delivery
  records, outbox, versioned state, dedup keys and effect intents of one node identity.

  A table is a list of rows in rowid order under its primary key. The columns have the types and the enumerations
  of the schema's \<open>STRICT\<close> and \<open>CHECK\<close> clauses; a \<open>CHECK\<close> that a row can still break is written out and raises SQLite
  error 19. Every operation is the body of one transaction: it takes the database and returns the new one with
  the result, or the error. The codec of the custody store supplies canonical JSON, digests and byte lengths.

  \<open>text_col\<close> is the truncation that the source describes: reading a TEXT column stops at the first NUL. It is
  applied to the columns that can hold one, the keys chosen by the caller; ids, digests and canonical JSON have none.
\<close>

section \<open>Rows\<close>

datatype rt_code = Rc_type | Rc_range | Rc_full | Rc_conflict | Rc_stale | Rc_unverified

type_synonym rt_error = "rt_code raised"

abbreviation (input) type_error :: rt_error where
  "type_error \<equiv> Domain_error Rc_type"

abbreviation (input) corrupt :: rt_error where
  "corrupt \<equiv> Storage_error S_corrupt"

abbreviation (input) constraint :: rt_error where
  "constraint \<equiv> Sqlite_error 19"

datatype decision = Undecided | Applied | Duplicated | Conflicting

record inbox_row =
  ib_digest :: string
  ib_payload :: "string option"
  ib_decision :: decision
  ib_state_key :: "string option"
  ib_revision :: "nat option"

datatype delivery_status = Dl_pending | Dl_stored

record delivery_row =
  dl_digest :: string
  dl_status :: delivery_status
  dl_stored_at :: "number option"

record outbox_row =
  ob_payload :: string
  ob_attempts :: nat
  ob_last_at :: nat

record state_row =
  sr_revision :: nat
  sr_value :: string

record effect_row =
  er_state_key :: string
  er_revision :: nat
  er_kind :: string
  er_payload :: string
  er_done :: bool

type_synonym msg_key = "string \<times> string"

record node_db =
  nd_identity :: "string option"
  nd_inbox :: "(msg_key \<times> inbox_row) list"
  nd_delivery :: "(msg_key \<times> delivery_row) list"
  nd_outbox :: "(msg_key \<times> outbox_row) list"
  nd_state :: "(string \<times> state_row) list"
  nd_dedup :: "((string \<times> string \<times> string) \<times> string) list"
  nd_effects :: "(string \<times> effect_row) list"

record node_cfg =
  nc_codec :: codec
  nc_node :: string
  nc_maxEntries :: nat
  nc_maxBytes :: nat
  nc_retention :: "number option"

record rt_state =
  rs_key :: string
  rs_revision :: nat
  rs_value :: json

record rt_effect =
  re_id :: string
  re_state_key :: string
  re_revision :: nat
  re_kind :: string
  re_payload :: json

record outbox_entry =
  oe_envelope :: json
  oe_attempts :: number
  oe_last_at :: number

section \<open>Arguments\<close>

definition integer_arg :: "number \<Rightarrow> rt_error + nat" where
  "integer_arg value = (if \<not> isSafeInteger value \<or> value < 0 then Inl type_error else Inr (nat \<lfloor>value\<rfloor>))"

definition key_ok :: "codec \<Rightarrow> string \<Rightarrow> bool" where
  "key_ok cd value \<longleftrightarrow> value \<noteq> [] \<and> cd_bytes cd value \<le> 1024"

definition key_arg :: "codec \<Rightarrow> json option \<Rightarrow> rt_error + string" where
  "key_arg cd value =
     (case str_of value of None \<Rightarrow> Inl type_error | Some s \<Rightarrow> if key_ok cd s then Inr s else Inl type_error)"

definition usesR1Dedup :: "string \<Rightarrow> bool" where
  "usesR1Dedup type \<longleftrightarrow> take 5 type = ''task.'' \<and> type \<noteq> ''task.progress'' \<and> type \<noteq> ''task.lease.renew''"

fun visit :: "json \<Rightarrow> nat \<Rightarrow> bool" where
  "visit (JArr xs) depth \<longleftrightarrow> depth \<le> 64 \<and> list_all (\<lambda>x. visit x (depth + 1)) xs"
| "visit (JObj fs) depth \<longleftrightarrow> depth \<le> 64 \<and> list_all (\<lambda>f. visit (snd f) (depth + 1)) fs"
| "visit _ depth \<longleftrightarrow> depth \<le> 64"

text \<open>A property that is absent (\<open>undefined\<close>) is not JSON data.\<close>

definition json_text :: "codec \<Rightarrow> json option \<Rightarrow> rt_error + string" where
  "json_text cd value =
     (case value of None \<Rightarrow> Inl type_error | Some v \<Rightarrow> if visit v 0 then Inr (cd_jcs cd v) else Inl type_error)"

record rt_encoded =
  rn_env :: json
  rn_payload :: string
  rn_digest :: string

definition rt_envelope :: "codec \<Rightarrow> json \<Rightarrow> rt_error + rt_encoded" where
  "rt_envelope cd value =
     andThen (json_text cd (Some value)) (\<lambda>payload.
       if max_bytes < cd_bytes cd payload then Inl type_error
       else
         (case validateEnvelope (cd_parse cd) (cd_b64len cd) (cd_reparse cd payload) DEFAULT_PARAMS False of
            Inl _ \<Rightarrow> Inl type_error
          | Inr env \<Rightarrow>
              if \<not> sig_canonical cd (obj_get env ''sig'') then Inl type_error
              else Inr \<lparr>rn_env = env, rn_payload = payload, rn_digest = cd_sha cd (cd_jcs cd env)\<rparr>))"

section \<open>Reading rows\<close>

definition text_col :: "string \<Rightarrow> string" where
  "text_col s = takeWhile (\<lambda>c. c \<noteq> CHR 0x00) s"

definition valid :: "bool \<Rightarrow> rt_error + unit" where
  "valid c = ensure c corrupt"

definition storedInteger :: "nat \<Rightarrow> nat \<Rightarrow> bool" where
  "storedInteger value minimum \<longleftrightarrow> value \<le> 9007199254740991 \<and> minimum \<le> value"

definition retention_arg :: "number option \<Rightarrow> rt_error + number option" where
  "retention_arg v =
     (case v of
        None \<Rightarrow> Inr None
      | Some x \<Rightarrow> if \<not> isSafeInteger x \<or> x < 0 then Inl (Domain_error Rc_range) else Inr (Some x))"

definition storedTime :: "number option \<Rightarrow> bool" where
  "storedTime v = (case v of None \<Rightarrow> True | Some t \<Rightarrow> validTime t)"

definition storedIdentity :: "msg_key \<Rightarrow> string \<Rightarrow> bool" where
  "storedIdentity k digest \<longleftrightarrow> isUuidStr (fst k) \<and> isUuidStr (snd k) \<and> is_digest digest"

definition storedJson :: "codec \<Rightarrow> string \<Rightarrow> rt_error + json" where
  "storedJson cd s =
     (let v = cd_reparse cd s in if visit v 0 \<and> cd_jcs cd v = s then Inr v else Inl corrupt)"

definition readEnvelope :: "node_cfg \<Rightarrow> msg_key \<Rightarrow> string \<Rightarrow> string \<Rightarrow> bool \<Rightarrow> rt_error + json" where
  "readEnvelope cf k digest payload outbound =
     (let cd = nc_codec cf in
      if \<not> storedIdentity k digest \<or> max_bytes < cd_bytes cd payload then Inl corrupt
      else
        (case rt_envelope cd (cd_reparse cd payload) of
           Inl _ \<Rightarrow> Inl corrupt
         | Inr en \<Rightarrow>
             (let env = envelopeOf (rn_env en) in
              if rn_payload en = payload \<and> rn_digest en = digest \<and> e_from_node env = fst k \<and> e_msg_id env = snd k \<and>
                 (if outbound then e_from_node env else e_to_node env) = nc_node cf
              then Inr (rn_env en) else Inl corrupt)))"

text \<open>A delivery record joined with its outbox row.\<close>

definition readDelivery :: "node_cfg \<Rightarrow> msg_key \<Rightarrow> delivery_row \<Rightarrow> outbox_row option \<Rightarrow> rt_error + outbox_entry option" where
  "readDelivery cf k d ob =
     andThen (valid (storedIdentity k (dl_digest d) \<and> fst k = nc_node cf \<and>
                     (dl_status d = Dl_pending \<longleftrightarrow> ob \<noteq> None) \<and> storedTime (dl_stored_at d) \<and>
                     (dl_status d = Dl_pending \<longrightarrow> dl_stored_at d = None))) (\<lambda>_.
       (case ob of
          None \<Rightarrow> Inr None
        | Some row \<Rightarrow>
            andThen (readEnvelope cf k (dl_digest d) (ob_payload row) True) (\<lambda>env.
            andThen (valid (storedInteger (ob_attempts row) 0 \<and> storedInteger (ob_last_at row) 0)) (\<lambda>_.
              Inr (Some \<lparr>oe_envelope = env, oe_attempts = of_nat (ob_attempts row), oe_last_at = of_nat (ob_last_at row)\<rparr>)))))"

definition findDelivery :: "node_cfg \<Rightarrow> node_db \<Rightarrow> msg_key \<Rightarrow> rt_error + delivery_row option" where
  "findDelivery cf db k =
     (case map_of (nd_delivery db) k of
        Some d \<Rightarrow> andThen (readDelivery cf k d (map_of (nd_outbox db) k)) (\<lambda>_. Inr (Some d))
      | None \<Rightarrow> andThen (valid (map_of (nd_outbox db) k = None)) (\<lambda>_. Inr None))"

definition decodeState :: "codec \<Rightarrow> string \<Rightarrow> state_row \<Rightarrow> rt_error + rt_state" where
  "decodeState cd k r =
     andThen (valid (key_ok cd k \<and> storedInteger (sr_revision r) 1)) (\<lambda>_.
     andThen (storedJson cd (sr_value r)) (\<lambda>v.
       Inr \<lparr>rs_key = k, rs_revision = sr_revision r, rs_value = v\<rparr>))"

definition readState :: "codec \<Rightarrow> node_db \<Rightarrow> string \<Rightarrow> rt_error + rt_state option" where
  "readState cd db stateKey =
     andThen (ensure (key_ok cd stateKey) type_error) (\<lambda>_.
       (case map_of (nd_state db) stateKey of
          None \<Rightarrow> Inr None
        | Some r \<Rightarrow> andThen (decodeState cd stateKey r) (\<lambda>st. Inr (Some st))))"

definition revision_of :: "rt_state option \<Rightarrow> nat" where
  "revision_of st = (case st of None \<Rightarrow> 0 | Some s \<Rightarrow> rs_revision s)"

definition readInbox :: "node_cfg \<Rightarrow> node_db \<Rightarrow> msg_key \<Rightarrow> inbox_row \<Rightarrow> rt_error + json option" where
  "readInbox cf db k r =
     andThen (valid (storedIdentity k (ib_digest r))) (\<lambda>_.
       if ib_decision r = Undecided then
         andThen (valid (ib_state_key r = None \<and> ib_revision r = None)) (\<lambda>_.
           (case ib_payload r of
              None \<Rightarrow> Inl corrupt
            | Some p \<Rightarrow> andThen (readEnvelope cf k (ib_digest r) p False) (\<lambda>env. Inr (Some env))))
       else
         (case (ib_payload r, ib_state_key r, ib_revision r) of
            (None, Some sk, Some revision) \<Rightarrow>
              andThen (valid (key_ok (nc_codec cf) (text_col sk) \<and>
                              storedInteger revision (if ib_decision r = Applied then 1 else 0))) (\<lambda>_.
              andThen (readState (nc_codec cf) db (text_col sk)) (\<lambda>st.
              andThen (valid (revision = 0 \<or> (st \<noteq> None \<and> revision \<le> revision_of st))) (\<lambda>_. Inr None)))
          | _ \<Rightarrow> Inl corrupt))"

definition dedup_parts_ok :: "json \<Rightarrow> bool" where
  "dedup_parts_ok v =
     (case v of
        JArr [a, JNum q, JStr t] \<Rightarrow>
          isUuid (Some a) \<and> isSafeInteger q \<and> 0 < q \<and> take 5 t = ''task.'' \<and> TYPE_RE t \<and> usesR1Dedup t
      | _ \<Rightarrow> False)"

definition readDedup :: "codec \<Rightarrow> node_db \<Rightarrow> string \<times> string \<times> string \<Rightarrow> string \<Rightarrow> rt_error + unit" where
  "readDedup cd db k digest =
     (case k of (sender, sk, dk) \<Rightarrow>
        andThen (valid (isUuidStr sender \<and> is_digest digest \<and> key_ok cd (text_col sk))) (\<lambda>_.
        andThen (storedJson cd dk) (\<lambda>parts.
        andThen (valid (dedup_parts_ok parts)) (\<lambda>_.
        andThen (readState cd db (text_col sk)) (\<lambda>st. valid (st \<noteq> None))))))"

definition readEffect :: "codec \<Rightarrow> node_db \<Rightarrow> string \<Rightarrow> effect_row \<Rightarrow> rt_error + rt_effect \<times> nat" where
  "readEffect cd db eid r =
     andThen (valid (key_ok cd (text_col eid) \<and> key_ok cd (text_col (er_state_key r)) \<and> key_ok cd (text_col (er_kind r)) \<and>
                     storedInteger (er_revision r) 1)) (\<lambda>_.
     andThen (readState cd db (text_col (er_state_key r))) (\<lambda>st.
     andThen (valid (st \<noteq> None \<and> er_revision r \<le> revision_of st)) (\<lambda>_.
     andThen (storedJson cd (er_payload r)) (\<lambda>payload.
       Inr (\<lparr>re_id = text_col eid, re_state_key = text_col (er_state_key r), re_revision = er_revision r,
             re_kind = text_col (er_kind r), re_payload = payload\<rparr>, revision_of st)))))"

section \<open>Capacity\<close>

definition inbox_bytes :: "codec \<Rightarrow> msg_key \<times> inbox_row \<Rightarrow> nat" where
  "inbox_bytes cd x = (case x of ((s, m), r) \<Rightarrow>
     128 + cd_bytes cd (s @ m @ ib_digest r @ (case ib_payload r of None \<Rightarrow> [] | Some p \<Rightarrow> p) @
                        (case ib_state_key r of None \<Rightarrow> [] | Some k \<Rightarrow> k)))"

definition usage_bytes :: "codec \<Rightarrow> node_db \<Rightarrow> nat" where
  "usage_bytes cd db =
     sum_list (map (inbox_bytes cd) (nd_inbox db)) +
     sum_list (map (\<lambda>((s, m), r). 128 + cd_bytes cd (s @ m @ dl_digest r)) (nd_delivery db)) +
     sum_list (map (\<lambda>((s, m), r). 128 + cd_bytes cd (s @ m @ ob_payload r)) (nd_outbox db)) +
     sum_list (map (\<lambda>(k, r). 128 + cd_bytes cd (k @ sr_value r)) (nd_state db)) +
     sum_list (map (\<lambda>((s, k, d), g). 128 + cd_bytes cd (s @ k @ d @ g)) (nd_dedup db)) +
     sum_list (map (\<lambda>(e, r). 128 + cd_bytes cd (e @ er_state_key r @ er_kind r @ er_payload r)) (nd_effects db))"

definition usage_entries :: "node_db \<Rightarrow> nat" where
  "usage_entries db =
     length (nd_inbox db) + length (nd_delivery db) + length (nd_outbox db) + length (nd_state db) +
     length (nd_dedup db) + length (nd_effects db)"

definition readUsage :: "codec \<Rightarrow> node_db \<Rightarrow> rt_error + nat \<times> nat" where
  "readUsage cd db =
     andThen (valid (storedInteger (usage_entries db) 0 \<and> storedInteger (usage_bytes cd db) 0)) (\<lambda>_.
       Inr (usage_entries db, usage_bytes cd db))"

definition capacity :: "node_cfg \<Rightarrow> node_db \<Rightarrow> rt_error + unit" where
  "capacity cf db =
     andThen (readUsage (nc_codec cf) db) (\<lambda>(entries, bytes).
       if nc_maxEntries cf < entries \<or> nc_maxBytes cf < bytes then Inl (Domain_error Rc_full) else Inr ())"

section \<open>Outbound\<close>

definition nr_all :: "node_cfg \<Rightarrow> node_db \<Rightarrow> rt_error + node_db \<times> outbox_entry list" where
  "nr_all cf db =
     andThen (valid (list_all (\<lambda>(k, ob). map_of (nd_delivery db) k \<noteq> None) (nd_outbox db))) (\<lambda>_.
     andThen (valid (list_all (\<lambda>(k, d). dl_status d = Dl_stored \<or> map_of (nd_outbox db) k \<noteq> None) (nd_delivery db))) (\<lambda>_.
     andThen (each (\<lambda>(k, ob). readDelivery cf k (the (map_of (nd_delivery db) k)) (Some ob)) (nd_outbox db)) (\<lambda>entries.
       Inr (db, map the (filter (\<lambda>e. e \<noteq> None) entries)))))"

definition saveEntry :: "node_cfg \<Rightarrow> node_db \<Rightarrow> outbox_entry \<Rightarrow> rt_error + node_db" where
  "saveEntry cf db entry =
     andThen (rt_envelope (nc_codec cf) (oe_envelope entry)) (\<lambda>en.
     andThen (ensure (e_from_node (envelopeOf (rn_env en)) = nc_node cf) type_error) (\<lambda>_.
     andThen (integer_arg (oe_attempts entry)) (\<lambda>attempts.
     andThen (integer_arg (oe_last_at entry)) (\<lambda>lastAt.
       (let k = (nc_node cf, e_msg_id (envelopeOf (rn_env en))) in
        andThen (findDelivery cf db k) (\<lambda>prior.
          (case prior of
             Some d \<Rightarrow>
               if dl_digest d \<noteq> rn_digest en then Inl (Domain_error Rc_conflict)
               else if dl_status d = Dl_stored then Inr db
               else
                 (case map_of (nd_outbox db) k of
                    None \<Rightarrow> Inr db
                  | Some ob \<Rightarrow>
                      Inr (db\<lparr>nd_outbox := AList.update k (ob\<lparr>ob_attempts := attempts, ob_last_at := lastAt\<rparr>) (nd_outbox db)\<rparr>))
           | None \<Rightarrow>
               if length (rn_digest en) \<noteq> 64 then Inl constraint
               else Inr (db\<lparr>nd_delivery := AList.update k \<lparr>dl_digest = rn_digest en, dl_status = Dl_pending, dl_stored_at = None\<rparr> (nd_delivery db),
                            nd_outbox := AList.update k \<lparr>ob_payload = rn_payload en, ob_attempts = attempts, ob_last_at = lastAt\<rparr> (nd_outbox db)\<rparr>))))))))"

definition nr_save :: "node_cfg \<Rightarrow> node_db \<Rightarrow> outbox_entry \<Rightarrow> rt_error + node_db" where
  "nr_save cf db entry = andThen (saveEntry cf db entry) (\<lambda>db1. andThen (capacity cf db1) (\<lambda>_. Inr db1))"

definition nr_remove :: "string \<Rightarrow> rt_error + node_db" where
  "nr_remove msgId = Inl (Domain_error Rc_unverified)"

definition nr_delivery :: "node_cfg \<Rightarrow> node_db \<Rightarrow> string \<Rightarrow> rt_error + (delivery_status \<times> string) option" where
  "nr_delivery cf db msgId =
     (if \<not> isUuidStr msgId then Inr None
      else andThen (findDelivery cf db (nc_node cf, msgId)) (\<lambda>row.
        Inr (map_option (\<lambda>d. (dl_status d, dl_digest d)) row)))"

definition nr_stored :: "node_cfg \<Rightarrow> number \<Rightarrow> node_db \<Rightarrow> string \<Rightarrow> string \<Rightarrow> string \<Rightarrow> rt_error + node_db \<times> bool" where
  "nr_stored cf now db fromNode msgId digest =
     (if fromNode \<noteq> nc_node cf \<or> \<not> isUuidStr msgId \<or> \<not> is_digest digest then Inr (db, False)
      else
        (let k = (fromNode, msgId) in
         andThen (findDelivery cf db k) (\<lambda>row.
           (case row of
              None \<Rightarrow> Inr (db, False)
            | Some d \<Rightarrow>
                if dl_digest d \<noteq> digest then Inr (db, False)
                else if \<not> validTime now then Inl type_error
                else
                  Inr (db\<lparr>nd_delivery := (if dl_status d = Dl_pending
                            then AList.update k (d\<lparr>dl_status := Dl_stored, dl_stored_at := Some now\<rparr>) (nd_delivery db)
                            else nd_delivery db),
                          nd_outbox := AList.delete k (nd_outbox db)\<rparr>, True)))))"

definition aged :: "number \<Rightarrow> delivery_row \<Rightarrow> bool" where
  "aged cutoff d \<longleftrightarrow> dl_status d = Dl_stored \<and> (case dl_stored_at d of None \<Rightarrow> False | Some t \<Rightarrow> t \<le> cutoff)"

text \<open>Deleting a delivery record that an outbox row still references breaks the foreign key.\<close>

definition nr_prune :: "node_cfg \<Rightarrow> number \<Rightarrow> node_db \<Rightarrow> rt_error + node_db \<times> nat" where
  "nr_prune cf now db =
     (case nc_retention cf of
        None \<Rightarrow> Inr (db, 0)
      | Some ret \<Rightarrow>
          if \<not> validTime now then Inr (db, 0)
          else
            (let rows = filter (\<lambda>(k, d). aged (now - ret) d) (nd_delivery db) in
             andThen (each (\<lambda>(k, d). readDelivery cf k d (map_of (nd_outbox db) k)) rows) (\<lambda>_.
               if list_ex (\<lambda>(k, d). map_of (nd_outbox db) k \<noteq> None) rows then Inl constraint
               else Inr (db\<lparr>nd_delivery := filter (\<lambda>(k, d). \<not> aged (now - ret) d) (nd_delivery db)\<rparr>, length rows))))"

section \<open>Inbound\<close>

datatype receive_result = Rv_new | Rv_duplicate | Rv_conflict | Rv_full

definition receive_tx :: "node_cfg \<Rightarrow> node_db \<Rightarrow> rt_encoded \<Rightarrow> rt_error + node_db \<times> receive_result" where
  "receive_tx cf db en =
     (let env = envelopeOf (rn_env en); k = (e_from_node env, e_msg_id env) in
      (case map_of (nd_inbox db) k of
         Some prior \<Rightarrow>
           andThen (readInbox cf db k prior) (\<lambda>_.
             Inr (db, if ib_digest prior = rn_digest en then Rv_duplicate else Rv_conflict))
       | None \<Rightarrow>
           if length (rn_digest en) \<noteq> 64 then Inl constraint
           else
             (let db1 = db\<lparr>nd_inbox := AList.update k \<lparr>ib_digest = rn_digest en, ib_payload = Some (rn_payload en),
                                                   ib_decision = Undecided, ib_state_key = None, ib_revision = None\<rparr> (nd_inbox db)\<rparr>
              in andThen (capacity cf db1) (\<lambda>_. Inr (db1, Rv_new)))))"

text \<open>The rollback of a full store is part of the answer: nothing is written and the caller sees \<open>full\<close>.\<close>

definition nr_receive :: "node_cfg \<Rightarrow> node_db \<Rightarrow> json \<Rightarrow> rt_error + node_db \<times> receive_result" where
  "nr_receive cf db value =
     andThen (rt_envelope (nc_codec cf) value) (\<lambda>en.
     andThen (ensure (e_to_node (envelopeOf (rn_env en)) = nc_node cf) type_error) (\<lambda>_.
       (case receive_tx cf db en of
          Inl e \<Rightarrow> if e = Domain_error Rc_full then Inr (db, Rv_full) else Inl e
        | Inr r \<Rightarrow> Inr r)))"

definition undecided :: "node_db \<Rightarrow> (msg_key \<times> inbox_row) list" where
  "undecided db = filter (\<lambda>(k, r). ib_decision r = Undecided) (nd_inbox db)"

definition nr_pending :: "node_cfg \<Rightarrow> node_db \<Rightarrow> number \<Rightarrow> rt_error + json list" where
  "nr_pending cf db limit =
     andThen (integer_arg limit) (\<lambda>n.
     andThen (each (\<lambda>(k, r). readInbox cf db k r) (take n (undecided db))) (\<lambda>envs. Inr (map the envs)))"

section \<open>State\<close>

definition nr_states :: "node_cfg \<Rightarrow> node_db \<Rightarrow> string \<Rightarrow> number \<Rightarrow> rt_error + rt_state list" where
  "nr_states cf db prefix limit =
     andThen (ensure (prefix = [] \<or> key_ok (nc_codec cf) prefix) type_error) (\<lambda>_.
     andThen (integer_arg limit) (\<lambda>n.
       each (\<lambda>(k, r). decodeState (nc_codec cf) k r)
         (take n (sort_key (\<lambda>(k, r). map (of_char :: char \<Rightarrow> nat) k)
            (filter (\<lambda>(k, r). take (length prefix) k = prefix) (nd_state db))))))"

fun save_all :: "node_cfg \<Rightarrow> node_db \<Rightarrow> json list \<Rightarrow> rt_error + node_db" where
  "save_all cf db [] = Inr db"
| "save_all cf db (env # envs) =
     andThen (saveEntry cf db \<lparr>oe_envelope = env, oe_attempts = 0, oe_last_at = 0\<rparr>) (\<lambda>db1. save_all cf db1 envs)"

definition add_effect :: "codec \<Rightarrow> string \<Rightarrow> nat \<Rightarrow> node_db \<Rightarrow> json \<Rightarrow> rt_error + node_db" where
  "add_effect cd stateKey revision db eff =
     andThen (key_arg cd (obj_get eff ''id'')) (\<lambda>eid.
     andThen (key_arg cd (obj_get eff ''kind'')) (\<lambda>kind.
     andThen (json_text cd (obj_get eff ''payload'')) (\<lambda>payload.
       if map_of (nd_effects db) eid \<noteq> None then Inl constraint
       else Inr (db\<lparr>nd_effects := AList.update eid \<lparr>er_state_key = stateKey, er_revision = revision, er_kind = kind,
                                                  er_payload = payload, er_done = False\<rparr> (nd_effects db)\<rparr>))))"

fun add_effects :: "codec \<Rightarrow> string \<Rightarrow> nat \<Rightarrow> node_db \<Rightarrow> json list \<Rightarrow> rt_error + node_db" where
  "add_effects cd stateKey revision db [] = Inr db"
| "add_effects cd stateKey revision db (eff # effs) =
     andThen (add_effect cd stateKey revision db eff) (\<lambda>db1. add_effects cd stateKey revision db1 effs)"

text \<open>An optional array property: absent, an array, or anything else, which is refused.\<close>

definition array_prop :: "json option \<Rightarrow> rt_error + json list" where
  "array_prop v =
     (case v of None \<Rightarrow> Inr [] | Some j \<Rightarrow> (case j of JArr xs \<Rightarrow> Inr xs | _ \<Rightarrow> Inl type_error))"

definition applyTransition :: "node_cfg \<Rightarrow> node_db \<Rightarrow> string \<Rightarrow> nat \<Rightarrow> json \<Rightarrow> rt_error + node_db \<times> nat" where
  "applyTransition cf db stateKey revision result =
     (let cd = nc_codec cf in
      andThen (json_text cd (Some result)) (\<lambda>text.
        (let transition = cd_reparse cd text in
         andThen (array_prop (obj_get transition ''outbox'')) (\<lambda>outbox.
         andThen (array_prop (obj_get transition ''effects'')) (\<lambda>effects.
         andThen (json_text cd (obj_get transition ''state'')) (\<lambda>value.
         andThen (integer_arg (of_nat (revision + 1))) (\<lambda>revision1.
           (let db1 = db\<lparr>nd_state := AList.update stateKey \<lparr>sr_revision = revision1, sr_value = value\<rparr> (nd_state db)\<rparr> in
            andThen (save_all cf db1 outbox) (\<lambda>db2.
            andThen (add_effects cd stateKey revision1 db2 effects) (\<lambda>db3.
              Inr (db3, revision1)))))))))))"

text \<open>The caller's \<open>transform\<close> may throw; what it throws is an error of its own.\<close>

definition nr_transition ::
  "node_cfg \<Rightarrow> node_db \<Rightarrow> string \<Rightarrow> number \<Rightarrow> (rt_state option \<Rightarrow> rt_error + json) \<Rightarrow> rt_error + node_db \<times> nat" where
  "nr_transition cf db stateKey expectedRevision transform =
     andThen (ensure (key_ok (nc_codec cf) stateKey) type_error) (\<lambda>_.
     andThen (integer_arg expectedRevision) (\<lambda>expected.
     andThen (readState (nc_codec cf) db stateKey) (\<lambda>state.
     andThen (ensure (revision_of state = expected) (Domain_error Rc_stale)) (\<lambda>_.
     andThen (transform state) (\<lambda>result.
     andThen (applyTransition cf db stateKey (revision_of state) result) (\<lambda>(db1, committed).
     andThen (capacity cf db1) (\<lambda>_. Inr (db1, committed))))))))"

section \<open>Consuming a message\<close>

record consume_request =
  cr_fromNode :: string
  cr_msgId :: string
  cr_stateKey :: string
  cr_expectedRevision :: number

datatype consume_result = Cn_missing | Cn_decided decision nat

definition or_null :: "json option \<Rightarrow> json" where
  "or_null v = (case v of None \<Rightarrow> JNull | Some j \<Rightarrow> j)"

definition dedup_key :: "codec \<Rightarrow> json \<Rightarrow> string" where
  "dedup_key cd env =
     cd_jcs cd (JArr [or_null (obj_get env ''task_id''), or_null (obj_get env ''attempt''), or_null (obj_get env ''type'')])"

definition body_digest :: "codec \<Rightarrow> json \<Rightarrow> string" where
  "body_digest cd env = cd_sha cd (cd_jcs cd (or_null (obj_get env ''body'')))"

text \<open>The R1 gate: the decision, and the database with the key recorded when it is new.\<close>

definition r1_gate :: "codec \<Rightarrow> node_db \<Rightarrow> string \<Rightarrow> string \<Rightarrow> json \<Rightarrow> rt_error + node_db \<times> decision" where
  "r1_gate cd db fromNode stateKey env =
     (if \<not> usesR1Dedup (e_type (envelopeOf env)) then Inr (db, Applied)
      else
        (let k = (fromNode, stateKey, dedup_key cd env); digest = body_digest cd env in
         (case map_of (nd_dedup db) k of
            Some prior \<Rightarrow>
              andThen (readDedup cd db k prior) (\<lambda>_. Inr (db, if prior = digest then Duplicated else Conflicting))
          | None \<Rightarrow>
              if length digest \<noteq> 64 then Inl constraint
              else Inr (db\<lparr>nd_dedup := AList.update k digest (nd_dedup db)\<rparr>, Applied))))"

definition decide :: "inbox_row \<Rightarrow> decision \<Rightarrow> string \<Rightarrow> nat \<Rightarrow> inbox_row" where
  "decide r status stateKey revision =
     r\<lparr>ib_payload := None, ib_decision := status, ib_state_key := Some stateKey, ib_revision := Some revision\<rparr>"

definition consume_tx ::
  "node_cfg \<Rightarrow> node_db \<Rightarrow> consume_request \<Rightarrow> nat \<Rightarrow> (json \<Rightarrow> rt_state option \<Rightarrow> rt_error + json)
     \<Rightarrow> rt_error + node_db \<times> consume_result" where
  "consume_tx cf db rq expected transform =
     (let cd = nc_codec cf; k = (cr_fromNode rq, cr_msgId rq); stateKey = cr_stateKey rq in
      (case map_of (nd_inbox db) k of
         None \<Rightarrow> Inr (db, Cn_missing)
       | Some row \<Rightarrow>
           andThen (readInbox cf db k row) (\<lambda>env.
             if ib_decision row \<noteq> Undecided then
               andThen (ensure (map_option text_col (ib_state_key row) = Some stateKey) (Domain_error Rc_conflict)) (\<lambda>_.
                 Inr (db, Cn_decided (ib_decision row) (the (ib_revision row))))
             else
               andThen (readState cd db stateKey) (\<lambda>state.
               andThen (ensure (revision_of state = expected) (Domain_error Rc_stale)) (\<lambda>_.
                 (case env of
                    None \<Rightarrow> Inl corrupt
                  | Some e \<Rightarrow>
                      andThen (r1_gate cd db (cr_fromNode rq) stateKey e) (\<lambda>(db1, status).
                      andThen (if status = Applied
                               then andThen (transform e state) (\<lambda>result. applyTransition cf db1 stateKey (revision_of state) result)
                               else Inr (db1, revision_of state)) (\<lambda>(db2, revision).
                        (let db3 = db2\<lparr>nd_inbox := AList.update k (decide row status stateKey revision) (nd_inbox db2)\<rparr> in
                         andThen (capacity cf db3) (\<lambda>_. Inr (db3, Cn_decided status revision)))))))))))"

definition nr_consume ::
  "node_cfg \<Rightarrow> node_db \<Rightarrow> consume_request \<Rightarrow> (json \<Rightarrow> rt_state option \<Rightarrow> rt_error + json)
     \<Rightarrow> rt_error + node_db \<times> consume_result" where
  "nr_consume cf db rq transform =
     andThen (ensure (key_ok (nc_codec cf) (cr_stateKey rq)) type_error) (\<lambda>_.
     andThen (integer_arg (cr_expectedRevision rq)) (\<lambda>expected.
     andThen (ensure (isUuidStr (cr_fromNode rq) \<and> isUuidStr (cr_msgId rq)) type_error) (\<lambda>_.
       consume_tx cf db rq expected transform)))"

section \<open>Effects\<close>

fun scan_effects :: "codec \<Rightarrow> node_db \<Rightarrow> bool \<Rightarrow> nat \<Rightarrow> (string \<times> effect_row) list \<Rightarrow> rt_error + rt_effect list" where
  "scan_effects cd db superseded n [] = Inr []"
| "scan_effects cd db superseded n ((eid, r) # rows) =
     (if n = 0 then Inr []
      else andThen (readEffect cd db eid r) (\<lambda>(eff, current).
        if superseded \<or> re_revision eff = current
        then andThen (scan_effects cd db superseded (n - 1) rows) (\<lambda>effs. Inr (eff # effs))
        else scan_effects cd db superseded n rows))"

definition nr_pendingEffects :: "node_cfg \<Rightarrow> node_db \<Rightarrow> number \<Rightarrow> bool \<Rightarrow> rt_error + rt_effect list" where
  "nr_pendingEffects cf db limit includeSuperseded =
     andThen (integer_arg limit) (\<lambda>n.
       scan_effects (nc_codec cf) db includeSuperseded n (filter (\<lambda>(e, r). \<not> er_done r) (nd_effects db)))"

definition nr_completeEffect ::
  "node_cfg \<Rightarrow> node_db \<Rightarrow> string \<Rightarrow> string \<Rightarrow> number \<Rightarrow> bool \<Rightarrow> rt_error + node_db \<times> bool" where
  "nr_completeEffect cf db eid stateKey revision allowSuperseded =
     andThen (ensure (key_ok (nc_codec cf) eid) type_error) (\<lambda>_.
     andThen (ensure (key_ok (nc_codec cf) stateKey) type_error) (\<lambda>_.
     andThen (integer_arg revision) (\<lambda>rev.
       (case map_of (nd_effects db) eid of
          None \<Rightarrow> Inr (db, False)
        | Some r \<Rightarrow>
            andThen (readEffect (nc_codec cf) db eid r) (\<lambda>_.
              if er_state_key r = stateKey \<and> er_revision r = rev \<and> \<not> er_done r \<and>
                 (allowSuperseded \<or> map_option sr_revision (map_of (nd_state db) stateKey) = Some rev)
              then Inr (db\<lparr>nd_effects := AList.update eid (r\<lparr>er_done := True\<rparr>) (nd_effects db)\<rparr>, True)
              else Inr (db, False))))))"

section \<open>Opening\<close>

definition validateStartup :: "node_cfg \<Rightarrow> node_db \<Rightarrow> bool" where
  "validateStartup cf db \<longleftrightarrow>
     list_all (\<lambda>(k, ob). map_of (nd_delivery db) k \<noteq> None) (nd_outbox db) \<and>
     list_all (\<lambda>(e, r). map_of (nd_state db) (er_state_key r) \<noteq> None) (nd_effects db) \<and>
     list_all (\<lambda>(k, d). \<not> isl (readDelivery cf k d (map_of (nd_outbox db) k))) (nd_delivery db) \<and>
     list_all (\<lambda>(k, r). \<not> isl (decodeState (nc_codec cf) k r)) (nd_state db) \<and>
     list_all (\<lambda>(k, r). \<not> isl (readInbox cf db k r)) (nd_inbox db) \<and>
     list_all (\<lambda>(k, g). \<not> isl (readDedup (nc_codec cf) db k g)) (nd_dedup db) \<and>
     list_all (\<lambda>(e, r). \<not> isl (readEffect (nc_codec cf) db e r)) (nd_effects db)"

definition no_rows :: "node_db \<Rightarrow> bool" where
  "no_rows db \<longleftrightarrow>
     nd_inbox db = [] \<and> nd_delivery db = [] \<and> nd_outbox db = [] \<and> nd_state db = [] \<and> nd_dedup db = [] \<and> nd_effects db = []"

definition or_default :: "number option \<Rightarrow> number \<Rightarrow> number" where
  "or_default v d = (case v of None \<Rightarrow> d | Some x \<Rightarrow> x)"

text \<open>The constructor: limits, the pinned identity and the startup validation.\<close>

definition newNodeRuntimeStore ::
  "codec \<Rightarrow> node_db \<Rightarrow> string \<Rightarrow> number option \<Rightarrow> number option \<Rightarrow> number option \<Rightarrow> rt_error + node_db \<times> node_cfg" where
  "newNodeRuntimeStore cd db nodeId maxEntries maxBytes retentionMs =
     andThen (ensure (isUuidStr nodeId) type_error) (\<lambda>_.
     andThen (integer_arg (or_default maxEntries 10000)) (\<lambda>me.
     andThen (integer_arg (or_default maxBytes (64 * 1024 * 1024))) (\<lambda>mb.
     andThen (retention_arg retentionMs) (\<lambda>ret.
       (let cf = \<lparr>nc_codec = cd, nc_node = nodeId, nc_maxEntries = me, nc_maxBytes = mb, nc_retention = ret\<rparr> in
        andThen (case nd_identity db of
                   Some nid \<Rightarrow>
                     andThen (valid (isUuidStr nid)) (\<lambda>_. andThen (ensure (nid = nodeId) type_error) (\<lambda>_. Inr db))
                 | None \<Rightarrow> andThen (valid (no_rows db)) (\<lambda>_. Inr (db\<lparr>nd_identity := Some nodeId\<rparr>))) (\<lambda>db1.
        andThen (valid (validateStartup cf db1)) (\<lambda>_. Inr (db1, cf))))))))"

section \<open>The store as a whole\<close>

text \<open>
  Every call that opens a transaction. The clock is read at the call. The transforms of \<open>transition\<close> and
  \<open>consume\<close> are functions of what they are given.
\<close>

datatype rt_op =
    Op_all
  | Op_save outbox_entry
  | Op_delivery string
  | Op_stored number string string string
  | Op_prune number
  | Op_receive json
  | Op_pending number
  | Op_state string
  | Op_states string number
  | Op_transition string number "rt_state option \<Rightarrow> rt_error + json"
  | Op_consume consume_request "json \<Rightarrow> rt_state option \<Rightarrow> rt_error + json"
  | Op_pendingEffects number bool
  | Op_completeEffect string string number bool

datatype rt_out =
    Ot_entries "outbox_entry list"
  | Ot_unit
  | Ot_delivery "(delivery_status \<times> string) option"
  | Ot_bool bool
  | Ot_nat nat
  | Ot_receive receive_result
  | Ot_envelopes "json list"
  | Ot_state "rt_state option"
  | Ot_states "rt_state list"
  | Ot_consume consume_result
  | Ot_effects "rt_effect list"

definition with_out :: "('a \<Rightarrow> rt_out) \<Rightarrow> rt_error + node_db \<times> 'a \<Rightarrow> rt_error + node_db \<times> rt_out" where
  "with_out f m = andThen m (\<lambda>(db, r). Inr (db, f r))"

definition read_out :: "node_db \<Rightarrow> ('a \<Rightarrow> rt_out) \<Rightarrow> rt_error + 'a \<Rightarrow> rt_error + node_db \<times> rt_out" where
  "read_out db f m = andThen m (\<lambda>r. Inr (db, f r))"

fun rt_exec :: "node_cfg \<Rightarrow> rt_op \<Rightarrow> node_db \<Rightarrow> rt_error + node_db \<times> rt_out" where
  "rt_exec cf Op_all db = with_out Ot_entries (nr_all cf db)"
| "rt_exec cf (Op_save entry) db = andThen (nr_save cf db entry) (\<lambda>db1. Inr (db1, Ot_unit))"
| "rt_exec cf (Op_delivery m) db = read_out db Ot_delivery (nr_delivery cf db m)"
| "rt_exec cf (Op_stored now f m d) db = with_out Ot_bool (nr_stored cf now db f m d)"
| "rt_exec cf (Op_prune now) db = with_out Ot_nat (nr_prune cf now db)"
| "rt_exec cf (Op_receive v) db = with_out Ot_receive (nr_receive cf db v)"
| "rt_exec cf (Op_pending n) db = read_out db Ot_envelopes (nr_pending cf db n)"
| "rt_exec cf (Op_state k) db = read_out db Ot_state (readState (nc_codec cf) db k)"
| "rt_exec cf (Op_states p n) db = read_out db Ot_states (nr_states cf db p n)"
| "rt_exec cf (Op_transition k e t) db = with_out Ot_nat (nr_transition cf db k e t)"
| "rt_exec cf (Op_consume rq t) db = with_out Ot_consume (nr_consume cf db rq t)"
| "rt_exec cf (Op_pendingEffects n s) db = read_out db Ot_effects (nr_pendingEffects cf db n s)"
| "rt_exec cf (Op_completeEffect e k r a) db = with_out Ot_bool (nr_completeEffect cf db e k r a)"

end
