(* ===== verification/Json_Read.thy ===== *)
theory Json_Read
  imports Qlong_Prelude
begin

text \<open>
  How the hosts of the node read and write the JSON values they store: typed reads of a property, absent and \<open>null\<close>
  values, truth in a condition, and the integer checks that \<open>runtime/executor.ts\<close> and \<open>runtime/lead.ts\<close> both define.
\<close>

definition positive :: "number \<Rightarrow> bool" where
  "positive q \<longleftrightarrow> isSafeInteger q \<and> 0 < q"

definition nonnegative :: "number \<Rightarrow> bool" where
  "nonnegative q \<longleftrightarrow> q = 0 \<or> positive q"

text \<open>\<open>value.x === undefined || P(value.x)\<close>.\<close>

definition absent_or :: "(json \<Rightarrow> bool) \<Rightarrow> json option \<Rightarrow> bool" where
  "absent_or P v = (case v of None \<Rightarrow> True | Some j \<Rightarrow> P j)"

text \<open>\<open>null\<close> for an absent value.\<close>

definition nullable :: "('a \<Rightarrow> json) \<Rightarrow> 'a option \<Rightarrow> json" where
  "nullable f v = (case v of None \<Rightarrow> JNull | Some x \<Rightarrow> f x)"

text \<open>Typed reads of a property; \<open>null_or\<close> admits \<open>null\<close> as the absent value.\<close>

definition bool_of :: "json option \<Rightarrow> bool option" where
  "bool_of v = (case v of Some (JBool b) \<Rightarrow> Some b | _ \<Rightarrow> None)"

definition obj_of :: "json option \<Rightarrow> body option" where
  "obj_of v = (case v of Some (JObj fs) \<Rightarrow> Some fs | _ \<Rightarrow> None)"

definition null_or :: "(json option \<Rightarrow> 'a option) \<Rightarrow> json option \<Rightarrow> 'a option option" where
  "null_or f v = (if v = Some JNull then Some None else map_option Some (f v))"

definition one_of :: "('a \<Rightarrow> string) \<Rightarrow> 'a list \<Rightarrow> json option \<Rightarrow> 'a option" where
  "one_of f xs v = (case str_of v of None \<Rightarrow> None | Some s \<Rightarrow> List.find (\<lambda>x. f x = s) xs)"

text \<open>Truth of a value in a condition.\<close>

fun js_true :: "json option \<Rightarrow> bool" where
  "js_true None \<longleftrightarrow> False"
| "js_true (Some JNull) \<longleftrightarrow> False"
| "js_true (Some (JBool b)) \<longleftrightarrow> b"
| "js_true (Some (JNum q)) \<longleftrightarrow> q \<noteq> 0"
| "js_true (Some (JStr s)) \<longleftrightarrow> s \<noteq> []"
| "js_true (Some _) \<longleftrightarrow> True"

lemma nonnegative_pos: "nonnegative q \<Longrightarrow> 0 < q \<longleftrightarrow> q \<noteq> 0"
  by (auto simp: nonnegative_def positive_def)

end
