(* ===== verification/Exec_Durable.thy ===== *)
theory Exec_Durable
  imports Exec_Machine Node_Store Json_Read
begin

text \<open>
  The durable executor of a node, \<open>packages/node/src/runtime/executor.ts\<close>, first part: the snapshot that is kept under
  the state key \<open>executor:v2\<close> of the node store, its validation, and the edits that the handlers make to it.

  The snapshot is a record; \<open>decode\<close> reads it from the stored JSON with the checks of the source and \<open>snapshot_json\<close>
  is the object that is written. Properties that the code neither reads nor writes are not kept by the record.
  An edit returns the new snapshot with the outbound messages, \<open>None\<close> where the code returns \<open>false\<close> and writes
  nothing, or an error where it throws. \<open>seal\<close> is the signer of the node: it turns an outbound message into an
  envelope; new identifiers, the clock and \<open>toISOString\<close> are arguments.
\<close>

section \<open>Data\<close>

definition STATE_KEY :: string where
  "STATE_KEY = ''executor:v2''"

definition EFFECT_KIND :: string where
  "EFFECT_KIND = ''executor.run''"

datatype phase = Ph_prepared | Ph_starting | Ph_running | Ph_stopping | Ph_recovery_required

datatype stop_reason = Sr_cancel | Sr_lease_expired | Sr_shutdown | Sr_execution_interrupted | Sr_driver_start_timeout

fun phase_text :: "phase \<Rightarrow> string" where
  "phase_text Ph_prepared = ''prepared''"
| "phase_text Ph_starting = ''starting''"
| "phase_text Ph_running = ''running''"
| "phase_text Ph_stopping = ''stopping''"
| "phase_text Ph_recovery_required = ''recovery_required''"

fun reason_text :: "stop_reason \<Rightarrow> string" where
  "reason_text Sr_cancel = ''cancel''"
| "reason_text Sr_lease_expired = ''lease_expired''"
| "reason_text Sr_shutdown = ''shutdown''"
| "reason_text Sr_execution_interrupted = ''execution_interrupted''"
| "reason_text Sr_driver_start_timeout = ''driver_start_timeout''"

record progress_ref =
  pg_msg_id :: string
  pg_seq :: number
  pg_sentAt :: number

record durable_run =
  dr_fence :: lease_fence
  dr_phase :: phase
  dr_lead :: string
  dr_offerMsgId :: string
  dr_offer :: body
  dr_mayHaveStarted :: bool
  dr_leaseMs :: number
  dr_leaseDeadline :: number
  dr_heartbeatAt :: number
  dr_seq :: number
  dr_lastRenewalSeq :: number
  dr_progress :: "progress_ref option"
  dr_cancelMsgId :: "string option"
  dr_stopReason :: "stop_reason option"

record run_outcome =
  ro_result :: bool
  ro_body :: body

record last_run =
  la_fence :: lease_fence
  la_lead :: string
  la_outcome :: run_outcome

record exec_snapshot =
  sn_generation :: number
  sn_slot :: "durable_run option"
  sn_last :: "last_run option"

record exec_opts =
  xo_cfg :: node_cfg
  xo_team :: string
  xo_params :: qlong_params
  xo_driver :: bool
  xo_publisher :: bool
  xo_workspace :: bool
  xo_capabilities :: "string list"
  xo_policy :: "(body \<Rightarrow> policy_result) option"

section \<open>Validation\<close>

text \<open>Two fences are the same run when all four fields agree.\<close>

definition same :: "lease_fence \<Rightarrow> lease_fence \<Rightarrow> bool" where
  "same a b \<longleftrightarrow> lf_task_id a = lf_task_id b \<and> lf_attempt a = lf_attempt b \<and>
     lf_generation a = lf_generation b \<and> lf_run_id a = lf_run_id b"

fun protocolJson :: "json \<Rightarrow> nat \<Rightarrow> bool" where
  "protocolJson (JNum q) depth \<longleftrightarrow> depth \<le> 64 \<and> isSafeInteger q"
| "protocolJson (JArr xs) depth \<longleftrightarrow> depth \<le> 64 \<and> list_all (\<lambda>x. protocolJson x (depth + 1)) xs"
| "protocolJson (JObj fs) depth \<longleftrightarrow> depth \<le> 64 \<and> list_all (\<lambda>f. protocolJson (snd f) (depth + 1)) fs"
| "protocolJson _ depth \<longleftrightarrow> depth \<le> 64"

definition supportedKind :: "body \<Rightarrow> bool" where
  "supportedKind b \<longleftrightarrow>
     map_of b ''kind'' = Some (JStr ''aid'') \<or>
     (map_of b ''kind'' = Some (JStr ''project'') \<and>
      (case map_of b ''contract'' of Some (JObj c) \<Rightarrow> arr_of (map_of c ''deliverables'') \<noteq> None | _ \<Rightarrow> False))"

definition all_named :: "json \<Rightarrow> bool" where
  "all_named j = (case j of JArr xs \<Rightarrow> list_all (\<lambda>x. isNonEmptyStr (Some x)) xs | _ \<Rightarrow> False)"

definition supportedOffer :: "body \<Rightarrow> bool" where
  "supportedOffer b \<longleftrightarrow>
     supportedKind b \<and> isNonEmptyStr (map_of b ''summary'') \<and>
     map_of b ''project'' = None \<and> map_of b ''payload_ref'' = None \<and>
     absent_or (\<lambda>j. posSafeInt (Some j)) (map_of b ''lease_ms'') \<and>
     absent_or (\<lambda>j. posSafeInt (Some j)) (map_of b ''offer_ttl_ms'') \<and>
     absent_or (\<lambda>j. j = JArr []) (map_of b ''requires'') \<and>
     absent_or all_named (map_of b ''required_caps'') \<and> protocolJson (JObj b) 0"

definition validOutcome :: "run_outcome \<Rightarrow> bool" where
  "validOutcome oc \<longleftrightarrow> protocolJson (JObj (ro_body oc)) 0"

definition validRun :: "durable_run \<Rightarrow> number \<Rightarrow> bool" where
  "validRun r generation \<longleftrightarrow>
     isLeaseFence (dr_fence r) \<and> lf_generation (dr_fence r) = generation \<and>
     isUuidStr (dr_lead r) \<and> isUuidStr (dr_offerMsgId r) \<and> supportedOffer (dr_offer r) \<and>
     positive (dr_leaseMs r) \<and>
     (case num_of (map_of (dr_offer r) ''lease_ms'') of Some l \<Rightarrow> positive l \<longrightarrow> dr_leaseMs r \<le> l | None \<Rightarrow> True) \<and>
     positive (dr_leaseDeadline r) \<and> positive (dr_heartbeatAt r) \<and>
     nonnegative (dr_seq r) \<and> nonnegative (dr_lastRenewalSeq r) \<and>
     (case dr_cancelMsgId r of None \<Rightarrow> True | Some m \<Rightarrow> isUuidStr m) \<and>
     \<not> (if dr_phase r = Ph_prepared then dr_mayHaveStarted r
        else dr_phase r \<noteq> Ph_stopping \<and> \<not> dr_mayHaveStarted r) \<and>
     \<not> (\<not> dr_mayHaveStarted r \<and> (dr_seq r \<noteq> 0 \<or> dr_lastRenewalSeq r \<noteq> 0)) \<and>
     \<not> (dr_seq r = 0 \<and> dr_lastRenewalSeq r \<noteq> 0) \<and>
     \<not> (0 < dr_seq r \<and> dr_progress r = None \<and> dr_lastRenewalSeq r = 0) \<and>
     \<not> (dr_cancelMsgId r \<noteq> None \<and> dr_stopReason r \<noteq> Some Sr_cancel) \<and>
     \<not> (dr_stopReason r = Some Sr_cancel \<and> dr_cancelMsgId r = None) \<and>
     \<not> (dr_phase r \<in> {Ph_prepared, Ph_starting, Ph_running} \<and> dr_stopReason r \<noteq> None) \<and>
     \<not> (dr_phase r \<in> {Ph_stopping, Ph_recovery_required} \<and> dr_stopReason r = None) \<and>
     (case dr_progress r of
        None \<Rightarrow> True
      | Some p \<Rightarrow> isUuidStr (pg_msg_id p) \<and> positive (pg_seq p) \<and> pg_seq p = dr_seq r \<and> nonnegative (pg_sentAt p) \<and>
          pg_sentAt p < dr_leaseDeadline r \<and> pg_sentAt p < dr_heartbeatAt r)"

section \<open>Reading and writing the snapshot\<close>

definition fence_json :: "lease_fence \<Rightarrow> json" where
  "fence_json f = JObj [(''task_id'', JStr (lf_task_id f)), (''attempt'', JNum (lf_attempt f)),
     (''generation'', JNum (lf_generation f)), (''run_id'', JStr (lf_run_id f))]"

definition progress_json :: "progress_ref \<Rightarrow> json" where
  "progress_json p = JObj [(''msg_id'', JStr (pg_msg_id p)), (''seq'', JNum (pg_seq p)), (''sentAt'', JNum (pg_sentAt p))]"

definition run_json :: "durable_run \<Rightarrow> json" where
  "run_json r = JObj [
     (''fence'', fence_json (dr_fence r)), (''phase'', JStr (phase_text (dr_phase r))), (''lead'', JStr (dr_lead r)),
     (''offerMsgId'', JStr (dr_offerMsgId r)), (''offer'', JObj (dr_offer r)), (''mayHaveStarted'', JBool (dr_mayHaveStarted r)),
     (''leaseMs'', JNum (dr_leaseMs r)), (''leaseDeadline'', JNum (dr_leaseDeadline r)), (''heartbeatAt'', JNum (dr_heartbeatAt r)),
     (''seq'', JNum (dr_seq r)), (''lastRenewalSeq'', JNum (dr_lastRenewalSeq r)), (''progress'', nullable progress_json (dr_progress r)),
     (''cancelMsgId'', nullable JStr (dr_cancelMsgId r)), (''stopReason'', nullable (\<lambda>x. JStr (reason_text x)) (dr_stopReason r))]"

definition outcome_json :: "run_outcome \<Rightarrow> json" where
  "outcome_json oc = JObj [(''kind'', JStr (if ro_result oc then ''result'' else ''failed'')), (''body'', JObj (ro_body oc))]"

definition last_json :: "last_run \<Rightarrow> json" where
  "last_json l = JObj [(''fence'', fence_json (la_fence l)), (''lead'', JStr (la_lead l)), (''outcome'', outcome_json (la_outcome l))]"

definition snapshot_json :: "exec_opts \<Rightarrow> exec_snapshot \<Rightarrow> json" where
  "snapshot_json xo s = JObj [
     (''version'', JNum 2), (''nodeId'', JStr (nc_node (xo_cfg xo))), (''teamId'', JStr (xo_team xo)),
     (''generation'', JNum (sn_generation s)), (''slot'', nullable run_json (sn_slot s)), (''last'', nullable last_json (sn_last s))]"

definition read_fence :: "json option \<Rightarrow> lease_fence option" where
  "read_fence v =
     Option.bind (obj_of v) (\<lambda>f.
     Option.bind (str_of (map_of f ''task_id'')) (\<lambda>task.
     Option.bind (num_of (map_of f ''attempt'')) (\<lambda>attempt.
     Option.bind (num_of (map_of f ''generation'')) (\<lambda>generation.
     Option.bind (str_of (map_of f ''run_id'')) (\<lambda>run.
       Some \<lparr>lf_task_id = task, lf_attempt = attempt, lf_generation = generation, lf_run_id = run\<rparr>)))))"

definition read_progress :: "json option \<Rightarrow> progress_ref option" where
  "read_progress v =
     Option.bind (obj_of v) (\<lambda>f.
     Option.bind (str_of (map_of f ''msg_id'')) (\<lambda>m.
     Option.bind (num_of (map_of f ''seq'')) (\<lambda>n.
     Option.bind (num_of (map_of f ''sentAt'')) (\<lambda>t.
       Some \<lparr>pg_msg_id = m, pg_seq = n, pg_sentAt = t\<rparr>))))"

definition read_run :: "json option \<Rightarrow> durable_run option" where
  "read_run v =
     Option.bind (obj_of v) (\<lambda>f.
     Option.bind (read_fence (map_of f ''fence'')) (\<lambda>fence.
     Option.bind (one_of phase_text [Ph_prepared, Ph_starting, Ph_running, Ph_stopping, Ph_recovery_required] (map_of f ''phase'')) (\<lambda>phase.
     Option.bind (str_of (map_of f ''lead'')) (\<lambda>lead.
     Option.bind (str_of (map_of f ''offerMsgId'')) (\<lambda>offerMsgId.
     Option.bind (obj_of (map_of f ''offer'')) (\<lambda>offer.
     Option.bind (bool_of (map_of f ''mayHaveStarted'')) (\<lambda>mayHaveStarted.
     Option.bind (num_of (map_of f ''leaseMs'')) (\<lambda>leaseMs.
     Option.bind (num_of (map_of f ''leaseDeadline'')) (\<lambda>leaseDeadline.
     Option.bind (num_of (map_of f ''heartbeatAt'')) (\<lambda>heartbeatAt.
     Option.bind (num_of (map_of f ''seq'')) (\<lambda>seq.
     Option.bind (num_of (map_of f ''lastRenewalSeq'')) (\<lambda>lastRenewalSeq.
     Option.bind (null_or read_progress (map_of f ''progress'')) (\<lambda>progress.
     Option.bind (null_or str_of (map_of f ''cancelMsgId'')) (\<lambda>cancelMsgId.
     Option.bind (null_or (one_of reason_text [Sr_cancel, Sr_lease_expired, Sr_shutdown, Sr_execution_interrupted,
       Sr_driver_start_timeout]) (map_of f ''stopReason'')) (\<lambda>stopReason.
       Some \<lparr>dr_fence = fence, dr_phase = phase, dr_lead = lead, dr_offerMsgId = offerMsgId, dr_offer = offer,
         dr_mayHaveStarted = mayHaveStarted, dr_leaseMs = leaseMs, dr_leaseDeadline = leaseDeadline, dr_heartbeatAt = heartbeatAt,
         dr_seq = seq, dr_lastRenewalSeq = lastRenewalSeq, dr_progress = progress, dr_cancelMsgId = cancelMsgId,
         dr_stopReason = stopReason\<rparr>)))))))))))))))"

definition read_outcome :: "json option \<Rightarrow> run_outcome option" where
  "read_outcome v =
     Option.bind (obj_of v) (\<lambda>f.
     Option.bind (obj_of (map_of f ''body'')) (\<lambda>b.
       if map_of f ''kind'' = Some (JStr ''result'') then Some \<lparr>ro_result = True, ro_body = b\<rparr>
       else if map_of f ''kind'' = Some (JStr ''failed'') then Some \<lparr>ro_result = False, ro_body = b\<rparr>
       else None))"

definition read_last :: "json option \<Rightarrow> last_run option" where
  "read_last v =
     Option.bind (obj_of v) (\<lambda>f.
     Option.bind (read_fence (map_of f ''fence'')) (\<lambda>fence.
     Option.bind (str_of (map_of f ''lead'')) (\<lambda>lead.
     Option.bind (read_outcome (map_of f ''outcome'')) (\<lambda>oc.
       Some \<lparr>la_fence = fence, la_lead = lead, la_outcome = oc\<rparr>))))"

text \<open>The conditions of \<open>decode\<close> on the parts that have been read.\<close>

definition validSnapshot :: "exec_snapshot \<Rightarrow> bool" where
  "validSnapshot s \<longleftrightarrow>
     nonnegative (sn_generation s) \<and>
     (case sn_slot s of None \<Rightarrow> True | Some r \<Rightarrow> validRun r (sn_generation s)) \<and>
     (case sn_last s of
        Some l \<Rightarrow> isLeaseFence (la_fence l) \<and> isUuidStr (la_lead l) \<and> validOutcome (la_outcome l) \<and>
          lf_generation (la_fence l) = sn_generation s - (if sn_slot s = None then 0 else 1)
      | None \<Rightarrow> sn_generation s = (if sn_slot s = None then 0 else 1))"

definition decode_value :: "exec_opts \<Rightarrow> json \<Rightarrow> exec_snapshot option" where
  "decode_value xo v =
     Option.bind (obj_of (Some v)) (\<lambda>f.
       if map_of f ''version'' \<noteq> Some (JNum 2) \<or> map_of f ''nodeId'' \<noteq> Some (JStr (nc_node (xo_cfg xo))) \<or>
          map_of f ''teamId'' \<noteq> Some (JStr (xo_team xo))
       then None
       else
         Option.bind (num_of (map_of f ''generation'')) (\<lambda>generation.
         Option.bind (null_or read_run (map_of f ''slot'')) (\<lambda>slot.
         Option.bind (null_or read_last (map_of f ''last'')) (\<lambda>last.
           (let s = \<lparr>sn_generation = generation, sn_slot = slot, sn_last = last\<rparr> in
            if validSnapshot s then Some s else None)))))"

definition no_runs :: exec_snapshot where
  "no_runs = \<lparr>sn_generation = 0, sn_slot = None, sn_last = None\<rparr>"

definition decode :: "exec_opts \<Rightarrow> rt_state option \<Rightarrow> exec_snapshot option" where
  "decode xo row = (case row of None \<Rightarrow> Some no_runs | Some st \<Rightarrow> decode_value xo (rs_value st))"

section \<open>Messages\<close>

datatype exec_error =
    Xe_invalid_state | Xe_exhausted | Xe_bad_time | Xe_faulted | Xe_fence_mismatch | Xe_closure_unconfirmed | Xe_store rt_error

definition outbound_for :: "string \<Rightarrow> string \<Rightarrow> string option \<Rightarrow> nat option \<Rightarrow> string \<Rightarrow> body \<Rightarrow> outbound" where
  "outbound_for type to task att replyTo b =
     \<lparr>ob_type = type, ob_to_node = to, ob_task_id = task, ob_attempt = att, ob_reply_to = Some replyTo, ob_body = b\<rparr>"

definition attempt_nat :: "lease_fence \<Rightarrow> nat" where
  "attempt_nat f = nat \<lfloor>lf_attempt f\<rfloor>"

definition run_message :: "durable_run \<Rightarrow> string \<Rightarrow> body \<Rightarrow> string \<Rightarrow> outbound" where
  "run_message r type b replyTo =
     outbound_for type (dr_lead r) (Some (lf_task_id (dr_fence r))) (Some (attempt_nat (dr_fence r))) replyTo
       (spread b [(''generation'', JNum (lf_generation (dr_fence r))), (''run_id'', JStr (lf_run_id (dr_fence r)))])"

definition failed :: "string \<Rightarrow> run_outcome" where
  "failed reason = \<lparr>ro_result = False,
     ro_body = [(''reason_code'', JStr ''other''), (''retryable'', JBool False), (''summary'', JStr reason)]\<rparr>"

text \<open>A third of the lease, at least one millisecond.\<close>

definition beat :: "number \<Rightarrow> number" where
  "beat leaseMs = max 1 (of_int \<lfloor>leaseMs / 3\<rfloor>)"

section \<open>Offers\<close>

text \<open>\<open>value ?? default\<close>.\<close>

definition coalesce :: "json option \<Rightarrow> number \<Rightarrow> number option" where
  "coalesce v d = (case v of None \<Rightarrow> Some d | Some JNull \<Rightarrow> Some d | Some (JNum q) \<Rightarrow> Some q | Some _ \<Rightarrow> None)"

definition pos_opt :: "number option \<Rightarrow> bool" where
  "pos_opt v = (case v of None \<Rightarrow> False | Some q \<Rightarrow> positive q)"

definition caps_of :: "json option \<Rightarrow> string list" where
  "caps_of v = (case arr_of v of None \<Rightarrow> [] | Some xs \<Rightarrow> map (\<lambda>x. case x of JStr s \<Rightarrow> s | _ \<Rightarrow> []) xs)"

definition expired_offer :: "date_parser \<Rightarrow> json \<Rightarrow> number \<Rightarrow> number option \<Rightarrow> number option \<Rightarrow> bool" where
  "expired_offer parse env now ttl lease \<longleftrightarrow>
     \<not> pos_opt ttl \<or> \<not> pos_opt lease \<or> \<not> isSafeInteger (now + the lease) \<or>
     (case parse (str_or (obj_get env ''ts'')) of None \<Rightarrow> True | Some ts \<Rightarrow> ts + the ttl \<le> now)"

text \<open>The reason of a rejection, in the order of the source.\<close>

definition offer_reason ::
  "exec_opts \<Rightarrow> bool \<Rightarrow> exec_snapshot \<Rightarrow> json \<Rightarrow> number \<Rightarrow> string option \<Rightarrow> string option" where
  "offer_reason xo open_for s env now denied =
     (let e = envelopeOf env; b = e_body e;
          ttl = coalesce (map_of b ''offer_ttl_ms'') (offerTtlMsAid (xo_params xo));
          lease = coalesce (map_of b ''lease_ms'') (leaseMsAid (xo_params xo)) in
      if denied \<noteq> None then denied
      else if \<not> open_for \<or> sn_slot s \<noteq> None then Some ''busy''
      else if \<not> xo_driver xo \<or> map_of b ''project'' \<noteq> None \<or> map_of b ''payload_ref'' \<noteq> None \<or>
              \<not> isUuidStr (case e_task_id e of Some t \<Rightarrow> t | None \<Rightarrow> []) \<or>
              \<not> pos_opt (map_option of_nat (e_attempt e)) \<or>
              \<not> absent_or (\<lambda>j. j = JArr []) (map_of b ''requires'') \<or>
              (map_of b ''kind'' \<noteq> Some (JStr ''aid'') \<and> \<not> (map_of b ''kind'' = Some (JStr ''project'') \<and> xo_publisher xo))
      then Some ''policy_denied''
      else if expired_offer (cd_parse (nc_codec (xo_cfg xo))) env now ttl lease then Some ''expired''
      else if \<not> g_ok (gatePolicy (xo_policy xo) b) then Some ''policy_denied''
      else if \<not> absent_or all_named (map_of b ''required_caps'') \<or>
              \<not> g_ok (gateCaps (caps_of (map_of b ''required_caps'')) (xo_capabilities xo))
      then Some ''unsupported_caps''
      else if \<not> supportedOffer b then Some ''policy_denied''
      else (case sn_last s of
              Some l \<Rightarrow> if e_task_id e = Some (lf_task_id (la_fence l)) \<and> of_nat (the (e_attempt e)) \<le> lf_attempt (la_fence l)
                        then Some ''stale_attempt'' else None
            | None \<Rightarrow> None))"

definition reject_offer :: "json \<Rightarrow> string \<Rightarrow> outbound" where
  "reject_offer env reason =
     (let e = envelopeOf env in
      outbound_for ''task.reject'' (e_from_node e) (e_task_id e) (e_attempt e) (e_msg_id e)
        [(''reason_code'', JStr reason), (''retryable'', JBool (reason = ''busy'' \<or> reason = ''expired''))])"

text \<open>The run of an accepted offer; \<open>newId\<close> is the fresh run id.\<close>

definition prepared_run :: "exec_opts \<Rightarrow> json \<Rightarrow> number \<Rightarrow> string \<Rightarrow> number \<Rightarrow> durable_run" where
  "prepared_run xo env now newId generation =
     (let e = envelopeOf env; b = e_body e;
          leaseMs = min (the (coalesce (map_of b ''lease_ms'') (leaseMsAid (xo_params xo)))) (leaseMsAid (xo_params xo)) in
      \<lparr>dr_fence = \<lparr>lf_task_id = the (e_task_id e), lf_attempt = of_nat (the (e_attempt e)), lf_generation = generation, lf_run_id = newId\<rparr>,
       dr_phase = Ph_prepared, dr_lead = e_from_node e, dr_offerMsgId = e_msg_id e, dr_offer = b, dr_mayHaveStarted = False,
       dr_leaseMs = leaseMs, dr_leaseDeadline = now + leaseMs, dr_heartbeatAt = now + beat leaseMs, dr_seq = 0, dr_lastRenewalSeq = 0,
       dr_progress = None, dr_cancelMsgId = None, dr_stopReason = None\<rparr>)"

type_synonym edit = "exec_snapshot \<times> json list"

definition dx_offer ::
  "exec_opts \<Rightarrow> bool \<Rightarrow> (outbound \<Rightarrow> json) \<Rightarrow> string \<Rightarrow> string \<Rightarrow> exec_snapshot \<Rightarrow> json \<Rightarrow> number \<Rightarrow> string option
     \<Rightarrow> exec_error + edit \<times> json list" where
  "dx_offer xo open_for seal newId startedAt s env now denied =
     (case offer_reason xo open_for s env now denied of
        Some reason \<Rightarrow> Inr ((s, [seal (reject_offer env reason)]), [])
      | None \<Rightarrow>
          if \<not> isSafeInteger (sn_generation s + 1) then Inl Xe_exhausted
          else
            (let r = prepared_run xo env now newId (sn_generation s + 1) in
             Inr ((s\<lparr>sn_generation := sn_generation s + 1, sn_slot := Some r\<rparr>,
                   [seal (run_message r ''task.accept'' [(''lease_ms'', JNum (dr_leaseMs r)), (''started_at'', JStr startedAt)] (dr_offerMsgId r))]),
                  [JObj [(''id'', JStr newId), (''kind'', JStr EFFECT_KIND), (''payload'', fence_json (dr_fence r))]])))"

section \<open>Cancellation and lease renewal\<close>

definition names_run :: "json \<Rightarrow> string \<Rightarrow> lease_fence \<Rightarrow> bool" where
  "names_run env lead f \<longleftrightarrow>
     (let e = envelopeOf env in
      e_from_node e = lead \<and> e_task_id e = Some (lf_task_id f) \<and> map_option of_nat (e_attempt e) = Some (lf_attempt f))"

text \<open>A cancel that names a generation or a run must name this one.\<close>

definition fence_named :: "body \<Rightarrow> lease_fence \<Rightarrow> bool" where
  "fence_named b f \<longleftrightarrow>
     absent_or (\<lambda>j. j = JNum (lf_generation f)) (map_of b ''generation'') \<and>
     absent_or (\<lambda>j. j = JStr (lf_run_id f)) (map_of b ''run_id'')"

definition renewal_of :: "body \<Rightarrow> durable_run \<Rightarrow> progress_ref \<Rightarrow> number \<Rightarrow> renewal_input" where
  "renewal_of b r p now =
     \<lparr>ri_body = b, ri_fence = dr_fence r, ri_progressMsgId = pg_msg_id p, ri_progressSeq = pg_seq p,
      ri_lastRenewalSeq = dr_lastRenewalSeq r, ri_now = now, ri_maxLeaseMs = dr_leaseMs r,
      ri_currentDeadlineMs = dr_leaseDeadline r\<rparr>"

definition renews :: "body \<Rightarrow> durable_run \<Rightarrow> number \<Rightarrow> bool" where
  "renews b r now \<longleftrightarrow>
     (dr_phase r = Ph_running \<or> dr_phase r = Ph_starting) \<and>
     (case dr_progress r of
        None \<Rightarrow> False
      | Some p \<Rightarrow>
          posSafeInt (map_of b ''deadline_ms'') \<and> dr_leaseDeadline r < the (num_of (map_of b ''deadline_ms'')) \<and>
          canApplyLeaseRenewal (renewal_of b r p now))"

definition late_cancel_ack :: "json \<Rightarrow> last_run \<Rightarrow> outbound" where
  "late_cancel_ack env l =
     (let e = envelopeOf env in
      outbound_for ''task.cancel.ack'' (la_lead l) (e_task_id e) (e_attempt e) (e_msg_id e)
        (case fence_json (la_fence l) of
           JObj f \<Rightarrow> spread f [(''completed_before_cancel'', JBool (ro_result (la_outcome l)))] | _ \<Rightarrow> []))"

definition control :: "(outbound \<Rightarrow> json) \<Rightarrow> exec_snapshot \<Rightarrow> json \<Rightarrow> number \<Rightarrow> edit" where
  "control seal s env now =
     (let e = envelopeOf env; b = e_body e in
      (case sn_slot s of
         None \<Rightarrow>
           (case sn_last s of
              Some l \<Rightarrow>
                if e_type e = ''task.cancel'' \<and> names_run env (la_lead l) (la_fence l)
                then (s, [seal (late_cancel_ack env l)]) else (s, [])
            | None \<Rightarrow> (s, []))
       | Some r \<Rightarrow>
           if \<not> names_run env (dr_lead r) (dr_fence r) then (s, [])
           else if e_type e = ''task.cancel'' then
             (if \<not> fence_named b (dr_fence r) then (s, [])
              else (s\<lparr>sn_slot := Some (r\<lparr>dr_cancelMsgId := Some (e_msg_id e), dr_stopReason := Some Sr_cancel,
                      dr_phase := (if dr_phase r = Ph_recovery_required then Ph_recovery_required else Ph_stopping)\<rparr>)\<rparr>, []))
           else if e_type e = ''task.lease.renew'' \<and> renews b r now then
             (s\<lparr>sn_slot := Some (r\<lparr>dr_lastRenewalSeq := the (num_of (map_of b ''renewal_seq'')),
                dr_leaseDeadline := the (num_of (map_of b ''deadline_ms'')), dr_progress := None\<rparr>)\<rparr>, [])
           else (s, [])))"

section \<open>Time\<close>

text \<open>\<open>msgId\<close> is the id that \<open>seal\<close> gave the progress message.\<close>

definition tick_edit :: "(outbound \<Rightarrow> json) \<Rightarrow> number \<Rightarrow> exec_snapshot \<Rightarrow> exec_error + edit option" where
  "tick_edit seal now s =
     (case sn_slot s of
        None \<Rightarrow> Inr None
      | Some r \<Rightarrow>
          if dr_phase r = Ph_stopping \<or> dr_phase r = Ph_recovery_required then Inr None
          else if dr_leaseDeadline r \<le> now then
            Inr (Some (s\<lparr>sn_slot := Some (r\<lparr>dr_phase := Ph_stopping, dr_stopReason := Some Sr_lease_expired\<rparr>)\<rparr>, []))
          else if (dr_phase r \<noteq> Ph_running \<and> dr_phase r \<noteq> Ph_starting) \<or> now < dr_heartbeatAt r then Inr None
          else if \<not> isSafeInteger (dr_seq r + 1) \<or> \<not> isSafeInteger (now + beat (dr_leaseMs r)) then Inl Xe_exhausted
          else
            (let seq = dr_seq r + 1;
                 progress = seal (run_message r ''task.progress''
                   [(''seq'', JNum seq), (''state'', JStr (if dr_phase r = Ph_starting then ''starting'' else ''working''))] (dr_offerMsgId r)) in
             Inr (Some (s\<lparr>sn_slot := Some (r\<lparr>dr_seq := seq,
               dr_progress := Some \<lparr>pg_msg_id = e_msg_id (envelopeOf progress), pg_seq = seq, pg_sentAt = now\<rparr>,
               dr_heartbeatAt := now + beat (dr_leaseMs r)\<rparr>)\<rparr>, [progress]))))"

section \<open>The end of a run\<close>

definition terminal_message :: "durable_run \<Rightarrow> run_outcome \<Rightarrow> outbound" where
  "terminal_message r final =
     (case dr_cancelMsgId r of
        Some m \<Rightarrow> run_message r ''task.cancel.ack'' [(''completed_before_cancel'', JBool False)] m
      | None \<Rightarrow> run_message r (if ro_result final then ''task.result'' else ''task.fail'') (ro_body final) (dr_offerMsgId r))"

definition finish_edit :: "(outbound \<Rightarrow> json) \<Rightarrow> lease_fence \<Rightarrow> run_outcome \<Rightarrow> exec_snapshot \<Rightarrow> edit option" where
  "finish_edit seal fence oc s =
     (case sn_slot s of
        None \<Rightarrow> None
      | Some r \<Rightarrow>
          if \<not> same (dr_fence r) fence then None
          else
            (let final = (case dr_stopReason r of Some x \<Rightarrow> failed (reason_text x) | None \<Rightarrow> oc) in
             Some (s\<lparr>sn_last := Some \<lparr>la_fence = fence, la_lead = dr_lead r, la_outcome = final\<rparr>, sn_slot := None\<rparr>,
                   [seal (terminal_message r final)])))"

definition unknown_edit :: "lease_fence \<Rightarrow> stop_reason \<Rightarrow> exec_snapshot \<Rightarrow> edit option" where
  "unknown_edit fence reason s =
     (case sn_slot s of
        None \<Rightarrow> None
      | Some r \<Rightarrow>
          if \<not> same (dr_fence r) fence then None
          else Some (s\<lparr>sn_slot := Some (r\<lparr>dr_phase := Ph_recovery_required,
                       dr_stopReason := (case dr_stopReason r of None \<Rightarrow> Some reason | Some x \<Rightarrow> Some x)\<rparr>)\<rparr>, []))"

text \<open>The two commits of a start: before the driver is invoked, and after it returned a handle.\<close>

definition starting_edit :: "lease_fence \<Rightarrow> exec_snapshot \<Rightarrow> edit option" where
  "starting_edit fence s =
     (case sn_slot s of
        None \<Rightarrow> None
      | Some r \<Rightarrow>
          if \<not> same (dr_fence r) fence \<or> dr_phase r \<noteq> Ph_prepared then None
          else Some (s\<lparr>sn_slot := Some (r\<lparr>dr_phase := Ph_starting, dr_mayHaveStarted := True\<rparr>)\<rparr>, []))"

definition started_edit :: "lease_fence \<Rightarrow> exec_snapshot \<Rightarrow> edit option" where
  "started_edit fence s =
     (case sn_slot s of
        None \<Rightarrow> None
      | Some r \<Rightarrow>
          if \<not> same (dr_fence r) fence \<or> dr_phase r \<noteq> Ph_starting then None
          else Some (s\<lparr>sn_slot := Some (r\<lparr>dr_phase := Ph_running\<rparr>)\<rparr>, []))"

definition close_edit :: "exec_snapshot \<Rightarrow> edit option" where
  "close_edit s =
     (case sn_slot s of
        None \<Rightarrow> None
      | Some r \<Rightarrow>
          if dr_phase r = Ph_recovery_required then None
          else Some (s\<lparr>sn_slot := Some (r\<lparr>dr_phase := Ph_stopping,
                       dr_stopReason := (case dr_stopReason r of None \<Rightarrow> Some Sr_shutdown | Some x \<Rightarrow> Some x)\<rparr>)\<rparr>, []))"

end
