(* ===== verification/Host_Procs.thy ===== *)
theory Host_Procs
  imports Main
begin

text \<open>
  Procedures of the hosts of the node: they run on the state of a host, may throw, and keep what they changed when
  they do, as code between two awaits does. A triple \<open>hoare P m Q E\<close> says that from a state with \<open>P\<close> the procedure ends
  with \<open>Q\<close> for its result or, when it throws, with \<open>E\<close>.
\<close>

section \<open>Procedures that may throw\<close>

type_synonym ('h, 'e, 'a) procedure = "'h \<Rightarrow> 'h \<times> ('e + 'a)"

definition ret :: "'a \<Rightarrow> ('h, 'e, 'a) procedure" where
  "ret x h = (h, Inr x)"

definition throw :: "'e \<Rightarrow> ('h, 'e, 'a) procedure" where
  "throw e h = (h, Inl e)"

definition seq :: "('h, 'e, 'a) procedure \<Rightarrow> ('a \<Rightarrow> ('h, 'e, 'b) procedure) \<Rightarrow> ('h, 'e, 'b) procedure" where
  "seq m f h = (case m h of (h1, Inl e) \<Rightarrow> (h1, Inl e) | (h1, Inr x) \<Rightarrow> f x h1)"

definition ask :: "('h \<Rightarrow> 'a) \<Rightarrow> ('h, 'e, 'a) procedure" where
  "ask f h = (h, Inr (f h))"

definition upd :: "('h \<Rightarrow> 'h) \<Rightarrow> ('h, 'e, unit) procedure" where
  "upd f h = (f h, Inr ())"

definition on :: "bool \<Rightarrow> ('h, 'e, unit) procedure \<Rightarrow> ('h, 'e, unit) procedure" where
  "on b m = (if b then m else ret ())"

definition lift :: "'e + 'a \<Rightarrow> ('h, 'e, 'a) procedure" where
  "lift r h = (h, r)"

definition catching :: "('h, 'e, 'a) procedure \<Rightarrow> ('e \<Rightarrow> ('h, 'e, 'a) procedure) \<Rightarrow> ('h, 'e, 'a) procedure" where
  "catching m k h = (case m h of (h1, Inl e) \<Rightarrow> k e h1 | (h1, Inr x) \<Rightarrow> (h1, Inr x))"

section \<open>Triples\<close>

definition hoare :: "('h \<Rightarrow> bool) \<Rightarrow> ('h, 'e, 'a) procedure \<Rightarrow> ('a \<Rightarrow> 'h \<Rightarrow> bool) \<Rightarrow> ('h \<Rightarrow> bool) \<Rightarrow> bool" where
  "hoare P m Q E \<longleftrightarrow> (\<forall>h. P h \<longrightarrow> (case m h of (h1, Inl e) \<Rightarrow> E h1 | (h1, Inr x) \<Rightarrow> Q x h1))"

named_theorems hoare_rules

lemma hoareI: "(\<And>h h1 x. P h \<Longrightarrow> m h = (h1, Inr x) \<Longrightarrow> Q x h1) \<Longrightarrow> (\<And>h h1 e. P h \<Longrightarrow> m h = (h1, Inl e) \<Longrightarrow> E h1) \<Longrightarrow> hoare P m Q E"
  by (auto simp: hoare_def split: prod.splits sum.splits)

lemma hoareD: "hoare P m Q E \<Longrightarrow> P h \<Longrightarrow> m h = (h1, Inr x) \<Longrightarrow> Q x h1" "hoare P m Q E \<Longrightarrow> P h \<Longrightarrow> m h = (h1, Inl e) \<Longrightarrow> E h1"
  by (auto simp: hoare_def)

lemma hoare_conseq:
  "hoare P1 m Q1 E1 \<Longrightarrow> (\<And>h. P h \<Longrightarrow> P1 h) \<Longrightarrow> (\<And>x h. Q1 x h \<Longrightarrow> Q x h) \<Longrightarrow> (\<And>h. E1 h \<Longrightarrow> E h) \<Longrightarrow> hoare P m Q E"
  unfolding hoare_def by (fastforce split: prod.splits sum.splits)

lemma hoare_pre: "hoare P1 m Q E \<Longrightarrow> (\<And>h. P h \<Longrightarrow> P1 h) \<Longrightarrow> hoare P m Q E"
  by (rule hoare_conseq)

lemma hoare_seq: "hoare P m R E \<Longrightarrow> (\<And>x. hoare (R x) (f x) Q E) \<Longrightarrow> hoare P (seq m f) Q E"
  unfolding hoare_def seq_def by (fastforce split: prod.splits sum.splits)

lemma hoare_ret [hoare_rules]: "(\<And>h. P h \<Longrightarrow> Q x h) \<Longrightarrow> hoare P (ret x) Q E"
  by (simp add: hoare_def ret_def)

lemma hoare_throw [hoare_rules]: "(\<And>h. P h \<Longrightarrow> E h) \<Longrightarrow> hoare P (throw e) Q E"
  by (simp add: hoare_def throw_def)

lemma hoare_ask [hoare_rules]: "(\<And>h. P h \<Longrightarrow> Q (f h) h) \<Longrightarrow> hoare P (ask f) Q E"
  by (simp add: hoare_def ask_def)

lemma hoare_upd [hoare_rules]: "(\<And>h. P h \<Longrightarrow> Q () (f h)) \<Longrightarrow> hoare P (upd f) Q E"
  by (simp add: hoare_def upd_def)

lemma hoare_lift [hoare_rules]: "(\<And>h x. P h \<Longrightarrow> r = Inr x \<Longrightarrow> Q x h) \<Longrightarrow> (\<And>h. P h \<Longrightarrow> E h) \<Longrightarrow> hoare P (lift r) Q E"
  by (auto simp: hoare_def lift_def split: sum.splits)

lemma hoare_on [hoare_rules]: "(b \<Longrightarrow> hoare P m Q E) \<Longrightarrow> (\<And>h. \<not> b \<Longrightarrow> P h \<Longrightarrow> Q () h) \<Longrightarrow> hoare P (on b m) Q E"
  by (simp add: on_def hoare_ret)

lemma hoare_catching: "hoare P m Q R \<Longrightarrow> (\<And>e. hoare R (k e) Q E) \<Longrightarrow> hoare P (catching m k) Q E"
  unfolding hoare_def catching_def by (fastforce split: prod.splits sum.splits)

lemma hoare_if: "(b \<Longrightarrow> hoare P m Q E) \<Longrightarrow> (\<not> b \<Longrightarrow> hoare P m1 Q E) \<Longrightarrow> hoare P (if b then m else m1) Q E"
  by simp

lemma hoare_fact: "(\<And>h. P h \<Longrightarrow> F) \<Longrightarrow> (F \<Longrightarrow> hoare P m Q E) \<Longrightarrow> hoare P m Q E"
  by (auto simp: hoare_def)

section \<open>Frames\<close>

text \<open>What a procedure does to the host, however it ends.\<close>

definition keeps :: "('h \<Rightarrow> 'h \<Rightarrow> bool) \<Rightarrow> ('h, 'e, 'a) procedure \<Rightarrow> bool" where
  "keeps R m \<longleftrightarrow> (\<forall>h. R h (fst (m h)))"

lemma keepsD: "keeps R m \<Longrightarrow> m h = (h1, r) \<Longrightarrow> R h h1"
  unfolding keeps_def by (metis fst_conv)

text \<open>A relation that is reflexive and transitive is kept by whatever is made of parts that keep it.\<close>

locale host_frame =
  fixes R :: "'h \<Rightarrow> 'h \<Rightarrow> bool"
  assumes frame_refl: "R h h"
    and frame_trans: "R h h1 \<Longrightarrow> R h1 h2 \<Longrightarrow> R h h2"
begin

lemma keeps_seq: "keeps R m \<Longrightarrow> (\<And>x. keeps R (f x)) \<Longrightarrow> keeps R (seq m f)"
proof (unfold keeps_def, rule allI)
  fix h
  assume m: "\<forall>h. R h (fst (m h))" and f: "\<And>x. \<forall>h. R h (fst (f x h))"
  obtain h1 r where e: "m h = (h1, r)" by fastforce
  with m have "R h h1" by (metis fst_conv)
  with e f show "R h (fst (seq m f h))" by (cases r) (auto simp: seq_def intro: frame_trans)
qed

lemma keeps_catching: "keeps R m \<Longrightarrow> (\<And>e. keeps R (k e)) \<Longrightarrow> keeps R (catching m k)"
proof (unfold keeps_def, rule allI)
  fix h
  assume m: "\<forall>h. R h (fst (m h))" and k: "\<And>e. \<forall>h. R h (fst (k e h))"
  obtain h1 r where e: "m h = (h1, r)" by fastforce
  with m have "R h h1" by (metis fst_conv)
  with e k show "R h (fst (catching m k h))" by (cases r) (auto simp: catching_def intro: frame_trans)
qed

lemma keeps_basic:
  "keeps R (ret x)" "keeps R (throw e)" "keeps R (ask f)" "keeps R (lift r)"
  "(\<And>h. R h (g h)) \<Longrightarrow> keeps R (upd g)"
  by (simp_all add: keeps_def ret_def throw_def ask_def lift_def upd_def frame_refl)

lemma keeps_on: "(b \<Longrightarrow> keeps R m) \<Longrightarrow> keeps R (on b m)"
  by (simp add: on_def keeps_basic)

end

end
