(* ===== verification/Exec_Host.thy ===== *)
theory Exec_Host
  imports Exec_Durable Host_Procs
begin

text \<open>
  The durable executor, second part: class \<open>DurableExecutor\<close> of \<open>packages/node/src/runtime/executor.ts\<close> as a system of
  interleaved steps over the node store.

  The class is asynchronous. Every \<open>await\<close> is a point where other calls can run, so an \<open>async\<close> method is cut at
  its awaits: the state holds where \<open>settle\<close>, \<open>recover\<close> and the late starts stand with the values they captured, and
  one event resumes one of them up to its next await. Code between two awaits is a procedure that may throw.
  The driver, the workspace and the publisher are the environment: an event says what one of them answers, and the
  log records every call of the driver and every proof that a run is quiescent. Each store call asks the oracle \<open>io_pf\<close>
  what the platform does. A crash keeps the database and nothing else.

  \<open>onFault\<close> is a notification; it does not call back into the executor.
\<close>

section \<open>State\<close>

text \<open>The promise that \<open>quiesce\<close> keeps for a handle: not asked, waiting, bounded wait over, settled.\<close>

datatype quiet = Q_none | Q_waiting | Q_lapsed | Q_failed | Q_done run_outcome

text \<open>
  \<open>lv_own\<close>: the handle has the fence it was started with. \<open>lv_closed\<close> is the closed promise: pending, rejected or
  fulfilled with an invalid outcome (\<open>closedFault\<close>), or fulfilled.
\<close>

record live_run =
  lv_fence :: lease_fence
  lv_own :: bool
  lv_closed :: "run_outcome option option"
  lv_outcome :: "run_outcome option"
  lv_quiet :: quiet

text \<open>
  Where \<open>settle\<close> stands, with the number of the pass: in \<open>recover\<close>, between passes, in \<open>workspace.prepare\<close>, before
  and after the invocation of \<open>driver.start\<close>, in \<open>quiesce\<close>, in \<open>publisher.publish\<close>, in \<open>workspace.release\<close>.
\<close>

datatype settle_pc =
    Sp_recover
  | Sp_loop nat
  | Sp_prepare nat durable_run
  | Sp_invoke nat durable_run
  | Sp_start nat durable_run
  | Sp_fault_stop nat
  | Sp_stop nat durable_run nat
  | Sp_publish nat lease_fence run_outcome
  | Sp_release nat

datatype recover_pc = Rp_driver lease_fence | Rp_release

datatype late_pc =
    Lp_wait durable_run
  | Lp_stop durable_run nat
  | Lp_publish lease_fence run_outcome
  | Lp_release

text \<open>Calls of the driver, and the facts that prove a run quiescent.\<close>

datatype ex_label =
    L_start lease_fence
  | L_stop lease_fence
  | L_recover lease_fence
  | L_quiet lease_fence

record ex_host =
  eh_store :: "node_db store"
  eh_calls :: nat
  eh_ready :: bool
  eh_closing :: bool
  eh_faulted :: bool
  eh_starting :: bool
  eh_heap :: "live_run list"
  eh_live :: "nat option"
  eh_settling :: "settle_pc option"
  eh_recovering :: "recover_pc option"
  eh_late :: "late_pc list"
  eh_log :: "ex_label list"

record exec_io =
  io_pf :: "nat \<Rightarrow> platform"
  io_now :: number
  io_seal :: "outbound \<Rightarrow> json"
  io_id :: string
  io_iso :: string

section \<open>Procedures of the executor\<close>

type_synonym 'a proc = "(ex_host, exec_error, 'a) procedure"

definition emit :: "ex_label \<Rightarrow> unit proc" where
  "emit l = upd (\<lambda>h. h\<lparr>eh_log := eh_log h @ [l]\<rparr>)"

section \<open>Store calls\<close>

definition rt_call :: "exec_opts \<Rightarrow> exec_io \<Rightarrow> rt_op \<Rightarrow> rt_out proc" where
  "rt_call xo io op h =
     (case transaction (io_pf io (eh_calls h)) (eh_store h) (rt_exec (xo_cfg xo) op) of
        (st, r) \<Rightarrow> (h\<lparr>eh_store := st, eh_calls := eh_calls h + 1\<rparr>, map_sum Xe_store id r))"

text \<open>\<open>decode(store.state(STATE_KEY))\<close> with the revision.\<close>

definition read_state :: "exec_opts \<Rightarrow> exec_io \<Rightarrow> (nat \<times> exec_snapshot) proc" where
  "read_state xo io =
     seq (rt_call xo io (Op_state STATE_KEY)) (\<lambda>out.
       (case out of
          Ot_state row \<Rightarrow>
            (case decode xo row of None \<Rightarrow> throw Xe_invalid_state | Some s \<Rightarrow> ret (revision_of row, s))
        | _ \<Rightarrow> throw Xe_invalid_state))"

definition transition_json :: "exec_opts \<Rightarrow> exec_snapshot \<Rightarrow> json list \<Rightarrow> json list \<Rightarrow> json" where
  "transition_json xo s outbox effects =
     JObj ([(''state'', snapshot_json xo s), (''outbox'', JArr outbox)] @ (if effects = [] then [] else [(''effects'', JArr effects)]))"

definition change :: "exec_opts \<Rightarrow> exec_io \<Rightarrow> (exec_snapshot \<Rightarrow> exec_error + edit option) \<Rightarrow> bool proc" where
  "change xo io edit =
     seq (read_state xo io) (\<lambda>(n, s).
     seq (lift (edit s)) (\<lambda>e.
       (case e of
          None \<Rightarrow> ret False
        | Some (s1, outbox) \<Rightarrow>
            seq (rt_call xo io (Op_transition STATE_KEY (of_nat n) (\<lambda>_. Inr (transition_json xo s1 outbox [])))) (\<lambda>_. ret True))))"

definition the_slot :: "exec_opts \<Rightarrow> exec_io \<Rightarrow> durable_run option proc" where
  "the_slot xo io = seq (read_state xo io) (\<lambda>(n, s). ret (sn_slot s))"

section \<open>Handles and faults\<close>

definition upd_live :: "nat \<Rightarrow> (live_run \<Rightarrow> live_run) \<Rightarrow> ex_host \<Rightarrow> ex_host" where
  "upd_live i f h = (if i < length (eh_heap h) then h\<lparr>eh_heap := (eh_heap h)[i := f (eh_heap h ! i)]\<rparr> else h)"

text \<open>One stop invocation per handle.\<close>

definition quiesce :: "nat \<Rightarrow> unit proc" where
  "quiesce i =
     seq (ask (\<lambda>h. i < length (eh_heap h) \<and> lv_quiet (eh_heap h ! i) = Q_none)) (\<lambda>fresh.
     on fresh
       (seq (upd (upd_live i (\<lambda>lv. lv\<lparr>lv_quiet := Q_waiting\<rparr>))) (\<lambda>_.
        seq (ask (\<lambda>h. lv_fence (eh_heap h ! i))) (\<lambda>f. emit (L_stop f)))))"

definition quiesce_live :: "unit proc" where
  "quiesce_live = seq (ask eh_live) (\<lambda>v. case v of None \<Rightarrow> ret () | Some i \<Rightarrow> quiesce i)"

definition failClosed :: "unit proc" where
  "failClosed = seq (upd (\<lambda>h. h\<lparr>eh_faulted := True, eh_ready := False\<rparr>)) (\<lambda>_. quiesce_live)"

definition checked :: "'a proc \<Rightarrow> 'a proc" where
  "checked m = catching m (\<lambda>e. seq failClosed (\<lambda>_. throw e))"

definition assertHealthy :: "unit proc" where
  "assertHealthy = seq (ask eh_faulted) (\<lambda>b. if b then throw Xe_faulted else ret ())"

section \<open>Messages and time\<close>

text \<open>What a message does to the snapshot, with the outbox and the effects of the transition.\<close>

definition handle_message ::
  "exec_opts \<Rightarrow> exec_io \<Rightarrow> bool \<Rightarrow> json \<Rightarrow> bool \<Rightarrow> exec_snapshot \<Rightarrow> exec_error + edit \<times> json list" where
  "handle_message xo io open_for env authorized s =
     (let e = envelopeOf env; now = io_now io in
      if e_to_node e \<noteq> nc_node (xo_cfg xo) then Inr ((s, []), [])
      else
        (let allowed = (e_from_team e = Some (xo_team xo) \<and> authorized \<and> js_true (obj_get env ''sig''));
             fresh = (case e_exp e of None \<Rightarrow> False | Some x \<Rightarrow>
                        (case cd_parse (nc_codec (xo_cfg xo)) x of None \<Rightarrow> False | Some t \<Rightarrow> now < t)) in
         if e_type e = ''task.offer'' then
           dx_offer xo open_for (io_seal io) (io_id io) (io_iso io) s env now
             (if \<not> allowed then Some ''policy_denied'' else if \<not> fresh then Some ''expired'' else None)
         else if allowed \<and> fresh then Inr (control (io_seal io) s env now, [])
         else Inr ((s, []), [])))"

definition dx_consume :: "exec_opts \<Rightarrow> exec_io \<Rightarrow> json \<Rightarrow> bool \<Rightarrow> unit proc" where
  "dx_consume xo io env authorized = checked
     (seq assertHealthy (\<lambda>_.
      seq (read_state xo io) (\<lambda>(n, s).
      seq (ask (\<lambda>h. eh_ready h \<and> \<not> eh_closing h)) (\<lambda>open_for.
      seq (lift (handle_message xo io open_for env authorized s)) (\<lambda>((s1, outbox), effects).
      (let cd = nc_codec (xo_cfg xo); e = envelopeOf env; output = transition_json xo s1 outbox effects in
       seq (rt_call xo io (Op_consume
              \<lparr>cr_fromNode = e_from_node e, cr_msgId = e_msg_id e, cr_stateKey = STATE_KEY, cr_expectedRevision = of_nat n\<rparr>
              (\<lambda>env1 _. if cd_sha cd (cd_jcs cd env1) \<noteq> cd_sha cd (cd_jcs cd env) then Inl (Domain_error Rc_conflict) else Inr output)))
         (\<lambda>_. ret ())))))))"

definition dx_tick :: "exec_opts \<Rightarrow> exec_io \<Rightarrow> unit proc" where
  "dx_tick xo io = checked
     (seq assertHealthy (\<lambda>_.
      if \<not> isSafeInteger (io_now io) \<or> io_now io < 0 then throw Xe_bad_time
      else seq (change xo io (tick_edit (io_seal io) (io_now io))) (\<lambda>_. ret ())))"

section \<open>The end of a run\<close>

definition dx_finish :: "exec_opts \<Rightarrow> exec_io \<Rightarrow> lease_fence \<Rightarrow> run_outcome \<Rightarrow> unit proc" where
  "dx_finish xo io fence oc =
     seq (change xo io (\<lambda>s. Inr (finish_edit (io_seal io) fence oc s))) (\<lambda>_.
       upd (\<lambda>h. case eh_live h of
                  Some i \<Rightarrow> if i < length (eh_heap h) \<and> same (lv_fence (eh_heap h ! i)) fence then h\<lparr>eh_live := None\<rparr> else h
                | None \<Rightarrow> h))"

definition dx_unknown :: "exec_opts \<Rightarrow> exec_io \<Rightarrow> lease_fence \<Rightarrow> stop_reason \<Rightarrow> unit proc" where
  "dx_unknown xo io fence reason = seq (change xo io (\<lambda>s. Inr (unknown_edit fence reason s))) (\<lambda>_. ret ())"

text \<open>
  \<open>publishAndFinish\<close> up to its first await: the publisher, when a result of the current run is to be published, or
  the release of the workspace after the commit. \<open>to_publish\<close> and \<open>to_release\<close> say where the caller then stands.
\<close>

definition publishAndFinish :: "exec_opts \<Rightarrow> exec_io \<Rightarrow> lease_fence \<Rightarrow> run_outcome \<Rightarrow> unit proc \<Rightarrow> unit proc \<Rightarrow> unit proc" where
  "publishAndFinish xo io fence oc to_publish to_release =
     seq (checked (the_slot xo io)) (\<lambda>slot.
       if ro_result oc \<and> xo_publisher xo \<and>
          (case slot of None \<Rightarrow> False | Some r \<Rightarrow> same (dr_fence r) fence \<and> dr_stopReason r = None)
       then to_publish
       else seq (dx_finish xo io fence oc) (\<lambda>_. to_release))"

text \<open>The rest of it: \<open>answer\<close> is what the publisher returned, \<open>None\<close> when it threw or its outcome is not valid.\<close>

definition published :: "exec_opts \<Rightarrow> exec_io \<Rightarrow> lease_fence \<Rightarrow> run_outcome option \<Rightarrow> unit proc \<Rightarrow> unit proc" where
  "published xo io fence answer to_release =
     seq (dx_finish xo io fence (case answer of Some oc \<Rightarrow> if validOutcome oc then oc else failed ''artifact_publish_failed''
                                            | None \<Rightarrow> failed ''artifact_publish_failed''))
       (\<lambda>_. to_release)"

definition obsolete_effects :: "lease_fence option \<Rightarrow> rt_effect list \<Rightarrow> rt_effect list" where
  "obsolete_effects fence effs =
     filter (\<lambda>e. re_state_key e = STATE_KEY \<and> re_kind e = EFFECT_KIND \<and>
                 (case fence of None \<Rightarrow> True | Some f \<Rightarrow> re_id e \<noteq> lf_run_id f)) effs"

fun complete_all :: "exec_opts \<Rightarrow> exec_io \<Rightarrow> rt_effect list \<Rightarrow> unit proc" where
  "complete_all xo io [] = ret ()"
| "complete_all xo io (e # es) =
     seq (rt_call xo io (Op_completeEffect (re_id e) STATE_KEY (of_nat (re_revision e)) True)) (\<lambda>_. complete_all xo io es)"

definition completeOldEffects :: "exec_opts \<Rightarrow> exec_io \<Rightarrow> unit proc" where
  "completeOldEffects xo io =
     seq (checked (the_slot xo io)) (\<lambda>slot.
     seq (rt_call xo io (Op_pendingEffects (of_nat (nc_maxEntries (xo_cfg xo))) True)) (\<lambda>out.
       (case out of
          Ot_effects effs \<Rightarrow> complete_all xo io (obsolete_effects (map_option dr_fence slot) effs)
        | _ \<Rightarrow> throw Xe_invalid_state)))"

section \<open>Reconciliation after a restart\<close>

text \<open>\<open>recover\<close> up to its first await, then its continuation with the driver's answer; \<open>None\<close>: it threw or timed out.\<close>

definition recovered :: "exec_opts \<Rightarrow> exec_io \<Rightarrow> unit proc" where
  "recovered xo io =
     seq (completeOldEffects xo io) (\<lambda>_. upd (\<lambda>h. h\<lparr>eh_ready := True, eh_recovering := None\<rparr>))"

definition recover_failed :: "exec_error \<Rightarrow> unit proc" where
  "recover_failed e = seq failClosed (\<lambda>_. seq (upd (\<lambda>h. h\<lparr>eh_recovering := None\<rparr>)) (\<lambda>_. throw e))"

definition dx_recover :: "exec_opts \<Rightarrow> exec_io \<Rightarrow> unit proc" where
  "dx_recover xo io =
     seq assertHealthy (\<lambda>_.
     seq (ask (\<lambda>h. eh_starting h \<or> (eh_ready h \<and> eh_settling h \<noteq> None) \<or> eh_recovering h \<noteq> None)) (\<lambda>busy.
       if busy then ret ()
       else catching
         (seq (checked (the_slot xo io)) (\<lambda>slot.
          seq (ask (\<lambda>h. eh_live h = None)) (\<lambda>dead.
            (case slot of
               Some r \<Rightarrow>
                 if dr_mayHaveStarted r \<and> (dead \<or> dr_phase r = Ph_recovery_required)
                 then seq (emit (L_recover (dr_fence r))) (\<lambda>_. upd (\<lambda>h. h\<lparr>eh_recovering := Some (Rp_driver (dr_fence r))\<rparr>))
                 else recovered xo io
             | None \<Rightarrow> recovered xo io))))
         recover_failed))"

definition recover_answer :: "exec_opts \<Rightarrow> exec_io \<Rightarrow> lease_fence \<Rightarrow> bool option \<Rightarrow> unit proc" where
  "recover_answer xo io fence answer = catching
     (let stopped = (answer = Some True \<and> xo_driver xo) in
      seq (on stopped (emit (L_quiet fence))) (\<lambda>_.
      seq assertHealthy (\<lambda>_.
        if stopped
        then seq (dx_finish xo io fence (failed ''execution_interrupted''))
               (\<lambda>_. upd (\<lambda>h. h\<lparr>eh_recovering := Some Rp_release\<rparr>))
        else seq (dx_unknown xo io fence Sr_execution_interrupted) (\<lambda>_. recovered xo io))))
     recover_failed"

definition recover_released :: "exec_opts \<Rightarrow> exec_io \<Rightarrow> unit proc" where
  "recover_released xo io = catching (recovered xo io) recover_failed"

section \<open>Settling\<close>

definition settle_at :: "settle_pc option \<Rightarrow> unit proc" where
  "settle_at pc = upd (\<lambda>h. h\<lparr>eh_settling := pc\<rparr>)"

text \<open>An exception in \<open>settle\<close> fails the executor closed and ends the settling.\<close>

definition settle_failed :: "exec_error \<Rightarrow> unit proc" where
  "settle_failed e = seq failClosed (\<lambda>_. seq (settle_at None) (\<lambda>_. throw e))"

definition settle_done :: "exec_opts \<Rightarrow> exec_io \<Rightarrow> unit proc" where
  "settle_done xo io = seq (completeOldEffects xo io) (\<lambda>_. settle_at None)"

text \<open>The commit before the driver is invoked; when the slot moved on, the workspace is released and nothing starts.\<close>

definition start_commit :: "exec_opts \<Rightarrow> exec_io \<Rightarrow> nat \<Rightarrow> durable_run \<Rightarrow> unit proc" where
  "start_commit xo io n r =
     seq (change xo io (\<lambda>s. Inr (starting_edit (dr_fence r) s))) (\<lambda>committed.
       if committed then upd (\<lambda>h. h\<lparr>eh_starting := True, eh_settling := Some (Sp_invoke n r)\<rparr>)
       else settle_at (Some (Sp_release n)))"

definition settle_phase :: "exec_opts \<Rightarrow> exec_io \<Rightarrow> nat \<Rightarrow> durable_run \<Rightarrow> (nat \<times> live_run) option \<Rightarrow> unit proc" where
  "settle_phase xo io n r live =
     (if dr_phase r = Ph_prepared then
        (if \<not> xo_driver xo
         then seq (dx_finish xo io (dr_fence r) (failed ''driver_unavailable'')) (\<lambda>_. settle_at (Some (Sp_release n)))
         else if xo_workspace xo then settle_at (Some (Sp_prepare n r))
         else start_commit xo io n r)
      else if dr_phase r = Ph_stopping \<and> \<not> dr_mayHaveStarted r then
        seq (dx_finish xo io (dr_fence r) (failed (case dr_stopReason r of Some x \<Rightarrow> reason_text x | None \<Rightarrow> ''stopped'')))
          (\<lambda>_. settle_at (Some (Sp_release n)))
      else if dr_phase r = Ph_stopping then
        (case live of
           Some (i, lv) \<Rightarrow> seq (quiesce i) (\<lambda>_. settle_at (Some (Sp_stop n r i)))
         | None \<Rightarrow> seq (dx_unknown xo io (dr_fence r) Sr_execution_interrupted) (\<lambda>_. settle_done xo io))
      else if (case live of Some (i, lv) \<Rightarrow> lv_closed lv = Some None | None \<Rightarrow> False) \<and> dr_phase r \<noteq> Ph_recovery_required then
        seq (dx_unknown xo io (dr_fence r) Sr_execution_interrupted) (\<lambda>_. settle_done xo io)
      else settle_done xo io)"

definition live_of :: "ex_host \<Rightarrow> (nat \<times> live_run) option" where
  "live_of h =
     (case eh_live h of
        None \<Rightarrow> None
      | Some i \<Rightarrow> if i < length (eh_heap h) then Some (i, eh_heap h ! i) else None)"

text \<open>One pass of the loop, up to its first await.\<close>

definition settle_pass :: "exec_opts \<Rightarrow> exec_io \<Rightarrow> nat \<Rightarrow> unit proc" where
  "settle_pass xo io n =
     (if 4 \<le> n then settle_done xo io
      else
        seq (dx_tick xo io) (\<lambda>_.
        seq (checked (the_slot xo io)) (\<lambda>slot.
        seq (ask live_of) (\<lambda>live.
          (case slot of
             None \<Rightarrow> settle_done xo io
           | Some r \<Rightarrow>
               (case live of
                  None \<Rightarrow> settle_phase xo io n r live
                | Some (i, lv) \<Rightarrow>
                    if \<not> same (lv_fence lv) (dr_fence r) then throw Xe_fence_mismatch
                    else
                      (case lv_outcome lv of
                         Some oc \<Rightarrow>
                           publishAndFinish xo io (dr_fence r) oc
                             (settle_at (Some (Sp_publish n (dr_fence r) oc))) (settle_at (Some (Sp_release n)))
                       | None \<Rightarrow> settle_phase xo io n r live)))))))"

text \<open>\<open>settle\<close>: a second caller joins the first. Every part of it runs under \<open>guarded\<close>.\<close>

definition guarded :: "unit proc \<Rightarrow> unit proc" where
  "guarded m = catching m settle_failed"

definition dx_settle :: "exec_opts \<Rightarrow> exec_io \<Rightarrow> unit proc" where
  "dx_settle xo io =
     seq (ask (\<lambda>h. eh_settling h \<noteq> None)) (\<lambda>busy.
       if busy then ret ()
       else guarded
         (seq assertHealthy (\<lambda>_.
          seq (ask eh_ready) (\<lambda>ready.
            if ready then settle_pass xo io 0
            else seq (dx_recover xo io) (\<lambda>_.
                 seq (ask (\<lambda>h. eh_recovering h \<noteq> None)) (\<lambda>pending.
                   settle_at (Some (if pending then Sp_recover else Sp_loop 0))))))))"

section \<open>Starting the driver\<close>

text \<open>\<open>attach\<close>: a handle of another run is a fatal fault. The new object is the last one of the heap.\<close>

definition dx_attach :: "durable_run \<Rightarrow> lease_fence \<Rightarrow> nat proc" where
  "dx_attach r hf =
     seq (upd (\<lambda>h. h\<lparr>eh_heap := eh_heap h @ [\<lparr>lv_fence = dr_fence r, lv_own = (isLeaseFence hf \<and> same hf (dr_fence r)),
                       lv_closed = None, lv_outcome = None, lv_quiet = Q_none\<rparr>], eh_live := Some (length (eh_heap h))\<rparr>)) (\<lambda>_.
     if \<not> isLeaseFence hf \<or> \<not> same hf (dr_fence r) then seq failClosed (\<lambda>_. throw Xe_fence_mismatch)
     else ask (\<lambda>h. length (eh_heap h) - 1))"

text \<open>The microtask that invokes the driver; on a faulted executor its promise rejects instead.\<close>

definition start_invoke :: "exec_opts \<Rightarrow> exec_io \<Rightarrow> nat \<Rightarrow> durable_run \<Rightarrow> unit proc" where
  "start_invoke xo io n r =
     seq (ask eh_faulted) (\<lambda>faulted.
       if faulted then
         seq (upd (\<lambda>h. h\<lparr>eh_starting := False\<rparr>)) (\<lambda>_.
         seq (dx_unknown xo io (dr_fence r) Sr_execution_interrupted) (\<lambda>_. settle_at (Some (Sp_loop (n + 1)))))
       else seq (emit (L_start (dr_fence r))) (\<lambda>_. settle_at (Some (Sp_start n r))))"

datatype start_answer = Sa_handle lease_fence | Sa_rejected | Sa_timeout

definition start_answered :: "exec_opts \<Rightarrow> exec_io \<Rightarrow> nat \<Rightarrow> durable_run \<Rightarrow> start_answer \<Rightarrow> unit proc" where
  "start_answered xo io n r answer =
     (case answer of
        Sa_timeout \<Rightarrow>
          seq (upd (\<lambda>h. h\<lparr>eh_late := eh_late h @ [Lp_wait r]\<rparr>)) (\<lambda>_.
          seq (dx_unknown xo io (dr_fence r) Sr_driver_start_timeout) (\<lambda>_. settle_at (Some (Sp_loop (n + 1)))))
      | Sa_rejected \<Rightarrow>
          seq (upd (\<lambda>h. h\<lparr>eh_starting := False\<rparr>)) (\<lambda>_.
          seq (dx_unknown xo io (dr_fence r) Sr_execution_interrupted) (\<lambda>_. settle_at (Some (Sp_loop (n + 1)))))
      | Sa_handle hf \<Rightarrow>
          seq (upd (\<lambda>h. h\<lparr>eh_starting := False\<rparr>)) (\<lambda>_.
          seq (dx_attach r hf) (\<lambda>i.
          seq (ask eh_faulted) (\<lambda>faulted.
            if faulted then seq (quiesce i) (\<lambda>_. settle_at (Some (Sp_fault_stop i)))
            else seq (change xo io (\<lambda>s. Inr (started_edit (dr_fence r) s))) (\<lambda>_. settle_at (Some (Sp_loop (n + 1))))))))"

section \<open>Resuming\<close>

text \<open>\<open>workspace.prepare\<close> answered.\<close>

definition prepared :: "exec_opts \<Rightarrow> exec_io \<Rightarrow> nat \<Rightarrow> durable_run \<Rightarrow> bool \<Rightarrow> unit proc" where
  "prepared xo io n r ok =
     (if ok then start_commit xo io n r
      else seq (dx_finish xo io (dr_fence r) (failed ''workspace_prepare_failed'')) (\<lambda>_. settle_at (Some (Sp_release n))))"

text \<open>The quiescence promise of handle \<open>i\<close> has settled.\<close>

definition stop_resumed :: "exec_opts \<Rightarrow> exec_io \<Rightarrow> nat \<Rightarrow> durable_run \<Rightarrow> nat \<Rightarrow> unit proc" where
  "stop_resumed xo io n r i =
     seq (ask (\<lambda>h. lv_quiet (eh_heap h ! i))) (\<lambda>q.
       (case q of
          Q_done oc \<Rightarrow>
            publishAndFinish xo io (dr_fence r) oc
              (settle_at (Some (Sp_publish n (dr_fence r) oc))) (settle_at (Some (Sp_release n)))
        | _ \<Rightarrow> seq (dx_unknown xo io (dr_fence r) Sr_execution_interrupted) (\<lambda>_. settle_at (Some (Sp_loop (n + 1))))))"

definition settled_quiet :: "nat \<Rightarrow> ex_host \<Rightarrow> bool" where
  "settled_quiet i h \<longleftrightarrow>
     i < length (eh_heap h) \<and> (case lv_quiet (eh_heap h ! i) of Q_none \<Rightarrow> False | Q_waiting \<Rightarrow> False | _ \<Rightarrow> True)"

section \<open>Late starts\<close>

definition late_at :: "nat \<Rightarrow> late_pc \<Rightarrow> unit proc" where
  "late_at k pc = upd (\<lambda>h. h\<lparr>eh_late := (eh_late h)[k := pc]\<rparr>)"

text \<open>\<open>finally { this.starting = false }\<close>; a late start that ended is taken off the list.\<close>

definition late_end :: "nat \<Rightarrow> unit proc" where
  "late_end k = upd (\<lambda>h. h\<lparr>eh_late := take k (eh_late h) @ drop (Suc k) (eh_late h), eh_starting := False\<rparr>)"

definition late_guard :: "nat \<Rightarrow> unit proc \<Rightarrow> unit proc" where
  "late_guard k m = catching m (\<lambda>e. seq (late_end k) (\<lambda>_. failClosed))"

definition late_answered :: "exec_opts \<Rightarrow> exec_io \<Rightarrow> nat \<Rightarrow> durable_run \<Rightarrow> lease_fence option \<Rightarrow> unit proc" where
  "late_answered xo io k r answer =
     (case answer of
        None \<Rightarrow> late_end k
      | Some hf \<Rightarrow>
          late_guard k (seq (dx_attach r hf) (\<lambda>i. seq (quiesce i) (\<lambda>_. late_at k (Lp_stop r i)))))"

definition late_resumed :: "exec_opts \<Rightarrow> exec_io \<Rightarrow> nat \<Rightarrow> durable_run \<Rightarrow> nat \<Rightarrow> unit proc" where
  "late_resumed xo io k r i =
     late_guard k
       (seq (ask (\<lambda>h. (lv_quiet (eh_heap h ! i), eh_faulted h))) (\<lambda>(q, faulted).
         if faulted then late_end k
         else
           (case q of
              Q_done oc \<Rightarrow>
                publishAndFinish xo io (dr_fence r) oc (late_at k (Lp_publish (dr_fence r) oc)) (late_at k Lp_release)
            | _ \<Rightarrow> seq (dx_unknown xo io (dr_fence r) Sr_driver_start_timeout) (\<lambda>_. late_end k))))"

section \<open>Closing\<close>

definition dx_close :: "exec_opts \<Rightarrow> exec_io \<Rightarrow> unit proc" where
  "dx_close xo io =
     seq (upd (\<lambda>h. h\<lparr>eh_closing := True\<rparr>)) (\<lambda>_.
     catching
       (seq (checked (seq assertHealthy (\<lambda>_. seq (change xo io (\<lambda>s. Inr (close_edit s))) (\<lambda>_. ret ())))) (\<lambda>_.
        dx_settle xo io))
       (\<lambda>e. seq quiesce_live (\<lambda>_. throw e)))"

text \<open>After the settling that \<open>close\<close> waited for.\<close>

definition close_settled :: "exec_opts \<Rightarrow> exec_io \<Rightarrow> unit proc" where
  "close_settled xo io = catching
     (seq (checked (the_slot xo io)) (\<lambda>slot.
      seq (ask (\<lambda>h. eh_live h \<noteq> None \<or> eh_starting h)) (\<lambda>busy.
        if slot \<noteq> None \<or> busy then throw Xe_closure_unconfirmed else ret ())))
     (\<lambda>e. seq quiesce_live (\<lambda>_. throw e))"

section \<open>Events\<close>

text \<open>
  The calls of the application (\<open>Ev_consume\<close>, \<open>Ev_tick\<close>, \<open>Ev_recover\<close>, \<open>Ev_settle\<close>, \<open>Ev_close\<close>), the answers of the driver,
  workspace and publisher, the promises of the handles (named by their place in the heap), microtasks that resume
  \<open>settle\<close>, calls of other components on the same store, and the crash with the restart on the same database.
  An event that is not possible in a state does nothing.
\<close>

datatype ex_event =
    Ev_consume json bool
  | Ev_tick
  | Ev_recover
  | Ev_recover_answer "bool option"
  | Ev_recover_released
  | Ev_settle
  | Ev_resume
  | Ev_prepared bool
  | Ev_invoke
  | Ev_start_answer start_answer
  | Ev_published "run_outcome option"
  | Ev_released
  | Ev_late_answer nat "lease_fence option"
  | Ev_late_resume nat
  | Ev_late_published nat "run_outcome option"
  | Ev_late_released nat
  | Ev_closed nat "run_outcome option"
  | Ev_race nat
  | Ev_stopped nat bool
  | Ev_stop_lapsed nat
  | Ev_close
  | Ev_close_settled
  | Ev_store rt_op
  | Ev_crash

text \<open>The closed promise of a handle settles; \<open>None\<close>: it rejects or its outcome is not valid.\<close>

definition handle_closed :: "nat \<Rightarrow> run_outcome option \<Rightarrow> ex_host \<Rightarrow> ex_host" where
  "handle_closed i answer h =
     (if \<not> (i < length (eh_heap h) \<and> lv_closed (eh_heap h ! i) = None) then h
      else
        (let lv = eh_heap h ! i; oc = (case answer of Some x \<Rightarrow> if validOutcome x then Some x else None | None \<Rightarrow> None) in
         (case oc of
            None \<Rightarrow> upd_live i (\<lambda>lv. lv\<lparr>lv_closed := Some None\<rparr>) h
          | Some x \<Rightarrow>
              (upd_live i (\<lambda>lv. lv\<lparr>lv_closed := Some (Some x), lv_outcome := Some x\<rparr>) h)
                \<lparr>eh_log := eh_log h @ (if lv_own lv then [L_quiet (lv_fence lv)] else [])\<rparr>)))"

text \<open>The closed promise wins the race inside \<open>quiesce\<close>.\<close>

definition handle_race :: "nat \<Rightarrow> ex_host \<Rightarrow> ex_host" where
  "handle_race i h =
     (if i < length (eh_heap h) \<and> lv_quiet (eh_heap h ! i) = Q_waiting
      then (case lv_closed (eh_heap h ! i) of
              Some (Some oc) \<Rightarrow> upd_live i (\<lambda>lv. lv\<lparr>lv_quiet := Q_done oc\<rparr>) h
            | _ \<Rightarrow> h)
      else h)"

text \<open>\<open>handle.stop()\<close> fulfils or rejects. A fulfilment after the bounded wait still leaves its proof on the handle.\<close>

definition handle_stopped :: "nat \<Rightarrow> bool \<Rightarrow> ex_host \<Rightarrow> ex_host" where
  "handle_stopped i ok h =
     (if \<not> i < length (eh_heap h) then h
      else
        (let lv = eh_heap h ! i;
             proof = (if lv_own lv then [L_quiet (lv_fence lv)] else []);
             keep = (\<lambda>lv. lv\<lparr>lv_outcome := (case lv_outcome lv of None \<Rightarrow> Some (failed ''stopped'') | Some x \<Rightarrow> Some x)\<rparr>) in
         (case lv_quiet lv of
            Q_waiting \<Rightarrow>
              if ok then (upd_live i (\<lambda>lv. (keep lv)\<lparr>lv_quiet := Q_done (failed ''stopped'')\<rparr>) h)\<lparr>eh_log := eh_log h @ proof\<rparr>
              else upd_live i (\<lambda>lv. lv\<lparr>lv_quiet := Q_failed\<rparr>) h
          | Q_lapsed \<Rightarrow> if ok then (upd_live i keep h)\<lparr>eh_log := eh_log h @ proof\<rparr> else h
          | _ \<Rightarrow> h)))"

definition handle_lapsed :: "nat \<Rightarrow> ex_host \<Rightarrow> ex_host" where
  "handle_lapsed i h =
     (if i < length (eh_heap h) \<and> lv_quiet (eh_heap h ! i) = Q_waiting then upd_live i (\<lambda>lv. lv\<lparr>lv_quiet := Q_lapsed\<rparr>) h else h)"

definition fresh_host :: "node_db store \<Rightarrow> nat \<Rightarrow> ex_label list \<Rightarrow> ex_host" where
  "fresh_host st n calls =
     \<lparr>eh_store = st, eh_calls = n, eh_ready = False, eh_closing = False, eh_faulted = False, eh_starting = False,
      eh_heap = [], eh_live = None, eh_settling = None, eh_recovering = None, eh_late = [], eh_log = calls\<rparr>"

text \<open>The constructor: it refuses options that do not fit, and starts with nothing in memory.\<close>

definition newDurableExecutor ::
  "exec_opts \<Rightarrow> string \<Rightarrow> number option \<Rightarrow> node_db store \<Rightarrow> nat \<Rightarrow> ex_label list \<Rightarrow> ex_host option" where
  "newDurableExecutor xo nodeId driverTimeoutMs st n calls =
     (let ms = or_default driverTimeoutMs 5000 in
      if nc_node (xo_cfg xo) \<noteq> nodeId \<or> xo_team xo = [] \<or> \<not> positive ms \<or> 2147483647 < ms \<or>
         \<not> positive (leaseMsAid (xo_params xo)) \<or> \<not> positive (offerTtlMsAid (xo_params xo))
      then None else Some (fresh_host st n calls))"

text \<open>Whether a call of another component leaves the executor's own state key alone.\<close>

definition foreign :: "rt_op \<Rightarrow> bool" where
  "foreign op =
     (case op of Op_transition k n t \<Rightarrow> k \<noteq> STATE_KEY | Op_consume rq t \<Rightarrow> cr_stateKey rq \<noteq> STATE_KEY | _ \<Rightarrow> True)"

fun ex_proc :: "exec_opts \<Rightarrow> exec_io \<Rightarrow> ex_event \<Rightarrow> ex_host \<Rightarrow> unit proc" where
  "ex_proc xo io (Ev_consume env authorized) h = dx_consume xo io env authorized"
| "ex_proc xo io Ev_tick h = dx_tick xo io"
| "ex_proc xo io Ev_recover h = dx_recover xo io"
| "ex_proc xo io (Ev_recover_answer a) h =
     (case eh_recovering h of Some (Rp_driver f) \<Rightarrow> recover_answer xo io f a | _ \<Rightarrow> ret ())"
| "ex_proc xo io Ev_recover_released h = (if eh_recovering h = Some Rp_release then recover_released xo io else ret ())"
| "ex_proc xo io Ev_settle h = dx_settle xo io"
| "ex_proc xo io Ev_resume h =
     (case eh_settling h of
        Some (Sp_loop n) \<Rightarrow> guarded (settle_pass xo io n)
      | Some Sp_recover \<Rightarrow>
          if eh_recovering h \<noteq> None then ret ()
          else if eh_ready h then guarded (settle_pass xo io 0) else guarded (throw Xe_faulted)
      | Some (Sp_stop n r i) \<Rightarrow> if settled_quiet i h then guarded (stop_resumed xo io n r i) else ret ()
      | Some (Sp_fault_stop i) \<Rightarrow> if settled_quiet i h then guarded (throw Xe_faulted) else ret ()
      | _ \<Rightarrow> ret ())"
| "ex_proc xo io (Ev_prepared ok) h = (case eh_settling h of Some (Sp_prepare n r) \<Rightarrow> guarded (prepared xo io n r ok) | _ \<Rightarrow> ret ())"
| "ex_proc xo io Ev_invoke h = (case eh_settling h of Some (Sp_invoke n r) \<Rightarrow> guarded (start_invoke xo io n r) | _ \<Rightarrow> ret ())"
| "ex_proc xo io (Ev_start_answer a) h = (case eh_settling h of Some (Sp_start n r) \<Rightarrow> guarded (start_answered xo io n r a) | _ \<Rightarrow> ret ())"
| "ex_proc xo io (Ev_published a) h =
     (case eh_settling h of Some (Sp_publish n f oc) \<Rightarrow> guarded (published xo io f a (settle_at (Some (Sp_release n)))) | _ \<Rightarrow> ret ())"
| "ex_proc xo io Ev_released h = (case eh_settling h of Some (Sp_release n) \<Rightarrow> settle_at (Some (Sp_loop (n + 1))) | _ \<Rightarrow> ret ())"
| "ex_proc xo io (Ev_late_answer k a) h =
     (if k < length (eh_late h) then (case eh_late h ! k of Lp_wait r \<Rightarrow> late_answered xo io k r a | _ \<Rightarrow> ret ()) else ret ())"
| "ex_proc xo io (Ev_late_resume k) h =
     (if k < length (eh_late h)
      then (case eh_late h ! k of Lp_stop r i \<Rightarrow> if settled_quiet i h then late_resumed xo io k r i else ret () | _ \<Rightarrow> ret ())
      else ret ())"
| "ex_proc xo io (Ev_late_published k a) h =
     (if k < length (eh_late h)
      then (case eh_late h ! k of Lp_publish f oc \<Rightarrow> late_guard k (published xo io f a (late_at k Lp_release)) | _ \<Rightarrow> ret ())
      else ret ())"
| "ex_proc xo io (Ev_late_released k) h =
     (if k < length (eh_late h)
      then (case eh_late h ! k of
              Lp_release \<Rightarrow> late_guard k (seq (completeOldEffects xo io) (\<lambda>_. late_end k))
            | _ \<Rightarrow> ret ())
      else ret ())"
| "ex_proc xo io (Ev_closed i a) h = upd (handle_closed i a)"
| "ex_proc xo io (Ev_race i) h = upd (handle_race i)"
| "ex_proc xo io (Ev_stopped i ok) h = upd (handle_stopped i ok)"
| "ex_proc xo io (Ev_stop_lapsed i) h = upd (handle_lapsed i)"
| "ex_proc xo io Ev_close h = dx_close xo io"
| "ex_proc xo io Ev_close_settled h = (if eh_closing h \<and> eh_settling h = None then close_settled xo io else ret ())"
| "ex_proc xo io (Ev_store op) h = (if foreign op then seq (rt_call xo io op) (\<lambda>_. ret ()) else ret ())"
| "ex_proc xo io Ev_crash h =
     upd (\<lambda>h. fresh_host \<lparr>st_db = st_db (eh_store h), st_state = Open, st_fault = None\<rparr> (eh_calls h) (eh_log h))"

definition ex_step :: "exec_opts \<Rightarrow> ex_host \<Rightarrow> exec_io \<times> ex_event \<Rightarrow> ex_host" where
  "ex_step xo h ev = fst (ex_proc xo (fst ev) (snd ev) h h)"

fun ex_run :: "exec_opts \<Rightarrow> ex_host \<Rightarrow> (exec_io \<times> ex_event) list \<Rightarrow> ex_host" where
  "ex_run xo h [] = h"
| "ex_run xo h (ev # evs) = ex_run xo (ex_step xo h ev) evs"

end
