(* ===== verification/Storage_Props.thy ===== *)
theory Storage_Props
  imports Storage
begin

text \<open>
  What the storage layer promises. A transaction is all or nothing and a faulted store never serves again, so
  after any history of calls and platform faults the database is the one the acknowledged calls produce in order.
  A database is upgraded only along one immutable history, and upgrading gives the database that the newer
  schema would have created.
\<close>

section \<open>Transactions\<close>

lemma poison_sel [simp]: "st_db (poison e st) = st_db st" "st_state (poison e st) = Faulted"
  by (simp_all add: poison_def)

lemma assertOpen_cases:
  "assertOpen pf st = (st1, r) \<Longrightarrow>
   st_db st1 = st_db st \<and> (r = Inr () \<longrightarrow> st1 = st \<and> st_state st = Open) \<and>
   (st_state st \<noteq> Open \<longrightarrow> st1 = st \<and> r \<noteq> Inr ())"
  by (auto simp: assertOpen_def Let_def split: store_state.splits if_splits)

lemma attempt_Inr: "attempt pf db cb = Inr res \<Longrightarrow> cb db = Inr res"
  by (auto simp: attempt_def split: option.splits sum.splits if_splits)

lemma transaction_ok:
  fixes cb :: "'db \<Rightarrow> 'e raised + 'db \<times> 'r"
  assumes "transaction pf st cb = (st1, Inr r)"
  obtains db where "cb (st_db st) = Inr (db, r)" "st1 = st\<lparr>st_db := db\<rparr>" "st_state st = Open"
proof -
  obtain st2 and q :: "'e raised + unit" where a: "assertOpen pf st = (st2, q)" by fastforce
  from assms have q: "q = Inr ()"
    by (auto simp: transaction_def a split: sum.splits)
  with assertOpen_cases [OF a] have st2: "st2 = st" "st_state st = Open" by auto
  from assms obtain db where d: "attempt pf (st_db st) cb = Inr (db, r)" "st1 = st\<lparr>st_db := db\<rparr>"
    using a [unfolded q st2] unfolding transaction_def
    by (cases "attempt pf (st_db st) cb") (auto simp: Let_def split: option.splits)
  show thesis by (rule that [OF attempt_Inr [OF d(1)] d(2) st2(2)])
qed

lemma transaction_err:
  fixes cb :: "'db \<Rightarrow> 'e raised + 'db \<times> 'r"
  assumes "transaction pf st cb = (st1, Inl e)"
  shows "st_db st1 = st_db st"
proof -
  obtain st2 and q :: "'e raised + unit" where a: "assertOpen pf st = (st2, q)" by fastforce
  with assms show ?thesis
    using assertOpen_cases [OF a]
    by (auto simp: transaction_def Let_def split: sum.splits option.splits prod.splits if_splits)
qed

lemma transaction_not_open:
  "st_state st \<noteq> Open \<Longrightarrow> \<exists>e. transaction pf st cb = (st, Inl (Storage_error e))"
  by (cases "st_state st") (auto simp: transaction_def assertOpen_def)

text \<open>A platform on which nothing fails, and what a transaction does there.\<close>

definition healthy :: platform where
  "healthy = \<lparr>pf_held = True, pf_connected = True, pf_pragmas = True, pf_begin = None, pf_held_after = True,
              pf_connected_after = True, pf_pragmas_after = True, pf_commit = None, pf_rollback = None\<rparr>"

lemma transaction_healthy:
  assumes "st_state st = Open"
  shows "transaction healthy st cb =
    (case cb (st_db st) of
       Inr (db, r) \<Rightarrow> (st\<lparr>st_db := db\<rparr>, Inr r)
     | Inl e \<Rightarrow> (if poisons e False then poison e st else st, Inl e))"
  using assms
  by (auto simp: transaction_def assertOpen_def attempt_def healthy_def split: sum.splits)

subsection \<open>Histories\<close>

text \<open>One call: the platform's answers and the operation. The output keeps the operation with its answer.\<close>

definition tx_step ::
  "('op \<Rightarrow> 'db \<Rightarrow> 'e raised + 'db \<times> 'r) \<Rightarrow> 'db store \<Rightarrow> platform \<times> 'op \<Rightarrow> 'db store \<times> ('op \<times> ('e raised + 'r)) list" where
  "tx_step exec st ev = (let (st1, res) = transaction (fst ev) st (exec (snd ev)) in (st1, [(snd ev, res)]))"

fun acknowledged :: "('op \<times> ('e raised + 'r)) list \<Rightarrow> 'op list" where
  "acknowledged [] = []"
| "acknowledged ((x, Inr r) # outs) = x # acknowledged outs"
| "acknowledged ((x, Inl e) # outs) = acknowledged outs"

fun serial :: "('op \<Rightarrow> 'db \<Rightarrow> 'e raised + 'db \<times> 'r) \<Rightarrow> 'op list \<Rightarrow> 'db \<Rightarrow> 'db" where
  "serial exec [] db = db"
| "serial exec (x # ops) db = serial exec ops (case exec x db of Inr (db1, r) \<Rightarrow> db1 | Inl e \<Rightarrow> db)"

lemma acknowledged_append [simp]: "acknowledged (xs @ ys) = acknowledged xs @ acknowledged ys"
  by (induction xs rule: acknowledged.induct) simp_all

lemma tx_step_cases:
  obtains (ok) db r where "exec x (st_db st) = Inr (db, r)" "tx_step exec st (pf, x) = (st\<lparr>st_db := db\<rparr>, [(x, Inr r)])"
    "st_state st = Open"
  | (err) st1 e where "st_db st1 = st_db st" "tx_step exec st (pf, x) = (st1, [(x, Inl e)])"
proof -
  obtain st1 res where t: "transaction pf st (exec x) = (st1, res)" by (cases "transaction pf st (exec x)")
  show thesis
  proof (cases res)
    case (Inl e)
    with t show thesis by (intro err [of st1 e]) (auto simp: tx_step_def dest: transaction_err)
  next
    case (Inr r)
    with t obtain db where "exec x (st_db st) = Inr (db, r)" "st1 = st\<lparr>st_db := db\<rparr>" "st_state st = Open"
      by (auto elim: transaction_ok)
    with t Inr show thesis by (intro ok [of db r]) (auto simp: tx_step_def)
  qed
qed

lemma tx_step_serial:
  "st_db (fst (tx_step exec st ev)) = serial exec (acknowledged (snd (tx_step exec st ev))) (st_db st)"
  by (rule tx_step_cases [of exec "snd ev" st "fst ev"]) auto

lemma serial_append: "serial exec (xs @ ys) db = serial exec ys (serial exec xs db)"
  by (induction xs arbitrary: db) simp_all

text \<open>What a client of the store supplies, and what it gets from every history.\<close>

locale tx_client =
  fixes exec :: "'op \<Rightarrow> 'db \<Rightarrow> 'e raised + 'db \<times> 'r"
    and allowed :: "'op \<Rightarrow> bool"
    and inv :: "'db \<Rightarrow> bool"
  assumes exec_inv: "inv db \<Longrightarrow> allowed x \<Longrightarrow> exec x db = Inr (db1, r) \<Longrightarrow> inv db1"
begin

lemma step_inv: "inv (st_db st) \<Longrightarrow> allowed (snd ev) \<Longrightarrow> inv (st_db (fst (tx_step exec st ev)))"
  by (rule tx_step_cases [of exec "snd ev" st "fst ev"]) (auto dest: exec_inv)

lemma history_inv:
  "inv (st_db st) \<Longrightarrow> list_all (\<lambda>ev. allowed (snd ev)) evs \<Longrightarrow> inv (st_db (fst (run (tx_step exec) st evs)))"
  by (induction evs arbitrary: st) (simp_all del: run.simps(2) add: step_inv)

lemma history_serial:
  "st_db (fst (run (tx_step exec) st evs)) = serial exec (acknowledged (snd (run (tx_step exec) st evs))) (st_db st)"
  by (induction evs arbitrary: st) (simp_all del: run.simps(2) add: tx_step_serial serial_append)

end

section \<open>Schema history\<close>

lemma check_migrations_last:
  "check_migrations hash i ms = Inr () \<Longrightarrow> ms \<noteq> [] \<Longrightarrow> mg_version (last ms) = i + length ms"
  by (induction ms arbitrary: i) (auto split: if_splits)

lemma migrate_append:
  "migrate eg (xs @ ys) df = (case migrate eg xs df of None \<Rightarrow> None | Some d \<Rightarrow> migrate eg ys d)"
proof (induction xs arbitrary: df)
  case Nil
  then show ?case by simp
next
  case (Cons m xs)
  then show ?case
    by (cases "eg_exec eg (mg_sql m) (df_tables df)"; cases "df_ledger df") simp_all
qed

lemma migrate_facts:
  "migrate eg ms df = Some d \<Longrightarrow>
   df_meta d = df_meta df \<and> df_application d = df_application df \<and>
   df_version d = (if ms = [] then df_version df else mg_version (last ms))"
proof (induction ms arbitrary: df)
  case Nil
  then show ?case by simp
next
  case (Cons m ms)
  from Cons.prems obtain tables ledger where
    "migrate eg ms (df\<lparr>df_tables := tables, df_ledger := Some (ledger @ [ledger_row m]), df_version := mg_version m\<rparr>) = Some d"
    by (auto split: option.split_asm if_split_asm)
  from Cons.IH [OF this] show ?case by simp
qed

lemma schemaVersion_value: "schemaVersion eg df s False = Inr n \<Longrightarrow> n = df_version df"
  by (auto simp: schemaVersion_def Let_def split: if_splits option.splits)

lemma schemaVersion_integrity: "schemaVersion eg df s new = Inr n \<Longrightarrow> eg_integrity eg (df_tables df)"
  by (auto simp: schemaVersion_def split: if_splits)

lemma schemaVersion_new: "schemaVersion eg df s True = Inr n \<Longrightarrow> n = 0"
  by (auto simp: schemaVersion_def split: if_splits)

lemma validateSchema_facts:
  "validateSchema hash s = Inr u \<Longrightarrow> sc_migrations s \<noteq> [] \<and> check_migrations hash 0 (sc_migrations s) = Inr ()"
  by (auto simp: validateSchema_def split: if_splits)

text \<open>A migration run that commits leaves the file at the schema's last version.\<close>

lemma applied_current:
  assumes v: "validateSchema hash s = Inr u" and "since \<noteq> length (sc_migrations s)" "since \<le> length (sc_migrations s)"
    and a: "applyMigrations eg durable df s since = Inr d"
  shows "schemaVersion eg d s False = Inr (length (sc_migrations s))"
proof -
  let ?ms = "drop since (sc_migrations s)"
  from assms obtain df0 n where m: "migrate eg ?ms df0 = Some d" and n: "schemaVersion eg d s False = Inr n"
    by (auto simp: applyMigrations_def isl_def split: option.splits if_splits) (metis sum.exhaust)+
  have ms: "?ms \<noteq> []" using assms by simp
  with migrate_facts [OF m] have "df_version d = mg_version (last (sc_migrations s))" by (simp add: last_drop)
  also have "\<dots> = length (sc_migrations s)"
    using validateSchema_facts [OF v] check_migrations_last by fastforce
  finally show ?thesis using n schemaVersion_value [OF n] by simp
qed

lemma schemaVersion_bound: "schemaVersion eg df s False = Inr n \<Longrightarrow> n \<le> length (sc_migrations s)"
  by (auto simp: schemaVersion_def Let_def split: if_splits option.splits)

text \<open>Every successful open ends at the schema's last version, with a valid ledger and an intact file.\<close>

lemma open_current:
  assumes "open_store hash eg durable s mode existing = Inr d"
  shows "schemaVersion eg d s False = Inr (length (sc_migrations s))"
proof -
  let ?df = "case existing of None \<Rightarrow> new_dbfile eg | Some f \<Rightarrow> f"
  from assms obtain since where v: "validateSchema hash s = Inr ()"
    and sv: "schemaVersion eg ?df s (existing = None) = Inr since"
    and a: "applyMigrations eg durable ?df s since = Inr d"
    by (auto simp: open_store_def Let_def split: if_splits)
  show ?thesis
  proof (cases "since = length (sc_migrations s)")
    case True
    with validateSchema_facts [OF v] sv have "existing \<noteq> None" 
      by (cases "existing = None") (auto dest: schemaVersion_new)
    with True sv a show ?thesis by (auto simp: applyMigrations_def)
  next
    case False
    have "since \<le> length (sc_migrations s)"
      using sv schemaVersion_new schemaVersion_bound by (cases "existing = None") fastforce+
    from applied_current [OF v False this a] show ?thesis .
  qed
qed

lemma reopen_same:
  assumes "open_store hash eg durable s mode existing = Inr d"
  shows "open_store hash eg durable1 s Open_mode (Some d) = Inr d"
proof -
  have "validateSchema hash s = Inr ()" using assms by (auto simp: open_store_def)
  with open_current [OF assms] show ?thesis by (simp add: open_store_def applyMigrations_def)
qed

lemma open_create_migrates:
  assumes "open_store hash eg durable s Create_mode None = Inr d"
  shows "migrate eg (sc_migrations s) (init_meta s (new_dbfile eg)) = Some d" "durable"
proof -
  from assms obtain v: "validateSchema hash s = Inr ()"
    and sv: "schemaVersion eg (new_dbfile eg) s True = Inr 0"
    and a: "applyMigrations eg durable (new_dbfile eg) s 0 = Inr d"
    by (auto simp: open_store_def Let_def dest: schemaVersion_new)
  with validateSchema_facts [OF v] show "migrate eg (sc_migrations s) (init_meta s (new_dbfile eg)) = Some d" "durable"
    by (auto simp: applyMigrations_def split: option.splits if_splits)
qed

lemma create_if_migrates:
  assumes "validateSchema hash s = Inr ()" "schemaVersion eg (new_dbfile eg) s True = Inr 0"
    and "migrate eg (sc_migrations s) (init_meta s (new_dbfile eg)) = Some d"
    and "schemaVersion eg d s False = Inr n"
  shows "open_store hash eg True s Create_mode None = Inr d"
  using assms validateSchema_facts [OF assms(1)] schemaVersion_integrity [OF assms(4)]
  by (simp add: open_store_def applyMigrations_def)

lemma init_meta_id: "sc_id s = sc_id s1 \<Longrightarrow> init_meta s df = init_meta s1 df"
  by (simp add: init_meta_def)

lemma schemaVersion_new_any: "schemaVersion eg df s True = schemaVersion eg df s1 True"
  by (simp add: schemaVersion_def)

text \<open>
  C31: An upgrade gives the database that the newer schema would have created: creating with a schema and then opening
  with an extension of its history, creating with the extension at once, and opening any number of times after
  that all give the same file, and the older program refuses the upgraded file.
\<close>

theorem upgrade_equals_fresh:
  assumes created: "open_store hash eg durable s Create_mode None = Inr d"
    and ext: "sc_id s1 = sc_id s" "sc_migrations s1 = sc_migrations s @ newer"
    and upgraded: "open_store hash eg durable1 s1 Open_mode (Some d) = Inr d1"
  shows "open_store hash eg True s1 Create_mode None = Inr d1 \<and>
    open_store hash eg durable2 s1 Open_mode (Some d1) = Inr d1 \<and>
    (newer \<noteq> [] \<longrightarrow> open_store hash eg durable2 s Open_mode (Some d1) = Inl S_schema_unsupported)"
proof -
  have v: "validateSchema hash s = Inr ()" "validateSchema hash s1 = Inr ()"
    using created upgraded by (auto simp: open_store_def)
  have cur: "schemaVersion eg d s False = Inr (length (sc_migrations s))"
    and cur1: "schemaVersion eg d1 s1 False = Inr (length (sc_migrations s1))"
    using open_current [OF created] open_current [OF upgraded] .
  have dv: "df_version d = length (sc_migrations s)" "df_version d1 = length (sc_migrations s1)"
    using schemaVersion_value [OF cur] schemaVersion_value [OF cur1] by simp_all
  from upgraded have up: "applyMigrations eg durable1 d s1 (length (sc_migrations s)) = Inr d1"
    by (auto simp: open_store_def dv(1) dest!: schemaVersion_value)
  have m: "migrate eg newer d = Some d1"
  proof (cases "newer = []")
    case True
    with up ext show ?thesis by (simp add: applyMigrations_def)
  next
    case False
    with up ext validateSchema_facts [OF v(1)] show ?thesis
      by (auto simp: applyMigrations_def split: option.splits if_splits)
  qed
  have new: "schemaVersion eg (new_dbfile eg) s True = Inr 0"
    using created by (auto simp: open_store_def Let_def dest: schemaVersion_new)
  have "migrate eg (sc_migrations s1) (init_meta s1 (new_dbfile eg)) = Some d1"
    using open_create_migrates [OF created] m by (simp add: ext migrate_append init_meta_id [OF ext(1)])
  then have "open_store hash eg True s1 Create_mode None = Inr d1"
    using create_if_migrates [OF v(2) _ _ cur1] new by (simp add: schemaVersion_new_any [of eg _ s1 s])
  moreover have "open_store hash eg durable2 s Open_mode (Some d1) = Inl S_schema_unsupported" if "newer \<noteq> []"
    using that v(1) dv(2) schemaVersion_integrity [OF cur1] ext
    by (simp add: open_store_def schemaVersion_def)
  ultimately show ?thesis using reopen_same [OF upgraded] by blast
qed

text \<open>The upgrade at a concrete engine: the tables are the list of scripts that ran.\<close>

definition log_engine :: "string list engine" where
  "log_engine = \<lparr>eg_none = [], eg_exec = (\<lambda>sql tables. Some (tables @ [sql])), eg_integrity = (\<lambda>_. True)\<rparr>"

definition demo_hash :: "nat \<times> string \<times> string \<Rightarrow> string" where
  "demo_hash x = fst (snd x) @ snd (snd x)"

definition demo_v1 :: schema where
  "demo_v1 = \<lparr>sc_id = ''qlong.node'', sc_migrations = [defineMigration demo_hash 1 ''base'' ''t1'']\<rparr>"

definition demo_v2 :: schema where
  "demo_v2 = \<lparr>sc_id = ''qlong.node'', sc_migrations = [defineMigration demo_hash 1 ''base'' ''t1'', defineMigration demo_hash 2 ''more'' ''t2'']\<rparr>"

definition demo_file :: "schema \<Rightarrow> string list \<Rightarrow> string list dbfile" where
  "demo_file s tables = \<lparr>df_application = APPLICATION_ID, df_version = length tables, df_meta = Some [(1, 1, sc_id s)],
     df_ledger = Some (map ledger_row (sc_migrations s)), df_tables = tables\<rparr>"

lemma demo_schemas: "validateSchema demo_hash demo_v1 = Inr ()" "validateSchema demo_hash demo_v2 = Inr ()"
  by (simp_all add: validateSchema_def demo_v1_def demo_v2_def schema_id_ok_def is_lower_def is_digit_def defineMigration_def
      migrationChecksum_def demo_hash_def blank_def is_space_def)

lemmas demo_open_defs = open_store_def demo_schemas new_dbfile_def schemaVersion_def applyMigrations_def init_meta_def
  demo_file_def log_engine_def demo_v1_def [unfolded defineMigration_def] demo_v2_def [unfolded defineMigration_def] ledger_row_def
  demo_hash_def migrationChecksum_def APPLICATION_ID_def

lemma demo_create: "open_store demo_hash log_engine True demo_v1 Create_mode None = Inr (demo_file demo_v1 [''t1''])"
  by (simp add: open_store_def demo_schemas) (simp add: demo_open_defs)

lemma demo_upgrade:
  "open_store demo_hash log_engine True demo_v2 Open_mode (Some (demo_file demo_v1 [''t1''])) = Inr (demo_file demo_v2 [''t1'', ''t2''])"
  by (simp add: open_store_def demo_schemas) (simp add: demo_open_defs)

theorem upgrade_equals_fresh_witness:
  "open_store demo_hash log_engine True demo_v2 Create_mode None = Inr (demo_file demo_v2 [''t1'', ''t2'']) \<and>
   open_store demo_hash log_engine True demo_v1 Open_mode (Some (demo_file demo_v2 [''t1'', ''t2''])) = Inl S_schema_unsupported"
proof -
  have ext: "sc_id demo_v2 = sc_id demo_v1" "sc_migrations demo_v2 = sc_migrations demo_v1 @ [defineMigration demo_hash 2 ''more'' ''t2'']"
    by (simp_all add: demo_v1_def demo_v2_def)
  from upgrade_equals_fresh [OF demo_create ext demo_upgrade, of True] show ?thesis by blast
qed

end
