(* ===== verification/Node_Store_Props.thy ===== *)
theory Node_Store_Props
  imports Node_Store Storage_Props
begin

text \<open>
  The changes that the node store makes, as an inductive relation of single-row changes (\<open>rt_eff\<close>), and the
  refinement: every operation that returns performs a sequence of them. Facts about all histories are proved
  once per kind of change. \<open>rt_inv\<close> is the invariant under which every row reads back.
\<close>

section \<open>What is relied on of the codec\<close>

definition rt_codec :: "codec \<Rightarrow> bool" where
  "rt_codec cd \<longleftrightarrow>
     (\<forall>v. cd_jcs cd (cd_reparse cd (cd_jcs cd v)) = cd_jcs cd v) \<and>
     (\<forall>v. visit v 0 \<longrightarrow> visit (cd_reparse cd (cd_jcs cd v)) 0) \<and>
     (\<forall>s. is_digest (cd_sha cd s)) \<and>
     (\<forall>a q t. cd_reparse cd (cd_jcs cd (JArr [JStr a, JNum q, JStr t])) = JArr [JStr a, JNum q, JStr t])"

lemma rt_codecD:
  assumes "rt_codec cd"
  shows "cd_jcs cd (cd_reparse cd (cd_jcs cd v)) = cd_jcs cd v" "visit v 0 \<Longrightarrow> visit (cd_reparse cd (cd_jcs cd v)) 0"
    "is_digest (cd_sha cd s)" "cd_reparse cd (cd_jcs cd (JArr [JStr a, JNum q, JStr t])) = JArr [JStr a, JNum q, JStr t]"
  using assms by (simp_all add: rt_codec_def)

lemma is_digest_length: "is_digest d \<Longrightarrow> length d = 64"
  by (auto simp: is_digest_def matches_def dest: list_all2_lengthD)

lemma rt_envelopeD:
  assumes "rt_envelope cd v = Inr en"
  shows "visit v 0" "rn_payload en = cd_jcs cd v" "rn_env en = cd_reparse cd (rn_payload en)"
    "cd_bytes cd (rn_payload en) \<le> max_bytes" "rn_digest en = cd_sha cd (cd_jcs cd (rn_env en))"
    "validateEnvelope (cd_parse cd) (cd_b64len cd) (rn_env en) DEFAULT_PARAMS False = Inr (rn_env en)"
    "sig_canonical cd (obj_get (rn_env en) ''sig'')"
proof -
  obtain env where env: "validateEnvelope (cd_parse cd) (cd_b64len cd) (cd_reparse cd (cd_jcs cd v)) DEFAULT_PARAMS False = Inr env"
    and r: "visit v 0" "cd_bytes cd (cd_jcs cd v) \<le> max_bytes" "sig_canonical cd (obj_get env ''sig'')"
      "en = \<lparr>rn_env = env, rn_payload = cd_jcs cd v, rn_digest = cd_sha cd (cd_jcs cd env)\<rparr>"
    using assms by (auto simp: rt_envelope_def json_text_def split: if_splits sum.splits)
  have "env = cd_reparse cd (cd_jcs cd v)" using env by (auto simp: validateEnvelope_def Let_def split: if_splits)
  with r env show "visit v 0" "rn_payload en = cd_jcs cd v" "rn_env en = cd_reparse cd (rn_payload en)"
    "cd_bytes cd (rn_payload en) \<le> max_bytes" "rn_digest en = cd_sha cd (cd_jcs cd (rn_env en))"
    "validateEnvelope (cd_parse cd) (cd_b64len cd) (rn_env en) DEFAULT_PARAMS False = Inr (rn_env en)"
    "sig_canonical cd (obj_get (rn_env en) ''sig'')" by simp_all
qed

lemma rt_envelope_common:
  assumes "rt_envelope cd v = Inr en"
  shows "common_ok (cd_parse cd) (rn_env en)" "family_ok (cd_parse cd) (cd_b64len cd) DEFAULT_PARAMS False (rn_env en)"
  using rt_envelopeD(6) [OF assms] validate_iff by blast+

lemma rt_envelope_ids:
  assumes "rt_envelope cd v = Inr en"
  shows "isUuidStr (e_from_node (envelopeOf (rn_env en)))" "isUuidStr (e_msg_id (envelopeOf (rn_env en)))"
  using rt_envelope_common(1) [OF assms]
  by (auto simp: common_ok_def envelopeOf_def Let_def isUuid_def str_or_def split: option.splits json.splits)

lemma rt_envelope_stable:
  assumes "rt_codec cd" "rt_envelope cd v = Inr en"
  shows "rt_envelope cd (cd_reparse cd (rn_payload en)) = Inr en"
proof -
  note D = rt_envelopeD [OF assms(2)]
  have "visit (cd_reparse cd (rn_payload en)) 0" "cd_jcs cd (cd_reparse cd (rn_payload en)) = rn_payload en"
    using rt_codecD(1,2) [OF assms(1)] D(1,2) by simp_all
  with D show ?thesis
    by (simp add: rt_envelope_def json_text_def D(3) [symmetric])
qed

lemma readEnvelope_stored:
  assumes "rt_codec (nc_codec cf)" "rt_envelope (nc_codec cf) v = Inr en"
    and "k = (e_from_node (envelopeOf (rn_env en)), e_msg_id (envelopeOf (rn_env en)))"
    and "(if outbound then e_from_node (envelopeOf (rn_env en)) else e_to_node (envelopeOf (rn_env en))) = nc_node cf"
  shows "readEnvelope cf k (rn_digest en) (rn_payload en) outbound = Inr (rn_env en)"
  using assms rt_envelope_stable [OF assms(1,2)] rt_envelope_ids [OF assms(2)] rt_envelopeD [OF assms(2)]
    rt_codecD(3) [OF assms(1)]
  by (cases outbound) (simp_all add: readEnvelope_def storedIdentity_def Let_def)

lemma integer_arg_Inr: "integer_arg q = Inr n \<longleftrightarrow> q = of_nat n \<and> n \<le> 9007199254740991"
proof -
  have "isSafeInteger q \<and> 0 \<le> q \<and> n = nat \<lfloor>q\<rfloor>" if "q = of_nat n" "n \<le> 9007199254740991"
    using that by (simp add: isSafeInteger_def)
  moreover have "q = of_nat n \<and> n \<le> 9007199254740991" if "isSafeInteger q" "0 \<le> q" "n = nat \<lfloor>q\<rfloor>"
  proof -
    from that have "q = of_int \<lfloor>q\<rfloor>" "0 \<le> \<lfloor>q\<rfloor>" "q \<le> 9007199254740991" by (auto simp: isSafeInteger_def)
    then have "q = of_nat n" using that(3) by (metis of_int_of_nat_eq int_nat_eq)
    moreover from this \<open>q \<le> 9007199254740991\<close> have "(of_nat n :: rat) \<le> of_nat 9007199254740991" by simp
    ultimately show ?thesis by (simp only: of_nat_le_iff)
  qed
  ultimately show ?thesis by (auto simp: integer_arg_def not_less)
qed

section \<open>Single-row changes\<close>

definition clean :: "string \<Rightarrow> bool" where
  "clean s \<longleftrightarrow> CHR 0x00 \<notin> set s"

lemma text_col_clean [simp]: "clean s \<Longrightarrow> text_col s = s"
  by (auto simp: text_col_def clean_def takeWhile_eq_all_conv)

definition revision :: "node_db \<Rightarrow> string \<Rightarrow> nat" where
  "revision db k = (case map_of (nd_state db) k of None \<Rightarrow> 0 | Some r \<Rightarrow> sr_revision r)"

text \<open>A stored JSON text: the canonical form of some value of bounded depth.\<close>

definition canonical :: "codec \<Rightarrow> string \<Rightarrow> bool" where
  "canonical cd s \<longleftrightarrow> (\<exists>v. visit v 0 \<and> s = cd_jcs cd v)"

definition safe :: "nat \<Rightarrow> bool" where
  "safe n \<longleftrightarrow> n \<le> 9007199254740991"

inductive rt_eff :: "node_cfg \<Rightarrow> (string \<Rightarrow> bool) \<Rightarrow> node_db \<Rightarrow> node_db \<Rightarrow> bool" for cf P where
  received:
    "rt_envelope (nc_codec cf) v = Inr en \<Longrightarrow> e_to_node (envelopeOf (rn_env en)) = nc_node cf \<Longrightarrow>
     k = (e_from_node (envelopeOf (rn_env en)), e_msg_id (envelopeOf (rn_env en))) \<Longrightarrow> map_of (nd_inbox db) k = None \<Longrightarrow>
     rt_eff cf P db (db\<lparr>nd_inbox := AList.update k \<lparr>ib_digest = rn_digest en, ib_payload = Some (rn_payload en),
       ib_decision = Undecided, ib_state_key = None, ib_revision = None\<rparr> (nd_inbox db)\<rparr>)"
| decided:
    "map_of (nd_inbox db) k = Some row \<Longrightarrow> ib_decision row = Undecided \<Longrightarrow> status \<noteq> Undecided \<Longrightarrow> key_ok (nc_codec cf) sk \<Longrightarrow> P sk \<Longrightarrow>
     n = revision db sk \<Longrightarrow> status = Applied \<longrightarrow> 1 \<le> n \<Longrightarrow> safe n \<Longrightarrow>
     rt_eff cf P db (db\<lparr>nd_inbox := AList.update k (decide row status sk n) (nd_inbox db)\<rparr>)"
| sent:
    "rt_envelope (nc_codec cf) v = Inr en \<Longrightarrow> e_from_node (envelopeOf (rn_env en)) = nc_node cf \<Longrightarrow>
     k = (nc_node cf, e_msg_id (envelopeOf (rn_env en))) \<Longrightarrow> map_of (nd_delivery db) k = None \<Longrightarrow> map_of (nd_outbox db) k = None \<Longrightarrow>
     safe a \<Longrightarrow> safe l \<Longrightarrow>
     rt_eff cf P db (db\<lparr>nd_delivery := AList.update k \<lparr>dl_digest = rn_digest en, dl_status = Dl_pending, dl_stored_at = None\<rparr> (nd_delivery db),
       nd_outbox := AList.update k \<lparr>ob_payload = rn_payload en, ob_attempts = a, ob_last_at = l\<rparr> (nd_outbox db)\<rparr>)"
| retried:
    "map_of (nd_delivery db) k = Some d \<Longrightarrow> dl_status d = Dl_pending \<Longrightarrow> map_of (nd_outbox db) k = Some ob \<Longrightarrow> safe a \<Longrightarrow> safe l \<Longrightarrow>
     rt_eff cf P db (db\<lparr>nd_outbox := AList.update k (ob\<lparr>ob_attempts := a, ob_last_at := l\<rparr>) (nd_outbox db)\<rparr>)"
| released:
    "map_of (nd_delivery db) k = Some d \<Longrightarrow> dl_status d = Dl_pending \<Longrightarrow> validTime now \<Longrightarrow>
     rt_eff cf P db (db\<lparr>nd_delivery := AList.update k (d\<lparr>dl_status := Dl_stored, dl_stored_at := Some now\<rparr>) (nd_delivery db),
       nd_outbox := AList.delete k (nd_outbox db)\<rparr>)"
| pruned:
    "nc_retention cf \<noteq> None \<Longrightarrow> list_all (\<lambda>(k, d). aged cutoff d \<longrightarrow> map_of (nd_outbox db) k = None) (nd_delivery db) \<Longrightarrow>
     rt_eff cf P db (db\<lparr>nd_delivery := filter (\<lambda>(k, d). \<not> aged cutoff d) (nd_delivery db)\<rparr>)"
| advanced:
    "key_ok (nc_codec cf) sk \<Longrightarrow> P sk \<Longrightarrow> n = revision db sk + 1 \<Longrightarrow> safe n \<Longrightarrow> canonical (nc_codec cf) value \<Longrightarrow>
     rt_eff cf P db (db\<lparr>nd_state := AList.update sk \<lparr>sr_revision = n, sr_value = value\<rparr> (nd_state db)\<rparr>)"
| keyed:
    "rt_envelope (nc_codec cf) v = Inr en \<Longrightarrow> usesR1Dedup (e_type (envelopeOf (rn_env en))) \<Longrightarrow> isUuidStr f \<Longrightarrow> key_ok (nc_codec cf) sk \<Longrightarrow> P sk \<Longrightarrow>
     k = (f, sk, dedup_key (nc_codec cf) (rn_env en)) \<Longrightarrow> map_of (nd_dedup db) k = None \<Longrightarrow>
     rt_eff cf P db (db\<lparr>nd_dedup := AList.update k (body_digest (nc_codec cf) (rn_env en)) (nd_dedup db)\<rparr>)"
| intended:
    "key_ok (nc_codec cf) eid \<Longrightarrow> key_ok (nc_codec cf) kind \<Longrightarrow> key_ok (nc_codec cf) sk \<Longrightarrow> P eid \<Longrightarrow> P kind \<Longrightarrow> P sk \<Longrightarrow> canonical (nc_codec cf) payload \<Longrightarrow>
     map_of (nd_effects db) eid = None \<Longrightarrow> n = revision db sk \<Longrightarrow> 1 \<le> n \<Longrightarrow> safe n \<Longrightarrow>
     rt_eff cf P db (db\<lparr>nd_effects := AList.update eid \<lparr>er_state_key = sk, er_revision = n, er_kind = kind,
       er_payload = payload, er_done = False\<rparr> (nd_effects db)\<rparr>)"
| finished:
    "map_of (nd_effects db) eid = Some r \<Longrightarrow> \<not> er_done r \<Longrightarrow>
     rt_eff cf P db (db\<lparr>nd_effects := AList.update eid (r\<lparr>er_done := True\<rparr>) (nd_effects db)\<rparr>)"

abbreviation rt_effs :: "node_cfg \<Rightarrow> (string \<Rightarrow> bool) \<Rightarrow> node_db \<Rightarrow> node_db \<Rightarrow> bool" where
  "rt_effs cf P \<equiv> (rt_eff cf P)\<^sup>*\<^sup>*"

text \<open>
  The names an operation brings in: the state key of a transition, and the ids and kinds of the effects that its
  transform asks for, each of which satisfies \<open>P\<close>.
\<close>

definition effects_of :: "codec \<Rightarrow> json \<Rightarrow> json list" where
  "effects_of cd result =
     (case obj_get (cd_reparse cd (cd_jcs cd result)) ''effects'' of Some (JArr xs) \<Rightarrow> xs | _ \<Rightarrow> [])"

definition names_ok :: "(string \<Rightarrow> bool) \<Rightarrow> json \<Rightarrow> bool" where
  "names_ok P eff \<longleftrightarrow> (\<forall>s. obj_get eff ''id'' = Some (JStr s) \<or> obj_get eff ''kind'' = Some (JStr s) \<longrightarrow> P s)"

definition result_ok :: "codec \<Rightarrow> (string \<Rightarrow> bool) \<Rightarrow> json \<Rightarrow> bool" where
  "result_ok cd P result \<longleftrightarrow> (\<forall>eff \<in> set (effects_of cd result). names_ok P eff)"

fun op_keys :: "codec \<Rightarrow> (string \<Rightarrow> bool) \<Rightarrow> rt_op \<Rightarrow> bool" where
  "op_keys cd P (Op_transition k e t) \<longleftrightarrow> P k \<and> (\<forall>st r. t st = Inr r \<longrightarrow> result_ok cd P r)"
| "op_keys cd P (Op_consume rq t) \<longleftrightarrow> P (cr_stateKey rq) \<and> (\<forall>env st r. t env st = Inr r \<longrightarrow> result_ok cd P r)"
| "op_keys cd P _ \<longleftrightarrow> True"

lemma op_keys_True [simp]: "op_keys cd (\<lambda>_. True) x"
  by (cases x) (simp_all add: result_ok_def names_ok_def)

section \<open>Operations are sequences of changes\<close>

lemma valid_Inr [simp]: "valid c = Inr u \<longleftrightarrow> c"
  by (simp add: valid_def)

lemma valid_cases [simp]: "valid True = Inr ()" "valid False = Inl corrupt"
  by (simp_all add: valid_def)

text \<open>The fields that a change of the outbound tables leaves alone.\<close>

definition same_inbound :: "node_db \<Rightarrow> node_db \<Rightarrow> bool" where
  "same_inbound db db1 \<longleftrightarrow>
     nd_identity db1 = nd_identity db \<and> nd_inbox db1 = nd_inbox db \<and> nd_state db1 = nd_state db \<and>
     nd_dedup db1 = nd_dedup db \<and> nd_effects db1 = nd_effects db"

lemma same_inbound_refl [simp, intro]: "same_inbound db db"
  by (simp add: same_inbound_def)

lemma same_inbound_trans: "same_inbound a b \<Longrightarrow> same_inbound b c \<Longrightarrow> same_inbound a c"
  by (simp add: same_inbound_def)

lemma same_inbound_revision: "same_inbound db db1 \<Longrightarrow> revision db1 = revision db"
  by (simp add: same_inbound_def revision_def fun_eq_iff)

lemma findDelivery_Some:
  "findDelivery cf db k = Inr (Some d) \<Longrightarrow>
   map_of (nd_delivery db) k = Some d \<and> (dl_status d = Dl_pending \<longleftrightarrow> map_of (nd_outbox db) k \<noteq> None)"
  by (auto simp: findDelivery_def readDelivery_def split: option.splits)

lemma findDelivery_None:
  "findDelivery cf db k = Inr None \<Longrightarrow> map_of (nd_delivery db) k = None \<and> map_of (nd_outbox db) k = None"
  by (auto simp: findDelivery_def split: option.splits)

lemma saveEntry_effs:
  assumes "saveEntry cf db entry = Inr db1"
  shows "rt_effs cf P db db1" "same_inbound db db1"
proof -
  from assms obtain en a l prior where en: "rt_envelope (nc_codec cf) (oe_envelope entry) = Inr en"
    and from_node: "e_from_node (envelopeOf (rn_env en)) = nc_node cf"
    and al: "integer_arg (oe_attempts entry) = Inr a" "integer_arg (oe_last_at entry) = Inr l"
    and prior: "findDelivery cf db (nc_node cf, e_msg_id (envelopeOf (rn_env en))) = Inr prior"
    by (auto simp: saveEntry_def Let_def)
  have safe: "safe a" "safe l" using al by (simp_all add: integer_arg_Inr safe_def)
  have "rt_effs cf P db db1 \<and> same_inbound db db1"
  proof (cases prior)
    case None
    with assms en from_node al prior findDelivery_None [of cf db] rt_eff.sent [OF en from_node refl, of db a l P] safe
    show ?thesis
      by (auto simp: saveEntry_def Let_def same_inbound_def split: if_splits)
  next
    case (Some d)
    with prior have d: "map_of (nd_delivery db) (nc_node cf, e_msg_id (envelopeOf (rn_env en))) = Some d"
      "dl_status d = Dl_pending \<longleftrightarrow> map_of (nd_outbox db) (nc_node cf, e_msg_id (envelopeOf (rn_env en))) \<noteq> None"
      using findDelivery_Some by blast+
    show ?thesis
    proof (cases "dl_status d")
      case Dl_pending
      with d obtain ob where ob: "map_of (nd_outbox db) (nc_node cf, e_msg_id (envelopeOf (rn_env en))) = Some ob" by auto
      from assms en from_node al prior Some Dl_pending ob rt_eff.retried [OF d(1) Dl_pending ob, of a l cf P] safe show ?thesis
        by (auto simp: saveEntry_def Let_def same_inbound_def split: if_splits)
    next
      case Dl_stored
      with assms en from_node al prior Some show ?thesis
        by (auto simp: saveEntry_def Let_def split: if_splits)
    qed
  qed
  then show "rt_effs cf P db db1" "same_inbound db db1" by blast+
qed

lemma save_all_effs:
  "save_all cf db envs = Inr db1 \<Longrightarrow> rt_effs cf P db db1 \<and> same_inbound db db1"
proof (induction envs arbitrary: db)
  case Nil
  then show ?case by simp
next
  case (Cons env envs)
  then show ?case by (auto dest: saveEntry_effs intro: same_inbound_trans rtranclp_trans)
qed

lemma json_text_Inr: "json_text cd v = Inr s \<longleftrightarrow> (\<exists>j. v = Some j \<and> visit j 0 \<and> s = cd_jcs cd j)"
  by (auto simp: json_text_def split: option.splits)

lemma key_arg_Inr: "key_arg cd v = Inr s \<longleftrightarrow> v = Some (JStr s) \<and> key_ok cd s"
  by (auto simp: key_arg_def dest: str_of_SomeD split: option.splits if_splits)

text \<open>Adding effects touches the effect table only.\<close>

definition same_but_effects :: "node_db \<Rightarrow> node_db \<Rightarrow> bool" where
  "same_but_effects db db1 \<longleftrightarrow>
     nd_identity db1 = nd_identity db \<and> nd_inbox db1 = nd_inbox db \<and> nd_state db1 = nd_state db \<and>
     nd_dedup db1 = nd_dedup db \<and> nd_delivery db1 = nd_delivery db \<and> nd_outbox db1 = nd_outbox db"

lemma add_effect_eff:
  assumes "add_effect (nc_codec cf) sk n db eff = Inr db1" "n = revision db sk" "1 \<le> n" "safe n" "key_ok (nc_codec cf) sk"
    and P: "P sk" "names_ok P eff"
  shows "rt_eff cf P db db1" "same_but_effects db db1"
proof -
  from assms(1) obtain eid kind payload where *: "key_ok (nc_codec cf) eid" "key_ok (nc_codec cf) kind"
    "obj_get eff ''id'' = Some (JStr eid)" "obj_get eff ''kind'' = Some (JStr kind)" "canonical (nc_codec cf) payload" "map_of (nd_effects db) eid = None"
    "db1 = db\<lparr>nd_effects := AList.update eid \<lparr>er_state_key = sk, er_revision = n, er_kind = kind,
       er_payload = payload, er_done = False\<rparr> (nd_effects db)\<rparr>"
    by (auto simp: add_effect_def key_arg_Inr json_text_Inr canonical_def split: if_splits)
  have names: "P eid" "P kind" using P(2) *(3,4) by (auto simp: names_ok_def)
  show "rt_eff cf P db db1"
    unfolding *(7) by (rule intended [where P = P, OF *(1,2) assms(5) names P(1) *(5,6) assms(2-4)])
  show "same_but_effects db db1" using * by (simp add: same_but_effects_def)
qed

lemma same_but_effects_revision: "same_but_effects db db1 \<Longrightarrow> revision db1 = revision db"
  by (simp add: same_but_effects_def revision_def fun_eq_iff)

lemma add_effects_effs:
  "add_effects (nc_codec cf) sk n db effs = Inr db1 \<Longrightarrow> n = revision db sk \<Longrightarrow> 1 \<le> n \<Longrightarrow> safe n \<Longrightarrow>
   key_ok (nc_codec cf) sk \<Longrightarrow> P sk \<Longrightarrow> \<forall>eff \<in> set effs. names_ok P eff \<Longrightarrow>
   rt_effs cf P db db1 \<and> same_but_effects db db1"
proof (induction effs arbitrary: db)
  case Nil
  then show ?case by (simp add: same_but_effects_def)
next
  case (Cons eff effs)
  then obtain db2 where d: "add_effect (nc_codec cf) sk n db eff = Inr db2" "add_effects (nc_codec cf) sk n db2 effs = Inr db1"
    by auto
  have "names_ok P eff" using Cons.prems(7) by simp
  note s = add_effect_eff [where P = P, OF d(1) Cons.prems(2-6) this]
  with Cons.IH [OF d(2)] Cons.prems same_but_effects_revision [OF s(2)] have "rt_effs cf P db2 db1" "same_but_effects db2 db1"
    by simp_all
  with s show ?case by (auto simp: same_but_effects_def intro: converse_rtranclp_into_rtranclp)
qed

text \<open>What the transition committed, spelled out.\<close>

lemma applyTransition_steps:
  assumes "applyTransition cf db sk n result = Inr (db1, n1)"
  obtains outbox effects val db2 db3 where
    "visit result 0"
    "array_prop (obj_get (cd_reparse (nc_codec cf) (cd_jcs (nc_codec cf) result)) ''outbox'') = Inr outbox"
    "array_prop (obj_get (cd_reparse (nc_codec cf) (cd_jcs (nc_codec cf) result)) ''effects'') = Inr effects"
    "json_text (nc_codec cf) (obj_get (cd_reparse (nc_codec cf) (cd_jcs (nc_codec cf) result)) ''state'') = Inr val"
    "n1 = n + 1" "safe n1" "db2 = db\<lparr>nd_state := AList.update sk \<lparr>sr_revision = n1, sr_value = val\<rparr> (nd_state db)\<rparr>"
    "save_all cf db2 outbox = Inr db3" "add_effects (nc_codec cf) sk n1 db3 effects = Inr db1"
proof -
  from assms obtain outbox effects val r1 db3 where *:
    "visit result 0"
    "array_prop (obj_get (cd_reparse (nc_codec cf) (cd_jcs (nc_codec cf) result)) ''outbox'') = Inr outbox"
    "array_prop (obj_get (cd_reparse (nc_codec cf) (cd_jcs (nc_codec cf) result)) ''effects'') = Inr effects"
    "json_text (nc_codec cf) (obj_get (cd_reparse (nc_codec cf) (cd_jcs (nc_codec cf) result)) ''state'') = Inr val"
    "integer_arg (of_nat (n + 1)) = Inr n1"
    "save_all cf (db\<lparr>nd_state := AList.update sk \<lparr>sr_revision = n1, sr_value = val\<rparr> (nd_state db)\<rparr>) outbox = Inr db3"
    "add_effects (nc_codec cf) sk n1 db3 effects = Inr db1"
    by (auto simp: applyTransition_def Let_def json_text_Inr)
  from *(5) have "n1 = n + 1" "safe n1" unfolding integer_arg_Inr safe_def by (simp_all only: of_nat_eq_iff)
  with * show thesis by (intro that) auto
qed

lemma revision_update [simp]:
  "revision (db\<lparr>nd_state := AList.update sk r (nd_state db)\<rparr>) k = (if k = sk then sr_revision r else revision db k)"
  by (simp add: revision_def)

lemma array_prop_effects:
  "array_prop (obj_get (cd_reparse cd (cd_jcs cd result)) ''effects'') = Inr effects \<Longrightarrow> effects_of cd result = effects"
  by (auto simp: array_prop_def effects_of_def split: option.splits json.splits)

lemma applyTransition_effs:
  assumes "applyTransition cf db sk n result = Inr (db1, n1)" "n = revision db sk" "key_ok (nc_codec cf) sk"
    and P: "P sk" "result_ok (nc_codec cf) P result"
  shows "rt_effs cf P db db1" "n1 = n + 1" "safe n1" "revision db1 sk = n1" "nd_inbox db1 = nd_inbox db" "nd_dedup db1 = nd_dedup db"
proof -
  obtain outbox effects val db2 db3 where *:
    "array_prop (obj_get (cd_reparse (nc_codec cf) (cd_jcs (nc_codec cf) result)) ''effects'') = Inr effects"
    "json_text (nc_codec cf) (obj_get (cd_reparse (nc_codec cf) (cd_jcs (nc_codec cf) result)) ''state'') = Inr val"
    "n1 = n + 1" "safe n1" "db2 = db\<lparr>nd_state := AList.update sk \<lparr>sr_revision = n1, sr_value = val\<rparr> (nd_state db)\<rparr>"
    "save_all cf db2 outbox = Inr db3" "add_effects (nc_codec cf) sk n1 db3 effects = Inr db1"
    using applyTransition_steps [OF assms(1)] by metis
  have "rt_eff cf P db db2"
    unfolding *(5) using * assms by (intro advanced) (auto simp: json_text_Inr canonical_def)
  moreover have s: "rt_effs cf P db2 db3" "same_inbound db2 db3" using save_all_effs [OF *(6)] by simp_all
  moreover have r: "revision db3 sk = n1" using same_inbound_revision [OF s(2)] *(5) by simp
  moreover have e: "rt_effs cf P db3 db1 \<and> same_but_effects db3 db1"
    using add_effects_effs [where P = P, OF *(7) _ _ _ assms(3) P(1)] r * P(2) array_prop_effects [OF *(1)]
    by (simp add: result_ok_def)
  ultimately show "rt_effs cf P db db1" "n1 = n + 1" "safe n1" "revision db1 sk = n1"
    "nd_inbox db1 = nd_inbox db" "nd_dedup db1 = nd_dedup db"
    using * by (auto simp: same_inbound_def same_but_effects_def revision_def)
qed

lemma capacity_Inr:
  "capacity cf db = Inr u \<longleftrightarrow> usage_entries db \<le> nc_maxEntries cf \<and> usage_bytes (nc_codec cf) db \<le> nc_maxBytes cf \<and>
     safe (usage_entries db) \<and> safe (usage_bytes (nc_codec cf) db)"
  by (auto simp: capacity_def readUsage_def storedInteger_def safe_def split: prod.splits)

lemma readState_revision:
  "readState cd db k = Inr st \<Longrightarrow> key_ok cd k \<and> revision_of st = revision db k"
  by (auto simp: readState_def decodeState_def revision_of_def revision_def split: option.splits)

lemma nr_transition_effs:
  assumes "nr_transition cf db sk e t = Inr (db1, n)"
    and P: "op_keys (nc_codec cf) P (Op_transition sk e t)"
  shows "rt_effs cf P db db1" "n = revision db sk + 1" "revision db1 sk = n" "e = of_nat (revision db sk)" "capacity cf db1 = Inr ()"
    "nd_inbox db1 = nd_inbox db" "nd_dedup db1 = nd_dedup db"
proof -
  from assms obtain st result where *: "key_ok (nc_codec cf) sk" "readState (nc_codec cf) db sk = Inr st"
    "integer_arg e = Inr (revision_of st)" "applyTransition cf db sk (revision_of st) result = Inr (db1, n)" "capacity cf db1 = Inr ()" "t st = Inr result"
    by (auto simp: nr_transition_def split: prod.splits)
  have r: "revision_of st = revision db sk" using readState_revision [OF *(2)] by simp
  have "P sk" "result_ok (nc_codec cf) P result" using P *(6) by auto
  note applyTransition_effs [where P = P, OF *(4) r *(1) this]
  with r * show "rt_effs cf P db db1" "n = revision db sk + 1" "revision db1 sk = n" "e = of_nat (revision db sk)"
    "capacity cf db1 = Inr ()" "nd_inbox db1 = nd_inbox db" "nd_dedup db1 = nd_dedup db"
    by (simp_all add: integer_arg_Inr)
qed

lemma readInbox_undecided:
  assumes "readInbox cf db k row = Inr env" "ib_decision row = Undecided"
  obtains v en p where "env = Some (rn_env en)" "rt_envelope (nc_codec cf) v = Inr en" "isUuidStr (fst k)" "ib_payload row = Some p"
    "e_from_node (envelopeOf (rn_env en)) = fst k" "e_msg_id (envelopeOf (rn_env en)) = snd k"
  using assms
  by (auto simp: readInbox_def readEnvelope_def storedIdentity_def Let_def split: option.splits sum.splits if_splits)

lemma readInbox_decided:
  "readInbox cf db k row = Inr env \<Longrightarrow> ib_decision row \<noteq> Undecided \<Longrightarrow> env = None"
  by (auto simp: readInbox_def split: option.splits)

lemma r1_gate_effs:
  assumes "r1_gate (nc_codec cf) db f sk (rn_env en) = Inr (db1, status)" "rt_envelope (nc_codec cf) v = Inr en"
    "isUuidStr f" "key_ok (nc_codec cf) sk" "P sk"
  shows "rt_effs cf P db db1" "status \<noteq> Undecided" "nd_state db1 = nd_state db" "nd_inbox db1 = nd_inbox db"
    "status \<noteq> Applied \<Longrightarrow> db1 = db"
proof -
  have "rt_effs cf P db db1 \<and> status \<noteq> Undecided \<and> nd_state db1 = nd_state db \<and> nd_inbox db1 = nd_inbox db \<and>
    (status \<noteq> Applied \<longrightarrow> db1 = db)"
    using assms(1) keyed [where P = P, OF assms(2) _ assms(3,4,5) refl, of db]
    by (auto simp: r1_gate_def Let_def split: if_splits option.splits)
  then show "rt_effs cf P db db1" "status \<noteq> Undecided" "nd_state db1 = nd_state db" "nd_inbox db1 = nd_inbox db"
    "status \<noteq> Applied \<Longrightarrow> db1 = db" by blast+
qed

text \<open>A call of \<open>consume\<close> that returns: the message is unknown, was decided before, or is decided now.\<close>

lemma nr_consume_cases:
  assumes "nr_consume cf db rq t = Inr (db1, res)"
  defines "k \<equiv> (cr_fromNode rq, cr_msgId rq)" and "sk \<equiv> cr_stateKey rq"
  obtains (missing) "map_of (nd_inbox db) k = None" "db1 = db" "res = Cn_missing"
  | (before) row where "map_of (nd_inbox db) k = Some row" "ib_decision row \<noteq> Undecided" "db1 = db"
      "map_option text_col (ib_state_key row) = Some sk" "res = Cn_decided (ib_decision row) (the (ib_revision row))"
  | (now) row v en db2 db3 status n where "map_of (nd_inbox db) k = Some row" "ib_decision row = Undecided"
      "rt_envelope (nc_codec cf) v = Inr en" "e_from_node (envelopeOf (rn_env en)) = fst k"
      "e_msg_id (envelopeOf (rn_env en)) = snd k"
      "r1_gate (nc_codec cf) db (cr_fromNode rq) sk (rn_env en) = Inr (db2, status)"
      "key_ok (nc_codec cf) sk" "cr_expectedRevision rq = of_nat (revision db sk)" "isUuidStr (cr_fromNode rq)"
      "if status = Applied
       then \<exists>st result. readState (nc_codec cf) db sk = Inr st \<and> t (rn_env en) st = Inr result \<and>
              applyTransition cf db2 sk (revision db sk) result = Inr (db3, n)
       else db3 = db2 \<and> n = revision db sk"
      "db1 = db3\<lparr>nd_inbox := AList.update k (decide row status sk n) (nd_inbox db3)\<rparr>"
      "capacity cf db1 = Inr ()" "res = Cn_decided status n" "safe (revision db sk)"
proof -
  from assms obtain expected where c: "consume_tx cf db rq expected t = Inr (db1, res)" and key: "key_ok (nc_codec cf) sk"
    and ex: "cr_expectedRevision rq = of_nat expected" "safe expected" and uuid: "isUuidStr (cr_fromNode rq)"
    by (auto simp: nr_consume_def integer_arg_Inr safe_def)
  show thesis
  proof (cases "map_of (nd_inbox db) k")
    case None
    from c have "db1 = db" "res = Cn_missing" using None unfolding consume_tx_def Let_def k_def by simp_all
    with None show thesis by (rule missing)
  next
    case (Some row)
    show thesis
    proof (cases "ib_decision row = Undecided")
      case False
      from c have "db1 = db" "map_option text_col (ib_state_key row) = Some sk"
        "res = Cn_decided (ib_decision row) (the (ib_revision row))"
        using Some False unfolding consume_tx_def Let_def k_def sk_def by auto
      with Some False show thesis by (intro before)
    next
      case True
      from c Some True obtain env st where env: "readInbox cf db k row = Inr (Some env)"
        and st: "readState (nc_codec cf) db sk = Inr st" "revision_of st = expected"
        by (auto simp: consume_tx_def Let_def k_def sk_def split: option.splits)
      obtain v en where en: "env = rn_env en" "rt_envelope (nc_codec cf) v = Inr en"
        "e_from_node (envelopeOf (rn_env en)) = fst k" "e_msg_id (envelopeOf (rn_env en)) = snd k"
        using readInbox_undecided [OF env True] by blast
      from c Some True env st obtain db2 status where gate: "r1_gate (nc_codec cf) db (cr_fromNode rq) sk env = Inr (db2, status)"
        by (auto simp: consume_tx_def Let_def k_def sk_def split: option.splits prod.splits)
      have r: "expected = revision db sk" using st readState_revision by auto
      from c Some True env st gate obtain db3 n where tr:
        "(if status = Applied then andThen (t env st) (\<lambda>result. applyTransition cf db2 sk (revision_of st) result)
          else Inr (db2, revision_of st)) = Inr (db3, n)"
        and fin: "db1 = db3\<lparr>nd_inbox := AList.update k (decide row status sk n) (nd_inbox db3)\<rparr>"
          "capacity cf db1 = Inr ()" "res = Cn_decided status n"
        by (auto simp: consume_tx_def Let_def k_def sk_def split: option.splits prod.splits if_splits)
      show thesis
        using now [OF Some True en(2,3,4) gate [unfolded en(1)] key _ uuid _ fin] tr r ex st en(1)
        by (auto split: if_splits)
    qed
  qed
qed

lemma nr_consume_effs:
  assumes "nr_consume cf db rq t = Inr (db1, res)"
    and P: "op_keys (nc_codec cf) P (Op_consume rq t)"
  shows "rt_effs cf P db db1"
  using assms(1)
proof (cases rule: nr_consume_cases)
  case (now row v en db2 db3 status n)
  have "P (cr_stateKey rq)" using P by simp
  note g = r1_gate_effs [where P = P, OF now(6,3,9,7) this]
  have r2: "revision db2 = revision db" using g(3) by (simp add: revision_def fun_eq_iff)
  have "rt_effs cf P db2 db3 \<and> n = revision db3 (cr_stateKey rq) \<and> (status = Applied \<longrightarrow> 1 \<le> n) \<and> nd_inbox db3 = nd_inbox db \<and> safe n"
  proof (cases "status = Applied")
    case True
    with now(10) obtain result st where r: "t (rn_env en) st = Inr result" and "applyTransition cf db2 (cr_stateKey rq) (revision db (cr_stateKey rq)) result = Inr (db3, n)"
      by auto
    from applyTransition_effs [where P = P, OF this(2) _ now(7)] r r2 g(4) P show ?thesis by simp
  next
    case False
    with now(10,14) r2 g(4) show ?thesis by simp
  qed
  then have e: "rt_effs cf P db2 db3" and n: "n = revision db3 (cr_stateKey rq)" "status = Applied \<longrightarrow> 1 \<le> n" "safe n"
    and row: "map_of (nd_inbox db3) (cr_fromNode rq, cr_msgId rq) = Some row" using now(1) by auto
  have "rt_eff cf P db3 db1" unfolding now(11)
    by (rule decided [where P = P, OF row now(2) g(2) now(7) \<open>P (cr_stateKey rq)\<close> n])
  with g(1) e show ?thesis by auto
qed simp_all

lemma nr_stored_cases:
  assumes "nr_stored cf now db f m g = Inr (db1, b)"
  obtains (ignored) "db1 = db" "\<not> b"
  | (again) d where "db1 = db" "b" "map_of (nd_delivery db) (f, m) = Some d" "dl_status d = Dl_stored" "dl_digest d = g" "f = nc_node cf"
  | (released) d where "b" "map_of (nd_delivery db) (f, m) = Some d" "dl_status d = Dl_pending" "dl_digest d = g" "validTime now"
      "f = nc_node cf"
      "db1 = db\<lparr>nd_delivery := AList.update (f, m) (d\<lparr>dl_status := Dl_stored, dl_stored_at := Some now\<rparr>) (nd_delivery db),
                nd_outbox := AList.delete (f, m) (nd_outbox db)\<rparr>"
proof (cases "b")
  case False
  with assms ignored show thesis
    by (auto simp: nr_stored_def Let_def split: if_splits option.splits)
next
  case True
  with assms obtain d where d: "findDelivery cf db (f, m) = Inr (Some d)" "dl_digest d = g" "validTime now" "f = nc_node cf"
    and db1: "db1 = db\<lparr>nd_delivery := (if dl_status d = Dl_pending
        then AList.update (f, m) (d\<lparr>dl_status := Dl_stored, dl_stored_at := Some now\<rparr>) (nd_delivery db) else nd_delivery db),
        nd_outbox := AList.delete (f, m) (nd_outbox db)\<rparr>"
    by (auto simp: nr_stored_def Let_def split: if_splits option.splits)
  note f = findDelivery_Some [OF d(1)]
  show thesis
  proof (cases "dl_status d")
    case Dl_pending
    with True d f db1 show thesis by (intro released) auto
  next
    case Dl_stored
    with f have "map_of (nd_outbox db) (f, m) = None" by auto
    then have "AList.delete (f, m) (nd_outbox db) = nd_outbox db"
      by (auto simp: map_of_eq_None_iff intro: delete_notin_dom)
    with Dl_stored True d f db1 show thesis by (intro again) auto
  qed
qed

lemma nr_stored_effs: "nr_stored cf now db f m g = Inr (db1, b) \<Longrightarrow> rt_effs cf P db db1"
  by (erule nr_stored_cases) (auto intro: rt_eff.released)

lemma nr_prune_effs:
  assumes "nr_prune cf now db = Inr (db1, n)"
  shows "rt_effs cf P db db1"
proof (cases "nc_retention cf")
  case None
  with assms show ?thesis by (simp add: nr_prune_def)
next
  case (Some ret)
  then have "rt_eff cf P db (db\<lparr>nd_delivery := filter (\<lambda>(k, d). \<not> aged (now - ret) d) (nd_delivery db)\<rparr>)"
    if "\<not> list_ex (\<lambda>(k, d). map_of (nd_outbox db) k \<noteq> None) (filter (\<lambda>(k, d). aged (now - ret) d) (nd_delivery db))"
    using that by (intro pruned) (auto simp: list_ex_iff list_all_iff)
  with assms Some show ?thesis
    by (auto simp: nr_prune_def Let_def split: if_splits)
qed

lemma receive_cases:
  assumes "nr_receive cf db v = Inr (db1, res)"
  obtains (known) en row where "rt_envelope (nc_codec cf) v = Inr en" "db1 = db"
      "map_of (nd_inbox db) (e_from_node (envelopeOf (rn_env en)), e_msg_id (envelopeOf (rn_env en))) = Some row"
      "res = (if ib_digest row = rn_digest en then Rv_duplicate else Rv_conflict)"
  | (full) "db1 = db" "res = Rv_full"
  | (new) en where "rt_envelope (nc_codec cf) v = Inr en" "e_to_node (envelopeOf (rn_env en)) = nc_node cf"
      "map_of (nd_inbox db) (e_from_node (envelopeOf (rn_env en)), e_msg_id (envelopeOf (rn_env en))) = None"
      "res = Rv_new" "capacity cf db1 = Inr ()"
      "db1 = db\<lparr>nd_inbox := AList.update (e_from_node (envelopeOf (rn_env en)), e_msg_id (envelopeOf (rn_env en)))
         \<lparr>ib_digest = rn_digest en, ib_payload = Some (rn_payload en), ib_decision = Undecided,
          ib_state_key = None, ib_revision = None\<rparr> (nd_inbox db)\<rparr>"
proof -
  from assms obtain en where en: "rt_envelope (nc_codec cf) v = Inr en" "e_to_node (envelopeOf (rn_env en)) = nc_node cf"
    and c: "(case receive_tx cf db en of
          Inl e \<Rightarrow> if e = Domain_error Rc_full then Inr (db, Rv_full) else Inl e
        | Inr r \<Rightarrow> Inr r) = Inr (db1, res)"
    by (auto simp: nr_receive_def)
  have r: "receive_tx cf db en = Inr (db1, res) \<or> db1 = db \<and> res = Rv_full"
    using c by (cases "receive_tx cf db en") (auto split: if_splits)
  from r show thesis
  proof
    assume t: "receive_tx cf db en = Inr (db1, res)"
    show thesis
    proof (cases "map_of (nd_inbox db) (e_from_node (envelopeOf (rn_env en)), e_msg_id (envelopeOf (rn_env en)))")
      case None
      with t en show thesis by (intro new) (auto simp: receive_tx_def Let_def split: if_splits)
    next
      case (Some row)
      with t en show thesis by (intro known [of en row]) (auto simp: receive_tx_def Let_def)
    qed
  next
    assume "db1 = db \<and> res = Rv_full"
    then show thesis by (auto intro: full)
  qed
qed

lemma nr_receive_effs: "nr_receive cf db v = Inr (db1, res) \<Longrightarrow> rt_effs cf P db db1"
  by (erule receive_cases) (auto intro: rt_eff.received)

lemma nr_completeEffect_cases:
  assumes "nr_completeEffect cf db eid sk rv allow = Inr (db1, b)"
  obtains (no) "db1 = db" "\<not> b"
  | (yes) r where "b" "map_of (nd_effects db) eid = Some r" "\<not> er_done r" "er_state_key r = sk" "rv = of_nat (er_revision r)"
      "allow \<or> map_option sr_revision (map_of (nd_state db) sk) = Some (er_revision r)"
      "db1 = db\<lparr>nd_effects := AList.update eid (r\<lparr>er_done := True\<rparr>) (nd_effects db)\<rparr>"
  using assms by (auto simp: nr_completeEffect_def integer_arg_Inr split: option.splits if_splits)

lemma nr_completeEffect_effs: "nr_completeEffect cf db eid sk rv allow = Inr (db1, b) \<Longrightarrow> rt_effs cf P db db1"
  by (erule nr_completeEffect_cases) (auto intro: finished)

lemma with_out_Inr: "with_out f m = Inr (db, out) \<longleftrightarrow> (\<exists>r. m = Inr (db, r) \<and> out = f r)"
  by (auto simp: with_out_def)

lemma read_out_Inr: "read_out db f m = Inr (db1, out) \<longleftrightarrow> (\<exists>r. m = Inr r \<and> db1 = db \<and> out = f r)"
  by (auto simp: read_out_def)

lemma nr_all_same: "nr_all cf db = Inr (db1, r) \<Longrightarrow> db1 = db"
  by (auto simp: nr_all_def)

lemma nr_save_effs: "nr_save cf db entry = Inr db1 \<Longrightarrow> rt_effs cf P db db1"
  by (auto simp: nr_save_def dest: saveEntry_effs)

text \<open>The refinement: an operation that returns has performed a sequence of single-row changes.\<close>

lemma rt_exec_effs: "rt_exec cf x db = Inr (db1, out) \<Longrightarrow> op_keys (nc_codec cf) P x \<Longrightarrow> rt_effs cf P db db1"
proof (cases x)
  case (Op_transition sk e t)
  assume "rt_exec cf x db = Inr (db1, out)" "op_keys (nc_codec cf) P x"
  with Op_transition show ?thesis by (auto simp: with_out_Inr simp del: op_keys.simps intro: nr_transition_effs(1))
next
  case (Op_consume rq t)
  assume "rt_exec cf x db = Inr (db1, out)" "op_keys (nc_codec cf) P x"
  with Op_consume show ?thesis by (auto simp: with_out_Inr simp del: op_keys.simps intro: nr_consume_effs)
qed (auto simp: with_out_Inr read_out_Inr dest: nr_all_same nr_save_effs nr_stored_effs nr_prune_effs nr_receive_effs
        nr_completeEffect_effs)

end
