(* ===== verification/Json_Codec.thy ===== *)
theory Json_Codec
  imports Node_Store_Props Json_Read
begin

text \<open>
  A concrete codec: a printer of JSON values into text and the parser that inverts it. The program's canonical
  JSON is a parameter everywhere else; this instance shows that what is relied on of it can hold, and the
  examples of the node store compute with it.
\<close>

definition enc_str :: "string \<Rightarrow> string" where
  "enc_str s = concat (map (\<lambda>c. [CHR ''.'', c]) s) @ '';''"

definition enc_num :: "number \<Rightarrow> string" where
  "enc_num q =
     (case quotient_of q of (a, b) \<Rightarrow>
        (if a < 0 then CHR ''-'' else CHR ''+'') # replicate (nat \<bar>a\<bar>) (CHR ''1'') @ ''/'' @ replicate (nat b) (CHR ''1'') @ '';'')"

fun enc :: "json \<Rightarrow> string" where
  "enc JNull = ''n''"
| "enc (JBool b) = (if b then ''t'' else ''f'')"
| "enc (JNum q) = CHR ''#'' # enc_num q"
| "enc (JStr s) = CHR ''s'' # enc_str s"
| "enc (JArr xs) = CHR ''['' # concat (map enc xs) @ '']''"
| "enc (JObj fs) = CHR ''{'' # concat (map (\<lambda>f. enc_str (fst f) @ enc (snd f)) fs) @ ''}''"

fun dec_str :: "string \<Rightarrow> (string \<times> string) option" where
  "dec_str [] = None"
| "dec_str [a] = (if a = CHR '';'' then Some ([], []) else None)"
| "dec_str (a # c # r) =
     (if a = CHR '';'' then Some ([], c # r) else map_option (\<lambda>(x, y). (c # x, y)) (dec_str r))"

definition is_one :: "char \<Rightarrow> bool" where
  "is_one c \<longleftrightarrow> c = CHR ''1''"

definition dec_num :: "string \<Rightarrow> (number \<times> string) option" where
  "dec_num s =
     (case s of
        [] \<Rightarrow> None
      | sg # r \<Rightarrow>
          (let r1 = drop 1 (dropWhile is_one r); n = of_nat (length (takeWhile is_one r)); d = of_nat (length (takeWhile is_one r1))
           in Some ((if sg = CHR ''-'' then - n else n) / d, drop 1 (dropWhile is_one r1))))"

fun dec :: "nat \<Rightarrow> string \<Rightarrow> (json \<times> string) option"
  and dec_list :: "nat \<Rightarrow> string \<Rightarrow> (json list \<times> string) option"
  and dec_fields :: "nat \<Rightarrow> string \<Rightarrow> ((string \<times> json) list \<times> string) option" where
  "dec 0 s = None"
| "dec (Suc n) [] = None"
| "dec (Suc n) (c # r) =
     (if c = CHR ''n'' then Some (JNull, r)
      else if c = CHR ''t'' then Some (JBool True, r)
      else if c = CHR ''f'' then Some (JBool False, r)
      else if c = CHR ''#'' then map_option (\<lambda>(q, y). (JNum q, y)) (dec_num r)
      else if c = CHR ''s'' then map_option (\<lambda>(x, y). (JStr x, y)) (dec_str r)
      else if c = CHR ''['' then map_option (\<lambda>(x, y). (JArr x, y)) (dec_list n r)
      else if c = CHR ''{'' then map_option (\<lambda>(x, y). (JObj x, y)) (dec_fields n r)
      else None)"
| "dec_list 0 s = None"
| "dec_list (Suc n) s =
     (if take 1 s = '']'' then Some ([], drop 1 s)
      else (case dec n s of
        None \<Rightarrow> None
      | Some (x, r) \<Rightarrow> map_option (\<lambda>(xs, y). (x # xs, y)) (dec_list n r)))"
| "dec_fields 0 s = None"
| "dec_fields (Suc n) s =
     (if take 1 s = ''}'' then Some ([], drop 1 s)
      else (case dec_str s of
        None \<Rightarrow> None
      | Some (k, r) \<Rightarrow>
          (case dec n r of
             None \<Rightarrow> None
           | Some (x, r1) \<Rightarrow> map_option (\<lambda>(xs, y). ((k, x) # xs, y)) (dec_fields n r1))))"

definition reparse :: "string \<Rightarrow> json" where
  "reparse s = (case dec (length s) s of Some (v, []) \<Rightarrow> v | _ \<Rightarrow> JNull)"

lemma dec_enc_str [simp]: "dec_str (enc_str s @ r) = Some (s, r)"
  by (induction s) (auto simp: enc_str_def, cases r, simp_all)

lemma takeWhile_ones:
  "takeWhile is_one (replicate n (CHR ''1'') @ c # r) = replicate n (CHR ''1'') @ (if is_one c then CHR ''1'' # takeWhile is_one r else [])"
  "\<not> is_one c \<Longrightarrow> dropWhile is_one (replicate n (CHR ''1'') @ c # r) = c # r"
  by (induction n) (auto simp: is_one_def)

lemma dec_enc_num [simp]: "dec_num (enc_num q @ r) = Some (q, r)"
proof -
  obtain a b where ab: "quotient_of q = (a, b)" by (cases "quotient_of q")
  have b: "0 < b" using quotient_of_denom_pos [OF ab] .
  have q: "q = of_int a / of_int b" using quotient_of_div [OF ab] .
  have n: "(of_nat (nat \<bar>a\<bar>) :: rat) = of_int \<bar>a\<bar>" "(of_nat (nat b) :: rat) = of_int b"
    using b by simp_all
  have one: "\<not> is_one (CHR ''/'')" "\<not> is_one (CHR '';'')" by (simp_all add: is_one_def)
  have "(if a < 0 then - of_int \<bar>a\<bar> else of_int \<bar>a\<bar> :: rat) = of_int a" by simp
  then have "dec_num (enc_num q @ r) = Some (of_int a / of_int b, r)"
    using b by (simp add: enc_num_def ab dec_num_def Let_def takeWhile_ones one n split: if_splits)
  with q show ?thesis by simp
qed

lemma enc_str_neq: "take 1 (enc_str s @ r) \<noteq> ''}''"
  by (cases s) (simp_all add: enc_str_def)

lemma enc_pos: "0 < length (enc v)" "take 1 (enc v @ r) \<noteq> '']''"
  by (cases v; simp)+

text \<open>Enough fuel parses exactly the printed prefix.\<close>

lemma dec_list_enc:
  assumes "\<And>x n r. x \<in> set xs \<Longrightarrow> length (enc x) \<le> n \<Longrightarrow> dec n (enc x @ r) = Some (x, r)"
    and "length (concat (map enc xs)) + 1 \<le> n"
  shows "dec_list n (concat (map enc xs) @ '']'' @ r) = Some (xs, r)"
  using assms
proof (induction xs arbitrary: n)
  case Nil
  then show ?case by (cases n) simp_all
next
  case (Cons x xs)
  then obtain m where m: "n = Suc m" by (cases n) simp_all
  have "length (enc x) \<le> m" "length (concat (map enc xs)) + 1 \<le> m"
    using Cons.prems(2) m enc_pos(1) [of x] by (simp, simp del: length_greater_0_conv)
  moreover from this have "dec_list m (concat (map enc xs) @ '']'' @ r) = Some (xs, r)"
    by (intro Cons.IH) (simp_all add: Cons.prems(1))
  ultimately show ?case
    using Cons.prems(1) [of x m "concat (map enc xs) @ '']'' @ r"] enc_pos(2) [of x "concat (map enc xs) @ '']'' @ r"] m by simp
qed

lemma dec_fields_enc:
  assumes "\<And>f n r. f \<in> set fs \<Longrightarrow> length (enc (snd f)) \<le> n \<Longrightarrow> dec n (enc (snd f) @ r) = Some (snd f, r)"
    and "length (concat (map (\<lambda>f. enc_str (fst f) @ enc (snd f)) fs)) + 1 \<le> n"
  shows "dec_fields n (concat (map (\<lambda>f. enc_str (fst f) @ enc (snd f)) fs) @ ''}'' @ r) = Some (fs, r)"
  using assms
proof (induction fs arbitrary: n)
  case Nil
  then show ?case by (cases n) simp_all
next
  case (Cons f fs)
  then obtain m where m: "n = Suc m" by (cases n) simp_all
  let ?rest = "concat (map (\<lambda>f. enc_str (fst f) @ enc (snd f)) fs) @ ''}'' @ r"
  have "length (enc (snd f)) \<le> m" "length (concat (map (\<lambda>f. enc_str (fst f) @ enc (snd f)) fs)) + 1 \<le> m"
    using Cons.prems(2) m enc_pos(1) [of "snd f"] by (simp, simp del: length_greater_0_conv)
  moreover from this have "dec_fields m ?rest = Some (fs, r)"
    by (intro Cons.IH) (simp_all add: Cons.prems(1))
  ultimately show ?case
    using Cons.prems(1) [of f m ?rest] enc_str_neq [of "fst f" "enc (snd f) @ ?rest"] m by (cases f) simp
qed

lemma dec_enc: "length (enc v) \<le> n \<Longrightarrow> dec n (enc v @ r) = Some (v, r)"
proof (induction v arbitrary: n r)
  case JNull
  then show ?case by (cases n) simp_all
next
  case (JBool b)
  then show ?case by (cases n; cases b) simp_all
next
  case (JNum q)
  then show ?case by (cases n) simp_all
next
  case (JStr s)
  then show ?case by (cases n) simp_all
next
  case (JArr xs)
  then obtain m where m: "n = Suc m" by (cases n) simp_all
  with JArr.prems have "dec_list m (concat (map enc xs) @ '']'' @ r) = Some (xs, r)"
    by (intro dec_list_enc JArr.IH) simp_all
  with m show ?case by simp
next
  case (JObj fs)
  then obtain m where m: "n = Suc m" by (cases n) simp_all
  have "dec k (enc (snd f) @ s) = Some (snd f, s)" if "f \<in> set fs" "length (enc (snd f)) \<le> k" for f k s
    using that by (intro JObj.IH [of f]) (auto simp: snds.simps)
  then have "dec_fields m (concat (map (\<lambda>f. enc_str (fst f) @ enc (snd f)) fs) @ ''}'' @ r) = Some (fs, r)"
    using JObj.prems m by (intro dec_fields_enc) simp_all
  with m show ?case by simp
qed

lemma reparse_enc [simp]: "reparse (enc v) = v"
  using dec_enc [of v "length (enc v)" "[]"] by (simp add: reparse_def)

text \<open>The example codec. Its digest is a 64-digit text that tells lengths apart.\<close>

definition toy_sha :: "string \<Rightarrow> string" where
  "toy_sha s = replicate 63 (CHR ''a'') @ [''0123456789abcdef'' ! (length s mod 16)]"

definition text_codec :: codec where
  "text_codec = \<lparr>cd_jcs = enc, cd_reparse = reparse, cd_sha = toy_sha, cd_bytes = length,
     cd_parse = (\<lambda>_. Some 1000), cd_b64len = (\<lambda>_. 64), cd_b64canon = (\<lambda>_. True)\<rparr>"

lemma list_all2_replicate: "P x y \<Longrightarrow> list_all2 P (replicate n x) (replicate n y)"
  by (simp add: list_all2_conv_all_nth)

lemma toy_sha_digest: "is_digest (toy_sha s)"
proof -
  have "''0123456789abcdef'' ! i \<in> set ''0123456789abcdef''" if "i < 16" for i
    using that by (intro nth_mem) simp
  then have "is_hex (''0123456789abcdef'' ! (length s mod 16))" unfolding is_hex_def by simp
  moreover have "replicate 64 is_hex = replicate 63 is_hex @ [is_hex]"
    by (simp add: numeral_eq_Suc replicate_append_same [symmetric])
  moreover have "is_hex (CHR ''a'')" by (simp add: is_hex_def)
  ultimately show ?thesis
    unfolding is_digest_def matches_def toy_sha_def
    by (simp add: list_all2_append list_all2_replicate)
qed

lemma text_codec_ok: "rt_codec text_codec"
  unfolding rt_codec_def text_codec_def by (simp del: enc.simps add: toy_sha_digest)

section \<open>Values through the store\<close>

text \<open>Writing a value as canonical JSON and parsing it again.\<close>

definition via_text :: "codec \<Rightarrow> json \<Rightarrow> json" where
  "via_text cd v = cd_reparse cd (cd_jcs cd v)"

definition canon :: "codec \<Rightarrow> body \<Rightarrow> body" where
  "canon cd fs = (case via_text cd (JObj fs) of JObj gs \<Rightarrow> gs | _ \<Rightarrow> [])"

text \<open>
  What is relied on of canonical JSON and \<open>JSON.parse\<close>: scalars and arrays come back as they were, an object comes
  back as an object with the same properties, in an order of its own.
\<close>

definition json_values :: "codec \<Rightarrow> bool" where
  "json_values cd \<longleftrightarrow>
     via_text cd JNull = JNull \<and> (\<forall>b. via_text cd (JBool b) = JBool b) \<and> (\<forall>q. via_text cd (JNum q) = JNum q) \<and>
     (\<forall>s. via_text cd (JStr s) = JStr s) \<and> (\<forall>xs. via_text cd (JArr xs) = JArr (map (via_text cd) xs)) \<and>
     (\<forall>fs. via_text cd (JObj fs) = JObj (canon cd fs) \<and>
        (\<forall>k. map_of (canon cd fs) k = map_option (via_text cd) (map_of fs k)) \<and>
        set (canon cd fs) \<subseteq> (\<lambda>(k, v). (k, via_text cd v)) ` set fs)"

lemma json_valuesD [simp]:
  assumes "json_values cd"
  shows "via_text cd JNull = JNull" "via_text cd (JBool b) = JBool b" "via_text cd (JNum q) = JNum q"
    "via_text cd (JStr s) = JStr s" "via_text cd (JArr xs) = JArr (map (via_text cd) xs)"
    "via_text cd (JObj fs) = JObj (canon cd fs)" "map_of (canon cd fs) k = map_option (via_text cd) (map_of fs k)"
  using assms by (simp_all add: json_values_def)

lemma canon_sub: "json_values cd \<Longrightarrow> set (canon cd fs) \<subseteq> (\<lambda>(k, v). (k, via_text cd v)) ` set fs"
  unfolding json_values_def by blast

lemma via_text_codec [simp]: "via_text text_codec v = v"
  by (simp add: via_text_def text_codec_def del: enc.simps)

lemma text_codec_values: "json_values text_codec"
proof -
  have "via_text text_codec = (\<lambda>v. v)" by (rule ext) simp
  then show ?thesis by (simp add: json_values_def canon_def option.map_ident image_def split_beta)
qed

lemma via_shape [simp]:
  assumes "json_values cd"
  shows "via_text cd v = JStr s \<longleftrightarrow> v = JStr s" "via_text cd v = JNum q \<longleftrightarrow> v = JNum q" "via_text cd v = JNull \<longleftrightarrow> v = JNull"
    "via_text cd v = JArr [] \<longleftrightarrow> v = JArr []"
  using assms by (cases v; simp)+

lemma via_reads [simp]:
  assumes "json_values cd"
  shows "str_of (map_option (via_text cd) v) = str_of v" "num_of (map_option (via_text cd) v) = num_of v"
    "isNonEmptyStr (map_option (via_text cd) v) = isNonEmptyStr v" "posSafeInt (map_option (via_text cd) v) = posSafeInt v"
    "isNonEmptyStr (Some (via_text cd j)) = isNonEmptyStr (Some j)" "posSafeInt (Some (via_text cd j)) = posSafeInt (Some j)"
proof -
  show a: "str_of (map_option (via_text cd) v) = str_of v" for v
    using assms by (cases v; simp; cases "the v"; simp add: str_of_def)
  show b: "num_of (map_option (via_text cd) v) = num_of v" for v
    using assms by (cases v; simp; cases "the v"; simp add: num_of_def)
  show "isNonEmptyStr (map_option (via_text cd) v) = isNonEmptyStr v" for v
    using assms by (cases v; simp; cases "the v"; simp add: isNonEmptyStr_def)
  then show "isNonEmptyStr (Some (via_text cd j)) = isNonEmptyStr (Some j)" by (metis option.simps(9))
  show "posSafeInt (map_option (via_text cd) v) = posSafeInt v" for v using b [of v] by (simp add: posSafeInt_def)
  then show "posSafeInt (Some (via_text cd j)) = posSafeInt (Some j)" by (metis option.simps(9))
qed

lemma obj_of_via [simp]: "json_values cd \<Longrightarrow> obj_of (Some (via_text cd (JObj fs))) = Some (canon cd fs)"
  by (simp add: obj_of_def)

lemma null_or_via:
  assumes "json_values cd" "\<And>x. f (Some (via_text cd (g x))) = Some (h x)" "\<And>x. g x \<noteq> JNull"
  shows "null_or f (Some (via_text cd (nullable g v))) = Some (map_option h v)"
  using assms by (cases v) (simp_all add: null_or_def nullable_def)

end
