(* ===== verification/Exec_Durable_Props.thy ===== *)
theory Exec_Durable_Props
  imports Exec_Durable Json_Codec
begin

text \<open>
  The snapshot of the durable executor: what is written is read back, and every edit of the handlers produces a
  snapshot that passes the validation of \<open>decode\<close>, so that the executor never locks itself out of its own state.
\<close>

section \<open>Offers through the store\<close>

lemma protocolJson_via:
  assumes "json_values cd"
  shows "protocolJson v n \<Longrightarrow> protocolJson (via_text cd v) n"
proof (induction v arbitrary: n)
  case (JObj fs)
  have "protocolJson (snd f) (n + 1)" if "f \<in> set (canon cd fs)" for f
  proof -
    from that canon_sub [OF assms] obtain g where g: "g \<in> set fs" "snd f = via_text cd (snd g)" by fastforce
    with JObj.prems have "protocolJson (snd g) (n + 1)" by (simp add: list_all_iff)
    with JObj.IH [of g "snd g"] g show ?thesis by (simp add: snds.simps)
  qed
  with JObj.prems show ?case using assms by (simp add: list_all_iff)
qed (use assms in \<open>simp_all add: list_all_iff\<close>)

lemma supportedOffer_canon:
  assumes "json_values cd" "supportedOffer b"
  shows "supportedOffer (canon cd b)"
proof -
  have "protocolJson (JObj (canon cd b)) 0"
    using protocolJson_via [OF assms(1), of "JObj b" 0] assms by (simp add: supportedOffer_def)
  moreover have "absent_or all_named (map_option (via_text cd) v)" if "absent_or all_named v" for v
    using that assms(1) by (auto simp: absent_or_def all_named_def list_all_iff split: option.splits json.splits)
  moreover have "absent_or (\<lambda>j. posSafeInt (Some j)) (map_option (via_text cd) v) = absent_or (\<lambda>j. posSafeInt (Some j)) v"
      "absent_or (\<lambda>j. j = JArr []) (map_option (via_text cd) v) = absent_or (\<lambda>j. j = JArr []) v" for v
    using assms(1) by (auto simp: absent_or_def split: option.splits)
  moreover have "supportedKind (canon cd b)"
    using assms by (auto simp: supportedOffer_def supportedKind_def arr_of_def split: option.splits json.splits)
  ultimately show ?thesis using assms by (simp add: supportedOffer_def)
qed

section \<open>The parts of a valid run\<close>

text \<open>What a run keeps from its offer, the consistency of its phase, and its counters and times.\<close>

definition run_ids :: "durable_run \<Rightarrow> number \<Rightarrow> bool" where
  "run_ids r n \<longleftrightarrow>
     isLeaseFence (dr_fence r) \<and> lf_generation (dr_fence r) = n \<and> isUuidStr (dr_lead r) \<and> isUuidStr (dr_offerMsgId r) \<and>
     supportedOffer (dr_offer r) \<and> positive (dr_leaseMs r) \<and>
     (\<forall>l. num_of (map_of (dr_offer r) ''lease_ms'') = Some l \<longrightarrow> positive l \<longrightarrow> dr_leaseMs r \<le> l)"

definition run_flags :: "durable_run \<Rightarrow> bool" where
  "run_flags r \<longleftrightarrow>
     (\<forall>m. dr_cancelMsgId r = Some m \<longrightarrow> isUuidStr m) \<and>
     (dr_cancelMsgId r \<noteq> None \<longleftrightarrow> dr_stopReason r = Some Sr_cancel) \<and>
     (dr_phase r = Ph_prepared \<longrightarrow> \<not> dr_mayHaveStarted r) \<and>
     (dr_phase r \<in> {Ph_starting, Ph_running, Ph_recovery_required} \<longrightarrow> dr_mayHaveStarted r) \<and>
     (dr_phase r \<in> {Ph_stopping, Ph_recovery_required} \<longleftrightarrow> dr_stopReason r \<noteq> None)"

definition run_counts :: "durable_run \<Rightarrow> bool" where
  "run_counts r \<longleftrightarrow>
     positive (dr_leaseDeadline r) \<and> positive (dr_heartbeatAt r) \<and> nonnegative (dr_seq r) \<and> nonnegative (dr_lastRenewalSeq r) \<and>
     (\<not> dr_mayHaveStarted r \<longrightarrow> dr_seq r = 0) \<and> (dr_seq r = 0 \<longrightarrow> dr_lastRenewalSeq r = 0) \<and>
     (dr_seq r \<noteq> 0 \<longrightarrow> dr_progress r = None \<longrightarrow> dr_lastRenewalSeq r \<noteq> 0) \<and>
     (\<forall>p. dr_progress r = Some p \<longrightarrow> isUuidStr (pg_msg_id p) \<and> positive (dr_seq r) \<and> pg_seq p = dr_seq r \<and>
        nonnegative (pg_sentAt p) \<and> pg_sentAt p < dr_leaseDeadline r \<and> pg_sentAt p < dr_heartbeatAt r)"

lemma validRun_parts: "validRun r n \<longleftrightarrow> run_ids r n \<and> run_flags r \<and> run_counts r"
proof -
  have "run_flags r \<longleftrightarrow>
     (case dr_cancelMsgId r of None \<Rightarrow> True | Some m \<Rightarrow> isUuidStr m) \<and>
     \<not> (if dr_phase r = Ph_prepared then dr_mayHaveStarted r else dr_phase r \<noteq> Ph_stopping \<and> \<not> dr_mayHaveStarted r) \<and>
     \<not> (dr_cancelMsgId r \<noteq> None \<and> dr_stopReason r \<noteq> Some Sr_cancel) \<and>
     \<not> (dr_stopReason r = Some Sr_cancel \<and> dr_cancelMsgId r = None) \<and>
     \<not> (dr_phase r \<in> {Ph_prepared, Ph_starting, Ph_running} \<and> dr_stopReason r \<noteq> None) \<and>
     \<not> (dr_phase r \<in> {Ph_stopping, Ph_recovery_required} \<and> dr_stopReason r = None)"
    by (cases "dr_phase r"; cases "dr_cancelMsgId r"; cases "dr_stopReason r") (auto simp: run_flags_def)
  moreover have "run_counts r \<longleftrightarrow>
     positive (dr_leaseDeadline r) \<and> positive (dr_heartbeatAt r) \<and> nonnegative (dr_seq r) \<and> nonnegative (dr_lastRenewalSeq r) \<and>
     \<not> (\<not> dr_mayHaveStarted r \<and> (dr_seq r \<noteq> 0 \<or> dr_lastRenewalSeq r \<noteq> 0)) \<and>
     \<not> (dr_seq r = 0 \<and> dr_lastRenewalSeq r \<noteq> 0) \<and>
     \<not> (0 < dr_seq r \<and> dr_progress r = None \<and> dr_lastRenewalSeq r = 0) \<and>
     (case dr_progress r of
        None \<Rightarrow> True
      | Some p \<Rightarrow> isUuidStr (pg_msg_id p) \<and> positive (pg_seq p) \<and> pg_seq p = dr_seq r \<and> nonnegative (pg_sentAt p) \<and>
          pg_sentAt p < dr_leaseDeadline r \<and> pg_sentAt p < dr_heartbeatAt r)"
    using nonnegative_pos by (cases "dr_progress r") (auto simp: run_counts_def)
  moreover have "run_ids r n \<longleftrightarrow>
     isLeaseFence (dr_fence r) \<and> lf_generation (dr_fence r) = n \<and> isUuidStr (dr_lead r) \<and> isUuidStr (dr_offerMsgId r) \<and>
     supportedOffer (dr_offer r) \<and> positive (dr_leaseMs r) \<and>
     (case num_of (map_of (dr_offer r) ''lease_ms'') of Some l \<Rightarrow> positive l \<longrightarrow> dr_leaseMs r \<le> l | None \<Rightarrow> True)"
    by (cases "num_of (map_of (dr_offer r) ''lease_ms'')") (simp_all add: run_ids_def)
  ultimately show ?thesis unfolding validRun_def by blast
qed

section \<open>Reading back what was written\<close>

definition stored_run :: "codec \<Rightarrow> durable_run \<Rightarrow> durable_run" where
  "stored_run cd r = r\<lparr>dr_offer := canon cd (dr_offer r)\<rparr>"

definition stored_last :: "codec \<Rightarrow> last_run \<Rightarrow> last_run" where
  "stored_last cd l = l\<lparr>la_outcome := \<lparr>ro_result = ro_result (la_outcome l), ro_body = canon cd (ro_body (la_outcome l))\<rparr>\<rparr>"

text \<open>The snapshot after a write: the bodies of the offer and of the outcome may list their properties in another order.\<close>

definition stored_snapshot :: "codec \<Rightarrow> exec_snapshot \<Rightarrow> exec_snapshot" where
  "stored_snapshot cd s = \<lparr>sn_generation = sn_generation s, sn_slot = map_option (stored_run cd) (sn_slot s),
     sn_last = map_option (stored_last cd) (sn_last s)\<rparr>"

lemma stored_sel [simp]:
  "dr_fence (stored_run cd r) = dr_fence r" "dr_phase (stored_run cd r) = dr_phase r" "dr_mayHaveStarted (stored_run cd r) = dr_mayHaveStarted r"
  "dr_lead (stored_run cd r) = dr_lead r" "dr_stopReason (stored_run cd r) = dr_stopReason r" "dr_cancelMsgId (stored_run cd r) = dr_cancelMsgId r"
  "la_fence (stored_last cd l) = la_fence l" "la_lead (stored_last cd l) = la_lead l"
  "sn_generation (stored_snapshot cd s) = sn_generation s" "sn_slot (stored_snapshot cd s) = map_option (stored_run cd) (sn_slot s)"
  "sn_last (stored_snapshot cd s) = map_option (stored_last cd) (sn_last s)"
  by (simp_all add: stored_run_def stored_last_def stored_snapshot_def)

lemma stored_flags: "run_flags (r\<lparr>dr_offer := b\<rparr>) = run_flags r" "run_counts (r\<lparr>dr_offer := b\<rparr>) = run_counts r"
  by (simp_all add: run_flags_def run_counts_def)

lemma validSnapshot_stored:
  assumes "json_values cd" "validSnapshot s"
  shows "validSnapshot (stored_snapshot cd s)"
proof -
  have "validRun (stored_run cd r) n" if "validRun r n" for r n
    using that supportedOffer_canon [OF assms(1), of "dr_offer r"] assms(1)
    by (auto simp: validRun_parts stored_flags run_ids_def stored_run_def)
  moreover have "validOutcome (la_outcome (stored_last cd l))" if "validOutcome (la_outcome l)" for l
    using that protocolJson_via [OF assms(1), of "JObj (ro_body (la_outcome l))" 0] assms(1) by (simp add: validOutcome_def stored_last_def)
  ultimately show ?thesis
    using assms(2) by (cases "sn_slot s"; cases "sn_last s") (auto simp: validSnapshot_def)
qed

lemma read_fence_via [simp]: "json_values cd \<Longrightarrow> read_fence (Some (via_text cd (fence_json f))) = Some f"
  by (simp add: read_fence_def fence_json_def del: json_valuesD(6))

lemma read_progress_via [simp]: "json_values cd \<Longrightarrow> read_progress (Some (via_text cd (progress_json p))) = Some p"
  by (simp add: read_progress_def progress_json_def del: json_valuesD(6))

lemma phase_read [simp]:
  "one_of phase_text [Ph_prepared, Ph_starting, Ph_running, Ph_stopping, Ph_recovery_required] (Some (JStr (phase_text p))) = Some p"
  by (cases p) (simp_all add: one_of_def)

lemma reason_read [simp]:
  "one_of reason_text [Sr_cancel, Sr_lease_expired, Sr_shutdown, Sr_execution_interrupted, Sr_driver_start_timeout]
     (Some (JStr (reason_text x))) = Some x"
  by (cases x) (simp_all add: one_of_def)

lemma json_not_null [simp]: "progress_json p \<noteq> JNull" "run_json r \<noteq> JNull" "last_json l \<noteq> JNull"
  by (simp_all add: progress_json_def run_json_def last_json_def)

lemma read_run_via [simp]:
  assumes "json_values cd"
  shows "read_run (Some (via_text cd (run_json r))) = Some (stored_run cd r)"
proof -
  have "null_or read_progress (Some (via_text cd (nullable progress_json v))) = Some v" for v
    using null_or_via [OF assms, of read_progress progress_json "\<lambda>x. x" v] assms by (simp add: option.map_ident)
  moreover have "null_or str_of (Some (via_text cd (nullable JStr v))) = Some v" for v
    using null_or_via [OF assms, of str_of JStr "\<lambda>x. x" v] assms by (simp add: option.map_ident)
  moreover have "null_or (one_of reason_text [Sr_cancel, Sr_lease_expired, Sr_shutdown, Sr_execution_interrupted, Sr_driver_start_timeout])
      (Some (via_text cd (nullable (\<lambda>x. JStr (reason_text x)) v))) = Some v" for v
    using null_or_via [OF assms, of _ "\<lambda>x. JStr (reason_text x)" "\<lambda>x. x" v] assms by (simp add: option.map_ident)
  ultimately show ?thesis
    using assms by (simp add: read_run_def run_json_def stored_run_def bool_of_def del: json_valuesD(6))
qed

lemma read_last_via [simp]:
  assumes "json_values cd"
  shows "read_last (Some (via_text cd (last_json l))) = Some (stored_last cd l)"
proof -
  have "read_outcome (Some (via_text cd (outcome_json oc))) = Some \<lparr>ro_result = ro_result oc, ro_body = canon cd (ro_body oc)\<rparr>" for oc
    using assms by (cases oc) (simp add: read_outcome_def outcome_json_def del: json_valuesD(6))
  then show ?thesis
    using assms by (cases l) (simp add: read_last_def last_json_def stored_last_def del: json_valuesD(6))
qed

text \<open>
  The snapshot round-trips. A valid snapshot that was written as canonical JSON is read back as the same snapshot,
  up to the order of the properties inside the offer and the outcome.
\<close>

theorem snapshot_roundtrip:
  assumes "json_values (nc_codec (xo_cfg xo))" "validSnapshot s"
  shows "decode_value xo (via_text (nc_codec (xo_cfg xo)) (snapshot_json xo s)) = Some (stored_snapshot (nc_codec (xo_cfg xo)) s)"
proof -
  have "null_or read_run (Some (via_text cd (nullable run_json v))) = Some (map_option (stored_run cd) v)"
      "null_or read_last (Some (via_text cd (nullable last_json w))) = Some (map_option (stored_last cd) w)"
    if "json_values cd" for cd v w
    using null_or_via [OF that, of read_run run_json "stored_run cd" v] null_or_via [OF that, of read_last last_json "stored_last cd" w] that
    by simp_all
  with assms validSnapshot_stored [OF assms] show ?thesis
    by (simp add: decode_value_def snapshot_json_def Let_def stored_snapshot_def del: json_valuesD(6))
qed

section \<open>Every edit keeps the snapshot valid\<close>

lemma same_iff [simp]: "same a b \<longleftrightarrow> a = b"
  by (cases a; cases b) (auto simp: same_def)

lemma positive_iff: "isPositiveSafeInteger q \<longleftrightarrow> positive q"
  by (simp add: isPositiveSafeInteger_def positive_def)

lemma failed_valid [simp]: "validOutcome (failed s)"
  by (simp add: validOutcome_def failed_def)

lemma validSnapshot_slot:
  "validSnapshot s \<Longrightarrow> sn_slot s = Some r \<Longrightarrow> run_ids r (sn_generation s) \<and> run_flags r \<and> run_counts r"
  by (simp add: validSnapshot_def validRun_parts)

text \<open>Replacing the slot by a valid run of the same generation keeps the rest valid.\<close>

lemma validSnapshot_update:
  "validSnapshot s \<Longrightarrow> sn_slot s = Some r \<Longrightarrow> run_ids r1 (sn_generation s) \<Longrightarrow> run_flags r1 \<Longrightarrow> run_counts r1 \<Longrightarrow>
   validSnapshot (s\<lparr>sn_slot := Some r1\<rparr>)"
  by (simp add: validSnapshot_def validRun_parts split: option.splits)

lemma run_ids_frame [simp]:
  "run_ids (r\<lparr>dr_phase := x1\<rparr>) n = run_ids r n" "run_ids (r\<lparr>dr_mayHaveStarted := x2\<rparr>) n = run_ids r n"
  "run_ids (r\<lparr>dr_leaseDeadline := x3\<rparr>) n = run_ids r n" "run_ids (r\<lparr>dr_heartbeatAt := x3\<rparr>) n = run_ids r n"
  "run_ids (r\<lparr>dr_seq := x3\<rparr>) n = run_ids r n" "run_ids (r\<lparr>dr_lastRenewalSeq := x3\<rparr>) n = run_ids r n"
  "run_ids (r\<lparr>dr_progress := x4\<rparr>) n = run_ids r n" "run_ids (r\<lparr>dr_cancelMsgId := x5\<rparr>) n = run_ids r n"
  "run_ids (r\<lparr>dr_stopReason := x6\<rparr>) n = run_ids r n"
  by (simp_all add: run_ids_def)

lemma run_flags_frame [simp]:
  "run_flags (r\<lparr>dr_leaseDeadline := x3\<rparr>) = run_flags r" "run_flags (r\<lparr>dr_heartbeatAt := x3\<rparr>) = run_flags r"
  "run_flags (r\<lparr>dr_seq := x3\<rparr>) = run_flags r" "run_flags (r\<lparr>dr_lastRenewalSeq := x3\<rparr>) = run_flags r"
  "run_flags (r\<lparr>dr_progress := x4\<rparr>) = run_flags r"
  by (simp_all add: run_flags_def)

lemma run_counts_frame [simp]:
  "run_counts (r\<lparr>dr_phase := x1\<rparr>) = run_counts r" "run_counts (r\<lparr>dr_cancelMsgId := x5\<rparr>) = run_counts r"
  "run_counts (r\<lparr>dr_stopReason := x6\<rparr>) = run_counts r"
  by (simp_all add: run_counts_def)

lemma run_counts_started [simp]: "run_counts r \<Longrightarrow> run_counts (r\<lparr>dr_mayHaveStarted := True\<rparr>)"
  by (cases "dr_progress r") (simp_all add: run_counts_def)

lemma finish_valid:
  assumes "validSnapshot s" "finish_edit seal fence oc s = Some (s1, out)" "validOutcome oc"
  shows "validSnapshot s1"
proof -
  from assms(2) obtain r where r: "sn_slot s = Some r" "dr_fence r = fence"
    and s1: "s1 = s\<lparr>sn_last := Some \<lparr>la_fence = fence, la_lead = dr_lead r,
        la_outcome = (case dr_stopReason r of Some x \<Rightarrow> failed (reason_text x) | None \<Rightarrow> oc)\<rparr>, sn_slot := None\<rparr>"
    by (auto simp: finish_edit_def Let_def split: option.splits if_splits)
  with validSnapshot_slot [OF assms(1) r(1)] assms(1,3) show ?thesis
    by (simp add: validSnapshot_def run_ids_def split: option.splits)
qed

lemma unknown_valid:
  assumes "validSnapshot s" "unknown_edit fence reason s = Some (s1, out)" "reason \<noteq> Sr_cancel"
    and "\<And>r. sn_slot s = Some r \<Longrightarrow> dr_fence r = fence \<Longrightarrow> dr_mayHaveStarted r"
  shows "validSnapshot s1"
proof -
  from assms(2) obtain r where r: "sn_slot s = Some r" "dr_fence r = fence"
    and s1: "s1 = s\<lparr>sn_slot := Some (r\<lparr>dr_phase := Ph_recovery_required,
        dr_stopReason := (case dr_stopReason r of None \<Rightarrow> Some reason | Some x \<Rightarrow> Some x)\<rparr>)\<rparr>"
    by (auto simp: unknown_edit_def split: option.splits if_splits)
  note v = validSnapshot_slot [OF assms(1) r(1)]
  show ?thesis unfolding s1
    by (rule validSnapshot_update [OF assms(1) r(1)])
      (use v assms(3) assms(4) [OF r] in \<open>auto simp: run_flags_def split: option.splits\<close>)
qed

lemma starting_valid:
  assumes "validSnapshot s" "starting_edit fence s = Some (s1, out)"
  shows "validSnapshot s1"
proof -
  from assms(2) obtain r where r: "sn_slot s = Some r" "dr_phase r = Ph_prepared"
    and s1: "s1 = s\<lparr>sn_slot := Some (r\<lparr>dr_phase := Ph_starting, dr_mayHaveStarted := True\<rparr>)\<rparr>"
    by (auto simp: starting_edit_def split: option.splits if_splits)
  note v = validSnapshot_slot [OF assms(1) r(1)]
  show ?thesis unfolding s1
    by (rule validSnapshot_update [OF assms(1) r(1)])
      (use v r in \<open>auto simp: run_flags_def\<close>)
qed

lemma started_valid:
  assumes "validSnapshot s" "started_edit fence s = Some (s1, out)"
  shows "validSnapshot s1"
proof -
  from assms(2) obtain r where r: "sn_slot s = Some r" "dr_phase r = Ph_starting"
    and s1: "s1 = s\<lparr>sn_slot := Some (r\<lparr>dr_phase := Ph_running\<rparr>)\<rparr>"
    by (auto simp: started_edit_def split: option.splits if_splits)
  note v = validSnapshot_slot [OF assms(1) r(1)]
  show ?thesis unfolding s1
    by (rule validSnapshot_update [OF assms(1) r(1)])
      (use v r in \<open>auto simp: run_flags_def\<close>)
qed

lemma close_valid:
  assumes "validSnapshot s" "close_edit s = Some (s1, out)"
  shows "validSnapshot s1"
proof -
  from assms(2) obtain r where r: "sn_slot s = Some r" "dr_phase r \<noteq> Ph_recovery_required"
    and s1: "s1 = s\<lparr>sn_slot := Some (r\<lparr>dr_phase := Ph_stopping,
        dr_stopReason := (case dr_stopReason r of None \<Rightarrow> Some Sr_shutdown | Some x \<Rightarrow> Some x)\<rparr>)\<rparr>"
    by (auto simp: close_edit_def split: option.splits if_splits)
  note v = validSnapshot_slot [OF assms(1) r(1)]
  show ?thesis unfolding s1
    by (rule validSnapshot_update [OF assms(1) r(1)])
      (use v r in \<open>auto simp: run_flags_def split: option.splits\<close>)
qed

lemma control_valid:
  assumes "validSnapshot s" "control seal s env now = (s1, out)" "isUuidStr (e_msg_id (envelopeOf env))"
  shows "validSnapshot s1"
proof (cases "sn_slot s")
  case None
  with assms(1,2) show ?thesis by (auto simp: control_def Let_def split: option.splits if_splits)
next
  case (Some r)
  note v = validSnapshot_slot [OF assms(1) Some]
  let ?e = "envelopeOf env" and ?b = "e_body (envelopeOf env)"
  from assms(2) Some consider "s1 = s"
    | (cancel) "s1 = s\<lparr>sn_slot := Some (r\<lparr>dr_cancelMsgId := Some (e_msg_id ?e), dr_stopReason := Some Sr_cancel,
                dr_phase := (if dr_phase r = Ph_recovery_required then Ph_recovery_required else Ph_stopping)\<rparr>)\<rparr>"
    | (renew) "s1 = s\<lparr>sn_slot := Some (r\<lparr>dr_lastRenewalSeq := the (num_of (map_of ?b ''renewal_seq'')),
                dr_leaseDeadline := the (num_of (map_of ?b ''deadline_ms'')), dr_progress := None\<rparr>)\<rparr>" "renews ?b r now"
    by (auto simp: control_def Let_def split: if_splits)
  then show ?thesis
  proof cases
    case cancel
    show ?thesis unfolding cancel
      by (rule validSnapshot_update [OF assms(1) Some])
        (use v assms(3) in \<open>auto simp: run_flags_def\<close>)
  next
    case renew
    from renew(2) obtain p where p: "dr_progress r = Some p" "canApplyLeaseRenewal (renewal_of ?b r p now)"
      "posSafeInt (map_of ?b ''deadline_ms'')" "dr_phase r = Ph_running \<or> dr_phase r = Ph_starting"
      by (auto simp: renews_def split: option.splits)
    from p(2) have "isLeaseRenewalBody ?b" by (simp add: canApplyLeaseRenewal_def renewal_of_def Let_def split: if_splits)
    then have n: "positive (the (num_of (map_of ?b ''renewal_seq'')))" "positive (the (num_of (map_of ?b ''deadline_ms'')))"
      using p(3) by (auto simp: isLeaseRenewalBody_def posSafeInt_def positive_iff split: option.splits)
    with v p have "dr_seq r \<noteq> 0" by (auto simp: run_counts_def positive_def)
    with n have "run_counts (r\<lparr>dr_lastRenewalSeq := the (num_of (map_of ?b ''renewal_seq'')),
                dr_leaseDeadline := the (num_of (map_of ?b ''deadline_ms'')), dr_progress := None\<rparr>)"
      using v by (simp add: run_counts_def nonnegative_def) (simp add: positive_def)
    with v show ?thesis unfolding renew(1)
      by (intro validSnapshot_update [OF assms(1) Some]) simp_all
  qed (use assms(1) in simp)
qed

lemma safe_bounded: "isSafeInteger q \<Longrightarrow> x \<in> \<int> \<Longrightarrow> 0 \<le> x \<Longrightarrow> x \<le> q \<Longrightarrow> isSafeInteger x"
  by (auto simp: isSafeInteger_def Ints_def)

lemma beat_facts:
  assumes "positive l"
  shows "beat l \<in> \<int>" "1 \<le> beat l" "beat l \<le> l"
proof -
  from assms obtain i where i: "l = of_int i" "1 \<le> i" by (auto simp: positive_def isSafeInteger_def intro: that [of "\<lfloor>l\<rfloor>"])
  have "(of_int \<lfloor>l / 3\<rfloor> :: rat) \<le> l / 3" by (rule of_int_floor_le)
  also have "l / 3 \<le> l" using i by simp
  finally have "of_int \<lfloor>l / 3\<rfloor> \<le> l" .
  moreover have "1 \<le> l" using i by simp
  ultimately show "beat l \<in> \<int>" "1 \<le> beat l" "beat l \<le> l" by (simp_all add: beat_def max_def)
qed

lemma tick_valid:
  assumes "validSnapshot s" "tick_edit seal now s = Inr (Some (s1, out))" "isSafeInteger now" "0 \<le> now"
    and "\<And>x. isUuidStr (e_msg_id (envelopeOf (seal x)))"
  shows "validSnapshot s1"
proof -
  from assms(2) obtain r where r: "sn_slot s = Some r" by (auto simp: tick_edit_def split: option.splits)
  note v = validSnapshot_slot [OF assms(1) r]
  from assms(2) r consider
      (lapse) "s1 = s\<lparr>sn_slot := Some (r\<lparr>dr_phase := Ph_stopping, dr_stopReason := Some Sr_lease_expired\<rparr>)\<rparr>"
        "dr_phase r \<noteq> Ph_stopping" "dr_phase r \<noteq> Ph_recovery_required"
    | (beat) m where "s1 = s\<lparr>sn_slot := Some (r\<lparr>dr_seq := dr_seq r + 1,
               dr_progress := Some \<lparr>pg_msg_id = m, pg_seq = dr_seq r + 1, pg_sentAt = now\<rparr>,
               dr_heartbeatAt := now + beat (dr_leaseMs r)\<rparr>)\<rparr>" "isUuidStr m" "now < dr_leaseDeadline r"
        "dr_phase r = Ph_running \<or> dr_phase r = Ph_starting" "isSafeInteger (dr_seq r + 1)" "isSafeInteger (now + beat (dr_leaseMs r))"
    using assms(5) by (auto simp: tick_edit_def Let_def split: if_splits)
  then show ?thesis
  proof cases
    case lapse
    with v have "dr_cancelMsgId r = None" by (auto simp: run_flags_def)
    with v lapse show ?thesis unfolding lapse(1)
      by (intro validSnapshot_update [OF assms(1) r]) (auto simp: run_flags_def)
  next
    case beat
    have b: "1 \<le> beat (dr_leaseMs r)" using v by (intro beat_facts) (simp add: run_ids_def)
    have "0 \<le> dr_seq r" using v by (auto simp: run_counts_def nonnegative_def positive_def)
    with b beat(5,6) assms(4) have p: "positive (dr_seq r + 1)" "positive (now + beat (dr_leaseMs r))" "dr_seq r + 1 \<noteq> 0"
      by (simp_all add: positive_def)
    have "nonnegative now" using assms(3,4) by (cases "now = 0") (simp_all add: nonnegative_def positive_def)
    moreover have "dr_mayHaveStarted r" using v beat(4) by (auto simp: run_flags_def)
    moreover have "now < now + beat (dr_leaseMs r)" using b by simp
    ultimately have "run_counts (r\<lparr>dr_seq := dr_seq r + 1,
               dr_progress := Some \<lparr>pg_msg_id = m, pg_seq = dr_seq r + 1, pg_sentAt = now\<rparr>,
               dr_heartbeatAt := now + beat (dr_leaseMs r)\<rparr>)"
      using v beat(2,3) p by (simp add: run_counts_def nonnegative_def)
    with v beat show ?thesis unfolding beat(1)
      by (intro validSnapshot_update [OF assms(1) r]) (auto simp: run_ids_def run_flags_def)
  qed
qed

text \<open>An accepted offer, by the conditions it passed.\<close>

lemma accept_free:
  assumes "offer_reason xo open_for s env now denied = None" "e = envelopeOf env"
  obtains task n lease where "denied = None" "open_for" "sn_slot s = None" "xo_driver xo"
    "e_task_id e = Some task" "isUuidStr task" "e_attempt e = Some n" "positive (of_nat n)"
    "coalesce (map_of (e_body e) ''lease_ms'') (leaseMsAid (xo_params xo)) = Some lease" "positive lease" "isSafeInteger (now + lease)"
    "supportedOffer (e_body e)"
proof -
  have u: "\<not> isUuidStr []" using isUuidStr_length [of "[]"] by auto
  let ?lease = "coalesce (map_of (e_body e) ''lease_ms'') (leaseMsAid (xo_params xo))"
  from assms have a: "denied = None" "open_for" "sn_slot s = None" "xo_driver xo"
      "isUuidStr (case e_task_id e of Some t \<Rightarrow> t | None \<Rightarrow> [])" "pos_opt (map_option of_nat (e_attempt e))"
      "\<not> expired_offer (cd_parse (nc_codec (xo_cfg xo))) env now (coalesce (map_of (e_body e) ''offer_ttl_ms'') (offerTtlMsAid (xo_params xo))) ?lease"
      "supportedOffer (e_body e)"
    unfolding offer_reason_def Let_def by (simp_all split: if_split_asm)
  from a(5) u obtain task where "e_task_id e = Some task" "isUuidStr task" by (cases "e_task_id e") auto
  moreover from a(6) obtain n where "e_attempt e = Some n" "positive (of_nat n)" by (cases "e_attempt e") (auto simp: pos_opt_def)
  moreover from a(7) obtain lease where "?lease = Some lease" "positive lease" "isSafeInteger (now + lease)"
    by (cases ?lease) (auto simp: expired_offer_def pos_opt_def)
  ultimately show thesis using a that by blast
qed

lemma offer_valid:
  assumes "validSnapshot s" "dx_offer xo open_for seal newId startedAt s env now denied = Inr ((s1, out), effs)"
    and "isSafeInteger now" "0 \<le> now" "isUuidStr newId" "positive (leaseMsAid (xo_params xo))"
    and "isUuidStr (e_from_node (envelopeOf env))" "isUuidStr (e_msg_id (envelopeOf env))"
  shows "validSnapshot s1"
proof (cases "offer_reason xo open_for s env now denied")
  case (Some reason)
  with assms(1,2) show ?thesis by (simp add: dx_offer_def)
next
  case None
  let ?e = "envelopeOf env"
  from None obtain task n lease where a: "sn_slot s = None" "e_task_id ?e = Some task" "isUuidStr task"
    "e_attempt ?e = Some n" "positive (of_nat n)"
    "coalesce (map_of (e_body ?e) ''lease_ms'') (leaseMsAid (xo_params xo)) = Some lease" "positive lease" "isSafeInteger (now + lease)"
    "supportedOffer (e_body ?e)" by (rule accept_free [OF _ refl])
  let ?g = "sn_generation s + 1" and ?l = "min lease (leaseMsAid (xo_params xo))"
  let ?r = "prepared_run xo env now newId ?g"
  from assms(2) None have g: "isSafeInteger ?g" and s1: "s1 = s\<lparr>sn_generation := ?g, sn_slot := Some ?r\<rparr>"
    by (auto simp: dx_offer_def Let_def split: if_splits)
  have "0 \<le> sn_generation s" using assms(1) by (auto simp: validSnapshot_def nonnegative_def positive_def)
  with g have gp: "positive ?g" by (simp add: positive_def)
  have l: "positive ?l" "?l \<le> lease" using a(7) assms(6) by (simp_all add: min_def)
  have ints: "now \<in> \<int>" "?l \<in> \<int>" using assms(3) l(1) by (auto simp: positive_def intro: isSafeInteger_Ints)
  have "positive (now + x)" if "x \<in> \<int>" "1 \<le> x" "x \<le> ?l" for x
    using that ints l assms(4) safe_bounded [OF a(8), of "now + x"] by (simp add: positive_def)
  moreover have "1 \<le> ?l" using beat_facts(2,3) [OF l(1)] by linarith
  ultimately have t: "positive (now + ?l)" "positive (now + beat ?l)"
    using ints(2) beat_facts [OF l(1)] by auto
  have "run_ids ?r ?g"
    using a gp l assms(5,7,8)
    by (auto simp: run_ids_def prepared_run_def Let_def isLeaseFence_def positive_iff coalesce_def num_of_def split: option.splits json.splits)
  moreover have "run_flags ?r" "run_counts ?r"
    using t a(6) by (simp_all add: run_flags_def run_counts_def prepared_run_def Let_def nonnegative_def)
  ultimately show ?thesis
    using assms(1) gp a(1) unfolding s1
    by (auto simp: validSnapshot_def validRun_parts nonnegative_def split: option.splits)
qed

end
