(* ===== verification/Node_Store_History.thy ===== *)
theory Node_Store_History
  imports Node_Store_Props
begin

text \<open>
  What no history of the node store undoes: decisions, dedup keys, finished effects, delivery records and
  revisions; and the invariant \<open>rt_inv\<close>, under which every row of the database reads back.
\<close>

section \<open>Facts that every change keeps\<close>

lemma revision_frame [simp]:
  "revision (db\<lparr>nd_inbox := ib\<rparr>) = revision db" "revision (db\<lparr>nd_delivery := dl\<rparr>) = revision db"
  "revision (db\<lparr>nd_outbox := ob\<rparr>) = revision db" "revision (db\<lparr>nd_dedup := dd\<rparr>) = revision db"
  "revision (db\<lparr>nd_effects := ef\<rparr>) = revision db"
  by (simp_all add: revision_def fun_eq_iff)

lemma effs_decided:
  assumes "rt_effs cf P db db1" "map_of (nd_inbox db) k = Some row" "ib_decision row \<noteq> Undecided"
  shows "map_of (nd_inbox db1) k = Some row"
  using assms(1) by (induction rule: rtranclp_induct) (use assms in \<open>auto elim!: rt_eff.cases\<close>)

lemma effs_dedup:
  assumes "rt_effs cf P db db1" "map_of (nd_dedup db) k = Some g"
  shows "map_of (nd_dedup db1) k = Some g"
  using assms(1) by (induction rule: rtranclp_induct) (use assms in \<open>auto elim!: rt_eff.cases\<close>)

lemma effs_done:
  assumes "rt_effs cf P db db1" "map_of (nd_effects db) e = Some r" "er_done r"
  shows "map_of (nd_effects db1) e = Some r"
  using assms(1) by (induction rule: rtranclp_induct) (use assms in \<open>auto elim!: rt_eff.cases\<close>)

text \<open>An effect intent is never rewritten; only its status moves.\<close>

lemma effs_effect:
  assumes "rt_effs cf P db db1" "map_of (nd_effects db) e = Some r"
  shows "map_of (nd_effects db1) e \<in> {Some r, Some (r\<lparr>er_done := True\<rparr>)}"
  using assms(1) by (induction rule: rtranclp_induct) (use assms in \<open>auto elim!: rt_eff.cases\<close>)

text \<open>The revision of a key never decreases, and as long as it is the same the value is the same.\<close>

definition same_or_newer :: "node_db \<Rightarrow> string \<Rightarrow> node_db \<Rightarrow> bool" where
  "same_or_newer db0 k db \<longleftrightarrow>
     revision db0 k \<le> revision db k \<and> (revision db k = revision db0 k \<longrightarrow> map_of (nd_state db) k = map_of (nd_state db0) k)"

lemma eff_same_or_newer: "rt_eff cf P a b \<Longrightarrow> same_or_newer db0 k a \<Longrightarrow> same_or_newer db0 k b"
  by (erule rt_eff.cases) (auto simp: same_or_newer_def revision_def split: option.splits if_splits)

lemma effs_same_or_newer: "rt_effs cf P db db1 \<Longrightarrow> same_or_newer db k db1"
  by (induction rule: rtranclp_induct) (auto simp: eff_same_or_newer, simp add: same_or_newer_def)

lemma effs_revision_mono: "rt_effs cf P db db1 \<Longrightarrow> revision db k \<le> revision db1 k"
  using effs_same_or_newer by (auto simp: same_or_newer_def)

text \<open>A delivery record keeps its digest, and without retention a released one stays as it is.\<close>

lemma effs_stored:
  assumes "rt_effs cf P db db1" "nc_retention cf = None" "map_of (nd_delivery db) k = Some d" "dl_status d = Dl_stored"
  shows "map_of (nd_delivery db1) k = Some d"
  using assms(1) by (induction rule: rtranclp_induct) (use assms in \<open>auto elim!: rt_eff.cases\<close>)

section \<open>The table invariants\<close>

definition state_table :: "codec \<Rightarrow> node_db \<Rightarrow> bool" where
  "state_table cd db \<longleftrightarrow> wf_map (nd_state db) \<and>
     (\<forall>k r. map_of (nd_state db) k = Some r \<longrightarrow>
        key_ok cd k \<and> 1 \<le> sr_revision r \<and> safe (sr_revision r) \<and> canonical cd (sr_value r))"

definition inbox_ok :: "node_cfg \<Rightarrow> (string \<Rightarrow> nat) \<Rightarrow> msg_key \<Rightarrow> inbox_row \<Rightarrow> bool" where
  "inbox_ok cf rvn k r \<longleftrightarrow> storedIdentity k (ib_digest r) \<and>
     (if ib_decision r = Undecided
      then ib_state_key r = None \<and> ib_revision r = None \<and>
           (\<exists>p env. ib_payload r = Some p \<and> readEnvelope cf k (ib_digest r) p False = Inr env)
      else ib_payload r = None \<and>
           (\<exists>sk n. ib_state_key r = Some sk \<and> ib_revision r = Some n \<and> key_ok (nc_codec cf) sk \<and> safe n \<and>
              (ib_decision r = Applied \<longrightarrow> 1 \<le> n) \<and> n \<le> rvn sk))"

definition inbox_table :: "node_cfg \<Rightarrow> node_db \<Rightarrow> bool" where
  "inbox_table cf db \<longleftrightarrow> wf_map (nd_inbox db) \<and>
     (\<forall>k r. map_of (nd_inbox db) k = Some r \<longrightarrow> inbox_ok cf (revision db) k r)"

definition delivery_ok :: "node_cfg \<Rightarrow> msg_key \<Rightarrow> delivery_row \<Rightarrow> outbox_row option \<Rightarrow> bool" where
  "delivery_ok cf k d ob \<longleftrightarrow> storedIdentity k (dl_digest d) \<and> fst k = nc_node cf \<and> storedTime (dl_stored_at d) \<and>
     (dl_status d = Dl_pending \<longleftrightarrow> ob \<noteq> None) \<and> (dl_status d = Dl_pending \<longrightarrow> dl_stored_at d = None) \<and>
     (case ob of None \<Rightarrow> True | Some row \<Rightarrow> safe (ob_attempts row) \<and> safe (ob_last_at row) \<and>
        (\<exists>env. readEnvelope cf k (dl_digest d) (ob_payload row) True = Inr env))"

definition delivery_table :: "node_cfg \<Rightarrow> node_db \<Rightarrow> bool" where
  "delivery_table cf db \<longleftrightarrow> wf_map (nd_delivery db) \<and> wf_map (nd_outbox db) \<and>
     (\<forall>k d. map_of (nd_delivery db) k = Some d \<longrightarrow> delivery_ok cf k d (map_of (nd_outbox db) k)) \<and>
     (\<forall>k. map_of (nd_outbox db) k \<noteq> None \<longrightarrow> map_of (nd_delivery db) k \<noteq> None)"

definition dedup_table :: "codec \<Rightarrow> node_db \<Rightarrow> bool" where
  "dedup_table cd db \<longleftrightarrow> wf_map (nd_dedup db) \<and>
     (\<forall>f sk dk g. map_of (nd_dedup db) (f, sk, dk) = Some g \<longrightarrow>
        isUuidStr f \<and> is_digest g \<and> key_ok cd sk \<and> (\<exists>parts. storedJson cd dk = Inr parts \<and> dedup_parts_ok parts))"

definition effects_table :: "codec \<Rightarrow> node_db \<Rightarrow> bool" where
  "effects_table cd db \<longleftrightarrow> wf_map (nd_effects db) \<and>
     (\<forall>e r. map_of (nd_effects db) e = Some r \<longrightarrow>
        key_ok cd e \<and> key_ok cd (er_state_key r) \<and> key_ok cd (er_kind r) \<and> 1 \<le> er_revision r \<and> safe (er_revision r) \<and>
        er_revision r \<le> revision db (er_state_key r) \<and> canonical cd (er_payload r))"

text \<open>Every name in the tables satisfies \<open>P\<close>.\<close>

definition names_table :: "(string \<Rightarrow> bool) \<Rightarrow> node_db \<Rightarrow> bool" where
  "names_table P db \<longleftrightarrow>
     (\<forall>k r. map_of (nd_state db) k = Some r \<longrightarrow> P k) \<and>
     (\<forall>k r sk. map_of (nd_inbox db) k = Some r \<longrightarrow> ib_state_key r = Some sk \<longrightarrow> P sk) \<and>
     (\<forall>f sk dk g. map_of (nd_dedup db) (f, sk, dk) = Some g \<longrightarrow> P sk) \<and>
     (\<forall>e r. map_of (nd_effects db) e = Some r \<longrightarrow> P e \<and> P (er_state_key r) \<and> P (er_kind r))"

lemma eff_revision_mono: "rt_eff cf P db db1 \<Longrightarrow> revision db k \<le> revision db1 k"
  using effs_revision_mono by blast

lemma eff_state: "rt_eff cf P db db1 \<Longrightarrow> state_table (nc_codec cf) db \<Longrightarrow> state_table (nc_codec cf) db1"
  by (erule rt_eff.cases) (simp_all add: state_table_def)

lemma inbox_ok_mono: "inbox_ok cf rvn k r \<Longrightarrow> (\<And>sk. rvn sk \<le> rvn1 sk) \<Longrightarrow> inbox_ok cf rvn1 k r"
  by (auto simp: inbox_ok_def intro: order_trans split: if_splits)

lemma inbox_received:
  assumes "rt_codec (nc_codec cf)" "rt_envelope (nc_codec cf) v = Inr en" "e_to_node (envelopeOf (rn_env en)) = nc_node cf"
  shows "inbox_ok cf rvn (e_from_node (envelopeOf (rn_env en)), e_msg_id (envelopeOf (rn_env en)))
    \<lparr>ib_digest = rn_digest en, ib_payload = Some (rn_payload en), ib_decision = Undecided, ib_state_key = None, ib_revision = None\<rparr>"
  using readEnvelope_stored [OF assms(1,2) refl, of False] assms(3) rt_envelope_ids [OF assms(2)] rt_envelopeD(5) [OF assms(2)]
    rt_codecD(3) [OF assms(1)]
  by (simp add: inbox_ok_def storedIdentity_def)

lemma inbox_decide:
  "inbox_ok cf rvn k r \<Longrightarrow> status \<noteq> Undecided \<Longrightarrow> key_ok (nc_codec cf) sk \<Longrightarrow> n = rvn sk \<Longrightarrow> status = Applied \<longrightarrow> 1 \<le> n \<Longrightarrow> safe n \<Longrightarrow>
   inbox_ok cf rvn k (decide r status sk n)"
  by (auto simp: inbox_ok_def decide_def)

lemma eff_inbox:
  assumes "rt_codec (nc_codec cf)" "rt_eff cf P db db1" "inbox_table cf db"
  shows "inbox_table cf db1"
  using assms(2)
proof cases
  case (received v en k)
  with assms(3) inbox_received [OF assms(1)] show ?thesis
    by (auto simp: inbox_table_def)
next
  case (decided k row status sk n)
  with assms(3) inbox_decide [of cf "revision db" k row status sk n] show ?thesis
    by (auto simp: inbox_table_def)
next
  case (advanced sk n val)
  then have "nd_inbox db1 = nd_inbox db" by simp
  with assms(3) inbox_ok_mono [OF _ eff_revision_mono [OF assms(2)]] show ?thesis
    by (simp add: inbox_table_def)
qed (use assms(3) in \<open>auto simp: inbox_table_def\<close>)

lemma eff_effects:
  assumes "rt_eff cf P db db1" "effects_table (nc_codec cf) db"
  shows "effects_table (nc_codec cf) db1"
  using assms(1)
proof cases
  case (advanced sk n val)
  then have "nd_effects db1 = nd_effects db" by simp
  with assms(2) eff_revision_mono [OF assms(1)] show ?thesis
    by (auto simp: effects_table_def intro: order_trans)
qed (use assms(2) in \<open>auto simp: effects_table_def\<close>)

lemma eff_names: "rt_eff cf P db db1 \<Longrightarrow> names_table P db \<Longrightarrow> names_table P db1"
  by (erule rt_eff.cases; auto simp: names_table_def decide_def split: if_splits; blast)

lemma delivery_sent:
  assumes "rt_codec (nc_codec cf)" "rt_envelope (nc_codec cf) v = Inr en" "e_from_node (envelopeOf (rn_env en)) = nc_node cf"
    "safe a" "safe l"
  shows "delivery_ok cf (nc_node cf, e_msg_id (envelopeOf (rn_env en)))
    \<lparr>dl_digest = rn_digest en, dl_status = Dl_pending, dl_stored_at = None\<rparr>
    (Some \<lparr>ob_payload = rn_payload en, ob_attempts = a, ob_last_at = l\<rparr>)"
  using readEnvelope_stored [OF assms(1,2) refl, of True] assms(3-5) rt_envelope_ids [OF assms(2)] rt_envelopeD(5) [OF assms(2)]
    rt_codecD(3) [OF assms(1)]
  by (simp add: delivery_ok_def storedIdentity_def storedTime_def)

lemma delivery_lookup:
  "delivery_table cf db \<Longrightarrow> map_of (nd_delivery db) k = Some d \<Longrightarrow> delivery_ok cf k d (map_of (nd_outbox db) k)"
  unfolding delivery_table_def by blast

lemma eff_delivery:
  assumes "rt_codec (nc_codec cf)" "rt_eff cf P db db1" "delivery_table cf db"
  shows "delivery_table cf db1"
  using assms(2)
proof cases
  case (sent v en k a l)
  with assms(3) delivery_sent [OF assms(1) sent(2,3,7,8)] show ?thesis
    by (auto simp: delivery_table_def)
next
  case (retried k d ob a l)
  then have "delivery_ok cf k d (Some ob)" using delivery_lookup [OF assms(3) retried(2)] by simp
  then have "delivery_ok cf k d (Some (ob\<lparr>ob_attempts := a, ob_last_at := l\<rparr>))"
    using retried by (simp add: delivery_ok_def storedTime_def)
  with retried assms(3) show ?thesis by (auto simp: delivery_table_def)
next
  case (released k d now)
  have "delivery_ok cf k d (map_of (nd_outbox db) k)" by (rule delivery_lookup [OF assms(3) released(2)])
  then have "delivery_ok cf k (d\<lparr>dl_status := Dl_stored, dl_stored_at := Some now\<rparr>) None"
    using released by (auto simp: delivery_ok_def storedTime_def)
  with released assms(3) show ?thesis by (auto simp: delivery_table_def)
next
  case (pruned cutoff)
  have wf: "wf_map (nd_delivery db)" using assms(3) by (simp add: delivery_table_def)
  have out: "map_of (nd_outbox db) k = None" if "map_of (nd_delivery db) k = Some d" "aged cutoff d" for k d
    using list_all_lookup [OF pruned(3) that(1)] that(2) by simp
  have look: "map_of (nd_delivery db1) k =
    (case map_of (nd_delivery db) k of None \<Rightarrow> None | Some d \<Rightarrow> if \<not> aged cutoff d then Some d else None)" for k
    using pruned map_of_filter_wf [OF wf, of "\<lambda>_ d. \<not> aged cutoff d"] by simp
  have tabs: "nd_outbox db1 = nd_outbox db" "wf_map (nd_delivery db1)" using pruned wf by simp_all
  show ?thesis
    unfolding delivery_table_def tabs(1)
  proof (intro conjI allI impI)
    fix k d
    assume "map_of (nd_delivery db1) k = Some d"
    then have "map_of (nd_delivery db) k = Some d" by (auto simp: look split: option.splits if_splits)
    then show "delivery_ok cf k d (map_of (nd_outbox db) k)" by (rule delivery_lookup [OF assms(3)])
  next
    fix k
    assume ob: "map_of (nd_outbox db) k \<noteq> None"
    then obtain d where d: "map_of (nd_delivery db) k = Some d" using assms(3) unfolding delivery_table_def by blast
    with ob out [OF d] have "\<not> aged cutoff d" by auto
    with d show "map_of (nd_delivery db1) k \<noteq> None" by (simp add: look)
  qed (use assms(3) tabs in \<open>simp_all add: delivery_table_def\<close>)
qed (use assms(3) in \<open>auto simp: delivery_table_def\<close>)

lemma splitOn_task: "take 5 t = ''task.'' \<Longrightarrow> familyOf t = ''task''"
proof -
  assume "take 5 t = ''task.''"
  then obtain u where "t = ''task.'' @ u" by (metis append_take_drop_id)
  then show ?thesis by (simp add: familyOf_def)
qed

text \<open>The dedup key of a validated task message reads back as task id, attempt and type.\<close>

lemma dedup_key_parts:
  assumes "rt_codec cd" "rt_envelope cd v = Inr en" "usesR1Dedup (e_type (envelopeOf (rn_env en)))"
  shows "\<exists>parts. storedJson cd (dedup_key cd (rn_env en)) = Inr parts \<and> dedup_parts_ok parts"
proof -
  let ?e = "rn_env en"
  obtain t where t: "obj_get ?e ''type'' = Some (JStr t)" "TYPE_RE t"
    using rt_envelope_common(1) [OF assms(2)] by (auto simp: common_ok_def)
  then have ty: "e_type (envelopeOf ?e) = t" by (simp add: envelopeOf_def Let_def str_or_def)
  with assms(3) have task: "take 5 t = ''task.''" "usesR1Dedup t" by (simp_all add: usesR1Dedup_def)
  then have "family ?e = ''task''" using t splitOn_task by (simp add: family_def)
  then have "isUuid (obj_get ?e ''task_id'')" "isSafeIntGe 1 (obj_get ?e ''attempt'')"
    using rt_envelope_common(2) [OF assms(2)] by (simp_all add: family_ok_def)
  then obtain a q where aq: "obj_get ?e ''task_id'' = Some (JStr a)" "isUuidStr a" "obj_get ?e ''attempt'' = Some (JNum q)"
    "isSafeInteger q" "1 \<le> q"
    by (auto simp: isUuid_def isSafeIntGe_iff split: option.splits json.splits)
  then have k: "dedup_key cd ?e = cd_jcs cd (JArr [JStr a, JNum q, JStr t])"
    using t by (simp add: dedup_key_def or_null_def)
  have "storedJson cd (dedup_key cd ?e) = Inr (JArr [JStr a, JNum q, JStr t])"
    unfolding k storedJson_def Let_def rt_codecD(4) [OF assms(1)] by simp
  moreover have "dedup_parts_ok (JArr [JStr a, JNum q, JStr t])"
    using aq t task by (simp add: dedup_parts_ok_def isUuid_def)
  ultimately show ?thesis by blast
qed

lemma eff_dedup:
  assumes "rt_codec (nc_codec cf)" "rt_eff cf P db db1" "dedup_table (nc_codec cf) db"
  shows "dedup_table (nc_codec cf) db1"
  using assms(2)
proof cases
  case (keyed v en f sk k)
  have "is_digest (body_digest (nc_codec cf) (rn_env en))" using rt_codecD(3) [OF assms(1)] by (simp add: body_digest_def)
  with keyed assms(3) dedup_key_parts [OF assms(1) keyed(2,3)] show ?thesis by (simp add: dedup_table_def)
qed (use assms(3) in \<open>simp_all add: dedup_table_def\<close>)

section \<open>The invariant\<close>

text \<open>A dedup key belongs to a state that exists.\<close>

definition dedup_live :: "node_db \<Rightarrow> bool" where
  "dedup_live db \<longleftrightarrow> (\<forall>f sk dk g. map_of (nd_dedup db) (f, sk, dk) = Some g \<longrightarrow> map_of (nd_state db) sk \<noteq> None)"

definition rt_tables :: "node_cfg \<Rightarrow> node_db \<Rightarrow> bool" where
  "rt_tables cf db \<longleftrightarrow>
     state_table (nc_codec cf) db \<and> inbox_table cf db \<and> delivery_table cf db \<and> dedup_table (nc_codec cf) db \<and>
     effects_table (nc_codec cf) db \<and> names_table clean db"

definition rt_inv :: "node_cfg \<Rightarrow> node_db \<Rightarrow> bool" where
  "rt_inv cf db \<longleftrightarrow> rt_tables cf db \<and> dedup_live db"

lemma effs_tables:
  assumes "rt_codec (nc_codec cf)" "rt_effs cf clean db db1" "rt_tables cf db"
  shows "rt_tables cf db1"
  using assms(2)
proof (induction rule: rtranclp_induct)
  case base
  show ?case by (rule assms(3))
next
  case (step a b)
  from step(3) eff_state [OF step(2)] eff_inbox [OF assms(1) step(2)] eff_delivery [OF assms(1) step(2)]
    eff_dedup [OF assms(1) step(2)] eff_effects [OF step(2)] eff_names [OF step(2)]
  show ?case by (simp add: rt_tables_def)
qed

text \<open>Only a consume that applies a message adds a dedup key, and it creates the state with it.\<close>

lemma effs_state_dom: "rt_effs cf P db db1 \<Longrightarrow> map_of (nd_state db) k \<noteq> None \<Longrightarrow> map_of (nd_state db1) k \<noteq> None"
  by (induction rule: rtranclp_induct) (auto elim!: rt_eff.cases)

lemma revision_pos_dom: "1 \<le> revision db k \<Longrightarrow> map_of (nd_state db) k \<noteq> None"
  by (auto simp: revision_def split: option.splits)

lemma nr_consume_live:
  assumes "nr_consume cf db rq t = Inr (db1, res)" "dedup_live db"
  shows "dedup_live db1"
  using assms(1)
proof (cases rule: nr_consume_cases)
  case (now row v en db2 db3 status n)
  note g = r1_gate_effs [where P = "\<lambda>_. True", OF now(6,3,9,7), simplified]
  have mono: "map_of (nd_state db) k \<noteq> None \<Longrightarrow> map_of (nd_state db1) k \<noteq> None" for k
    using effs_state_dom [OF nr_consume_effs [OF assms(1), of "\<lambda>_. True"]] by simp
  show ?thesis
  proof (cases "status = Applied")
    case False
    with now g have "nd_dedup db1 = nd_dedup db" by auto
    with mono assms(2) show ?thesis unfolding dedup_live_def by metis
  next
    case True
    with now(10) obtain result where a: "applyTransition cf db2 (cr_stateKey rq) (revision db (cr_stateKey rq)) result = Inr (db3, n)"
      by auto
    have "revision db2 = revision db" using g(3) by (simp add: revision_def fun_eq_iff)
    then have r: "revision db3 (cr_stateKey rq) = n" "n = revision db (cr_stateKey rq) + 1" "nd_dedup db3 = nd_dedup db2"
      using applyTransition_effs [where P = "\<lambda>_. True", OF a _ now(7)] by (simp_all add: result_ok_def names_ok_def)
    then have "map_of (nd_state db1) (cr_stateKey rq) \<noteq> None"
      using revision_pos_dom [of db3 "cr_stateKey rq"] now(11) by simp
    moreover have "\<exists>dk1. sk = cr_stateKey rq \<or> map_of (nd_dedup db) (f, sk, dk1) \<noteq> None"
      if "map_of (nd_dedup db1) (f, sk, dk) = Some h" for f sk dk h
      using that now(6,11) r(3) by (auto simp: r1_gate_def Let_def split: if_splits option.splits)
    ultimately show ?thesis using mono assms(2) unfolding dedup_live_def by (metis option.collapse)
  qed
qed (use assms(2) in simp_all)

lemma rt_exec_live:
  assumes "rt_exec cf x db = Inr (db1, out)" "dedup_live db"
  shows "dedup_live db1"
proof (cases "\<exists>rq t. x = Op_consume rq t")
  case True
  with assms show ?thesis by (auto simp: with_out_Inr intro: nr_consume_live)
next
  case False
  then have "nd_dedup db1 = nd_dedup db"
    using assms(1) by (cases x)
      (auto simp: with_out_Inr read_out_Inr nr_save_def same_inbound_def nr_prune_def Let_def
        dest: nr_all_same saveEntry_effs(2) nr_transition_effs(7) [where P = "\<lambda>_. True"]
        elim: nr_stored_cases receive_cases nr_completeEffect_cases split: option.splits if_splits)
  moreover have "rt_effs cf (\<lambda>_. True) db db1" by (rule rt_exec_effs [OF assms(1)]) simp
  ultimately show ?thesis using assms(2) effs_state_dom unfolding dedup_live_def by metis
qed

lemma rt_exec_inv:
  assumes "rt_codec (nc_codec cf)" "rt_exec cf x db = Inr (db1, out)" "op_keys (nc_codec cf) clean x" "rt_inv cf db"
  shows "rt_inv cf db1"
  using effs_tables [OF assms(1) rt_exec_effs [OF assms(2,3)]] rt_exec_live [OF assms(2)] assms(4)
  by (simp add: rt_inv_def)

section \<open>Reading back\<close>

lemma storedJson_canonical:
  "rt_codec cd \<Longrightarrow> canonical cd s \<Longrightarrow> storedJson cd s = Inr (cd_reparse cd s)"
  using rt_codecD(1,2) by (auto simp: canonical_def storedJson_def Let_def)

lemma state_reads:
  assumes "rt_codec cd" "state_table cd db" "map_of (nd_state db) k = Some r"
  shows "decodeState cd k r = Inr \<lparr>rs_key = k, rs_revision = sr_revision r, rs_value = cd_reparse cd (sr_value r)\<rparr>"
  using assms storedJson_canonical [OF assms(1), of "sr_value r"]
  by (simp add: state_table_def decodeState_def storedInteger_def safe_def)

lemma readState_reads:
  assumes "rt_codec cd" "state_table cd db" "key_ok cd k"
  shows "readState cd db k =
    Inr (map_option (\<lambda>r. \<lparr>rs_key = k, rs_revision = sr_revision r, rs_value = cd_reparse cd (sr_value r)\<rparr>) (map_of (nd_state db) k))"
  using state_reads [OF assms(1,2)] assms(3) by (simp add: readState_def split: option.splits)

lemma readState_total:
  assumes "rt_codec cd" "state_table cd db" "key_ok cd k"
  obtains st where "readState cd db k = Inr st" "revision_of st = revision db k" "st = None \<longleftrightarrow> map_of (nd_state db) k = None"
proof -
  note r = readState_reads [OF assms]
  then show thesis using that readState_revision [OF r] by simp
qed

lemma inbox_lookup: "inbox_table cf db \<Longrightarrow> map_of (nd_inbox db) k = Some r \<Longrightarrow> inbox_ok cf (revision db) k r"
  unfolding inbox_table_def by blast

lemma names_lookup:
  "names_table P db \<Longrightarrow> map_of (nd_inbox db) k = Some r \<Longrightarrow> ib_state_key r = Some sk \<Longrightarrow> P sk"
  unfolding names_table_def by blast

lemma inbox_reads:
  assumes c: "rt_codec (nc_codec cf)" and i: "rt_tables cf db" and r: "map_of (nd_inbox db) k = Some row"
  shows "\<exists>env. readInbox cf db k row = Inr env \<and> (env = None \<longleftrightarrow> ib_decision row \<noteq> Undecided)"
proof -
  have t: "state_table (nc_codec cf) db" "inbox_table cf db" "names_table clean db" using i by (simp_all add: rt_tables_def)
  note ok = inbox_lookup [OF t(2) r]
  show ?thesis
  proof (cases "ib_decision row = Undecided")
    case True
    with ok show ?thesis by (auto simp: inbox_ok_def readInbox_def)
  next
    case False
    with ok obtain sk n where sk: "ib_payload row = None" "ib_state_key row = Some sk" "ib_revision row = Some n" "key_ok (nc_codec cf) sk"
      "safe n" "ib_decision row = Applied \<longrightarrow> 1 \<le> n" "n \<le> revision db sk" "storedIdentity k (ib_digest row)"
      by (auto simp: inbox_ok_def)
    have "text_col sk = sk" using names_lookup [OF t(3) r sk(2)] by simp
    moreover obtain st where "readState (nc_codec cf) db sk = Inr st" "revision_of st = revision db sk"
      "st = None \<longleftrightarrow> map_of (nd_state db) sk = None"
      by (rule readState_total [OF c t(1) sk(4)])
    ultimately show ?thesis
      using sk False revision_pos_dom [of db sk]
      by (cases "n = 0") (auto simp: readInbox_def storedInteger_def safe_def)
  qed
qed

lemma dedup_reads:
  assumes c: "rt_codec (nc_codec cf)" and i: "rt_inv cf db" and r: "map_of (nd_dedup db) k = Some g"
  shows "readDedup (nc_codec cf) db k g = Inr ()"
proof -
  obtain f sk dk where k: "k = (f, sk, dk)" by (cases k)
  have t: "state_table (nc_codec cf) db" "dedup_table (nc_codec cf) db" "names_table clean db" "dedup_live db"
    using i by (simp_all add: rt_inv_def rt_tables_def)
  have d: "isUuidStr f" "is_digest g" "key_ok (nc_codec cf) sk" "\<exists>parts. storedJson (nc_codec cf) dk = Inr parts \<and> dedup_parts_ok parts"
    using t(2) r k unfolding dedup_table_def by blast+
  have "text_col sk = sk" using t(3) r k unfolding names_table_def by (metis text_col_clean)
  moreover obtain st where "readState (nc_codec cf) db sk = Inr st" "st = None \<longleftrightarrow> map_of (nd_state db) sk = None"
    by (rule readState_total [OF c t(1) d(3)])
  moreover have "map_of (nd_state db) sk \<noteq> None" using t(4) r k unfolding dedup_live_def by blast
  ultimately show ?thesis using d k by (auto simp: readDedup_def)
qed

lemma effect_reads:
  assumes c: "rt_codec (nc_codec cf)" and i: "rt_tables cf db" and r: "map_of (nd_effects db) e = Some row"
  shows "readEffect (nc_codec cf) db e row =
    Inr (\<lparr>re_id = e, re_state_key = er_state_key row, re_revision = er_revision row, re_kind = er_kind row,
          re_payload = cd_reparse (nc_codec cf) (er_payload row)\<rparr>, revision db (er_state_key row))"
proof -
  have t: "state_table (nc_codec cf) db" "effects_table (nc_codec cf) db" "names_table clean db"
    using i by (simp_all add: rt_tables_def)
  have d: "key_ok (nc_codec cf) e" "key_ok (nc_codec cf) (er_state_key row)" "key_ok (nc_codec cf) (er_kind row)"
    "1 \<le> er_revision row" "safe (er_revision row)" "er_revision row \<le> revision db (er_state_key row)"
    "canonical (nc_codec cf) (er_payload row)"
    using t(2) r unfolding effects_table_def by blast+
  have "clean e" "clean (er_state_key row)" "clean (er_kind row)" using t(3) r unfolding names_table_def by blast+
  moreover obtain st where "readState (nc_codec cf) db (er_state_key row) = Inr st"
    "revision_of st = revision db (er_state_key row)" "st = None \<longleftrightarrow> map_of (nd_state db) (er_state_key row) = None"
    by (rule readState_total [OF c t(1) d(2)])
  moreover have "map_of (nd_state db) (er_state_key row) \<noteq> None"
    using d by (intro revision_pos_dom) (rule order_trans)
  ultimately show ?thesis
    using d storedJson_canonical [OF c d(7)] by (simp add: readEffect_def storedInteger_def safe_def)
qed

lemma delivery_reads:
  "delivery_ok cf k d ob \<Longrightarrow> \<exists>entry. readDelivery cf k d ob = Inr entry \<and> (entry = None \<longleftrightarrow> ob = None)"
  by (cases ob) (auto simp: delivery_ok_def readDelivery_def storedInteger_def safe_def)

lemma list_all_map_of:
  "wf_map m \<Longrightarrow> list_all P m \<longleftrightarrow> (\<forall>k v. map_of m k = Some v \<longrightarrow> P (k, v))"
  unfolding list_all_iff using wf_map_lookup by (metis surj_pair)

text \<open>The invariant is what the constructor checks: a store that keeps it can always be reopened.\<close>

lemma inv_startup:
  assumes c: "rt_codec (nc_codec cf)" and i: "rt_inv cf db"
  shows "validateStartup cf db"
proof -
  have t: "state_table (nc_codec cf) db" "inbox_table cf db" "delivery_table cf db" "dedup_table (nc_codec cf) db"
    "effects_table (nc_codec cf) db" "rt_tables cf db"
    using i by (simp_all add: rt_inv_def rt_tables_def)
  have wf: "wf_map (nd_state db)" "wf_map (nd_inbox db)" "wf_map (nd_delivery db)" "wf_map (nd_outbox db)"
    "wf_map (nd_dedup db)" "wf_map (nd_effects db)"
    using t by (simp_all add: state_table_def inbox_table_def delivery_table_def dedup_table_def effects_table_def)
  note all = list_all_map_of [OF wf(1)] list_all_map_of [OF wf(2)] list_all_map_of [OF wf(3)] list_all_map_of [OF wf(4)]
    list_all_map_of [OF wf(5)] list_all_map_of [OF wf(6)]
  have "map_of (nd_delivery db) k \<noteq> None" if "map_of (nd_outbox db) k = Some ob" for k ob
    using t(3) that unfolding delivery_table_def by blast
  moreover have "map_of (nd_state db) (er_state_key r) \<noteq> None" if "map_of (nd_effects db) e = Some r" for e r
    using t(5) that unfolding effects_table_def by (intro revision_pos_dom) (metis order_trans)
  moreover have "\<not> isl (readDelivery cf k d (map_of (nd_outbox db) k))" if "map_of (nd_delivery db) k = Some d" for k d
    using delivery_reads [OF delivery_lookup [OF t(3) that]] by auto
  moreover have "\<not> isl (readInbox cf db k r)" if "map_of (nd_inbox db) k = Some r" for k r
    using inbox_reads [OF c t(6) that] by auto
  ultimately show ?thesis
    using state_reads [OF c t(1)] dedup_reads [OF c i] effect_reads [OF c t(6)]
    unfolding validateStartup_def all by auto
qed

end
