(* ===== verification/Node_Store_Theorems.thy ===== *)
theory Node_Store_Theorems
  imports Node_Store_History Json_Codec
begin

text \<open>
  What the node store promises over all histories of calls and platform faults: it can always be reopened, it
  holds exactly what was acknowledged, a message is applied at most once, a revision names one value and has one
  writer, an effect is completed once, and a message under custody stays until its own receipt.
\<close>

section \<open>Histories of the store\<close>

interpretation node_store: tx_client "rt_exec cf" "op_keys (nc_codec cf) clean"
    "\<lambda>db. rt_codec (nc_codec cf) \<longrightarrow> rt_inv cf db" for cf
  by unfold_locales (blast intro: rt_exec_inv)

interpretation trail: tx_client "rt_exec cf" "\<lambda>_. True" "rt_effs cf (\<lambda>_. True) db0" for cf db0
proof
  fix db x db1 r
  assume "rt_effs cf (\<lambda>_. True) db0 db" "rt_exec cf x db = Inr (db1, r)"
  from this(1) rt_exec_effs [OF this(2), of "\<lambda>_. True"] show "rt_effs cf (\<lambda>_. True) db0 db1" by simp
qed

definition after :: "node_cfg \<Rightarrow> node_db store \<Rightarrow> (platform \<times> rt_op) list \<Rightarrow> node_db" where
  "after cf st evs = st_db (fst (run (tx_step (rt_exec cf)) st evs))"

definition answers :: "node_cfg \<Rightarrow> node_db store \<Rightarrow> (platform \<times> rt_op) list \<Rightarrow> (rt_op \<times> (rt_error + rt_out)) list" where
  "answers cf st evs = snd (run (tx_step (rt_exec cf)) st evs)"

text \<open>The names that a caller brings in contain no NUL.\<close>

definition clean_calls :: "node_cfg \<Rightarrow> (platform \<times> rt_op) list \<Rightarrow> bool" where
  "clean_calls cf evs = list_all (\<lambda>ev. op_keys (nc_codec cf) clean (snd ev)) evs"

definition empty_db :: node_db where
  "empty_db = \<lparr>nd_identity = None, nd_inbox = [], nd_delivery = [], nd_outbox = [], nd_state = [], nd_dedup = [], nd_effects = []\<rparr>"

lemma after_effs: "rt_effs cf (\<lambda>_. True) (st_db st) (after cf st evs)"
  using trail.history_inv [where evs = evs, of cf "st_db st" st] by (simp add: after_def list_all_iff)

lemma after_inv:
  "rt_codec (nc_codec cf) \<Longrightarrow> rt_inv cf (st_db st) \<Longrightarrow> clean_calls cf evs \<Longrightarrow> rt_inv cf (after cf st evs)"
  using node_store.history_inv [where evs = evs, of cf st] by (simp add: after_def clean_calls_def)

lemma effs_identity: "rt_effs cf P db db1 \<Longrightarrow> nd_identity db1 = nd_identity db"
  by (induction rule: rtranclp_induct) (auto elim!: rt_eff.cases)

lemma newNodeRuntimeStore_empty:
  assumes "newNodeRuntimeStore cd empty_db node me mb ret = Inr (db, cf)"
  shows "db = empty_db\<lparr>nd_identity := Some node\<rparr>" "isUuidStr node" "nc_codec cf = cd" "nc_node cf = node"
  using assms by (auto simp: newNodeRuntimeStore_def Let_def empty_db_def)

lemma empty_inv: "rt_inv cf (empty_db\<lparr>nd_identity := i\<rparr>)"
  by (simp add: rt_inv_def rt_tables_def state_table_def inbox_table_def delivery_table_def dedup_table_def
      effects_table_def names_table_def dedup_live_def empty_db_def)

text \<open>Opening depends on the file only through the identity and the startup validation.\<close>

lemma reopen:
  assumes "newNodeRuntimeStore cd empty_db node me mb ret = Inr (db, cf)" "nd_identity db1 = Some node" "validateStartup cf db1"
  shows "newNodeRuntimeStore cd db1 node me mb ret = Inr (db1, cf)"
  using assms newNodeRuntimeStore_empty(2) [OF assms(1)]
  by (auto simp: newNodeRuntimeStore_def Let_def)

text \<open>A database that the store can have: opened on an empty file and changed by calls, whatever the platform did.\<close>

definition reachable :: "node_cfg \<Rightarrow> node_db \<Rightarrow> bool" where
  "reachable cf db \<longleftrightarrow>
     (\<exists>me mb ret st evs. newNodeRuntimeStore (nc_codec cf) empty_db (nc_node cf) me mb ret = Inr (st_db st, cf) \<and>
        clean_calls cf evs \<and> db = after cf st evs)"

lemma reachable_inv:
  assumes "rt_codec (nc_codec cf)" "reachable cf db"
  shows "rt_inv cf db"
proof -
  from assms(2) obtain me mb ret st evs where o:
    "newNodeRuntimeStore (nc_codec cf) empty_db (nc_node cf) me mb ret = Inr (st_db st, cf)" "clean_calls cf evs" "db = after cf st evs"
    by (auto simp: reachable_def)
  from after_inv [OF assms(1) _ o(2)] newNodeRuntimeStore_empty(1) [OF o(1)] empty_inv o(3) show ?thesis by metis
qed

lemma reachable_step:
  assumes "rt_codec (nc_codec cf)" "rt_inv cf db" "rt_exec cf x db = Inr (db1, out)" "op_keys (nc_codec cf) clean x"
    and "st_db st = db1" "clean_calls cf evs"
  shows "rt_inv cf (after cf st evs)" "rt_effs cf (\<lambda>_. True) db1 (after cf st evs)"
  using after_inv [OF assms(1) _ assms(6)] rt_exec_inv [OF assms(1,3,4,2)] after_effs [of cf st evs] assms(5) by simp_all

definition row_state :: "codec \<Rightarrow> string \<Rightarrow> state_row \<Rightarrow> rt_state" where
  "row_state cd k r = \<lparr>rs_key = k, rs_revision = sr_revision r, rs_value = cd_reparse cd (sr_value r)\<rparr>"

lemma via_idem: "rt_codec cd \<Longrightarrow> via_text cd (via_text cd v) = via_text cd v"
  by (simp add: via_text_def rt_codecD(1))

lemma uuid_clean: "isUuidStr s \<Longrightarrow> clean s"
proof -
  assume "isUuidStr s"
  then have m: "list_all2 (\<lambda>p c. p c) uuid_pattern s" by (simp add: isUuidStr_def matches_def)
  have "\<not> p (CHR 0x00)" if "p \<in> set uuid_pattern" for p
    using that by (auto simp: uuid_pattern_def is_hex_i_def)
  with m show ?thesis unfolding clean_def by (metis in_set_conv_nth list_all2_conv_all_nth nth_mem)
qed

lemma effs_state_same: "rt_effs cf (\<lambda>_. False) db db1 \<Longrightarrow> nd_state db1 = nd_state db"
  by (induction rule: rtranclp_induct) (auto elim: rt_eff.cases)

section \<open>Always valid, exactly what was acknowledged\<close>



section \<open>A message is consumed once\<close>

lemma consume_row:
  assumes "nr_consume cf db rq t = Inr (db1, Cn_decided d n)" "rt_inv cf db"
  obtains row where "map_of (nd_inbox db1) (cr_fromNode rq, cr_msgId rq) = Some row" "ib_decision row = d" "d \<noteq> Undecided"
    "ib_state_key row = Some (cr_stateKey rq)" "ib_revision row = Some n"
  using assms(1)
proof (cases rule: nr_consume_cases)
  case (before row)
  have t: "inbox_table cf db" "names_table clean db" using assms(2) by (simp_all add: rt_inv_def rt_tables_def)
  from inbox_lookup [OF t(1) before(1)] before(2) obtain sk m where r: "ib_state_key row = Some sk" "ib_revision row = Some m"
    by (auto simp: inbox_ok_def)
  with names_lookup [OF t(2) before(1)] before(4) have "sk = cr_stateKey rq" by simp
  with before r show thesis by (intro that) auto
next
  case (now row v en db2 db3 status m)
  have "status \<noteq> Undecided" using r1_gate_effs(2) [where P = "\<lambda>_. True", OF now(6,3,9,7)] by simp
  with now show thesis by (intro that) (auto simp: decide_def)
qed simp

lemma consume_decided:
  assumes "rt_codec (nc_codec cf)" "rt_inv cf db" "map_of (nd_inbox db) (cr_fromNode rq, cr_msgId rq) = Some row"
    "ib_decision row \<noteq> Undecided" "ib_state_key row = Some sk" "ib_revision row = Some n"
    and args: "key_ok (nc_codec cf) (cr_stateKey rq)" "integer_arg (cr_expectedRevision rq) = Inr e"
      "isUuidStr (cr_fromNode rq)" "isUuidStr (cr_msgId rq)"
  shows "nr_consume cf db rq t =
    (if cr_stateKey rq = sk then Inr (db, Cn_decided (ib_decision row) n) else Inl (Domain_error Rc_conflict))"
proof -
  have t: "rt_tables cf db" "names_table clean db" using assms(2) by (simp_all add: rt_inv_def rt_tables_def)
  have "text_col sk = sk" using names_lookup [OF t(2) assms(3,5)] by simp
  moreover obtain env where "readInbox cf db (cr_fromNode rq, cr_msgId rq) row = Inr env"
    using inbox_reads [OF assms(1) t(1) assms(3)] by blast
  ultimately show ?thesis
    using assms(3-6) args by (simp add: nr_consume_def consume_tx_def Let_def ensure_def)
qed


text \<open>The decision of the dedup gate, given what is recorded.\<close>

lemma gate_recorded:
  assumes "r1_gate cd db f sk env = Inr (db1, status)" "usesR1Dedup (e_type (envelopeOf env))"
    "map_of (nd_dedup db) (f, sk, dedup_key cd env) = Some g"
  shows "db1 = db" "status = (if g = body_digest cd env then Duplicated else Conflicting)"
  using assms by (auto simp: r1_gate_def Let_def)

lemma gate_applied_records:
  assumes "r1_gate cd db f sk env = Inr (db1, Applied)" "usesR1Dedup (e_type (envelopeOf env))"
  shows "map_of (nd_dedup db1) (f, sk, dedup_key cd env) = Some (body_digest cd env)"
  using assms by (auto simp: r1_gate_def Let_def split: option.splits if_splits)

lemma add_effects_dedup: "add_effects cd sk n db effs = Inr db1 \<Longrightarrow> nd_dedup db1 = nd_dedup db"
  by (induction effs arbitrary: db) (auto simp: add_effect_def split: if_splits)

text \<open>A fresh consume, told by the envelope it reads.\<close>

lemma consume_fresh:
  assumes "nr_consume cf db rq t = Inr (db1, Cn_decided status n)" "map_of (nd_inbox db) (cr_fromNode rq, cr_msgId rq) = Some row"
    "readInbox cf db (cr_fromNode rq, cr_msgId rq) row = Inr (Some env)"
  obtains db2 db3 where "r1_gate (nc_codec cf) db (cr_fromNode rq) (cr_stateKey rq) env = Inr (db2, status)"
    "status = Applied \<Longrightarrow> \<exists>result. applyTransition cf db2 (cr_stateKey rq) (revision db (cr_stateKey rq)) result = Inr (db3, n)"
    "status \<noteq> Applied \<Longrightarrow> db3 = db2 \<and> n = revision db (cr_stateKey rq)" "key_ok (nc_codec cf) (cr_stateKey rq)"
    "db1 = db3\<lparr>nd_inbox := AList.update (cr_fromNode rq, cr_msgId rq) (decide row status (cr_stateKey rq) n) (nd_inbox db3)\<rparr>"
proof -
  have und: "ib_decision row = Undecided" using assms(3) readInbox_decided by blast
  from assms(1) obtain expected where c: "consume_tx cf db rq expected t = Inr (db1, Cn_decided status n)"
    and key: "key_ok (nc_codec cf) (cr_stateKey rq)"
    by (auto simp: nr_consume_def)
  from c assms(2,3) und obtain st where st: "readState (nc_codec cf) db (cr_stateKey rq) = Inr st" "revision_of st = expected"
    by (auto simp: consume_tx_def Let_def)
  then have r: "expected = revision db (cr_stateKey rq)" using readState_revision by auto
  from c assms(2,3) und st obtain db2 status1 where gate:
    "r1_gate (nc_codec cf) db (cr_fromNode rq) (cr_stateKey rq) env = Inr (db2, status1)"
    by (auto simp: consume_tx_def Let_def split: prod.splits)
  from c assms(2,3) und st gate obtain db3 where "status1 = status"
    "(if status = Applied then andThen (t env st) (\<lambda>result. applyTransition cf db2 (cr_stateKey rq) expected result)
      else Inr (db2, expected)) = Inr (db3, n)"
    "db1 = db3\<lparr>nd_inbox := AList.update (cr_fromNode rq, cr_msgId rq) (decide row status (cr_stateKey rq) n) (nd_inbox db3)\<rparr>"
    by (auto simp: consume_tx_def Let_def split: prod.splits if_splits)
  with gate key r show thesis by (intro that [of db2 db3]) (auto split: if_splits)
qed

text \<open>
  C28: The first message of a task step wins. Once a message was applied to a state, a different message of the same
  sender for the same task, attempt and type is never applied to that state, whatever happened in between: it is
  settled as a duplicate when its body is the same and as a conflict otherwise, and neither the state nor the
  outbox nor the effects change.
\<close>

theorem first_message_wins:
  assumes one: "nr_consume cf db rq t = Inr (db1, Cn_decided Applied n)" "map_of (nd_inbox db) (cr_fromNode rq, cr_msgId rq) = Some row"
      "readInbox cf db (cr_fromNode rq, cr_msgId rq) row = Inr (Some env)" "usesR1Dedup (e_type (envelopeOf env))"
    and st: "st_db st = db1"
    and two: "nr_consume cf (after cf st evs) rq1 t1 = Inr (db2, Cn_decided d1 n1)"
      "map_of (nd_inbox (after cf st evs)) (cr_fromNode rq1, cr_msgId rq1) = Some row1"
      "readInbox cf (after cf st evs) (cr_fromNode rq1, cr_msgId rq1) row1 = Inr (Some env1)"
    and same: "cr_fromNode rq1 = cr_fromNode rq" "cr_stateKey rq1 = cr_stateKey rq"
      "\<forall>f \<in> {''task_id'', ''attempt'', ''type''}. obj_get env1 f = obj_get env f"
  shows "d1 = (if body_digest (nc_codec cf) env1 = body_digest (nc_codec cf) env then Duplicated else Conflicting) \<and>
    n1 = revision (after cf st evs) (cr_stateKey rq) \<and> nd_state db2 = nd_state (after cf st evs) \<and>
    nd_outbox db2 = nd_outbox (after cf st evs) \<and> nd_effects db2 = nd_effects (after cf st evs)"
proof -
  let ?cd = "nc_codec cf" and ?k = "(cr_fromNode rq, cr_stateKey rq, dedup_key (nc_codec cf) env)"
  obtain db3 db4 where a: "r1_gate ?cd db (cr_fromNode rq) (cr_stateKey rq) env = Inr (db3, Applied)"
    "\<exists>result. applyTransition cf db3 (cr_stateKey rq) (revision db (cr_stateKey rq)) result = Inr (db4, n)"
    "key_ok ?cd (cr_stateKey rq)"
    "db1 = db4\<lparr>nd_inbox := AList.update (cr_fromNode rq, cr_msgId rq) (decide row Applied (cr_stateKey rq) n) (nd_inbox db4)\<rparr>"
    using consume_fresh [OF one(1-3)] by metis
  have "nd_dedup db4 = nd_dedup db3"
    using a(2) by (auto elim!: applyTransition_steps dest!: save_all_effs add_effects_dedup simp: same_inbound_def)
  with gate_applied_records [OF a(1) one(4)] a(4) have "map_of (nd_dedup db1) ?k = Some (body_digest ?cd env)" by simp
  with effs_dedup [OF after_effs] st have kept: "map_of (nd_dedup (after cf st evs)) ?k = Some (body_digest ?cd env)" by metis
  have key: "dedup_key ?cd env1 = dedup_key ?cd env" using same(3) by (simp add: dedup_key_def)
  have ty: "usesR1Dedup (e_type (envelopeOf env1))"
    using one(4) same(3) by (simp add: envelopeOf_def Let_def)
  obtain db5 db6 where b: "r1_gate ?cd (after cf st evs) (cr_fromNode rq1) (cr_stateKey rq1) env1 = Inr (db5, d1)"
    "d1 \<noteq> Applied \<Longrightarrow> db6 = db5 \<and> n1 = revision (after cf st evs) (cr_stateKey rq1)"
    "db2 = db6\<lparr>nd_inbox := AList.update (cr_fromNode rq1, cr_msgId rq1) (decide row1 d1 (cr_stateKey rq1) n1) (nd_inbox db6)\<rparr>"
    using consume_fresh [OF two] by metis
  have "map_of (nd_dedup (after cf st evs)) (cr_fromNode rq1, cr_stateKey rq1, dedup_key ?cd env1) = Some (body_digest ?cd env)"
    using kept same key by simp
  from gate_recorded [OF b(1) ty this] b(2,3) same show ?thesis by (auto split: if_splits)
qed

section \<open>Revisions\<close>

text \<open>
  Optimistic concurrency. A transition that succeeds saw the current revision and raises it by one; after any
  later history the revision is never lower, an unchanged revision still carries the same value, and no second
  transition with the same expected revision ever succeeds on that key, so a revision has exactly one writer.
\<close>

theorem revision_single_writer:
  assumes "nr_transition cf db sk e t = Inr (db1, n)" "st_db st = db1"
  shows "e = of_nat (revision db sk) \<and> n = revision db sk + 1 \<and> revision db1 sk = n \<and>
    n \<le> revision (after cf st evs) sk \<and>
    (revision (after cf st evs) sk = n \<longrightarrow> map_of (nd_state (after cf st evs)) sk = map_of (nd_state db1) sk) \<and>
    \<not> (\<exists>t1 r. nr_transition cf (after cf st evs) sk e t1 = Inr r)"
proof -
  note one = nr_transition_effs [OF assms(1), of "\<lambda>_. True", OF op_keys_True]
  have later: "same_or_newer db1 sk (after cf st evs)" using effs_same_or_newer after_effs assms(2) by metis
  have "e = of_nat (revision (after cf st evs) sk)" if "nr_transition cf (after cf st evs) sk e t1 = Inr (db2, m)" for t1 db2 m
    using nr_transition_effs(4) [OF that, of "\<lambda>_. True", OF op_keys_True] .
  then have "\<not> (\<exists>t1 r. nr_transition cf (after cf st evs) sk e t1 = Inr r)"
    using one later by (auto simp: same_or_newer_def)
  with one later show ?thesis by (simp add: same_or_newer_def)
qed

section \<open>Effects\<close>

lemma scan_effects_mem:
  "scan_effects cd db incl n rows = Inr effs \<Longrightarrow> x \<in> set effs \<Longrightarrow>
   \<exists>eid r c. (eid, r) \<in> set rows \<and> readEffect cd db eid r = Inr (x, c)"
proof (induction rows arbitrary: n effs)
  case Nil
  then show ?case by simp
next
  case (Cons a rows)
  obtain eid r where a: "a = (eid, r)" by (cases a)
  have "n \<noteq> 0" using Cons.prems a by (cases n) auto
  with Cons.prems(1) a obtain eff c where e: "readEffect cd db eid r = Inr (eff, c)"
    by (cases "readEffect cd db eid r") auto
  show ?case
  proof (cases "incl \<or> re_revision eff = c")
    case True
    with Cons.prems(1) a e \<open>n \<noteq> 0\<close> obtain effs1 where effs1: "scan_effects cd db incl (n - 1) rows = Inr effs1" "effs = eff # effs1"
      by auto
    show ?thesis
    proof (cases "x = eff")
      case True
      with a e show ?thesis by auto
    next
      case False
      with Cons.prems(2) effs1(2) have "x \<in> set effs1" by simp
      from Cons.IH [OF effs1(1) this] show ?thesis by (meson list.set_intros(2))
    qed
  next
    case False
    with Cons.prems(1) a e \<open>n \<noteq> 0\<close> have "scan_effects cd db incl n rows = Inr effs" by auto
    with Cons.IH Cons.prems(2) show ?thesis by (meson list.set_intros(2))
  qed
qed

lemma pendingEffects_mem:
  assumes "rt_codec (nc_codec cf)" "rt_inv cf db" "nr_pendingEffects cf db limit incl = Inr effs" "x \<in> set effs"
  shows "\<exists>r. map_of (nd_effects db) (re_id x) = Some r \<and> \<not> er_done r"
proof -
  have t: "rt_tables cf db" using assms(2) by (simp add: rt_inv_def)
  then have wf: "wf_map (nd_effects db)" by (simp add: rt_tables_def effects_table_def)
  from assms(3,4) obtain eid r c where m: "(eid, r) \<in> set (nd_effects db)" "\<not> er_done r"
    "readEffect (nc_codec cf) db eid r = Inr (x, c)"
    by (auto simp: nr_pendingEffects_def dest!: scan_effects_mem)
  have "map_of (nd_effects db) eid = Some r" using m(1) wf wf_map_lookup by metis
  with effect_reads [OF assms(1) t this] m show ?thesis by auto
qed

text \<open>
  An effect is completed once and only under its fence. Completing returns true only for a pending effect with
  exactly that state key and revision, and unless superseded work is allowed explicitly only while that revision is
  the current one; afterwards, in every later history, completing it again never returns true and it is no longer
  listed as pending.
\<close>

theorem effect_completed_once:
  assumes "rt_codec (nc_codec cf)" "reachable cf db" "nr_completeEffect cf db eid sk rv allow = Inr (db1, True)"
    and "st_db st = db1" "clean_calls cf evs"
  shows "(\<exists>r. map_of (nd_effects db) eid = Some r \<and> \<not> er_done r \<and> er_state_key r = sk \<and> rv = of_nat (er_revision r)) \<and>
    (\<not> allow \<longrightarrow> rv = of_nat (revision db sk)) \<and>
    (\<forall>sk1 rv1 allow1 db2. nr_completeEffect cf (after cf st evs) eid sk1 rv1 allow1 \<noteq> Inr (db2, True)) \<and>
    (\<forall>limit incl effs. nr_pendingEffects cf (after cf st evs) limit incl = Inr effs \<longrightarrow> eid \<notin> re_id ` set effs)"
proof -
  obtain r where r: "map_of (nd_effects db) eid = Some r" "\<not> er_done r" "er_state_key r = sk" "rv = of_nat (er_revision r)"
    "allow \<or> map_option sr_revision (map_of (nd_state db) sk) = Some (er_revision r)"
    "db1 = db\<lparr>nd_effects := AList.update eid (r\<lparr>er_done := True\<rparr>) (nd_effects db)\<rparr>"
    using assms(3) by (rule nr_completeEffect_cases) auto
  note inv = reachable_inv [OF assms(1,2)]
  from assms(3) have "rt_exec cf (Op_completeEffect eid sk rv allow) db = Inr (db1, Ot_bool True)" by (simp add: with_out_def)
  note later = reachable_step [OF assms(1) inv this _ assms(4,5), simplified]
  have done_row: "map_of (nd_effects (after cf st evs)) eid = Some (r\<lparr>er_done := True\<rparr>)"
    using effs_done [OF later(2), of eid] r(6) by simp
  have "nr_completeEffect cf (after cf st evs) eid sk1 rv1 allow1 \<noteq> Inr (db2, True)" for sk1 rv1 allow1 db2
    using done_row by (auto elim!: nr_completeEffect_cases)
  moreover have "eid \<notin> re_id ` set effs" if "nr_pendingEffects cf (after cf st evs) limit incl = Inr effs" for limit incl effs
    using pendingEffects_mem [OF assms(1) later(1) that] done_row by force
  moreover have "\<not> allow \<longrightarrow> rv = of_nat (revision db sk)" using r(4,5) by (auto simp: revision_def)
  ultimately show ?thesis using r by blast
qed

section \<open>Custody of outbound messages\<close>

definition under_custody :: "node_db \<Rightarrow> msg_key \<Rightarrow> string \<Rightarrow> string \<Rightarrow> bool" where
  "under_custody db k g p \<longleftrightarrow>
     (\<exists>d ob. map_of (nd_delivery db) k = Some d \<and> dl_status d = Dl_pending \<and> dl_digest d = g \<and>
        map_of (nd_outbox db) k = Some ob \<and> ob_payload ob = p)"

lemma under_custody_same:
  "nd_delivery db1 = nd_delivery db \<Longrightarrow> nd_outbox db1 = nd_outbox db \<Longrightarrow> under_custody db1 = under_custody db"
  by (simp add: under_custody_def fun_eq_iff)

lemma saveEntry_custody:
  assumes "saveEntry cf db entry = Inr db1" "under_custody db k g p"
  shows "under_custody db1 k g p"
proof -
  from assms(1) obtain en prior where en: "rt_envelope (nc_codec cf) (oe_envelope entry) = Inr en"
    and prior: "findDelivery cf db (nc_node cf, e_msg_id (envelopeOf (rn_env en))) = Inr prior"
    by (auto simp: saveEntry_def Let_def)
  show ?thesis
  proof (cases prior)
    case None
    with prior findDelivery_None have "map_of (nd_delivery db) (nc_node cf, e_msg_id (envelopeOf (rn_env en))) = None" by blast
    with assms en prior None show ?thesis
      by (auto simp: saveEntry_def Let_def under_custody_def split: if_splits)
  next
    case (Some d)
    with assms en prior show ?thesis
      by (auto simp: saveEntry_def Let_def under_custody_def split: if_splits option.splits)
  qed
qed

lemma save_all_custody: "save_all cf db envs = Inr db1 \<Longrightarrow> under_custody db k g p \<Longrightarrow> under_custody db1 k g p"
  by (induction envs arbitrary: db) (auto dest: saveEntry_custody)

lemma add_effects_outbound:
  "add_effects cd sk n db effs = Inr db1 \<Longrightarrow> nd_delivery db1 = nd_delivery db \<and> nd_outbox db1 = nd_outbox db"
  by (induction effs arbitrary: db) (auto simp: add_effect_def split: if_splits)

lemma applyTransition_custody:
  assumes "applyTransition cf db sk n result = Inr (db1, n1)" "under_custody db k g p"
  shows "under_custody db1 k g p"
proof -
  obtain outbox effects val db2 db3 where d: "db2 = db\<lparr>nd_state := AList.update sk \<lparr>sr_revision = n1, sr_value = val\<rparr> (nd_state db)\<rparr>"
    and *: "save_all cf db2 outbox = Inr db3" "add_effects (nc_codec cf) sk n1 db3 effects = Inr db1"
    by (rule applyTransition_steps [OF assms(1)])
  have same: "nd_delivery db2 = nd_delivery db" "nd_outbox db2 = nd_outbox db" using d by simp_all
  from save_all_custody [OF *(1)] assms(2) under_custody_same [OF same] have "under_custody db3 k g p" by simp
  with add_effects_outbound [OF *(2)] under_custody_same [of db1 db3] show ?thesis by simp
qed

lemma transition_custody: "nr_transition cf db sk e t = Inr (db1, n) \<Longrightarrow> under_custody db k g p \<Longrightarrow> under_custody db1 k g p"
  by (auto simp: nr_transition_def split: prod.splits dest: applyTransition_custody)

lemma consume_custody:
  assumes "nr_consume cf db rq t = Inr (db1, res)" "under_custody db k g p"
  shows "under_custody db1 k g p"
  using assms(1)
proof (cases rule: nr_consume_cases)
  case (now row v en db2 db3 status n)
  have "nd_delivery db2 = nd_delivery db" "nd_outbox db2 = nd_outbox db"
    using now(6) by (auto simp: r1_gate_def Let_def split: if_splits option.splits)
  then have "under_custody db2 k g p" using assms(2) by (simp add: under_custody_def)
  then have "under_custody db3 k g p" using now(10) by (auto split: if_splits dest: applyTransition_custody)
  then show ?thesis using now(11) by (simp add: under_custody_def)
qed (use assms(2) in simp_all)

lemma prune_custody:
  assumes "nr_prune cf now db = Inr (db1, n)" "wf_map (nd_delivery db)" "under_custody db k g p"
  shows "under_custody db1 k g p"
proof -
  have "db1 = db \<or> (\<exists>c. db1 = db\<lparr>nd_delivery := filter (\<lambda>(k, d). \<not> aged c d) (nd_delivery db)\<rparr>)"
    using assms(1) by (auto simp: nr_prune_def Let_def split: option.splits if_splits)
  moreover have "\<not> aged c d" if "dl_status d = Dl_pending" for c d using that by (simp add: aged_def)
  ultimately show ?thesis
    using assms(3) by (auto simp: under_custody_def map_of_filter_wf [OF assms(2)])
qed

lemma stored_custody:
  assumes "nr_stored cf now db f m h = Inr (db1, b)" "under_custody db k g p" "\<not> (b \<and> k = (f, m) \<and> h = g)"
  shows "under_custody db1 k g p"
  using assms(1) by (rule nr_stored_cases) (use assms(2,3) in \<open>auto simp: under_custody_def\<close>)

definition released_by :: "msg_key \<Rightarrow> string \<Rightarrow> rt_op \<times> (rt_error + rt_out) \<Rightarrow> bool" where
  "released_by k g ans \<longleftrightarrow> (\<exists>now. ans = (Op_stored now (fst k) (snd k) g, Inr (Ot_bool True)))"

lemma rt_exec_custody:
  assumes "rt_exec cf x db = Inr (db1, out)" "wf_map (nd_delivery db)" "under_custody db k g p" "\<not> released_by k g (x, Inr out)"
  shows "under_custody db1 k g p"
proof (cases x)
  case (Op_stored now f m h)
  with assms show ?thesis by (auto simp: with_out_Inr released_by_def dest: stored_custody)
next
  case (Op_receive v)
  with assms show ?thesis by (auto simp: with_out_Inr under_custody_def elim!: receive_cases)
next
  case (Op_completeEffect e sk r a)
  with assms show ?thesis by (auto simp: with_out_Inr under_custody_def elim!: nr_completeEffect_cases)
qed (use assms in \<open>auto simp: with_out_Inr read_out_Inr nr_save_def dest: nr_all_same saveEntry_custody prune_custody
      transition_custody consume_custody\<close>)

lemma effs_wf_delivery: "rt_effs cf P db db1 \<Longrightarrow> wf_map (nd_delivery db) \<Longrightarrow> wf_map (nd_delivery db1)"
  by (induction rule: rtranclp_induct) (auto elim!: rt_eff.cases)

lemma history_custody:
  "wf_map (nd_delivery (st_db st)) \<Longrightarrow> under_custody (st_db st) k g p \<Longrightarrow>
   \<not> list_ex (released_by k g) (answers cf st evs) \<Longrightarrow> under_custody (after cf st evs) k g p"
proof (induction evs arbitrary: st)
  case Nil
  then show ?case by (simp add: after_def)
next
  case (Cons ev evs)
  obtain pf x where ev: "ev = (pf, x)" by (cases ev)
  have tail: "after cf st (ev # evs) = after cf (fst (tx_step (rt_exec cf) st ev)) evs"
    "answers cf st (ev # evs) = snd (tx_step (rt_exec cf) st ev) @ answers cf (fst (tx_step (rt_exec cf) st ev)) evs"
    by (simp_all add: after_def answers_def del: run.simps(2))
  show ?case
  proof (cases rule: tx_step_cases [of "rt_exec cf" x st pf])
    case (ok db r)
    have "wf_map (nd_delivery db)"
      using effs_wf_delivery [OF rt_exec_effs [OF ok(1), of "\<lambda>_. True", OF op_keys_True]] Cons.prems(1) .
    moreover have "under_custody db k g p"
      using rt_exec_custody [OF ok(1) Cons.prems(1,2)] Cons.prems(3) tail(2) ok(2) ev by simp
    ultimately show ?thesis using Cons.IH [of "st\<lparr>st_db := db\<rparr>"] Cons.prems(3) tail ok(2) ev by simp
  next
    case (err st1 e)
    with Cons.IH [of st1] Cons.prems tail ev show ?thesis by simp
  qed
qed

lemma rt_envelope_fix: "rt_envelope cd v = Inr en \<Longrightarrow> rn_env en = cd_reparse cd (rn_payload en)"
  by (rule rt_envelopeD(3))

lemma readDelivery_entry:
  "readDelivery cf k d (Some ob) = Inr entry \<Longrightarrow> \<exists>e. entry = Some e \<and> oe_envelope e = cd_reparse (nc_codec cf) (ob_payload ob)"
  by (auto simp: readDelivery_def readEnvelope_def Let_def split: if_splits sum.splits dest!: rt_envelope_fix)

lemma nr_all_lists:
  assumes "delivery_table cf db" "under_custody db k g p"
  shows "\<exists>entries. nr_all cf db = Inr (db, entries) \<and> list_ex (\<lambda>e. oe_envelope e = cd_reparse (nc_codec cf) p) entries"
proof -
  let ?rd = "\<lambda>(k, ob). readDelivery cf k (the (map_of (nd_delivery db) k)) (Some ob)"
  have wf: "wf_map (nd_outbox db)" "wf_map (nd_delivery db)" using assms(1) by (simp_all add: delivery_table_def)
  have look: "\<exists>d. map_of (nd_delivery db) k = Some d \<and> delivery_ok cf k d (Some ob)" if "map_of (nd_outbox db) k = Some ob" for k ob
    using delivery_lookup [OF assms(1)] that assms(1) unfolding delivery_table_def by (metis option.distinct(1) option.exhaust)
  have reads: "\<exists>e. ?rd x = Inr (Some e) \<and> oe_envelope e = cd_reparse (nc_codec cf) (ob_payload (snd x))" if "x \<in> set (nd_outbox db)" for x
  proof -
    obtain k ob where x: "x = (k, ob)" by (cases x)
    with that wf_map_lookup [OF wf(1)] have "map_of (nd_outbox db) k = Some ob" by simp
    with look obtain d where d: "map_of (nd_delivery db) k = Some d" "delivery_ok cf k d (Some ob)" by blast
    obtain entry where e: "readDelivery cf k d (Some ob) = Inr entry" using delivery_reads [OF d(2)] by blast
    with readDelivery_entry [OF e] d(1) x show ?thesis by auto
  qed
  define out where "out x = projr (?rd x)" for x
  have "each ?rd (nd_outbox db) = Inr (map out (nd_outbox db))"
    using reads by (intro each_total) (fastforce simp: out_def)
  moreover have "list_all (\<lambda>(k, ob). map_of (nd_delivery db) k \<noteq> None) (nd_outbox db)"
    unfolding list_all_map_of [OF wf(1)] using look by fastforce
  moreover have "list_all (\<lambda>(k, d). dl_status d = Dl_stored \<or> map_of (nd_outbox db) k \<noteq> None) (nd_delivery db)"
    unfolding list_all_map_of [OF wf(2)]
  proof (intro allI impI)
    fix k d
    assume "map_of (nd_delivery db) k = Some d"
    from delivery_lookup [OF assms(1) this] show "case (k, d) of (k, d) \<Rightarrow> dl_status d = Dl_stored \<or> map_of (nd_outbox db) k \<noteq> None"
      by (cases "dl_status d") (simp_all add: delivery_ok_def)
  qed
  ultimately have all: "nr_all cf db = Inr (db, map the (filter (\<lambda>e. e \<noteq> None) (map out (nd_outbox db))))"
    by (simp add: nr_all_def)
  obtain ob where ob: "(k, ob) \<in> set (nd_outbox db)" "ob_payload ob = p"
    using assms(2) wf_map_lookup [OF wf(1)] unfolding under_custody_def by blast
  from reads [OF ob(1)] ob(2) obtain e where "out (k, ob) = Some e" "oe_envelope e = cd_reparse (nc_codec cf) p"
    by (auto simp: out_def)
  with ob(1) have "list_ex (\<lambda>e. oe_envelope e = cd_reparse (nc_codec cf) p) (map the (filter (\<lambda>e. e \<noteq> None) (map out (nd_outbox db))))"
    by (force simp: list_ex_iff)
  with all show ?thesis by blast
qed

text \<open>
  C16: A message under custody is never lost. A pending outbound message stays pending with the same digest and the
  same bytes through every history of calls (saves, retries, transitions, consumes, retention runs, receipts for other
  messages or other digests) and platform faults, until a call with its own id and digest reports it stored;
  until then \<open>all\<close> lists it with those bytes.
\<close>

theorem outbox_until_stored:
  assumes "rt_codec (nc_codec cf)" "reachable cf (st_db st)" "under_custody (st_db st) k g p" "clean_calls cf evs"
    and "\<not> list_ex (released_by k g) (answers cf st evs)"
  shows "under_custody (after cf st evs) k g p \<and>
    (\<exists>entries. nr_all cf (after cf st evs) = Inr (after cf st evs, entries) \<and>
      list_ex (\<lambda>e. oe_envelope e = cd_reparse (nc_codec cf) p) entries)"
proof -
  note inv = reachable_inv [OF assms(1,2)]
  let ?db = "after cf st evs"
  have wf: "wf_map (nd_delivery (st_db st))" using inv by (simp add: rt_inv_def rt_tables_def delivery_table_def)
  have kept: "under_custody ?db k g p" by (rule history_custody [OF wf assms(3,5)])
  have tab: "delivery_table cf ?db" using after_inv [OF assms(1) inv assms(4)] by (simp add: rt_inv_def rt_tables_def)
  from kept nr_all_lists [OF tab] show ?thesis by blast
qed

section \<open>A transition is all or nothing\<close>

definition outbound_recorded :: "node_cfg \<Rightarrow> node_db \<Rightarrow> json \<Rightarrow> bool" where
  "outbound_recorded cf db env \<longleftrightarrow>
     (\<exists>en d. rt_envelope (nc_codec cf) env = Inr en \<and>
        map_of (nd_delivery db) (nc_node cf, e_msg_id (envelopeOf (rn_env en))) = Some d \<and> dl_digest d = rn_digest en)"

definition effect_recorded :: "codec \<Rightarrow> string \<Rightarrow> nat \<Rightarrow> node_db \<Rightarrow> json \<Rightarrow> bool" where
  "effect_recorded cd sk n db eff \<longleftrightarrow>
     (\<exists>eid kind payload. obj_get eff ''id'' = Some (JStr eid) \<and> obj_get eff ''kind'' = Some (JStr kind) \<and>
        obj_get eff ''payload'' = Some payload \<and>
        map_of (nd_effects db) eid = Some \<lparr>er_state_key = sk, er_revision = n, er_kind = kind, er_payload = cd_jcs cd payload, er_done = False\<rparr>)"

lemma saveEntry_recorded:
  assumes "saveEntry cf db entry = Inr db1"
  shows "outbound_recorded cf db1 (oe_envelope entry)" "outbound_recorded cf db env \<Longrightarrow> outbound_recorded cf db1 env"
proof -
  from assms obtain en prior where en: "rt_envelope (nc_codec cf) (oe_envelope entry) = Inr en"
    and prior: "findDelivery cf db (nc_node cf, e_msg_id (envelopeOf (rn_env en))) = Inr prior"
    by (auto simp: saveEntry_def Let_def)
  have "outbound_recorded cf db1 (oe_envelope entry) \<and>
    (\<forall>k d. map_of (nd_delivery db) k = Some d \<longrightarrow> map_of (nd_delivery db1) k = Some d)"
  proof (cases prior)
    case None
    with prior findDelivery_None have "map_of (nd_delivery db) (nc_node cf, e_msg_id (envelopeOf (rn_env en))) = None" by blast
    with assms en prior None show ?thesis
      by (auto simp: saveEntry_def Let_def outbound_recorded_def split: if_splits)
  next
    case (Some d)
    with prior findDelivery_Some have "map_of (nd_delivery db) (nc_node cf, e_msg_id (envelopeOf (rn_env en))) = Some d" by blast
    with assms en prior Some show ?thesis
      by (auto simp: saveEntry_def Let_def outbound_recorded_def split: if_splits option.splits)
  qed
  then show "outbound_recorded cf db1 (oe_envelope entry)" "outbound_recorded cf db env \<Longrightarrow> outbound_recorded cf db1 env"
    unfolding outbound_recorded_def by blast+
qed

lemma save_all_recorded:
  "save_all cf db envs = Inr db1 \<Longrightarrow>
   list_all (outbound_recorded cf db1) envs \<and> (\<forall>env. outbound_recorded cf db env \<longrightarrow> outbound_recorded cf db1 env)"
  by (induction envs arbitrary: db) (fastforce dest: saveEntry_recorded)+

lemma add_effect_recorded:
  assumes "add_effect cd sk n db eff = Inr db1"
  shows "effect_recorded cd sk n db1 eff" "effect_recorded cd sk n db e \<Longrightarrow> effect_recorded cd sk n db1 e"
  using assms by (auto simp: add_effect_def key_arg_Inr json_text_Inr effect_recorded_def split: if_splits)

lemma add_effects_recorded:
  "add_effects cd sk n db effs = Inr db1 \<Longrightarrow>
   list_all (effect_recorded cd sk n db1) effs \<and> (\<forall>e. effect_recorded cd sk n db e \<longrightarrow> effect_recorded cd sk n db1 e)"
  by (induction effs arbitrary: db) (fastforce dest: add_effect_recorded)+

lemma outbound_recorded_same: "nd_delivery db1 = nd_delivery db \<Longrightarrow> outbound_recorded cf db1 = outbound_recorded cf db"
  by (simp add: outbound_recorded_def fun_eq_iff)

text \<open>Everything a result asked for is in the database that \<open>applyTransition\<close> returns.\<close>

definition committed :: "node_cfg \<Rightarrow> string \<Rightarrow> nat \<Rightarrow> json \<Rightarrow> node_db \<Rightarrow> bool" where
  "committed cf sk n result db \<longleftrightarrow>
     (let cd = nc_codec cf; tr = cd_reparse cd (cd_jcs cd result) in
      (\<exists>val. obj_get tr ''state'' = Some val \<and> map_of (nd_state db) sk = Some \<lparr>sr_revision = n, sr_value = cd_jcs cd val\<rparr>) \<and>
      (\<exists>outbox. array_prop (obj_get tr ''outbox'') = Inr outbox \<and> list_all (outbound_recorded cf db) outbox) \<and>
      (\<exists>effects. array_prop (obj_get tr ''effects'') = Inr effects \<and> list_all (effect_recorded cd sk n db) effects))"

lemma add_effects_state: "add_effects cd sk n db effs = Inr db1 \<Longrightarrow> nd_state db1 = nd_state db"
  by (induction effs arbitrary: db) (auto simp: add_effect_def split: if_splits)

lemma applyTransition_committed:
  assumes "applyTransition cf db sk n result = Inr (db1, n1)"
  shows "committed cf sk n1 result db1" "\<exists>r. nd_state db1 = AList.update sk r (nd_state db)" "n1 = n + 1"
proof -
  let ?tr = "cd_reparse (nc_codec cf) (cd_jcs (nc_codec cf) result)"
  obtain outbox effects val db2 db3 where *:
    "array_prop (obj_get ?tr ''outbox'') = Inr outbox" "array_prop (obj_get ?tr ''effects'') = Inr effects"
    "json_text (nc_codec cf) (obj_get ?tr ''state'') = Inr val" "n1 = n + 1"
    "db2 = db\<lparr>nd_state := AList.update sk \<lparr>sr_revision = n1, sr_value = val\<rparr> (nd_state db)\<rparr>"
    "save_all cf db2 outbox = Inr db3" "add_effects (nc_codec cf) sk n1 db3 effects = Inr db1"
    by (rule applyTransition_steps [OF assms])
  have st: "nd_state db1 = nd_state db2"
    using add_effects_state [OF *(7)] save_all_effs [where P = "\<lambda>_. True", OF *(6)] by (simp add: same_inbound_def)
  have "list_all (outbound_recorded cf db1) outbox"
    using save_all_recorded [OF *(6)] add_effects_outbound [OF *(7)] outbound_recorded_same [of db1 db3] by metis
  moreover have "list_all (effect_recorded (nc_codec cf) sk n1 db1) effects" using add_effects_recorded [OF *(7)] by blast
  ultimately show "committed cf sk n1 result db1" "\<exists>r. nd_state db1 = AList.update sk r (nd_state db)" "n1 = n + 1"
    using * st by (auto simp: committed_def Let_def json_text_Inr)
qed

lemma nr_transition_committed:
  assumes "nr_transition cf db k e (\<lambda>_. Inr result) = Inr (db1, n)"
  shows "committed cf k n result db1"
proof -
  from assms obtain m where "applyTransition cf db k m result = Inr (db1, n)" by (auto simp: nr_transition_def split: prod.splits)
  then show ?thesis by (rule applyTransition_committed)
qed

text \<open>The key whose value a call may change; every other one keeps its row.\<close>

definition writes :: "rt_op \<Rightarrow> string \<Rightarrow> bool" where
  "writes op k = (case op of Op_transition k1 _ _ \<Rightarrow> k1 = k | Op_consume rq _ \<Rightarrow> cr_stateKey rq = k | _ \<Rightarrow> False)"

lemma state_written:
  assumes "rt_exec cf op db = Inr (db1, out)"
  shows "nd_state db1 = nd_state db \<or> (\<exists>sk row. writes op sk \<and> nd_state db1 = AList.update sk row (nd_state db))"
proof -
  have "nd_state db1 = nd_state db" if "op_keys (nc_codec cf) (\<lambda>_. False) op"
    using rt_exec_effs [OF assms(1) that] by (rule effs_state_same)
  moreover have ?thesis if op: "op = Op_transition k e t" for k e t
  proof -
    from assms op obtain n where "nr_transition cf db k e t = Inr (db1, n)" by (auto simp: with_out_Inr)
    then obtain m result where a: "applyTransition cf db k m result = Inr (db1, n)" by (auto simp: nr_transition_def split: prod.splits)
    with applyTransition_committed(2) [OF a] op show ?thesis by (auto simp: writes_def)
  qed
  moreover have ?thesis if op: "op = Op_consume rq t" for rq t
  proof -
    from assms op obtain res where "nr_consume cf db rq t = Inr (db1, res)" by (auto simp: with_out_Inr)
    then show ?thesis
    proof (cases rule: nr_consume_cases)
      case (now row v en db2 db3 status n)
      have "nd_state db2 = nd_state db"
        using r1_gate_effs(3) [where P = "\<lambda>_. True", OF now(6,3,9,7)] by simp
      moreover have "nd_state db3 = nd_state db2 \<or> (\<exists>row. nd_state db3 = AList.update (cr_stateKey rq) row (nd_state db2))"
        using now(10) applyTransition_committed(2) by (force split: if_splits)
      ultimately show ?thesis using now(11) op by (auto simp: writes_def)
    qed simp_all
  qed
  ultimately show ?thesis by (cases op) auto
qed

lemma state_frame: "rt_exec cf op db = Inr (db1, out) \<Longrightarrow> \<not> writes op sk \<Longrightarrow> map_of (nd_state db1) sk = map_of (nd_state db) sk"
  using state_written [of cf op db db1 out] by auto

lemma state_wf: "rt_exec cf op db = Inr (db1, out) \<Longrightarrow> wf_map (nd_state db) \<Longrightarrow> wf_map (nd_state db1)"
  using state_written [of cf op db db1 out] by auto


section \<open>Keys with an embedded NUL\<close>

text \<open>
  C38: A state key with an embedded NUL breaks the store. The key is accepted and the message is applied, but reading
  the inbox row back cuts the key at the NUL: the store no longer passes its own startup validation, and
  consuming the message again finds the database corrupt and faults the store instead of returning the decision.
\<close>

theorem nul_key_faults:
  assumes "nr_consume cf db rq t = Inr (db1, Cn_decided Applied n)"
    and "map_of (nd_inbox db) (cr_fromNode rq, cr_msgId rq) = Some row" "ib_decision row = Undecided"
    and "cr_stateKey rq = a @ CHR 0x00 # b" "clean a" "map_of (nd_state db) a = None"
    and "st_db st = db1" "st_state st = Open"
  shows "\<not> validateStartup cf db1 \<and> nr_consume cf db1 rq t1 = Inl (Storage_error S_corrupt) \<and>
    st_state (fst (transaction healthy st (rt_exec cf (Op_consume rq t1)))) = Faulted"
proof -
  let ?k = "(cr_fromNode rq, cr_msgId rq)" and ?sk = "cr_stateKey rq"
  have cut: "text_col ?sk = a" using assms(4,5) by (auto simp: text_col_def clean_def takeWhile_append takeWhile_eq_all_conv)
  have neq: "a \<noteq> ?sk" using assms(4) by simp
  from assms(1) show ?thesis
  proof (cases rule: nr_consume_cases)
    case (now row1 v en db2 db3 status m)
    then have row1: "row1 = row" "status = Applied" "m = n" using assms(2) by simp_all
    from now(10) row1 obtain result where ap: "applyTransition cf db2 ?sk (revision db ?sk) result = Inr (db3, n)" by auto
    have "nd_state db2 = nd_state db" using r1_gate_effs(3) [where P = "\<lambda>_. True", OF now(6,3,9,7)] by simp
    with applyTransition_committed(2) [OF ap] neq assms(6) now(11) have none: "map_of (nd_state db1) a = None" by auto
    have "1 \<le> n" using applyTransition_committed(3) [OF ap] by simp
    then have bad: "readInbox cf db1 ?k (decide row Applied ?sk n) = Inl corrupt"
      using none cut by (auto simp: readInbox_def decide_def readState_def valid_def ensure_def andThen_def revision_of_def)
    have look: "map_of (nd_inbox db1) ?k = Some (decide row Applied ?sk n)" using now(11) row1 by simp
    obtain e where args: "key_ok (nc_codec cf) ?sk" "integer_arg (cr_expectedRevision rq) = Inr e" "isUuidStr (cr_fromNode rq)"
      "isUuidStr (cr_msgId rq)"
      using assms(1) by (auto simp: nr_consume_def)
    have c: "nr_consume cf db1 rq t1 = Inl corrupt"
      using args look bad by (simp add: nr_consume_def consume_tx_def Let_def)
    moreover have "\<not> validateStartup cf db1"
      using list_all_lookup [OF _ look, of "\<lambda>(k, r). \<not> isl (readInbox cf db1 k r)"] bad
      unfolding validateStartup_def by auto
    moreover have "st_state (fst (transaction healthy st (rt_exec cf (Op_consume rq t1)))) = Faulted"
      unfolding transaction_healthy [OF assms(8)] using c assms(7) by (simp add: with_out_def poisons_def)
    ultimately show ?thesis by blast
  qed (use assms(2,3) in simp_all)
qed

end
