(* ===== verification/Exec_Host_Props.thy ===== *)
theory Exec_Host_Props
  imports Exec_Host Exec_Durable_Props Node_Store_Theorems
begin

text \<open>
  The durable executor over the node store: what its store calls do to the durable snapshot, and triples for its
  procedures. A triple \<open>hoare P m Q E\<close> says that from a state with \<open>P\<close> the procedure ends with \<open>Q\<close> for its result
  or, when it throws, with \<open>E\<close>.
\<close>

section \<open>The durable snapshot\<close>

definition durable :: "exec_opts \<Rightarrow> node_db \<Rightarrow> exec_snapshot option" where
  "durable xo db = decode xo (map_option (row_state (nc_codec (xo_cfg xo)) STATE_KEY) (map_of (nd_state db) STATE_KEY))"

text \<open>What the environment of the executor provides.\<close>

definition good_opts :: "exec_opts \<Rightarrow> bool" where
  "good_opts xo \<longleftrightarrow>
     rt_codec (nc_codec (xo_cfg xo)) \<and> json_values (nc_codec (xo_cfg xo)) \<and> key_ok (nc_codec (xo_cfg xo)) STATE_KEY \<and>
     positive (leaseMsAid (xo_params xo))"

definition good_io :: "exec_io \<Rightarrow> bool" where
  "good_io io \<longleftrightarrow>
     isSafeInteger (io_now io) \<and> 0 \<le> io_now io \<and> isUuidStr (io_id io) \<and>
     (\<forall>x. isUuidStr (e_msg_id (envelopeOf (io_seal io x))))"

lemma good_optsD:
  assumes "good_opts xo"
  shows "rt_codec (nc_codec (xo_cfg xo))" "json_values (nc_codec (xo_cfg xo))" "key_ok (nc_codec (xo_cfg xo)) STATE_KEY"
    "positive (leaseMsAid (xo_params xo))"
  using assms by (simp_all add: good_opts_def)

lemma clean_state_key: "clean STATE_KEY" "clean EFFECT_KIND"
  by (simp_all add: clean_def STATE_KEY_def EFFECT_KIND_def)

section \<open>Store calls\<close>

abbreviation db_of :: "ex_host \<Rightarrow> node_db" where
  "db_of h \<equiv> st_db (eh_store h)"

lemma rt_call_cases:
  assumes "rt_call xo io op h = (h1, r)"
  obtains (err) st e where "r = Inl e" "h1 = h\<lparr>eh_store := st, eh_calls := eh_calls h + 1\<rparr>" "st_db st = db_of h"
  | (ok) st out where "r = Inr out" "h1 = h\<lparr>eh_store := st, eh_calls := eh_calls h + 1\<rparr>"
      "rt_exec (xo_cfg xo) op (db_of h) = Inr (st_db st, out)"
proof -
  obtain st q where t: "transaction (io_pf io (eh_calls h)) (eh_store h) (rt_exec (xo_cfg xo) op) = (st, q)" by fastforce
  with assms have h1: "h1 = h\<lparr>eh_store := st, eh_calls := eh_calls h + 1\<rparr>" and r: "r = map_sum Xe_store id q"
    by (simp_all add: rt_call_def)
  show thesis
  proof (cases q)
    case (Inl e)
    with t have "st_db st = db_of h" by (intro transaction_err) simp
    with Inl r h1 show thesis by (intro err [of "Xe_store e" st]) simp_all
  next
    case (Inr out)
    from t Inr obtain db where "rt_exec (xo_cfg xo) op (db_of h) = Inr (db, out)" "st = (eh_store h)\<lparr>st_db := db\<rparr>"
      by (auto elim: transaction_ok)
    with Inr r h1 show thesis by (intro ok [of out st]) simp_all
  qed
qed

text \<open>The database of the host: consistent, with a valid snapshot of the executor.\<close>

definition db_ok :: "exec_opts \<Rightarrow> ex_host \<Rightarrow> exec_snapshot \<Rightarrow> bool" where
  "db_ok xo h s \<longleftrightarrow> rt_inv (xo_cfg xo) (db_of h) \<and> durable xo (db_of h) = Some s \<and> validSnapshot s"

lemma durable_cong: "map_of (nd_state db1) STATE_KEY = map_of (nd_state db) STATE_KEY \<Longrightarrow> durable xo db1 = durable xo db"
  by (simp add: durable_def)

text \<open>A call that does not write the state key leaves the snapshot.\<close>

lemma foreign_same:
  assumes "rt_exec cf op db = Inr (db1, out)" "foreign op"
  shows "map_of (nd_state db1) STATE_KEY = map_of (nd_state db) STATE_KEY"
  using assms(2) by (intro state_frame [OF assms(1)]) (auto simp: foreign_def writes_def split: rt_op.splits)

lemma durable_reads:
  assumes "good_opts xo" "rt_inv (xo_cfg xo) db"
  shows "readState (nc_codec (xo_cfg xo)) db STATE_KEY =
    Inr (map_option (row_state (nc_codec (xo_cfg xo)) STATE_KEY) (map_of (nd_state db) STATE_KEY))"
  using assms readState_reads [of "nc_codec (xo_cfg xo)" db STATE_KEY]
  by (simp add: good_opts_def rt_inv_def rt_tables_def row_state_def [abs_def])

text \<open>A committed transition leaves exactly the snapshot it was given.\<close>

lemma committed_durable:
  assumes "good_opts xo" "validSnapshot s"
    and "committed (xo_cfg xo) STATE_KEY n (transition_json xo s outbox effects) db"
  shows "durable xo db = Some (stored_snapshot (nc_codec (xo_cfg xo)) s)"
proof -
  let ?cd = "nc_codec (xo_cfg xo)"
  note g = good_optsD [OF assms(1)]
  from assms(3) obtain val where v:
    "obj_get (via_text ?cd (transition_json xo s outbox effects)) ''state'' = Some val"
    "map_of (nd_state db) STATE_KEY = Some \<lparr>sr_revision = n, sr_value = cd_jcs ?cd val\<rparr>"
    by (auto simp: committed_def Let_def via_text_def)
  from v(1) g(2) have "val = via_text ?cd (snapshot_json xo s)" by (simp add: transition_json_def)
  then have "row_state ?cd STATE_KEY \<lparr>sr_revision = n, sr_value = cd_jcs ?cd val\<rparr> =
      \<lparr>rs_key = STATE_KEY, rs_revision = n, rs_value = via_text ?cd (snapshot_json xo s)\<rparr>"
    using via_idem [OF g(1)] by (simp add: row_state_def via_text_def)
  with v(2) snapshot_roundtrip [OF g(2) assms(2)] show ?thesis by (simp add: durable_def decode_def)
qed

text \<open>The names that the executor writes.\<close>

definition effects_clean :: "json list \<Rightarrow> bool" where
  "effects_clean effects \<longleftrightarrow>
     (\<forall>e \<in> set effects. \<exists>i k p. e = JObj [(''id'', JStr i), (''kind'', JStr k), (''payload'', p)] \<and> clean i \<and> clean k)"

lemma transition_names:
  assumes "good_opts xo" "effects_clean effects"
  shows "result_ok (nc_codec (xo_cfg xo)) clean (transition_json xo s outbox effects)"
proof -
  let ?cd = "nc_codec (xo_cfg xo)"
  note g = good_optsD [OF assms(1)]
  have e: "effects_of ?cd (transition_json xo s outbox effects) = map (via_text ?cd) effects"
    using g(2) by (simp add: effects_of_def transition_json_def flip: via_text_def)
  show ?thesis
    using assms(2) g(2) unfolding result_ok_def e by (fastforce simp: effects_clean_def names_ok_def)
qed

lemma call_inv:
  assumes "good_opts xo" "rt_inv (xo_cfg xo) db" "rt_exec (xo_cfg xo) op db = Inr (db1, out)" "op_keys (nc_codec (xo_cfg xo)) clean op"
  shows "rt_inv (xo_cfg xo) db1"
  using rt_exec_inv [OF good_optsD(1) [OF assms(1)] assms(3,4,2)] .

section \<open>Reading and changing the snapshot\<close>

lemma read_state_cases:
  assumes "good_opts xo" "db_ok xo h s" "read_state xo io h = (h1, r)"
  obtains st where "h1 = h\<lparr>eh_store := st, eh_calls := eh_calls h + 1\<rparr>" "st_db st = db_of h"
    "r = Inr (revision (db_of h) STATE_KEY, s) \<or> (\<exists>e. r = Inl e)"
proof -
  from assms(3) obtain h2 q where c: "rt_call xo io (Op_state STATE_KEY) h = (h2, q)" by fastforce
  from c show thesis
  proof (cases rule: rt_call_cases)
    case (err st e)
    with c assms(3) show thesis by (intro that [of st]) (auto simp: read_state_def seq_def)
  next
    case (ok st out)
    let ?row = "map_option (row_state (nc_codec (xo_cfg xo)) STATE_KEY) (map_of (nd_state (db_of h)) STATE_KEY)"
    have inv: "rt_inv (xo_cfg xo) (db_of h)" using assms(2) by (simp add: db_ok_def)
    have rd: "readState (nc_codec (xo_cfg xo)) (db_of h) STATE_KEY = Inr ?row" by (rule durable_reads [OF assms(1) inv])
    with ok(3) have st: "st_db st = db_of h" "out = Ot_state ?row" by (auto simp: read_out_Inr)
    have "revision_of ?row = revision (db_of h) STATE_KEY" using readState_revision [OF rd] by simp
    moreover have "decode xo ?row = Some s" using assms(2) by (simp add: db_ok_def durable_def)
    ultimately show thesis using c ok st assms(3) by (intro that [of st]) (auto simp: read_state_def seq_def ret_def)
  qed
qed

text \<open>
  A change either leaves the database, or commits the edited snapshot; nothing else of the host changes.
\<close>

lemma change_cases:
  assumes "good_opts xo" "db_ok xo h s" "change xo io edit h = (h1, r)"
  obtains (kept) st n where "h1 = h\<lparr>eh_store := st, eh_calls := n\<rparr>" "st_db st = db_of h" "r \<noteq> Inr True"
  | (written) st n s1 out where "h1 = h\<lparr>eh_store := st, eh_calls := n\<rparr>" "r = Inr True" "edit s = Inr (Some (s1, out))"
      "validSnapshot s1 \<Longrightarrow> db_ok xo h1 (stored_snapshot (nc_codec (xo_cfg xo)) s1)"
      "committed (xo_cfg xo) STATE_KEY (revision (db_of h) STATE_KEY + 1) (transition_json xo s1 out []) (st_db st)"
proof -
  obtain h2 q where rs: "read_state xo io h = (h2, q)" by fastforce
  from read_state_cases [OF assms(1,2) rs] obtain st where h2: "h2 = h\<lparr>eh_store := st, eh_calls := eh_calls h + 1\<rparr>"
    "st_db st = db_of h" "q = Inr (revision (db_of h) STATE_KEY, s) \<or> (\<exists>e. q = Inl e)" .
  show thesis
  proof (cases "\<exists>s1 out. q = Inr (revision (db_of h) STATE_KEY, s) \<and> edit s = Inr (Some (s1, out))")
    case False
    with assms(3) rs h2(3) have "h1 = h2" "r \<noteq> Inr True"
      by (auto simp: change_def seq_def lift_def ret_def split: sum.splits option.splits)
    with h2 show thesis by (intro kept [of "eh_calls h + 1" st]) simp_all
  next
    case True
    then obtain s1 out where q: "q = Inr (revision (db_of h) STATE_KEY, s)" and e: "edit s = Inr (Some (s1, out))" by blast
    let ?op = "Op_transition STATE_KEY (of_nat (revision (db_of h) STATE_KEY)) (\<lambda>_. Inr (transition_json xo s1 out []))"
    obtain h3 p where c: "rt_call xo io ?op h2 = (h3, p)" by fastforce
    with assms(3) rs q e have r: "h1 = h3" "r = (case p of Inl x \<Rightarrow> Inl x | Inr _ \<Rightarrow> Inr True)"
      by (auto simp: change_def seq_def lift_def ret_def split: sum.splits)
    from c show thesis
    proof (cases rule: rt_call_cases)
      case (err st1 x)
      with r h2 show thesis by (intro kept [of "eh_calls h + 2" st1]) simp_all
    next
      case (ok st1 o1)
      let ?s2 = "stored_snapshot (nc_codec (xo_cfg xo)) s1"
      from ok(3) h2 obtain n where t: "nr_transition (xo_cfg xo) (db_of h) STATE_KEY (of_nat (revision (db_of h) STATE_KEY))
          (\<lambda>_. Inr (transition_json xo s1 out [])) = Inr (st_db st1, n)"
        by (auto simp: with_out_Inr)
      have n: "n = revision (db_of h) STATE_KEY + 1"
        using nr_transition_effs(2) [where P = "\<lambda>_. True", OF t] by simp
      have keys: "op_keys (nc_codec (xo_cfg xo)) clean ?op"
        using clean_state_key(1) transition_names [OF assms(1), of "[]"] by (simp add: effects_clean_def)
      have "rt_inv (xo_cfg xo) (st_db st1)"
        using call_inv [OF assms(1) _ ok(3) keys] assms(2) h2 by (simp add: db_ok_def)
      moreover have "durable xo (st_db st1) = Some ?s2" if "validSnapshot s1"
        by (rule committed_durable [OF assms(1) that nr_transition_committed [OF t]])
      moreover have "validSnapshot ?s2" if "validSnapshot s1"
        by (rule validSnapshot_stored [OF good_optsD(2) [OF assms(1)] that])
      moreover have h1: "h1 = h\<lparr>eh_store := st1, eh_calls := eh_calls h + 2\<rparr>" "r = Inr True" using r ok h2 by simp_all
      ultimately show thesis
        using e nr_transition_committed [OF t] n by (intro written [of "eh_calls h + 2" st1 s1 out]) (simp_all add: db_ok_def)
    qed
  qed
qed

section \<open>The invariant\<close>

text \<open>
  \<open>running\<close>: the runs that were started and are not known to be quiescent. \<open>past\<close>: a run of an earlier generation, or
  of the current one and possibly started. \<open>exclusive\<close>: at every start nothing is running and the run never started.
\<close>

definition running :: "ex_label list \<Rightarrow> lease_fence set" where
  "running ls = foldl (\<lambda>S l. case l of L_start f \<Rightarrow> insert f S | L_quiet f \<Rightarrow> S - {f} | _ \<Rightarrow> S) {} ls"

definition started :: "ex_label list \<Rightarrow> lease_fence set" where
  "started ls = {f. L_start f \<in> set ls}"

definition exclusive :: "ex_label list \<Rightarrow> bool" where
  "exclusive ls \<longleftrightarrow> (\<forall>a f b. ls = a @ L_start f # b \<longrightarrow> running a = {} \<and> f \<notin> started a)"

definition past :: "exec_snapshot \<Rightarrow> lease_fence \<Rightarrow> bool" where
  "past s f \<longleftrightarrow>
     lf_generation f < sn_generation s \<or>
     (lf_generation f = sn_generation s \<and> (\<forall>r. sn_slot s = Some r \<longrightarrow> dr_fence r = f \<and> dr_mayHaveStarted r))"

text \<open>The run that the slot says may be working.\<close>

definition slot_runs :: "exec_snapshot \<Rightarrow> lease_fence set" where
  "slot_runs s = (case sn_slot s of Some r \<Rightarrow> if dr_mayHaveStarted r then {dr_fence r} else {} | None \<Rightarrow> {})"

definition log_ok :: "ex_label list \<Rightarrow> exec_snapshot \<Rightarrow> bool" where
  "log_ok ls s \<longleftrightarrow> (\<forall>f \<in> started ls. past s f) \<and> running ls \<subseteq> slot_runs s \<and> exclusive ls"

definition proofs :: "live_run \<Rightarrow> run_outcome set" where
  "proofs lv = {oc. lv_outcome lv = Some oc \<or> lv_closed lv = Some (Some oc) \<or> lv_quiet lv = Q_done oc}"

definition lv_ok :: "ex_label list \<Rightarrow> bool \<Rightarrow> live_run \<Rightarrow> bool" where
  "lv_ok ls faulted lv \<longleftrightarrow>
     lv_fence lv \<in> started ls \<and> (\<not> lv_own lv \<longrightarrow> faulted) \<and> (\<forall>oc \<in> proofs lv. validOutcome oc) \<and>
     (lv_own lv \<longrightarrow> proofs lv \<noteq> {} \<longrightarrow> lv_fence lv \<notin> running ls)"

definition own_handle :: "ex_host \<Rightarrow> nat \<Rightarrow> lease_fence \<Rightarrow> bool" where
  "own_handle h i f \<longleftrightarrow> i < length (eh_heap h) \<and> lv_own (eh_heap h ! i) \<and> lv_fence (eh_heap h ! i) = f"

definition settled_run :: "ex_label list \<Rightarrow> lease_fence \<Rightarrow> run_outcome \<Rightarrow> bool" where
  "settled_run ls f oc \<longleftrightarrow> f \<in> started ls \<and> f \<notin> running ls \<and> validOutcome oc"

definition settle_ok :: "exec_snapshot \<Rightarrow> ex_label list \<Rightarrow> (nat \<Rightarrow> lease_fence \<Rightarrow> bool) \<Rightarrow> settle_pc option \<Rightarrow> bool" where
  "settle_ok s ls own pc \<longleftrightarrow>
     (case pc of
        Some (Sp_prepare n r) \<Rightarrow> dr_fence r \<notin> started ls
      | Some (Sp_invoke n r) \<Rightarrow> dr_fence r \<notin> started ls \<and> slot_runs s = {dr_fence r}
      | Some (Sp_start n r) \<Rightarrow> dr_fence r \<in> started ls
      | Some (Sp_stop n r i) \<Rightarrow> own i (dr_fence r)
      | Some (Sp_publish n f oc) \<Rightarrow> settled_run ls f oc
      | _ \<Rightarrow> True)"

text \<open>The run that \<open>settle\<close> is about to start.\<close>

definition invoking :: "ex_host \<Rightarrow> lease_fence set" where
  "invoking h = (case eh_settling h of Some (Sp_invoke n r) \<Rightarrow> {dr_fence r} | _ \<Rightarrow> {})"

definition recover_ok :: "exec_snapshot \<Rightarrow> ex_host \<Rightarrow> bool" where
  "recover_ok s h \<longleftrightarrow> (\<forall>f. eh_recovering h = Some (Rp_driver f) \<longrightarrow> past s f \<and> f \<notin> invoking h)"

definition late_ok :: "ex_label list \<Rightarrow> (nat \<Rightarrow> lease_fence \<Rightarrow> bool) \<Rightarrow> late_pc \<Rightarrow> bool" where
  "late_ok ls own pc \<longleftrightarrow>
     (case pc of
        Lp_wait r \<Rightarrow> dr_fence r \<in> started ls
      | Lp_stop r i \<Rightarrow> own i (dr_fence r)
      | Lp_publish f oc \<Rightarrow> settled_run ls f oc
      | Lp_release \<Rightarrow> True)"

definition awake :: "ex_host \<Rightarrow> bool" where
  "awake h \<longleftrightarrow> eh_ready h \<or> eh_faulted h"

definition modes_ok :: "ex_host \<Rightarrow> bool" where
  "modes_ok h \<longleftrightarrow> (eh_starting h \<or> eh_settling h \<notin> {None, Some Sp_recover} \<longrightarrow> awake h)"

definition inv_at :: "exec_opts \<Rightarrow> exec_snapshot \<Rightarrow> ex_host \<Rightarrow> bool" where
  "inv_at xo s h \<longleftrightarrow>
     db_ok xo h s \<and> log_ok (eh_log h) s \<and> list_all (lv_ok (eh_log h) (eh_faulted h)) (eh_heap h) \<and>
     settle_ok s (eh_log h) (own_handle h) (eh_settling h) \<and> recover_ok s h \<and>
     list_all (late_ok (eh_log h) (own_handle h)) (eh_late h) \<and> modes_ok h"

definition ex_inv :: "exec_opts \<Rightarrow> ex_host \<Rightarrow> bool" where
  "ex_inv xo h \<longleftrightarrow> (\<exists>s. inv_at xo s h)"

section \<open>What a change of the snapshot may do\<close>

definition can_free :: "ex_host \<Rightarrow> lease_fence \<Rightarrow> bool" where
  "can_free h f \<longleftrightarrow> f \<notin> running (eh_log h) \<and> f \<notin> invoking h"

text \<open>The slot keeps its run (which may become started), frees a run that is not running, or takes a new one.\<close>

definition allowed :: "ex_host \<Rightarrow> exec_snapshot \<Rightarrow> exec_snapshot \<Rightarrow> bool" where
  "allowed h s s1 \<longleftrightarrow>
     (case sn_slot s of
        Some r \<Rightarrow> sn_generation s1 = sn_generation s \<and>
          (case sn_slot s1 of
             Some r1 \<Rightarrow> dr_fence r1 = dr_fence r \<and> (dr_mayHaveStarted r \<longrightarrow> dr_mayHaveStarted r1)
           | None \<Rightarrow> can_free h (dr_fence r))
      | None \<Rightarrow>
          (case sn_slot s1 of
             None \<Rightarrow> sn_generation s1 = sn_generation s
           | Some r1 \<Rightarrow> sn_generation s1 = sn_generation s + 1 \<and> \<not> dr_mayHaveStarted r1))"

lemma allowed_refl: "allowed h s s"
  by (simp add: allowed_def split: option.splits)

lemma allowed_stored [simp]: "allowed h s (stored_snapshot cd s1) = allowed h s s1"
  by (auto simp: allowed_def split: option.splits)

lemma past_allowed: "allowed h s s1 \<Longrightarrow> past s f \<Longrightarrow> past s1 f"
  by (auto simp: allowed_def past_def split: option.splits)

lemma slot_runs_allowed:
  assumes "allowed h s s1" "running (eh_log h) \<subseteq> slot_runs s"
  shows "running (eh_log h) \<subseteq> slot_runs s1"
  using assms by (auto simp: allowed_def slot_runs_def can_free_def split: option.splits if_splits)

lemma invoking_allowed:
  "allowed h s s1 \<Longrightarrow> slot_runs s = {f} \<Longrightarrow> f \<in> invoking h \<Longrightarrow> slot_runs s1 = {f}"
  by (auto simp: allowed_def slot_runs_def can_free_def split: option.splits if_splits)

lemma log_ok_allowed: "allowed h s s1 \<Longrightarrow> log_ok (eh_log h) s \<Longrightarrow> log_ok (eh_log h) s1"
  using past_allowed slot_runs_allowed by (auto simp: log_ok_def)

lemma settle_ok_allowed:
  assumes "allowed h s s1" "settle_ok s ls own (eh_settling h)"
  shows "settle_ok s1 ls own (eh_settling h)"
proof (cases "\<exists>n r. eh_settling h = Some (Sp_invoke n r)")
  case True
  then obtain n r where "eh_settling h = Some (Sp_invoke n r)" by blast
  moreover from this have "dr_fence r \<in> invoking h" by (simp add: invoking_def)
  ultimately show ?thesis using assms(2) invoking_allowed [OF assms(1)] by (simp add: settle_ok_def)
next
  case False
  with assms(2) show ?thesis by (auto simp: settle_ok_def split: option.splits settle_pc.splits)
qed

lemma recover_ok_allowed: "allowed h s s1 \<Longrightarrow> recover_ok s h \<Longrightarrow> recover_ok s1 h"
  using past_allowed by (auto simp: recover_ok_def)

text \<open>The invariant looks at the store only through the snapshot.\<close>

lemma store_blind [simp]:
  "invoking (h\<lparr>eh_store := st, eh_calls := n\<rparr>) = invoking h" "own_handle (h\<lparr>eh_store := st, eh_calls := n\<rparr>) = own_handle h"
  "recover_ok s (h\<lparr>eh_store := st, eh_calls := n\<rparr>) = recover_ok s h"
  "awake (h\<lparr>eh_store := st, eh_calls := n\<rparr>) = awake h"
  "modes_ok (h\<lparr>eh_store := st, eh_calls := n\<rparr>) = modes_ok h" "can_free (h\<lparr>eh_store := st, eh_calls := n\<rparr>) = can_free h"
  "live_of (h\<lparr>eh_store := st, eh_calls := n\<rparr>) = live_of h"
  by (simp_all add: fun_eq_iff invoking_def own_handle_def recover_ok_def awake_def modes_ok_def
      can_free_def live_of_def split: option.splits)

lemma inv_store:
  assumes "inv_at xo s h" "db_ok xo (h\<lparr>eh_store := st, eh_calls := n\<rparr>) s1" "allowed h s s1"
  shows "inv_at xo s1 (h\<lparr>eh_store := st, eh_calls := n\<rparr>)"
  using assms log_ok_allowed [OF assms(3)] settle_ok_allowed [OF assms(3)] recover_ok_allowed [OF assms(3)]
  by (simp add: inv_at_def)

lemma inv_same_db:
  assumes "inv_at xo s h" "st_db st = db_of h"
  shows "inv_at xo s (h\<lparr>eh_store := st, eh_calls := n\<rparr>)"
  using assms by (intro inv_store [OF assms(1) _ allowed_refl]) (simp add: inv_at_def db_ok_def)

section \<open>Triples of the store calls\<close>

text \<open>The invariant with more facts on the current snapshot and the host.\<close>

definition snap_at :: "exec_opts \<Rightarrow> (exec_snapshot \<Rightarrow> ex_host \<Rightarrow> bool) \<Rightarrow> ex_host \<Rightarrow> bool" where
  "snap_at xo P h \<longleftrightarrow> (\<exists>s. inv_at xo s h \<and> P s h)"

definition store_free :: "(exec_snapshot \<Rightarrow> ex_host \<Rightarrow> bool) \<Rightarrow> bool" where
  "store_free P \<longleftrightarrow> (\<forall>s h st n. P s (h\<lparr>eh_store := st, eh_calls := n\<rparr>) = P s h)"

lemma snap_at_inv: "snap_at xo P h \<Longrightarrow> ex_inv xo h"
  by (auto simp: snap_at_def ex_inv_def)

lemma snap_at_same_db:
  "inv_at xo s h \<Longrightarrow> P s h \<Longrightarrow> st_db st = db_of h \<Longrightarrow> store_free P \<Longrightarrow> snap_at xo P (h\<lparr>eh_store := st, eh_calls := n\<rparr>)"
  unfolding snap_at_def store_free_def using inv_same_db by blast

lemma read_state_triple:
  assumes "good_opts xo" "store_free P"
  shows "hoare (snap_at xo P) (read_state xo io) (\<lambda>x. snap_at xo (\<lambda>s h. P s h \<and> s = snd x)) (ex_inv xo)"
proof -
  have main: "snap_at xo P h1 \<and> (\<forall>x. r = Inr x \<longrightarrow> snap_at xo (\<lambda>s h. P s h \<and> s = snd x) h1)"
    if p: "snap_at xo P h" and r: "read_state xo io h = (h1, r)" for h h1 r
  proof -
    from p obtain s where s: "inv_at xo s h" "P s h" by (auto simp: snap_at_def)
    then have d: "db_ok xo h s" by (simp add: inv_at_def)
    obtain st where st: "h1 = h\<lparr>eh_store := st, eh_calls := eh_calls h + 1\<rparr>" "st_db st = db_of h" "\<And>x. r = Inr x \<Longrightarrow> snd x = s"
      by (rule read_state_cases [OF assms(1) d r]) auto
    show ?thesis
      using snap_at_same_db [where P = P, OF s st(2) assms(2)] snap_at_same_db [where P = "\<lambda>t h. P t h \<and> t = s", OF s(1) _ st(2)]
        assms(2) s(2) st(1,3) by (auto simp: store_free_def)
  qed
  show ?thesis by (rule hoareI) (use main snap_at_inv in blast)+
qed

lemma the_slot_triple:
  assumes "good_opts xo" "store_free P"
  shows "hoare (snap_at xo P) (the_slot xo io) (\<lambda>slot. snap_at xo (\<lambda>s h. P s h \<and> slot = sn_slot s)) (ex_inv xo)"
  unfolding the_slot_def
  by (rule hoare_seq [OF read_state_triple [OF assms]], unfold split_beta, rule hoare_ret) (auto simp: snap_at_def)

text \<open>A change whose edit is allowed; \<open>K\<close> is what the edit tells about the rest of the host.\<close>

lemma change_triple:
  assumes "good_opts xo" "store_free P" "store_free K"
    and edit: "\<And>h s s1 out. inv_at xo s h \<Longrightarrow> P s h \<Longrightarrow> edit s = Inr (Some (s1, out)) \<Longrightarrow>
      validSnapshot s1 \<and> allowed h s s1 \<and> K (stored_snapshot (nc_codec (xo_cfg xo)) s1) h"
  shows "hoare (snap_at xo P) (change xo io edit) (\<lambda>b. if b then snap_at xo K else snap_at xo P) (ex_inv xo)"
proof -
  have main: "(r \<noteq> Inr True \<longrightarrow> snap_at xo P h1) \<and> (r = Inr True \<longrightarrow> snap_at xo K h1)"
    if p: "snap_at xo P h" and c: "change xo io edit h = (h1, r)" for h h1 r
  proof -
    from p obtain s where s: "inv_at xo s h" "P s h" by (auto simp: snap_at_def)
    then have d: "db_ok xo h s" by (simp add: inv_at_def)
    from c show ?thesis
    proof (cases rule: change_cases [OF assms(1) d, consumes 1, case_names kept written])
      case (kept st n)
      with snap_at_same_db [where P = P, OF s kept(2) assms(2)] show ?thesis by simp
    next
      case (written st n s1 out)
      from edit [OF s written(3)] have e: "validSnapshot s1" "allowed h s s1" "K (stored_snapshot (nc_codec (xo_cfg xo)) s1) h" by auto
      from written(4) [OF e(1)] have "inv_at xo (stored_snapshot (nc_codec (xo_cfg xo)) s1) h1"
        unfolding written(1) using e(2) by (intro inv_store [OF s(1)]) simp_all
      with e(3) assms(3) written(2) show ?thesis unfolding written(1) by (auto simp: store_free_def snap_at_def)
    qed
  qed
  show ?thesis
  proof (rule hoareI)
    fix h h1 :: ex_host and b
    assume "snap_at xo P h" "change xo io edit h = (h1, Inr b)"
    from main [OF this] show "(if b then snap_at xo K else snap_at xo P) h1" by (cases b) simp_all
  next
    fix h h1 :: ex_host and e
    assume "snap_at xo P h" "change xo io edit h = (h1, Inl e)"
    from main [OF this] show "ex_inv xo h1" using snap_at_inv by blast
  qed
qed

lemma call_triple:
  assumes "good_opts xo" "store_free P" "foreign op" "op_keys (nc_codec (xo_cfg xo)) clean op"
  shows "hoare (snap_at xo P) (rt_call xo io op) (\<lambda>_. snap_at xo P) (ex_inv xo)"
proof -
  have main: "snap_at xo P h1" if p: "snap_at xo P h" and c: "rt_call xo io op h = (h1, r)" for h h1 r
  proof -
    from p obtain s where s: "inv_at xo s h" "P s h" by (auto simp: snap_at_def)
    then have d: "db_ok xo h s" by (simp add: inv_at_def)
    from c show ?thesis
    proof (cases rule: rt_call_cases)
      case (err st e)
      with snap_at_same_db [where P = P, OF s err(3) assms(2)] show ?thesis by simp
    next
      case (ok st out)
      have "db_ok xo (h\<lparr>eh_store := st, eh_calls := eh_calls h + 1\<rparr>) s"
        using d call_inv [OF assms(1) _ ok(3) assms(4)] durable_cong [OF foreign_same [OF ok(3) assms(3)]] by (simp add: db_ok_def)
      then have "inv_at xo s h1" unfolding ok(2) by (rule inv_store [OF s(1) _ allowed_refl])
      with ok(2) s(2) assms(2) show ?thesis by (auto simp: store_free_def snap_at_def)
    qed
  qed
  show ?thesis by (rule hoareI) (use main snap_at_inv in blast)+
qed

section \<open>The log\<close>

lemma running_snoc [simp]:
  "running (ls @ [L_start f]) = insert f (running ls)" "running (ls @ [L_quiet f]) = running ls - {f}"
  "running (ls @ [L_stop f]) = running ls" "running (ls @ [L_recover f]) = running ls" "running [] = {}"
  by (simp_all add: running_def)

lemma started_snoc [simp]:
  "started (ls @ [L_start f]) = insert f (started ls)" "started (ls @ [L_quiet f]) = started ls"
  "started (ls @ [L_stop f]) = started ls" "started (ls @ [L_recover f]) = started ls" "started [] = {}"
  by (auto simp: started_def)

lemma exclusive_snoc: "exclusive (ls @ [l]) \<longleftrightarrow> exclusive ls \<and> (\<forall>f. l = L_start f \<longrightarrow> running ls = {} \<and> f \<notin> started ls)"
proof
  assume e: "exclusive (ls @ [l])"
  have "running a = {} \<and> f \<notin> started a" if "ls = a @ L_start f # b" for a f b
    using e that unfolding exclusive_def by (metis append.assoc append_Cons)
  moreover have "running ls = {} \<and> f \<notin> started ls" if "l = L_start f" for f
    using e that unfolding exclusive_def by (metis append_Nil)
  ultimately show "exclusive ls \<and> (\<forall>f. l = L_start f \<longrightarrow> running ls = {} \<and> f \<notin> started ls)" by (simp add: exclusive_def)
next
  assume e: "exclusive ls \<and> (\<forall>f. l = L_start f \<longrightarrow> running ls = {} \<and> f \<notin> started ls)"
  have "running a = {} \<and> f \<notin> started a" if "ls @ [l] = a @ L_start f # b" for a f b
  proof (cases b rule: rev_cases)
    case Nil
    with that e show ?thesis by auto
  next
    case (snoc b1 x)
    with that have "ls = a @ L_start f # b1" by simp
    with e show ?thesis by (simp add: exclusive_def)
  qed
  then show "exclusive (ls @ [l])" by (simp add: exclusive_def)
qed

lemma log_ok_snoc [simp]:
  "log_ok (ls @ [L_stop f]) s = log_ok ls s" "log_ok (ls @ [L_recover f]) s = log_ok ls s"
  "log_ok ls s \<Longrightarrow> log_ok (ls @ [L_quiet f]) s"
  by (auto simp: log_ok_def exclusive_snoc)

lemma running_started: "running ls \<subseteq> started ls"
proof (induction ls rule: rev_induct)
  case (snoc l ls)
  then show ?case by (cases l) auto
qed simp

lemma log_ok_start:
  assumes "log_ok ls s" "f \<notin> started ls" "slot_runs s = {f}" "past s f"
  shows "log_ok (ls @ [L_start f]) s"
proof -
  from assms running_started [of ls] have "running ls = {}" by (auto simp: log_ok_def)
  with assms show ?thesis by (simp add: log_ok_def exclusive_snoc)
qed

section \<open>Changes of the host that keep the invariant\<close>

lemma db_ok_cong: "eh_store h1 = eh_store h \<Longrightarrow> db_ok xo h1 s = db_ok xo h s"
  by (simp add: db_ok_def)

lemma lv_ok_snoc [simp]:
  "lv_ok (ls @ [L_stop f]) b lv = lv_ok ls b lv" "lv_ok (ls @ [L_recover f]) b lv = lv_ok ls b lv"
  "lv_ok ls b lv \<Longrightarrow> lv_ok (ls @ [L_quiet f]) b lv" "lv_ok ls b lv \<Longrightarrow> f \<notin> started ls \<Longrightarrow> lv_ok (ls @ [L_start f]) b lv"
  "lv_ok ls b lv \<Longrightarrow> lv_ok ls True lv"
  by (auto simp: lv_ok_def)

lemma settled_run_snoc [simp]:
  "settled_run (ls @ [L_stop f]) g oc = settled_run ls g oc" "settled_run (ls @ [L_recover f]) g oc = settled_run ls g oc"
  "settled_run ls g oc \<Longrightarrow> settled_run (ls @ [L_quiet f]) g oc"
  "settled_run ls g oc \<Longrightarrow> f \<notin> started ls \<Longrightarrow> settled_run (ls @ [L_start f]) g oc"
  by (auto simp: settled_run_def)

abbreviation logged :: "ex_label \<Rightarrow> ex_host \<Rightarrow> ex_host" where
  "logged l h \<equiv> h\<lparr>eh_log := eh_log h @ [l]\<rparr>"

lemma inv_logged:
  assumes "inv_at xo s h" "l = L_stop f \<or> l = L_recover f \<or> l = L_quiet f"
  shows "inv_at xo s (logged l h)"
proof -
  have own: "invoking (logged l h) = invoking h" "own_handle (logged l h) = own_handle h"
    by (simp_all add: fun_eq_iff invoking_def own_handle_def)
  have "settle_ok s (eh_log h @ [l]) own pc" if "settle_ok s (eh_log h) own pc" for own pc
    using that assms(2) by (auto simp: settle_ok_def split: option.splits settle_pc.splits)
  moreover have "late_ok (eh_log h @ [l]) own pc" if "late_ok (eh_log h) own pc" for own pc
    using that assms(2) by (auto simp: late_ok_def split: late_pc.splits)
  moreover have "lv_ok (eh_log h @ [l]) b lv" if "lv_ok (eh_log h) b lv" for b lv using that assms(2) by auto
  moreover have "log_ok (eh_log h @ [l]) s" using assms by (auto simp: inv_at_def)
  ultimately show ?thesis
    using assms(1) own unfolding inv_at_def
    by (simp add: recover_ok_def modes_ok_def awake_def list_all_iff db_ok_cong [of "logged l h" h])
qed

lemma inv_heap:
  assumes "inv_at xo s h" "i < length (eh_heap h) \<Longrightarrow> lv_ok (eh_log h) (eh_faulted h) (f (eh_heap h ! i))"
    and "\<And>lv. lv_own (f lv) = lv_own lv \<and> lv_fence (f lv) = lv_fence lv"
  shows "inv_at xo s (upd_live i f h)"
proof (cases "i < length (eh_heap h)")
  case False
  with assms(1) show ?thesis by (simp add: upd_live_def)
next
  case True
  let ?h = "h\<lparr>eh_heap := (eh_heap h)[i := f (eh_heap h ! i)]\<rparr>"
  have "own_handle ?h j g = own_handle h j g" for j g
    using assms(3) [of "eh_heap h ! i"] True by (cases "j = i") (simp_all add: own_handle_def)
  then have own: "own_handle ?h = own_handle h" by (simp add: fun_eq_iff)
  have "invoking ?h = invoking h" by (simp add: invoking_def)
  moreover have "list_all (lv_ok (eh_log h) (eh_faulted h)) (eh_heap ?h)"
  proof -
    have "list_all (lv_ok (eh_log h) (eh_faulted h)) (eh_heap h)" using assms(1) by (simp add: inv_at_def)
    then show ?thesis
      using assms(2) True set_update_subset_insert [of "eh_heap h" i "f (eh_heap h ! i)"] by (force simp: list_all_iff)
  qed
  ultimately show ?thesis
    using assms(1) True own by (simp add: inv_at_def recover_ok_def modes_ok_def awake_def upd_live_def db_ok_cong [of ?h h])
qed

lemma inv_frame:
  assumes "inv_at xo s h" "eh_store h1 = eh_store h" "eh_log h1 = eh_log h" "eh_heap h1 = eh_heap h" "eh_settling h1 = eh_settling h"
    and "eh_late h1 = eh_late h" "eh_recovering h1 = eh_recovering h \<or> (\<forall>f. eh_recovering h1 \<noteq> Some (Rp_driver f))"
    and "eh_faulted h \<longrightarrow> eh_faulted h1" "modes_ok h1"
  shows "inv_at xo s h1"
proof -
  have "own_handle h1 = own_handle h" "invoking h1 = invoking h"
    using assms by (simp_all add: fun_eq_iff own_handle_def invoking_def)
  moreover have "lv_ok (eh_log h) (eh_faulted h1) lv" if "lv_ok (eh_log h) (eh_faulted h) lv" for lv
    using that assms(8) by (auto simp: lv_ok_def)
  ultimately show ?thesis
    using assms by (auto simp: inv_at_def recover_ok_def list_all_iff db_ok_cong [of h1 h])
qed

lemma inv_flags:
  assumes "inv_at xo s h"
  shows "inv_at xo s (h\<lparr>eh_closing := c\<rparr>)" "inv_at xo s (h\<lparr>eh_live := v\<rparr>)" "inv_at xo s (h\<lparr>eh_faulted := True, eh_ready := False\<rparr>)"
    "inv_at xo s (h\<lparr>eh_starting := False\<rparr>)" "inv_at xo s (h\<lparr>eh_recovering := None\<rparr>)" "inv_at xo s (h\<lparr>eh_ready := True, eh_recovering := None\<rparr>)"
    "inv_at xo s (h\<lparr>eh_recovering := Some Rp_release\<rparr>)"
proof -
  have "modes_ok h" using assms by (simp add: inv_at_def)
  then show "inv_at xo s (h\<lparr>eh_closing := c\<rparr>)" "inv_at xo s (h\<lparr>eh_live := v\<rparr>)" "inv_at xo s (h\<lparr>eh_faulted := True, eh_ready := False\<rparr>)"
    "inv_at xo s (h\<lparr>eh_starting := False\<rparr>)" "inv_at xo s (h\<lparr>eh_recovering := None\<rparr>)" "inv_at xo s (h\<lparr>eh_ready := True, eh_recovering := None\<rparr>)"
    "inv_at xo s (h\<lparr>eh_recovering := Some Rp_release\<rparr>)"
    by (auto intro!: inv_frame [OF assms] simp: modes_ok_def awake_def)
qed

section \<open>Triples of the host primitives\<close>

lemma inv_quiesced:
  assumes "inv_at xo s h"
  shows "inv_at xo s (upd_live i (\<lambda>lv. lv\<lparr>lv_quiet := Q_waiting\<rparr>) h)"
proof (rule inv_heap [OF assms])
  assume "i < length (eh_heap h)"
  with assms have "lv_ok (eh_log h) (eh_faulted h) (eh_heap h ! i)" by (simp add: inv_at_def list_all_length)
  then show "lv_ok (eh_log h) (eh_faulted h) ((eh_heap h ! i)\<lparr>lv_quiet := Q_waiting\<rparr>)" by (auto simp: lv_ok_def proofs_def)
qed simp

text \<open>Moving \<open>settle\<close> on.\<close>

lemma inv_settle:
  assumes "inv_at xo s h" "settle_ok s (eh_log h) (own_handle h) pc" "pc \<noteq> None \<Longrightarrow> pc \<noteq> Some Sp_recover \<Longrightarrow> awake h"
    and "\<And>n r f. pc = Some (Sp_invoke n r) \<Longrightarrow> eh_recovering h = Some (Rp_driver f) \<Longrightarrow> dr_fence r \<noteq> f"
  shows "inv_at xo s (h\<lparr>eh_settling := pc\<rparr>)"
proof -
  let ?h = "h\<lparr>eh_settling := pc\<rparr>"
  have "own_handle ?h = own_handle h" by (simp add: fun_eq_iff own_handle_def)
  moreover have "recover_ok s ?h"
    using assms(1,4) by (auto simp: inv_at_def recover_ok_def invoking_def split: option.splits settle_pc.splits)
  moreover have "modes_ok ?h" using assms(1,3) by (auto simp: inv_at_def modes_ok_def awake_def)
  ultimately show ?thesis using assms(1,2) by (simp add: inv_at_def db_ok_cong [of ?h h])
qed

lemma ex_inv_steps:
  assumes "ex_inv xo h"
  shows "ex_inv xo (upd_live i (\<lambda>lv. lv\<lparr>lv_quiet := Q_waiting\<rparr>) h)" "ex_inv xo (logged (L_stop f) h)" "ex_inv xo (logged (L_recover f) h)"
    "ex_inv xo (logged (L_quiet f) h)" "ex_inv xo (h\<lparr>eh_faulted := True, eh_ready := False\<rparr>)" "ex_inv xo (h\<lparr>eh_settling := None\<rparr>)"
    "ex_inv xo (h\<lparr>eh_closing := c\<rparr>)" "ex_inv xo (h\<lparr>eh_live := v\<rparr>)" "ex_inv xo (h\<lparr>eh_starting := False\<rparr>)"
    "ex_inv xo (h\<lparr>eh_recovering := None\<rparr>)" "ex_inv xo (h\<lparr>eh_ready := True, eh_recovering := None\<rparr>)"
    "ex_inv xo (h\<lparr>eh_recovering := Some Rp_release\<rparr>)"
proof -
  from assms obtain s where s: "inv_at xo s h" by (auto simp: ex_inv_def)
  have "inv_at xo s (h\<lparr>eh_settling := None\<rparr>)" by (rule inv_settle [OF s]) (simp_all add: settle_ok_def)
  then show "ex_inv xo (h\<lparr>eh_settling := None\<rparr>)" by (auto simp: ex_inv_def)
  show "ex_inv xo (upd_live i (\<lambda>lv. lv\<lparr>lv_quiet := Q_waiting\<rparr>) h)" "ex_inv xo (logged (L_stop f) h)" "ex_inv xo (logged (L_recover f) h)"
    "ex_inv xo (logged (L_quiet f) h)" "ex_inv xo (h\<lparr>eh_faulted := True, eh_ready := False\<rparr>)"
    "ex_inv xo (h\<lparr>eh_closing := c\<rparr>)" "ex_inv xo (h\<lparr>eh_live := v\<rparr>)" "ex_inv xo (h\<lparr>eh_starting := False\<rparr>)"
    "ex_inv xo (h\<lparr>eh_recovering := None\<rparr>)" "ex_inv xo (h\<lparr>eh_ready := True, eh_recovering := None\<rparr>)"
    "ex_inv xo (h\<lparr>eh_recovering := Some Rp_release\<rparr>)"
    unfolding ex_inv_def using inv_quiesced [OF s] inv_logged [OF s] inv_flags [OF s] by blast+
qed

text \<open>What does not look at the handles or at the log, and so survives a stop request.\<close>

definition stop_free :: "(ex_host \<Rightarrow> bool) \<Rightarrow> bool" where
  "stop_free G \<longleftrightarrow> (\<forall>h i f. G h \<longrightarrow> G (upd_live i (\<lambda>lv. lv\<lparr>lv_quiet := Q_waiting\<rparr>) h) \<and> G (logged (L_stop f) h))"

lemma emit_triple: "(\<And>h. P h \<Longrightarrow> Q () (logged l h)) \<Longrightarrow> hoare P (emit l) Q E"
  unfolding emit_def by (rule hoare_upd)

lemma quiesce_triple:
  assumes "stop_free G"
  shows "hoare (\<lambda>h. ex_inv xo h \<and> G h) (quiesce i) (\<lambda>_ h. ex_inv xo h \<and> G h) E"
proof -
  let ?P = "\<lambda>h. ex_inv xo h \<and> G h"
  have "hoare ?P (upd (upd_live i (\<lambda>lv. lv\<lparr>lv_quiet := Q_waiting\<rparr>))) (\<lambda>_. ?P) E"
    using assms ex_inv_steps(1) by (intro hoare_upd) (simp add: stop_free_def)
  moreover have "hoare ?P (seq (ask (\<lambda>h. lv_fence (eh_heap h ! i))) (\<lambda>f. emit (L_stop f))) (\<lambda>_. ?P) E"
    using assms ex_inv_steps(2) by (intro hoare_seq [OF hoare_ask [where Q = "\<lambda>_. ?P"]] emit_triple) (auto simp: stop_free_def)
  ultimately have "hoare ?P (seq (upd (upd_live i (\<lambda>lv. lv\<lparr>lv_quiet := Q_waiting\<rparr>)))
      (\<lambda>_. seq (ask (\<lambda>h. lv_fence (eh_heap h ! i))) (\<lambda>f. emit (L_stop f)))) (\<lambda>_. ?P) E"
    by (rule hoare_seq)
  then show ?thesis
    unfolding quiesce_def by (intro hoare_seq [OF hoare_ask [where Q = "\<lambda>_. ?P"]] hoare_on)
qed

lemma quiesce_live_triple:
  assumes "stop_free G"
  shows "hoare (\<lambda>h. ex_inv xo h \<and> G h) quiesce_live (\<lambda>_ h. ex_inv xo h \<and> G h) E"
  unfolding quiesce_live_def
  by (rule hoare_seq [OF hoare_ask [where Q = "\<lambda>_ h. ex_inv xo h \<and> G h"]])
    (auto intro: hoare_ret quiesce_triple [OF assms] split: option.splits)

lemma stop_free_flags [simp]: "stop_free (\<lambda>h. True)" "stop_free eh_faulted" "stop_free awake" "stop_free (\<lambda>h. \<not> eh_faulted h)"
  by (simp_all add: stop_free_def upd_live_def awake_def)

lemma failClosed_triple': "hoare (\<lambda>h. ex_inv xo (h\<lparr>eh_faulted := True, eh_ready := False\<rparr>)) failClosed (\<lambda>_ h. ex_inv xo h \<and> eh_faulted h) E"
  unfolding failClosed_def
  by (rule hoare_seq [OF hoare_upd [where Q = "\<lambda>_ h. ex_inv xo h \<and> eh_faulted h"] quiesce_live_triple]) simp_all

lemma failClosed_triple: "hoare (ex_inv xo) failClosed (\<lambda>_ h. ex_inv xo h \<and> eh_faulted h) E"
  by (rule hoare_pre [OF failClosed_triple']) (rule ex_inv_steps)

lemma checked_triple: "hoare P m Q (ex_inv xo) \<Longrightarrow> hoare P (checked m) Q (ex_inv xo)"
  unfolding checked_def
  by (rule hoare_catching, assumption, rule hoare_seq [OF failClosed_triple], rule hoare_throw) simp

lemma assertHealthy_triple:
  "(\<And>h. P h \<Longrightarrow> E h) \<Longrightarrow> hoare P assertHealthy (\<lambda>_ h. P h \<and> \<not> eh_faulted h) E"
  by (auto simp: hoare_def assertHealthy_def seq_def ask_def throw_def ret_def)

lemma settle_at_triple:
  assumes "\<And>h. P h \<Longrightarrow> ex_inv xo h" "pc = Some (Sp_loop n) \<or> pc = Some (Sp_release n) \<or> pc = Some (Sp_fault_stop n)" "\<And>h. P h \<Longrightarrow> awake h"
  shows "hoare P (settle_at pc) (\<lambda>_. ex_inv xo) E"
  unfolding settle_at_def
proof (rule hoare_upd)
  fix h
  assume p: "P h"
  then obtain s where "inv_at xo s h" using assms(1) by (auto simp: ex_inv_def)
  then have "inv_at xo s (h\<lparr>eh_settling := pc\<rparr>)"
    using assms(2) assms(3) [OF p] by (intro inv_settle) (auto simp: settle_ok_def)
  then show "ex_inv xo (h\<lparr>eh_settling := pc\<rparr>)" by (auto simp: ex_inv_def)
qed

lemma settle_none_triple: "hoare (ex_inv xo) (settle_at None) (\<lambda>_. ex_inv xo) E"
  unfolding settle_at_def by (rule hoare_upd) (simp add: ex_inv_steps)

lemma settle_publish_triple:
  assumes "\<And>h. P h \<Longrightarrow> ex_inv xo h \<and> awake h \<and> settled_run (eh_log h) f oc"
  shows "hoare P (settle_at (Some (Sp_publish n f oc))) (\<lambda>_. ex_inv xo) E"
  unfolding settle_at_def
proof (rule hoare_upd)
  fix h
  assume p: "P h"
  with assms obtain s where "inv_at xo s h" by (auto simp: ex_inv_def)
  then have "inv_at xo s (h\<lparr>eh_settling := Some (Sp_publish n f oc)\<rparr>)"
    using assms [OF p] by (intro inv_settle) (auto simp: settle_ok_def)
  then show "ex_inv xo (h\<lparr>eh_settling := Some (Sp_publish n f oc)\<rparr>)" by (auto simp: ex_inv_def)
qed

lemma guarded_triple:
  assumes "hoare P m (\<lambda>_. ex_inv xo) (ex_inv xo)"
  shows "hoare P (guarded m) (\<lambda>_. ex_inv xo) (ex_inv xo)"
proof -
  have "hoare (ex_inv xo) (settle_failed e) (\<lambda>_. ex_inv xo) (ex_inv xo)" for e
    unfolding settle_failed_def
    by (rule hoare_seq [OF failClosed_triple], rule hoare_seq [where R = "\<lambda>_. ex_inv xo"])
      (auto intro: hoare_pre [OF settle_none_triple] hoare_throw)
  then show ?thesis unfolding guarded_def by (rule hoare_catching [OF assms])
qed

end
