(* ===== verification/Exec_Safety.thy ===== *)
theory Exec_Safety
  imports Exec_Host_Props
begin

text \<open>
  The safety of the durable executor over all interleavings, platform faults and crashes: every procedure keeps the
  invariant, so the stored snapshot can always be decoded, the driver is started at most once for a run and only
  while no other run may be working, and the slot names the only run that is not known to be quiescent.
\<close>

section \<open>The edits are allowed\<close>

lemma inv_atD:
  assumes "inv_at xo s h"
  shows "validSnapshot s" "log_ok (eh_log h) s" "settle_ok s (eh_log h) (own_handle h) (eh_settling h)" "recover_ok s h"
    "modes_ok h" "list_all (lv_ok (eh_log h) (eh_faulted h)) (eh_heap h)" "list_all (late_ok (eh_log h) (own_handle h)) (eh_late h)"
  using assms by (simp_all add: inv_at_def db_ok_def)

lemma slot_generation: "validSnapshot s \<Longrightarrow> sn_slot s = Some r \<Longrightarrow> lf_generation (dr_fence r) = sn_generation s"
  by (simp add: validSnapshot_def validRun_def)

lemma past_slot: "validSnapshot s \<Longrightarrow> sn_slot s = Some r \<Longrightarrow> past s (dr_fence r) = dr_mayHaveStarted r"
  using slot_generation by (auto simp: past_def)

lemma started_past: "inv_at xo s h \<Longrightarrow> f \<in> started (eh_log h) \<Longrightarrow> past s f"
  by (auto simp: inv_at_def log_ok_def)

lemma slot_runs_past: "validSnapshot s \<Longrightarrow> f \<in> slot_runs s \<Longrightarrow> past s f"
  using past_slot by (auto simp: slot_runs_def split: option.splits if_splits)

lemma finish_allowed:
  assumes "validSnapshot s" "finish_edit seal f oc s = Some (s1, out)" "can_free h f" "validOutcome oc"
  shows "validSnapshot s1 \<and> allowed h s s1"
  using finish_valid [OF assms(1,2,4)] assms(2,3)
  by (auto simp: finish_edit_def Let_def allowed_def split: option.splits if_splits)

lemma unknown_allowed:
  assumes "validSnapshot s" "unknown_edit f reason s = Some (s1, out)" "past s f" "reason \<noteq> Sr_cancel"
  shows "validSnapshot s1 \<and> allowed h s s1"
proof -
  have "dr_mayHaveStarted r" if "sn_slot s = Some r" "dr_fence r = f" for r
    using past_slot [OF assms(1) that(1)] that(2) assms(3) by simp
  with unknown_valid [OF assms(1,2,4)] assms(2) show ?thesis
    by (auto simp: unknown_edit_def allowed_def split: option.splits if_splits)
qed

lemma started_allowed:
  "validSnapshot s \<Longrightarrow> started_edit f s = Some (s1, out) \<Longrightarrow> validSnapshot s1 \<and> allowed h s s1"
  using started_valid [of s f s1 out] by (auto simp: started_edit_def allowed_def split: option.splits if_splits)

lemma close_allowed:
  "validSnapshot s \<Longrightarrow> close_edit s = Some (s1, out) \<Longrightarrow> validSnapshot s1 \<and> allowed h s s1"
  using close_valid [of s s1 out] by (auto simp: close_edit_def allowed_def split: option.splits if_splits)

lemma tick_allowed:
  assumes "validSnapshot s" "tick_edit (io_seal io) (io_now io) s = Inr (Some (s1, out))" "good_io io"
  shows "validSnapshot s1 \<and> allowed h s s1"
  using tick_valid [OF assms(1,2)] assms(2,3)
  by (auto simp: tick_edit_def Let_def allowed_def good_io_def split: option.splits if_splits)

text \<open>Committing the start makes the run the one that may be working; it was not started before.\<close>

lemma starting_allowed:
  assumes "inv_at xo s h" "starting_edit f s = Some (s1, out)"
  shows "validSnapshot s1 \<and> allowed h s s1 \<and> slot_runs s1 = {f} \<and> \<not> past s f"
proof -
  note v = inv_atD(1) [OF assms(1)]
  from assms(2) obtain r where r: "sn_slot s = Some r" "dr_fence r = f" "dr_phase r = Ph_prepared"
    "s1 = s\<lparr>sn_slot := Some (r\<lparr>dr_phase := Ph_starting, dr_mayHaveStarted := True\<rparr>)\<rparr>"
    by (auto simp: starting_edit_def split: option.splits if_splits)
  have "\<not> dr_mayHaveStarted r" using validSnapshot_slot [OF v r(1)] r(3) by (simp add: run_flags_def)
  then have "\<not> past s f" using past_slot [OF v r(1)] r(2) by simp
  with starting_valid [OF v assms(2)] r show ?thesis by (simp add: allowed_def slot_runs_def)
qed

lemma control_allowed:
  assumes "validSnapshot s" "control seal s env now = (s1, out)" "isUuidStr (e_msg_id (envelopeOf env))"
  shows "validSnapshot s1 \<and> allowed h s s1"
  using control_valid [OF assms] assms(2) allowed_refl [of h s]
  by (auto simp: control_def Let_def allowed_def split: option.splits if_splits)

lemma offer_allowed:
  assumes "validSnapshot s" "dx_offer xo b seal newId startedAt s env now denied = Inr ((s1, out), effs)"
    and "isSafeInteger now" "0 \<le> now" "isUuidStr newId" "positive (leaseMsAid (xo_params xo))"
    and "isUuidStr (e_from_node (envelopeOf env))" "isUuidStr (e_msg_id (envelopeOf env))"
  shows "validSnapshot s1 \<and> allowed h s s1 \<and> effects_clean effs"
proof (cases "offer_reason xo b s env now denied")
  case (Some reason)
  with assms(1,2) allowed_refl show ?thesis by (auto simp: dx_offer_def effects_clean_def)
next
  case None
  then have free: "sn_slot s = None" by (rule accept_free [OF _ refl])
  from assms(2) None have "s1 = s\<lparr>sn_generation := sn_generation s + 1, sn_slot := Some (prepared_run xo env now newId (sn_generation s + 1))\<rparr>"
      "effs = [JObj [(''id'', JStr newId), (''kind'', JStr EFFECT_KIND), (''payload'', fence_json (dr_fence (prepared_run xo env now newId (sn_generation s + 1))))]]"
    by (auto simp: dx_offer_def Let_def split: if_splits)
  with offer_valid [OF assms] free uuid_clean [OF assms(5)] clean_state_key(2) show ?thesis
    by (auto simp: allowed_def effects_clean_def prepared_run_def Let_def)
qed

lemma message_allowed:
  assumes "validSnapshot s" "handle_message xo io b env auth s = Inr ((s1, out), effs)" "good_io io" "good_opts xo"
    and "isUuidStr (e_from_node (envelopeOf env))" "isUuidStr (e_msg_id (envelopeOf env))"
  shows "validSnapshot s1 \<and> allowed h s s1 \<and> effects_clean effs"
proof -
  have io: "isSafeInteger (io_now io)" "0 \<le> io_now io" "isUuidStr (io_id io)" using assms(3) by (simp_all add: good_io_def)
  have n: "effects_clean []" by (simp add: effects_clean_def)
  from assms(2) consider "s1 = s" "effs = []"
    | (offer) d where "dx_offer xo b (io_seal io) (io_id io) (io_iso io) s env (io_now io) d = Inr ((s1, out), effs)"
    | (control) "control (io_seal io) s env (io_now io) = (s1, out)" "effs = []"
    unfolding handle_message_def Let_def by (auto split: if_splits)
  then show ?thesis
  proof cases
    case offer
    then show ?thesis using io good_optsD(4) [OF assms(4)] assms(5,6) by (intro offer_allowed [OF assms(1)])
  next
    case control
    with control_allowed [OF assms(1) control(1) assms(6)] n show ?thesis by simp
  qed (use assms(1) allowed_refl n in simp)
qed
section \<open>The end of a run\<close>

lemma ex_inv_snap: "ex_inv xo = snap_at xo (\<lambda>_ _. True)"
  by (simp add: fun_eq_iff ex_inv_def snap_at_def)

lemma snap_atI: "inv_at xo s h \<Longrightarrow> P s h \<Longrightarrow> snap_at xo P h"
  by (auto simp: snap_at_def)

lemma hoare_snap:
  assumes "hoare (snap_at xo Q) m R E" "\<And>s h. inv_at xo s h \<Longrightarrow> P s h \<Longrightarrow> Q s h"
  shows "hoare (snap_at xo P) m R E"
  by (rule hoare_pre [OF assms(1)]) (use assms(2) in \<open>auto simp: snap_at_def\<close>)

text \<open>Facts of the host that the end of a run leaves alone.\<close>

definition host_free :: "(ex_host \<Rightarrow> bool) \<Rightarrow> bool" where
  "host_free G \<longleftrightarrow> (\<forall>h st n. G (h\<lparr>eh_store := st, eh_calls := n\<rparr>) = G h) \<and> (\<forall>h v. G h \<longrightarrow> G (h\<lparr>eh_live := v\<rparr>))"

lemma host_free_intros [simp]:
  "host_free (\<lambda>_. True)" "host_free awake" "host_free eh_faulted" "host_free (\<lambda>h. \<not> eh_faulted h)"
  by (simp_all add: host_free_def awake_def)

lemma host_free_store: "host_free G \<Longrightarrow> store_free (\<lambda>s. G)"
  by (simp add: host_free_def store_free_def)

lemma finish_triple:
  assumes "good_opts xo" "host_free G" "validOutcome oc"
  shows "hoare (snap_at xo (\<lambda>s h. can_free h f \<and> G h)) (dx_finish xo io f oc) (\<lambda>_ h. ex_inv xo h \<and> G h) (ex_inv xo)"
proof -
  have c: "hoare (snap_at xo (\<lambda>s h. can_free h f \<and> G h)) (change xo io (\<lambda>s. Inr (finish_edit (io_seal io) f oc s)))
      (\<lambda>b. if b then snap_at xo (\<lambda>s. G) else snap_at xo (\<lambda>s h. can_free h f \<and> G h)) (ex_inv xo)"
    using assms(2) finish_allowed [OF inv_atD(1) _ _ assms(3)]
    by (intro change_triple [OF assms(1)]) (auto simp: store_free_def host_free_def)
  show ?thesis
    unfolding dx_finish_def
  proof (rule hoare_seq [OF c], rule hoare_upd)
    fix b h
    assume "(if b then snap_at xo (\<lambda>s. G) else snap_at xo (\<lambda>s h. can_free h f \<and> G h)) h"
    then have h: "ex_inv xo h" "G h" by (auto simp: snap_at_def ex_inv_def split: if_splits)
    with ex_inv_steps(8) [OF h(1)] assms(2)
    show "ex_inv xo (case eh_live h of
        Some i \<Rightarrow> if i < length (eh_heap h) \<and> same (lv_fence (eh_heap h ! i)) f then h\<lparr>eh_live := None\<rparr> else h | None \<Rightarrow> h) \<and>
      G (case eh_live h of
        Some i \<Rightarrow> if i < length (eh_heap h) \<and> same (lv_fence (eh_heap h ! i)) f then h\<lparr>eh_live := None\<rparr> else h | None \<Rightarrow> h)"
      by (simp add: host_free_def split: option.splits)
  qed
qed

lemma unknown_triple:
  assumes "good_opts xo" "host_free G" "reason \<noteq> Sr_cancel"
  shows "hoare (snap_at xo (\<lambda>s h. past s f \<and> G h)) (dx_unknown xo io f reason) (\<lambda>_ h. ex_inv xo h \<and> G h) (ex_inv xo)"
proof -
  have "hoare (snap_at xo (\<lambda>s h. past s f \<and> G h)) (change xo io (\<lambda>s. Inr (unknown_edit f reason s)))
      (\<lambda>b. if b then snap_at xo (\<lambda>s. G) else snap_at xo (\<lambda>s h. past s f \<and> G h)) (ex_inv xo)"
    using assms(2) unknown_allowed [OF inv_atD(1) _ _ assms(3)]
    by (intro change_triple [OF assms(1)]) (auto simp: store_free_def host_free_def)
  then show ?thesis
    unfolding dx_unknown_def
    by (rule hoare_seq) (rule hoare_ret, auto simp: snap_at_def ex_inv_def split: if_splits)
qed

lemma complete_all_triple:
  assumes "good_opts xo" "store_free P"
  shows "hoare (snap_at xo P) (complete_all xo io effs) (\<lambda>_. snap_at xo P) (ex_inv xo)"
proof (induction effs)
  case Nil
  show ?case by (simp add: hoare_ret)
next
  case (Cons e es)
  show ?case unfolding complete_all.simps
    by (rule hoare_seq [OF call_triple [OF assms] Cons]) (simp_all add: foreign_def)
qed

lemma oldEffects_triple:
  assumes "good_opts xo" "store_free P"
  shows "hoare (snap_at xo P) (completeOldEffects xo io) (\<lambda>_. snap_at xo P) (ex_inv xo)"
  unfolding completeOldEffects_def
proof (rule hoare_seq [OF checked_triple [OF the_slot_triple [OF assms]]], rule hoare_seq)
  fix slot out
  show "hoare (snap_at xo (\<lambda>s h. P s h \<and> slot = sn_slot s))
      (rt_call xo io (Op_pendingEffects (of_nat (nc_maxEntries (xo_cfg xo))) True)) (\<lambda>_. snap_at xo P) (ex_inv xo)"
    by (rule hoare_snap [OF call_triple [OF assms]]) (simp_all add: foreign_def)
  show "hoare (snap_at xo P) (case out of Ot_effects effs \<Rightarrow> complete_all xo io (obsolete_effects (map_option dr_fence slot) effs)
        | _ \<Rightarrow> throw Xe_invalid_state) (\<lambda>_. snap_at xo P) (ex_inv xo)"
    using snap_at_inv by (cases out) (auto intro: complete_all_triple [OF assms] hoare_throw)
qed

lemma settle_done_triple:
  assumes "good_opts xo" "\<And>h. P h \<Longrightarrow> ex_inv xo h"
  shows "hoare P (settle_done xo io) (\<lambda>_. ex_inv xo) (ex_inv xo)"
proof -
  have "hoare (snap_at xo (\<lambda>_ _. True)) (settle_done xo io) (\<lambda>_. ex_inv xo) (ex_inv xo)"
    unfolding settle_done_def
    by (rule hoare_seq [OF oldEffects_triple [OF assms(1)]])
      (auto simp: store_free_def intro: hoare_pre [OF settle_none_triple] snap_at_inv)
  then show ?thesis by (rule hoare_pre) (simp add: assms(2) flip: ex_inv_snap)
qed

lemma settled_can_free:
  assumes "inv_at xo s h" "settled_run (eh_log h) f oc"
  shows "can_free h f" "validOutcome oc"
  using assms inv_atD(3) [OF assms(1)]
  by (auto simp: can_free_def settled_run_def invoking_def settle_ok_def split: option.splits settle_pc.splits)

lemma publish_triple:
  assumes "good_opts xo" "host_free G"
    and pub: "hoare (\<lambda>h. ex_inv xo h \<and> G h \<and> settled_run (eh_log h) f oc) to_pub Q (ex_inv xo)"
    and rel: "hoare (\<lambda>h. ex_inv xo h \<and> G h) to_rel Q (ex_inv xo)"
  shows "hoare (\<lambda>h. ex_inv xo h \<and> G h \<and> settled_run (eh_log h) f oc) (publishAndFinish xo io f oc to_pub to_rel) Q (ex_inv xo)"
proof (rule hoare_fact [where F = "validOutcome oc"])
  show "validOutcome oc" if "ex_inv xo h \<and> G h \<and> settled_run (eh_log h) f oc" for h
    using that by (simp add: settled_run_def)
  assume oc: "validOutcome oc"
  let ?P = "\<lambda>s h. G h \<and> settled_run (eh_log h) f oc"
  have sf: "store_free ?P" using assms(2) by (simp add: store_free_def host_free_def)
  have finish: "hoare (snap_at xo (\<lambda>s h. ?P s h \<and> slot = sn_slot s)) (seq (dx_finish xo io f oc) (\<lambda>_. to_rel)) Q (ex_inv xo)" for slot
    by (rule hoare_seq [OF hoare_snap [OF finish_triple [OF assms(1,2) oc]] rel]) (use settled_can_free(1) in blast)
  have publish: "hoare (snap_at xo (\<lambda>s h. ?P s h \<and> slot = sn_slot s)) to_pub Q (ex_inv xo)" for slot
    by (rule hoare_pre [OF pub]) (auto simp: snap_at_def ex_inv_def)
  have "hoare (snap_at xo ?P) (publishAndFinish xo io f oc to_pub to_rel) Q (ex_inv xo)"
    unfolding publishAndFinish_def
    by (rule hoare_seq [OF checked_triple [OF the_slot_triple [OF assms(1) sf]]]) (intro hoare_if publish finish)
  then show "hoare (\<lambda>h. ex_inv xo h \<and> G h \<and> settled_run (eh_log h) f oc) (publishAndFinish xo io f oc to_pub to_rel) Q (ex_inv xo)"
    by (rule hoare_pre) (auto simp: snap_at_def ex_inv_def)
qed

lemma published_triple:
  assumes "good_opts xo" "host_free G" and rel: "hoare (\<lambda>h. ex_inv xo h \<and> G h) to_rel Q (ex_inv xo)"
  shows "hoare (\<lambda>h. ex_inv xo h \<and> G h \<and> settled_run (eh_log h) f oc) (published xo io f answer to_rel) Q (ex_inv xo)"
proof -
  let ?oc = "case answer of Some oc \<Rightarrow> if validOutcome oc then oc else failed ''artifact_publish_failed'' | None \<Rightarrow> failed ''artifact_publish_failed''"
  have "validOutcome ?oc" by (simp split: option.splits)
  then show ?thesis unfolding published_def
    by (rule hoare_seq [OF hoare_pre [OF finish_triple [OF assms(1,2)]] rel]) (auto simp: ex_inv_def snap_at_def settled_can_free)
qed

section \<open>Reconciliation\<close>

lemma recovered_triple:
  assumes "good_opts xo"
  shows "hoare (ex_inv xo) (recovered xo io) (\<lambda>_ h. ex_inv xo h \<and> awake h) (ex_inv xo)"
  unfolding recovered_def ex_inv_snap [symmetric]
proof (rule hoare_seq)
  show "hoare (ex_inv xo) (completeOldEffects xo io) (\<lambda>_. ex_inv xo) (ex_inv xo)"
    using oldEffects_triple [OF assms, of "\<lambda>_ _. True"] by (simp add: store_free_def flip: ex_inv_snap)
  show "hoare (ex_inv xo) (upd (\<lambda>h. h\<lparr>eh_ready := True, eh_recovering := None\<rparr>) :: unit proc) (\<lambda>_ h. ex_inv xo h \<and> awake h) (ex_inv xo)"
    by (rule hoare_upd) (simp add: ex_inv_steps awake_def)
qed

lemma recover_failed_triple: "hoare (ex_inv xo) (recover_failed e) Q (ex_inv xo)"
  unfolding recover_failed_def
  by (rule hoare_seq [OF failClosed_triple], rule hoare_seq [OF hoare_upd [where Q = "\<lambda>_. ex_inv xo"]])
    (auto simp: ex_inv_steps intro: hoare_throw)

lemma inv_recovering:
  assumes "inv_at xo s h" "past s f" "invoking h = {}"
  shows "inv_at xo s (h\<lparr>eh_recovering := Some (Rp_driver f)\<rparr>)"
proof -
  let ?h = "h\<lparr>eh_recovering := Some (Rp_driver f)\<rparr>"
  have "own_handle ?h = own_handle h" "invoking ?h = invoking h" by (simp_all add: fun_eq_iff own_handle_def invoking_def)
  then show ?thesis
    using assms by (simp add: inv_at_def recover_ok_def modes_ok_def awake_def db_ok_cong [of ?h h])
qed

text \<open>A healthy executor that is not settling after its reconciliation is not about to invoke the driver.\<close>

definition idle :: "ex_host \<Rightarrow> bool" where
  "idle h \<longleftrightarrow> \<not> eh_faulted h \<and> \<not> eh_starting h \<and> \<not> (eh_ready h \<and> eh_settling h \<noteq> None)"

lemma idle_invoking:
  assumes "inv_at xo s h" "idle h"
  shows "invoking h = {}"
proof (cases "eh_settling h")
  case None
  then show ?thesis by (simp add: invoking_def)
next
  case (Some pc)
  with assms(2) have "\<not> awake h" by (simp add: idle_def awake_def)
  with inv_atD(5) [OF assms(1)] Some have "pc = Sp_recover" by (simp add: modes_ok_def)
  with Some show ?thesis by (simp add: invoking_def)
qed

lemma recover_triple:
  assumes "good_opts xo"
  shows "hoare (ex_inv xo) (dx_recover xo io) (\<lambda>_ h. ex_inv xo h \<and> (eh_recovering h = None \<longrightarrow> awake h)) (ex_inv xo)"
proof -
  let ?Q = "\<lambda>(_::unit) h. ex_inv xo h \<and> (eh_recovering h = None \<longrightarrow> awake h)"
  let ?S = "\<lambda>s h. idle h"
  have sf: "store_free ?S" by (simp add: store_free_def idle_def)
  have rec: "hoare (snap_at xo P) (recovered xo io) ?Q (ex_inv xo)" for P
    by (rule hoare_conseq [OF recovered_triple [OF assms]]) (auto simp: snap_at_inv)
  have driver: "hoare (snap_at xo (\<lambda>s h. idle h \<and> Some r = sn_slot s))
      (seq (emit (L_recover (dr_fence r))) (\<lambda>_. upd (\<lambda>h. h\<lparr>eh_recovering := Some (Rp_driver (dr_fence r))\<rparr>))) ?Q (ex_inv xo)"
    if m: "dr_mayHaveStarted r" for r
  proof (rule hoare_seq [OF emit_triple [where Q = "\<lambda>_. snap_at xo (\<lambda>s h. idle h \<and> Some r = sn_slot s)"]], goal_cases)
    case (1 h)
    then show ?case using inv_logged [of xo] by (fastforce simp: snap_at_def idle_def)
  next
    case 2
    show ?case
    proof (rule hoare_upd)
      fix h
      assume "snap_at xo (\<lambda>s h. idle h \<and> Some r = sn_slot s) h"
      then obtain s where s: "inv_at xo s h" "idle h" "sn_slot s = Some r" by (auto simp: snap_at_def)
      then have "inv_at xo s (h\<lparr>eh_recovering := Some (Rp_driver (dr_fence r))\<rparr>)"
        using m past_slot inv_atD(1) idle_invoking by (intro inv_recovering) auto
      then show "?Q () (h\<lparr>eh_recovering := Some (Rp_driver (dr_fence r))\<rparr>)" by (auto simp: ex_inv_def)
    qed
  qed
  have body: "hoare (snap_at xo (\<lambda>s h. idle h \<and> slot = sn_slot s)) (seq (ask (\<lambda>h. eh_live h = None)) (\<lambda>dead.
      (case slot of
         Some r \<Rightarrow>
           if dr_mayHaveStarted r \<and> (dead \<or> dr_phase r = Ph_recovery_required)
           then seq (emit (L_recover (dr_fence r))) (\<lambda>_. upd (\<lambda>h. h\<lparr>eh_recovering := Some (Rp_driver (dr_fence r))\<rparr>))
           else recovered xo io
       | None \<Rightarrow> recovered xo io))) ?Q (ex_inv xo)" for slot
    by (rule hoare_seq [OF hoare_ask [where Q = "\<lambda>_. snap_at xo (\<lambda>s h. idle h \<and> slot = sn_slot s)"]])
      (auto intro: rec driver hoare_if split: option.splits)
  have start: "hoare (snap_at xo ?S)
     (catching (seq (checked (the_slot xo io)) (\<lambda>slot. seq (ask (\<lambda>h. eh_live h = None)) (\<lambda>dead.
      (case slot of
         Some r \<Rightarrow>
           if dr_mayHaveStarted r \<and> (dead \<or> dr_phase r = Ph_recovery_required)
           then seq (emit (L_recover (dr_fence r))) (\<lambda>_. upd (\<lambda>h. h\<lparr>eh_recovering := Some (Rp_driver (dr_fence r))\<rparr>))
           else recovered xo io
       | None \<Rightarrow> recovered xo io)))) recover_failed) ?Q (ex_inv xo)"
    by (rule hoare_catching [OF hoare_seq [OF checked_triple [OF the_slot_triple [OF assms sf]] body] recover_failed_triple])
  let ?B = "\<lambda>h. eh_starting h \<or> (eh_ready h \<and> eh_settling h \<noteq> None) \<or> eh_recovering h \<noteq> None"
  let ?R = "\<lambda>busy h. (ex_inv xo h \<and> \<not> eh_faulted h) \<and> busy = ?B h"
  have busy: "hoare (?R True) (ret () :: unit proc) ?Q (ex_inv xo)"
    by (rule hoare_ret) (auto simp: ex_inv_def inv_at_def modes_ok_def awake_def)
  have free: "?R False h \<Longrightarrow> snap_at xo ?S h" for h
    by (auto simp: ex_inv_def snap_at_def idle_def)
  show ?thesis
    unfolding dx_recover_def
  proof (rule hoare_seq [OF assertHealthy_triple hoare_seq [OF hoare_ask [where Q = ?R]]])
    fix busy
    show "hoare (?R busy) (if busy then ret () else
      catching (seq (checked (the_slot xo io)) (\<lambda>slot. seq (ask (\<lambda>h. eh_live h = None)) (\<lambda>dead.
      (case slot of
         Some r \<Rightarrow>
           if dr_mayHaveStarted r \<and> (dead \<or> dr_phase r = Ph_recovery_required)
           then seq (emit (L_recover (dr_fence r))) (\<lambda>_. upd (\<lambda>h. h\<lparr>eh_recovering := Some (Rp_driver (dr_fence r))\<rparr>))
           else recovered xo io
       | None \<Rightarrow> recovered xo io)))) recover_failed) ?Q (ex_inv xo)"
      using busy hoare_pre [OF start free] by (cases busy) simp_all
  qed simp_all
qed

lemma ex_inv_and: "(ex_inv xo h \<and> G h) = snap_at xo (\<lambda>_. G) h"
  by (auto simp: ex_inv_def snap_at_def)

lemma recover_answer_triple:
  assumes "good_opts xo"
  shows "hoare (\<lambda>h. ex_inv xo h \<and> eh_recovering h = Some (Rp_driver f)) (recover_answer xo io f answer) (\<lambda>_. ex_inv xo) (ex_inv xo)"
proof -
  let ?A = "\<lambda>s h. past s f \<and> f \<notin> invoking h"
  let ?R = "\<lambda>s h. ?A s h \<and> f \<notin> running (eh_log h)"
  have start: "hoare (\<lambda>h. ex_inv xo h \<and> eh_recovering h = Some (Rp_driver f)) m Q E" if "hoare (snap_at xo ?A) m Q E" for m Q and E
    by (rule hoare_pre [OF that]) (use inv_atD(4) in \<open>fastforce simp: ex_inv_def snap_at_def recover_ok_def\<close>)
  have quiet: "hoare (snap_at xo ?A) (emit (L_quiet f)) (\<lambda>_. snap_at xo ?R) (ex_inv xo)"
  proof (rule emit_triple)
    fix h
    assume "snap_at xo ?A h"
    then obtain s where s: "inv_at xo s h" "?A s h" by (auto simp: snap_at_def)
    have "inv_at xo s (logged (L_quiet f) h)" by (rule inv_logged [OF s(1)]) simp
    with s(2) show "snap_at xo ?R (logged (L_quiet f) h)" by (auto simp: snap_at_def invoking_def)
  qed
  have healthy: "hoare (snap_at xo P) assertHealthy (\<lambda>_. snap_at xo P) (ex_inv xo)" for P
    by (rule hoare_conseq [OF assertHealthy_triple [where P = "snap_at xo P" and E = "ex_inv xo"]]) (auto intro: snap_at_inv)
  have finish: "hoare (snap_at xo ?R) (dx_finish xo io f (failed ''execution_interrupted'')) (\<lambda>_. ex_inv xo) (ex_inv xo)"
    by (rule hoare_conseq [OF hoare_snap [OF finish_triple [OF assms, of "\<lambda>_. True"]]]) (auto simp: can_free_def)
  have release: "hoare (ex_inv xo) (upd (\<lambda>h. h\<lparr>eh_recovering := Some Rp_release\<rparr>) :: unit proc) (\<lambda>_. ex_inv xo) (ex_inv xo)"
    by (rule hoare_upd) (rule ex_inv_steps)
  have lost: "hoare (snap_at xo ?A) (dx_unknown xo io f Sr_execution_interrupted) (\<lambda>_. ex_inv xo) (ex_inv xo)"
    by (rule hoare_conseq [OF hoare_snap [OF unknown_triple [OF assms, of "\<lambda>_. True"]]]) auto
  have done_: "hoare (ex_inv xo) (recovered xo io) (\<lambda>_. ex_inv xo) (ex_inv xo)"
    by (rule hoare_conseq [OF recovered_triple [OF assms]]) auto
  show ?thesis
  proof (cases "answer = Some True \<and> xo_driver xo")
    case True
    then show ?thesis unfolding recover_answer_def Let_def
      by (intro hoare_catching [OF _ recover_failed_triple] start)
        (auto simp: on_def intro!: hoare_seq [OF quiet] hoare_seq [OF healthy] hoare_seq [OF finish release])
  next
    case False
    then have "(answer = Some True \<and> xo_driver xo) = False" by simp
    then show ?thesis unfolding recover_answer_def Let_def
      by (intro hoare_catching [OF _ recover_failed_triple] start)
        (auto simp: on_def intro!: hoare_seq [OF hoare_ret [where Q = "\<lambda>_. snap_at xo ?A"]] hoare_seq [OF healthy] hoare_seq [OF lost done_])
  qed
qed

lemma recover_released_triple:
  assumes "good_opts xo"
  shows "hoare (ex_inv xo) (recover_released xo io) (\<lambda>_. ex_inv xo) (ex_inv xo)"
  unfolding recover_released_def
  by (rule hoare_catching [OF hoare_conseq [OF recovered_triple [OF assms]] recover_failed_triple]) auto

section \<open>Settling\<close>

text \<open>The run of a slot that did not start can be given up.\<close>

lemma unstarted:
  assumes "inv_at xo s h" "sn_slot s = Some r" "\<not> dr_mayHaveStarted r"
  shows "dr_fence r \<notin> started (eh_log h)" "can_free h (dr_fence r)"
proof -
  have "\<not> past s (dr_fence r)" using past_slot [OF inv_atD(1) [OF assms(1)] assms(2)] assms(3) by simp
  then show n: "dr_fence r \<notin> started (eh_log h)" using started_past [OF assms(1)] by blast
  have "slot_runs s = {}" using assms(2,3) by (simp add: slot_runs_def)
  with inv_atD(3) [OF assms(1)] have "invoking h = {}"
    by (auto simp: invoking_def settle_ok_def split: option.splits settle_pc.splits)
  with n running_started [of "eh_log h"] show "can_free h (dr_fence r)" by (auto simp: can_free_def)
qed

lemma awake_loop: "hoare (\<lambda>h. ex_inv xo h \<and> awake h) (settle_at (Some (Sp_loop n))) (\<lambda>_. ex_inv xo) E"
  and awake_release: "hoare (\<lambda>h. ex_inv xo h \<and> awake h) (settle_at (Some (Sp_release n))) (\<lambda>_. ex_inv xo) E"
  by (rule settle_at_triple; simp)+

lemma start_commit_triple:
  assumes "good_opts xo"
  shows "hoare (\<lambda>h. ex_inv xo h \<and> awake h) (start_commit xo io n r) (\<lambda>_. ex_inv xo) (ex_inv xo)"
proof -
  let ?f = "dr_fence r"
  let ?K = "\<lambda>s h. awake h \<and> slot_runs s = {?f} \<and> ?f \<notin> started (eh_log h) \<and> eh_recovering h \<noteq> Some (Rp_driver ?f)"
  have c: "hoare (snap_at xo (\<lambda>_. awake)) (change xo io (\<lambda>s. Inr (starting_edit ?f s)))
      (\<lambda>b. if b then snap_at xo ?K else snap_at xo (\<lambda>_. awake)) (ex_inv xo)"
  proof (rule change_triple [OF assms])
    fix h s s1 out
    assume s: "inv_at xo s h" "awake h" "Inr (starting_edit ?f s) = (Inr (Some (s1, out)) :: exec_error + edit option)"
    then have e: "starting_edit ?f s = Some (s1, out)" by simp
    from starting_allowed [OF s(1) e] have a: "validSnapshot s1" "allowed h s s1" "slot_runs s1 = {?f}" "\<not> past s ?f" by auto
    moreover have "?f \<notin> started (eh_log h)" using started_past [OF s(1)] a(4) by blast
    moreover have "eh_recovering h \<noteq> Some (Rp_driver ?f)" using inv_atD(4) [OF s(1)] a(4) by (auto simp: recover_ok_def)
    moreover have "slot_runs (stored_snapshot (nc_codec (xo_cfg xo)) s1) = slot_runs s1"
      by (auto simp: slot_runs_def split: option.splits)
    ultimately show "validSnapshot s1 \<and> allowed h s s1 \<and> ?K (stored_snapshot (nc_codec (xo_cfg xo)) s1) h" using s(2) by simp
  qed (simp_all add: store_free_def)
  have go: "hoare (snap_at xo ?K) (upd (\<lambda>h. h\<lparr>eh_starting := True, eh_settling := Some (Sp_invoke n r)\<rparr>) :: unit proc) (\<lambda>_. ex_inv xo) (ex_inv xo)"
  proof (rule hoare_upd)
    fix h
    assume "snap_at xo ?K h"
    then obtain s where s: "inv_at xo s h" "?K s h" by (auto simp: snap_at_def)
    then have i: "inv_at xo s (h\<lparr>eh_settling := Some (Sp_invoke n r)\<rparr>)"
      by (intro inv_settle [OF s(1)]) (auto simp: settle_ok_def)
    have "inv_at xo s (h\<lparr>eh_starting := True, eh_settling := Some (Sp_invoke n r)\<rparr>)"
      by (rule inv_frame [OF i]) (use s(2) in \<open>simp_all add: modes_ok_def awake_def\<close>)
    then show "ex_inv xo (h\<lparr>eh_starting := True, eh_settling := Some (Sp_invoke n r)\<rparr>)" by (auto simp: ex_inv_def)
  qed
  have no: "hoare (snap_at xo (\<lambda>_. awake)) (settle_at (Some (Sp_release n))) (\<lambda>_. ex_inv xo) (ex_inv xo)"
    by (rule hoare_pre [OF awake_release]) (simp add: ex_inv_and)
  show ?thesis unfolding start_commit_def ex_inv_and
    by (rule hoare_seq [OF c]) (use go no in simp)
qed

text \<open>The handle of the current run, if there is one, was made by its own start.\<close>

definition own_live :: "durable_run \<Rightarrow> (nat \<times> live_run) option \<Rightarrow> ex_host \<Rightarrow> bool" where
  "own_live r live h = (case live of Some (i, lv) \<Rightarrow> own_handle h i (dr_fence r) | None \<Rightarrow> True)"

lemma own_handle_free: "stop_free (\<lambda>h. awake h \<and> own_handle h i f)" "host_free (\<lambda>h. awake h \<and> own_handle h i f)"
  by (auto simp: stop_free_def host_free_def own_handle_def upd_live_def awake_def nth_list_update)

lemma own_started:
  assumes "inv_at xo s h" "own_handle h i f"
  shows "f \<in> started (eh_log h)" "past s f"
proof -
  from assms(2) inv_atD(6) [OF assms(1)] show "f \<in> started (eh_log h)"
    by (auto simp: own_handle_def list_all_length lv_ok_def)
  then show "past s f" by (rule started_past [OF assms(1)])
qed

lemma unknown_then:
  assumes "good_opts xo" "reason \<noteq> Sr_cancel" "\<And>s h. inv_at xo s h \<Longrightarrow> P s h \<Longrightarrow> past s f \<and> awake h"
    and "hoare (\<lambda>h. ex_inv xo h \<and> awake h) m Q (ex_inv xo)"
  shows "hoare (snap_at xo P) (seq (dx_unknown xo io f reason) (\<lambda>_. m)) Q (ex_inv xo)"
  by (rule hoare_seq [OF hoare_snap [OF unknown_triple [OF assms(1) _ assms(2)]] assms(4)]) (use assms(3) in auto)

lemma finish_then:
  assumes "good_opts xo" "validOutcome oc" "\<And>s h. inv_at xo s h \<Longrightarrow> P s h \<Longrightarrow> can_free h f \<and> awake h"
    and "hoare (\<lambda>h. ex_inv xo h \<and> awake h) m Q (ex_inv xo)"
  shows "hoare (snap_at xo P) (seq (dx_finish xo io f oc) (\<lambda>_. m)) Q (ex_inv xo)"
  by (rule hoare_seq [OF hoare_snap [OF finish_triple [OF assms(1) _ assms(2)]] assms(4)]) (use assms(3) in auto)

lemma done_triple: "good_opts xo \<Longrightarrow> hoare (\<lambda>h. ex_inv xo h \<and> awake h) (settle_done xo io) (\<lambda>_. ex_inv xo) (ex_inv xo)"
  by (rule settle_done_triple) simp_all

lemma stop_pc_triple: "hoare (\<lambda>h. ex_inv xo h \<and> awake h \<and> own_handle h i (dr_fence r)) (settle_at (Some (Sp_stop n r i))) (\<lambda>_. ex_inv xo) E"
  unfolding settle_at_def
proof (rule hoare_upd)
  fix h
  assume "ex_inv xo h \<and> awake h \<and> own_handle h i (dr_fence r)"
  then obtain s where s: "inv_at xo s h" "awake h" "own_handle h i (dr_fence r)" by (auto simp: ex_inv_def)
  have "inv_at xo s (h\<lparr>eh_settling := Some (Sp_stop n r i)\<rparr>)"
    by (rule inv_settle [OF s(1)]) (simp_all add: s settle_ok_def)
  then show "ex_inv xo (h\<lparr>eh_settling := Some (Sp_stop n r i)\<rparr>)" by (auto simp: ex_inv_def)
qed

lemma prepare_pc_triple:
  "hoare (snap_at xo (\<lambda>s h. awake h \<and> sn_slot s = Some r \<and> \<not> dr_mayHaveStarted r)) (settle_at (Some (Sp_prepare n r))) (\<lambda>_. ex_inv xo) E"
  unfolding settle_at_def
proof (rule hoare_upd)
  fix h
  assume "snap_at xo (\<lambda>s h. awake h \<and> sn_slot s = Some r \<and> \<not> dr_mayHaveStarted r) h"
  then obtain s where s: "inv_at xo s h" "awake h" "sn_slot s = Some r" "\<not> dr_mayHaveStarted r" by (auto simp: snap_at_def)
  have "inv_at xo s (h\<lparr>eh_settling := Some (Sp_prepare n r)\<rparr>)"
    by (rule inv_settle [OF s(1)]) (simp_all add: s(2) settle_ok_def unstarted [OF s(1,3,4)])
  then show "ex_inv xo (h\<lparr>eh_settling := Some (Sp_prepare n r)\<rparr>)" by (auto simp: ex_inv_def)
qed

lemma prepared_unstarted: "inv_at xo s h \<Longrightarrow> sn_slot s = Some r \<Longrightarrow> dr_phase r = Ph_prepared \<Longrightarrow> \<not> dr_mayHaveStarted r"
  using validSnapshot_slot inv_atD(1) by (fastforce simp: run_flags_def)

lemma settle_phase_triple:
  assumes "good_opts xo"
  shows "hoare (snap_at xo (\<lambda>s h. awake h \<and> sn_slot s = Some r \<and> own_live r live h)) (settle_phase xo io n r live) (\<lambda>_. ex_inv xo) (ex_inv xo)"
proof -
  let ?P = "\<lambda>s h. awake h \<and> sn_slot s = Some r \<and> own_live r live h"
  have give_up: "hoare (snap_at xo ?P) (seq (dx_finish xo io (dr_fence r) (failed why)) (\<lambda>_. settle_at (Some (Sp_release n)))) (\<lambda>_. ex_inv xo) (ex_inv xo)"
    if "\<And>s h. inv_at xo s h \<Longrightarrow> sn_slot s = Some r \<Longrightarrow> \<not> dr_mayHaveStarted r" for why
    by (rule finish_then [OF assms _ _ awake_release]) (use that unstarted(2) in auto)
  have prepare: "hoare (snap_at xo ?P) (settle_at (Some (Sp_prepare n r))) (\<lambda>_. ex_inv xo) (ex_inv xo)" if "dr_phase r = Ph_prepared"
    by (rule hoare_snap [OF prepare_pc_triple]) (use prepared_unstarted that in blast)
  have commit: "hoare (snap_at xo ?P) (start_commit xo io n r) (\<lambda>_. ex_inv xo) (ex_inv xo)"
    by (rule hoare_pre [OF start_commit_triple [OF assms]]) (auto simp: snap_at_def ex_inv_def)
  have wait: "hoare (snap_at xo ?P) (seq (quiesce i) (\<lambda>_. settle_at (Some (Sp_stop n r i)))) (\<lambda>_. ex_inv xo) (ex_inv xo)" if "live = Some (i, lv)" for i lv
    by (rule hoare_seq [OF hoare_pre [OF quiesce_triple [OF own_handle_free(1)]] stop_pc_triple])
      (use that in \<open>auto simp: snap_at_def ex_inv_def own_live_def\<close>)
  have lost: "hoare (snap_at xo ?P) (seq (dx_unknown xo io (dr_fence r) Sr_execution_interrupted) (\<lambda>_. settle_done xo io)) (\<lambda>_. ex_inv xo) (ex_inv xo)"
    if "\<And>s h. inv_at xo s h \<Longrightarrow> ?P s h \<Longrightarrow> past s (dr_fence r)"
    by (rule unknown_then [OF assms _ _ done_triple [OF assms]]) (use that in auto)
  have stop: "hoare (snap_at xo ?P) (settle_done xo io) (\<lambda>_. ex_inv xo) (ex_inv xo)"
    by (rule hoare_pre [OF done_triple [OF assms]]) (auto simp: snap_at_def ex_inv_def)
  have p1: "past s (dr_fence r)" if "inv_at xo s h" "sn_slot s = Some r" "dr_mayHaveStarted r" for s h
    using past_slot inv_atD(1) that by blast
  have p2: "past s (dr_fence r)" if "inv_at xo s h" "?P s h" "live = Some (i, lv)" for s h i lv
    using own_started(2) that by (fastforce simp: own_live_def)
  have fresh: "\<not> dr_mayHaveStarted r" if "inv_at xo s h" "sn_slot s = Some r" "dr_phase r = Ph_prepared" for s h
    using prepared_unstarted [OF that] .
  have stopping: "hoare (snap_at xo ?P)
      (case live of
         Some (i, lv) \<Rightarrow> seq (quiesce i) (\<lambda>_. settle_at (Some (Sp_stop n r i)))
       | None \<Rightarrow> seq (dx_unknown xo io (dr_fence r) Sr_execution_interrupted) (\<lambda>_. settle_done xo io)) (\<lambda>_. ex_inv xo) (ex_inv xo)"
    if may: "dr_mayHaveStarted r"
  proof (cases live)
    case None
    then show ?thesis using lost p1 [OF _ _ may] by simp
  next
    case (Some x)
    then show ?thesis using wait by (cases x) simp
  qed
  have dead: "hoare (snap_at xo ?P) (seq (dx_unknown xo io (dr_fence r) Sr_execution_interrupted) (\<lambda>_. settle_done xo io)) (\<lambda>_. ex_inv xo) (ex_inv xo)"
    if "case live of Some (i, lv) \<Rightarrow> lv_closed lv = Some None | None \<Rightarrow> False"
  proof -
    from that obtain i lv where "live = Some (i, lv)" by (cases live) auto
    then show ?thesis using lost p2 by blast
  qed
  show ?thesis
    unfolding settle_phase_def
    by (intro hoare_if give_up prepare commit stop stopping dead) (use fresh in blast)+
qed

text \<open>A healthy tick leaves a ready executor.\<close>

lemma tick_triple:
  assumes "good_opts xo" "good_io io"
  shows "hoare (ex_inv xo) (dx_tick xo io) (\<lambda>_. ex_inv xo) (ex_inv xo)"
    "hoare (\<lambda>h. ex_inv xo h \<and> awake h) (dx_tick xo io) (\<lambda>_ h. ex_inv xo h \<and> awake h \<and> \<not> eh_faulted h) (ex_inv xo)"
proof -
  have main: "hoare (\<lambda>h. ex_inv xo h \<and> G h) (dx_tick xo io) (\<lambda>_ h. ex_inv xo h \<and> G h \<and> \<not> eh_faulted h) (ex_inv xo)"
    if g: "store_free (\<lambda>_. G)" for G
  proof -
    let ?P = "\<lambda>s h. G h \<and> \<not> eh_faulted h"
    have c: "hoare (snap_at xo ?P) (change xo io (tick_edit (io_seal io) (io_now io)))
        (\<lambda>b. if b then snap_at xo ?P else snap_at xo ?P) (ex_inv xo)"
    proof (rule change_triple [OF assms(1)])
      fix h s s1 out
      assume "inv_at xo s h" "?P s h" "tick_edit (io_seal io) (io_now io) s = Inr (Some (s1, out))"
      then show "validSnapshot s1 \<and> allowed h s s1 \<and> ?P (stored_snapshot (nc_codec (xo_cfg xo)) s1) h"
        using tick_allowed [OF inv_atD(1) _ assms(2)] by blast
    qed (use g in \<open>simp_all add: store_free_def\<close>)
    have m: "hoare (snap_at xo ?P) (if \<not> isSafeInteger (io_now io) \<or> io_now io < 0 then throw Xe_bad_time
        else seq (change xo io (tick_edit (io_seal io) (io_now io))) (\<lambda>_. ret ())) (\<lambda>_. snap_at xo ?P) (ex_inv xo)"
      by (rule hoare_if, rule hoare_throw, erule snap_at_inv, rule hoare_seq [OF c], rule hoare_ret, simp split: if_splits)
    have a: "hoare (\<lambda>h. ex_inv xo h \<and> G h) assertHealthy (\<lambda>_. snap_at xo ?P) (ex_inv xo)"
      by (rule hoare_conseq [OF assertHealthy_triple [where P = "\<lambda>h. ex_inv xo h \<and> G h" and E = "ex_inv xo"]])
        (auto simp: snap_at_def ex_inv_def)
    have "hoare (\<lambda>h. ex_inv xo h \<and> G h) (dx_tick xo io) (\<lambda>_. snap_at xo ?P) (ex_inv xo)"
      unfolding dx_tick_def by (rule checked_triple [OF hoare_seq [OF a m]])
    then show ?thesis by (rule hoare_conseq) (auto simp: snap_at_def ex_inv_def)
  qed
  show "hoare (ex_inv xo) (dx_tick xo io) (\<lambda>_. ex_inv xo) (ex_inv xo)"
    by (rule hoare_conseq [OF main [of "\<lambda>_. True"]]) (simp_all add: store_free_def)
  show "hoare (\<lambda>h. ex_inv xo h \<and> awake h) (dx_tick xo io) (\<lambda>_ h. ex_inv xo h \<and> awake h \<and> \<not> eh_faulted h) (ex_inv xo)"
    by (rule main) (simp add: store_free_def)
qed

text \<open>On a healthy executor the handle that \<open>settle\<close> looks at is its own.\<close>

lemma live_own:
  assumes "inv_at xo s h" "\<not> eh_faulted h" "live_of h = Some (i, lv)"
  shows "own_handle h i (lv_fence lv)" "lv_outcome lv = Some oc \<Longrightarrow> settled_run (eh_log h) (lv_fence lv) oc"
proof -
  from assms(3) have l: "i < length (eh_heap h)" "lv = eh_heap h ! i" by (auto simp: live_of_def split: option.splits if_splits)
  with inv_atD(6) [OF assms(1)] assms(2) have ok: "lv_ok (eh_log h) False lv" by (simp add: list_all_length)
  with l show "own_handle h i (lv_fence lv)" by (simp add: own_handle_def lv_ok_def)
  from ok show "settled_run (eh_log h) (lv_fence lv) oc" if "lv_outcome lv = Some oc"
    using that by (auto simp: lv_ok_def settled_run_def proofs_def)
qed

lemma settle_publish:
  assumes "good_opts xo"
  shows "hoare (\<lambda>h. ex_inv xo h \<and> awake h \<and> settled_run (eh_log h) f oc)
    (publishAndFinish xo io f oc (settle_at (Some (Sp_publish n f oc))) (settle_at (Some (Sp_release n)))) (\<lambda>_. ex_inv xo) (ex_inv xo)"
  by (rule publish_triple [OF assms _ settle_publish_triple awake_release]) simp_all

lemma settle_pass_triple:
  assumes "good_opts xo" "good_io io"
  shows "hoare (\<lambda>h. ex_inv xo h \<and> awake h) (settle_pass xo io n) (\<lambda>_. ex_inv xo) (ex_inv xo)"
proof -
  let ?P = "\<lambda>s h. awake h \<and> \<not> eh_faulted h"
  let ?R = "\<lambda>slot live s h. (?P s h \<and> slot = sn_slot s) \<and> live = live_of h"
  have sf: "store_free ?P" by (simp add: store_free_def)
  have tick: "hoare (\<lambda>h. ex_inv xo h \<and> awake h) (dx_tick xo io) (\<lambda>_. snap_at xo ?P) (ex_inv xo)"
    by (rule hoare_conseq [OF tick_triple(2) [OF assms]]) (auto simp: ex_inv_def snap_at_def)
  have look: "hoare (snap_at xo (\<lambda>s h. ?P s h \<and> slot = sn_slot s)) (ask live_of :: (nat \<times> live_run) option proc) (\<lambda>live. snap_at xo (?R slot live)) (ex_inv xo)" for slot
    by (rule hoare_ask) (auto simp: snap_at_def)
  have idle_: "hoare (snap_at xo (?R slot live)) (settle_done xo io) (\<lambda>_. ex_inv xo) (ex_inv xo)" for slot live
    by (rule hoare_pre [OF done_triple [OF assms(1)]]) (auto simp: snap_at_def ex_inv_def)
  have phase: "hoare (snap_at xo (?R (Some r) live)) (settle_phase xo io n r live) (\<lambda>_. ex_inv xo) (ex_inv xo)"
    if "\<And>i lv. live = Some (i, lv) \<Longrightarrow> lv_fence lv = dr_fence r" for r live
  proof (rule hoare_snap [OF settle_phase_triple [OF assms(1)]])
    fix s h
    assume s: "inv_at xo s h" "?R (Some r) live s h"
    have "own_live r live h"
    proof (cases live)
      case (Some x)
      then obtain i lv where l: "live = Some (i, lv)" by (cases x) simp
      have "own_handle h i (lv_fence lv)" using live_own(1) [OF s(1)] s(2) l by simp
      with that [OF l] show ?thesis by (simp add: own_live_def l)
    qed (simp add: own_live_def)
    with s(2) show "awake h \<and> sn_slot s = Some r \<and> own_live r live h" by simp
  qed
  have outcome: "hoare (snap_at xo (?R (Some r) (Some (i, lv)))) (publishAndFinish xo io (dr_fence r) oc
        (settle_at (Some (Sp_publish n (dr_fence r) oc))) (settle_at (Some (Sp_release n)))) (\<lambda>_. ex_inv xo) (ex_inv xo)"
    if "lv_fence lv = dr_fence r" "lv_outcome lv = Some oc" for r i lv oc
  proof (rule hoare_pre [OF settle_publish [OF assms(1)]])
    fix h
    assume "snap_at xo (?R (Some r) (Some (i, lv))) h"
    then obtain s where s: "inv_at xo s h" "awake h" "\<not> eh_faulted h" "live_of h = Some (i, lv)" by (auto simp: snap_at_def)
    have "settled_run (eh_log h) (dr_fence r) oc" using live_own(2) [OF s(1,3,4) that(2)] that(1) by simp
    with s show "ex_inv xo h \<and> awake h \<and> settled_run (eh_log h) (dr_fence r) oc" by (auto simp: ex_inv_def)
  qed
  have wrong: "hoare (snap_at xo (?R slot live)) (throw Xe_fence_mismatch :: unit proc) (\<lambda>_. ex_inv xo) (ex_inv xo)" for slot live
    by (rule hoare_throw) (rule snap_at_inv)
  have body: "hoare (snap_at xo (?R slot live)) (case slot of
             None \<Rightarrow> settle_done xo io
           | Some r \<Rightarrow>
               (case live of
                  None \<Rightarrow> settle_phase xo io n r live
                | Some (i, lv) \<Rightarrow>
                    if \<not> same (lv_fence lv) (dr_fence r) then throw Xe_fence_mismatch
                    else
                      (case lv_outcome lv of
                         Some oc \<Rightarrow>
                           publishAndFinish xo io (dr_fence r) oc
                             (settle_at (Some (Sp_publish n (dr_fence r) oc))) (settle_at (Some (Sp_release n)))
                       | None \<Rightarrow> settle_phase xo io n r live))) (\<lambda>_. ex_inv xo) (ex_inv xo)" for slot live
  proof (cases slot)
    case None
    then show ?thesis using idle_ by simp
  next
    case (Some r)
    note slot = this
    show ?thesis
    proof (cases live)
      case None
      then show ?thesis using slot phase [of live r] by simp
    next
      case (Some x)
      obtain i lv where x: "x = (i, lv)" by fastforce
      show ?thesis
      proof (cases "lv_fence lv = dr_fence r")
        case True
        show ?thesis
        proof (cases "lv_outcome lv")
          case None
          then show ?thesis using True slot Some x phase [of live r] by simp
        next
          case oc: (Some oc)
          then show ?thesis using True slot Some x outcome [OF True oc] by simp
        qed
      qed (use slot Some x wrong in simp)
    qed
  qed
  have rest: "hoare (\<lambda>h. ex_inv xo h \<and> awake h) (settle_done xo io) (\<lambda>_. ex_inv xo) (ex_inv xo)"
    by (rule done_triple [OF assms(1)])
  show ?thesis
    unfolding settle_pass_def
    by (intro hoare_if rest hoare_seq [OF tick] hoare_seq [OF checked_triple [OF the_slot_triple [OF assms(1) sf]]] hoare_seq [OF look] body)
qed

lemma settle_triple:
  assumes "good_opts xo" "good_io io"
  shows "hoare (ex_inv xo) (dx_settle xo io) (\<lambda>_. ex_inv xo) (ex_inv xo)"
proof -
  let ?I = "ex_inv xo"
  have go: "hoare (\<lambda>h. ?I h \<and> pending = (eh_recovering h \<noteq> None) \<and> (eh_recovering h = None \<longrightarrow> awake h))
      (settle_at (Some (if pending then Sp_recover else Sp_loop 0))) (\<lambda>_. ?I) ?I" for pending
  proof (cases pending)
    case True
    have "ex_inv xo (h\<lparr>eh_settling := Some Sp_recover\<rparr>)" if "inv_at xo s h" for s h
      using inv_settle [OF that, of "Some Sp_recover"] by (auto simp: ex_inv_def settle_ok_def)
    with True show ?thesis unfolding settle_at_def by (intro hoare_upd) (auto simp: ex_inv_def)
  next
    case False
    have "hoare (\<lambda>h. ex_inv xo h \<and> pending = (eh_recovering h \<noteq> None) \<and> (eh_recovering h = None \<longrightarrow> awake h))
        (settle_at (Some (Sp_loop 0))) (\<lambda>_. ?I) ?I"
      by (rule hoare_pre [OF awake_loop]) (use False in simp)
    with False show ?thesis by simp
  qed
  have recover: "hoare ?I (seq (dx_recover xo io) (\<lambda>_. seq (ask (\<lambda>h. eh_recovering h \<noteq> None)) (\<lambda>pending.
       settle_at (Some (if pending then Sp_recover else Sp_loop 0))))) (\<lambda>_. ?I) ?I"
    by (rule hoare_seq [OF recover_triple [OF assms(1)]], rule hoare_seq [OF hoare_ask go]) simp
  have body: "hoare ?I (guarded
         (seq assertHealthy (\<lambda>_.
          seq (ask eh_ready) (\<lambda>ready.
            if ready then settle_pass xo io 0
            else seq (dx_recover xo io) (\<lambda>_.
                 seq (ask (\<lambda>h. eh_recovering h \<noteq> None)) (\<lambda>pending.
                   settle_at (Some (if pending then Sp_recover else Sp_loop 0)))))))) (\<lambda>_. ?I) ?I"
  proof (intro guarded_triple hoare_seq [OF assertHealthy_triple [where P = ?I]] hoare_seq [OF hoare_ask [where Q = "\<lambda>r h. ?I h \<and> (r \<longrightarrow> awake h)"]] hoare_if)
    show "hoare (\<lambda>h. ?I h \<and> (ready \<longrightarrow> awake h)) (settle_pass xo io 0) (\<lambda>_. ?I) ?I" if ready for ready
      by (rule hoare_pre [OF settle_pass_triple [OF assms]]) (use that in simp)
    show "hoare (\<lambda>h. ?I h \<and> (ready \<longrightarrow> awake h)) (seq (dx_recover xo io) (\<lambda>_. seq (ask (\<lambda>h. eh_recovering h \<noteq> None)) (\<lambda>pending.
       settle_at (Some (if pending then Sp_recover else Sp_loop 0))))) (\<lambda>_. ?I) ?I" for ready
      by (rule hoare_pre [OF recover]) simp
  qed (simp_all add: awake_def)
  show ?thesis
    unfolding dx_settle_def
    by (rule hoare_seq [OF hoare_ask [where Q = "\<lambda>_. ?I"]]) (auto intro: hoare_if hoare_ret body)
qed

end
