(* ===== verification/Exec_Steps.thy ===== *)
theory Exec_Steps
  imports Exec_Safety
begin

text \<open>
  The rest of the durable executor's steps keep its invariant: the start of the driver and its late answers, closing,
  messages, the promises of the handles, calls of other components and crashes.
\<close>

section \<open>Handles\<close>

lemma own_append: "own_handle h i f \<Longrightarrow> own_handle (h\<lparr>eh_heap := eh_heap h @ [lv], eh_live := v\<rparr>) i f"
  by (auto simp: own_handle_def nth_append)

lemma settle_ok_mono: "settle_ok s ls own pc \<Longrightarrow> (\<And>i f. own i f \<Longrightarrow> own1 i f) \<Longrightarrow> settle_ok s ls own1 pc"
  by (auto simp: settle_ok_def split: option.splits settle_pc.splits)

lemma late_ok_mono: "late_ok ls own pc \<Longrightarrow> (\<And>i f. own i f \<Longrightarrow> own1 i f) \<Longrightarrow> late_ok ls own1 pc"
  by (auto simp: late_ok_def split: late_pc.splits)

lemma inv_attach:
  assumes "inv_at xo s h" "lv_ok (eh_log h) (eh_faulted h) lv"
  shows "inv_at xo s (h\<lparr>eh_heap := eh_heap h @ [lv], eh_live := v\<rparr>)"
proof -
  let ?h = "h\<lparr>eh_heap := eh_heap h @ [lv], eh_live := v\<rparr>"
  have "invoking ?h = invoking h" by (simp add: invoking_def)
  moreover have "settle_ok s (eh_log h) (own_handle ?h) (eh_settling h)"
    by (rule settle_ok_mono [OF inv_atD(3) [OF assms(1)]]) (rule own_append)
  moreover have "list_all (late_ok (eh_log h) (own_handle ?h)) (eh_late h)"
    using inv_atD(7) [OF assms(1)] by (rule list.pred_mono_strong) (rule late_ok_mono, assumption, rule own_append)
  ultimately show ?thesis
    using assms by (simp add: inv_at_def recover_ok_def modes_ok_def awake_def db_ok_cong [of ?h h])
qed

definition attach_free :: "(ex_host \<Rightarrow> bool) \<Rightarrow> bool" where
  "attach_free G \<longleftrightarrow> (\<forall>h hp v. G h \<longrightarrow> G (h\<lparr>eh_heap := hp, eh_live := v\<rparr>))"

lemma attach_free_intros [simp]: "attach_free (\<lambda>_. True)" "attach_free awake"
  by (simp_all add: attach_free_def awake_def)

lemma attach_triple:
  assumes "attach_free G"
  shows "hoare (\<lambda>h. ex_inv xo h \<and> G h \<and> dr_fence r \<in> started (eh_log h)) (dx_attach r hf)
    (\<lambda>i h. ex_inv xo h \<and> G h \<and> own_handle h i (dr_fence r)) (ex_inv xo)"
proof -
  let ?ok = "isLeaseFence hf \<and> same hf (dr_fence r)"
  let ?lv = "\<lparr>lv_fence = dr_fence r, lv_own = ?ok, lv_closed = None, lv_outcome = None, lv_quiet = Q_none\<rparr>"
  let ?add = "\<lambda>h. h\<lparr>eh_heap := eh_heap h @ [?lv], eh_live := Some (length (eh_heap h))\<rparr>"
  let ?P = "\<lambda>h. ex_inv xo h \<and> G h \<and> dr_fence r \<in> started (eh_log h)"
  have fresh: "lv_ok ls b ?lv" if "dr_fence r \<in> started ls" "?ok \<or> b" for ls b
    using that by (auto simp: lv_ok_def proofs_def)
  show ?thesis
  proof (cases ?ok)
    case True
    have "hoare ?P (upd ?add :: unit proc) (\<lambda>_ h. ex_inv xo h \<and> G h \<and> own_handle h (length (eh_heap h) - 1) (dr_fence r)) (ex_inv xo)"
    proof (rule hoare_upd)
      fix h
      assume p: "?P h"
      then obtain s where s: "inv_at xo s h" by (auto simp: ex_inv_def)
      have "inv_at xo s (?add h)" by (rule inv_attach [OF s]) (use fresh p True in blast)
      moreover have "G (?add h)" using p assms by (simp add: attach_free_def)
      ultimately show "ex_inv xo (?add h) \<and> G (?add h) \<and> own_handle (?add h) (length (eh_heap (?add h)) - 1) (dr_fence r)"
        using True by (auto simp: ex_inv_def own_handle_def)
    qed
    then show ?thesis unfolding dx_attach_def by (rule hoare_seq) (use True in \<open>auto intro: hoare_ask\<close>)
  next
    case False
    have "hoare ?P (upd ?add :: unit proc) (\<lambda>_ h. ex_inv xo (h\<lparr>eh_faulted := True, eh_ready := False\<rparr>)) (ex_inv xo)"
    proof (rule hoare_upd)
      fix h
      assume p: "?P h"
      then obtain s where s: "inv_at xo s h" by (auto simp: ex_inv_def)
      let ?h = "h\<lparr>eh_faulted := True, eh_ready := False\<rparr>"
      have "inv_at xo s (?add ?h)" by (rule inv_attach [OF inv_flags(3) [OF s]]) (use fresh p in simp)
      moreover have "?add ?h = (?add h)\<lparr>eh_faulted := True, eh_ready := False\<rparr>" by (rule ex_host.equality) simp_all
      ultimately have "inv_at xo s ((?add h)\<lparr>eh_faulted := True, eh_ready := False\<rparr>)" by argo
      then show "ex_inv xo ((?add h)\<lparr>eh_faulted := True, eh_ready := False\<rparr>)" by (auto simp: ex_inv_def)
    qed
    then show ?thesis unfolding dx_attach_def
    proof (rule hoare_seq)
      have "hoare (\<lambda>h. ex_inv xo (h\<lparr>eh_faulted := True, eh_ready := False\<rparr>)) (seq failClosed (\<lambda>_. throw Xe_fence_mismatch))
        (\<lambda>i h. ex_inv xo h \<and> G h \<and> own_handle h i (dr_fence r)) (ex_inv xo)"
        by (rule hoare_seq [OF failClosed_triple'], rule hoare_throw) simp
      then show "hoare (\<lambda>h. ex_inv xo (h\<lparr>eh_faulted := True, eh_ready := False\<rparr>))
          (if \<not> isLeaseFence hf \<or> \<not> same hf (dr_fence r) then seq failClosed (\<lambda>_. throw Xe_fence_mismatch)
           else ask (\<lambda>h. length (eh_heap h) - 1)) (\<lambda>i h. ex_inv xo h \<and> G h \<and> own_handle h i (dr_fence r)) (ex_inv xo)"
        using False by simp
    qed
  qed
qed

section \<open>Starting\<close>

text \<open>Where \<open>settle\<close> stands, the executor is reconciled or faulted.\<close>

lemma at_settling:
  assumes "inv_at xo s h" "eh_settling h = Some pc" "pc \<noteq> Sp_recover"
  shows "awake h" "settle_ok s (eh_log h) (own_handle h) (Some pc)"
  using inv_atD(3,5) [OF assms(1)] assms(2,3) by (auto simp: modes_ok_def)

lemma inv_started:
  assumes "inv_at xo s h" "eh_settling h = Some (Sp_invoke n r)"
  shows "inv_at xo s (h\<lparr>eh_log := eh_log h @ [L_start (dr_fence r)], eh_settling := Some (Sp_start n r)\<rparr>)"
proof -
  let ?f = "dr_fence r" and ?ls = "eh_log h @ [L_start (dr_fence r)]"
  let ?h = "h\<lparr>eh_log := ?ls, eh_settling := Some (Sp_start n r)\<rparr>"
  have a: "awake h" "?f \<notin> started (eh_log h)" "slot_runs s = {?f}"
    using at_settling [OF assms] by (simp_all add: settle_ok_def)
  have p: "past s ?f" by (rule slot_runs_past [OF inv_atD(1) [OF assms(1)]]) (simp add: a(3))
  have own: "own_handle ?h = own_handle h" by (simp add: fun_eq_iff own_handle_def)
  have "log_ok ?ls s" by (rule log_ok_start [OF inv_atD(2) [OF assms(1)] a(2,3) p])
  moreover have "list_all (lv_ok ?ls (eh_faulted h)) (eh_heap h)"
    using inv_atD(6) [OF assms(1)] by (rule list.pred_mono_strong) (simp add: a(2))
  moreover have "late_ok ?ls own pc" if "late_ok (eh_log h) own pc" for own pc
    using that a(2) by (auto simp: late_ok_def split: late_pc.splits)
  then have "list_all (late_ok ?ls (own_handle h)) (eh_late h)"
    using inv_atD(7) [OF assms(1)] by (simp add: list_all_iff)
  moreover have "recover_ok s ?h" using inv_atD(4) [OF assms(1)] by (auto simp: recover_ok_def invoking_def)
  moreover have "settle_ok s ?ls (own_handle h) (Some (Sp_start n r))" by (simp add: settle_ok_def)
  moreover have "modes_ok ?h" using a(1) by (simp add: modes_ok_def awake_def)
  ultimately show ?thesis
    using assms(1) own by (simp add: inv_at_def db_ok_cong [of ?h h])
qed

lemma unstarting_triple:
  assumes "\<And>s h. inv_at xo s h \<Longrightarrow> P h \<Longrightarrow> R s (h\<lparr>eh_starting := False\<rparr>)"
  shows "hoare (\<lambda>h. ex_inv xo h \<and> P h) (upd (\<lambda>h. h\<lparr>eh_starting := False\<rparr>) :: unit proc) (\<lambda>_. snap_at xo R) E"
  by (rule hoare_upd) (unfold ex_inv_def snap_at_def, use inv_flags(4) assms in blast)

lemma start_invoke_triple:
  assumes "good_opts xo"
  shows "hoare (\<lambda>h. ex_inv xo h \<and> eh_settling h = Some (Sp_invoke n r)) (start_invoke xo io n r) (\<lambda>_. ex_inv xo) (ex_inv xo)"
proof -
  let ?P = "\<lambda>h. ex_inv xo h \<and> eh_settling h = Some (Sp_invoke n r)"
  have lost: "hoare ?P (seq (upd (\<lambda>h. h\<lparr>eh_starting := False\<rparr>)) (\<lambda>_. seq (dx_unknown xo io (dr_fence r) Sr_execution_interrupted)
      (\<lambda>_. settle_at (Some (Sp_loop (n + 1)))))) (\<lambda>_. ex_inv xo) (ex_inv xo)"
  proof (rule hoare_seq [OF unstarting_triple unknown_then [OF assms _ _ awake_loop]])
    show "awake (h\<lparr>eh_starting := False\<rparr>) \<and> slot_runs s = {dr_fence r}" if "inv_at xo s h" "eh_settling h = Some (Sp_invoke n r)" for s h
      using at_settling [OF that] by (simp add: settle_ok_def awake_def)
    show "past s (dr_fence r) \<and> awake h" if "inv_at xo s h" "awake h \<and> slot_runs s = {dr_fence r}" for s h
      using that slot_runs_past [OF inv_atD(1)] by simp
  qed simp_all
  have go: "hoare ?P (seq (emit (L_start (dr_fence r))) (\<lambda>_. settle_at (Some (Sp_start n r)))) (\<lambda>_. ex_inv xo) (ex_inv xo)"
    unfolding emit_def settle_at_def
  proof (rule hoare_seq [OF hoare_upd [where Q = "\<lambda>_ h. ex_inv xo (h\<lparr>eh_settling := Some (Sp_start n r)\<rparr>)"] hoare_upd])
    fix h
    assume "?P h"
    then obtain s where "inv_at xo s h" "eh_settling h = Some (Sp_invoke n r)" by (auto simp: ex_inv_def)
    from inv_started [OF this] show "ex_inv xo (logged (L_start (dr_fence r)) h\<lparr>eh_settling := Some (Sp_start n r)\<rparr>)"
      by (auto simp: ex_inv_def)
  qed
  show ?thesis unfolding start_invoke_def
    by (rule hoare_seq [OF hoare_ask [where Q = "\<lambda>_. ?P"]], assumption, intro hoare_if lost go)
qed
text \<open>The driver answers, rejects or times out.\<close>

lemma hoare_and: "hoare (snap_at xo (\<lambda>_. G)) m Q E \<Longrightarrow> hoare (\<lambda>h. ex_inv xo h \<and> G h) m Q E"
  by (erule hoare_pre) (auto simp: ex_inv_def snap_at_def)

lemma started_unknown:
  assumes "good_opts xo" "reason \<noteq> Sr_cancel"
  shows "hoare (\<lambda>h. ex_inv xo h \<and> awake h \<and> f \<in> started (eh_log h)) (seq (dx_unknown xo io f reason) (\<lambda>_. settle_at (Some (Sp_loop n))))
    (\<lambda>_. ex_inv xo) (ex_inv xo)"
  by (rule hoare_and, rule unknown_then [OF assms _ awake_loop]) (use started_past in blast)

lemma at_start: "ex_inv xo h \<and> eh_settling h = Some (Sp_start n r) \<Longrightarrow> ex_inv xo h \<and> awake h \<and> dr_fence r \<in> started (eh_log h)"
  using at_settling by (fastforce simp: ex_inv_def settle_ok_def)

lemma started_change_triple:
  assumes "good_opts xo"
  shows "hoare (\<lambda>h. ex_inv xo h \<and> awake h) (change xo io (\<lambda>s. Inr (started_edit f s))) (\<lambda>_ h. ex_inv xo h \<and> awake h) (ex_inv xo)"
proof -
  have "hoare (snap_at xo (\<lambda>_. awake)) (change xo io (\<lambda>s. Inr (started_edit f s)))
      (\<lambda>b. if b then snap_at xo (\<lambda>_. awake) else snap_at xo (\<lambda>_. awake)) (ex_inv xo)"
    by (rule change_triple [OF assms]) (use started_allowed [OF inv_atD(1)] in \<open>auto simp: store_free_def\<close>)
  then have "hoare (snap_at xo (\<lambda>_. awake)) (change xo io (\<lambda>s. Inr (started_edit f s))) (\<lambda>_. snap_at xo (\<lambda>_. awake)) (ex_inv xo)" by simp
  then show ?thesis by (rule hoare_conseq) (auto simp: ex_inv_def snap_at_def)
qed

lemma start_answered_triple:
  assumes "good_opts xo"
  shows "hoare (\<lambda>h. ex_inv xo h \<and> eh_settling h = Some (Sp_start n r)) (start_answered xo io n r answer) (\<lambda>_. ex_inv xo) (ex_inv xo)"
proof (rule hoare_pre [OF _ at_start])
  let ?A = "\<lambda>h. ex_inv xo h \<and> awake h \<and> dr_fence r \<in> started (eh_log h)"
  let ?O = "\<lambda>i h. ex_inv xo h \<and> awake h \<and> own_handle h i (dr_fence r)"
  have unstarting: "hoare ?A (upd (\<lambda>h. h\<lparr>eh_starting := False\<rparr>) :: unit proc) (\<lambda>_. ?A) (ex_inv xo)"
    by (rule hoare_upd) (simp add: ex_inv_steps(9) awake_def)
  have late: "hoare ?A (upd (\<lambda>h. h\<lparr>eh_late := eh_late h @ [Lp_wait r]\<rparr>) :: unit proc) (\<lambda>_. ?A) (ex_inv xo)"
  proof (rule hoare_upd)
    fix h :: ex_host
    let ?h = "h\<lparr>eh_late := eh_late h @ [Lp_wait r]\<rparr>"
    assume a: "?A h"
    then obtain s where s: "inv_at xo s h" by (auto simp: ex_inv_def)
    have "own_handle ?h = own_handle h" "invoking ?h = invoking h" by (simp_all add: fun_eq_iff own_handle_def invoking_def)
    with s a have "inv_at xo s ?h"
      by (simp add: inv_at_def recover_ok_def modes_ok_def awake_def late_ok_def db_ok_cong [of ?h h])
    with a show "?A ?h" by (auto simp: ex_inv_def awake_def)
  qed
  have fault: "hoare (?O i) (seq (quiesce i) (\<lambda>_. settle_at (Some (Sp_fault_stop i)))) (\<lambda>_. ex_inv xo) (ex_inv xo)" for i
    by (rule hoare_seq [OF hoare_pre [OF quiesce_triple [where G = awake and xo = xo]] settle_at_triple]) simp_all
  have ok: "hoare (?O i) (seq (change xo io (\<lambda>s. Inr (started_edit (dr_fence r) s))) (\<lambda>_. settle_at (Some (Sp_loop (n + 1))))) (\<lambda>_. ex_inv xo) (ex_inv xo)" for i
    by (rule hoare_seq [OF hoare_pre [OF started_change_triple [OF assms]] awake_loop]) simp
  have check: "hoare (?O i) (seq (ask eh_faulted) (\<lambda>faulted.
      if faulted then seq (quiesce i) (\<lambda>_. settle_at (Some (Sp_fault_stop i)))
      else seq (change xo io (\<lambda>s. Inr (started_edit (dr_fence r) s))) (\<lambda>_. settle_at (Some (Sp_loop (n + 1)))))) (\<lambda>_. ex_inv xo) (ex_inv xo)" for i
    by (rule hoare_seq [OF hoare_ask [where Q = "\<lambda>_. ?O i"]], assumption, intro hoare_if fault ok)
  show "hoare ?A (start_answered xo io n r answer) (\<lambda>_. ex_inv xo) (ex_inv xo)"
  proof (cases answer)
    case (Sa_handle hf)
    then show ?thesis unfolding start_answered_def start_answer.case
      using hoare_seq [OF unstarting hoare_seq [OF attach_triple [OF attach_free_intros(2)] check]] by simp
  next
    case Sa_rejected
    then show ?thesis unfolding start_answered_def
      using hoare_seq [OF unstarting started_unknown [OF assms, of Sr_execution_interrupted]] by simp
  next
    case Sa_timeout
    then show ?thesis unfolding start_answered_def
      using hoare_seq [OF late started_unknown [OF assms, of Sr_driver_start_timeout]] by simp
  qed
qed

section \<open>The other continuations of settle\<close>

lemma prepared_triple:
  assumes "good_opts xo"
  shows "hoare (\<lambda>h. ex_inv xo h \<and> eh_settling h = Some (Sp_prepare n r)) (prepared xo io n r ok) (\<lambda>_. ex_inv xo) (ex_inv xo)"
proof -
  let ?P = "\<lambda>s h. eh_settling h = Some (Sp_prepare n r)"
  have free: "can_free h (dr_fence r) \<and> awake h" if "inv_at xo s h" "?P s h" for s h
    using at_settling [OF that] that(2) running_started [of "eh_log h"] by (auto simp: settle_ok_def can_free_def invoking_def)
  have "hoare (snap_at xo ?P) (prepared xo io n r ok) (\<lambda>_. ex_inv xo) (ex_inv xo)"
  proof (cases ok)
    case True
    then show ?thesis unfolding prepared_def
      using free by (auto simp: snap_at_def ex_inv_def intro!: hoare_pre [OF start_commit_triple [OF assms]])
  next
    case False
    then show ?thesis unfolding prepared_def using finish_then [OF assms failed_valid free awake_release, of ?P] by simp
  qed
  then show ?thesis by (rule hoare_and)
qed

lemma quiet_settled:
  assumes "inv_at xo s h" "own_handle h i f" "lv_quiet (eh_heap h ! i) = Q_done oc"
  shows "settled_run (eh_log h) f oc"
proof -
  have l: "i < length (eh_heap h)" "lv_own (eh_heap h ! i)" "lv_fence (eh_heap h ! i) = f" using assms(2) by (simp_all add: own_handle_def)
  with inv_atD(6) [OF assms(1)] have "lv_ok (eh_log h) (eh_faulted h) (eh_heap h ! i)" by (simp add: list_all_length)
  with l assms(3) show ?thesis by (auto simp: lv_ok_def settled_run_def proofs_def)
qed

lemma stop_resumed_triple:
  assumes "good_opts xo"
  shows "hoare (\<lambda>h. ex_inv xo h \<and> eh_settling h = Some (Sp_stop n r i)) (stop_resumed xo io n r i) (\<lambda>_. ex_inv xo) (ex_inv xo)"
proof -
  let ?f = "dr_fence r"
  let ?A = "\<lambda>q s h. awake h \<and> own_handle h i ?f \<and> lv_quiet (eh_heap h ! i) = q"
  have look: "hoare (\<lambda>h. ex_inv xo h \<and> eh_settling h = Some (Sp_stop n r i)) (ask (\<lambda>h. lv_quiet (eh_heap h ! i)) :: quiet proc) (\<lambda>q. snap_at xo (?A q)) (ex_inv xo)"
    by (rule hoare_ask) (use at_settling in \<open>fastforce simp: ex_inv_def snap_at_def settle_ok_def\<close>)
  have fin: "hoare (snap_at xo (?A (Q_done oc))) (publishAndFinish xo io ?f oc
        (settle_at (Some (Sp_publish n ?f oc))) (settle_at (Some (Sp_release n)))) (\<lambda>_. ex_inv xo) (ex_inv xo)" for oc
    by (rule hoare_pre [OF settle_publish [OF assms]]) (use quiet_settled in \<open>auto simp: snap_at_def ex_inv_def\<close>)
  have lost: "hoare (snap_at xo (?A q)) (seq (dx_unknown xo io ?f Sr_execution_interrupted) (\<lambda>_. settle_at (Some (Sp_loop (n + 1))))) (\<lambda>_. ex_inv xo) (ex_inv xo)" for q
    by (rule unknown_then [OF assms _ _ awake_loop]) (use own_started(2) in auto)
  have "hoare (snap_at xo (?A q)) (case q of
        Q_done oc \<Rightarrow> publishAndFinish xo io ?f oc (settle_at (Some (Sp_publish n ?f oc))) (settle_at (Some (Sp_release n)))
      | _ \<Rightarrow> seq (dx_unknown xo io ?f Sr_execution_interrupted) (\<lambda>_. settle_at (Some (Sp_loop (n + 1))))) (\<lambda>_. ex_inv xo) (ex_inv xo)" for q
    using lost [of q] fin by (cases q) simp_all
  then show ?thesis unfolding stop_resumed_def by (rule hoare_seq [OF look])
qed

lemma settle_published_triple:
  assumes "good_opts xo"
  shows "hoare (\<lambda>h. ex_inv xo h \<and> eh_settling h = Some (Sp_publish n f oc)) (published xo io f answer (settle_at (Some (Sp_release n)))) (\<lambda>_. ex_inv xo) (ex_inv xo)"
  by (rule hoare_pre [OF published_triple [where G = awake, OF assms _ awake_release]])
    (use at_settling in \<open>fastforce simp: ex_inv_def settle_ok_def\<close>)+

section \<open>Late starts\<close>

lemma inv_late:
  assumes "inv_at xo s h" "list_all (late_ok (eh_log h) (own_handle h)) ls"
  shows "inv_at xo s (h\<lparr>eh_late := ls\<rparr>)"
proof -
  let ?h = "h\<lparr>eh_late := ls\<rparr>"
  have "own_handle ?h = own_handle h" "invoking ?h = invoking h" by (simp_all add: fun_eq_iff own_handle_def invoking_def)
  with assms show ?thesis by (simp add: inv_at_def recover_ok_def modes_ok_def awake_def db_ok_cong [of ?h h])
qed

lemma late_at_triple:
  assumes "\<And>h. P h \<Longrightarrow> ex_inv xo h \<and> late_ok (eh_log h) (own_handle h) pc"
  shows "hoare P (late_at k pc) (\<lambda>_. ex_inv xo) E"
  unfolding late_at_def
proof (rule hoare_upd)
  fix h
  assume p: "P h"
  with assms obtain s where s: "inv_at xo s h" by (auto simp: ex_inv_def)
  have "list_all (late_ok (eh_log h) (own_handle h)) ((eh_late h)[k := pc])"
    using inv_atD(7) [OF s] assms [OF p] set_update_subset_insert [of "eh_late h" k pc] by (auto simp: list_all_iff)
  from inv_late [OF s this] show "ex_inv xo (h\<lparr>eh_late := (eh_late h)[k := pc]\<rparr>)" by (auto simp: ex_inv_def)
qed

lemma late_end_triple: "hoare (ex_inv xo) (late_end k) (\<lambda>_. ex_inv xo) E"
  unfolding late_end_def
proof (rule hoare_upd)
  fix h :: ex_host
  let ?ls = "take k (eh_late h) @ drop (Suc k) (eh_late h)"
  assume "ex_inv xo h"
  then obtain s where s: "inv_at xo s h" by (auto simp: ex_inv_def)
  have "list_all (late_ok (eh_log h) (own_handle h)) ?ls"
    using inv_atD(7) [OF s] set_take_subset [of k "eh_late h"] set_drop_subset [of "Suc k" "eh_late h"] by (auto simp: list_all_iff)
  from inv_flags(4) [OF inv_late [OF s this]] show "ex_inv xo (h\<lparr>eh_late := ?ls, eh_starting := False\<rparr>)" by (auto simp: ex_inv_def)
qed

lemma late_guard_triple:
  assumes "hoare P m (\<lambda>_. ex_inv xo) (ex_inv xo)"
  shows "hoare P (late_guard k m) (\<lambda>_. ex_inv xo) (ex_inv xo)"
  unfolding late_guard_def
  by (rule hoare_catching [OF assms], rule hoare_seq [OF late_end_triple], rule hoare_conseq [OF failClosed_triple [of xo]]) simp_all

definition late_is :: "nat \<Rightarrow> late_pc \<Rightarrow> ex_host \<Rightarrow> bool" where
  "late_is k pc h \<longleftrightarrow> k < length (eh_late h) \<and> eh_late h ! k = pc"

lemma late_is_ok: "inv_at xo s h \<Longrightarrow> late_is k pc h \<Longrightarrow> late_ok (eh_log h) (own_handle h) pc"
  using inv_atD(7) by (fastforce simp: late_is_def list_all_length)

lemma late_answered_triple:
  assumes "good_opts xo"
  shows "hoare (\<lambda>h. ex_inv xo h \<and> late_is k (Lp_wait r) h) (late_answered xo io k r answer) (\<lambda>_. ex_inv xo) (ex_inv xo)"
proof (cases answer)
  case None
  have "hoare (\<lambda>h. ex_inv xo h \<and> late_is k (Lp_wait r) h) (late_end k) (\<lambda>_. ex_inv xo) (ex_inv xo)"
    by (rule hoare_pre [OF late_end_triple]) simp
  with None show ?thesis by (simp add: late_answered_def)
next
  case (Some hf)
  have a: "hoare (\<lambda>h. ex_inv xo h \<and> late_is k (Lp_wait r) h) (dx_attach r hf) (\<lambda>i h. ex_inv xo h \<and> own_handle h i (dr_fence r)) (ex_inv xo)"
    by (rule hoare_conseq [OF attach_triple [OF attach_free_intros(1)]]) (use late_is_ok in \<open>fastforce simp: ex_inv_def late_ok_def\<close>)+
  have sf: "stop_free (\<lambda>h. own_handle h i f)" for i f
    by (auto simp: stop_free_def own_handle_def upd_live_def nth_list_update)
  have "hoare (\<lambda>h. ex_inv xo h \<and> own_handle h i (dr_fence r)) (seq (quiesce i) (\<lambda>_. late_at k (Lp_stop r i))) (\<lambda>_. ex_inv xo) (ex_inv xo)" for i
    by (rule hoare_seq [OF quiesce_triple [OF sf] late_at_triple]) (simp add: late_ok_def)
  with Some show ?thesis unfolding late_answered_def by (simp add: late_guard_triple hoare_seq [OF a])
qed

lemma late_publish:
  assumes "good_opts xo"
  shows "hoare (\<lambda>h. ex_inv xo h \<and> settled_run (eh_log h) f oc)
    (publishAndFinish xo io f oc (late_at k (Lp_publish f oc)) (late_at k Lp_release)) (\<lambda>_. ex_inv xo) (ex_inv xo)"
  by (rule hoare_pre [OF publish_triple [where G = "\<lambda>_. True", OF assms _ late_at_triple late_at_triple]]) (simp_all add: late_ok_def)

lemma late_resumed_triple:
  assumes "good_opts xo"
  shows "hoare (\<lambda>h. ex_inv xo h \<and> late_is k (Lp_stop r i) h) (late_resumed xo io k r i) (\<lambda>_. ex_inv xo) (ex_inv xo)"
  unfolding late_resumed_def
proof (intro late_guard_triple hoare_seq)
  let ?f = "dr_fence r"
  let ?A = "\<lambda>q s h. own_handle h i ?f \<and> lv_quiet (eh_heap h ! i) = q"
  show "hoare (\<lambda>h. ex_inv xo h \<and> late_is k (Lp_stop r i) h) (ask (\<lambda>h. (lv_quiet (eh_heap h ! i), eh_faulted h)) :: (quiet \<times> bool) proc) (\<lambda>x. snap_at xo (?A (fst x))) (ex_inv xo)"
    by (rule hoare_ask) (use late_is_ok in \<open>fastforce simp: ex_inv_def snap_at_def late_ok_def\<close>)
  have fin: "hoare (snap_at xo (?A (Q_done oc))) (publishAndFinish xo io ?f oc (late_at k (Lp_publish ?f oc)) (late_at k Lp_release)) (\<lambda>_. ex_inv xo) (ex_inv xo)" for oc
    by (rule hoare_pre [OF late_publish [OF assms]]) (use quiet_settled in \<open>auto simp: snap_at_def ex_inv_def\<close>)
  have over: "hoare (snap_at xo (?A q)) (late_end k) (\<lambda>_. ex_inv xo) (ex_inv xo)" for q
    by (rule hoare_pre [OF late_end_triple]) (rule snap_at_inv)
  have lost: "hoare (snap_at xo (?A q)) (seq (dx_unknown xo io ?f Sr_driver_start_timeout) (\<lambda>_. late_end k)) (\<lambda>_. ex_inv xo) (ex_inv xo)" for q
    by (rule hoare_seq [OF hoare_snap [OF unknown_triple [where G = "\<lambda>_. True", OF assms]] hoare_pre [OF late_end_triple]])
      (use own_started(2) in auto)
  show "hoare (snap_at xo (?A (fst x))) (case x of (q, faulted) \<Rightarrow> if faulted then late_end k else
      (case q of
         Q_done oc \<Rightarrow> publishAndFinish xo io ?f oc (late_at k (Lp_publish ?f oc)) (late_at k Lp_release)
       | _ \<Rightarrow> seq (dx_unknown xo io ?f Sr_driver_start_timeout) (\<lambda>_. late_end k))) (\<lambda>_. ex_inv xo) (ex_inv xo)" for x
    using over [of "fst x"] lost [of "fst x"] fin by (cases x; cases "fst x") simp_all
qed

lemma late_published_triple:
  assumes "good_opts xo"
  shows "hoare (\<lambda>h. ex_inv xo h \<and> late_is k (Lp_publish f oc) h) (late_guard k (published xo io f answer (late_at k Lp_release))) (\<lambda>_. ex_inv xo) (ex_inv xo)"
  by (intro late_guard_triple hoare_pre [OF published_triple [where G = "\<lambda>_. True", OF assms _ late_at_triple]])
    (use late_is_ok in \<open>fastforce simp: late_ok_def ex_inv_def\<close>)+

lemma late_released_triple:
  assumes "good_opts xo"
  shows "hoare (ex_inv xo) (late_guard k (seq (completeOldEffects xo io) (\<lambda>_. late_end k))) (\<lambda>_. ex_inv xo) (ex_inv xo)"
proof -
  have "hoare (ex_inv xo) (completeOldEffects xo io) (\<lambda>_. ex_inv xo) (ex_inv xo)"
    using oldEffects_triple [OF assms, of "\<lambda>_ _. True"] by (simp add: store_free_def flip: ex_inv_snap)
  then show ?thesis by (rule late_guard_triple [OF hoare_seq]) (rule late_end_triple)
qed

section \<open>Closing\<close>

lemma rethrow_triple: "hoare (ex_inv xo) (seq quiesce_live (\<lambda>_. throw e)) Q (ex_inv xo)"
  by (rule hoare_seq [OF hoare_pre [OF quiesce_live_triple [where G = "\<lambda>_. True"]] hoare_throw]) auto

lemma close_triple:
  assumes "good_opts xo" "good_io io"
  shows "hoare (ex_inv xo) (dx_close xo io) (\<lambda>_. ex_inv xo) (ex_inv xo)"
proof -
  let ?I = "ex_inv xo"
  have c: "hoare (snap_at xo (\<lambda>_ _. True)) (change xo io (\<lambda>s. Inr (close_edit s)))
      (\<lambda>b. if b then snap_at xo (\<lambda>_ _. True) else snap_at xo (\<lambda>_ _. True)) ?I"
    by (rule change_triple [OF assms(1)]) (use close_allowed [OF inv_atD(1)] in \<open>auto simp: store_free_def\<close>)
  then have c: "hoare ?I (seq (change xo io (\<lambda>s. Inr (close_edit s))) (\<lambda>_. ret ())) (\<lambda>_. ?I) ?I"
    by (intro hoare_seq [OF _ hoare_ret]) (simp_all flip: ex_inv_snap)
  have h: "hoare ?I assertHealthy (\<lambda>_. ?I) ?I"
    by (rule hoare_conseq [OF assertHealthy_triple [where P = ?I and E = ?I]]) simp_all
  have u: "hoare ?I (upd (\<lambda>h. h\<lparr>eh_closing := True\<rparr>) :: unit proc) (\<lambda>_. ?I) ?I" by (rule hoare_upd) (rule ex_inv_steps)
  show ?thesis unfolding dx_close_def
    by (intro hoare_seq [OF u] hoare_catching [OF hoare_seq [OF checked_triple [OF hoare_seq [OF h c]] settle_triple [OF assms]]] rethrow_triple)
qed

lemma close_settled_triple:
  assumes "good_opts xo"
  shows "hoare (ex_inv xo) (close_settled xo io) (\<lambda>_. ex_inv xo) (ex_inv xo)"
proof -
  let ?I = "ex_inv xo"
  have s: "hoare ?I (checked (the_slot xo io)) (\<lambda>_. ?I) ?I"
  proof (rule checked_triple)
    have "hoare (snap_at xo (\<lambda>_ _. True)) (the_slot xo io) (\<lambda>slot. snap_at xo (\<lambda>s h. True \<and> slot = sn_slot s)) ?I"
      by (rule the_slot_triple [OF assms]) (simp add: store_free_def)
    then show "hoare ?I (the_slot xo io) (\<lambda>_. ?I) ?I"
      by (rule hoare_conseq) (auto simp: ex_inv_snap snap_at_def)
  qed
  have t: "hoare ?I (if slot \<noteq> None \<or> busy then throw Xe_closure_unconfirmed else ret ()) (\<lambda>_. ?I) ?I" for slot :: "durable_run option" and busy
    by (intro hoare_if hoare_throw hoare_ret)
  show ?thesis unfolding close_settled_def
    by (rule hoare_catching [OF hoare_seq [OF s hoare_seq [OF hoare_ask [where Q = "\<lambda>_. ?I"] t]] rethrow_triple])
qed

section \<open>Messages\<close>

lemma nr_consume_ids: "nr_consume cf db rq t = Inr r \<Longrightarrow> isUuidStr (cr_fromNode rq) \<and> isUuidStr (cr_msgId rq)"
  by (auto simp: nr_consume_def)

text \<open>A consumption of the executor's own key either leaves its row or commits what the message does.\<close>

lemma consume_durable:
  assumes "nr_consume cf db rq t = Inr (db1, res)"
  shows "map_of (nd_state db1) (cr_stateKey rq) = map_of (nd_state db) (cr_stateKey rq) \<or>
    (\<exists>env st result n db3. t env st = Inr result \<and> committed cf (cr_stateKey rq) n result db3 \<and> nd_state db1 = nd_state db3)"
  using assms
proof (cases rule: nr_consume_cases)
  case (now row v en db2 db3 status n)
  have same: "nd_state db2 = nd_state db" using r1_gate_effs(3) [where P = "\<lambda>_. True", OF now(6,3,9,7)] by simp
  show ?thesis
  proof (cases "status = Applied")
    case True
    with now(10) obtain st result where r: "t (rn_env en) st = Inr result"
      "applyTransition cf db2 (cr_stateKey rq) (revision db (cr_stateKey rq)) result = Inr (db3, n)" by auto
    have "nd_state db1 = nd_state db3" using now(11) by simp
    with applyTransition_committed(1) [OF r(2)] r(1) show ?thesis by blast
  qed (use now(10,11) same in simp)
qed simp_all

lemma consume_call_triple:
  assumes "good_opts xo" "good_io io"
    and m: "handle_message xo io b env auth s0 = Inr ((s1, out), effs)"
    and rq: "cr_stateKey rq = STATE_KEY" "cr_fromNode rq = e_from_node (envelopeOf env)" "cr_msgId rq = e_msg_id (envelopeOf env)"
    and t: "\<And>env1 st r. t env1 st = Inr r \<Longrightarrow> r = transition_json xo s1 out effs"
  shows "hoare (snap_at xo (\<lambda>s h. s = s0)) (rt_call xo io (Op_consume rq t)) (\<lambda>_. ex_inv xo) (ex_inv xo)"
proof -
  have main: "ex_inv xo h1" if p: "inv_at xo s0 h" and c: "rt_call xo io (Op_consume rq t) h = (h1, r)" for h h1 r
    using c
  proof (cases rule: rt_call_cases)
    case (err st e)
    with inv_same_db [OF p] show ?thesis by (auto simp: ex_inv_def)
  next
    case (ok st o1)
    have db: "db_ok xo h s0" using p by (simp add: inv_at_def)
    from ok(3) obtain res where n: "nr_consume (xo_cfg xo) (db_of h) rq t = Inr (st_db st, res)" by (auto simp: with_out_Inr)
    have a: "validSnapshot s1" "allowed h s0 s1" "effects_clean effs"
      using message_allowed [OF inv_atD(1) [OF p] m assms(2,1)] nr_consume_ids [OF n] rq by simp_all
    have keys: "op_keys (nc_codec (xo_cfg xo)) clean (Op_consume rq t)"
      unfolding op_keys.simps using clean_state_key(1) rq(1) t transition_names [OF assms(1) a(3)] by metis
    have inv: "rt_inv (xo_cfg xo) (st_db st)"
      using call_inv [OF assms(1) _ ok(3) keys] db by (simp add: db_ok_def)
    from consume_durable [OF n] show ?thesis
    proof
      assume "map_of (nd_state (st_db st)) (cr_stateKey rq) = map_of (nd_state (db_of h)) (cr_stateKey rq)"
      then have "durable xo (st_db st) = durable xo (db_of h)" using rq(1) by (intro durable_cong) simp
      then have "db_ok xo (h\<lparr>eh_store := st, eh_calls := eh_calls h + 1\<rparr>) s0" using db inv by (simp add: db_ok_def)
      from inv_store [OF p this allowed_refl] ok(2) show ?thesis by (auto simp: ex_inv_def)
    next
      assume "\<exists>env1 st1 result n db3. t env1 st1 = Inr result \<and> committed (xo_cfg xo) (cr_stateKey rq) n result db3 \<and>
        nd_state (st_db st) = nd_state db3"
      then obtain n db3 where c: "committed (xo_cfg xo) STATE_KEY n (transition_json xo s1 out effs) db3" "nd_state (st_db st) = nd_state db3"
        using t rq(1) by metis
      let ?s = "stored_snapshot (nc_codec (xo_cfg xo)) s1"
      have "durable xo (st_db st) = durable xo db3" by (rule durable_cong) (simp add: c(2))
      then have "durable xo (st_db st) = Some ?s" using committed_durable [OF assms(1) a(1) c(1)] by simp
      then have "db_ok xo (h\<lparr>eh_store := st, eh_calls := eh_calls h + 1\<rparr>) ?s"
        using inv validSnapshot_stored [OF good_optsD(2) [OF assms(1)] a(1)] by (simp add: db_ok_def)
      from inv_store [OF p this] a(2) ok(2) show ?thesis by (auto simp: ex_inv_def)
    qed
  qed
  show ?thesis by (rule hoareI) (use main in \<open>auto simp: snap_at_def\<close>)
qed

lemma consume_triple:
  assumes "good_opts xo" "good_io io"
  shows "hoare (ex_inv xo) (dx_consume xo io env auth) (\<lambda>_. ex_inv xo) (ex_inv xo)"
proof -
  let ?I = "ex_inv xo"
  let ?rq = "\<lambda>n. \<lparr>cr_fromNode = e_from_node (envelopeOf env), cr_msgId = e_msg_id (envelopeOf env), cr_stateKey = STATE_KEY, cr_expectedRevision = of_nat n\<rparr>"
  let ?t = "\<lambda>s1 outbox effects env1 (_ :: rt_state option). if cd_sha (nc_codec (xo_cfg xo)) (cd_jcs (nc_codec (xo_cfg xo)) env1) \<noteq>
      cd_sha (nc_codec (xo_cfg xo)) (cd_jcs (nc_codec (xo_cfg xo)) env) then Inl (Domain_error Rc_conflict) else Inr (transition_json xo s1 outbox effects)"
  let ?go = "\<lambda>n. \<lambda>((s1, outbox), effects). seq (rt_call xo io (Op_consume (?rq n) (?t s1 outbox effects))) (\<lambda>_. ret ())"
  have h: "hoare ?I assertHealthy (\<lambda>_. snap_at xo (\<lambda>_ _. True)) ?I"
    by (rule hoare_conseq [OF assertHealthy_triple [where P = ?I and E = ?I]]) (simp_all flip: ex_inv_snap)
  have sf: "store_free (\<lambda>_ _. True)" by (simp add: store_free_def)
  have body: "hoare (snap_at xo (\<lambda>s h. s = s0)) (seq (lift (handle_message xo io b env auth s0)) (?go n)) (\<lambda>_. ?I) ?I" for n s0 b
  proof (cases "handle_message xo io b env auth s0")
    case (Inl e)
    then show ?thesis by (auto simp: hoare_def seq_def lift_def intro: snap_at_inv)
  next
    case (Inr x)
    obtain s1 out effs where x: "x = ((s1, out), effs)" by (metis surj_pair)
    have "hoare (snap_at xo (\<lambda>s h. s = s0)) (?go n x) (\<lambda>_. ?I) ?I"
      unfolding x prod.case
      by (rule hoare_seq [OF consume_call_triple [OF assms Inr [unfolded x]]]) (simp_all add: hoare_ret split: if_splits)
    then show ?thesis unfolding Inr by (simp add: hoare_def seq_def lift_def)
  qed
  have look: "hoare (snap_at xo (\<lambda>s h. True \<and> s = s0)) (seq (ask (\<lambda>h. eh_ready h \<and> \<not> eh_closing h)) (\<lambda>b.
      seq (lift (handle_message xo io b env auth s0)) (?go n))) (\<lambda>_. ?I) ?I" for n s0
    by (rule hoare_seq [OF hoare_ask [where Q = "\<lambda>_. snap_at xo (\<lambda>s h. s = s0)"] body]) simp
  show ?thesis
    unfolding dx_consume_def Let_def
  proof (intro checked_triple hoare_seq [OF h] hoare_seq [OF read_state_triple [OF assms(1) sf]])
    fix x :: "nat \<times> exec_snapshot"
    obtain n s0 where x: "x = (n, s0)" by fastforce
    show "hoare (snap_at xo (\<lambda>s h. True \<and> s = snd x)) (case x of (n, s) \<Rightarrow> seq (ask (\<lambda>h. eh_ready h \<and> \<not> eh_closing h)) (\<lambda>b.
      seq (lift (handle_message xo io b env auth s)) (?go n))) (\<lambda>_. ?I) ?I"
      unfolding x prod.case snd_conv by (rule look)
  qed
qed

section \<open>Promises of the handles\<close>

lemma live_ok: "inv_at xo s h \<Longrightarrow> i < length (eh_heap h) \<Longrightarrow> lv_ok (eh_log h) (eh_faulted h) (eh_heap h ! i)"
  using inv_atD(6) by (simp add: list_all_length)

lemma inv_proved:
  assumes "inv_at xo s h" "i < length (eh_heap h)"
    and "\<And>lv. lv_own (f lv) = lv_own lv \<and> lv_fence (f lv) = lv_fence lv"
    and "\<forall>oc \<in> proofs (f (eh_heap h ! i)). validOutcome oc"
  shows "ex_inv xo ((upd_live i f h)\<lparr>eh_log := eh_log h @ (if lv_own (eh_heap h ! i) then [L_quiet (lv_fence (eh_heap h ! i))] else [])\<rparr>)"
proof -
  let ?lv = "eh_heap h ! i"
  let ?h = "h\<lparr>eh_log := eh_log h @ (if lv_own ?lv then [L_quiet (lv_fence ?lv)] else [])\<rparr>"
  have s: "inv_at xo s ?h" using assms(1) inv_logged [OF assms(1), of "L_quiet (lv_fence ?lv)"] by auto
  have "lv_ok (eh_log ?h) (eh_faulted ?h) (f (eh_heap ?h ! i))"
    using live_ok [OF s] assms(2-4) by (simp add: lv_ok_def)
  with inv_heap [OF s _ assms(3)] have "inv_at xo s (upd_live i f ?h)" by blast
  moreover have "upd_live i f ?h = (upd_live i f h)\<lparr>eh_log := eh_log ?h\<rparr>" using assms(2) by (simp add: upd_live_def)
  ultimately show ?thesis by (auto simp: ex_inv_def)
qed

lemma inv_fewer:
  assumes "ex_inv xo h" "\<And>lv. lv_own (f lv) = lv_own lv \<and> lv_fence (f lv) = lv_fence lv" "i < length (eh_heap h) \<Longrightarrow> proofs (f (eh_heap h ! i)) \<subseteq> proofs (eh_heap h ! i)"
  shows "ex_inv xo (upd_live i f h)"
proof -
  from assms(1) obtain s where s: "inv_at xo s h" by (auto simp: ex_inv_def)
  have "lv_ok (eh_log h) (eh_faulted h) (f (eh_heap h ! i))" if i: "i < length (eh_heap h)"
    using live_ok [OF s i] assms(2) [of "eh_heap h ! i"] assms(3) [OF i] by (auto simp: lv_ok_def)
  from inv_heap [OF s this assms(2)] show ?thesis by (auto simp: ex_inv_def)
qed

lemma closed_inv:
  assumes "ex_inv xo h"
  shows "ex_inv xo (handle_closed i answer h)"
proof (cases "i < length (eh_heap h) \<and> lv_closed (eh_heap h ! i) = None")
  case False
  with assms show ?thesis by (auto simp: handle_closed_def)
next
  case True
  let ?oc = "case answer of Some x \<Rightarrow> if validOutcome x then Some x else None | None \<Rightarrow> None"
  from assms obtain s where s: "inv_at xo s h" by (auto simp: ex_inv_def)
  show ?thesis
  proof (cases ?oc)
    case None
    have "ex_inv xo (upd_live i (\<lambda>lv. lv\<lparr>lv_closed := Some None\<rparr>) h)"
      by (rule inv_fewer [OF assms]) (auto simp: proofs_def)
    with True None show ?thesis by (simp add: handle_closed_def Let_def)
  next
    case (Some x)
    then have "validOutcome x" by (auto split: option.splits if_splits)
    with live_ok [OF s] True have "\<forall>oc \<in> proofs ((eh_heap h ! i)\<lparr>lv_closed := Some (Some x), lv_outcome := Some x\<rparr>). validOutcome oc"
      by (auto simp: proofs_def lv_ok_def)
    with inv_proved [OF s, where f = "\<lambda>lv. lv\<lparr>lv_closed := Some (Some x), lv_outcome := Some x\<rparr>"] True Some show ?thesis by (simp add: handle_closed_def Let_def)
  qed
qed

lemma stopped_inv:
  assumes "ex_inv xo h"
  shows "ex_inv xo (handle_stopped i ok h)"
proof (cases "i < length (eh_heap h)")
  case False
  with assms show ?thesis by (simp add: handle_stopped_def)
next
  case True
  from assms obtain s where s: "inv_at xo s h" by (auto simp: ex_inv_def)
  let ?lv = "eh_heap h ! i"
  let ?keep = "\<lambda>lv. lv\<lparr>lv_outcome := (case lv_outcome lv of None \<Rightarrow> Some (failed ''stopped'') | Some x \<Rightarrow> Some x)\<rparr>"
  have v: "\<forall>oc \<in> proofs ?lv. validOutcome oc" using live_ok [OF s True] by (simp add: lv_ok_def)
  have k: "\<forall>oc \<in> proofs (?keep ?lv). validOutcome oc" "\<forall>oc \<in> proofs ((?keep ?lv)\<lparr>lv_quiet := Q_done (failed ''stopped'')\<rparr>). validOutcome oc"
    using v by (auto simp: proofs_def split: option.splits)
  have "ex_inv xo (upd_live i (\<lambda>lv. lv\<lparr>lv_quiet := Q_failed\<rparr>) h)"
    by (rule inv_fewer [OF assms]) (auto simp: proofs_def)
  with inv_proved [OF s True, where f = ?keep] inv_proved [OF s True, where f = "\<lambda>lv. (?keep lv)\<lparr>lv_quiet := Q_done (failed ''stopped'')\<rparr>"] k True assms
  show ?thesis by (cases "lv_own ?lv") (simp_all add: handle_stopped_def Let_def split: quiet.splits)
qed

lemma race_inv: "ex_inv xo h \<Longrightarrow> ex_inv xo (handle_race i h)"
  unfolding handle_race_def
  by (auto split: option.splits intro!: inv_fewer simp: proofs_def)

lemma lapsed_inv: "ex_inv xo h \<Longrightarrow> ex_inv xo (handle_lapsed i h)"
  unfolding handle_lapsed_def by (auto intro!: inv_fewer simp: proofs_def)

section \<open>Other components and crashes\<close>

lemma foreign_triple:
  assumes "good_opts xo" "op_keys (nc_codec (xo_cfg xo)) clean op"
  shows "hoare (ex_inv xo) (if foreign op then seq (rt_call xo io op) (\<lambda>_. ret ()) else ret ()) (\<lambda>_. ex_inv xo) (ex_inv xo)"
proof (intro hoare_if hoare_ret)
  assume f: "foreign op"
  have "hoare (snap_at xo (\<lambda>_ _. True)) (rt_call xo io op) (\<lambda>_. snap_at xo (\<lambda>_ _. True)) (ex_inv xo)"
    by (rule call_triple [OF assms(1) _ f assms(2)]) (simp add: store_free_def)
  then show "hoare (ex_inv xo) (seq (rt_call xo io op) (\<lambda>_. ret ())) (\<lambda>_. ex_inv xo) (ex_inv xo)"
    by (intro hoare_seq [OF _ hoare_ret]) (simp_all flip: ex_inv_snap)
qed

lemma fresh_inv:
  assumes "db_ok xo (fresh_host st n ls) s" "log_ok ls s"
  shows "inv_at xo s (fresh_host st n ls)"
  using assms by (simp add: inv_at_def fresh_host_def settle_ok_def recover_ok_def modes_ok_def)

lemma crash_inv:
  assumes "ex_inv xo h"
  shows "ex_inv xo (fresh_host \<lparr>st_db = db_of h, st_state = Open, st_fault = None\<rparr> n (eh_log h))"
proof -
  from assms obtain s where "db_ok xo h s" "log_ok (eh_log h) s" by (auto simp: ex_inv_def inv_at_def)
  then show ?thesis unfolding ex_inv_def by (intro exI [of _ s] fresh_inv) (simp_all add: db_ok_def fresh_host_def)
qed

section \<open>Every step keeps the invariant\<close>

text \<open>What the environment promises: clocks, ids and seals, and that no other component writes keys with NUL characters.\<close>

definition ev_ok :: "exec_opts \<Rightarrow> exec_io \<times> ex_event \<Rightarrow> bool" where
  "ev_ok xo ev \<longleftrightarrow> good_io (fst ev) \<and> (\<forall>op. snd ev = Ev_store op \<longrightarrow> op_keys (nc_codec (xo_cfg xo)) clean op)"

lemma hoare_here: "hoare (\<lambda>h. ex_inv xo h \<and> G h) m (\<lambda>_. ex_inv xo) (ex_inv xo) \<Longrightarrow> ex_inv xo h \<Longrightarrow> G h \<Longrightarrow> ex_inv xo (fst (m h))"
  unfolding hoare_def by (cases "m h"; cases "snd (m h)") auto

lemmas hoare_now = hoare_here [where G = "\<lambda>_. True", simplified]

lemma throw_triple: "hoare (ex_inv xo) (guarded (throw e)) (\<lambda>_. ex_inv xo) (ex_inv xo)"
  by (rule guarded_triple [OF hoare_throw])

lemma ret_now: "ex_inv xo h \<Longrightarrow> ex_inv xo (fst (ret x h))"
  by (simp add: ret_def)

lemma resume_inv:
  assumes "good_opts xo" "good_io io" "ex_inv xo h"
  shows "ex_inv xo (fst (ex_proc xo io Ev_resume h h))"
proof (cases "eh_settling h")
  case None
  with assms show ?thesis by (simp add: ret_now)
next
  case (Some pc)
  have aw: "awake h" if "pc \<noteq> Sp_recover" using assms(3) Some that by (auto simp: ex_inv_def dest: at_settling)
  note pass = guarded_triple [OF settle_pass_triple [OF assms(1,2)]]
  show ?thesis
  proof (cases pc)
    case Sp_recover
    then show ?thesis
      using Some assms(3) hoare_here [OF pass assms(3)] hoare_now [OF throw_triple assms(3)]
      by (simp add: ret_now awake_def)
  next
    case (Sp_loop n)
    then show ?thesis using Some aw hoare_here [OF pass assms(3)] by simp
  next
    case (Sp_stop n r i)
    then show ?thesis
      using Some assms(3) hoare_here [OF guarded_triple [OF stop_resumed_triple [OF assms(1)]] assms(3)] by (simp add: ret_now)
  next
    case (Sp_fault_stop i)
    then show ?thesis using Some assms(3) hoare_now [OF throw_triple assms(3)] by (simp add: ret_now)
  qed (use Some assms(3) in \<open>simp_all add: ret_now\<close>)
qed

lemma late_inv:
  assumes "good_opts xo" "good_io io" "ex_inv xo h" "ev \<in> {Ev_late_answer k a, Ev_late_resume k, Ev_late_published k c, Ev_late_released k}"
  shows "ex_inv xo (fst (ex_proc xo io ev h h))"
proof (cases "k < length (eh_late h)")
  case False
  with assms(3,4) show ?thesis by (auto simp: ret_now)
next
  case True
  then have at: "late_is k (eh_late h ! k) h" by (simp add: late_is_def)
  note here = hoare_here [OF _ assms(3)]
  show ?thesis
  proof (cases "eh_late h ! k")
    case (Lp_wait r)
    with here [OF late_answered_triple [OF assms(1)]] at True assms(3,4) show ?thesis by (auto simp: ret_now)
  next
    case (Lp_stop r i)
    with here [OF late_resumed_triple [OF assms(1)]] at True assms(3,4) show ?thesis by (auto simp: ret_now)
  next
    case (Lp_publish f oc)
    with here [OF late_published_triple [OF assms(1)]] at True assms(3,4) show ?thesis by (auto simp: ret_now)
  next
    case Lp_release
    with hoare_now [OF late_released_triple [OF assms(1)] assms(3)] True assms(3,4) show ?thesis by (auto simp: ret_now)
  qed
qed

lemma settling_inv:
  assumes "good_opts xo" "good_io io" "ex_inv xo h" "ev \<in> {Ev_prepared ok, Ev_invoke, Ev_start_answer a, Ev_published c, Ev_released}"
  shows "ex_inv xo (fst (ex_proc xo io ev h h))"
proof (cases "eh_settling h")
  case None
  with assms(3,4) show ?thesis by (auto simp: ret_now)
next
  case (Some pc)
  note here = hoare_here [OF _ assms(3)] and in_guard = guarded_triple
  have aw: "awake h" if "pc \<noteq> Sp_recover" using assms(3) Some that by (auto simp: ex_inv_def dest: at_settling)
  show ?thesis
  proof (cases pc)
    case (Sp_prepare n r)
    with here [OF in_guard [OF prepared_triple [OF assms(1)]]] Some assms(3,4) show ?thesis by (auto simp: ret_now)
  next
    case (Sp_invoke n r)
    with here [OF in_guard [OF start_invoke_triple [OF assms(1)]]] Some assms(3,4) show ?thesis by (auto simp: ret_now)
  next
    case (Sp_start n r)
    with here [OF in_guard [OF start_answered_triple [OF assms(1)]]] Some assms(3,4) show ?thesis by (auto simp: ret_now)
  next
    case (Sp_publish n f oc)
    with here [OF in_guard [OF settle_published_triple [OF assms(1)]]] Some assms(3,4) show ?thesis by (auto simp: ret_now)
  next
    case (Sp_release n)
    with hoare_here [OF awake_loop assms(3)] aw Some assms(3,4) show ?thesis by (auto simp: ret_now)
  qed (use Some assms(3,4) in \<open>auto simp: ret_now\<close>)
qed

theorem ex_step_inv:
  assumes "good_opts xo" "ev_ok xo ev" "ex_inv xo h"
  shows "ex_inv xo (ex_step xo h ev)"
proof -
  obtain io e where ev: "ev = (io, e)" by fastforce
  with assms(2) have io: "good_io io" by (simp add: ev_ok_def)
  note now = hoare_now [OF _ assms(3)]
  have "ex_inv xo (fst (ex_proc xo io e h h))"
  proof (cases e)
    case (Ev_recover_answer a)
    show ?thesis
    proof (cases "\<exists>f. eh_recovering h = Some (Rp_driver f)")
      case True
      then obtain f where f: "eh_recovering h = Some (Rp_driver f)" by blast
      from hoare_here [OF recover_answer_triple [OF assms(1)] assms(3) f] f Ev_recover_answer show ?thesis by simp
    next
      case False
      with Ev_recover_answer assms(3) show ?thesis by (simp add: ret_now split: option.splits recover_pc.splits)
    qed
  next
    case Ev_recover
    have "hoare (ex_inv xo) (dx_recover xo io) (\<lambda>_. ex_inv xo) (ex_inv xo)"
      by (rule hoare_conseq [OF recover_triple [OF assms(1)]]) simp_all
    from now [OF this] Ev_recover show ?thesis by simp
  next
    case (Ev_store op)
    then have "op_keys (nc_codec (xo_cfg xo)) clean op" using assms(2) ev by (simp add: ev_ok_def)
    from now [OF foreign_triple [OF assms(1) this]] Ev_store show ?thesis by simp
  next
    case Ev_close_settled
    with now [OF close_settled_triple [OF assms(1)]] assms(3) show ?thesis by (simp add: ret_now)
  next
    case Ev_recover_released
    with now [OF recover_released_triple [OF assms(1)]] assms(3) show ?thesis by (simp add: ret_now)
  next
    case (Ev_prepared x)
    then show ?thesis using settling_inv [OF assms(1) io assms(3), of e] by blast
  next
    case Ev_invoke
    then show ?thesis using settling_inv [OF assms(1) io assms(3), of e] by blast
  next
    case (Ev_start_answer x)
    then show ?thesis using settling_inv [OF assms(1) io assms(3), of e] by blast
  next
    case (Ev_published x)
    then show ?thesis using settling_inv [OF assms(1) io assms(3), of e] by blast
  next
    case Ev_released
    then show ?thesis using settling_inv [OF assms(1) io assms(3), of e] by blast
  next
    case (Ev_late_answer k x)
    then show ?thesis using late_inv [OF assms(1) io assms(3), of e] by blast
  next
    case (Ev_late_resume k)
    then show ?thesis using late_inv [OF assms(1) io assms(3), of e] by blast
  next
    case (Ev_late_published k x)
    then show ?thesis using late_inv [OF assms(1) io assms(3), of e] by blast
  next
    case (Ev_late_released k)
    then show ?thesis using late_inv [OF assms(1) io assms(3), of e] by blast
  qed (use assms(3) now [OF consume_triple [OF assms(1) io]] now [OF tick_triple(1) [OF assms(1) io]]
      now [OF settle_triple [OF assms(1) io]] now [OF close_triple [OF assms(1) io]]
      closed_inv stopped_inv race_inv lapsed_inv crash_inv resume_inv [OF assms(1) io]
      in \<open>simp_all add: upd_def\<close>)
  then show ?thesis by (simp add: ex_step_def ev)
qed

theorem run_inv: "good_opts xo \<Longrightarrow> list_all (ev_ok xo) evs \<Longrightarrow> ex_inv xo h \<Longrightarrow> ex_inv xo (ex_run xo h evs)"
  by (induction evs arbitrary: h) (simp_all add: ex_step_inv)

end
