(* ===== verification/Exec_Theorems.thy ===== *)
theory Exec_Theorems
  imports Exec_Steps
begin

text \<open>
  What the durable executor guarantees over every interleaving of its asynchronous parts, every failure of the
  platform and any number of crashes: one run at a time, a slot that covers whatever may still be working, a state
  that can always be decoded, and an answer that is committed together with the end of a run.
\<close>

section \<open>From a node at rest\<close>

text \<open>
  A database on which the executor can be started first: some history of calls of a new node store, and no run of its
  snapshot may be working. A new database is one.
\<close>

definition at_rest :: "exec_opts \<Rightarrow> node_db \<Rightarrow> bool" where
  "at_rest xo db \<longleftrightarrow> reachable (xo_cfg xo) db \<and> (\<exists>s. durable xo db = Some s \<and> slot_runs s = {})"

text \<open>The host of a first process, and of every later one; a history of events.\<close>

definition history :: "exec_opts \<Rightarrow> node_db \<Rightarrow> (exec_io \<times> ex_event) list \<Rightarrow> ex_host" where
  "history xo db evs = ex_run xo (fresh_host \<lparr>st_db = db, st_state = Open, st_fault = None\<rparr> 0 []) evs"

lemma decode_valid: "decode xo row = Some s \<Longrightarrow> validSnapshot s"
  by (auto simp: decode_def decode_value_def Let_def no_runs_def validSnapshot_def nonnegative_def
      split: option.splits if_splits bind_splits)

lemma new_at_rest:
  assumes "newNodeRuntimeStore (nc_codec (xo_cfg xo)) empty_db (nc_node (xo_cfg xo)) me mb keep = Inr (db, xo_cfg xo)"
  shows "at_rest xo db"
proof -
  have "reachable (xo_cfg xo) db"
    unfolding reachable_def using assms
    by (intro exI [of _ me] exI [of _ mb] exI [of _ keep] exI [of _ "\<lparr>st_db = db, st_state = Open, st_fault = None\<rparr>"] exI [of _ "[]"])
      (simp add: after_def clean_calls_def)
  moreover have "nd_state db = []" using newNodeRuntimeStore_empty(1) [OF assms] by (simp add: empty_db_def)
  then have "durable xo db = Some no_runs" by (simp add: durable_def decode_def)
  ultimately show ?thesis by (simp add: at_rest_def no_runs_def slot_runs_def)
qed

lemma rest_inv:
  assumes "good_opts xo" "at_rest xo db"
  shows "ex_inv xo (fresh_host \<lparr>st_db = db, st_state = Open, st_fault = None\<rparr> n [])"
proof -
  from assms(2) obtain s where s: "reachable (xo_cfg xo) db" "durable xo db = Some s" "slot_runs s = {}" by (auto simp: at_rest_def)
  have "validSnapshot s" using s(2) by (auto simp: durable_def intro: decode_valid)
  with s reachable_inv [OF good_optsD(1) [OF assms(1)] s(1)]
  show ?thesis unfolding ex_inv_def
    by (intro exI [of _ s] fresh_inv) (simp_all add: db_ok_def fresh_host_def log_ok_def exclusive_def)
qed

lemma past_inv: "good_opts xo \<Longrightarrow> at_rest xo db \<Longrightarrow> list_all (ev_ok xo) evs \<Longrightarrow> ex_inv xo (history xo db evs)"
  unfolding history_def by (intro run_inv rest_inv)

section \<open>One run at a time\<close>

text \<open>
  C5: The driver is started for at most one run at a time and at most once per run. In every history of messages,
  timers, driver answers (late ones included), store failures and crashes, when the driver is started for a run,
  every run started before is known to be quiescent, and this run was never started before. This is what a crashed
  and recovered executor must keep: no run is executed twice, and no two runs share the workspace.
\<close>

theorem one_run_at_a_time:
  assumes "good_opts xo" "at_rest xo db" "list_all (ev_ok xo) evs"
    and "eh_log (history xo db evs) = calls @ L_start f # later"
  shows "running calls = {} \<and> f \<notin> started calls"
  using past_inv [OF assms(1-3)] assms(4) by (auto simp: ex_inv_def inv_at_def log_ok_def exclusive_def)


text \<open>
  C13: The stored state is always of its type. After any history the row under the executor's key decodes into a
  snapshot that passes every check of \<open>decode\<close>: the phases, stop reasons, counters and deadlines of the run fit
  together, so the executor never refuses its own state after a restart.
\<close>

theorem executor_state_decodes:
  assumes "good_opts xo" "at_rest xo db" "list_all (ev_ok xo) evs"
  shows "\<exists>s. durable xo (db_of (history xo db evs)) = Some s \<and> validSnapshot s"
  using past_inv [OF assms] by (auto simp: ex_inv_def inv_at_def db_ok_def)

text \<open>
  The snapshot round-trips through the store. What the executor writes as the JSON of a valid snapshot, \<open>decode\<close>
  reads back as the same snapshot, up to the order of the properties inside the offer and the outcome.
\<close>

theorem executor_state_roundtrip:
  assumes "json_values (nc_codec (xo_cfg xo))" "validSnapshot s"
  shows "decode xo (Some \<lparr>rs_key = STATE_KEY, rs_revision = n, rs_value = via_text (nc_codec (xo_cfg xo)) (snapshot_json xo s)\<rparr>) =
    Some (stored_snapshot (nc_codec (xo_cfg xo)) s)"
  using snapshot_roundtrip [OF assms] by (simp add: decode_def)

section \<open>The end of a run\<close>

lemma change_false:
  assumes "good_opts xo" "db_ok xo h s" "change xo io edit h = (h1, Inr False)"
  shows "edit s = Inr None"
proof -
  obtain h2 q where rs: "read_state xo io h = (h2, q)" by fastforce
  from read_state_cases [OF assms(1,2) rs] consider e where "q = Inl e" | "q = Inr (revision (db_of h) STATE_KEY, s)" by metis
  then show ?thesis
  proof cases
    case 1
    with assms(3) rs show ?thesis by (simp add: change_def seq_def)
  next
    case 2
    show ?thesis
    proof (cases "edit s")
      case (Inl e)
      with assms(3) rs 2 show ?thesis by (simp add: change_def seq_def lift_def)
    next
      case (Inr x)
      with assms(3) rs 2 show ?thesis
        by (cases x) (auto simp: change_def seq_def lift_def ret_def split: sum.splits prod.splits)
    qed
  qed
qed

lemma committed_outbox:
  assumes "json_values (nc_codec cf)" "committed cf sk n (transition_json xo s [m] []) db" "nc_codec (xo_cfg xo) = nc_codec cf"
  shows "outbound_recorded cf db (via_text (nc_codec cf) m)"
  using assms by (auto simp: committed_def Let_def transition_json_def array_prop_def simp flip: via_text_def)


section \<open>Offers that cannot be stored\<close>

lemma failClosed_effect:
  assumes "failClosed h = (h1, r)"
  shows "eh_store h1 = eh_store h \<and> eh_faulted h1 \<and> r = Inr ()"
  using assms
  by (auto simp: failClosed_def quiesce_live_def quiesce_def seq_def ask_def upd_def on_def ret_def emit_def upd_live_def
      split: option.splits if_splits)

lemma checked_error:
  assumes "m h = (h1, Inl e)" "checked m h = (h2, r)"
  shows "r = Inl e \<and> eh_store h2 = eh_store h1 \<and> eh_faulted h2"
proof -
  obtain h3 q where f: "failClosed h1 = (h3, q)" by fastforce
  from failClosed_effect [OF f] assms f show ?thesis by (auto simp: checked_def catching_def seq_def throw_def)
qed

lemma unstorable:
  assumes "\<not> visit (transition_json xo s1 out effs) 0"
  shows "applyTransition cf db k n (transition_json xo s1 out effs) = Inl type_error"
  using assms by (simp add: applyTransition_def json_text_def Let_def)

lemma deep_slot:
  assumes "sn_slot s1 = Some r" "\<not> visit (JObj (dr_offer r)) 3"
  shows "\<not> visit (transition_json xo s1 out effs) 0"
  using assms by (auto simp: transition_json_def snapshot_json_def run_json_def nullable_def numeral_3_eq_3)

text \<open>
  C39: An offer that is nested too deeply for the snapshot stops the node for good. The store accepts messages up to a
  depth of 64, with the body at depth 1, and the executor checks the body from depth 0; but the accepted offer is
  stored at depth 3 of the transition, where the same limit is applied again. Consuming such an offer always throws:
  the executor fails closed, nothing is committed, and the message is still undecided, so the next start consumes it
  again.
\<close>

theorem deep_offer_faults:
  assumes "good_opts xo" "db_ok xo h s" "\<not> eh_faulted h"
    and "handle_message xo io (eh_ready h \<and> \<not> eh_closing h) env auth s = Inr ((s1, out), effs)"
    and "sn_slot s1 = Some r" "\<not> visit (JObj (dr_offer r)) 3"
    and "map_of (nd_inbox (db_of h)) (e_from_node (envelopeOf env), e_msg_id (envelopeOf env)) = Some row" "ib_decision row = Undecided"
    and "readInbox (xo_cfg xo) (db_of h) (e_from_node (envelopeOf env), e_msg_id (envelopeOf env)) row = Inr (Some env)"
    and "r1_gate (nc_codec (xo_cfg xo)) (db_of h) (e_from_node (envelopeOf env)) STATE_KEY env = Inr (db1, Applied)"
    and "dx_consume xo io env auth h = (h1, res)"
  shows "isl res \<and> eh_faulted h1 \<and> db_of h1 = db_of h"
proof -
  let ?cd = "nc_codec (xo_cfg xo)"
  let ?t = "\<lambda>env1 (_ :: rt_state option). if cd_sha ?cd (cd_jcs ?cd env1) \<noteq> cd_sha ?cd (cd_jcs ?cd env)
      then Inl (Domain_error Rc_conflict) else Inr (transition_json xo s1 out effs)"
  let ?rq = "\<lambda>n. \<lparr>cr_fromNode = e_from_node (envelopeOf env), cr_msgId = e_msg_id (envelopeOf env), cr_stateKey = STATE_KEY, cr_expectedRevision = of_nat n\<rparr>"
  let ?m = "seq assertHealthy (\<lambda>_.
      seq (read_state xo io) (\<lambda>(n, s).
      seq (ask (\<lambda>h. eh_ready h \<and> \<not> eh_closing h)) (\<lambda>open_for.
      seq (lift (handle_message xo io open_for env auth s)) (\<lambda>((s1, outbox), effects).
       seq (rt_call xo io (Op_consume (?rq n)
              (\<lambda>env1 _. if cd_sha ?cd (cd_jcs ?cd env1) \<noteq> cd_sha ?cd (cd_jcs ?cd env) then Inl (Domain_error Rc_conflict)
                else Inr (transition_json xo s1 outbox effects)))) (\<lambda>_. ret ())))))"
  have never: "nr_consume (xo_cfg xo) (db_of h) (?rq n) ?t \<noteq> Inr x" for n x
    using assms(7-10) unstorable [OF deep_slot [OF assms(5,6)]]
    by (auto simp: nr_consume_def consume_tx_def Let_def split: if_splits)
  have "\<exists>h2 e. ?m h = (h2, Inl e) \<and> db_of h2 = db_of h"
  proof -
    obtain h2 q where rs: "read_state xo io h = (h2, q)" by fastforce
    from read_state_cases [OF assms(1,2) rs] obtain st where h2: "h2 = h\<lparr>eh_store := st, eh_calls := eh_calls h + 1\<rparr>" "st_db st = db_of h"
      "q = Inr (revision (db_of h) STATE_KEY, s) \<or> (\<exists>e. q = Inl e)" .
    show ?thesis
    proof (cases q)
      case (Inl e)
      with rs h2 assms(3) show ?thesis by (auto simp: assertHealthy_def seq_def ask_def ret_def)
    next
      case (Inr x)
      with h2 have q: "q = Inr (revision (db_of h) STATE_KEY, s)" by auto
      obtain h3 p where c: "rt_call xo io (Op_consume (?rq (revision (db_of h) STATE_KEY)) ?t) h2 = (h3, p)" by fastforce
      have "\<exists>e. p = Inl e \<and> db_of h3 = db_of h"
        using c
      proof (cases rule: rt_call_cases)
        case (err st1 e)
        with h2 show ?thesis by simp
      next
        case (ok st1 o1)
        with never h2 show ?thesis by (auto simp: with_out_Inr)
      qed
      with rs q h2(1) assms(3,4) c show ?thesis by (auto simp: assertHealthy_def seq_def ask_def ret_def lift_def)
    qed
  qed
  then obtain h2 e where m: "?m h = (h2, Inl e)" "db_of h2 = db_of h" by blast
  have "checked ?m h = (h1, res)" using assms(11) by (simp add: dx_consume_def Let_def)
  from checked_error [where m = ?m and h = h, OF m(1) this] m(2) show ?thesis by auto
qed

end
