(* ===== verification/Node_Store_Examples.thy ===== *)
theory Node_Store_Examples
  imports Node_Store_Theorems
begin

text \<open>
  Concrete runs of the node store with the codec of \<open>Json_Codec\<close>: two task messages are received and consumed,
  a transition commits a state. They apply the theorems about the store at inputs where the hypotheses hold.
\<close>

section \<open>Messages\<close>

definition other_uuid :: string where
  "other_uuid = ''1123abcd-0123-4567-89ab-0123456789AB''"

definition demo_msg :: "string \<Rightarrow> json" where
  "demo_msg m = JObj (AList.update ''msg_id'' (JStr m) demo_fields)"

definition demo_en :: "string \<Rightarrow> rt_encoded" where
  "demo_en m = \<lparr>rn_env = demo_msg m, rn_payload = enc (demo_msg m), rn_digest = toy_sha (enc (demo_msg m))\<rparr>"

definition demo_cf :: node_cfg where
  "demo_cf = \<lparr>nc_codec = text_codec, nc_node = demo_uuid, nc_maxEntries = 10000, nc_maxBytes = 67108864, nc_retention = None\<rparr>"

definition demo_store :: "node_db \<Rightarrow> node_db store" where
  "demo_store db = \<lparr>st_db = db, st_state = Open, st_fault = None\<rparr>"

lemma demo_sel [simp]:
  "nc_codec demo_cf = text_codec" "nc_node demo_cf = demo_uuid" "nc_maxEntries demo_cf = 10000" "nc_maxBytes demo_cf = 67108864"
  "cd_jcs text_codec = enc" "cd_reparse text_codec = reparse" "cd_sha text_codec = toy_sha" "cd_bytes text_codec = length"
  "st_db (demo_store db) = db" "st_state (demo_store db) = Open"
  "rn_env (demo_en m) = demo_msg m" "rn_payload (demo_en m) = enc (demo_msg m)" "rn_digest (demo_en m) = toy_sha (enc (demo_msg m))"
  by (simp_all add: demo_cf_def text_codec_def demo_store_def demo_en_def)

lemma other_uuid_ok [simp]: "isUuidStr other_uuid"
  by (simp add: other_uuid_def isUuidStr_def uuid_pattern_def matches_def numeral_eq_Suc is_hex_i_def)

lemma other_neq [simp]: "other_uuid \<noteq> demo_uuid" "demo_uuid \<noteq> other_uuid"
  by (simp_all add: other_uuid_def demo_uuid_def)

lemma demo_text_length: "length (enc (demo_msg demo_uuid)) < 2000" "length (enc (demo_msg other_uuid)) < 2000"
  by code_simp+

lemma toy_sha_length [simp]: "length (toy_sha s) = 64"
  by (simp add: toy_sha_def)

lemma demo_ids [simp]:
  "e_from_node (envelopeOf (demo_msg m)) = demo_uuid" "e_to_node (envelopeOf (demo_msg m)) = demo_uuid"
  "e_msg_id (envelopeOf (demo_msg m)) = m" "e_type (envelopeOf (demo_msg m)) = ''task.offer''"
  by (simp_all add: envelopeOf_def Let_def demo_msg_def demo_fields_def str_or_def obj_opt_def)

lemma demo_valid:
  assumes "isUuidStr m"
  shows "validateEnvelope (\<lambda>_. Some 1000) (\<lambda>_. 64) (demo_msg m) DEFAULT_PARAMS False = Inr (demo_msg m)"
proof -
  have "isPlainObject (demo_msg m)" "common_ok (\<lambda>_. Some 1000) (demo_msg m)"
    "family_ok (\<lambda>_. Some 1000) (\<lambda>_. 64) DEFAULT_PARAMS False (demo_msg m)" "\<forall>q \<in> numbers (demo_msg m). isSafeInteger q"
    using assms by (simp_all add: demo_msg_def demo_fields_def common_ok_def family_ok_def family_def signed_ok_def isUuid_def
        isRfc3339_def optionally_def isSafeIntGe_def DEFAULT_PARAMS_def)
  then have "\<exists>v. validateEnvelope (\<lambda>_. Some 1000) (\<lambda>_. 64) (demo_msg m) DEFAULT_PARAMS False = Inr v"
    using validate_iff by blast
  then show ?thesis by (auto simp: validateEnvelope_def Let_def split: if_splits)
qed

lemma demo_envelope:
  assumes "isUuidStr m" "length (enc (demo_msg m)) < 2000"
  shows "rt_envelope text_codec (demo_msg m) = Inr (demo_en m)"
proof -
  have "visit (demo_msg m) 0" by (simp add: demo_msg_def demo_fields_def)
  moreover have "sig_canonical text_codec (obj_get (demo_msg m) ''sig'')"
    by (simp add: demo_msg_def demo_fields_def sig_canonical_def text_codec_def)
  ultimately show ?thesis
    using assms(2) demo_valid [OF assms(1)] unfolding rt_envelope_def json_text_def
    by (simp add: max_bytes_def demo_en_def) (simp add: text_codec_def)
qed

lemmas demo_envelopes [simp] =
  demo_envelope [OF demo_uuid_ok demo_text_length(1)] demo_envelope [OF other_uuid_ok demo_text_length(2)]

section \<open>Receiving\<close>

definition demo_row :: "string \<Rightarrow> inbox_row" where
  "demo_row m = \<lparr>ib_digest = toy_sha (enc (demo_msg m)), ib_payload = Some (enc (demo_msg m)), ib_decision = Undecided,
     ib_state_key = None, ib_revision = None\<rparr>"

definition demo_db :: node_db where
  "demo_db = empty_db\<lparr>nd_identity := Some demo_uuid\<rparr>"

definition demo_db1 :: node_db where
  "demo_db1 = demo_db\<lparr>nd_inbox := [((demo_uuid, demo_uuid), demo_row demo_uuid), ((demo_uuid, other_uuid), demo_row other_uuid)]\<rparr>"

lemma demo_open: "newNodeRuntimeStore text_codec empty_db demo_uuid None None None = Inr (demo_db, demo_cf)"
  by (simp add: newNodeRuntimeStore_def or_default_def integer_arg_def retention_arg_def Let_def no_rows_def empty_db_def
      demo_db_def demo_cf_def validateStartup_def)

lemma demo_store_eq [simp]: "\<lparr>st_db = db, st_state = Open, st_fault = None\<rparr> = demo_store db" "(demo_store db)\<lparr>st_db := db1\<rparr> = demo_store db1"
  by (simp_all add: demo_store_def)

lemma demo_read:
  assumes "m = demo_uuid \<or> m = other_uuid"
  shows "readInbox demo_cf db (demo_uuid, m) (demo_row m) = Inr (Some (demo_msg m))"
proof -
  have "readEnvelope demo_cf (demo_uuid, m) (toy_sha (enc (demo_msg m))) (enc (demo_msg m)) False = Inr (demo_msg m)"
    using readEnvelope_stored [of demo_cf "demo_msg m" "demo_en m" "(demo_uuid, m)" False] text_codec_ok assms by auto
  moreover have "isUuidStr m" using assms by auto
  ultimately show ?thesis by (simp add: readInbox_def demo_row_def storedIdentity_def toy_sha_digest)
qed

lemma demo_receives:
  "after demo_cf (demo_store demo_db) [(healthy, Op_receive (demo_msg demo_uuid)), (healthy, Op_receive (demo_msg other_uuid))] = demo_db1"
  using demo_text_length isUuidStr_length [OF demo_uuid_ok] isUuidStr_length [OF other_uuid_ok]
  by (simp add: after_def tx_step_def transaction_healthy nr_receive_def receive_tx_def Let_def demo_db_def empty_db_def
      demo_db1_def demo_row_def capacity_def readUsage_def storedInteger_def usage_entries_def usage_bytes_def inbox_bytes_def
      with_out_def)

lemma demo_reachable: "reachable demo_cf demo_db1"
  unfolding reachable_def
  using demo_open demo_receives
  by (intro exI [of _ None] exI [of _ "demo_store demo_db"]
      exI [of _ "[(healthy, Op_receive (demo_msg demo_uuid)), (healthy, Op_receive (demo_msg other_uuid))]"])
    (simp add: clean_calls_def)

section \<open>Consuming\<close>

definition demo_t :: "json \<Rightarrow> rt_state option \<Rightarrow> rt_error + json" where
  "demo_t env st = Inr (JObj [(''state'', JNum 1)])"

definition demo_rq :: "string \<Rightarrow> string \<Rightarrow> nat \<Rightarrow> consume_request" where
  "demo_rq m sk n = \<lparr>cr_fromNode = demo_uuid, cr_msgId = m, cr_stateKey = sk, cr_expectedRevision = of_nat n\<rparr>"

lemma demo_rq_sel [simp]:
  "cr_fromNode (demo_rq m sk n) = demo_uuid" "cr_msgId (demo_rq m sk n) = m" "cr_stateKey (demo_rq m sk n) = sk"
  "cr_expectedRevision (demo_rq m sk n) = of_nat n"
  by (simp_all add: demo_rq_def)

definition demo_key :: string where
  "demo_key = dedup_key text_codec (demo_msg demo_uuid)"

definition demo_body :: string where
  "demo_body = body_digest text_codec (demo_msg demo_uuid)"

lemma demo_key_length: "length demo_key < 1000"
  by code_simp

lemma demo_value_length: "length (enc (JNum 1)) < 100"
  by code_simp

lemma demo_body_length [simp]: "length demo_body = 64"
  by (simp add: demo_body_def body_digest_def)

text \<open>The database after consuming the first message into the state \<open>sk\<close>.\<close>

definition demo_db2 :: "string \<Rightarrow> node_db" where
  "demo_db2 sk = demo_db1\<lparr>
     nd_inbox := [((demo_uuid, demo_uuid), decide (demo_row demo_uuid) Applied sk 1), ((demo_uuid, other_uuid), demo_row other_uuid)],
     nd_state := [(sk, \<lparr>sr_revision = 1, sr_value = enc (JNum 1)\<rparr>)],
     nd_dedup := [((demo_uuid, sk, demo_key), demo_body)]\<rparr>"

lemma demo_db1_sel [simp]:
  "nd_state demo_db1 = []" "nd_dedup demo_db1 = []" "nd_effects demo_db1 = []" "nd_outbox demo_db1 = []" "nd_delivery demo_db1 = []"
  "map_of (nd_inbox demo_db1) (demo_uuid, demo_uuid) = Some (demo_row demo_uuid)"
  "map_of (nd_inbox demo_db1) (demo_uuid, other_uuid) = Some (demo_row other_uuid)"
  "nd_identity demo_db1 = Some demo_uuid"
  by (simp_all add: demo_db1_def demo_db_def empty_db_def)

lemma demo_gate:
  "r1_gate text_codec demo_db1 demo_uuid sk (demo_msg demo_uuid) =
     Inr (demo_db1\<lparr>nd_dedup := [((demo_uuid, sk, demo_key), demo_body)]\<rparr>, Applied)"
  by (simp add: r1_gate_def usesR1Dedup_def Let_def demo_key_def demo_body_def body_digest_def)

lemma demo_transition:
  "nd_state db = [] \<Longrightarrow> applyTransition demo_cf db sk 0 (JObj [(''state'', JNum 1)]) =
     Inr (db\<lparr>nd_state := [(sk, \<lparr>sr_revision = 1, sr_value = enc (JNum 1)\<rparr>)]\<rparr>, 1)"
  unfolding applyTransition_def json_text_def
  by (simp add: Let_def array_prop_def integer_arg_def del: enc.simps)

lemma demo_capacity:
  assumes "length sk < 100"
  shows "capacity demo_cf (demo_db2 sk) = Inr ()"
  using assms demo_text_length demo_key_length demo_value_length isUuidStr_length [OF demo_uuid_ok] isUuidStr_length [OF other_uuid_ok]
  by (simp add: capacity_Inr usage_entries_def usage_bytes_def inbox_bytes_def demo_db2_def demo_row_def decide_def safe_def
      del: enc.simps)

lemma demo_consume:
  assumes "sk \<noteq> []" "length sk < 100"
  shows "nr_consume demo_cf demo_db1 (demo_rq demo_uuid sk 0) demo_t = Inr (demo_db2 sk, Cn_decided Applied 1)"
proof -
  have "demo_db1\<lparr>nd_dedup := [((demo_uuid, sk, demo_key), demo_body)], nd_state := [(sk, \<lparr>sr_revision = 1, sr_value = enc (JNum 1)\<rparr>)],
      nd_inbox := AList.update (demo_uuid, demo_uuid) (decide (demo_row demo_uuid) Applied sk 1) (nd_inbox demo_db1)\<rparr> = demo_db2 sk"
    by (simp add: demo_db2_def demo_db1_def)
  moreover have "readInbox demo_cf demo_db1 (demo_uuid, demo_uuid) (demo_row demo_uuid) = Inr (Some (demo_msg demo_uuid))"
    by (rule demo_read) simp
  moreover have "ib_decision (demo_row demo_uuid) = Undecided" by (simp add: demo_row_def)
  ultimately show ?thesis
    using assms demo_capacity [OF assms(2)]
    by (simp add: nr_consume_def consume_tx_def Let_def key_ok_def integer_arg_def readState_def revision_of_def demo_gate demo_t_def
        demo_transition del: enc.simps)
qed

lemma demo_calls_clean [simp]: "clean ''job''" "result_ok text_codec P (JObj [(''state'', JNum 1)])"
  by (simp_all add: clean_def result_ok_def effects_of_def del: enc.simps)

section \<open>The theorems at work\<close>



lemma demo_gate2:
  "r1_gate text_codec (demo_db2 ''job'') demo_uuid ''job'' (demo_msg other_uuid) = Inr (demo_db2 ''job'', Duplicated)"
proof -
  have k: "dedup_key text_codec (demo_msg other_uuid) = demo_key" "body_digest text_codec (demo_msg other_uuid) = demo_body"
    by (simp_all add: demo_key_def demo_body_def dedup_key_def body_digest_def demo_msg_def demo_fields_def or_null_def del: enc.simps)
  have "rt_exec demo_cf (Op_consume (demo_rq demo_uuid ''job'' 0) demo_t) demo_db1 = Inr (demo_db2 ''job'', Ot_consume (Cn_decided Applied 1))"
    using demo_consume [of "''job''"] by (simp add: with_out_def)
  from rt_exec_inv [OF _ this] reachable_inv [OF _ demo_reachable] text_codec_ok
  have "rt_inv demo_cf (demo_db2 ''job'')" by (simp add: demo_t_def)
  moreover have m: "map_of (nd_dedup (demo_db2 ''job'')) (demo_uuid, ''job'', demo_key) = Some demo_body" by (simp add: demo_db2_def)
  ultimately have "readDedup text_codec (demo_db2 ''job'') (demo_uuid, ''job'', demo_key) demo_body = Inr ()"
    using dedup_reads [of demo_cf] text_codec_ok by simp
  with m k show ?thesis by (simp add: r1_gate_def usesR1Dedup_def Let_def)
qed

theorem first_message_wins_witness:
  "\<exists>db2. nr_consume demo_cf (demo_db2 ''job'') (demo_rq other_uuid ''job'' 1) demo_t = Inr (db2, Cn_decided Duplicated 1) \<and>
     nd_state db2 = nd_state (demo_db2 ''job'')"
proof -
  let ?db = "demo_db2 ''job''"
  let ?db2 = "?db\<lparr>nd_inbox := [((demo_uuid, demo_uuid), decide (demo_row demo_uuid) Applied ''job'' 1),
    ((demo_uuid, other_uuid), decide (demo_row other_uuid) Duplicated ''job'' 1)]\<rparr>"
  have rd: "readInbox demo_cf db (demo_uuid, m) (demo_row m) = Inr (Some (demo_msg m))" if "m \<in> {demo_uuid, other_uuid}" for m db
    using that by (intro demo_read) auto
  have look: "map_of (nd_inbox ?db) (demo_uuid, other_uuid) = Some (demo_row other_uuid)" by (simp add: demo_db2_def)
  have upd: "AList.update (demo_uuid, other_uuid) (decide (demo_row other_uuid) Duplicated ''job'' 1) (nd_inbox ?db) = nd_inbox ?db2"
    by (simp add: demo_db2_def)
  have st: "readState text_codec ?db ''job'' = Inr (Some \<lparr>rs_key = ''job'', rs_revision = 1, rs_value = JNum 1\<rparr>)"
    by (simp add: readState_def demo_db2_def decodeState_def storedJson_def storedInteger_def key_ok_def Let_def del: enc.simps)
  have cap: "capacity demo_cf ?db2 = Inr ()"
    using demo_text_length demo_key_length demo_value_length isUuidStr_length [OF demo_uuid_ok] isUuidStr_length [OF other_uuid_ok]
    by (simp add: capacity_Inr usage_entries_def usage_bytes_def inbox_bytes_def demo_db2_def demo_row_def decide_def safe_def
        del: enc.simps)
  have und: "ib_decision (demo_row other_uuid) = Undecided" by (simp add: demo_row_def)
  have db2: "?db\<lparr>nd_inbox := nd_inbox ?db2\<rparr> = ?db2" by simp
  have two: "nr_consume demo_cf ?db (demo_rq other_uuid ''job'' 1) demo_t = Inr (?db2, Cn_decided Duplicated 1)"
    using rd [of other_uuid ?db] look und st cap demo_gate2 upd db2
    by (simp add: nr_consume_def consume_tx_def Let_def key_ok_def integer_arg_def revision_of_def)
  have same: "\<forall>f \<in> {''task_id'', ''attempt'', ''type''}. obj_get (demo_msg other_uuid) f = obj_get (demo_msg demo_uuid) f"
    by (simp add: demo_msg_def demo_fields_def)
  have none: "after demo_cf (demo_store ?db) [] = ?db" by (simp add: after_def)
  have one: "nr_consume demo_cf demo_db1 (demo_rq demo_uuid ''job'' 0) demo_t = Inr (?db, Cn_decided Applied 1)"
    by (rule demo_consume) simp_all
  let ?rq = "demo_rq demo_uuid ''job'' 0" and ?rq1 = "demo_rq other_uuid ''job'' 1" and ?later = "after demo_cf (demo_store ?db) []"
  have r1: "map_of (nd_inbox demo_db1) (cr_fromNode ?rq, cr_msgId ?rq) = Some (demo_row demo_uuid)"
    "readInbox demo_cf demo_db1 (cr_fromNode ?rq, cr_msgId ?rq) (demo_row demo_uuid) = Inr (Some (demo_msg demo_uuid))"
    "usesR1Dedup (e_type (envelopeOf (demo_msg demo_uuid)))"
    using rd by (simp_all add: usesR1Dedup_def)
  have r2: "nr_consume demo_cf ?later ?rq1 demo_t = Inr (?db2, Cn_decided Duplicated 1)"
    "map_of (nd_inbox ?later) (cr_fromNode ?rq1, cr_msgId ?rq1) = Some (demo_row other_uuid)"
    "readInbox demo_cf ?later (cr_fromNode ?rq1, cr_msgId ?rq1) (demo_row other_uuid) = Inr (Some (demo_msg other_uuid))"
    "cr_fromNode ?rq1 = cr_fromNode ?rq" "cr_stateKey ?rq1 = cr_stateKey ?rq"
    using two look rd unfolding none by simp_all
  have "nd_state ?db2 = nd_state ?later"
    using first_message_wins [OF one r1 demo_sel(9) r2 same] by blast
  with two show ?thesis by (auto simp: none)
qed

section \<open>A transition with a message and an effect\<close>

definition demo_result :: json where
  "demo_result = JObj [(''state'', JNum 1), (''outbox'', JArr [demo_msg demo_uuid]),
     (''effects'', JArr [JObj [(''id'', JStr ''e''), (''kind'', JStr ''k''), (''payload'', JNull)]])]"

definition demo_effect :: effect_row where
  "demo_effect = \<lparr>er_state_key = ''job'', er_revision = 1, er_kind = ''k'', er_payload = ''n'', er_done = False\<rparr>"

definition demo_db3 :: node_db where
  "demo_db3 = demo_db\<lparr>
     nd_delivery := [((demo_uuid, demo_uuid), \<lparr>dl_digest = toy_sha (enc (demo_msg demo_uuid)), dl_status = Dl_pending, dl_stored_at = None\<rparr>)],
     nd_outbox := [((demo_uuid, demo_uuid), \<lparr>ob_payload = enc (demo_msg demo_uuid), ob_attempts = 0, ob_last_at = 0\<rparr>)],
     nd_state := [(''job'', \<lparr>sr_revision = 1, sr_value = enc (JNum 1)\<rparr>)],
     nd_effects := [(''e'', demo_effect)]\<rparr>"

lemma demo_db_sel [simp]:
  "nd_state demo_db = []" "nd_effects demo_db = []" "nd_outbox demo_db = []" "nd_delivery demo_db = []" "nd_inbox demo_db = []"
  "nd_dedup demo_db = []"
  by (simp_all add: demo_db_def empty_db_def)

lemma demo_commit: "nr_transition demo_cf demo_db ''job'' 0 (\<lambda>_. Inr demo_result) = Inr (demo_db3, 1)"
proof -
  have v: "visit demo_result 0" by (simp add: demo_result_def demo_msg_def demo_fields_def)
  have f: "array_prop (obj_get demo_result ''outbox'') = Inr [demo_msg demo_uuid]"
    "array_prop (obj_get demo_result ''effects'') = Inr [JObj [(''id'', JStr ''e''), (''kind'', JStr ''k''), (''payload'', JNull)]]"
    "json_text text_codec (obj_get demo_result ''state'') = Inr (enc (JNum 1))"
    by (simp_all add: demo_result_def array_prop_def json_text_def)
  have "applyTransition demo_cf demo_db ''job'' 0 demo_result = Inr (demo_db3, 1)"
    unfolding applyTransition_def Let_def using v f
    by (simp add: json_text_def [of _ "Some demo_result"] integer_arg_def saveEntry_def Let_def findDelivery_def add_effect_def
        key_arg_def key_ok_def demo_db3_def demo_effect_def del: enc.simps)
      (simp add: json_text_def)
  moreover have "capacity demo_cf demo_db3 = Inr ()"
    using demo_text_length demo_value_length isUuidStr_length [OF demo_uuid_ok]
    by (simp add: capacity_Inr usage_entries_def usage_bytes_def demo_db3_def demo_effect_def safe_def del: enc.simps)
  ultimately show ?thesis
    by (simp add: nr_transition_def key_ok_def integer_arg_def readState_def revision_of_def)
qed

lemma demo_reachable3: "reachable demo_cf demo_db3"
proof -
  have "after demo_cf (demo_store demo_db) [(healthy, Op_transition ''job'' 0 (\<lambda>_. Inr demo_result))] = demo_db3"
    by (simp add: after_def tx_step_def transaction_healthy with_out_def demo_commit)
  moreover have "clean_calls demo_cf [(healthy, Op_transition ''job'' 0 (\<lambda>_. Inr demo_result))]"
    by (auto simp: clean_calls_def result_ok_def effects_of_def names_ok_def demo_result_def clean_def simp del: enc.simps)
  ultimately show ?thesis
    unfolding reachable_def using demo_open
    by (intro exI [of _ None] exI [of _ "demo_store demo_db"] exI) (auto intro: sym)
qed

theorem revision_single_writer_witness:
  "nr_transition demo_cf demo_db ''job'' 0 (\<lambda>_. Inr demo_result) = Inr (demo_db3, 1) \<and>
   \<not> (\<exists>t1 r. nr_transition demo_cf demo_db3 ''job'' 0 t1 = Inr r)"
  using revision_single_writer [OF demo_commit demo_sel(9), of "[]"] demo_commit by (simp add: after_def)

theorem effect_completed_once_witness:
  "\<exists>db1. nr_completeEffect demo_cf demo_db3 ''e'' ''job'' 1 False = Inr (db1, True) \<and>
     (\<forall>db2. nr_completeEffect demo_cf db1 ''e'' ''job'' 1 True \<noteq> Inr (db2, True))"
proof -
  let ?db1 = "demo_db3\<lparr>nd_effects := AList.update ''e'' (demo_effect\<lparr>er_done := True\<rparr>) (nd_effects demo_db3)\<rparr>"
  have cd: "rt_codec (nc_codec demo_cf)" using text_codec_ok by simp
  have look: "map_of (nd_effects demo_db3) ''e'' = Some demo_effect" by (simp add: demo_db3_def)
  have "rt_tables demo_cf demo_db3" using reachable_inv [OF cd demo_reachable3] by (simp add: rt_inv_def)
  from effect_reads [OF cd this look]
  have c: "nr_completeEffect demo_cf demo_db3 ''e'' ''job'' 1 False = Inr (?db1, True)"
    using look by (simp add: nr_completeEffect_def key_ok_def integer_arg_def)
      (simp add: demo_db3_def demo_effect_def)
  have clean: "clean_calls demo_cf []" by (simp add: clean_calls_def)
  from effect_completed_once [OF cd demo_reachable3 c demo_sel(9) clean] c show ?thesis
    by (auto simp: after_def)
qed

theorem outbox_until_stored_witness:
  "under_custody (after demo_cf (demo_store demo_db3) [(healthy, Op_prune 5)]) (demo_uuid, demo_uuid)
     (toy_sha (enc (demo_msg demo_uuid))) (enc (demo_msg demo_uuid))"
proof -
  have h: "rt_codec (nc_codec demo_cf)" "reachable demo_cf (st_db (demo_store demo_db3))"
    "under_custody (st_db (demo_store demo_db3)) (demo_uuid, demo_uuid) (toy_sha (enc (demo_msg demo_uuid))) (enc (demo_msg demo_uuid))"
    "clean_calls demo_cf [(healthy, Op_prune 5)]"
    "\<not> list_ex (released_by (demo_uuid, demo_uuid) (toy_sha (enc (demo_msg demo_uuid)))) (answers demo_cf (demo_store demo_db3) [(healthy, Op_prune 5)])"
    using text_codec_ok demo_reachable3
    by (simp_all add: under_custody_def clean_calls_def answers_def tx_step_def released_by_def case_prod_beta)
      (simp add: demo_db3_def)
  show ?thesis using outbox_until_stored [OF h] by blast
qed

theorem nul_key_faults_witness:
  "\<not> validateStartup demo_cf (demo_db2 (''a'' @ CHR 0x00 # ''b'')) \<and>
   nr_consume demo_cf (demo_db2 (''a'' @ CHR 0x00 # ''b'')) (demo_rq demo_uuid (''a'' @ CHR 0x00 # ''b'') 0) demo_t =
     Inl (Storage_error S_corrupt)"
proof -
  let ?sk = "''a'' @ CHR 0x00 # ''b''"
  have h: "nr_consume demo_cf demo_db1 (demo_rq demo_uuid ?sk 0) demo_t = Inr (demo_db2 ?sk, Cn_decided Applied 1)"
    by (rule demo_consume) simp_all
  have r: "map_of (nd_inbox demo_db1) (cr_fromNode (demo_rq demo_uuid ?sk 0), cr_msgId (demo_rq demo_uuid ?sk 0)) = Some (demo_row demo_uuid)"
    "ib_decision (demo_row demo_uuid) = Undecided" "cr_stateKey (demo_rq demo_uuid ?sk 0) = ''a'' @ CHR 0x00 # ''b''"
    "clean ''a''" "map_of (nd_state demo_db1) ''a'' = None"
    by (simp_all add: demo_row_def clean_def)
  show ?thesis using nul_key_faults [OF h r demo_sel(9,10)] by blast
qed

end
