(* ===== verification/Exec_Examples.thy ===== *)
theory Exec_Examples
  imports Exec_Theorems Node_Store_Examples
begin

text \<open>
  A concrete executor over the node store of \<open>Node_Store_Examples\<close>: a prepared run is started, the driver's handle is
  attached, the driver stops and the run is answered. The theorems about the executor are applied to it.
\<close>

section \<open>Setting\<close>

definition x_opts :: exec_opts where
  "x_opts = \<lparr>xo_cfg = demo_cf, xo_team = ''t'', xo_params = DEFAULT_PARAMS, xo_driver = True, xo_publisher = False,
     xo_workspace = False, xo_capabilities = [], xo_policy = None\<rparr>"

text \<open>The signer gives every message the same id, which is enough for one message per run.\<close>

definition x_seal :: "outbound \<Rightarrow> json" where
  "x_seal ob = demo_msg other_uuid"

definition x_io :: exec_io where
  "x_io = \<lparr>io_pf = (\<lambda>_. healthy), io_now = 1, io_seal = x_seal, io_id = other_uuid, io_iso = ''now''\<rparr>"

lemma x_sel [simp]:
  "xo_cfg x_opts = demo_cf" "xo_params x_opts = DEFAULT_PARAMS" "xo_driver x_opts" "\<not> xo_publisher x_opts" "\<not> xo_workspace x_opts"
  "xo_team x_opts = ''t''" "xo_capabilities x_opts = []" "xo_policy x_opts = None"
  "io_pf x_io n = healthy" "io_now x_io = 1" "io_seal x_io = x_seal" "io_id x_io = other_uuid"
  by (simp_all add: x_opts_def x_io_def)

lemma x_good [simp]: "good_opts x_opts" "good_io x_io"
  by (simp_all add: good_opts_def text_codec_ok text_codec_values key_ok_def STATE_KEY_def positive_def DEFAULT_PARAMS_def
      isSafeInteger_def good_io_def x_seal_def)

definition x_fence :: lease_fence where
  "x_fence = \<lparr>lf_task_id = demo_uuid, lf_attempt = 1, lf_generation = 1, lf_run_id = other_uuid\<rparr>"

definition x_run :: "phase \<Rightarrow> bool \<Rightarrow> durable_run" where
  "x_run ph may = \<lparr>dr_fence = x_fence, dr_phase = ph, dr_lead = demo_uuid, dr_offerMsgId = demo_uuid,
     dr_offer = [(''kind'', JStr ''aid''), (''summary'', JStr ''go'')], dr_mayHaveStarted = may, dr_leaseMs = 9, dr_leaseDeadline = 10,
     dr_heartbeatAt = 4, dr_seq = 0, dr_lastRenewalSeq = 0, dr_progress = None, dr_cancelMsgId = None, dr_stopReason = None\<rparr>"

definition x_snap :: "phase \<Rightarrow> bool \<Rightarrow> exec_snapshot" where
  "x_snap ph may = \<lparr>sn_generation = 1, sn_slot = Some (x_run ph may), sn_last = None\<rparr>"

definition x_db :: "nat \<Rightarrow> exec_snapshot \<Rightarrow> node_db" where
  "x_db n s = demo_db\<lparr>nd_state := [(STATE_KEY, \<lparr>sr_revision = n, sr_value = enc (snapshot_json x_opts s)\<rparr>)]\<rparr>"

lemma x_valid: "validSnapshot (x_snap Ph_prepared False)" "validSnapshot (x_snap Ph_starting True)"
  by (simp_all add: x_snap_def x_run_def x_fence_def validSnapshot_def validRun_def isLeaseFence_def positive_def nonnegative_def
      isSafeInteger_def isPositiveSafeInteger_def supportedOffer_def supportedKind_def isNonEmptyStr_def absent_or_def)

lemma x_stored: "stored_snapshot text_codec s = s"
proof -
  have "stored_run text_codec = (\<lambda>r. r)" "stored_last text_codec = (\<lambda>l. l)"
    by (simp_all add: fun_eq_iff stored_run_def stored_last_def canon_def)
  then show ?thesis by (simp add: stored_snapshot_def option.map_ident)
qed

lemma x_durable: "validSnapshot s \<Longrightarrow> durable x_opts (x_db n s) = Some s"
  using snapshot_roundtrip [of x_opts s] by (simp add: durable_def x_db_def decode_def row_state_def text_codec_values x_stored)

lemma enc_lengths: "length (enc_str s) = 2 * length s + 1"
  "length (enc (JNum 0)) = 5" "length (enc (JNum 1)) = 6" "length (enc (JNum 2)) = 7" "length (enc (JNum 4)) = 9" "length (enc (JNum 9)) = 14"
  "length (enc (JNum 10)) = 15"
  by (simp_all add: enc_str_def enc_num_def length_concat comp_def sum_list_triv)

lemma x_length: "length (enc (snapshot_json x_opts (x_snap Ph_prepared False))) < 10000" "length (enc (snapshot_json x_opts (x_snap Ph_starting True))) < 10000"
  using isUuidStr_length [OF demo_uuid_ok] isUuidStr_length [OF other_uuid_ok]
  by (simp_all add: snapshot_json_def x_snap_def x_run_def x_fence_def run_json_def fence_json_def nullable_def length_concat enc_lengths [simplified])

section \<open>Store calls\<close>

lemma x_visit: "visit (transition_json x_opts (x_snap ph may) [] []) 0" "visit (snapshot_json x_opts (x_snap ph may)) 0"
  by (simp_all add: transition_json_def snapshot_json_def x_snap_def x_run_def x_fence_def run_json_def fence_json_def nullable_def)

lemma x_apply:
  assumes "safe (n + 1)"
  shows "applyTransition demo_cf db STATE_KEY n (transition_json x_opts (x_snap ph may) [] []) =
    Inr (db\<lparr>nd_state := AList.update STATE_KEY \<lparr>sr_revision = n + 1, sr_value = enc (snapshot_json x_opts (x_snap ph may))\<rparr> (nd_state db)\<rparr>, n + 1)"
proof -
  have "integer_arg (of_nat (n + 1)) = Inr (n + 1)" using assms unfolding integer_arg_Inr safe_def by simp
  moreover have "obj_get (transition_json x_opts (x_snap ph may) [] []) ''state'' = Some (snapshot_json x_opts (x_snap ph may))"
    "array_prop (obj_get (transition_json x_opts (x_snap ph may) [] []) ''outbox'') = Inr []"
    "array_prop (obj_get (transition_json x_opts (x_snap ph may) [] []) ''effects'') = Inr []"
    by (simp_all add: transition_json_def array_prop_def)
  ultimately show ?thesis
    using x_visit [of ph may] unfolding applyTransition_def json_text_def
    by (simp add: Let_def del: enc.simps of_nat_add)
qed

lemma x_capacity:
  assumes "s = x_snap Ph_prepared False \<or> s = x_snap Ph_starting True"
  shows "capacity demo_cf (x_db n s) = Inr ()"
  using assms x_length by (auto simp: capacity_Inr usage_entries_def usage_bytes_def x_db_def safe_def STATE_KEY_def simp del: enc.simps)

lemma x_first:
  "nr_transition demo_cf demo_db STATE_KEY 0 (\<lambda>_. Inr (transition_json x_opts (x_snap Ph_prepared False) [] [])) = Inr (x_db 1 (x_snap Ph_prepared False), 1)"
proof -
  have "key_ok text_codec STATE_KEY" using good_optsD(3) [OF x_good(1)] by simp
  then show ?thesis
    using x_apply [of 0 demo_db Ph_prepared False] x_capacity [of "x_snap Ph_prepared False" 1]
    by (simp add: nr_transition_def integer_arg_def readState_def revision_of_def x_db_def safe_def del: enc.simps)
qed

lemma x_reachable: "reachable demo_cf (x_db 1 (x_snap Ph_prepared False))"
proof -
  let ?op = "Op_transition STATE_KEY 0 (\<lambda>_. Inr (transition_json x_opts (x_snap Ph_prepared False) [] []))"
  have "after demo_cf (demo_store demo_db) [(healthy, ?op)] = x_db 1 (x_snap Ph_prepared False)"
    by (simp add: after_def tx_step_def transaction_healthy with_out_def x_first)
  moreover have "clean_calls demo_cf [(healthy, ?op)]"
    using transition_names [OF x_good(1), of "[]"] clean_state_key by (simp add: clean_calls_def effects_clean_def)
  ultimately show ?thesis
    unfolding reachable_def using demo_open
    by (intro exI [of _ None] exI [of _ "demo_store demo_db"] exI) (auto intro: sym)
qed

lemma x_rest: "at_rest x_opts (x_db 1 (x_snap Ph_prepared False))"
  using x_reachable x_durable [OF x_valid(1)] by (auto simp: at_rest_def x_snap_def slot_runs_def x_run_def)

lemma x_inv: "rt_inv demo_cf (x_db 1 (x_snap Ph_prepared False))"
  by (rule reachable_inv [OF _ x_reachable]) (simp add: text_codec_ok)

section \<open>A start\<close>

text \<open>A host of this node, with its database and the parts of its state that matter.\<close>

definition x_host :: "nat \<Rightarrow> exec_snapshot \<Rightarrow> nat \<Rightarrow> ex_host" where
  "x_host m s n = fresh_host (demo_store (x_db m s)) n []"

lemma x_db_update: "x_db m s\<lparr>nd_state := AList.update STATE_KEY \<lparr>sr_revision = k, sr_value = enc (snapshot_json x_opts t)\<rparr> (nd_state (x_db m s))\<rparr> = x_db k t"
  by (simp add: x_db_def)

lemma x_readState:
  assumes "safe m" "1 \<le> m"
  shows "readState text_codec (x_db m (x_snap ph may)) STATE_KEY = Inr (Some \<lparr>rs_key = STATE_KEY, rs_revision = m, rs_value = snapshot_json x_opts (x_snap ph may)\<rparr>)"
proof -
  have "key_ok text_codec STATE_KEY" using good_optsD(3) [OF x_good(1)] by simp
  then show ?thesis
    using assms by (simp add: readState_def x_db_def decodeState_def storedInteger_def safe_def valid_def storedJson_def x_visit del: enc.simps)
qed

lemma x_read:
  assumes "eh_store h = demo_store (x_db m (x_snap ph may))" "validSnapshot (x_snap ph may)" "safe m" "1 \<le> m"
  shows "read_state x_opts x_io h = (h\<lparr>eh_calls := eh_calls h + 1\<rparr>, Inr (m, x_snap ph may))"
proof -
  have "decode x_opts (Some \<lparr>rs_key = STATE_KEY, rs_revision = m, rs_value = snapshot_json x_opts (x_snap ph may)\<rparr>) = Some (x_snap ph may)"
    using x_durable [OF assms(2), of m] by (simp add: durable_def x_db_def row_state_def)
  then show ?thesis
    using assms(1) x_readState [OF assms(3,4), of ph may]
    by (simp add: read_state_def seq_def rt_call_def transaction_healthy read_out_def ret_def revision_of_def del: enc.simps)
qed

lemma x_change_none:
  assumes "eh_store h = demo_store (x_db m (x_snap ph may))" "validSnapshot (x_snap ph may)" "safe m" "1 \<le> m" "edit (x_snap ph may) = Inr None"
  shows "change x_opts x_io edit h = (h\<lparr>eh_calls := eh_calls h + 1\<rparr>, Inr False)"
  using x_read [OF assms(1-4)] assms(5) by (simp add: change_def seq_def lift_def ret_def)

lemma x_change:
  assumes "eh_store h = demo_store (x_db m (x_snap ph may))" "validSnapshot (x_snap ph may)" "safe (m + 1)" "1 \<le> m" "edit (x_snap ph may) = Inr (Some (t, []))"
    and t: "t = x_snap Ph_starting True"
  shows "change x_opts x_io edit h = (h\<lparr>eh_store := demo_store (x_db (m + 1) t), eh_calls := eh_calls h + 2\<rparr>, Inr True)"
proof -
  have m: "safe m" using assms(3) by (simp add: safe_def)
  have k: "key_ok text_codec STATE_KEY" using good_optsD(3) [OF x_good(1)] by simp
  have a: "integer_arg (of_nat m) = Inr m" using m unfolding integer_arg_Inr safe_def by simp
  have "nr_transition demo_cf (x_db m (x_snap ph may)) STATE_KEY (of_nat m) (\<lambda>_. Inr (transition_json x_opts t [] [])) = Inr (x_db (m + 1) t, m + 1)"
    using k a x_readState [OF m assms(4), of ph may] x_apply [OF assms(3), of "x_db m (x_snap ph may)" Ph_starting True] x_capacity [of t "m + 1"] t
    unfolding nr_transition_def x_db_update by (simp add: revision_of_def del: enc.simps)
  then show ?thesis
    using x_read [OF assms(1,2) m assms(4)] assms(1,5)
    by (simp add: change_def seq_def lift_def ret_def rt_call_def transaction_healthy with_out_def)
qed

lemma x_the_slot:
  assumes "eh_store h = demo_store (x_db m (x_snap ph may))" "validSnapshot (x_snap ph may)" "safe m" "1 \<le> m"
  shows "the_slot x_opts x_io h = (h\<lparr>eh_calls := eh_calls h + 1\<rparr>, Inr (Some (x_run ph may)))"
  using x_read [OF assms] by (simp add: the_slot_def seq_def ret_def x_snap_def)

lemma x_old:
  assumes "eh_store h = demo_store (x_db m (x_snap ph may))" "validSnapshot (x_snap ph may)" "safe m" "1 \<le> m"
  shows "completeOldEffects x_opts x_io h = (h\<lparr>eh_calls := eh_calls h + 2\<rparr>, Inr ())"
proof -
  have "nr_pendingEffects demo_cf (x_db m (x_snap ph may)) 10000 True = Inr []"
    by (simp add: nr_pendingEffects_def integer_arg_def x_db_def demo_db_def empty_db_def)
  then show ?thesis
    using x_the_slot [OF assms] assms(1)
    by (simp add: completeOldEffects_def checked_def catching_def seq_def rt_call_def transaction_healthy read_out_def obsolete_effects_def ret_def)
qed

abbreviation "x_p \<equiv> x_snap Ph_prepared False"

definition x_ready :: "nat \<Rightarrow> ex_host" where
  "x_ready n = (fresh_host (demo_store (x_db 1 x_p)) n [])\<lparr>eh_ready := True, eh_settling := Some (Sp_loop 0)\<rparr>"

definition x_invoke :: "nat \<Rightarrow> ex_host" where
  "x_invoke n = (fresh_host (demo_store (x_db 2 (x_snap Ph_starting True))) n [])
     \<lparr>eh_ready := True, eh_starting := True, eh_settling := Some (Sp_invoke 0 (x_run Ph_prepared False))\<rparr>"

lemmas proc_defs = seq_def ask_def ret_def throw_def on_def upd_def lift_def catching_def checked_def guarded_def assertHealthy_def settle_at_def

lemma x_step1: "ex_step x_opts (fresh_host (demo_store (x_db 1 x_p)) 0 []) (x_io, Ev_settle) = x_ready 3"
  using x_valid(1)
  by (simp add: ex_step_def dx_settle_def dx_recover_def recovered_def proc_defs x_ready_def fresh_host_def x_the_slot x_old x_run_def safe_def)

lemma x_step2: "ex_step x_opts (x_ready n) (x_io, Ev_resume) = x_invoke (n + 4)"
proof -
  have t: "tick_edit x_seal 1 x_p = Inr None" by (simp add: tick_edit_def x_snap_def x_run_def)
  have e: "starting_edit x_fence x_p = Some (x_snap Ph_starting True, [])"
    by (simp add: starting_edit_def x_snap_def x_run_def)
  have f: "dr_fence (x_run ph may) = x_fence" "dr_phase (x_run ph may) = ph" for ph may by (simp_all add: x_run_def)
  show ?thesis
    using x_valid(1) t e
    by (simp add: ex_step_def settle_pass_def dx_tick_def proc_defs x_ready_def fresh_host_def x_the_slot x_change_none x_change
        settle_phase_def start_commit_def live_of_def safe_def isSafeInteger_def x_invoke_def f numeral_2_eq_2)
qed

lemma x_step3: "eh_log (ex_step x_opts (x_invoke n) (x_io, Ev_invoke)) = [L_start x_fence]"
  by (simp add: ex_step_def start_invoke_def proc_defs x_invoke_def fresh_host_def emit_def x_run_def)

definition x_evs :: "(exec_io \<times> ex_event) list" where
  "x_evs = [(x_io, Ev_settle), (x_io, Ev_resume), (x_io, Ev_invoke)]"

lemma x_evs_ok: "list_all (ev_ok x_opts) x_evs"
  by (simp add: x_evs_def ev_ok_def)

lemma x_log: "eh_log (history x_opts (x_db 1 x_p) x_evs) = [L_start x_fence]"
  unfolding history_def x_evs_def ex_run.simps demo_store_eq x_step1 x_step2 by (rule x_step3)

section \<open>The theorems at work\<close>

theorem one_run_at_a_time_witness:
  "eh_log (history x_opts (x_db 1 x_p) x_evs) = [] @ L_start x_fence # [] \<and> running [] = {} \<and> x_fence \<notin> started []"
  using one_run_at_a_time [OF x_good(1) x_rest x_evs_ok, of "[]" x_fence "[]"] x_log by simp


theorem executor_state_decodes_witness:
  "\<exists>s. durable x_opts (db_of (history x_opts (x_db 1 x_p) x_evs)) = Some s \<and> validSnapshot s"
  by (rule executor_state_decodes [OF x_good(1) x_rest x_evs_ok])

theorem executor_state_roundtrip_witness:
  "decode x_opts (Some \<lparr>rs_key = STATE_KEY, rs_revision = 1, rs_value = snapshot_json x_opts x_p\<rparr>) = Some x_p"
  using executor_state_roundtrip [of x_opts x_p 1] x_valid(1) by (simp add: text_codec_values x_stored)

section \<open>A run that ends\<close>

definition x_done :: exec_snapshot where
  "x_done = \<lparr>sn_generation = 1, sn_slot = None, sn_last = Some \<lparr>la_fence = x_fence, la_lead = demo_uuid, la_outcome = failed ''stopped''\<rparr>\<rparr>"

definition x_db3 :: node_db where
  "x_db3 = demo_db\<lparr>
     nd_delivery := [((demo_uuid, other_uuid), \<lparr>dl_digest = toy_sha (enc (demo_msg other_uuid)), dl_status = Dl_pending, dl_stored_at = None\<rparr>)],
     nd_outbox := [((demo_uuid, other_uuid), \<lparr>ob_payload = enc (demo_msg other_uuid), ob_attempts = 0, ob_last_at = 0\<rparr>)],
     nd_state := [(STATE_KEY, \<lparr>sr_revision = 3, sr_value = enc (snapshot_json x_opts x_done)\<rparr>)]\<rparr>"

lemma x_done_length: "length (enc (snapshot_json x_opts x_done)) < 10000"
  using isUuidStr_length [OF demo_uuid_ok] isUuidStr_length [OF other_uuid_ok]
  by (simp add: snapshot_json_def x_done_def x_fence_def last_json_def fence_json_def outcome_json_def failed_def nullable_def length_concat enc_lengths [simplified])

lemma x_done_commit:
  "nr_transition demo_cf (x_db 2 (x_snap Ph_starting True)) STATE_KEY 2 (\<lambda>_. Inr (transition_json x_opts x_done [demo_msg other_uuid] [])) = Inr (x_db3, 3)"
proof -
  let ?result = "transition_json x_opts x_done [demo_msg other_uuid] []"
  have v: "visit ?result 0" "visit (snapshot_json x_opts x_done) 0"
    by (simp_all add: transition_json_def snapshot_json_def x_done_def x_fence_def last_json_def fence_json_def outcome_json_def failed_def
        nullable_def demo_msg_def demo_fields_def)
  have f: "array_prop (obj_get ?result ''outbox'') = Inr [demo_msg other_uuid]" "array_prop (obj_get ?result ''effects'') = Inr []"
    "obj_get ?result ''state'' = Some (snapshot_json x_opts x_done)"
    by (simp_all add: transition_json_def array_prop_def)
  have "applyTransition demo_cf (x_db 2 (x_snap Ph_starting True)) STATE_KEY 2 ?result = Inr (x_db3, 3)"
    unfolding applyTransition_def Let_def json_text_def using v f
    by (simp add: integer_arg_def saveEntry_def Let_def findDelivery_def x_db_def x_db3_def demo_db_def empty_db_def del: enc.simps)
  moreover have "capacity demo_cf x_db3 = Inr ()"
    using demo_text_length x_done_length isUuidStr_length [OF demo_uuid_ok] isUuidStr_length [OF other_uuid_ok]
    by (simp add: capacity_Inr usage_entries_def usage_bytes_def x_db3_def safe_def STATE_KEY_def demo_db_def empty_db_def del: enc.simps)
  moreover have "key_ok text_codec STATE_KEY" using good_optsD(3) [OF x_good(1)] by simp
  ultimately show ?thesis
    using x_readState [of 2 Ph_starting True] by (simp add: nr_transition_def integer_arg_def revision_of_def safe_def)
qed

definition x_busy :: ex_host where
  "x_busy = fresh_host (demo_store (x_db 2 (x_snap Ph_starting True))) 0 []"

lemma x_busy_ok: "db_ok x_opts x_busy (x_snap Ph_starting True)"
proof -
  have "nr_transition demo_cf (x_db 1 x_p) STATE_KEY 1 (\<lambda>_. Inr (transition_json x_opts (x_snap Ph_starting True) [] [])) =
      Inr (x_db 2 (x_snap Ph_starting True), 2)"
    using x_readState [of 1 Ph_prepared False] x_apply [of 1 "x_db 1 x_p" Ph_starting True] x_capacity [of "x_snap Ph_starting True" 2]
      good_optsD(3) [OF x_good(1)] x_db_update [where m = 1 and s = x_p and k = "Suc (Suc 0)" and t = "x_snap Ph_starting True"]
    by (simp add: nr_transition_def integer_arg_def revision_of_def safe_def numeral_2_eq_2 del: enc.simps)
  then have "rt_exec demo_cf (Op_transition STATE_KEY 1 (\<lambda>_. Inr (transition_json x_opts (x_snap Ph_starting True) [] []))) (x_db 1 x_p) =
      Inr (x_db 2 (x_snap Ph_starting True), Ot_nat 2)" by (simp add: with_out_def)
  from call_inv [OF x_good(1) _ this [folded x_sel(1)]] x_inv transition_names [OF x_good(1), of "[]"] clean_state_key
  have "rt_inv demo_cf (x_db 2 (x_snap Ph_starting True))" by (simp add: effects_clean_def del: rt_exec.simps)
  then show ?thesis using x_durable [OF x_valid(2), of 2] x_valid(2) by (simp add: db_ok_def x_busy_def fresh_host_def)
qed

lemma x_finish: "snd (dx_finish x_opts x_io x_fence (failed ''stopped'') x_busy) = Inr ()"
proof -
  have e: "finish_edit x_seal x_fence (failed ''stopped'') (x_snap Ph_starting True) = Some (x_done, [demo_msg other_uuid])"
    by (simp add: finish_edit_def x_snap_def x_run_def x_done_def x_seal_def)
  have st: "eh_store x_busy = demo_store (x_db 2 (x_snap Ph_starting True))" by (simp add: x_busy_def fresh_host_def)
  from x_read [OF st x_valid(2)] e st x_done_commit show ?thesis
    by (simp add: dx_finish_def change_def seq_def lift_def ret_def upd_def rt_call_def transaction_healthy with_out_def safe_def)
qed


section \<open>An offer that is nested too deeply\<close>

fun nest :: "nat \<Rightarrow> json" where
  "nest 0 = JNull"
| "nest (Suc n) = JArr [nest n]"

definition x_deep :: json where
  "x_deep = JObj (AList.update ''from'' (JObj [(''node_id'', JStr demo_uuid), (''team_id'', JStr ''t''), (''key_epoch'', JNum 1)])
     (AList.update ''body'' (JObj [(''kind'', JStr ''aid''), (''summary'', JStr ''go''), (''lease_ms'', JNum 9), (''more'', nest 62)]) demo_fields))"

definition x_row :: inbox_row where
  "x_row = \<lparr>ib_digest = toy_sha (enc x_deep), ib_payload = Some (enc x_deep), ib_decision = Undecided, ib_state_key = None, ib_revision = None\<rparr>"

definition x_inbox :: node_db where
  "x_inbox = demo_db\<lparr>nd_inbox := [((demo_uuid, demo_uuid), x_row)]\<rparr>"

lemma visit_nest [simp]: "visit (nest n) d \<longleftrightarrow> d + n \<le> 64"
  by (induction n arbitrary: d) auto

lemma numbers_nest [simp]: "numbers (nest n) = {}"
  by (induction n) simp_all

lemma enc_nest [simp]: "length (enc (nest n)) = 2 * n + 1"
  by (induction n) simp_all

lemma protocol_nest [simp]: "protocolJson (nest n) d \<longleftrightarrow> d + n \<le> 64"
  by (induction n arbitrary: d) auto

lemma x_deep_ids [simp]:
  "e_from_node (envelopeOf x_deep) = demo_uuid" "e_to_node (envelopeOf x_deep) = demo_uuid" "e_msg_id (envelopeOf x_deep) = demo_uuid"
  "e_type (envelopeOf x_deep) = ''task.offer''" "e_from_team (envelopeOf x_deep) = Some ''t''"
  by (simp_all add: envelopeOf_def Let_def x_deep_def demo_fields_def str_or_def obj_opt_def str_of_def)

lemma x_deep_valid: "validateEnvelope (\<lambda>_. Some 1000) (\<lambda>_. 64) x_deep DEFAULT_PARAMS False = Inr x_deep"
proof -
  have "isPlainObject x_deep" "common_ok (\<lambda>_. Some 1000) x_deep"
    "family_ok (\<lambda>_. Some 1000) (\<lambda>_. 64) DEFAULT_PARAMS False x_deep" "\<forall>q \<in> numbers x_deep. isSafeInteger q"
    by (simp_all add: x_deep_def demo_fields_def common_ok_def family_ok_def family_def signed_ok_def isUuid_def
        isRfc3339_def optionally_def isSafeIntGe_def DEFAULT_PARAMS_def isNonEmptyStr_def)
  then have "\<exists>v. validateEnvelope (\<lambda>_. Some 1000) (\<lambda>_. 64) x_deep DEFAULT_PARAMS False = Inr v"
    using validate_iff by blast
  then show ?thesis by (auto simp: validateEnvelope_def Let_def split: if_splits)
qed

lemma x_deep_length: "length (enc x_deep) < 3000"
  using isUuidStr_length [OF demo_uuid_ok]
  by (simp add: x_deep_def demo_fields_def length_concat enc_lengths [simplified])

lemma x_deep_envelope: "rt_envelope text_codec x_deep = Inr \<lparr>rn_env = x_deep, rn_payload = enc x_deep, rn_digest = toy_sha (enc x_deep)\<rparr>"
proof -
  have "visit x_deep 0" by (simp add: x_deep_def demo_fields_def)
  moreover have "sig_canonical text_codec (obj_get x_deep ''sig'')"
    by (simp add: x_deep_def demo_fields_def sig_canonical_def text_codec_def)
  ultimately show ?thesis
    using x_deep_length x_deep_valid unfolding rt_envelope_def json_text_def
    by (simp add: max_bytes_def) (simp add: text_codec_def)
qed

lemma x_receives: "nr_receive demo_cf demo_db x_deep = Inr (x_inbox, Rv_new)"
  using x_deep_length isUuidStr_length [OF demo_uuid_ok] x_deep_envelope
  by (simp add: nr_receive_def receive_tx_def Let_def demo_db_def empty_db_def x_inbox_def x_row_def capacity_def readUsage_def
      storedInteger_def usage_entries_def usage_bytes_def inbox_bytes_def)

definition x_idle :: ex_host where
  "x_idle = (fresh_host (demo_store x_inbox) 0 [])\<lparr>eh_ready := True\<rparr>"

lemma x_idle_ok: "db_ok x_opts x_idle no_runs"
proof -
  have "rt_inv demo_cf demo_db" using empty_inv [of demo_cf "Some demo_uuid"] by (simp add: demo_db_def)
  moreover have "rt_exec demo_cf (Op_receive x_deep) demo_db = Inr (x_inbox, Ot_receive Rv_new)" by (simp add: x_receives with_out_def)
  ultimately have "rt_inv demo_cf x_inbox" using call_inv [OF x_good(1), of demo_db "Op_receive x_deep" x_inbox] by simp
  moreover have "durable x_opts x_inbox = Some no_runs" by (simp add: durable_def x_inbox_def decode_def)
  ultimately show ?thesis by (simp add: db_ok_def x_idle_def fresh_host_def no_runs_def validSnapshot_def nonnegative_def)
qed

lemma x_deep_accepted: "offer_reason x_opts True no_runs x_deep 1 None = None"
proof -
  have b: "e_body (envelopeOf x_deep) = [(''kind'', JStr ''aid''), (''summary'', JStr ''go''), (''lease_ms'', JNum 9), (''more'', nest 62)]"
    "e_task_id (envelopeOf x_deep) = Some demo_uuid" "e_attempt (envelopeOf x_deep) = Some 1"
    by (simp_all add: envelopeOf_def Let_def x_deep_def demo_fields_def str_of_def num_of_def nat_of_def)
  show ?thesis
    by (simp add: offer_reason_def Let_def b no_runs_def pos_opt_def coalesce_def positive_def isSafeInteger_def absent_or_def
        expired_offer_def text_codec_def gatePolicy_def gateCaps_def caps_of_def supportedOffer_def supportedKind_def isNonEmptyStr_def
        isPositiveSafeInteger_def DEFAULT_PARAMS_def x_opts_def posSafeInt_def num_of_def arr_of_def caps_ok_def pass_gate_def)
qed

lemma x_deep_offer:
  "\<exists>s1 out effs r. handle_message x_opts x_io (eh_ready x_idle \<and> \<not> eh_closing x_idle) x_deep True no_runs = Inr ((s1, out), effs) \<and>
     sn_slot s1 = Some r \<and> \<not> visit (JObj (dr_offer r)) 3"
proof -
  have m: "handle_message x_opts x_io True x_deep True no_runs = dx_offer x_opts True x_seal other_uuid (io_iso x_io) no_runs x_deep 1 None"
  proof -
    have "js_true (obj_get x_deep ''sig'')" "e_exp (envelopeOf x_deep) \<noteq> None"
      by (simp_all add: x_deep_def demo_fields_def envelopeOf_def Let_def str_of_def)
    then show ?thesis by (auto simp: handle_message_def Let_def text_codec_def)
  qed
  have b: "e_body (envelopeOf x_deep) = [(''kind'', JStr ''aid''), (''summary'', JStr ''go''), (''lease_ms'', JNum 9), (''more'', nest 62)]"
    by (simp add: envelopeOf_def Let_def x_deep_def demo_fields_def)
  show ?thesis
    using m x_deep_accepted b
    by (simp add: dx_offer_def x_idle_def fresh_host_def Let_def no_runs_def isSafeInteger_def prepared_run_def)
qed

theorem deep_offer_faults_witness:
  "isl (snd (dx_consume x_opts x_io x_deep True x_idle)) \<and> eh_faulted (fst (dx_consume x_opts x_io x_deep True x_idle)) \<and>
   db_of (fst (dx_consume x_opts x_io x_deep True x_idle)) = x_inbox"
proof -
  from x_deep_offer obtain s1 out effs r where o:
    "handle_message x_opts x_io (eh_ready x_idle \<and> \<not> eh_closing x_idle) x_deep True no_runs = Inr ((s1, out), effs)"
    "sn_slot s1 = Some r" "\<not> visit (JObj (dr_offer r)) 3" by blast
  have db: "db_of x_idle = x_inbox" "\<not> eh_faulted x_idle" by (simp_all add: x_idle_def fresh_host_def)
  have row: "map_of (nd_inbox (db_of x_idle)) (e_from_node (envelopeOf x_deep), e_msg_id (envelopeOf x_deep)) = Some x_row"
    "ib_decision x_row = Undecided" by (simp_all add: db x_inbox_def x_row_def)
  have "readEnvelope demo_cf (demo_uuid, demo_uuid) (toy_sha (enc x_deep)) (enc x_deep) False = Inr x_deep"
    using readEnvelope_stored [of demo_cf x_deep _ "(demo_uuid, demo_uuid)" False] text_codec_ok x_deep_envelope by auto
  then have read: "readInbox (xo_cfg x_opts) (db_of x_idle) (e_from_node (envelopeOf x_deep), e_msg_id (envelopeOf x_deep)) x_row = Inr (Some x_deep)"
    by (simp add: readInbox_def x_row_def storedIdentity_def toy_sha_digest del: enc.simps)
  have gate: "r1_gate (nc_codec (xo_cfg x_opts)) (db_of x_idle) (e_from_node (envelopeOf x_deep)) STATE_KEY x_deep =
      Inr (x_inbox\<lparr>nd_dedup := [((demo_uuid, STATE_KEY, dedup_key text_codec x_deep), body_digest text_codec x_deep)]\<rparr>, Applied)"
    by (simp add: r1_gate_def usesR1Dedup_def Let_def db x_inbox_def body_digest_def)
  show ?thesis
    using deep_offer_faults [OF x_good(1) x_idle_ok db(2) o row read gate prod.collapse [symmetric]] db(1) by simp
qed

end
