(* ===== verification/Task_Report.thy ===== *)
theory Task_Report
  imports Lead_Machine Node_Store Json_Read Host_Procs
begin

text \<open>
  Task reports, \<open>packages/node/src/runtime/report.ts\<close>: the intent that the lead commits with every change of a task's
  state, and \<open>DurableTaskReporter\<close>, which posts the pending intents to the registry in the order of their rows. Its
  \<open>flush\<close> is cut at the await of the sink: \<open>rp_flushes\<close> holds where every running flush stands, and \<open>rp_log\<close> the posts
  that were made and their answers. A report of a task that failed blocks the later ones of the task in that flush.
\<close>

section \<open>Reports\<close>

definition TASK_REPORT_KIND :: string where
  "TASK_REPORT_KIND = ''task.report''"

fun state_text :: "lead_state \<Rightarrow> string" where
  "state_text Drafting = ''drafting''"
| "state_text Offered = ''offered''"
| "state_text Running = ''running''"
| "state_text Reclaiming = ''reclaiming''"
| "state_text Cancelling = ''cancelling''"
| "state_text Done = ''done''"
| "state_text Failed = ''failed''"
| "state_text Escalated = ''escalated''"
| "state_text lead_state.Closed = ''closed''"

definition TASK_REPORT_STATUSES :: "lead_state list" where
  "TASK_REPORT_STATUSES = [Drafting, Offered, Running, Reclaiming, Cancelling, Done, Failed, Escalated, lead_state.Closed]"

fun kind_text :: "task_kind \<Rightarrow> string" where
  "kind_text Aid = ''aid''"
| "kind_text Project = ''project''"

record task_report =
  rp_task_id :: string
  rp_team_id :: string
  rp_lead :: string
  rp_exec :: "string option"
  rp_attempt :: number
  rp_status :: lead_state
  rp_type :: task_kind
  rp_task_seq :: number

definition report_json :: "task_report \<Rightarrow> json" where
  "report_json r = JObj [
     (''task_id'', JStr (rp_task_id r)), (''team_id'', JStr (rp_team_id r)), (''lead'', JStr (rp_lead r)),
     (''exec'', nullable JStr (rp_exec r)), (''attempt'', JNum (rp_attempt r)), (''status'', JStr (state_text (rp_status r))),
     (''type'', JStr (kind_text (rp_type r))), (''task_seq'', JNum (rp_task_seq r))]"

definition taskReportEffect :: "task_report \<Rightarrow> string \<Rightarrow> json" where
  "taskReportEffect r effectId =
     JObj [(''id'', JStr effectId), (''kind'', JStr TASK_REPORT_KIND), (''payload'', report_json r)]"

definition uuid_of :: "json option \<Rightarrow> string option" where
  "uuid_of v = (case str_of v of None \<Rightarrow> None | Some s \<Rightarrow> if isUuidStr s then Some s else None)"

definition num_if :: "(number \<Rightarrow> bool) \<Rightarrow> json option \<Rightarrow> number option" where
  "num_if P v = (case num_of v of None \<Rightarrow> None | Some q \<Rightarrow> if P q then Some q else None)"

text \<open>\<open>parseTaskReport\<close>; \<open>None\<close> where it throws.\<close>

definition parseTaskReport :: "json \<Rightarrow> task_report option" where
  "parseTaskReport payload =
     Option.bind (obj_of (Some payload)) (\<lambda>b.
     Option.bind (uuid_of (map_of b ''task_id'')) (\<lambda>task.
     Option.bind (if named (map_of b ''team_id'') then str_of (map_of b ''team_id'') else None) (\<lambda>team.
     Option.bind (uuid_of (map_of b ''lead'')) (\<lambda>lead.
     Option.bind (null_or uuid_of (map_of b ''exec'')) (\<lambda>exec.
     Option.bind (num_if positive (map_of b ''attempt'')) (\<lambda>att.
     Option.bind (num_if nonnegative (map_of b ''task_seq'')) (\<lambda>n.
     Option.bind (one_of state_text TASK_REPORT_STATUSES (map_of b ''status'')) (\<lambda>status.
     Option.bind (one_of kind_text [Aid, Project] (map_of b ''type'')) (\<lambda>kind.
       Some \<lparr>rp_task_id = task, rp_team_id = team, rp_lead = lead, rp_exec = exec, rp_attempt = att,
             rp_status = status, rp_type = kind, rp_task_seq = n\<rparr>)))))))))"

section \<open>The reporter\<close>

datatype report_label = Rl_post rt_effect | Rl_answer rt_effect bool nat

text \<open>A flush that waits for the answer to its post: the effect, the rest of the list, the blocked tasks, the count.\<close>

record flush_pc =
  fl_effect :: rt_effect
  fl_report :: task_report
  fl_rest :: "rt_effect list"
  fl_blocked :: "string list"
  fl_delivered :: nat

record report_host =
  rh_store :: "node_db store"
  rh_calls :: nat
  rh_flushes :: "flush_pc list"
  rh_log :: "report_label list"

datatype report_fault = Rf_invalid | Rf_deadline | Rf_store rt_error

type_synonym 'a rproc = "(report_host, report_fault, 'a) procedure"

record report_opts =
  ro_cfg :: node_cfg
  ro_limit :: number

definition rp_call :: "report_opts \<Rightarrow> (nat \<Rightarrow> platform) \<Rightarrow> rt_op \<Rightarrow> rt_out rproc" where
  "rp_call ro pf op h =
     (case transaction (pf (rh_calls h)) (rh_store h) (rt_exec (ro_cfg ro) op) of
        (st, r) \<Rightarrow> (h\<lparr>rh_store := st, rh_calls := rh_calls h + 1\<rparr>, map_sum Rf_store id r))"

definition rp_emit :: "report_label \<Rightarrow> unit rproc" where
  "rp_emit l = upd (\<lambda>h. h\<lparr>rh_log := rh_log h @ [l]\<rparr>)"

definition intents :: "report_opts \<Rightarrow> (nat \<Rightarrow> platform) \<Rightarrow> rt_effect list rproc" where
  "intents ro pf =
     seq (rp_call ro pf (Op_pendingEffects (ro_limit ro) True)) (\<lambda>out.
       (case out of
          Ot_effects effs \<Rightarrow> ret (filter (\<lambda>e. re_kind e = TASK_REPORT_KIND) effs)
        | _ \<Rightarrow> throw Rf_invalid))"

text \<open>The loop of \<open>flush\<close> up to its next post; at the end the number delivered and the number still pending.\<close>

fun flush_loop :: "report_opts \<Rightarrow> (nat \<Rightarrow> platform) \<Rightarrow> rt_effect list \<Rightarrow> string list \<Rightarrow> nat \<Rightarrow> (nat \<times> nat) option rproc" where
  "flush_loop ro pf [] blocked delivered =
     seq (intents ro pf) (\<lambda>left. ret (Some (delivered, length left)))"
| "flush_loop ro pf (e # es) blocked delivered =
     (case parseTaskReport (re_payload e) of
        None \<Rightarrow> throw Rf_invalid
      | Some r \<Rightarrow>
          if rp_task_id r \<in> set blocked then flush_loop ro pf es blocked delivered
          else seq (rp_emit (Rl_post e)) (\<lambda>_.
               seq (upd (\<lambda>h. h\<lparr>rh_flushes := rh_flushes h @
                      [\<lparr>fl_effect = e, fl_report = r, fl_rest = es, fl_blocked = blocked, fl_delivered = delivered\<rparr>]\<rparr>)) (\<lambda>_.
                 ret None)))"

definition rp_flush :: "report_opts \<Rightarrow> (nat \<Rightarrow> platform) \<Rightarrow> (nat \<times> nat) option rproc" where
  "rp_flush ro pf = seq (intents ro pf) (\<lambda>effs. flush_loop ro pf effs [] 0)"

text \<open>The sink answers the post of flush \<open>i\<close>; an exception is the answer \<open>(False, 0)\<close>.\<close>

definition rp_answered :: "report_opts \<Rightarrow> (nat \<Rightarrow> platform) \<Rightarrow> nat \<Rightarrow> bool \<Rightarrow> nat \<Rightarrow> (nat \<times> nat) option rproc" where
  "rp_answered ro pf i ok status =
     seq (ask (\<lambda>h. if i < length (rh_flushes h) then Some (rh_flushes h ! i) else None)) (\<lambda>pc.
       (case pc of
          None \<Rightarrow> ret None
        | Some f \<Rightarrow>
            seq (upd (\<lambda>h. h\<lparr>rh_flushes := take i (rh_flushes h) @ drop (i + 1) (rh_flushes h)\<rparr>)) (\<lambda>_.
            seq (rp_emit (Rl_answer (fl_effect f) ok status)) (\<lambda>_.
              if ok \<or> status = 409 then
                (let e = fl_effect f in
                 seq (rp_call ro pf (Op_completeEffect (re_id e) (re_state_key e) (of_nat (re_revision e)) True)) (\<lambda>_.
                   flush_loop ro pf (fl_rest f) (fl_blocked f) (fl_delivered f + 1)))
              else flush_loop ro pf (fl_rest f) (rp_task_id (fl_report f) # fl_blocked f) (fl_delivered f)))))"

text \<open>What \<open>close\<close> does when a pass has ended: it returns, or sleeps and flushes again.\<close>

definition close_pass :: "number \<Rightarrow> number \<Rightarrow> nat \<times> nat \<Rightarrow> nat \<Rightarrow> (nat \<times> nat) option" where
  "close_pass deadline now pass delivered =
     (if snd pass = 0 then Some (delivered + fst pass, 0)
      else if deadline \<le> now then Some (delivered + fst pass, snd pass)
      else None)"

definition rp_close :: "number \<Rightarrow> number \<Rightarrow> report_fault + number" where
  "rp_close now deadlineMs = (if \<not> nonnegative deadlineMs then Inl Rf_deadline else Inr (now + deadlineMs))"

end
