(* ===== verification/Artifact.thy ===== *)
theory Artifact
  imports Lead_Machine Gateway_Custody Json_Read "HOL-Library.List_Lexorder" "HOL-Library.Char_ord"
begin

text \<open>
  Artifact manifests, \<open>packages/node/src/collab/artifact-manifest.ts\<close>: the executor hashes the files of an attempt and
  signs the list; the lead checks the list it received against the files it collected and against the contract of the
  task. A received manifest is a JSON value: the signature covers all of it, also properties that nothing reads. The
  bytes of a file are a string; the record \<open>ed_lib\<close> is the ed25519 library and base64, where \<open>None\<close> of \<open>ed_verify\<close> is
  an exception.
\<close>

record ed_lib =
  ed_sign :: "string \<Rightarrow> string \<Rightarrow> string"
  ed_verify :: "string \<Rightarrow> string \<Rightarrow> string \<Rightarrow> bool option"
  ed_to64 :: "string \<Rightarrow> string"
  ed_from64 :: "string \<Rightarrow> string"

section \<open>The manifest of the executor\<close>

record artifact_entry =
  ae_path :: string
  ae_sha256 :: string
  ae_size :: number

record artifact_manifest =
  am_task_id :: string
  am_attempt :: number
  am_node_id :: string
  am_key_epoch :: number
  am_deliverables :: "artifact_entry list"

definition entry_json :: "artifact_entry \<Rightarrow> json" where
  "entry_json d = JObj [(''path'', JStr (ae_path d)), (''sha256'', JStr (ae_sha256 d)), (''size'', JNum (ae_size d))]"

definition manifest_json :: "artifact_manifest \<Rightarrow> json" where
  "manifest_json m = JObj [(''task_id'', JStr (am_task_id m)), (''attempt'', JNum (am_attempt m)), (''node_id'', JStr (am_node_id m)),
     (''key_epoch'', JNum (am_key_epoch m)), (''deliverables'', JArr (map entry_json (am_deliverables m)))]"

definition file_entry :: "codec \<Rightarrow> string \<times> string \<Rightarrow> artifact_entry" where
  "file_entry cd f = \<lparr>ae_path = fst f, ae_sha256 = cd_sha cd (snd f), ae_size = of_nat (length (snd f))\<rparr>"

definition buildManifest ::
  "codec \<Rightarrow> string \<Rightarrow> number \<Rightarrow> string \<Rightarrow> number \<Rightarrow> (string \<times> string) list \<Rightarrow> artifact_manifest" where
  "buildManifest cd taskId att nodeId keyEpoch files =
     \<lparr>am_task_id = taskId, am_attempt = att, am_node_id = nodeId, am_key_epoch = keyEpoch,
      am_deliverables = sort_key ae_path (map (file_entry cd) files)\<rparr>"

definition signManifest :: "codec \<Rightarrow> ed_lib \<Rightarrow> artifact_manifest \<Rightarrow> string \<Rightarrow> json" where
  "signManifest cd ed m priv =
     JObj [(''alg'', JStr ''ed25519''), (''manifest'', manifest_json m),
       (''sig'', JStr (ed_to64 ed (ed_sign ed (cd_jcs cd (manifest_json m)) priv)))]"

section \<open>The checks of the lead\<close>

definition manifest_of :: "json \<Rightarrow> json" where
  "manifest_of signed = (case obj_get signed ''manifest'' of None \<Rightarrow> JNull | Some m \<Rightarrow> m)"

definition verifyManifest :: "codec \<Rightarrow> ed_lib \<Rightarrow> json \<Rightarrow> string \<Rightarrow> bool" where
  "verifyManifest cd ed signed pub \<longleftrightarrow>
     obj_get signed ''alg'' = Some (JStr ''ed25519'') \<and>
     (case str_of (obj_get signed ''sig'') of
        None \<Rightarrow> False
      | Some sig \<Rightarrow> ed_verify ed (ed_from64 ed sig) (cd_jcs cd (manifest_of signed)) pub = Some True)"

definition manifestDigest :: "codec \<Rightarrow> artifact_manifest \<Rightarrow> string" where
  "manifestDigest cd m = cd_sha cd (cd_jcs cd (manifest_json m))"

definition positive_num :: "json option \<Rightarrow> bool" where
  "positive_num v = (case num_of v of None \<Rightarrow> False | Some q \<Rightarrow> positive q)"

definition read_entry :: "json \<Rightarrow> artifact_entry option" where
  "read_entry d =
     Option.bind (str_of (obj_get d ''path'')) (\<lambda>p.
     Option.bind (str_of (obj_get d ''sha256'')) (\<lambda>h.
     Option.bind (num_of (obj_get d ''size'')) (\<lambda>n.
       if isPlainObject d \<and> named (Some (JStr p)) \<and> is_digest h \<and> isSafeInteger n \<and> 0 \<le> n
       then Some \<lparr>ae_path = p, ae_sha256 = h, ae_size = n\<rparr> else None)))"

text \<open>The loop over the deliverables: a malformed entry or a path seen before refuses the list.\<close>

fun read_entries :: "string list \<Rightarrow> json list \<Rightarrow> artifact_entry list option" where
  "read_entries paths [] = Some []"
| "read_entries paths (d # ds) =
     (case read_entry d of
        None \<Rightarrow> None
      | Some e \<Rightarrow>
          if ae_path e \<in> set paths then None
          else map_option (\<lambda>es. e # es) (read_entries (ae_path e # paths) ds))"

definition deliverables_of :: "json \<Rightarrow> artifact_entry list option" where
  "deliverables_of m = Option.bind (arr_of (obj_get m ''deliverables'')) (read_entries [])"

definition validSignedManifest :: "json option \<Rightarrow> bool" where
  "validSignedManifest value =
     (case value of
        None \<Rightarrow> False
      | Some v \<Rightarrow>
          isPlainObject v \<and> obj_get v ''alg'' = Some (JStr ''ed25519'') \<and> str_of (obj_get v ''sig'') \<noteq> None \<and>
          isPlainObject (manifest_of v) \<and>
          (let m = manifest_of v in
           isUuid (obj_get m ''task_id'') \<and> isUuid (obj_get m ''node_id'') \<and> positive_num (obj_get m ''attempt'') \<and>
           positive_num (obj_get m ''key_epoch'') \<and> deliverables_of m \<noteq> None))"

record delivery_input =
  di_signed :: json
  di_taskId :: string
  di_attempt :: number
  di_pub :: string
  di_fromNodeId :: string
  di_fromKeyEpoch :: number
  di_collected :: "(string \<times> string) list"
  di_contract :: "json option"

definition intact :: "codec \<Rightarrow> (string \<times> string) list \<Rightarrow> artifact_entry \<Rightarrow> bool" where
  "intact cd collected d =
     (case map_of (rev collected) (ae_path d) of
        None \<Rightarrow> False
      | Some bytes \<Rightarrow> of_nat (length bytes) = ae_size d \<and> cd_sha cd bytes = ae_sha256 d)"

text \<open>The declared deliverables; a deliverable that has no path cannot be checked and refuses the delivery.\<close>

definition declared :: "json option \<Rightarrow> json list" where
  "declared contract = (case contract of None \<Rightarrow> [] | Some c \<Rightarrow> (case arr_of (obj_get c ''deliverables'') of None \<Rightarrow> [] | Some ds \<Rightarrow> ds))"

definition delivers :: "artifact_entry list \<Rightarrow> json \<Rightarrow> bool" where
  "delivers ds c = (case str_of (obj_get c ''path'') of None \<Rightarrow> False | Some p \<Rightarrow> p \<in> set (map ae_path ds))"

definition verifyArtifactDelivery :: "codec \<Rightarrow> ed_lib \<Rightarrow> delivery_input \<Rightarrow> bool" where
  "verifyArtifactDelivery cd ed i =
     (let signed = di_signed i; m = manifest_of signed in
      if \<not> validSignedManifest (Some signed) \<or> \<not> isLeadContract (di_contract i) then False
      else if str_of (obj_get m ''task_id'') \<noteq> Some (di_taskId i) \<or> num_of (obj_get m ''attempt'') \<noteq> Some (di_attempt i) then False
      else if str_of (obj_get m ''node_id'') \<noteq> Some (di_fromNodeId i) \<or> num_of (obj_get m ''key_epoch'') \<noteq> Some (di_fromKeyEpoch i) then False
      else if \<not> verifyManifest cd ed signed (di_pub i) then False
      else
        (case deliverables_of m of
           None \<Rightarrow> False
         | Some ds \<Rightarrow> list_all (intact cd (di_collected i)) ds \<and> list_all (delivers ds) (declared (di_contract i))))"

end
