(* ===== verification/Lead_Durable.thy ===== *)
theory Lead_Durable
  imports Task_Report Artifact
begin

text \<open>
  The durable lead, \<open>packages/node/src/runtime/lead.ts\<close>, first part: the state of a task that is kept under the key
  \<open>lead:v2:<task_id>\<close>, its validation, the acceptance context, and \<open>runEvent\<close>, which runs one event on the task machine
  and turns the actions into a new state, outbound messages and a report.

  A stored task is read into the record of the machine. The code never reads the history entries, the result body and
  the cancel reason it has stored, so the record keeps those as the JSON they are (\<open>lt_past\<close>, \<open>lt_body\<close>, \<open>lt_why\<close>) and the
  machine's own fields hold what the current event adds. Properties that the code does not know are not kept.
\<close>

section \<open>Data\<close>

definition LEAD_STATE_PREFIX :: string where
  "LEAD_STATE_PREFIX = ''lead:v2:''"

definition leadStateKey :: "string \<Rightarrow> string" where
  "leadStateKey taskId = LEAD_STATE_PREFIX @ taskId"

definition LEAD_STATES :: "lead_state list" where
  "LEAD_STATES = [Drafting, Offered, Running, Reclaiming, Cancelling, Done, Failed, Escalated, lead_state.Closed]"

definition TERMINAL_STATES :: "lead_state list" where
  "TERMINAL_STATES = [Done, Failed, Escalated, lead_state.Closed]"

fun outcome_text :: "lead_outcome \<Rightarrow> string" where
  "outcome_text Oc_offered = ''offered''"
| "outcome_text Oc_accepted = ''accepted''"
| "outcome_text Oc_rejected = ''rejected''"
| "outcome_text Oc_expired = ''expired''"
| "outcome_text Oc_lost = ''lost''"
| "outcome_text Oc_fail_retryable = ''fail_retryable''"
| "outcome_text Oc_fail_fatal = ''fail_fatal''"
| "outcome_text Oc_acceptance_failed = ''acceptance_failed''"
| "outcome_text Oc_result_delivered = ''result_delivered''"
| "outcome_text Oc_owner_redispatch = ''owner_redispatch''"

fun exclusion_text :: "exclusion \<Rightarrow> string" where
  "exclusion_text Permanent = ''permanent''"
| "exclusion_text Once = ''once''"

fun cancel_text :: "cancel_reason \<Rightarrow> string" where
  "cancel_text Cr_user = ''user''"
| "cancel_text Cr_reclaim = ''reclaim''"
| "cancel_text Cr_acceptance_failed = ''acceptance_failed''"
| "cancel_text Cr_project_aborted = ''project_aborted''"

text \<open>\<open>DurableLeadTask\<close>.\<close>

record lead_task =
  lt_rec :: lead_record
  lt_seq :: nat
  lt_past :: "json list"
  lt_body :: "json option"
  lt_why :: "json option"

text \<open>\<open>RedispatchRequest\<close>.\<close>

record redispatch_request =
  rq_task_id :: string
  rq_nextAttempt :: nat
  rq_excluded :: "(string \<times> exclusion) list"
  rq_kind :: task_kind

record lead_opts =
  lo_cfg :: node_cfg
  lo_team :: string
  lo_params :: qlong_params
  lo_validate :: "(body \<Rightarrow> bool) option"
  lo_collect :: bool
  lo_resolve :: bool
  lo_ed :: ed_lib

section \<open>Writing\<close>

definition opt_field :: "string \<Rightarrow> ('a \<Rightarrow> json) \<Rightarrow> 'a option \<Rightarrow> body" where
  "opt_field k f v = (case v of None \<Rightarrow> [] | Some x \<Rightarrow> [(k, f x)])"

definition history_json :: "lead_history_entry \<Rightarrow> json" where
  "history_json h = JObj ([(''node'', JStr (h_node h)), (''attempt'', JNum (of_nat (h_attempt h))),
     (''outcome'', JStr (outcome_text (h_outcome h)))] @ opt_field ''reason_code'' JStr (h_reason_code h))"

definition task_fixed :: "lead_task \<Rightarrow> body" where
  "task_fixed t = (let r = lt_rec t in [
     (''task_id'', JStr (lr_task_id r)), (''kind'', JStr (kind_text (lr_kind r))), (''leaseMs'', JNum (lr_leaseMs r)),
     (''state'', JStr (state_text (lr_state r))), (''attempt'', JNum (of_nat (lr_attempt r))), (''target'', nullable JStr (lr_target r)),
     (''acceptedThisAttempt'', JBool (lr_acceptedThisAttempt r)), (''acceptedFailedBudget'', JNum (of_nat (lr_acceptedFailedBudget r))),
     (''dispatchRounds'', JNum (of_nat (lr_dispatchRounds r))), (''renewalSeq'', JNum (of_nat (lr_renewalSeq r))),
     (''excluded'', JObj (map (\<lambda>(k, x). (k, JStr (exclusion_text x))) (lr_excluded r))),
     (''history'', JArr (lt_past t @ map history_json (lr_history r))),
     (''version'', JNum 2), (''task_seq'', JNum (of_nat (lt_seq t)))])"

definition task_optional :: "lead_task \<Rightarrow> body" where
  "task_optional t = (let r = lt_rec t in
     opt_field ''offerTtlUntil'' JNum (lr_offerTtlUntil r) @ opt_field ''leaseDeadline'' JNum (lr_leaseDeadline r) @
     opt_field ''drainUntil'' JNum (lr_drainUntil r) @ opt_field ''drainClosed'' JBool (lr_drainClosed r) @
     opt_field ''cancelWaitUntil'' JNum (lr_cancelWaitUntil r) @ opt_field ''completedBeforeCancel'' JBool (lr_completedBeforeCancel r) @
     opt_field ''contract'' (\<lambda>j. j) (lr_contract r) @
     opt_field ''resultBody'' (\<lambda>j. j) (case lr_resultBody r of Some b \<Rightarrow> Some (JObj b) | None \<Rightarrow> lt_body t) @
     opt_field ''cancelReason'' (\<lambda>j. j) (case lr_cancelReason r of Some c \<Rightarrow> Some (JStr (cancel_text c)) | None \<Rightarrow> lt_why t))"

definition task_json :: "lead_task \<Rightarrow> json" where
  "task_json t = JObj (task_fixed t @ task_optional t)"

section \<open>Reading\<close>

definition nat_if :: "json option \<Rightarrow> nat option" where
  "nat_if v = map_option (\<lambda>q. nat \<lfloor>q\<rfloor>) (num_if nonnegative v)"

definition opt_or :: "(json option \<Rightarrow> 'a option) \<Rightarrow> json option \<Rightarrow> 'a option option" where
  "opt_or f v = (case v of None \<Rightarrow> Some None | Some j \<Rightarrow> map_option Some (f (Some j)))"

definition optionalDeadline :: "json option \<Rightarrow> number option option" where
  "optionalDeadline v = opt_or (num_if positive) v"

fun read_excluded :: "body \<Rightarrow> (string \<times> exclusion) list option" where
  "read_excluded [] = Some []"
| "read_excluded ((k, v) # fs) =
     Option.bind (one_of exclusion_text [Permanent, Once] (Some v)) (\<lambda>x. map_option (\<lambda>xs. (k, x) # xs) (read_excluded fs))"

text \<open>The condition of \<open>validTask\<close> across fields.\<close>

definition task_shape :: "lead_task \<Rightarrow> bool" where
  "task_shape t \<longleftrightarrow>
     (let r = lt_rec t in
      if lr_attempt r = 0 then lr_state r = Drafting \<and> lr_target r = None \<and> lt_seq t = 0
      else lr_target r \<noteq> None \<and> 1 \<le> lt_seq t)"

text \<open>\<open>validTask\<close> together with the typed view it gives.\<close>

definition read_task :: "json \<Rightarrow> lead_task option" where
  "read_task v =
     Option.bind (obj_of (Some v)) (\<lambda>f.
     if map_of f ''version'' \<noteq> Some (JNum 2) then None
     else
     Option.bind (nat_if (map_of f ''task_seq'')) (\<lambda>task_seq.
     Option.bind (uuid_of (map_of f ''task_id'')) (\<lambda>task_id.
     Option.bind (one_of kind_text [Aid, Project] (map_of f ''kind'')) (\<lambda>kind.
     Option.bind (one_of state_text LEAD_STATES (map_of f ''state'')) (\<lambda>state.
     Option.bind (nat_if (map_of f ''attempt'')) (\<lambda>att.
     Option.bind (null_or uuid_of (map_of f ''target'')) (\<lambda>target.
     Option.bind (num_if positive (map_of f ''leaseMs'')) (\<lambda>leaseMs.
     Option.bind (bool_of (map_of f ''acceptedThisAttempt'')) (\<lambda>accepted.
     Option.bind (nat_if (map_of f ''acceptedFailedBudget'')) (\<lambda>failedBudget.
     Option.bind (nat_if (map_of f ''dispatchRounds'')) (\<lambda>rounds.
     Option.bind (nat_if (map_of f ''renewalSeq'')) (\<lambda>renewalSeq.
     Option.bind (Option.bind (obj_of (map_of f ''excluded'')) read_excluded) (\<lambda>excluded.
     Option.bind (arr_of (map_of f ''history'')) (\<lambda>past.
     Option.bind (optionalDeadline (map_of f ''offerTtlUntil'')) (\<lambda>offerTtlUntil.
     Option.bind (optionalDeadline (map_of f ''leaseDeadline'')) (\<lambda>leaseDeadline.
     Option.bind (optionalDeadline (map_of f ''drainUntil'')) (\<lambda>drainUntil.
     Option.bind (optionalDeadline (map_of f ''cancelWaitUntil'')) (\<lambda>cancelWaitUntil.
     Option.bind (opt_or bool_of (map_of f ''drainClosed'')) (\<lambda>drainClosed.
     Option.bind (opt_or bool_of (map_of f ''completedBeforeCancel'')) (\<lambda>completedBeforeCancel.
     if \<not> isLeadContract (map_of f ''contract'') then None
     else
       (let t = \<lparr>lt_rec = \<lparr>lr_task_id = task_id, lr_kind = kind, lr_leaseMs = leaseMs, lr_state = state, lr_attempt = att,
                  lr_target = target, lr_acceptedThisAttempt = accepted, lr_acceptedFailedBudget = failedBudget,
                  lr_dispatchRounds = rounds, lr_renewalSeq = renewalSeq, lr_excluded = excluded, lr_history = [],
                  lr_offerTtlUntil = offerTtlUntil, lr_leaseDeadline = leaseDeadline, lr_drainUntil = drainUntil,
                  lr_drainClosed = drainClosed, lr_cancelWaitUntil = cancelWaitUntil,
                  lr_completedBeforeCancel = completedBeforeCancel, lr_resultBody = None, lr_cancelReason = None,
                  lr_contract = map_of f ''contract''\<rparr>,
                lt_seq = task_seq, lt_past = past, lt_body = map_of f ''resultBody'', lt_why = map_of f ''cancelReason''\<rparr> in
        if task_shape t then Some t else None)))))))))))))))))))))"

section \<open>Acceptance\<close>

text \<open>A token of \<open>verdicts\<close>; \<open>vd_token\<close> is the identity of the object.\<close>

record verdict =
  vd_token :: nat
  vd_context :: string
  vd_delivery :: string
  vd_verdict :: "bool option"

definition acceptsArtifactResult :: "lead_task \<Rightarrow> bool" where
  "acceptsArtifactResult t \<longleftrightarrow>
     (let r = lt_rec t in
      lr_kind r = Project \<and>
      (lr_state r = Running \<or> lr_state r = Cancelling \<or> (lr_state r = Reclaiming \<and> lr_drainClosed r \<noteq> Some True)))"

definition acceptanceContext :: "codec \<Rightarrow> lead_task \<Rightarrow> string" where
  "acceptanceContext cd t =
     (let r = lt_rec t in
      cd_sha cd (cd_jcs cd (JObj [
        (''task_id'', JStr (lr_task_id r)), (''attempt'', JNum (of_nat (lr_attempt r))), (''target'', nullable JStr (lr_target r)),
        (''kind'', JStr (kind_text (lr_kind r))), (''state'', JStr (state_text (lr_state r))), (''task_seq'', JNum (of_nat (lt_seq t))),
        (''drainClosed'', JBool (lr_drainClosed r = Some True)), (''contract'', nullable (\<lambda>j. j) (lr_contract r))])))"

definition digest_of :: "codec \<Rightarrow> json \<Rightarrow> string" where
  "digest_of cd env = cd_sha cd (cd_jcs cd env)"

definition projectValidator :: "codec \<Rightarrow> (string \<times> verdict) list \<Rightarrow> lead_task \<Rightarrow> json option \<Rightarrow> body \<Rightarrow> bool" where
  "projectValidator cd verdicts t env b =
     (if lr_kind (lt_rec t) \<noteq> Project then
        (case arr_of (map_of b ''acceptance_results'') of
           None \<Rightarrow> True
         | Some arr \<Rightarrow> list_all (\<lambda>x. obj_get x ''pass'' \<noteq> Some (JBool False)) arr)
      else
        (case env of
           None \<Rightarrow> False
         | Some e \<Rightarrow>
             (case map_of verdicts (lr_task_id (lt_rec t)) of
                None \<Rightarrow> False
              | Some v \<Rightarrow> vd_context v = acceptanceContext cd t \<and> vd_delivery v = digest_of cd e \<and> vd_verdict v = Some True)))"

text \<open>The machine of a stored task.\<close>

definition task_machine :: "lead_opts \<Rightarrow> (string \<times> verdict) list \<Rightarrow> lead_task \<Rightarrow> json option \<Rightarrow> lead_machine" where
  "task_machine lo verdicts t env =
     (newLeadTaskMachine (lr_task_id (lt_rec t)) (lr_kind (lt_rec t)) (Some (lo_params lo))
        (Some (case lo_validate lo of Some v \<Rightarrow> v | None \<Rightarrow> projectValidator (nc_codec (lo_cfg lo)) verdicts t env)))
       \<lparr>lm_rec := lt_rec t, lm_terminal := lr_state (lt_rec t) \<in> set TERMINAL_STATES\<rparr>"

definition pruneVerdict :: "codec \<Rightarrow> lead_task \<Rightarrow> (string \<times> verdict) list \<Rightarrow> (string \<times> verdict) list" where
  "pruneVerdict cd t verdicts =
     (case map_of verdicts (lr_task_id (lt_rec t)) of
        None \<Rightarrow> verdicts
      | Some v \<Rightarrow>
          if \<not> acceptsArtifactResult t \<or> vd_context v \<noteq> acceptanceContext cd t
          then AList.delete (lr_task_id (lt_rec t)) verdicts else verdicts)"

section \<open>Events\<close>

type_synonym selector = "redispatch_request \<Rightarrow> (string \<times> body) option"

definition request_of :: "lead_machine \<Rightarrow> nat \<Rightarrow> redispatch_request" where
  "request_of m next =
     \<lparr>rq_task_id = lr_task_id (lm_rec m), rq_nextAttempt = next, rq_excluded = lr_excluded (lm_rec m), rq_kind = lr_kind (lm_rec m)\<rparr>"

fun requests :: "lead_action list \<Rightarrow> nat" where
  "requests [] = 0"
| "requests (LRequestDispatch n # acts) = requests acts + 1"
| "requests (_ # acts) = requests acts"

lemma requests_append [simp]: "requests (xs @ ys) = requests xs + requests ys"
  by (induction xs rule: requests.induct) auto

lemma requests_redispatch [simp]: "requests (snd (redispatchTo m target b now)) = 0"
  by (simp add: redispatchTo_def offer_with_def Let_def stopTimers_def lead_out_def)

text \<open>The loop walks a list that grows at its end: the actions still to be looked at, and all of them in order.\<close>

function driveRedispatch ::
  "selector \<Rightarrow> number \<Rightarrow> lead_machine \<Rightarrow> lead_action list \<Rightarrow> lead_action list \<Rightarrow> lead_machine \<times> lead_action list" where
  "driveRedispatch select now m seen [] = (m, seen)"
| "driveRedispatch select now m seen (a # acts) =
     (case a of
        LRequestDispatch next \<Rightarrow>
          (case select (request_of m next) of
             None \<Rightarrow> driveRedispatch select now m (seen @ [a]) acts
           | Some (target, offerBody) \<Rightarrow>
               driveRedispatch select now (fst (redispatchTo m target offerBody now)) (seen @ [a])
                 (acts @ snd (redispatchTo m target offerBody now)))
      | _ \<Rightarrow> driveRedispatch select now m (seen @ [a]) acts)"
  by pat_completeness auto

termination
  by (relation "measures [\<lambda>(select, now, m, seen, acts). requests acts, \<lambda>(select, now, m, seen, acts). length acts]") auto

definition sends :: "lead_action list \<Rightarrow> outbound list" where
  "sends acts = concat (map (\<lambda>a. case a of LSend x \<Rightarrow> [x] | _ \<Rightarrow> []) acts)"

definition report_of :: "lead_opts \<Rightarrow> lead_record \<Rightarrow> nat \<Rightarrow> task_report" where
  "report_of lo r task_seq =
     \<lparr>rp_task_id = lr_task_id r, rp_team_id = lo_team lo, rp_lead = nc_node (lo_cfg lo), rp_exec = lr_target r,
      rp_attempt = of_nat (lr_attempt r), rp_status = lr_state r, rp_type = lr_kind r, rp_task_seq = of_nat task_seq\<rparr>"

record event_result =
  ev_value :: lead_task
  ev_outbox :: "json list"
  ev_effects :: "json list"
  ev_changed :: bool
  ev_acted :: bool

type_synonym runner = "lead_machine \<Rightarrow> lead_machine \<times> lead_action list"

text \<open>\<open>runEvent\<close>; \<open>None\<close> where \<open>report\<close> throws. \<open>newId\<close> is the id of the report's effect.\<close>

definition runEvent ::
  "lead_opts \<Rightarrow> (outbound \<Rightarrow> json) \<Rightarrow> string \<Rightarrow> selector \<Rightarrow> (string \<times> verdict) list \<Rightarrow> lead_task \<Rightarrow> runner \<Rightarrow> number
     \<Rightarrow> json option \<Rightarrow> event_result option" where
  "runEvent lo seal newId select verdicts t runner now env =
     (let (m1, acts1) = runner (task_machine lo verdicts t env);
          (m2, acts) = driveRedispatch select now m1 [] acts1;
          changed = (lr_state (lm_rec m2) \<noteq> lr_state (lt_rec t));
          task_seq = (if changed then lt_seq t + 1 else lt_seq t) in
      if changed \<and> \<not> isSafeInteger (of_nat task_seq) then None
      else Some \<lparr>ev_value = t\<lparr>lt_rec := lm_rec m2, lt_seq := task_seq\<rparr>, ev_outbox = map seal (sends acts),
                 ev_effects = (if changed then [taskReportEffect (report_of lo (lm_rec m2) task_seq) newId] else []),
                 ev_changed = changed, ev_acted = changed \<or> acts \<noteq> []\<rparr>)"

definition reached :: "number option \<Rightarrow> number \<Rightarrow> bool" where
  "reached deadline now = (case deadline of None \<Rightarrow> False | Some d \<Rightarrow> d \<le> now)"

definition dueTimer :: "lead_task \<Rightarrow> number \<Rightarrow> timer_name option" where
  "dueTimer t now =
     (let r = lt_rec t in
      if lr_state r = Offered \<and> reached (lr_offerTtlUntil r) now then Some T_offer_ttl
      else if lr_state r = Running \<and> reached (lr_leaseDeadline r) now then Some T_lease
      else if lr_state r = Reclaiming \<and> lr_drainClosed r \<noteq> Some True \<and> reached (lr_drainUntil r) now then Some T_drain
      else if lr_state r = Cancelling \<and> reached (lr_cancelWaitUntil r) now then Some T_cancel_wait
      else None)"

definition tryRedispatch :: "selector \<Rightarrow> number \<Rightarrow> runner" where
  "tryRedispatch select now m =
     (case select (request_of m (lr_attempt (lm_rec m) + 1)) of
        None \<Rightarrow> (m, [])
      | Some (target, offerBody) \<Rightarrow> redispatchTo m target offerBody now)"

text \<open>What \<open>tick\<close> runs on a task: the due timer, or another try to place a task that waits for a dispatch.\<close>

definition tick_runner :: "selector \<Rightarrow> lead_task \<Rightarrow> number \<Rightarrow> runner option" where
  "tick_runner select t now =
     (case dueTimer t now of
        Some timer \<Rightarrow> Some (\<lambda>m. onTimer m timer now)
      | None \<Rightarrow>
          if lr_state (lt_rec t) = Drafting \<and> 1 \<le> lr_attempt (lt_rec t) then Some (tryRedispatch select now) else None)"

section \<open>The inline manifest of a result\<close>

definition inlineArtifact :: "body \<Rightarrow> body option" where
  "inlineArtifact b =
     (case arr_of (map_of b ''artifacts'') of Some (JObj first # _) \<Rightarrow> Some first | _ \<Rightarrow> None)"

definition inlineSignedManifest :: "body \<Rightarrow> json option" where
  "inlineSignedManifest b =
     Option.bind (inlineArtifact b) (\<lambda>art.
       let signed = map_of art ''manifest'' in if validSignedManifest signed then signed else None)"

definition inlineRepo :: "body \<Rightarrow> string option" where
  "inlineRepo b = Option.bind (inlineArtifact b) (\<lambda>art. str_of (map_of art ''repo''))"

definition inlineBranch :: "body \<Rightarrow> string option" where
  "inlineBranch b = Option.bind (inlineArtifact b) (\<lambda>art. str_of (map_of art ''branch''))"

end
