(* ===== verification/Lead_Host.thy ===== *)
theory Lead_Host
  imports Lead_Durable
begin

text \<open>
  The durable lead, second part: class \<open>DurableLead\<close> of \<open>packages/node/src/runtime/lead.ts\<close> over the node store. Its methods
  are synchronous, but for \<open>stageArtifactVerification\<close>, which is cut at its two awaits: \<open>ld_staging\<close> holds where every
  running call of it stands. \<open>ld_log\<close> is a ghost: the deliveries whose check has ended with \<open>true\<close>. A crash keeps the
  database and nothing else.

  \<open>li_id\<close> and \<open>li_select\<close> are functions of the number of store calls made, so that every call of \<open>newId\<close> and of the
  target selector can have an answer of its own. \<open>onFault\<close> is a notification and has no effect here.
\<close>

section \<open>State\<close>

record stage_pc =
  sg_env :: json
  sg_task :: lead_task
  sg_signed :: json
  sg_context :: string
  sg_token :: nat
  sg_files :: "(string \<times> string) list option"

record delivery_check =
  dc_task :: string
  dc_context :: string
  dc_env :: json
  dc_input :: delivery_input

record lead_host =
  ld_store :: "node_db store"
  ld_calls :: nat
  ld_faulted :: bool
  ld_verdicts :: "(string \<times> verdict) list"
  ld_tokens :: nat
  ld_staging :: "stage_pc list"
  ld_log :: "delivery_check list"

record lead_io =
  li_pf :: "nat \<Rightarrow> platform"
  li_now :: number
  li_seal :: "outbound \<Rightarrow> json"
  li_id :: "nat \<Rightarrow> string"
  li_select :: "nat \<Rightarrow> selector"
  li_iso :: string

datatype lead_fault =
    Lf_faulted | Lf_identity | Lf_argument | Lf_state | Lf_not_originated | Lf_exhausted | Lf_bundle | Lf_store rt_error

type_synonym 'a lproc = "(lead_host, lead_fault, 'a) procedure"

text \<open>The constructor.\<close>

definition newDurableLead :: "string \<Rightarrow> lead_opts \<Rightarrow> lead_fault + lead_opts" where
  "newDurableLead nodeId lo =
     (if nc_node (lo_cfg lo) \<noteq> nodeId \<or> lo_team lo = [] then Inl Lf_identity
      else if \<not> positive (leaseMsAid (lo_params lo)) \<or> \<not> positive (leaseMsProject (lo_params lo)) then Inl Lf_identity
      else Inr lo)"

definition fresh_lead :: "node_db store \<Rightarrow> nat \<Rightarrow> nat \<Rightarrow> delivery_check list \<Rightarrow> lead_host" where
  "fresh_lead st calls tokens checks =
     \<lparr>ld_store = st, ld_calls = calls, ld_faulted = False, ld_verdicts = [], ld_tokens = tokens, ld_staging = [], ld_log = checks\<rparr>"

section \<open>Store calls and faults\<close>

definition ld_call :: "lead_opts \<Rightarrow> lead_io \<Rightarrow> rt_op \<Rightarrow> rt_out lproc" where
  "ld_call lo io op h =
     (case transaction (li_pf io (ld_calls h)) (ld_store h) (rt_exec (lo_cfg lo) op) of
        (st, r) \<Rightarrow> (h\<lparr>ld_store := st, ld_calls := ld_calls h + 1\<rparr>, map_sum Lf_store id r))"

definition ld_state :: "lead_opts \<Rightarrow> lead_io \<Rightarrow> string \<Rightarrow> rt_state option lproc" where
  "ld_state lo io k =
     seq (ld_call lo io (Op_state k)) (\<lambda>out. case out of Ot_state row \<Rightarrow> ret row | _ \<Rightarrow> throw Lf_state)"

definition ld_failClosed :: "unit lproc" where
  "ld_failClosed = upd (\<lambda>h. h\<lparr>ld_faulted := True, ld_verdicts := []\<rparr>)"

definition ld_checked :: "'a lproc \<Rightarrow> 'a lproc" where
  "ld_checked m = catching m (\<lambda>e. seq ld_failClosed (\<lambda>_. throw e))"

definition ld_healthy :: "unit lproc" where
  "ld_healthy = seq (ask ld_faulted) (\<lambda>b. if b then throw Lf_faulted else ret ())"

definition ld_decode :: "rt_state option \<Rightarrow> lead_task option lproc" where
  "ld_decode row =
     (case row of
        None \<Rightarrow> ret None
      | Some st \<Rightarrow> (case read_task (rs_value st) of None \<Rightarrow> throw Lf_state | Some t \<Rightarrow> ret (Some t)))"

section \<open>Running an event\<close>

definition event_json :: "lead_task \<Rightarrow> json list \<Rightarrow> json list \<Rightarrow> json" where
  "event_json t outbox effects = JObj [(''state'', task_json t), (''outbox'', JArr outbox), (''effects'', JArr effects)]"

definition ld_run :: "lead_opts \<Rightarrow> lead_io \<Rightarrow> lead_task \<Rightarrow> (selector \<Rightarrow> runner) \<Rightarrow> json option \<Rightarrow> event_result lproc" where
  "ld_run lo io t runner env =
     seq (ask (\<lambda>h. (ld_calls h, ld_verdicts h))) (\<lambda>(n, verdicts).
       (case runEvent lo (li_seal io) (li_id io n) (li_select io n) verdicts t (runner (li_select io n)) (li_now io) env of
          None \<Rightarrow> throw Lf_exhausted
        | Some e \<Rightarrow> ret e))"

definition ld_prune :: "lead_opts \<Rightarrow> lead_task \<Rightarrow> unit lproc" where
  "ld_prune lo t = upd (\<lambda>h. h\<lparr>ld_verdicts := pruneVerdict (nc_codec (lo_cfg lo)) t (ld_verdicts h)\<rparr>)"

definition ld_forget :: "string \<Rightarrow> unit lproc" where
  "ld_forget taskId = upd (\<lambda>h. h\<lparr>ld_verdicts := AList.delete taskId (ld_verdicts h)\<rparr>)"

text \<open>Run an event on a stored task and commit it when it did anything.\<close>

definition ld_event :: "lead_opts \<Rightarrow> lead_io \<Rightarrow> string \<Rightarrow> nat \<Rightarrow> lead_task \<Rightarrow> (selector \<Rightarrow> runner) \<Rightarrow> bool lproc" where
  "ld_event lo io k rv t runner =
     seq (ld_run lo io t runner None) (\<lambda>e.
       if \<not> ev_acted e then ret False
       else
         seq (ld_call lo io (Op_transition k (of_nat rv) (\<lambda>_. Inr (event_json (ev_value e) (ev_outbox e) (ev_effects e))))) (\<lambda>_.
         seq (ld_prune lo (ev_value e)) (\<lambda>_. ret (ev_changed e))))"

definition transitionEvent :: "lead_opts \<Rightarrow> lead_io \<Rightarrow> string \<Rightarrow> (selector \<Rightarrow> runner) \<Rightarrow> bool lproc" where
  "transitionEvent lo io taskId runner =
     seq (ld_state lo io (leadStateKey taskId)) (\<lambda>row.
     seq (ld_decode row) (\<lambda>task.
       (case task of
          None \<Rightarrow> throw Lf_not_originated
        | Some t \<Rightarrow> ld_event lo io (leadStateKey taskId) (revision_of row) t runner)))"

section \<open>Commands\<close>

definition ld_snapshot :: "lead_opts \<Rightarrow> lead_io \<Rightarrow> string \<Rightarrow> lead_task option lproc" where
  "ld_snapshot lo io taskId = ld_checked (seq (ld_state lo io (leadStateKey taskId)) ld_decode)"

definition command :: "bool \<Rightarrow> 'a lproc \<Rightarrow> 'a lproc" where
  "command args_ok m = ld_checked (seq ld_healthy (\<lambda>_. if \<not> args_ok then throw Lf_argument else m))"

definition new_task :: "lead_opts \<Rightarrow> string \<Rightarrow> task_kind \<Rightarrow> lead_task" where
  "new_task lo taskId kind =
     \<lparr>lt_rec = lm_rec (newLeadTaskMachine taskId kind (Some (lo_params lo)) (lo_validate lo)), lt_seq = 0, lt_past = [],
      lt_body = None, lt_why = None\<rparr>"

definition ld_originate :: "lead_opts \<Rightarrow> lead_io \<Rightarrow> string \<Rightarrow> task_kind \<Rightarrow> bool lproc" where
  "ld_originate lo io taskId kind = command (isUuidStr taskId)
     (seq (ld_state lo io (leadStateKey taskId)) (\<lambda>row.
       if row \<noteq> None then ret False
       else
         seq (ld_call lo io (Op_transition (leadStateKey taskId) 0 (\<lambda>_. Inr (JObj [(''state'', task_json (new_task lo taskId kind))]))))
           (\<lambda>_. ret True)))"

definition ld_dispatch :: "lead_opts \<Rightarrow> lead_io \<Rightarrow> string \<Rightarrow> string \<Rightarrow> body \<Rightarrow> bool lproc" where
  "ld_dispatch lo io taskId target offerBody = command (isUuidStr taskId \<and> isUuidStr target)
     (transitionEvent lo io taskId (\<lambda>_ m. dispatchTo m target offerBody (li_now io)))"

definition ld_cancel :: "lead_opts \<Rightarrow> lead_io \<Rightarrow> string \<Rightarrow> bool lproc" where
  "ld_cancel lo io taskId = command (isUuidStr taskId) (transitionEvent lo io taskId (\<lambda>_ m. cancelByUser m (li_now io)))"

definition ld_redispatch :: "lead_opts \<Rightarrow> lead_io \<Rightarrow> string \<Rightarrow> bool lproc" where
  "ld_redispatch lo io taskId = command (isUuidStr taskId) (transitionEvent lo io taskId (\<lambda>_ m. redispatchByOwner m (li_now io)))"

section \<open>Timers\<close>

text \<open>\<open>tick\<close> on the rows it has read. The runner sees the selector at the time it runs.\<close>

fun tick_rows :: "lead_opts \<Rightarrow> lead_io \<Rightarrow> rt_state list \<Rightarrow> unit lproc" where
  "tick_rows lo io [] = ret ()"
| "tick_rows lo io (row # rows) =
     seq (ld_decode (Some row)) (\<lambda>task.
     seq (case task of
            None \<Rightarrow> ret ()
          | Some t \<Rightarrow>
              if tick_runner (\<lambda>_. None) t (li_now io) = None then ret ()
              else seq (ld_event lo io (rs_key row) (rs_revision row) t (\<lambda>select. the (tick_runner select t (li_now io)))) (\<lambda>_. ret ()))
       (\<lambda>_. tick_rows lo io rows))"

definition ld_states :: "lead_opts \<Rightarrow> lead_io \<Rightarrow> rt_state list lproc" where
  "ld_states lo io =
     seq (ld_call lo io (Op_states LEAD_STATE_PREFIX (of_nat (nc_maxEntries (lo_cfg lo))))) (\<lambda>out.
       (case out of Ot_states rows \<Rightarrow> ret rows | _ \<Rightarrow> throw Lf_state))"

definition ld_tick :: "lead_opts \<Rightarrow> lead_io \<Rightarrow> unit lproc" where
  "ld_tick lo io = command True (seq (ld_states lo io) (tick_rows lo io))"

section \<open>Takeover\<close>

fun export_rows :: "rt_state list \<Rightarrow> json list lproc" where
  "export_rows [] = ret []"
| "export_rows (row # rows) =
     seq (ld_decode (Some row)) (\<lambda>task.
     seq (export_rows rows) (\<lambda>rest.
       ret ((case task of
               None \<Rightarrow> []
             | Some t \<Rightarrow> [JObj [(''task_id'', JStr (lr_task_id (lt_rec t))), (''task'', task_json t)]]) @ rest)))"

definition ld_exportTasks :: "lead_opts \<Rightarrow> lead_io \<Rightarrow> json lproc" where
  "ld_exportTasks lo io = command True
     (seq (ld_states lo io) (\<lambda>rows.
      seq (export_rows rows) (\<lambda>tasks.
        ret (JObj [(''v'', JNum 1), (''exported_at'', JStr (li_iso io)), (''requires_origin_stopped'', JBool True), (''tasks'', JArr tasks)]))))"

record import_result =
  im_imported :: "string list"
  im_fenced :: "string list"
  im_archived :: "string list"

definition fenced_task :: "lead_task \<Rightarrow> lead_task" where
  "fenced_task t =
     (if lr_attempt (lt_rec t) = 0 then t
      else t\<lparr>lt_rec := (lt_rec t)\<lparr>lr_attempt := lr_attempt (lt_rec t) + 1, lr_state := Drafting\<rparr>\<rparr>)"

fun import_entries :: "lead_opts \<Rightarrow> lead_io \<Rightarrow> json list \<Rightarrow> import_result \<Rightarrow> import_result lproc" where
  "import_entries lo io [] res = ret res"
| "import_entries lo io (entry # entries) res =
     (case Option.bind (obj_get entry ''task'') read_task of
        None \<Rightarrow> throw Lf_bundle
      | Some t \<Rightarrow>
          (let taskId = lr_task_id (lt_rec t); k = leadStateKey taskId in
           seq (ld_state lo io k) (\<lambda>row.
           seq (ld_decode row) (\<lambda>local.
             if (case local of None \<Rightarrow> False | Some l \<Rightarrow> lr_attempt (lt_rec t) \<le> lr_attempt (lt_rec l)) then
               import_entries lo io entries (res\<lparr>im_fenced := im_fenced res @ [taskId]\<rparr>)
             else
               (let terminal = (lr_state (lt_rec t) \<in> set TERMINAL_STATES) in
                seq (ld_call lo io (Op_transition k (of_nat (revision_of row))
                       (\<lambda>_. Inr (JObj [(''state'', task_json (if terminal then t else fenced_task t))])))) (\<lambda>_.
                seq (ld_forget taskId) (\<lambda>_.
                  import_entries lo io entries
                    (if terminal then res\<lparr>im_archived := im_archived res @ [taskId]\<rparr>
                     else res\<lparr>im_imported := im_imported res @ [taskId]\<rparr>))))))))"

definition ld_importTasks :: "lead_opts \<Rightarrow> lead_io \<Rightarrow> json \<Rightarrow> import_result lproc" where
  "ld_importTasks lo io bundle = command True
     (case (obj_get bundle ''v'', arr_of (obj_get bundle ''tasks'')) of
        (Some (JNum v), Some entries) \<Rightarrow>
          if v \<noteq> 1 then throw Lf_bundle
          else import_entries lo io entries \<lparr>im_imported = [], im_fenced = [], im_archived = []\<rparr>
      | _ \<Rightarrow> throw Lf_bundle)"

section \<open>Staging a verdict\<close>

definition alive_until :: "codec \<Rightarrow> json \<Rightarrow> number \<Rightarrow> bool" where
  "alive_until cd env now =
     (case e_exp (envelopeOf env) of
        None \<Rightarrow> False
      | Some x \<Rightarrow> (case cd_parse cd x of None \<Rightarrow> False | Some t \<Rightarrow> now < t))"

text \<open>Whether the envelope is a result for this node that can be staged, and the manifest and the repository it names.\<close>

definition stageable :: "lead_opts \<Rightarrow> lead_io \<Rightarrow> json \<Rightarrow> (string \<times> json) option" where
  "stageable lo io env =
     (let e = envelopeOf env in
      if e_type e \<noteq> ''task.result'' \<or> e_to_node e \<noteq> nc_node (lo_cfg lo) \<or> \<not> isUuidStr (case e_task_id e of Some t \<Rightarrow> t | None \<Rightarrow> []) \<or>
         e_from_team e \<noteq> Some (lo_team lo) \<or> \<not> js_true (obj_get env ''sig'') \<or> \<not> alive_until (nc_codec (lo_cfg lo)) env (li_now io) \<or>
         \<not> lo_collect lo \<or> \<not> lo_resolve lo
      then None
      else (case inlineSignedManifest (e_body e) of None \<Rightarrow> None | Some signed \<Rightarrow> Some (the (e_task_id e), signed)))"

definition concerns :: "lead_task \<Rightarrow> envelope \<Rightarrow> bool" where
  "concerns t e \<longleftrightarrow>
     acceptsArtifactResult t \<and> e_attempt e = Some (lr_attempt (lt_rec t)) \<and> Some (e_from_node e) = lr_target (lt_rec t)"

text \<open>Anything that is thrown inside is swallowed; a read that fails ends the call.\<close>

definition quietly :: "unit lproc \<Rightarrow> unit lproc" where
  "quietly m = catching m (\<lambda>_. ret ())"

text \<open>Up to the call of \<open>collect\<close>: a new token replaces the one of the task, unless this delivery has its verdict.\<close>

definition stage_begin :: "lead_opts \<Rightarrow> json \<Rightarrow> string \<Rightarrow> json \<Rightarrow> lead_task \<Rightarrow> unit lproc" where
  "stage_begin lo env taskId signed t =
     (let cd = nc_codec (lo_cfg lo); context = acceptanceContext cd t; delivery = digest_of cd env in
      upd (\<lambda>h.
        if (case map_of (ld_verdicts h) taskId of
              None \<Rightarrow> False
            | Some v \<Rightarrow> vd_context v = context \<and> vd_delivery v = delivery \<and> vd_verdict v \<noteq> None)
        then h
        else h\<lparr>ld_verdicts := AList.update taskId
                 \<lparr>vd_token = ld_tokens h, vd_context = context, vd_delivery = delivery, vd_verdict = None\<rparr> (ld_verdicts h),
               ld_tokens := ld_tokens h + 1,
               ld_staging := ld_staging h @
                 [\<lparr>sg_env = env, sg_task = t, sg_signed = signed, sg_context = context, sg_token = ld_tokens h, sg_files = None\<rparr>]\<rparr>))"

definition ld_stage :: "lead_opts \<Rightarrow> lead_io \<Rightarrow> json \<Rightarrow> unit lproc" where
  "ld_stage lo io env = quietly
     (seq (ask ld_faulted) (\<lambda>faulted.
       (case (if faulted then None else stageable lo io env) of
          None \<Rightarrow> ret ()
        | Some (taskId, signed) \<Rightarrow>
            seq (ld_state lo io (leadStateKey taskId)) (\<lambda>row.
            seq (ld_decode row) (\<lambda>task.
              (case task of
                 None \<Rightarrow> ret ()
               | Some t \<Rightarrow>
                   on (concerns t (envelopeOf env) \<and> inlineRepo (e_body (envelopeOf env)) \<noteq> None)
                     (stage_begin lo env taskId signed t)))))))"

definition the_stage :: "nat \<Rightarrow> lead_host \<Rightarrow> stage_pc option" where
  "the_stage i h = (if i < length (ld_staging h) then Some (ld_staging h ! i) else None)"

definition stage_task :: "stage_pc \<Rightarrow> string" where
  "stage_task s = the (e_task_id (envelopeOf (sg_env s)))"

definition unstage :: "nat \<Rightarrow> unit lproc" where
  "unstage i = upd (\<lambda>h. h\<lparr>ld_staging := take i (ld_staging h) @ drop (i + 1) (ld_staging h)\<rparr>)"

text \<open>\<open>finally\<close>: a token that is still the task's and has no verdict is removed.\<close>

definition stage_end :: "stage_pc \<Rightarrow> unit lproc" where
  "stage_end s =
     upd (\<lambda>h. case map_of (ld_verdicts h) (stage_task s) of
        None \<Rightarrow> h
      | Some v \<Rightarrow>
          if vd_token v = sg_token s \<and> vd_verdict v = None
          then h\<lparr>ld_verdicts := AList.delete (stage_task s) (ld_verdicts h)\<rparr> else h)"

text \<open>The collector answers call \<open>i\<close>: files, or \<open>None\<close> when it threw or could not; then the key is asked for.\<close>

definition ld_collected :: "nat \<Rightarrow> (string \<times> string) list option \<Rightarrow> unit lproc" where
  "ld_collected i answer =
     seq (ask (the_stage i)) (\<lambda>pc.
       (case pc of
          None \<Rightarrow> ret ()
        | Some s \<Rightarrow>
            if sg_files s \<noteq> None then ret ()
            else
              (case answer of
                 None \<Rightarrow> seq (unstage i) (\<lambda>_. stage_end s)
               | Some files \<Rightarrow> upd (\<lambda>h. h\<lparr>ld_staging := (ld_staging h)[i := s\<lparr>sg_files := Some files\<rparr>]\<rparr>))))"

definition stage_input :: "stage_pc \<Rightarrow> (string \<times> string) list \<Rightarrow> string \<Rightarrow> delivery_input" where
  "stage_input s files pub =
     (let e = envelopeOf (sg_env s) in
      \<lparr>di_signed = sg_signed s, di_taskId = stage_task s, di_attempt = of_nat (lr_attempt (lt_rec (sg_task s))), di_pub = pub,
       di_fromNodeId = e_from_node e, di_fromKeyEpoch = of_nat (e_key_epoch e), di_collected = files,
       di_contract = lr_contract (lt_rec (sg_task s))\<rparr>)"

text \<open>The verdict is written into the token when it is still the task's and the stored task has the same context.\<close>

definition stage_verdict :: "lead_opts \<Rightarrow> stage_pc \<Rightarrow> delivery_input \<Rightarrow> lead_task option \<Rightarrow> unit lproc" where
  "stage_verdict lo s input current =
     (let cd = nc_codec (lo_cfg lo); ok = verifyArtifactDelivery cd (lo_ed lo) input; taskId = stage_task s in
      upd (\<lambda>h. case map_of (ld_verdicts h) taskId of
          None \<Rightarrow> h
        | Some v \<Rightarrow>
            if vd_token v \<noteq> sg_token s \<or>
               (case current of None \<Rightarrow> True | Some t \<Rightarrow> \<not> acceptsArtifactResult t \<or> acceptanceContext cd t \<noteq> sg_context s)
            then h
            else h\<lparr>ld_verdicts := AList.update taskId (v\<lparr>vd_verdict := Some ok\<rparr>) (ld_verdicts h),
                   ld_log := (if ok then ld_log h @ [\<lparr>dc_task = taskId, dc_context = sg_context s,
                                dc_env = sg_env s, dc_input = input\<rparr>] else ld_log h)\<rparr>))"

text \<open>The registry answers call \<open>i\<close> with the key, or \<open>None\<close>.\<close>

definition ld_resolved :: "lead_opts \<Rightarrow> lead_io \<Rightarrow> nat \<Rightarrow> string option \<Rightarrow> unit lproc" where
  "ld_resolved lo io i answer =
     seq (ask (the_stage i)) (\<lambda>pc.
       (case pc of
          None \<Rightarrow> ret ()
        | Some s \<Rightarrow>
            (case sg_files s of
               None \<Rightarrow> ret ()
             | Some files \<Rightarrow>
                 seq (unstage i) (\<lambda>_.
                 seq (quietly
                   (case answer of
                      None \<Rightarrow> ret ()
                    | Some pub \<Rightarrow>
                        seq (ld_state lo io (leadStateKey (stage_task s))) (\<lambda>row.
                        seq (ld_decode row) (\<lambda>current. stage_verdict lo s (stage_input s files pub) current)))) (\<lambda>_.
                 stage_end s)))))"

section \<open>Messages\<close>

definition ld_consume :: "lead_opts \<Rightarrow> lead_io \<Rightarrow> json \<Rightarrow> bool \<Rightarrow> unit lproc" where
  "ld_consume lo io env authorized =
     (let cd = nc_codec (lo_cfg lo); e = envelopeOf env; taskId = (case e_task_id e of Some t \<Rightarrow> t | None \<Rightarrow> []) in
      ld_checked (seq ld_healthy (\<lambda>_.
        if e_to_node e \<noteq> nc_node (lo_cfg lo) \<or> \<not> isUuidStr taskId then ret ()
        else
          seq (ld_state lo io (leadStateKey taskId)) (\<lambda>row.
          seq (ld_decode row) (\<lambda>task.
            (case task of
               None \<Rightarrow> ret ()
             | Some t \<Rightarrow>
                 (let allowed = (e_from_team e = Some (lo_team lo) \<and> authorized \<and> js_true (obj_get env ''sig''));
                      fresh = alive_until cd env (li_now io) in
                  seq (if allowed \<and> fresh then
                         ld_run lo io t (\<lambda>_ m. onMessage m (e_type e) (e_from_node e) (case e_attempt e of Some n \<Rightarrow> n | None \<Rightarrow> 0)
                           (e_body e) (li_now io) (Some (e_msg_id e))) (Some env)
                       else ret \<lparr>ev_value = t, ev_outbox = [], ev_effects = [], ev_changed = False, ev_acted = False\<rparr>) (\<lambda>r.
                  seq (ld_call lo io (Op_consume
                         \<lparr>cr_fromNode = e_from_node e, cr_msgId = e_msg_id e, cr_stateKey = leadStateKey taskId,
                          cr_expectedRevision = of_nat (revision_of row)\<rparr>
                         (\<lambda>env1 _. if digest_of cd env1 \<noteq> digest_of cd env then Inl (Domain_error Rc_conflict)
                                   else Inr (event_json (ev_value r) (ev_outbox r) (ev_effects r))))) (\<lambda>_.
                  if e_type e = ''task.result'' then ld_forget (lr_task_id (lt_rec t))
                  else
                    seq (ld_state lo io (leadStateKey taskId)) (\<lambda>row1.
                    seq (ld_decode row1) (\<lambda>task1.
                      (case task1 of None \<Rightarrow> throw Lf_state | Some t1 \<Rightarrow> ld_prune lo t1))))))))))))"

section \<open>The lead as a system of events\<close>

datatype lead_ev =
    Le_originate string task_kind
  | Le_dispatch string string body
  | Le_cancel string
  | Le_redispatch string
  | Le_tick
  | Le_export
  | Le_import json
  | Le_stage json
  | Le_collected nat "(string \<times> string) list option"
  | Le_resolved nat "string option"
  | Le_consume json bool
  | Le_foreign rt_op
  | Le_crash "node_db store"

text \<open>A store call of another part of the node leaves the keys of the lead.\<close>

definition lead_foreign :: "rt_op \<Rightarrow> bool" where
  "lead_foreign op =
     (case op of
        Op_transition k _ _ \<Rightarrow> take 8 k \<noteq> LEAD_STATE_PREFIX
      | Op_consume rq _ \<Rightarrow> take 8 (cr_stateKey rq) \<noteq> LEAD_STATE_PREFIX
      | _ \<Rightarrow> True)"

definition silent :: "'a lproc \<Rightarrow> lead_host \<Rightarrow> lead_host" where
  "silent m h = fst (m h)"

fun lead_ev_step :: "lead_opts \<Rightarrow> lead_io \<Rightarrow> lead_ev \<Rightarrow> lead_host \<Rightarrow> lead_host" where
  "lead_ev_step lo io (Le_originate t k) h = silent (ld_originate lo io t k) h"
| "lead_ev_step lo io (Le_dispatch t n b) h = silent (ld_dispatch lo io t n b) h"
| "lead_ev_step lo io (Le_cancel t) h = silent (ld_cancel lo io t) h"
| "lead_ev_step lo io (Le_redispatch t) h = silent (ld_redispatch lo io t) h"
| "lead_ev_step lo io Le_tick h = silent (ld_tick lo io) h"
| "lead_ev_step lo io Le_export h = silent (ld_exportTasks lo io) h"
| "lead_ev_step lo io (Le_import b) h = silent (ld_importTasks lo io b) h"
| "lead_ev_step lo io (Le_stage env) h = silent (ld_stage lo io env) h"
| "lead_ev_step lo io (Le_collected i a) h = silent (ld_collected i a) h"
| "lead_ev_step lo io (Le_resolved i a) h = silent (ld_resolved lo io i a) h"
| "lead_ev_step lo io (Le_consume env b) h = silent (ld_consume lo io env b) h"
| "lead_ev_step lo io (Le_foreign op) h = silent (ld_call lo io op) h"
| "lead_ev_step lo io (Le_crash st) h = fresh_lead (st\<lparr>st_db := st_db (ld_store h)\<rparr>) (ld_calls h) (ld_tokens h) (ld_log h)"

end
