(* ===== verification/Lead_Durable_Props.thy ===== *)
theory Lead_Durable_Props
  imports Lead_Durable Json_Codec Lead_Recovery
begin

text \<open>
  The stored task of the durable lead: exactly the valid tasks are read back from the store, and an event of the host
  is a run of the task machine of \<open>Lead_Machine\<close>.
\<close>

section \<open>Values through the store\<close>

lemma obj_get_via [simp]: "json_values cd \<Longrightarrow> obj_get (via_text cd v) k = map_option (via_text cd) (obj_get v k)"
  by (cases v) simp_all

lemma plain_via [simp]: "json_values cd \<Longrightarrow> isPlainObject (via_text cd v) = isPlainObject v"
  by (cases v) simp_all

lemma arr_of_via [simp]: "json_values cd \<Longrightarrow> arr_of (map_option (via_text cd) v) = map_option (map (via_text cd)) (arr_of v)"
  by (cases v; simp; cases "the v"; simp add: arr_of_def)

lemma arr_of_via_Some [simp]: "json_values cd \<Longrightarrow> arr_of (Some (via_text cd v)) = map_option (map (via_text cd)) (arr_of (Some v))"
  using arr_of_via [of cd "Some v"] by simp

lemma named_via [simp]: "json_values cd \<Longrightarrow> named (map_option (via_text cd) v) = named v"
  by (simp add: named_def)

lemma deliverable_via [simp]: "json_values cd \<Longrightarrow> isDeliverable (via_text cd d) = isDeliverable d"
  by (simp add: isDeliverable_def)

lemma contract_via [simp]:
  assumes "json_values cd"
  shows "isLeadContract (map_option (via_text cd) c) = isLeadContract c"
proof (cases c)
  case (Some v)
  have "(case map_option (via_text cd) d of None \<Rightarrow> True | Some d \<Rightarrow> (case arr_of (Some d) of None \<Rightarrow> False | Some ds \<Rightarrow> list_all isDeliverable ds)) =
      (case d of None \<Rightarrow> True | Some d \<Rightarrow> (case arr_of (Some d) of None \<Rightarrow> False | Some ds \<Rightarrow> list_all isDeliverable ds))" for d
    using assms by (auto simp: list_all_iff split: option.splits)
  with Some assms show ?thesis by (simp add: isLeadContract_def)
qed (simp add: isLeadContract_def)

lemma uuid_of_via [simp]: "json_values cd \<Longrightarrow> uuid_of (map_option (via_text cd) v) = uuid_of v"
  by (simp add: uuid_of_def)

lemma num_if_via [simp]: "json_values cd \<Longrightarrow> num_if P (map_option (via_text cd) v) = num_if P v"
  by (simp add: num_if_def)

lemma bool_of_via [simp]: "json_values cd \<Longrightarrow> bool_of (map_option (via_text cd) v) = bool_of v"
  by (cases v; simp; cases "the v"; simp add: bool_of_def)

lemma one_of_via [simp]: "json_values cd \<Longrightarrow> one_of f xs (map_option (via_text cd) v) = one_of f xs v"
  by (simp add: one_of_def)

lemma null_or_through [simp]:
  "json_values cd \<Longrightarrow> f (map_option (via_text cd) v) = f v \<Longrightarrow> null_or f (map_option (via_text cd) v) = null_or f v"
  by (cases v) (simp_all add: null_or_def)

lemma opt_or_through [simp]:
  "json_values cd \<Longrightarrow> f (map_option (via_text cd) v) = f v \<Longrightarrow> opt_or f (map_option (via_text cd) v) = opt_or f v"
  by (cases v) (simp_all add: opt_or_def)

lemma map_of_opt_field [simp]: "map_of (opt_field k f v) k1 = (if k1 = k then map_option f v else None)"
  by (cases v) (simp_all add: opt_field_def)

section \<open>What is read back\<close>

lemma exclusion_read [simp]: "one_of exclusion_text [Permanent, Once] (Some (JStr (exclusion_text x))) = Some x"
  by (cases x) (simp_all add: one_of_def)

lemma kind_read [simp]: "one_of kind_text [Aid, Project] (Some (JStr (kind_text k))) = Some k"
  by (cases k) (simp_all add: one_of_def)

lemma state_read [simp]:
  "one_of state_text LEAD_STATES (Some (JStr (state_text s))) = Some s"
  "one_of state_text TASK_REPORT_STATUSES (Some (JStr (state_text s))) = Some s"
  by (cases s; simp add: one_of_def LEAD_STATES_def TASK_REPORT_STATUSES_def)+

definition excluded_json :: "(string \<times> exclusion) list \<Rightarrow> body" where
  "excluded_json xs = map (\<lambda>(k, x). (k, JStr (exclusion_text x))) xs"

definition stored_excluded :: "codec \<Rightarrow> (string \<times> exclusion) list \<Rightarrow> (string \<times> exclusion) list" where
  "stored_excluded cd xs = the (read_excluded (canon cd (excluded_json xs)))"

lemma read_excluded_texts:
  "\<forall>f \<in> set fs. \<exists>x. snd f = JStr (exclusion_text x) \<Longrightarrow>
   \<exists>ys. read_excluded fs = Some ys \<and> (\<forall>k. map_option (\<lambda>x. JStr (exclusion_text x)) (map_of ys k) = map_of fs k)"
proof (induction fs)
  case (Cons f fs)
  then obtain k x where f: "f = (k, JStr (exclusion_text x))" by (cases f) auto
  from Cons obtain ys where "read_excluded fs = Some ys" "\<forall>k. map_option (\<lambda>x. JStr (exclusion_text x)) (map_of ys k) = map_of fs k"
    by auto
  with f show ?case by auto
qed simp

lemma exclusion_inj [simp]: "exclusion_text x = exclusion_text y \<longleftrightarrow> x = y"
  by (cases x; cases y) simp_all

lemma map_of_excluded: "map_of (excluded_json xs) k = map_option (\<lambda>x. JStr (exclusion_text x)) (map_of xs k)"
  by (induction xs) (auto simp: excluded_json_def)

lemma read_excluded_via:
  assumes "json_values cd"
  shows "read_excluded (canon cd (excluded_json xs)) = Some (stored_excluded cd xs)" "map_of (stored_excluded cd xs) = map_of xs"
proof -
  have "\<forall>f \<in> set (canon cd (excluded_json xs)). \<exists>x. snd f = JStr (exclusion_text x)"
    using canon_sub [OF assms, of "excluded_json xs"] assms by (fastforce simp: excluded_json_def)
  from read_excluded_texts [OF this] obtain ys where ys: "read_excluded (canon cd (excluded_json xs)) = Some ys"
    "\<forall>k. map_option (\<lambda>x. JStr (exclusion_text x)) (map_of ys k) = map_of (canon cd (excluded_json xs)) k" by blast
  then have e: "stored_excluded cd xs = ys" by (simp add: stored_excluded_def)
  have "map_of ys k = map_of xs k" for k
  proof -
    have "map_option (\<lambda>x. JStr (exclusion_text x)) (map_of ys k) = map_option (\<lambda>x. JStr (exclusion_text x)) (map_of xs k)"
      using ys(2) assms by (simp add: map_of_excluded option.map_comp o_def)
    then show ?thesis by (cases "map_of ys k"; cases "map_of xs k") simp_all
  qed
  with ys e show "read_excluded (canon cd (excluded_json xs)) = Some (stored_excluded cd xs)"
    "map_of (stored_excluded cd xs) = map_of xs" by auto
qed

text \<open>The condition of \<open>validTask\<close> on a typed task, and what the store makes of it.\<close>

definition safe_nat :: "nat \<Rightarrow> bool" where
  "safe_nat n \<longleftrightarrow> n \<le> 9007199254740991"

definition deadline_ok :: "number option \<Rightarrow> bool" where
  "deadline_ok v \<longleftrightarrow> (\<forall>q. v = Some q \<longrightarrow> positive q)"

definition valid_record :: "lead_record \<Rightarrow> bool" where
  "valid_record r \<longleftrightarrow>
     isUuidStr (lr_task_id r) \<and> safe_nat (lr_attempt r) \<and> (\<forall>n. lr_target r = Some n \<longrightarrow> isUuidStr n) \<and> positive (lr_leaseMs r) \<and>
     safe_nat (lr_acceptedFailedBudget r) \<and> safe_nat (lr_dispatchRounds r) \<and> safe_nat (lr_renewalSeq r) \<and>
     deadline_ok (lr_offerTtlUntil r) \<and> deadline_ok (lr_leaseDeadline r) \<and> deadline_ok (lr_drainUntil r) \<and>
     deadline_ok (lr_cancelWaitUntil r) \<and> isLeadContract (lr_contract r)"

definition valid_lead_task :: "lead_task \<Rightarrow> bool" where
  "valid_lead_task t \<longleftrightarrow> valid_record (lt_rec t) \<and> safe_nat (lt_seq t) \<and> task_shape t"

definition stored_task :: "codec \<Rightarrow> lead_task \<Rightarrow> lead_task" where
  "stored_task cd t = (let r = lt_rec t in
     t\<lparr>lt_rec := r\<lparr>lr_excluded := stored_excluded cd (lr_excluded r), lr_history := [], lr_resultBody := None, lr_cancelReason := None,
                  lr_contract := map_option (via_text cd) (lr_contract r)\<rparr>,
       lt_past := map (via_text cd) (lt_past t @ map history_json (lr_history r)),
       lt_body := map_option (via_text cd) (case lr_resultBody r of Some b \<Rightarrow> Some (JObj b) | None \<Rightarrow> lt_body t),
       lt_why := map_option (via_text cd) (case lr_cancelReason r of Some c \<Rightarrow> Some (JStr (cancel_text c)) | None \<Rightarrow> lt_why t)\<rparr>)"

lemma nat_if_num [simp]: "nat_if (Some (JNum (of_nat n))) = (if safe_nat n then Some n else None)"
proof -
  have "isSafeInteger (of_nat n :: number) \<longleftrightarrow> safe_nat n"
    using isSafeInteger_of_int [of "int n"] by (simp add: safe_nat_def)
  then show ?thesis by (auto simp: nat_if_def num_if_def nonnegative_def positive_def safe_nat_def)
qed

lemma num_if_num [simp]: "num_if P (Some (JNum q)) = (if P q then Some q else None)"
  by (simp add: num_if_def)

lemma deadline_read [simp]: "optionalDeadline (map_option JNum v) = (if deadline_ok v then Some v else None)"
  by (cases v) (simp_all add: optionalDeadline_def opt_or_def deadline_ok_def)

lemma flag_read [simp]: "opt_or bool_of (map_option JBool v) = Some v"
  by (cases v) (simp_all add: opt_or_def bool_of_def)

lemma target_read [simp]:
  "null_or uuid_of (Some (nullable JStr v)) = (if (\<forall>n. v = Some n \<longrightarrow> isUuidStr n) then Some v else None)"
  by (cases v) (simp_all add: null_or_def nullable_def uuid_of_def)

text \<open>The fields of the object that is written.\<close>

lemma task_json_field: "map_of (task_fixed t @ task_optional t) k = (case map_of (task_fixed t) k of None \<Rightarrow> map_of (task_optional t) k | Some v \<Rightarrow> Some v)"
  by (simp add: map_add_def split: option.splits)

lemma optional_fields [simp]:
  "map_of (task_optional t) ''offerTtlUntil'' = map_option JNum (lr_offerTtlUntil (lt_rec t))"
  "map_of (task_optional t) ''leaseDeadline'' = map_option JNum (lr_leaseDeadline (lt_rec t))"
  "map_of (task_optional t) ''drainUntil'' = map_option JNum (lr_drainUntil (lt_rec t))"
  "map_of (task_optional t) ''drainClosed'' = map_option JBool (lr_drainClosed (lt_rec t))"
  "map_of (task_optional t) ''cancelWaitUntil'' = map_option JNum (lr_cancelWaitUntil (lt_rec t))"
  "map_of (task_optional t) ''completedBeforeCancel'' = map_option JBool (lr_completedBeforeCancel (lt_rec t))"
  "map_of (task_optional t) ''contract'' = lr_contract (lt_rec t)"
  "map_of (task_optional t) ''resultBody'' = (case lr_resultBody (lt_rec t) of Some b \<Rightarrow> Some (JObj b) | None \<Rightarrow> lt_body t)"
  "map_of (task_optional t) ''cancelReason'' = (case lr_cancelReason (lt_rec t) of Some c \<Rightarrow> Some (JStr (cancel_text c)) | None \<Rightarrow> lt_why t)"
  by (simp_all add: task_optional_def Let_def map_add_def option.map_ident split: option.splits)

lemma bind_if [simp]: "Option.bind (if c then Some x else None) f = (if c then f x else None)"
  by simp

lemma through [simp]:
  assumes "json_values cd"
  shows "nat_if (map_option (via_text cd) v) = nat_if v" "optionalDeadline (map_option (via_text cd) v) = optionalDeadline v"
    "opt_or bool_of (map_option (via_text cd) v) = opt_or bool_of v" "null_or uuid_of (map_option (via_text cd) v) = null_or uuid_of v"
  using assms by (simp_all add: nat_if_def optionalDeadline_def)

text \<open>Every read of \<open>read_task\<close>, on the object that comes back for \<open>task_json t\<close>.\<close>

lemma task_reads:
  fixes t :: lead_task
  assumes "json_values cd"
  defines "m \<equiv> \<lambda>k. map_of (canon cd (task_fixed t @ task_optional t)) k"
  shows "m ''version'' = Some (JNum 2)" "nat_if (m ''task_seq'') = (if safe_nat (lt_seq t) then Some (lt_seq t) else None)"
    "uuid_of (m ''task_id'') = (if isUuidStr (lr_task_id (lt_rec t)) then Some (lr_task_id (lt_rec t)) else None)"
    "one_of kind_text [Aid, Project] (m ''kind'') = Some (lr_kind (lt_rec t))"
    "one_of state_text LEAD_STATES (m ''state'') = Some (lr_state (lt_rec t))"
    "nat_if (m ''attempt'') = (if safe_nat (lr_attempt (lt_rec t)) then Some (lr_attempt (lt_rec t)) else None)"
    "null_or uuid_of (m ''target'') = (if \<forall>n. lr_target (lt_rec t) = Some n \<longrightarrow> isUuidStr n then Some (lr_target (lt_rec t)) else None)"
    "num_if positive (m ''leaseMs'') = (if positive (lr_leaseMs (lt_rec t)) then Some (lr_leaseMs (lt_rec t)) else None)"
    "bool_of (m ''acceptedThisAttempt'') = Some (lr_acceptedThisAttempt (lt_rec t))"
    "nat_if (m ''acceptedFailedBudget'') = (if safe_nat (lr_acceptedFailedBudget (lt_rec t)) then Some (lr_acceptedFailedBudget (lt_rec t)) else None)"
    "nat_if (m ''dispatchRounds'') = (if safe_nat (lr_dispatchRounds (lt_rec t)) then Some (lr_dispatchRounds (lt_rec t)) else None)"
    "nat_if (m ''renewalSeq'') = (if safe_nat (lr_renewalSeq (lt_rec t)) then Some (lr_renewalSeq (lt_rec t)) else None)"
    "Option.bind (obj_of (m ''excluded'')) read_excluded = Some (stored_excluded cd (lr_excluded (lt_rec t)))"
    "arr_of (m ''history'') = Some (map (via_text cd) (lt_past t @ map history_json (lr_history (lt_rec t))))"
    "optionalDeadline (m ''offerTtlUntil'') = (if deadline_ok (lr_offerTtlUntil (lt_rec t)) then Some (lr_offerTtlUntil (lt_rec t)) else None)"
    "optionalDeadline (m ''leaseDeadline'') = (if deadline_ok (lr_leaseDeadline (lt_rec t)) then Some (lr_leaseDeadline (lt_rec t)) else None)"
    "optionalDeadline (m ''drainUntil'') = (if deadline_ok (lr_drainUntil (lt_rec t)) then Some (lr_drainUntil (lt_rec t)) else None)"
    "optionalDeadline (m ''cancelWaitUntil'') = (if deadline_ok (lr_cancelWaitUntil (lt_rec t)) then Some (lr_cancelWaitUntil (lt_rec t)) else None)"
    "opt_or bool_of (m ''drainClosed'') = Some (lr_drainClosed (lt_rec t))"
    "opt_or bool_of (m ''completedBeforeCancel'') = Some (lr_completedBeforeCancel (lt_rec t))"
    "m ''contract'' = map_option (via_text cd) (lr_contract (lt_rec t))"
    "m ''resultBody'' = map_option (via_text cd) (case lr_resultBody (lt_rec t) of Some b \<Rightarrow> Some (JObj b) | None \<Rightarrow> lt_body t)"
    "m ''cancelReason'' = map_option (via_text cd) (case lr_cancelReason (lt_rec t) of Some c \<Rightarrow> Some (JStr (cancel_text c)) | None \<Rightarrow> lt_why t)"
proof -
  have m: "m k = map_option (via_text cd) (map_of (task_fixed t @ task_optional t) k)" for k
    using assms(1) by (simp add: m_def)
  note f = m task_json_field task_fixed_def Let_def
  show "Option.bind (obj_of (m ''excluded'')) read_excluded = Some (stored_excluded cd (lr_excluded (lt_rec t)))"
    using assms(1) read_excluded_via(1) [OF assms(1)] by (simp add: f obj_of_def excluded_json_def)
  show "arr_of (m ''history'') = Some (map (via_text cd) (lt_past t @ map history_json (lr_history (lt_rec t))))"
    using assms(1) by (simp add: f) (simp add: arr_of_def)
  show "null_or uuid_of (m ''target'') = (if \<forall>n. lr_target (lt_rec t) = Some n \<longrightarrow> isUuidStr n then Some (lr_target (lt_rec t)) else None)"
    using through(4) [OF assms(1), of "map_of (task_fixed t @ task_optional t) ''target''"] target_read [of "lr_target (lt_rec t)"]
    by (simp add: f del: through target_read null_or_through)
qed (use assms(1) in \<open>simp_all add: m_def task_json_field task_fixed_def Let_def uuid_of_def bool_of_def\<close>)

theorem read_task_json:
  assumes "json_values cd"
  shows "read_task (via_text cd (task_json t)) = (if valid_lead_task t then Some (stored_task cd t) else None)"
proof -
  have o: "obj_of (Some (via_text cd (task_json t))) = Some (canon cd (task_fixed t @ task_optional t))"
    using assms by (simp add: task_json_def obj_of_def)
  note r = task_reads [OF assms, of t]
  show ?thesis
    unfolding read_task_def o using r assms
    by (simp add: valid_lead_task_def valid_record_def task_shape_def stored_task_def Let_def del: map_append json_valuesD(6,7))
qed

end
