(* ===== verification/Lead_Host_Props.thy ===== *)
theory Lead_Host_Props
  imports Lead_Host Lead_Durable_Props Node_Store_Theorems
begin

text \<open>
  The host of the durable lead: what its store calls do to the stored tasks, and how an event of the host is a run of
  the task machine whose messages and report are committed with the new state.
\<close>

section \<open>Events are runs of the machine\<close>

definition redispatches :: "number \<Rightarrow> lead_event list \<Rightarrow> bool" where
  "redispatches now evs \<longleftrightarrow> (\<forall>e \<in> set evs. \<exists>target b. e = Ev_redispatch target b now)"

lemma drive_run:
  "\<exists>evs. redispatches now evs \<and>
     driveRedispatch select now m seen acts = (fst (run lead_step m evs), seen @ acts @ snd (run lead_step m evs))"
proof (induction select now m seen acts rule: driveRedispatch.induct)
  case (1 select now m seen)
  show ?case by (intro exI [of _ "[]"]) (simp add: redispatches_def)
next
  case (2 select now m seen a acts)
  show ?case
  proof (cases "\<exists>n p. a = LRequestDispatch n \<and> select (request_of m n) = Some p")
    case False
    then have none: "select (request_of m n) = None" if "a = LRequestDispatch n" for n using that by (cases "select (request_of m n)") auto
    then have d: "driveRedispatch select now m seen (a # acts) = driveRedispatch select now m (seen @ [a]) acts"
      by (auto split: lead_action.splits option.splits)
    have "\<exists>evs. redispatches now evs \<and> driveRedispatch select now m (seen @ [a]) acts =
        (fst (run lead_step m evs), (seen @ [a]) @ acts @ snd (run lead_step m evs))"
      using 2 none by (cases a) auto
    with d show ?thesis by simp
  next
    case True
    then obtain n target b where a: "a = LRequestDispatch n" "select (request_of m n) = Some (target, b)" by auto
    let ?step = "lead_step m (Ev_redispatch target b now)"
    from 2(4) [OF a(1) a(2) refl] obtain evs where e: "redispatches now evs"
      "driveRedispatch select now (fst ?step) (seen @ [a]) (acts @ snd ?step) =
        (fst (run lead_step (fst ?step) evs), (seen @ [a]) @ (acts @ snd ?step) @ snd (run lead_step (fst ?step) evs))"
      by auto
    with a show ?thesis
      by (intro exI [of _ "Ev_redispatch target b now # evs"]) (simp add: redispatches_def del: run.simps(2))
  qed
qed

text \<open>A runner that is a run of the machine, whatever the machine.\<close>

definition runs :: "lead_machine \<Rightarrow> runner \<Rightarrow> lead_event list \<Rightarrow> bool" where
  "runs m f evs \<longleftrightarrow> f m = run lead_step m evs"

lemma runs_step: "(\<And>m. f m = lead_step m e) \<Longrightarrow> runs m f [e]"
  by (simp add: runs_def case_prod_beta Let_def)

lemma runs_try: "\<exists>evs. redispatches now evs \<and> runs m (tryRedispatch select now) evs"
proof (cases "select (request_of m (lr_attempt (lm_rec m) + 1))")
  case None
  then show ?thesis by (intro exI [of _ "[]"]) (simp add: redispatches_def runs_def tryRedispatch_def)
next
  case (Some p)
  then show ?thesis
    by (intro exI [of _ "[Ev_redispatch (fst p) (snd p) now]"])
      (simp add: redispatches_def runs_def tryRedispatch_def case_prod_beta Let_def)
qed

text \<open>
  What one event commits: the record after a run of the machine, its messages, and a report with the next sequence number
  exactly when the state has changed.
\<close>

definition commits ::
  "lead_opts \<Rightarrow> lead_io \<Rightarrow> string \<Rightarrow> lead_machine \<Rightarrow> lead_task \<Rightarrow> lead_event list \<Rightarrow> event_result \<Rightarrow> bool" where
  "commits lo io newId m t evs e \<longleftrightarrow>
     (let m1 = fst (run lead_step m evs); moved = (lr_state (lm_rec m1) \<noteq> lr_state (lt_rec t));
          n = (if moved then lt_seq t + 1 else lt_seq t) in
      ev_value e = t\<lparr>lt_rec := lm_rec m1, lt_seq := n\<rparr> \<and> ev_changed e = moved \<and>
      ev_outbox e = map (li_seal io) (sends (snd (run lead_step m evs))) \<and>
      ev_effects e = (if moved then [taskReportEffect (report_of lo (lm_rec m1) n) newId] else []) \<and>
      ev_acted e = (moved \<or> snd (run lead_step m evs) \<noteq> []) \<and> (moved \<longrightarrow> safe_nat n))"

lemma safe_nat_iff: "isSafeInteger (of_nat n :: number) \<longleftrightarrow> safe_nat n"
  using isSafeInteger_of_int [of "int n"] by (simp add: safe_nat_def)

lemma runEvent_commits:
  assumes "runEvent lo (li_seal io) newId select verdicts t f now env = Some e" "runs (task_machine lo verdicts t env) f evs"
  obtains more where "redispatches now more" "commits lo io newId (task_machine lo verdicts t env) t (evs @ more) e"
proof -
  let ?m = "task_machine lo verdicts t env"
  obtain m1 acts1 where r: "run lead_step ?m evs = (m1, acts1)" by fastforce
  from drive_run [of now select m1 "[]" acts1] obtain more where d: "redispatches now more"
    "driveRedispatch select now m1 [] acts1 = (fst (run lead_step m1 more), acts1 @ snd (run lead_step m1 more))" by auto
  have "run lead_step ?m (evs @ more) = driveRedispatch select now m1 [] acts1"
    using r d(2) run_append_fst [of lead_step ?m evs more] run_append_snd [of lead_step ?m evs more]
    by (cases "run lead_step ?m (evs @ more)") simp
  with assms r d(1) show thesis
    by (intro that [of more])
      (auto simp: runEvent_def runs_def commits_def Let_def safe_nat_iff case_prod_beta split: if_splits)
qed

section \<open>Store calls\<close>

abbreviation lead_db :: "lead_host \<Rightarrow> node_db" where
  "lead_db h \<equiv> st_db (ld_store h)"

definition good_lead :: "lead_opts \<Rightarrow> bool" where
  "good_lead lo \<longleftrightarrow> rt_codec (nc_codec (lo_cfg lo)) \<and> json_values (nc_codec (lo_cfg lo))"

lemma good_leadD:
  assumes "good_lead lo"
  shows "rt_codec (nc_codec (lo_cfg lo))" "json_values (nc_codec (lo_cfg lo))"
  using assms by (simp_all add: good_lead_def)

lemma ld_call_cases:
  assumes "ld_call lo io op h = (h1, r)"
  obtains (err) st e where "r = Inl e" "h1 = h\<lparr>ld_store := st, ld_calls := ld_calls h + 1\<rparr>" "st_db st = lead_db h"
  | (ok) st out where "r = Inr out" "h1 = h\<lparr>ld_store := st, ld_calls := ld_calls h + 1\<rparr>"
      "rt_exec (lo_cfg lo) op (lead_db h) = Inr (st_db st, out)"
proof -
  obtain st q where t: "transaction (li_pf io (ld_calls h)) (ld_store h) (rt_exec (lo_cfg lo) op) = (st, q)" by fastforce
  with assms have h1: "h1 = h\<lparr>ld_store := st, ld_calls := ld_calls h + 1\<rparr>" and r: "r = map_sum Lf_store id q"
    by (simp_all add: ld_call_def)
  show thesis
  proof (cases q)
    case (Inl e)
    with t have "st_db st = lead_db h" by (intro transaction_err) simp
    with Inl r h1 show thesis by (intro err [of "Lf_store e" st]) simp_all
  next
    case (Inr out)
    from t Inr obtain db where "rt_exec (lo_cfg lo) op (lead_db h) = Inr (db, out)" "st = (ld_store h)\<lparr>st_db := db\<rparr>"
      by (auto elim: transaction_ok)
    with Inr r h1 show thesis by (intro ok [of out st]) simp_all
  qed
qed

text \<open>The stored row of a key, the task it holds, and the host after calls that only read.\<close>

definition row_at :: "lead_opts \<Rightarrow> node_db \<Rightarrow> string \<Rightarrow> rt_state option" where
  "row_at lo db k = map_option (row_state (nc_codec (lo_cfg lo)) k) (map_of (nd_state db) k)"

definition task_at :: "lead_opts \<Rightarrow> node_db \<Rightarrow> string \<Rightarrow> lead_task option" where
  "task_at lo db taskId = Option.bind (row_at lo db (leadStateKey taskId)) (\<lambda>row. read_task (rs_value row))"

lemma decodeState_row: "decodeState cd k r = Inr st \<Longrightarrow> st = row_state cd k r"
  by (auto simp: decodeState_def storedJson_def row_state_def Let_def split: if_splits)

lemma readState_row: "readState (nc_codec (lo_cfg lo)) db k = Inr row \<Longrightarrow> row = row_at lo db k"
  by (auto simp: readState_def row_at_def dest: decodeState_row split: option.splits)

lemma ld_state_cases:
  assumes "ld_state lo io k h = (h1, r)"
  obtains st where "h1 = h\<lparr>ld_store := st, ld_calls := ld_calls h + 1\<rparr>" "st_db st = lead_db h"
    "r = Inr (row_at lo (lead_db h) k) \<or> (\<exists>e. r = Inl e)"
proof -
  obtain h2 q where c: "ld_call lo io (Op_state k) h = (h2, q)" by fastforce
  from c show thesis
  proof (cases rule: ld_call_cases)
    case (err st e)
    with c assms show thesis by (intro that [of st]) (auto simp: ld_state_def seq_def)
  next
    case (ok st out)
    then obtain row where row: "readState (nc_codec (lo_cfg lo)) (lead_db h) k = Inr row" "out = Ot_state row" "st_db st = lead_db h"
      by (auto simp: read_out_Inr)
    with readState_row [OF row(1)] ok c assms show thesis
      by (intro that [of st]) (auto simp: ld_state_def seq_def ret_def)
  qed
qed

lemma ld_decode_state: "ld_decode row h = (h1, r) \<Longrightarrow> h1 = h"
  by (auto simp: ld_decode_def ret_def throw_def split: option.splits)

lemma ld_decode_row:
  "ld_decode row h = (h, Inr task) \<longleftrightarrow> (case row of None \<Rightarrow> task = None | Some st \<Rightarrow> task \<noteq> None \<and> read_task (rs_value st) = task)"
  by (auto simp: ld_decode_def ret_def throw_def split: option.splits)

section \<open>What a commit leaves\<close>

lemma event_state:
  assumes "good_lead lo"
    and "committed (lo_cfg lo) k n result db" "obj_get result ''state'' = Some (task_json t)" "isPlainObject result"
  shows "\<exists>row. row_at lo db k = Some row \<and> rs_revision row = n \<and>
    read_task (rs_value row) = (if valid_lead_task t then Some (stored_task (nc_codec (lo_cfg lo)) t) else None)"
proof -
  let ?cd = "nc_codec (lo_cfg lo)"
  note g = good_leadD [OF assms(1)]
  from assms(2) obtain val where v: "obj_get (via_text ?cd result) ''state'' = Some val"
    "map_of (nd_state db) k = Some \<lparr>sr_revision = n, sr_value = cd_jcs ?cd val\<rparr>"
    by (auto simp: committed_def Let_def via_text_def)
  from v(1) g(2) assms(3) have "val = via_text ?cd (task_json t)" by simp
  with v(2) via_idem [OF g(1)] read_task_json [OF g(2)]
  show ?thesis by (simp add: row_at_def row_state_def flip: via_text_def)
qed


lemma transition_commits:
  assumes "nr_transition cf db k e (\<lambda>_. Inr result) = Inr (db1, n)"
  shows "committed cf k (revision db k + 1) result db1" "\<exists>row. nd_state db1 = AList.update k row (nd_state db)"
    "length (nd_state db1) \<le> nc_maxEntries cf"
proof -
  note eff = nr_transition_effs [where P = "\<lambda>_. True", OF assms op_keys_True]
  from nr_transition_committed [OF assms] eff(2) show "committed cf k (revision db k + 1) result db1" by simp
  from assms obtain m where "applyTransition cf db k m result = Inr (db1, n)" by (auto simp: nr_transition_def split: prod.splits)
  from applyTransition_committed(2) [OF this] show "\<exists>row. nd_state db1 = AList.update k row (nd_state db)" .
  from eff(5) show "length (nd_state db1) \<le> nc_maxEntries cf" by (simp add: capacity_Inr usage_entries_def)
qed

text \<open>A transition of key \<open>k\<close> that was committed: nothing else of the state table has changed, and all it asked for is recorded.\<close>

definition lead_put :: "lead_opts \<Rightarrow> string \<Rightarrow> node_db \<Rightarrow> json \<Rightarrow> node_db \<Rightarrow> bool" where
  "lead_put lo k db result db1 \<longleftrightarrow>
     committed (lo_cfg lo) k (revision db k + 1) result db1 \<and> (\<exists>row. nd_state db1 = AList.update k row (nd_state db)) \<and>
     length (nd_state db1) \<le> nc_maxEntries (lo_cfg lo)"

definition lead_commit :: "lead_opts \<Rightarrow> string \<Rightarrow> node_db \<Rightarrow> event_result \<Rightarrow> node_db \<Rightarrow> bool" where
  "lead_commit lo k db e db1 \<longleftrightarrow> lead_put lo k db (event_json (ev_value e) (ev_outbox e) (ev_effects e)) db1"

lemma transition_put:
  "nr_transition (lo_cfg lo) db k e (\<lambda>_. Inr result) = Inr (db1, n) \<Longrightarrow> lead_put lo k db result db1"
  unfolding lead_put_def using transition_commits [of "lo_cfg lo"] by simp

lemma lead_put_row:
  assumes "good_lead lo" "lead_put lo k db result db1" "obj_get result ''state'' = Some (task_json t)" "isPlainObject result"
  obtains row where "row_at lo db1 k = Some row" "rs_revision row = revision db k + 1"
    "read_task (rs_value row) = (if valid_lead_task t then Some (stored_task (nc_codec (lo_cfg lo)) t) else None)"
  using event_state [OF assms(1) _ assms(3,4)] assms(2) unfolding lead_put_def by blast

lemma lead_put_other: "lead_put lo k db result db1 \<Longrightarrow> k1 \<noteq> k \<Longrightarrow> row_at lo db1 k1 = row_at lo db k1"
  by (auto simp: lead_put_def row_at_def)

lemma lead_commit_row:
  assumes "good_lead lo" "lead_commit lo k db e db1"
  obtains row where "row_at lo db1 k = Some row" "rs_revision row = revision db k + 1"
    "read_task (rs_value row) = (if valid_lead_task (ev_value e) then Some (stored_task (nc_codec (lo_cfg lo)) (ev_value e)) else None)"
  by (rule lead_put_row [OF assms(1) assms(2) [unfolded lead_commit_def], of "ev_value e"])
    (simp_all add: event_json_def that)

lemma lead_commit_other: "lead_commit lo k db e db1 \<Longrightarrow> k1 \<noteq> k \<Longrightarrow> row_at lo db1 k1 = row_at lo db k1"
  unfolding lead_commit_def by (rule lead_put_other)

lemma ld_event_cases:
  assumes "ld_event lo io k rv t runner h = (h1, r)"
    and "runs (task_machine lo (ld_verdicts h) t None) (runner (li_select io (ld_calls h))) evs"
  obtains (failed) x where "lead_db h1 = lead_db h" "r = Inl x"
  | (idle) e more where "lead_db h1 = lead_db h" "r = Inr False" "redispatches (li_now io) more"
      "commits lo io (li_id io (ld_calls h)) (task_machine lo (ld_verdicts h) t None) t (evs @ more) e" "\<not> ev_acted e"
  | (written) e more where "redispatches (li_now io) more"
      "commits lo io (li_id io (ld_calls h)) (task_machine lo (ld_verdicts h) t None) t (evs @ more) e" "ev_acted e"
      "r = Inr (ev_changed e)" "rv = revision (lead_db h) k" "lead_commit lo k (lead_db h) e (lead_db h1)"
proof (cases "runEvent lo (li_seal io) (li_id io (ld_calls h)) (li_select io (ld_calls h)) (ld_verdicts h) t
    (runner (li_select io (ld_calls h))) (li_now io) None")
  case None
  with assms(1) show thesis
    by (intro failed) (auto simp: ld_event_def ld_run_def seq_def ask_def throw_def)
next
  case (Some e)
  obtain more where c: "redispatches (li_now io) more"
    "commits lo io (li_id io (ld_calls h)) (task_machine lo (ld_verdicts h) t None) t (evs @ more) e"
    by (rule runEvent_commits [OF Some assms(2)])
  show thesis
  proof (cases "ev_acted e")
    case False
    with assms(1) Some show thesis
      using c by (intro idle [of more e]) (auto simp: ld_event_def ld_run_def seq_def ask_def ret_def)
  next
    case True
    let ?op = "Op_transition k (of_nat rv) (\<lambda>_. Inr (event_json (ev_value e) (ev_outbox e) (ev_effects e)))"
    obtain h2 q where l: "ld_call lo io ?op h = (h2, q)" by fastforce
    with assms(1) Some True have r: "(h1, r) = (case q of Inl x \<Rightarrow> (h2, Inl x)
        | Inr _ \<Rightarrow> (h2\<lparr>ld_verdicts := pruneVerdict (nc_codec (lo_cfg lo)) (ev_value e) (ld_verdicts h2)\<rparr>, Inr (ev_changed e)))"
      by (auto simp: ld_event_def ld_run_def ld_prune_def seq_def ask_def ret_def upd_def split: sum.splits)
    from l show thesis
    proof (cases rule: ld_call_cases)
      case (err st x)
      with r show thesis by (intro failed) auto
    next
      case (ok st out)
      then obtain n where t: "nr_transition (lo_cfg lo) (lead_db h) k (of_nat rv)
          (\<lambda>_. Inr (event_json (ev_value e) (ev_outbox e) (ev_effects e))) = Inr (st_db st, n)" by (auto simp: with_out_Inr)
      have "rv = revision (lead_db h) k"
        using nr_transition_effs(4) [where P = "\<lambda>_. True", OF t op_keys_True] by simp
      moreover have "lead_commit lo k (lead_db h) e (st_db st)"
        using transition_put [OF t] by (simp add: lead_commit_def)
      ultimately show thesis using r ok True c by (intro written [of more e]) auto
    qed
  qed
qed

lemma row_task_at: "task_at lo db taskId = Some t \<longleftrightarrow> (\<exists>row. row_at lo db (leadStateKey taskId) = Some row \<and> read_task (rs_value row) = Some t)"
  by (simp add: task_at_def bind_eq_Some_conv)

lemma row_at_revision: "row_at lo db k = Some row \<Longrightarrow> rs_revision row = revision db k"
  by (auto simp: row_at_def row_state_def revision_def)

lemma transitionEvent_cases:
  assumes "transitionEvent lo io taskId runner h = (h1, r)" "task_at lo (lead_db h) taskId = Some t"
    and "\<And>select m. \<exists>evs. F evs \<and> runs m (runner select) evs"
  obtains (failed) x where "lead_db h1 = lead_db h" "r = Inl x"
  | (idle) e evs more newId verdicts where "lead_db h1 = lead_db h" "r = Inr False" "F evs" "redispatches (li_now io) more"
      "commits lo io newId (task_machine lo verdicts t None) t (evs @ more) e" "\<not> ev_acted e"
  | (written) e evs more newId verdicts where "F evs" "redispatches (li_now io) more"
      "commits lo io newId (task_machine lo verdicts t None) t (evs @ more) e" "ev_acted e" "r = Inr (ev_changed e)"
      "lead_commit lo (leadStateKey taskId) (lead_db h) e (lead_db h1)"
proof -
  obtain h2 q where s: "ld_state lo io (leadStateKey taskId) h = (h2, q)" by fastforce
  from ld_state_cases [OF s] obtain st where h2: "h2 = h\<lparr>ld_store := st, ld_calls := ld_calls h + 1\<rparr>" "st_db st = lead_db h"
    "q = Inr (row_at lo (lead_db h) (leadStateKey taskId)) \<or> (\<exists>e. q = Inl e)" .
  show thesis
  proof (cases q)
    case (Inl e)
    with s assms(1) h2 show thesis by (intro failed) (auto simp: transitionEvent_def seq_def)
  next
    case (Inr row)
    with h2(3) assms(2) obtain st1 where row: "row = Some st1" "row_at lo (lead_db h) (leadStateKey taskId) = Some st1" "read_task (rs_value st1) = Some t"
      by (auto simp: row_task_at)
    then have d: "ld_decode row h2 = (h2, Inr (Some t))" by (simp add: ld_decode_row)
    with s Inr assms(1) row have e: "ld_event lo io (leadStateKey taskId) (rs_revision st1) t runner h2 = (h1, r)"
      by (simp add: transitionEvent_def seq_def revision_of_def)
    obtain evs where evs: "F evs" "runs (task_machine lo (ld_verdicts h2) t None) (runner (li_select io (ld_calls h2))) evs"
      using assms(3) by blast
    from e evs(2) show thesis
    proof (cases rule: ld_event_cases)
      case (failed x)
      with h2 show thesis by (intro that(1)) auto
    next
      case (idle e more)
      with evs h2 show thesis by (intro that(2) [of evs more _ _ e]) auto
    next
      case (written e more)
      with evs h2 show thesis by (intro that(3) [of evs more _ _ e]) auto
    qed
  qed
qed

end
