(* ===== verification/Lead_History.thy ===== *)
theory Lead_History
  imports Lead_Host_Props
begin

text \<open>
  The durable lead over histories: the abstract changes of its stored tasks (\<open>lead_eff\<close>), the proof that every event of
  the host is a sequence of them, and the invariant of the verdicts.
\<close>

section \<open>Consuming a message\<close>

definition message_of :: "json \<Rightarrow> number \<Rightarrow> lead_event" where
  "message_of env now =
     (let e = envelopeOf env in
      Ev_message (e_type e) (e_from_node e) (case e_attempt e of Some n \<Rightarrow> n | None \<Rightarrow> 0) (e_body e) now (Some (e_msg_id e)))"

text \<open>The result of a consume: what it commits when the message is applied.\<close>

lemma consume_commit:
  assumes "nr_consume (lo_cfg lo) db rq t = Inr (db1, res)"
    and "\<forall>env1 st result. t env1 st = Inr result \<longrightarrow> result = out"
  shows "nd_state db1 = nd_state db \<or> lead_put lo (cr_stateKey rq) db out db1"
  using assms(1)
proof (cases rule: nr_consume_cases)
  case (now row v en db2 db3 status n)
  let ?sk = "cr_stateKey rq"
  have same: "nd_state db2 = nd_state db" using r1_gate_effs(3) [where P = "\<lambda>_. True", OF now(6,3,9,7)] by simp
  show ?thesis
  proof (cases "status = Applied")
    case False
    with now(10,11) same show ?thesis by simp
  next
    case True
    with now(10) obtain st result where a: "t (rn_env en) st = Inr result" "applyTransition (lo_cfg lo) db2 ?sk (revision db ?sk) result = Inr (db3, n)" by auto
    note c = applyTransition_committed [OF a(2)]
    have "committed (lo_cfg lo) ?sk (revision db ?sk + 1) out db1"
      using c(1,3) assms(2) a(1) now(11)
      by (auto simp: committed_def Let_def outbound_recorded_def effect_recorded_def list_all_iff)
    moreover have "\<exists>row. nd_state db1 = AList.update ?sk row (nd_state db)" using c(2) same now(11) by simp
    moreover have "length (nd_state db1) \<le> nc_maxEntries (lo_cfg lo)" using now(12) by (simp add: capacity_Inr usage_entries_def)
    ultimately show ?thesis by (simp add: lead_put_def)
  qed
qed simp_all

text \<open>Parts of a procedure that only read leave the database.\<close>

abbreviation reads_only :: "'a lproc \<Rightarrow> bool" where
  "reads_only \<equiv> keeps (\<lambda>h h1. lead_db h1 = lead_db h)"

interpretation db_frame: host_frame "\<lambda>h h1. lead_db h1 = lead_db h"
  by unfold_locales simp_all

lemmas reads_seq = db_frame.keeps_seq and reads_catching = db_frame.keeps_catching

lemma decode_host: "fst (ld_decode row h) = h"
  using ld_decode_state [of row h] by (metis prod.collapse)

lemma reads_basic:
  "reads_only (ret x)" "reads_only (throw e)" "reads_only (ask f)" "reads_only (ld_decode row)"
  "(\<And>h. lead_db (g h) = lead_db h) \<Longrightarrow> reads_only (upd g)"
  by (simp_all add: keeps_def decode_host ret_def throw_def ask_def upd_def)

lemma reads_state: "reads_only (ld_state lo io k)"
proof (unfold keeps_def, rule allI)
  fix h
  obtain h1 r where s: "ld_state lo io k h = (h1, r)" by fastforce
  have "lead_db h1 = lead_db h" by (rule ld_state_cases [OF s]) simp
  with s show "lead_db (fst (ld_state lo io k h)) = lead_db h" by simp
qed

lemma reads_checked: "reads_only m \<Longrightarrow> reads_only (ld_checked m)"
  by (auto simp: ld_checked_def ld_failClosed_def intro!: reads_catching reads_seq reads_basic)

lemma checked_db: "lead_db (fst (ld_checked m h)) = lead_db (fst (m h))"
  by (auto simp: ld_checked_def catching_def seq_def throw_def ld_failClosed_def upd_def split: prod.splits sum.splits)

lemma command_db: "lead_db (fst (command ok m h)) = (if ld_faulted h \<or> \<not> ok then lead_db h else lead_db (fst (m h)))"
  by (auto simp: command_def checked_db ld_healthy_def seq_def ask_def throw_def ret_def split: prod.splits sum.splits)

lemma reads_prune: "reads_only (ld_prune lo t)" "reads_only (ld_forget taskId)"
  by (auto simp: ld_prune_def ld_forget_def intro: reads_basic)

lemma ld_run_cases:
  assumes "ld_run lo io t runner env h = (h1, r)"
    and "runs (task_machine lo (ld_verdicts h) t env) (runner (li_select io (ld_calls h))) evs"
  obtains (failed) x where "h1 = h" "r = Inl x"
  | (result) e more where "h1 = h" "r = Inr e" "redispatches (li_now io) more"
      "commits lo io (li_id io (ld_calls h)) (task_machine lo (ld_verdicts h) t env) t (evs @ more) e"
proof (cases "runEvent lo (li_seal io) (li_id io (ld_calls h)) (li_select io (ld_calls h)) (ld_verdicts h) t
    (runner (li_select io (ld_calls h))) (li_now io) env")
  case None
  with assms(1) show thesis by (intro failed) (auto simp: ld_run_def seq_def ask_def throw_def)
next
  case (Some e)
  from runEvent_commits [OF Some assms(2)] obtain more where "redispatches (li_now io) more"
    "commits lo io (li_id io (ld_calls h)) (task_machine lo (ld_verdicts h) t env) t (evs @ more) e" .
  with assms(1) Some show thesis by (intro result) (auto simp: ld_run_def seq_def ask_def ret_def)
qed

lemma commits_nothing:
  "commits lo io newId (task_machine lo verdicts t env) t [] \<lparr>ev_value = t, ev_outbox = [], ev_effects = [], ev_changed = False, ev_acted = False\<rparr>"
  by (simp add: commits_def task_machine_def sends_def)


text \<open>
  A consume leaves the stored tasks, or commits what the message, or nothing, did to the task: \<open>env\<close> is bound to the
  verdicts the host holds when the message arrives.
\<close>

lemma ld_consume_cases:
  assumes "ld_consume lo io env auth h = (h1, r)"
  defines "taskId \<equiv> (case e_task_id (envelopeOf env) of Some t \<Rightarrow> t | None \<Rightarrow> [])"
  obtains (kept) "nd_state (lead_db h1) = nd_state (lead_db h)"
  | (written) t e evs newId where "task_at lo (lead_db h) taskId = Some t"
      "evs = [] \<or> (\<exists>more. redispatches (li_now io) more \<and> evs = message_of env (li_now io) # more)"
      "commits lo io newId (task_machine lo (ld_verdicts h) t (Some env)) t evs e"
      "lead_commit lo (leadStateKey taskId) (lead_db h) e (lead_db h1)"
proof -
  let ?cd = "nc_codec (lo_cfg lo)" and ?k = "leadStateKey taskId" and ?e = "envelopeOf env"
  let ?allowed = "(e_from_team ?e = Some (lo_team lo) \<and> auth \<and> js_true (obj_get env ''sig'')) \<and> alive_until ?cd env (li_now io)"
  let ?runner = "\<lambda>(_ :: selector) m. onMessage m (e_type ?e) (e_from_node ?e) (case e_attempt ?e of Some n \<Rightarrow> n | None \<Rightarrow> 0) (e_body ?e) (li_now io) (Some (e_msg_id ?e))"
  let ?none = "\<lambda>t. \<lparr>ev_value = t, ev_outbox = [], ev_effects = [], ev_changed = False, ev_acted = False\<rparr>"
  let ?run = "\<lambda>t. if ?allowed then ld_run lo io t ?runner (Some env) else ret (?none t)"
  let ?op = "\<lambda>row e. Op_consume \<lparr>cr_fromNode = e_from_node ?e, cr_msgId = e_msg_id ?e, cr_stateKey = ?k, cr_expectedRevision = of_nat (revision_of row)\<rparr>
      (\<lambda>env1 _. if digest_of ?cd env1 \<noteq> digest_of ?cd env then Inl (Domain_error Rc_conflict)
                else Inr (event_json (ev_value e) (ev_outbox e) (ev_effects e)))"
  let ?after = "\<lambda>t. if e_type ?e = ''task.result'' then ld_forget (lr_task_id (lt_rec t))
      else seq (ld_state lo io ?k) (\<lambda>row1. seq (ld_decode row1) (\<lambda>task1. case task1 of None \<Rightarrow> throw Lf_state | Some t1 \<Rightarrow> ld_prune lo t1))"
  let ?body = "\<lambda>row task. case task of None \<Rightarrow> ret () | Some t \<Rightarrow> seq (?run t) (\<lambda>e. seq (ld_call lo io (?op row e)) (\<lambda>_. ?after t))"
  let ?m = "if e_to_node ?e \<noteq> nc_node (lo_cfg lo) \<or> \<not> isUuidStr taskId then ret ()
      else seq (ld_state lo io ?k) (\<lambda>row. seq (ld_decode row) (?body row))"
  have m: "ld_consume lo io env auth = command True ?m"
    unfolding ld_consume_def command_def taskId_def Let_def by simp
  have after: "reads_only (?after t)" for t
    by (auto intro!: reads_seq reads_state reads_basic reads_prune split: option.splits)
  obtain h2 q where h2: "?m h = (h2, q)" by fastforce
  have db: "lead_db h1 = (if ld_faulted h then lead_db h else lead_db h2)"
    using command_db [of True ?m h] assms(1) h2 unfolding m by simp
  show thesis
  proof (cases "ld_faulted h \<or> e_to_node ?e \<noteq> nc_node (lo_cfg lo) \<or> \<not> isUuidStr taskId")
    case True
    with h2 db show thesis by (intro kept) (auto simp: ret_def)
  next
    case False
    obtain h3 p where s: "ld_state lo io ?k h = (h3, p)" by fastforce
    obtain st where h3: "h3 = h\<lparr>ld_store := st, ld_calls := ld_calls h + 1\<rparr>" "st_db st = lead_db h"
      "p = Inr (row_at lo (lead_db h) ?k) \<or> (\<exists>e. p = Inl e)" by (rule ld_state_cases [OF s])
    show thesis
    proof (cases "\<exists>t. p = Inr (row_at lo (lead_db h) ?k) \<and> task_at lo (lead_db h) taskId = Some t")
      case False
      with False \<open>\<not> (ld_faulted h \<or> _)\<close> h2 s h3 have "lead_db h2 = lead_db h"
        by (auto simp: seq_def ld_decode_def ret_def throw_def row_task_at split: option.splits sum.splits)
      with db show thesis by (intro kept) simp
    next
      case True
      then obtain t where p: "p = Inr (row_at lo (lead_db h) ?k)" and t: "task_at lo (lead_db h) taskId = Some t" by blast
      then obtain row where row: "row_at lo (lead_db h) ?k = Some row" "read_task (rs_value row) = Some t" by (auto simp: row_task_at)
      from h2 \<open>\<not> (ld_faulted h \<or> _)\<close> s p row
      have tail: "seq (?run t) (\<lambda>e. seq (ld_call lo io (?op (Some row) e)) (\<lambda>_. ?after t)) h3 = (h2, q)"
        by (simp add: seq_def ld_decode_def ret_def)
      have runs: "runs m (?runner select) [message_of env (li_now io)]" for m select
        by (rule runs_step) (simp add: message_of_def Let_def)
      obtain h4 p4 where r: "?run t h3 = (h4, p4)" by fastforce
      have "h4 = h3 \<and> (\<forall>e. p4 = Inr e \<longrightarrow> (\<exists>evs newId. (evs = [] \<or> (\<exists>more. redispatches (li_now io) more \<and> evs = message_of env (li_now io) # more)) \<and>
          commits lo io newId (task_machine lo (ld_verdicts h) t (Some env)) t evs e))"
      proof (cases ?allowed)
        case False
        with r commits_nothing show ?thesis by (auto simp: ret_def)
      next
        case True
        with r have "ld_run lo io t ?runner (Some env) h3 = (h4, p4)" by simp
        from this runs show ?thesis
        proof (cases rule: ld_run_cases)
          case (result e more)
          with h3(1) show ?thesis by auto
        qed simp
      qed
      note r4 = this
      show thesis
      proof (cases p4)
        case (Inl x)
        with tail r have "h2 = h4" by (simp add: seq_def)
        moreover have "lead_db h4 = lead_db h" using r4 h3(1,2) by simp
        ultimately show thesis using db by (intro kept) simp
      next
        case (Inr e)
        with r4 obtain evs newId where e: "evs = [] \<or> (\<exists>more. redispatches (li_now io) more \<and> evs = message_of env (li_now io) # more)"
          "commits lo io newId (task_machine lo (ld_verdicts h) t (Some env)) t evs e" by blast
        obtain h5 p5 where c: "ld_call lo io (?op (Some row) e) h4 = (h5, p5)" by fastforce
        with tail r Inr have h2': "lead_db h2 = lead_db h5"
          using keepsD [OF after] by (auto simp: seq_def split: sum.splits)
        from c show thesis
        proof (cases rule: ld_call_cases)
          case (err st1 x)
          with h2' r4 h3 db show thesis by (intro kept) simp
        next
          case (ok st1 out)
          with r4 h3 obtain res where "nr_consume (lo_cfg lo) (lead_db h)
              \<lparr>cr_fromNode = e_from_node ?e, cr_msgId = e_msg_id ?e, cr_stateKey = ?k, cr_expectedRevision = of_nat (revision_of (Some row))\<rparr>
              (\<lambda>env1 _. if digest_of ?cd env1 \<noteq> digest_of ?cd env then Inl (Domain_error Rc_conflict)
                else Inr (event_json (ev_value e) (ev_outbox e) (ev_effects e))) = Inr (st_db st1, res)"
            by (auto simp: with_out_Inr)
          from consume_commit [OF this, of "event_json (ev_value e) (ev_outbox e) (ev_effects e)"]
          have "nd_state (st_db st1) = nd_state (lead_db h) \<or> lead_commit lo ?k (lead_db h) e (st_db st1)"
            by (auto simp: lead_commit_def split: if_splits)
          with h2' ok db t e show thesis using \<open>\<not> (ld_faulted h \<or> _)\<close> by (auto intro: kept written)
        qed
      qed
    qed
  qed
qed


section \<open>The abstract changes of the stored tasks\<close>

text \<open>
  Events of the machine on one stored task, committed with their messages and their report; a new task; a task taken over
  from another node, where none is stored here or one with a lower attempt; and anything that leaves the keys of the lead.
  \<open>P\<close> says which causes are allowed.
\<close>

datatype lead_cause = By_machine lead_event | By_origin string | By_takeover string

inductive lead_eff :: "lead_opts \<Rightarrow> (lead_cause \<Rightarrow> bool) \<Rightarrow> node_db \<Rightarrow> node_db \<Rightarrow> bool" for lo P where
  event: "row_at lo db k = Some row \<Longrightarrow> read_task (rs_value row) = Some t \<Longrightarrow> \<forall>e \<in> set evs. P (By_machine e) \<Longrightarrow>
    commits lo io newId (task_machine lo verdicts t env) t evs e \<Longrightarrow> lead_commit lo k db e db1 \<Longrightarrow> lead_eff lo P db db1"
| originated: "P (By_origin taskId) \<Longrightarrow> isUuidStr taskId \<Longrightarrow> row_at lo db (leadStateKey taskId) = None \<Longrightarrow>
    lead_put lo (leadStateKey taskId) db (JObj [(''state'', task_json (new_task lo taskId kind))]) db1 \<Longrightarrow> lead_eff lo P db db1"
| taken_over: "P (By_takeover (lr_task_id (lt_rec t))) \<Longrightarrow> read_task v = Some t \<Longrightarrow> taskId = lr_task_id (lt_rec t) \<Longrightarrow>
    row_at lo db (leadStateKey taskId) = None \<or> (\<exists>l. task_at lo db taskId = Some l \<and> lr_attempt (lt_rec l) < lr_attempt (lt_rec t)) \<Longrightarrow>
    t1 = (if lr_state (lt_rec t) \<in> set TERMINAL_STATES then t else fenced_task t) \<Longrightarrow>
    lead_put lo (leadStateKey taskId) db (JObj [(''state'', task_json t1)]) db1 \<Longrightarrow> lead_eff lo P db db1"
| unrelated: "\<forall>k. take 8 k = LEAD_STATE_PREFIX \<longrightarrow> row_at lo db1 k = row_at lo db k \<Longrightarrow>
    wf_map (nd_state db) \<longrightarrow> wf_map (nd_state db1) \<Longrightarrow> lead_eff lo P db db1"

abbreviation lead_effs :: "lead_opts \<Rightarrow> (lead_cause \<Rightarrow> bool) \<Rightarrow> node_db \<Rightarrow> node_db \<Rightarrow> bool" where
  "lead_effs lo P \<equiv> (lead_eff lo P)\<^sup>*\<^sup>*"

lemma effs_same: "nd_state db1 = nd_state db \<Longrightarrow> lead_effs lo P db db1"
  by (rule r_into_rtranclp, rule unrelated) (simp_all add: row_at_def)

lemma transitionEvent_effs:
  assumes "transitionEvent lo io taskId runner h = (h1, r)"
    and "\<And>select m. \<exists>evs. (\<forall>e \<in> set evs. P (By_machine e)) \<and> runs m (runner select) evs" "\<And>evs. redispatches (li_now io) evs \<Longrightarrow> \<forall>e \<in> set evs. P (By_machine e)"
  shows "lead_effs lo P (lead_db h) (lead_db h1)"
proof (cases "task_at lo (lead_db h) taskId")
  case None
  obtain h2 q where s: "ld_state lo io (leadStateKey taskId) h = (h2, q)" by fastforce
  obtain st where "h2 = h\<lparr>ld_store := st, ld_calls := ld_calls h + 1\<rparr>" "st_db st = lead_db h"
    "q = Inr (row_at lo (lead_db h) (leadStateKey taskId)) \<or> (\<exists>e. q = Inl e)" by (rule ld_state_cases [OF s])
  with None assms(1) s have "lead_db h1 = lead_db h"
    by (auto simp: transitionEvent_def seq_def task_at_def ld_decode_def ret_def throw_def split: option.splits bind_splits)
  then show ?thesis by simp
next
  case (Some t)
  from assms(1) Some assms(2) show ?thesis
  proof (cases rule: transitionEvent_cases)
    case (written e evs more newId verdicts)
    from Some obtain row where "row_at lo (lead_db h) (leadStateKey taskId) = Some row" "read_task (rs_value row) = Some t" by (auto simp: row_task_at)
    from event [where P = P, OF this _ written(3,6)] written(1) assms(3) [OF written(2)] have "lead_eff lo P (lead_db h) (lead_db h1)" by auto
    then show ?thesis by simp
  qed simp_all
qed

lemma originate_effs: "P (By_origin taskId) \<Longrightarrow> ld_originate lo io taskId kind h = (h1, r) \<Longrightarrow> lead_effs lo P (lead_db h) (lead_db h1)"
proof -
  let ?k = "leadStateKey taskId" and ?v = "JObj [(''state'', task_json (new_task lo taskId kind))]"
  let ?m = "seq (ld_state lo io ?k) (\<lambda>row. if row \<noteq> None then ret False
      else seq (ld_call lo io (Op_transition ?k 0 (\<lambda>_. Inr ?v))) (\<lambda>_. ret True))"
  assume P: "P (By_origin taskId)" and "ld_originate lo io taskId kind h = (h1, r)"
  then have c: "lead_db h1 = (if ld_faulted h \<or> \<not> isUuidStr taskId then lead_db h else lead_db (fst (?m h)))"
    using command_db [of "isUuidStr taskId" ?m h] by (simp add: ld_originate_def)
  have "lead_effs lo P (lead_db h) (lead_db (fst (?m h)))" if "isUuidStr taskId"
  proof -
    obtain h2 q where s: "ld_state lo io ?k h = (h2, q)" by fastforce
    obtain st where h2: "h2 = h\<lparr>ld_store := st, ld_calls := ld_calls h + 1\<rparr>" "st_db st = lead_db h"
      "q = Inr (row_at lo (lead_db h) ?k) \<or> (\<exists>e. q = Inl e)" by (rule ld_state_cases [OF s])
    show ?thesis
    proof (cases "q = Inr None")
      case False
      with s h2 have "lead_db (fst (?m h)) = lead_db h" by (auto simp: seq_def ret_def split: sum.splits)
      then show ?thesis by simp
    next
      case True
      obtain h3 p where l: "ld_call lo io (Op_transition ?k 0 (\<lambda>_. Inr ?v)) h2 = (h3, p)" by fastforce
      with s True have m: "lead_db (fst (?m h)) = lead_db h3" by (auto simp: seq_def ret_def split: sum.splits)
      from l show ?thesis
      proof (cases rule: ld_call_cases)
        case (err st1 x)
        with m h2 show ?thesis by simp
      next
        case (ok st1 out)
        with h2 obtain n where "nr_transition (lo_cfg lo) (lead_db h) ?k 0 (\<lambda>_. Inr ?v) = Inr (lead_db h3, n)" by (auto simp: with_out_Inr)
        from originated [of P, OF P that _ transition_put [OF this]] True h2 m show ?thesis by auto
      qed
    qed
  qed
  with c show ?thesis by auto
qed

lemma ld_event_row:
  assumes "ld_event lo io (rs_key row) (rs_revision row) t runner h = (h1, r)" "row_at lo (lead_db h) (rs_key row) = Some row"
    "read_task (rs_value row) = Some t" "\<exists>evs. (\<forall>e \<in> set evs. P (By_machine e)) \<and> runs (task_machine lo (ld_verdicts h) t None) (runner (li_select io (ld_calls h))) evs"
    "\<And>evs. redispatches (li_now io) evs \<Longrightarrow> \<forall>e \<in> set evs. P (By_machine e)"
  shows "lead_effs lo P (lead_db h) (lead_db h1) \<and> (\<forall>k. k \<noteq> rs_key row \<longrightarrow> row_at lo (lead_db h1) k = row_at lo (lead_db h) k)"
proof -
  obtain evs where evs: "\<forall>e \<in> set evs. P (By_machine e)" "runs (task_machine lo (ld_verdicts h) t None) (runner (li_select io (ld_calls h))) evs"
    using assms(4) by blast
  from assms(1) evs(2) show ?thesis
  proof (cases rule: ld_event_cases)
    case (written e more)
    from event [where P = P, OF assms(2,3) _ written(2,6)] evs(1) assms(5) [OF written(1)] have "lead_eff lo P (lead_db h) (lead_db h1)" by auto
    with lead_commit_other [OF written(6)] show ?thesis by simp
  qed simp_all
qed

definition redispatch_cause :: "number \<Rightarrow> lead_cause \<Rightarrow> bool" where
  "redispatch_cause now c \<longleftrightarrow> (\<exists>target b. c = By_machine (Ev_redispatch target b now))"

definition tick_cause :: "number \<Rightarrow> lead_cause \<Rightarrow> bool" where
  "tick_cause now c \<longleftrightarrow> (\<exists>timer. c = By_machine (Ev_timer timer now)) \<or> redispatch_cause now c"

lemma redispatches_cause: "redispatches now evs \<Longrightarrow> \<forall>e \<in> set evs. redispatch_cause now (By_machine e)"
  by (auto simp: redispatches_def redispatch_cause_def)

lemma redispatches_tick: "redispatches now evs \<Longrightarrow> \<forall>e \<in> set evs. tick_cause now (By_machine e)"
  using redispatches_cause by (auto simp: tick_cause_def)

lemma tick_runner_runs:
  assumes "tick_runner s0 t now \<noteq> None"
  shows "\<exists>evs. (\<forall>e \<in> set evs. tick_cause now (By_machine e)) \<and> runs m (the (tick_runner select t now)) evs"
proof (cases "dueTimer t now")
  case (Some timer)
  then show ?thesis
    by (intro exI [of _ "[Ev_timer timer now]"]) (auto simp: tick_runner_def tick_cause_def intro: runs_step)
next
  case None
  with assms have "tick_runner select t now = Some (tryRedispatch select now)" for select by (auto simp: tick_runner_def split: if_splits)
  with runs_try [of now m select] redispatches_tick show ?thesis by auto
qed

lemma tick_rows_effs:
  assumes "\<forall>row \<in> set rows. row_at lo (lead_db h) (rs_key row) = Some row" "distinct (map rs_key rows)"
  shows "lead_effs lo (tick_cause (li_now io)) (lead_db h) (lead_db (fst (tick_rows lo io rows h)))"
  using assms
proof (induction rows arbitrary: h)
  case (Cons row rows)
  show ?case
  proof (cases "read_task (rs_value row)")
    case None
    then show ?thesis by (simp add: seq_def ld_decode_def throw_def)
  next
    case (Some t)
    show ?thesis
    proof (cases "tick_runner (\<lambda>_. None) t (li_now io) = None")
      case True
      with Some Cons show ?thesis by (simp add: seq_def ld_decode_def ret_def)
    next
      case False
      obtain h1 q where e: "ld_event lo io (rs_key row) (rs_revision row) t (\<lambda>select. the (tick_runner select t (li_now io))) h = (h1, q)" by fastforce
      have one: "lead_effs lo (tick_cause (li_now io)) (lead_db h) (lead_db h1) \<and> (\<forall>k. k \<noteq> rs_key row \<longrightarrow> row_at lo (lead_db h1) k = row_at lo (lead_db h) k)"
        using Cons.prems(1) tick_runner_runs [OF False] redispatches_tick by (intro ld_event_row [OF e _ Some]) auto
      have "lead_effs lo (tick_cause (li_now io)) (lead_db h1) (lead_db (fst (tick_rows lo io rows h1)))"
      proof (rule Cons.IH)
        show "\<forall>row1 \<in> set rows. row_at lo (lead_db h1) (rs_key row1) = Some row1"
        proof
          fix row1
          assume row1: "row1 \<in> set rows"
          then have "rs_key row1 \<in> rs_key ` set rows" by (rule imageI)
          moreover from Cons.prems(2) have "rs_key row \<notin> rs_key ` set rows" by simp
          ultimately have "rs_key row1 \<noteq> rs_key row" by metis
          with one Cons.prems(1) row1 show "row_at lo (lead_db h1) (rs_key row1) = Some row1" by auto
        qed
      qed (use Cons.prems(2) in simp)
      with one Some False e show ?thesis by (auto simp: seq_def ld_decode_def ret_def split: sum.splits)
    qed
  qed
qed (simp add: ret_def)


text \<open>The rows that \<open>tick\<close> reads are the rows of the database, each once.\<close>

lemma states_rows:
  assumes "wf_map (nd_state db)" "nr_states (lo_cfg lo) db prefix limit = Inr rows"
  shows "\<forall>row \<in> set rows. row_at lo db (rs_key row) = Some row" "distinct (map rs_key rows)"
proof -
  let ?cd = "nc_codec (lo_cfg lo)"
  let ?rows = "\<lambda>n. take n (sort_key (\<lambda>(k, r). map (of_char :: char \<Rightarrow> nat) k) (filter (\<lambda>(k, r). take (length prefix) k = prefix) (nd_state db)))"
  from assms(2) obtain n where "each (\<lambda>(k, r). decodeState ?cd k r) (?rows n) = Inr rows" by (auto simp: nr_states_def)
  then have all: "list_all2 (\<lambda>x row. row = row_state ?cd (fst x) (snd x)) (?rows n) rows"
    unfolding each_Inr by (rule list.rel_mono_strong) (auto dest: decodeState_row)
  then have rows: "rows = map (\<lambda>x. row_state ?cd (fst x) (snd x)) (?rows n)"
    by (induction rule: list_all2_induct) simp_all
  then have keys: "map rs_key rows = map fst (?rows n)" by (simp add: row_state_def o_def)
  have sub: "set (?rows n) \<subseteq> set (nd_state db)" using set_take_subset by fastforce
  have d: "distinct (map fst (nd_state db))" using assms(1) by (simp add: wf_map_def)
  have "distinct (map fst (filter (\<lambda>(k, r). take (length prefix) k = prefix) (nd_state db)))" using d by (rule distinct_map_filter)
  then have "distinct (map fst (sort_key (\<lambda>(k, r). map (of_char :: char \<Rightarrow> nat) k) (filter (\<lambda>(k, r). take (length prefix) k = prefix) (nd_state db))))"
    by (simp add: distinct_map)
  then show "distinct (map rs_key rows)" unfolding keys take_map [symmetric] by (rule distinct_take)
  show "\<forall>row \<in> set rows. row_at lo db (rs_key row) = Some row"
  proof
    fix row
    assume "row \<in> set rows"
    with rows obtain x where x: "x \<in> set (?rows n)" "row = row_state ?cd (fst x) (snd x)" by auto
    with sub d have "map_of (nd_state db) (fst x) = Some (snd x)" by (auto simp: map_of_eq_Some_iff)
    with x(2) show "row_at lo db (rs_key row) = Some row" by (simp add: row_at_def row_state_def)
  qed
qed

lemma seq_states_db:
  assumes "\<And>h1 rows. lead_db h1 = lead_db h \<Longrightarrow> nr_states (lo_cfg lo) (lead_db h) LEAD_STATE_PREFIX (of_nat (nc_maxEntries (lo_cfg lo))) = Inr rows
      \<Longrightarrow> Q (lead_db (fst (f rows h1)))" "Q (lead_db h)"
  shows "Q (lead_db (fst (seq (ld_states lo io) f h)))"
proof -
  obtain h2 q where c: "ld_call lo io (Op_states LEAD_STATE_PREFIX (of_nat (nc_maxEntries (lo_cfg lo)))) h = (h2, q)" by fastforce
  from c show ?thesis
  proof (cases rule: ld_call_cases)
    case (err st e)
    with c assms(2) show ?thesis by (simp add: seq_def ld_states_def)
  next
    case (ok st out)
    then obtain rows where "nr_states (lo_cfg lo) (lead_db h) LEAD_STATE_PREFIX (of_nat (nc_maxEntries (lo_cfg lo))) = Inr rows"
      "out = Ot_states rows" "lead_db h2 = lead_db h" by (auto simp: read_out_Inr)
    with c ok assms(1) [of h2 rows] show ?thesis by (simp add: seq_def ld_states_def ret_def)
  qed
qed

lemma tick_effs:
  assumes "wf_map (nd_state (lead_db h))"
  shows "lead_effs lo (tick_cause (li_now io)) (lead_db h) (lead_db (fst (ld_tick lo io h)))"
proof -
  have "lead_effs lo (tick_cause (li_now io)) (lead_db h) (lead_db (fst (seq (ld_states lo io) (tick_rows lo io) h)))"
  proof (rule seq_states_db)
    fix h1 rows
    assume h1: "lead_db h1 = lead_db h"
      and "nr_states (lo_cfg lo) (lead_db h) LEAD_STATE_PREFIX (of_nat (nc_maxEntries (lo_cfg lo))) = Inr rows"
    from states_rows [OF assms this(2)] tick_rows_effs [of rows lo h1 io] h1
    show "lead_effs lo (tick_cause (li_now io)) (lead_db h) (lead_db (fst (tick_rows lo io rows h1)))" by simp
  qed simp
  then show ?thesis by (simp add: ld_tick_def command_db)
qed

section \<open>Takeover\<close>

lemma import_effs:
  assumes P: "\<And>id. P (By_takeover id)"
  shows "lead_effs lo P (lead_db h) (lead_db (fst (import_entries lo io entries res h)))"
proof (induction entries arbitrary: h res)
  case (Cons entry entries)
  show ?case
  proof (cases "Option.bind (obj_get entry ''task'') read_task")
    case None
    then show ?thesis by (simp add: throw_def)
  next
    case (Some t)
    let ?id = "lr_task_id (lt_rec t)"
    let ?k = "leadStateKey ?id"
    let ?t1 = "if lr_state (lt_rec t) \<in> set TERMINAL_STATES then t else fenced_task t"
    let ?res = "if lr_state (lt_rec t) \<in> set TERMINAL_STATES then res\<lparr>im_archived := im_archived res @ [?id]\<rparr> else res\<lparr>im_imported := im_imported res @ [?id]\<rparr>"
    let ?op = "\<lambda>row. Op_transition ?k (of_nat (revision_of row)) (\<lambda>_. Inr (JObj [(''state'', task_json ?t1)]))"
    let ?low = "\<lambda>loc. case loc of None \<Rightarrow> False | Some l \<Rightarrow> lr_attempt (lt_rec t) \<le> lr_attempt (lt_rec l)"
    let ?store = "\<lambda>row. seq (ld_call lo io (?op row)) (\<lambda>_. seq (ld_forget ?id) (\<lambda>_. import_entries lo io entries ?res))"
    obtain v where v: "read_task v = Some t" using Some by (auto simp: bind_eq_Some_conv)
    obtain h2 q where s: "ld_state lo io ?k h = (h2, q)" by fastforce
    obtain st where h2: "h2 = h\<lparr>ld_store := st, ld_calls := ld_calls h + 1\<rparr>" "st_db st = lead_db h"
      "q = Inr (row_at lo (lead_db h) ?k) \<or> (\<exists>e. q = Inl e)" by (rule ld_state_cases [OF s])
    have step: "import_entries lo io (entry # entries) res =
        seq (ld_state lo io ?k) (\<lambda>row. seq (ld_decode row) (\<lambda>loc. if ?low loc
          then import_entries lo io entries (res\<lparr>im_fenced := im_fenced res @ [?id]\<rparr>) else ?store row))"
      using Some by (simp add: Let_def cong: if_cong)
    show ?thesis
    proof (cases "\<exists>loc. q = Inr (row_at lo (lead_db h) ?k) \<and> ld_decode (row_at lo (lead_db h) ?k) h2 = (h2, Inr loc)")
      case False
      obtain g d where d: "ld_decode (row_at lo (lead_db h) ?k) h2 = (g, d)" by fastforce
      from d have g: "g = h2" by (rule ld_decode_state)
      have "fst (import_entries lo io (entry # entries) res h) = h2"
      proof (cases "\<exists>e. q = Inl e")
        case True
        with s show ?thesis unfolding step by (auto simp: seq_def)
      next
        case noerr: False
        with h2(3) have q: "q = Inr (row_at lo (lead_db h) ?k)" by blast
        with False d g obtain e where "d = Inl e" by (cases d) auto
        with s q d g show ?thesis unfolding step by (simp add: seq_def)
      qed
      with h2 show ?thesis by simp
    next
      case True
      then obtain loc where loc: "q = Inr (row_at lo (lead_db h) ?k)" "ld_decode (row_at lo (lead_db h) ?k) h2 = (h2, Inr loc)" by blast
      show ?thesis
      proof (cases "?low loc")
        case True
        with loc s h2 Cons.IH [of h2] show ?thesis unfolding step by (simp add: seq_def)
      next
        case False
        let ?row = "row_at lo (lead_db h) ?k"
        have tail: "import_entries lo io (entry # entries) res h = ?store ?row h2"
          unfolding step using loc s False by (simp add: seq_def)
        obtain h3 p where l: "ld_call lo io (?op ?row) h2 = (h3, p)" by fastforce
        from l show ?thesis
        proof (cases rule: ld_call_cases)
          case (err st1 x)
          with h2 l show ?thesis unfolding tail by (simp add: seq_def)
        next
          case (ok st1 out)
          with h2 obtain n where "nr_transition (lo_cfg lo) (lead_db h) ?k (of_nat (revision_of ?row)) (\<lambda>_. Inr (JObj [(''state'', task_json ?t1)])) = Inr (lead_db h3, n)"
            by (auto simp: with_out_Inr)
          moreover have "?row = None \<or> (\<exists>l. task_at lo (lead_db h) ?id = Some l \<and> lr_attempt (lt_rec l) < lr_attempt (lt_rec t))"
            using loc(2) False by (auto simp: ld_decode_row row_task_at split: option.splits)
          ultimately have "lead_eff lo P (lead_db h) (lead_db h3)" using taken_over [of P, OF P v refl _ refl transition_put] by blast
          moreover have "lead_effs lo P (lead_db h3) (lead_db (fst (?store ?row h2)))"
            using l ok Cons.IH [of "h3\<lparr>ld_verdicts := AList.delete ?id (ld_verdicts h3)\<rparr>" ?res]
            by (simp add: seq_def ld_forget_def upd_def del: import_entries.simps)
          ultimately show ?thesis unfolding tail by (rule converse_rtranclp_into_rtranclp)
        qed
      qed
    qed
  qed
qed (simp add: ret_def)

end
