(* ===== verification/Lead_Refines.thy ===== *)
theory Lead_Refines
  imports Lead_History
begin

text \<open>
  Every event of the durable lead refines the task machine: what it does to the stored tasks is a sequence of the abstract
  changes \<open>lead_eff\<close> whose causes belong to that event.
\<close>

section \<open>The causes of an event\<close>

fun permitted :: "lead_io \<Rightarrow> lead_ev \<Rightarrow> lead_cause \<Rightarrow> bool" where
  "permitted io (Le_originate t k) c \<longleftrightarrow> c = By_origin t"
| "permitted io (Le_dispatch t n b) c \<longleftrightarrow> c = By_machine (Ev_dispatch n b (li_now io)) \<or> redispatch_cause (li_now io) c"
| "permitted io (Le_cancel t) c \<longleftrightarrow> c = By_machine (Ev_cancelByUser (li_now io)) \<or> redispatch_cause (li_now io) c"
| "permitted io (Le_redispatch t) c \<longleftrightarrow> c = By_machine (Ev_redispatchByOwner (li_now io)) \<or> redispatch_cause (li_now io) c"
| "permitted io Le_tick c \<longleftrightarrow> tick_cause (li_now io) c"
| "permitted io (Le_import b) c \<longleftrightarrow> (\<exists>t. c = By_takeover t)"
| "permitted io (Le_consume env b) c \<longleftrightarrow> c = By_machine (message_of env (li_now io)) \<or> redispatch_cause (li_now io) c"
| "permitted io _ c \<longleftrightarrow> False"

section \<open>Events that only read\<close>

lemma states_reads: "reads_only (ld_states lo io)"
proof (unfold keeps_def, rule allI)
  fix h
  have "lead_db (fst (seq (ld_states lo io) (\<lambda>_. ret ()) h)) = lead_db h"
    by (rule seq_states_db) (simp_all add: ret_def)
  then show "lead_db (fst (ld_states lo io h)) = lead_db h"
    by (simp add: seq_def ret_def split: prod.splits sum.splits)
qed

lemma export_rows_reads: "reads_only (export_rows rows)"
  by (induction rows) (auto intro!: reads_seq reads_basic)

lemma export_reads: "lead_db (fst (ld_exportTasks lo io h)) = lead_db h"
proof -
  have "reads_only (seq (ld_states lo io) (\<lambda>rows. seq (export_rows rows) (\<lambda>tasks. ret (f tasks))))" for f :: "json list \<Rightarrow> json"
    by (intro reads_seq states_reads export_rows_reads reads_basic)
  from this [unfolded keeps_def, rule_format, of _ h] show ?thesis
    by (simp add: ld_exportTasks_def command_db)
qed

lemma stage_reads: "reads_only (ld_stage lo io env)"
  unfolding ld_stage_def quietly_def stage_begin_def on_def Let_def
  by (intro reads_catching reads_seq reads_basic)
    (auto intro!: reads_seq reads_state reads_basic split: option.splits prod.splits)

lemma unstage_reads: "reads_only (unstage i)" "reads_only (stage_end s)" "reads_only (stage_verdict lo s input current)"
  by (auto simp: unstage_def stage_end_def stage_verdict_def Let_def intro!: reads_basic split: option.splits)

lemma collected_reads: "reads_only (ld_collected i answer)"
  unfolding ld_collected_def
  by (intro reads_seq reads_basic) (auto intro!: reads_seq reads_basic unstage_reads split: option.splits)

lemma resolved_reads: "reads_only (ld_resolved lo io i answer)"
  unfolding ld_resolved_def quietly_def
  by (intro reads_seq reads_basic)
    (auto intro!: reads_seq reads_catching reads_state reads_basic unstage_reads split: option.splits)


section \<open>The events\<close>

lemma foreign_effs:
  assumes "lead_foreign op"
  shows "lead_effs lo P (lead_db h) (lead_db (fst (ld_call lo io op h)))"
proof -
  obtain h1 r where c: "ld_call lo io op h = (h1, r)" by fastforce
  from c show ?thesis
  proof (cases rule: ld_call_cases)
    case (err st e)
    with c show ?thesis by simp
  next
    case (ok st out)
    have "row_at lo (lead_db h1) k = row_at lo (lead_db h) k" if "take 8 k = LEAD_STATE_PREFIX" for k
    proof -
      have "\<not> writes op k" using assms that by (auto simp: lead_foreign_def writes_def split: rt_op.splits)
      with ok state_frame show ?thesis by (simp add: row_at_def)
    qed
    from unrelated [where P = P and lo = lo, of "lead_db h1" "lead_db h"] this c state_wf [OF ok(3)] ok(2) show ?thesis by auto
  qed
qed

lemma command_effs:
  assumes "\<And>h1 r. m h = (h1, r) \<Longrightarrow> lead_effs lo P (lead_db h) (lead_db h1)"
  shows "lead_effs lo P (lead_db h) (lead_db (fst (command ok m h)))"
  using assms by (cases "m h") (simp add: command_db)

text \<open>The calls that bring one event of the machine to one task.\<close>

lemma event_effs:
  assumes "\<And>select m. runner select m = lead_step m e" "P (By_machine e)" "\<And>c. redispatch_cause (li_now io) c \<Longrightarrow> P c"
  shows "lead_effs lo P (lead_db h) (lead_db (fst (command ok (transitionEvent lo io taskId runner) h)))"
proof (rule command_effs)
  fix h1 r
  assume "transitionEvent lo io taskId runner h = (h1, r)"
  then show "lead_effs lo P (lead_db h) (lead_db h1)"
  proof (rule transitionEvent_effs)
    show "\<exists>evs. (\<forall>e \<in> set evs. P (By_machine e)) \<and> runs m (runner select) evs" for select m
      using assms(1,2) by (intro exI [of _ "[e]"]) (simp add: runs_step)
    show "\<forall>e \<in> set evs. P (By_machine e)" if "redispatches (li_now io) evs" for evs
      using redispatches_cause [OF that] assms(3) by blast
  qed
qed

lemma consume_effs:
  "lead_effs lo (permitted io (Le_consume env auth)) (lead_db h) (lead_db (fst (ld_consume lo io env auth h)))"
proof -
  let ?P = "permitted io (Le_consume env auth)"
  obtain h1 r where c: "ld_consume lo io env auth h = (h1, r)" by fastforce
  from c have "lead_effs lo ?P (lead_db h) (lead_db h1)"
  proof (cases rule: ld_consume_cases)
    case kept
    then show ?thesis by (rule effs_same)
  next
    case (written t e evs newId)
    let ?id = "case e_task_id (envelopeOf env) of Some t \<Rightarrow> t | None \<Rightarrow> []"
    from written(1) obtain row where "row_at lo (lead_db h) (leadStateKey ?id) = Some row" "read_task (rs_value row) = Some t"
      by (auto simp: row_task_at)
    moreover have "\<forall>e \<in> set evs. ?P (By_machine e)" using written(2) redispatches_cause by auto
    ultimately have "lead_eff lo ?P (lead_db h) (lead_db h1)" using written(3,4) event [where P = ?P] by blast
    then show ?thesis by simp
  qed
  with c show ?thesis by simp
qed

lemma lead_refines:
  assumes "wf_map (nd_state (lead_db h))" "\<And>op. ev = Le_foreign op \<Longrightarrow> lead_foreign op"
  shows "lead_effs lo (permitted io ev) (lead_db h) (lead_db (lead_ev_step lo io ev h))"
proof (cases ev)
  case (Le_originate t k)
  then show ?thesis using originate_effs [of "permitted io ev" t lo io k h] by (cases "ld_originate lo io t k h") (simp add: silent_def)
next
  case (Le_dispatch t n b)
  then show ?thesis unfolding Le_dispatch lead_ev_step.simps silent_def ld_dispatch_def
    by (intro event_effs [where e = "Ev_dispatch n b (li_now io)"]) simp_all
next
  case (Le_cancel t)
  then show ?thesis unfolding Le_cancel lead_ev_step.simps silent_def ld_cancel_def
    by (intro event_effs [where e = "Ev_cancelByUser (li_now io)"]) simp_all
next
  case (Le_redispatch t)
  then show ?thesis unfolding Le_redispatch lead_ev_step.simps silent_def ld_redispatch_def
    by (intro event_effs [where e = "Ev_redispatchByOwner (li_now io)"]) simp_all
next
  case Le_tick
  have "permitted io Le_tick = tick_cause (li_now io)" by (rule ext) simp
  with Le_tick tick_effs [OF assms(1)] show ?thesis by (simp add: silent_def)
next
  case (Le_import b)
  have "lead_effs lo (permitted io ev) (lead_db h) (lead_db (fst (import_entries lo io entries res h)))" for entries res
    by (rule import_effs) (simp add: Le_import)
  then show ?thesis
    unfolding Le_import lead_ev_step.simps silent_def ld_importTasks_def
    by (auto intro!: command_effs simp: throw_def split: option.splits json.splits if_splits) (metis fst_conv)+
next
  case (Le_consume env b)
  with consume_effs show ?thesis by (simp add: silent_def)
next
  case (Le_foreign op)
  with assms(2) foreign_effs show ?thesis by (simp add: silent_def)
next
  case Le_export
  then show ?thesis by (simp add: silent_def export_reads)
next
  case (Le_stage env)
  with stage_reads show ?thesis by (simp add: silent_def keeps_def)
next
  case (Le_collected i a)
  with collected_reads show ?thesis by (simp add: silent_def keeps_def)
next
  case (Le_resolved i a)
  with resolved_reads show ?thesis by (simp add: silent_def keeps_def)
next
  case (Le_crash st)
  then show ?thesis by (simp add: fresh_lead_def)
qed

end
