(* ===== verification/Lead_Verdicts.thy ===== *)
theory Lead_Verdicts
  imports Lead_Refines
begin

text \<open>
  The verdicts of the durable lead: every verdict \<open>true\<close> it holds stands for a delivery of the same task, context and
  envelope whose check has returned \<open>true\<close>, whatever the order in which staging calls, answers, messages and crashes come.
\<close>

section \<open>Calls that only drop verdicts\<close>

definition sheds :: "lead_host \<Rightarrow> lead_host \<Rightarrow> bool" where
  "sheds h h1 \<longleftrightarrow> ld_tokens h1 = ld_tokens h \<and> ld_staging h1 = ld_staging h \<and> ld_log h1 = ld_log h \<and>
     (\<forall>k v. map_of (ld_verdicts h1) k = Some v \<longrightarrow> map_of (ld_verdicts h) k = Some v)"

interpretation shed: host_frame sheds
  by unfold_locales (simp_all add: sheds_def)

named_theorems shedding

lemma sheds_delete: "map_of (AList.delete k m) k1 = Some v \<Longrightarrow> map_of m k1 = Some v"
  by (simp add: delete_conv' split: if_splits)

lemma sheds_call [shedding]: "keeps sheds (ld_call lo io op)"
  by (simp add: keeps_def ld_call_def sheds_def split: prod.splits)

lemma sheds_parts [shedding]:
  "keeps sheds (ld_decode row)" "keeps sheds (ld_prune lo t)" "keeps sheds (ld_forget k)" "keeps sheds ld_failClosed" "keeps sheds ld_healthy"
proof -
  show "keeps sheds (ld_decode row)" by (simp add: keeps_def decode_host shed.frame_refl)
  show "keeps sheds (ld_prune lo t)"
    by (auto simp: keeps_def ld_prune_def upd_def sheds_def pruneVerdict_def dest: sheds_delete split: option.splits if_splits)
  show "keeps sheds (ld_forget k)" by (auto simp: keeps_def ld_forget_def upd_def sheds_def dest: sheds_delete)
  show "keeps sheds ld_failClosed" by (simp add: keeps_def ld_failClosed_def upd_def sheds_def)
  show "keeps sheds ld_healthy" unfolding ld_healthy_def by (auto intro!: shed.keeps_seq shed.keeps_basic)
qed

lemma sheds_state [shedding]: "keeps sheds (ld_state lo io k)"
  unfolding ld_state_def by (auto intro!: shed.keeps_seq shed.keeps_basic shedding split: rt_out.splits)

lemma sheds_states [shedding]: "keeps sheds (ld_states lo io)"
  unfolding ld_states_def by (auto intro!: shed.keeps_seq shed.keeps_basic shedding split: rt_out.splits)

lemma sheds_command: "keeps sheds m \<Longrightarrow> keeps sheds (command ok m)"
  unfolding command_def ld_checked_def by (auto intro!: shed.keeps_seq shed.keeps_catching shed.keeps_basic shedding)

lemma sheds_run [shedding]: "keeps sheds (ld_run lo io t runner env)"
  unfolding ld_run_def by (auto intro!: shed.keeps_seq shed.keeps_basic split: option.splits)

lemma sheds_event [shedding]: "keeps sheds (ld_event lo io k rv t runner)"
  unfolding ld_event_def by (auto intro!: shed.keeps_seq shed.keeps_basic shedding)

lemma sheds_transition [shedding]: "keeps sheds (transitionEvent lo io taskId runner)"
  unfolding transitionEvent_def by (auto intro!: shed.keeps_seq shed.keeps_basic shedding split: option.splits)

lemma sheds_tick_rows [shedding]: "keeps sheds (tick_rows lo io rows)"
  by (induction rows) (auto intro!: shed.keeps_seq shed.keeps_basic shedding split: option.splits)

lemma sheds_export_rows [shedding]: "keeps sheds (export_rows rows)"
  by (induction rows) (auto intro!: shed.keeps_seq shed.keeps_basic shedding)

lemma sheds_import [shedding]: "keeps sheds (import_entries lo io entries res)"
  by (induction entries arbitrary: res)
    (auto simp: Let_def intro!: shed.keeps_seq shed.keeps_basic shedding split: option.splits)

lemma sheds_commands [shedding]:
  "keeps sheds (ld_originate lo io t kd)" "keeps sheds (ld_dispatch lo io t n b)" "keeps sheds (ld_cancel lo io t)"
  "keeps sheds (ld_redispatch lo io t)" "keeps sheds (ld_tick lo io)" "keeps sheds (ld_exportTasks lo io)"
  "keeps sheds (ld_importTasks lo io bundle)"
  unfolding ld_originate_def ld_dispatch_def ld_cancel_def ld_redispatch_def ld_tick_def ld_exportTasks_def ld_importTasks_def
  by (auto intro!: sheds_command shed.keeps_seq shed.keeps_basic shedding split: option.splits json.splits)

lemma sheds_consume [shedding]: "keeps sheds (ld_consume lo io env auth)"
  unfolding ld_consume_def ld_checked_def Let_def
  by (auto intro!: shed.keeps_seq shed.keeps_catching shed.keeps_basic shedding split: option.splits)

section \<open>The invariant\<close>

text \<open>A delivery whose check has returned \<open>true\<close>.\<close>

definition checked_delivery :: "lead_opts \<Rightarrow> delivery_check \<Rightarrow> bool" where
  "checked_delivery lo c \<longleftrightarrow>
     verifyArtifactDelivery (nc_codec (lo_cfg lo)) (lo_ed lo) (dc_input c) \<and> di_taskId (dc_input c) = dc_task c \<and>
     di_fromNodeId (dc_input c) = e_from_node (envelopeOf (dc_env c))"

text \<open>A verdict with the token of a staging call is about the envelope and the context of this call.\<close>

definition bound_stage :: "lead_opts \<Rightarrow> stage_pc \<Rightarrow> lead_host \<Rightarrow> bool" where
  "bound_stage lo s h \<longleftrightarrow> sg_token s < ld_tokens h \<and>
     (\<forall>v. map_of (ld_verdicts h) (stage_task s) = Some v \<longrightarrow> vd_token v = sg_token s \<longrightarrow>
        vd_context v = sg_context s \<and> vd_delivery v = digest_of (nc_codec (lo_cfg lo)) (sg_env s))"

definition verdicts_ok :: "lead_opts \<Rightarrow> lead_host \<Rightarrow> bool" where
  "verdicts_ok lo h \<longleftrightarrow>
     (\<forall>s \<in> set (ld_staging h). bound_stage lo s h) \<and> (\<forall>c \<in> set (ld_log h). checked_delivery lo c) \<and>
     (\<forall>k v. map_of (ld_verdicts h) k = Some v \<longrightarrow> vd_verdict v = Some True \<longrightarrow>
        (\<exists>c \<in> set (ld_log h). dc_task c = k \<and> dc_context c = vd_context v \<and> digest_of (nc_codec (lo_cfg lo)) (dc_env c) = vd_delivery v))"

definition vframe :: "lead_opts \<Rightarrow> (lead_host \<Rightarrow> bool) \<Rightarrow> lead_host \<Rightarrow> lead_host \<Rightarrow> bool" where
  "vframe lo A h h1 \<longleftrightarrow> (verdicts_ok lo h \<and> A h \<longrightarrow> verdicts_ok lo h1 \<and> A h1 \<and> set (ld_log h) \<subseteq> set (ld_log h1))"

interpretation vfr: host_frame "vframe lo A" for lo A
  by unfold_locales (auto simp: vframe_def)

lemma sheds_bound: "sheds h h1 \<Longrightarrow> bound_stage lo s h \<Longrightarrow> bound_stage lo s h1"
  by (auto simp: sheds_def bound_stage_def)

lemma sheds_ok: "sheds h h1 \<Longrightarrow> verdicts_ok lo h \<Longrightarrow> verdicts_ok lo h1"
  unfolding verdicts_ok_def using sheds_bound [of h h1 lo] by (auto simp: sheds_def)

lemma keeps_mono: "keeps R m \<Longrightarrow> (\<And>h h1. R h h1 \<Longrightarrow> S h h1) \<Longrightarrow> keeps S m"
  by (simp add: keeps_def)

lemma sheds_frame:
  assumes "keeps sheds m"
  shows "keeps (vframe lo (bound_stage lo s)) m" "keeps (vframe lo (\<lambda>_. True)) m"
proof -
  have "vframe lo (bound_stage lo s) h h1 \<and> vframe lo (\<lambda>_. True) h h1" if "sheds h h1" for h h1
    using sheds_ok [OF that, of lo] sheds_bound [OF that, of lo s] that by (simp add: vframe_def sheds_def)
  then show "keeps (vframe lo (bound_stage lo s)) m" "keeps (vframe lo (\<lambda>_. True)) m"
    using keeps_mono [OF assms] by blast+
qed


section \<open>The staging calls\<close>

lemma verdicts_bound: "verdicts_ok lo h \<Longrightarrow> s \<in> set (ld_staging h) \<Longrightarrow> bound_stage lo s h"
  by (simp add: verdicts_ok_def)

lemmas stage_parts = sheds_call [THEN sheds_frame(2)] sheds_parts(1) [THEN sheds_frame(2)] sheds_state [THEN sheds_frame(2)]
  sheds_parts(1) [THEN sheds_frame(1)] sheds_state [THEN sheds_frame(1)]

lemma stage_begin_ok:
  assumes "taskId = the (e_task_id (envelopeOf env))"
  shows "keeps (vframe lo (\<lambda>_. True)) (stage_begin lo env taskId signed t)"
proof (unfold keeps_def, rule allI)
  fix h :: lead_host
  let ?cd = "nc_codec (lo_cfg lo)"
  let ?v = "\<lparr>vd_token = ld_tokens h, vd_context = acceptanceContext ?cd t, vd_delivery = digest_of ?cd env, vd_verdict = None\<rparr>"
  let ?s = "\<lparr>sg_env = env, sg_task = t, sg_signed = signed, sg_context = acceptanceContext ?cd t, sg_token = ld_tokens h, sg_files = None\<rparr>"
  let ?h1 = "h\<lparr>ld_verdicts := AList.update taskId ?v (ld_verdicts h), ld_tokens := ld_tokens h + 1, ld_staging := ld_staging h @ [?s]\<rparr>"
  have "verdicts_ok lo ?h1" if ok: "verdicts_ok lo h"
  proof -
    have "bound_stage lo s ?h1" if "s \<in> set (ld_staging h)" for s
      using verdicts_bound [OF ok that] by (auto simp: bound_stage_def)
    moreover have "bound_stage lo ?s ?h1"
      using assms ok by (simp add: bound_stage_def stage_task_def)
    ultimately show ?thesis using ok by (auto simp: verdicts_ok_def split: if_splits)
  qed
  then have "vframe lo (\<lambda>_. True) h ?h1" by (simp add: vframe_def)
  moreover have "fst (stage_begin lo env taskId signed t h) = h \<or> fst (stage_begin lo env taskId signed t h) = ?h1"
    by (auto simp: stage_begin_def Let_def upd_def)
  ultimately show "vframe lo (\<lambda>_. True) h (fst (stage_begin lo env taskId signed t h))"
    using vfr.frame_refl [of lo "\<lambda>_. True" h] by metis
qed

lemma stageable_task: "stageable lo io env = Some (taskId, signed) \<Longrightarrow> taskId = the (e_task_id (envelopeOf env))"
  by (auto simp: stageable_def Let_def split: if_splits option.splits)

lemma stage_ok: "keeps (vframe lo (\<lambda>_. True)) (ld_stage lo io env)"
  unfolding ld_stage_def quietly_def
  by (intro vfr.keeps_catching vfr.keeps_seq vfr.keeps_basic)
    (auto intro!: vfr.keeps_seq vfr.keeps_on vfr.keeps_basic stage_parts stage_begin_ok stageable_task split: option.splits prod.splits)

lemma unstage_ok: "keeps (vframe lo (bound_stage lo s)) (unstage i)"
proof (unfold keeps_def, rule allI)
  fix h :: lead_host
  let ?l = "take i (ld_staging h) @ drop (i + 1) (ld_staging h)"
  have "set ?l \<subseteq> set (ld_staging h)" using set_take_subset [of i "ld_staging h"] set_drop_subset [of "i + 1" "ld_staging h"] by simp
  then show "vframe lo (bound_stage lo s) h (fst (unstage i h))"
    unfolding vframe_def unstage_def upd_def verdicts_ok_def bound_stage_def by (simp del: set_append) blast
qed

lemma stage_end_ok: "keeps sheds (stage_end s)"
  by (auto simp: keeps_def stage_end_def upd_def sheds_def dest: sheds_delete split: option.splits)

lemma bound_verdict:
  assumes "bound_stage lo s h" "map_of (ld_verdicts h) k = Some v"
  shows "bound_stage lo s (h\<lparr>ld_verdicts := AList.update k (v\<lparr>vd_verdict := b\<rparr>) (ld_verdicts h), ld_log := l\<rparr>)"
  using assms by (cases "stage_task s = k") (simp_all add: bound_stage_def)

lemma stage_verdict_ok:
  assumes "stage_input s files pub = input"
  shows "keeps (vframe lo (bound_stage lo s)) (stage_verdict lo s input current)"
proof (unfold keeps_def, rule allI)
  fix h :: lead_host
  let ?cd = "nc_codec (lo_cfg lo)"
  let ?ok = "verifyArtifactDelivery ?cd (lo_ed lo) input" and ?k = "stage_task s"
  let ?c = "\<lparr>dc_task = ?k, dc_context = sg_context s, dc_env = sg_env s, dc_input = input\<rparr>"
  let ?h1 = "\<lambda>v. h\<lparr>ld_verdicts := AList.update ?k (v\<lparr>vd_verdict := Some ?ok\<rparr>) (ld_verdicts h),
      ld_log := (if ?ok then ld_log h @ [?c] else ld_log h)\<rparr>"
  have new: "vframe lo (bound_stage lo s) h (?h1 v)" if v: "map_of (ld_verdicts h) ?k = Some v" "vd_token v = sg_token s" for v
  proof -
    have "verdicts_ok lo (?h1 v)" if ok: "verdicts_ok lo h" and b: "bound_stage lo s h"
    proof -
      have bs: "bound_stage lo s1 (?h1 v)" if "s1 \<in> set (ld_staging h)" for s1
        using verdicts_bound [OF ok that] v(1) by (rule bound_verdict)
      have "checked_delivery lo ?c" if ?ok
        using that unfolding assms [symmetric] checked_delivery_def by (simp add: stage_input_def Let_def)
      moreover have "vd_context v = sg_context s \<and> vd_delivery v = digest_of ?cd (sg_env s)"
        using b v by (simp add: bound_stage_def)
      ultimately show ?thesis using ok bs unfolding verdicts_ok_def by (auto split: if_splits)
    qed
    moreover have "bound_stage lo s (?h1 v)" if "bound_stage lo s h" using that v(1) by (rule bound_verdict)
    ultimately show ?thesis by (auto simp: vframe_def)
  qed
  have "fst (stage_verdict lo s input current h) = h \<or>
      (\<exists>v. map_of (ld_verdicts h) ?k = Some v \<and> vd_token v = sg_token s \<and> fst (stage_verdict lo s input current h) = ?h1 v)"
    by (cases "map_of (ld_verdicts h) ?k") (simp_all add: stage_verdict_def Let_def upd_def)
  with new vfr.frame_refl [of lo "bound_stage lo s" h]
  show "vframe lo (bound_stage lo s) h (fst (stage_verdict lo s input current h))" by metis
qed

lemma staged_ok: 
  assumes "keeps (vframe lo (bound_stage lo s)) m" "the_stage i h = Some s"
  shows "vframe lo (\<lambda>_. True) h (fst (m h))"
proof -
  have "s \<in> set (ld_staging h)" using assms(2) by (auto simp: the_stage_def split: if_splits)
  with assms(1) verdicts_bound show ?thesis by (simp add: keeps_def vframe_def)
qed

lemma resolved_ok: "keeps (vframe lo (\<lambda>_. True)) (ld_resolved lo io i answer)"
proof (unfold keeps_def, rule allI)
  fix h :: lead_host
  show "vframe lo (\<lambda>_. True) h (fst (ld_resolved lo io i answer h))"
  proof (cases "the_stage i h")
    case None
    then show ?thesis by (simp add: ld_resolved_def seq_def ask_def ret_def vfr.frame_refl)
  next
    case (Some s)
    show ?thesis
    proof (cases "sg_files s")
      case None
      with Some show ?thesis by (simp add: ld_resolved_def seq_def ask_def ret_def vfr.frame_refl)
    next
      case (Some files)
      let ?m = "seq (unstage i) (\<lambda>_. seq (quietly (case answer of None \<Rightarrow> ret () | Some pub \<Rightarrow>
          seq (ld_state lo io (leadStateKey (stage_task s))) (\<lambda>row. seq (ld_decode row) (\<lambda>current. stage_verdict lo s (stage_input s files pub) current))))
          (\<lambda>_. stage_end s))"
      have "keeps (vframe lo (bound_stage lo s)) ?m"
        unfolding quietly_def
        by (intro vfr.keeps_seq vfr.keeps_catching vfr.keeps_basic unstage_ok stage_end_ok [THEN sheds_frame(1)])
          (auto intro!: vfr.keeps_seq vfr.keeps_basic stage_parts stage_verdict_ok split: option.splits)
      from staged_ok [OF this \<open>the_stage i h = Some s\<close>] Some \<open>the_stage i h = Some s\<close>
      show ?thesis by (simp add: ld_resolved_def seq_def ask_def)
    qed
  qed
qed

lemma collected_ok: "keeps (vframe lo (\<lambda>_. True)) (ld_collected i answer)"
proof (unfold keeps_def, rule allI)
  fix h :: lead_host
  show "vframe lo (\<lambda>_. True) h (fst (ld_collected i answer h))"
  proof (cases "the_stage i h")
    case None
    then show ?thesis by (simp add: ld_collected_def seq_def ask_def ret_def vfr.frame_refl)
  next
    case (Some s)
    have end_ok: "vframe lo (\<lambda>_. True) h (fst (seq (unstage i) (\<lambda>_. stage_end s) h))"
      by (rule staged_ok [OF vfr.keeps_seq [OF unstage_ok stage_end_ok [THEN sheds_frame(1)]] Some])
    have "vframe lo (\<lambda>_. True) h (h\<lparr>ld_staging := (ld_staging h)[i := s\<lparr>sg_files := Some files\<rparr>]\<rparr>)" for files
    proof -
      have s: "s \<in> set (ld_staging h)" using Some by (auto simp: the_stage_def split: if_splits)
      have same: "bound_stage lo s1 (h\<lparr>ld_staging := l\<rparr>) = bound_stage lo s1 h" for s1 l by (simp add: bound_stage_def)
      have "bound_stage lo (s\<lparr>sg_files := Some files\<rparr>) h = bound_stage lo s h" by (simp add: bound_stage_def stage_task_def)
      with s have "\<forall>s1 \<in> set ((ld_staging h)[i := s\<lparr>sg_files := Some files\<rparr>]). bound_stage lo s1 h" if "verdicts_ok lo h"
        using verdicts_bound [OF that] set_update_subset_insert [of "ld_staging h" i] by fastforce
      with same show ?thesis by (auto simp: vframe_def verdicts_ok_def)
    qed
    with end_ok Some show ?thesis
      by (simp add: ld_collected_def seq_def [of "ask (the_stage i)"] ask_def ret_def upd_def vfr.frame_refl split: option.splits)
  qed
qed

lemmas event_parts = sheds_commands [THEN sheds_frame(2)] sheds_consume [THEN sheds_frame(2)] sheds_call [THEN sheds_frame(2)]

text \<open>Every event keeps the invariant, and no check is forgotten.\<close>

lemma verdicts_step: "vframe lo (\<lambda>_. True) h (lead_ev_step lo io ev h)"
proof -
  have crash: "vframe lo (\<lambda>_. True) h (fresh_lead st c (ld_tokens h) (ld_log h))" for st c
    by (auto simp: vframe_def verdicts_ok_def fresh_lead_def)
  show ?thesis
  proof (cases ev)
    case (Le_stage env)
    with stage_ok show ?thesis by (simp add: keeps_def silent_def)
  next
    case (Le_collected i a)
    with collected_ok show ?thesis by (simp add: keeps_def silent_def)
  next
    case (Le_resolved i a)
    with resolved_ok show ?thesis by (simp add: keeps_def silent_def)
  qed (simp_all add: silent_def crash event_parts [unfolded keeps_def, rule_format])
qed

end
