(* ===== verification/Lead_Guarantees.thy ===== *)
theory Lead_Guarantees
  imports Lead_Verdicts Lead_Recovery
begin

text \<open>
  What holds over every history of the durable lead: the stored row of a task stays, and properties of the readable task
  that survive the events of the machine and a takeover survive everything.
\<close>

section \<open>Histories\<close>

fun lead_history :: "lead_opts \<Rightarrow> (lead_io \<times> lead_ev) list \<Rightarrow> lead_host \<Rightarrow> lead_host" where
  "lead_history lo [] h = h"
| "lead_history lo ((io, ev) # hs) h = lead_history lo hs (lead_ev_step lo io ev h)"

definition good_event :: "lead_ev \<Rightarrow> bool" where
  "good_event ev \<longleftrightarrow> (\<forall>op. ev = Le_foreign op \<longrightarrow> lead_foreign op)"

text \<open>What every abstract change keeps, every history keeps.\<close>

lemma lead_eff_wf: "lead_eff lo P db db1 \<Longrightarrow> wf_map (nd_state db) \<Longrightarrow> wf_map (nd_state db1)"
  by (erule lead_eff.cases) (auto simp: lead_commit_def lead_put_def)

lemma lead_effs_inv:
  assumes "lead_effs lo P db db1" "G db" "\<And>a b. lead_eff lo P a b \<Longrightarrow> G a \<Longrightarrow> G b"
  shows "G db1"
  using assms(1,2) by (induction rule: rtranclp_induct) (auto intro: assms(3))

lemma lead_step_inv:
  assumes "wf_map (nd_state (lead_db h))" "good_event ev" "G (lead_db h)"
    and "\<And>a b. lead_eff lo (permitted io ev) a b \<Longrightarrow> G a \<Longrightarrow> G b"
  shows "wf_map (nd_state (lead_db (lead_ev_step lo io ev h))) \<and> G (lead_db (lead_ev_step lo io ev h))"
proof -
  have e: "lead_effs lo (permitted io ev) (lead_db h) (lead_db (lead_ev_step lo io ev h))"
    using assms(1,2) by (intro lead_refines) (simp_all add: good_event_def)
  have "wf_map (nd_state (lead_db (lead_ev_step lo io ev h)))"
    using lead_effs_inv [where G = "\<lambda>db. wf_map (nd_state db)", OF e assms(1)] lead_eff_wf by simp
  moreover have "G (lead_db (lead_ev_step lo io ev h))" using e assms(3,4) by (rule lead_effs_inv)
  ultimately show ?thesis by blast
qed

text \<open>The row of a task, once there, stays, and is that of a readable task with \<open>R\<close> or cannot be read.\<close>

definition row_holds :: "lead_opts \<Rightarrow> string \<Rightarrow> (lead_task \<Rightarrow> bool) \<Rightarrow> node_db \<Rightarrow> bool" where
  "row_holds lo taskId R db \<longleftrightarrow>
     (\<exists>row. row_at lo db (leadStateKey taskId) = Some row \<and> (\<forall>t. read_task (rs_value row) = Some t \<longrightarrow> R t))"

lemma lead_key: "take 8 (leadStateKey taskId) = LEAD_STATE_PREFIX"
  by (simp add: leadStateKey_def LEAD_STATE_PREFIX_def)

lemma stored_task_sel [simp]:
  "lr_attempt (lt_rec (stored_task cd t)) = lr_attempt (lt_rec t)" "lr_state (lt_rec (stored_task cd t)) = lr_state (lt_rec t)"
  "lr_kind (lt_rec (stored_task cd t)) = lr_kind (lt_rec t)" "lr_task_id (lt_rec (stored_task cd t)) = lr_task_id (lt_rec t)"
  by (simp_all add: stored_task_def Let_def)

lemma row_holdsI: "task_at lo db taskId = Some t \<Longrightarrow> R t \<Longrightarrow> row_holds lo taskId R db"
  by (auto simp: row_holds_def row_task_at)

lemma row_holdsD: "row_holds lo taskId R db \<Longrightarrow> task_at lo db taskId = Some t \<Longrightarrow> R t"
  by (auto simp: row_holds_def row_task_at)

text \<open>\<open>R\<close> must not depend on what the store's codec changes: \<open>R_stored\<close>.\<close>

lemma row_holds_put:
  assumes "lead_put lo k db result db1" "obj_get result ''state'' = Some (task_json t)" "isPlainObject result" "good_lead lo"
    and "row_holds lo taskId R db" "\<And>t. R (stored_task (nc_codec (lo_cfg lo)) t) = R t" "k = leadStateKey taskId \<Longrightarrow> R t"
  shows "row_holds lo taskId R db1"
proof (cases "k = leadStateKey taskId")
  case True
  obtain row1 where "row_at lo db1 k = Some row1"
    "read_task (rs_value row1) = (if valid_lead_task t then Some (stored_task (nc_codec (lo_cfg lo)) t) else None)"
    by (rule lead_put_row [OF assms(4,1,2,3)])
  with True assms(6,7) show ?thesis by (simp add: row_holds_def)
next
  case False
  with lead_put_other [OF assms(1)] assms(5) show ?thesis by (simp add: row_holds_def)
qed

text \<open>Then it is enough that \<open>R\<close> holds again after the events on a task with it and after a takeover.\<close>

lemma row_holds_eff:
  assumes "lead_eff lo P db db1" "good_lead lo" "row_holds lo taskId R db"
    and R_stored: "\<And>t. R (stored_task (nc_codec (lo_cfg lo)) t) = R t"
    and R_event: "\<And>evs io newId verdicts t env e. \<forall>x \<in> set evs. P (By_machine x) \<Longrightarrow> R t \<Longrightarrow>
      commits lo io newId (task_machine lo verdicts t env) t evs e \<Longrightarrow> R (ev_value e)"
    and R_taken: "\<And>t l. P (By_takeover (lr_task_id (lt_rec t))) \<Longrightarrow> R l \<Longrightarrow> lr_attempt (lt_rec l) < lr_attempt (lt_rec t) \<Longrightarrow>
      R (if lr_state (lt_rec t) \<in> set TERMINAL_STATES then t else fenced_task t)"
  shows "row_holds lo taskId R db1"
  using assms(1)
proof cases
  case (event k row t evs io newId verdicts env e)
  from event(5) show ?thesis unfolding lead_commit_def
  proof (rule row_holds_put [where t = "ev_value e"])
    assume "k = leadStateKey taskId"
    with assms(3) event(1,2) have "R t" by (auto simp: row_holds_def)
    from R_event [OF event(3) this event(4)] show "R (ev_value e)" .
  qed (use assms in \<open>simp_all add: event_json_def\<close>)
next
  case (originated id kind)
  have "leadStateKey id \<noteq> leadStateKey taskId" using originated(3) assms(3) by (auto simp: row_holds_def)
  with assms show ?thesis by (intro row_holds_put [OF originated(4), where t = "new_task lo id kind"]) simp_all
next
  case (taken_over t v id t1)
  from taken_over(6) show ?thesis
  proof (rule row_holds_put [where t = t1])
    assume "leadStateKey id = leadStateKey taskId"
    with taken_over(4) assms(3) obtain l where "R l" "lr_attempt (lt_rec l) < lr_attempt (lt_rec t)"
      by (auto simp: row_holds_def row_task_at)
    from R_taken [OF taken_over(1) this] taken_over(5) show "R t1" by simp
  qed (use assms in simp_all)
next
  case unrelated
  with lead_key assms(3) show ?thesis by (simp add: row_holds_def)
qed

section \<open>Runs of the machine\<close>

lemma run_frame:
  assumes "\<And>m e. f (fst (lead_step m e)) = f m"
  shows "f (fst (run lead_step m es)) = f m"
  using assms by (induction es arbitrary: m) (simp_all del: run.simps(2))

lemmas run_identity [simp] =
  run_frame [of "\<lambda>m. lr_kind (lm_rec m)", OF lead_step_identity(2)] run_frame [of "\<lambda>m. lr_task_id (lm_rec m)", OF lead_step_identity(3)]

definition is_dispatch :: "lead_event \<Rightarrow> bool" where
  "is_dispatch e = (case e of Ev_dispatch _ _ _ \<Rightarrow> True | _ \<Rightarrow> False)"

definition is_message :: "lead_event \<Rightarrow> bool" where
  "is_message e = (case e of Ev_message _ _ _ _ _ _ \<Rightarrow> True | _ \<Rightarrow> False)"

lemma run_attempt:
  "\<forall>e \<in> set es. \<not> is_dispatch e \<Longrightarrow> lr_attempt (lm_rec m) \<le> lr_attempt (lm_rec (fst (run lead_step m es)))"
proof (induction es arbitrary: m)
  case (Cons e es)
  have "lr_attempt (lm_rec m) \<le> lr_attempt (lm_rec (fst (lead_step m e)))"
    using Cons.prems by (intro attempt_up) (simp add: is_dispatch_def)
  with Cons.IH [of "fst (lead_step m e)"] Cons.prems show ?case by (simp del: run.simps(2))
qed simp

lemma run_not_done:
  "\<forall>e \<in> set es. \<not> is_message e \<Longrightarrow> lr_state (lm_rec m) \<noteq> Done \<Longrightarrow> lr_state (lm_rec (fst (run lead_step m es))) \<noteq> Done"
proof (induction es arbitrary: m)
  case (Cons e es)
  have "lr_state (lm_rec (fst (lead_step m e))) \<noteq> Done"
    using done_by_result [OF Cons.prems(2), of e] Cons.prems(1) by (auto simp: is_message_def)
  with Cons.IH Cons.prems(1) show ?case by (simp del: run.simps(2))
qed simp

lemma commits_sel:
  assumes "commits lo io newId (task_machine lo verdicts t env) t evs e"
  shows "lt_rec (ev_value e) = lm_rec (fst (run lead_step (task_machine lo verdicts t env) evs))"
  using assms by (simp add: commits_def Let_def)

lemma task_machine_sel [simp]:
  "lm_rec (task_machine lo verdicts t env) = lt_rec t" "lm_task_id (task_machine lo verdicts t env) = lr_task_id (lt_rec t)"
  "lm_params (task_machine lo verdicts t env) = lo_params lo"
  "lm_terminal (task_machine lo verdicts t env) = (lr_state (lt_rec t) \<in> set TERMINAL_STATES)"
  "lm_validateAcceptance (task_machine lo verdicts t env) =
    (case lo_validate lo of Some v \<Rightarrow> v | None \<Rightarrow> projectValidator (nc_codec (lo_cfg lo)) verdicts t env)"
  by (simp_all add: task_machine_def newLeadTaskMachine_def Let_def)

section \<open>Attempts\<close>

definition no_dispatch :: "lead_ev \<Rightarrow> bool" where
  "no_dispatch ev = (case ev of Le_dispatch _ _ _ \<Rightarrow> False | _ \<Rightarrow> True)"

lemma permitted_no_dispatch: "no_dispatch ev \<Longrightarrow> permitted io ev (By_machine e) \<Longrightarrow> \<not> is_dispatch e"
  by (cases ev) (auto simp: no_dispatch_def is_dispatch_def redispatch_cause_def tick_cause_def message_of_def Let_def)

lemma attempt_eff:
  assumes "lead_eff lo (permitted io ev) a b" "good_lead lo" "no_dispatch ev" "row_holds lo taskId (\<lambda>x. n \<le> lr_attempt (lt_rec x)) a"
  shows "row_holds lo taskId (\<lambda>x. n \<le> lr_attempt (lt_rec x)) b"
  using assms(1,2,4)
proof (rule row_holds_eff)
  fix evs io1 newId verdicts t env e
  assume "\<forall>x \<in> set evs. permitted io ev (By_machine x)" "n \<le> lr_attempt (lt_rec t)"
    and c: "commits lo io1 newId (task_machine lo verdicts t env) t evs e"
  then have "\<forall>x \<in> set evs. \<not> is_dispatch x" using permitted_no_dispatch [OF assms(3)] by blast
  with run_attempt [of evs "task_machine lo verdicts t env"] have "lr_attempt (lt_rec t) \<le> lr_attempt (lt_rec (ev_value e))"
    unfolding commits_sel [OF c] by simp
  with \<open>n \<le> lr_attempt (lt_rec t)\<close> show "n \<le> lr_attempt (lt_rec (ev_value e))" by simp
qed (auto simp: fenced_task_def)

lemma attempt_history:
  assumes "good_lead lo"
  shows "wf_map (nd_state (lead_db h)) \<Longrightarrow> \<forall>(io, ev) \<in> set hs. good_event ev \<and> no_dispatch ev \<Longrightarrow>
    row_holds lo taskId (\<lambda>x. n \<le> lr_attempt (lt_rec x)) (lead_db h) \<Longrightarrow>
    row_holds lo taskId (\<lambda>x. n \<le> lr_attempt (lt_rec x)) (lead_db (lead_history lo hs h))"
proof (induction hs arbitrary: h)
  case (Cons x hs)
  obtain io ev where x: "x = (io, ev)" by fastforce
  have "wf_map (nd_state (lead_db (lead_ev_step lo io ev h))) \<and>
      row_holds lo taskId (\<lambda>x. n \<le> lr_attempt (lt_rec x)) (lead_db (lead_ev_step lo io ev h))"
    using Cons.prems x
    by (intro lead_step_inv [where G = "row_holds lo taskId (\<lambda>x. n \<le> lr_attempt (lt_rec x))"]) (auto intro: attempt_eff [OF _ assms])
  with Cons x show ?case by simp
qed simp

section \<open>Projects\<close>

text \<open>A stored task \<open>T\<close> that is a project, and done only when one of its checked deliveries is in \<open>L\<close>.\<close>

definition proven :: "lead_opts \<Rightarrow> delivery_check set \<Rightarrow> string \<Rightarrow> lead_task \<Rightarrow> bool" where
  "proven lo L T t \<longleftrightarrow> lr_kind (lt_rec t) = Project \<and> lr_task_id (lt_rec t) = T \<and>
     (lr_state (lt_rec t) = Done \<longrightarrow> (\<exists>c \<in> L. dc_task c = T \<and> checked_delivery lo c))"

lemma proven_stored [simp]: "proven lo L T (stored_task cd t) = proven lo L T t"
  by (simp add: proven_def)

lemma row_holds_mono: "row_holds lo taskId R db \<Longrightarrow> (\<And>t. R t \<Longrightarrow> S t) \<Longrightarrow> row_holds lo taskId S db"
  by (auto simp: row_holds_def)

lemma project_eff:
  assumes "lead_eff lo P a b" "good_lead lo" "\<And>e. P (By_machine e) \<Longrightarrow> \<not> is_message e" "\<And>id. \<not> P (By_takeover id)"
    "row_holds lo taskId (proven lo L T) a"
  shows "row_holds lo taskId (proven lo L T) b"
  using assms(1,2,5)
proof (rule row_holds_eff)
  fix evs io newId verdicts t env e
  assume P: "\<forall>x \<in> set evs. P (By_machine x)" and t: "proven lo L T t"
    and c: "commits lo io newId (task_machine lo verdicts t env) t evs e"
  have "lr_state (lt_rec t) \<noteq> Done \<Longrightarrow> lr_state (lt_rec (ev_value e)) \<noteq> Done"
    unfolding commits_sel [OF c] using P assms(3) by (intro run_not_done) auto
  with t show "proven lo L T (ev_value e)" by (auto simp: proven_def commits_sel [OF c])
qed (use assms(4) in auto)

lemma done_by_message:
  assumes "lr_state (lm_rec m) \<noteq> Done" "lr_state (lm_rec (fst (run lead_step m (message_of env now # rest)))) = Done" "redispatches now rest"
  shows "lm_validateAcceptance m (e_body (envelopeOf env))"
proof -
  have "\<forall>e \<in> set rest. \<not> is_message e" using assms(3) by (auto simp: redispatches_def is_message_def)
  with assms(2) have "lr_state (lm_rec (fst (lead_step m (message_of env now)))) = Done"
    using run_not_done [of rest "fst (lead_step m (message_of env now))"] by (auto simp del: run.simps(2))
  from done_by_result [OF assms(1) this] show ?thesis by (auto simp: message_of_def Let_def)
qed

lemma leadStateKey_inj [simp]: "leadStateKey a = leadStateKey b \<longleftrightarrow> a = b"
  by (simp add: leadStateKey_def)

lemma project_consume:
  assumes "good_lead lo" "lo_validate lo = None" "verdicts_ok lo h" "row_holds lo taskId (proven lo (set (ld_log h)) T) (lead_db h)"
    and "ld_consume lo io env auth h = (h1, r)"
  shows "row_holds lo taskId (proven lo (set (ld_log h)) T) (lead_db h1)"
  using assms(5)
proof (cases rule: ld_consume_cases)
  case kept
  with assms(4) show ?thesis by (simp add: row_holds_def row_at_def)
next
  case (written t e evs newId)
  let ?m = "task_machine lo (ld_verdicts h) t (Some env)"
  from written(4) show ?thesis unfolding lead_commit_def
  proof (rule row_holds_put [where t = "ev_value e"])
    assume "leadStateKey (case e_task_id (envelopeOf env) of Some t \<Rightarrow> t | None \<Rightarrow> []) = leadStateKey taskId"
    with written(1) assms(4) have t: "proven lo (set (ld_log h)) T t" by (auto simp: row_holds_def row_task_at)
    have "\<exists>c \<in> set (ld_log h). dc_task c = T \<and> checked_delivery lo c"
      if d: "lr_state (lt_rec t) \<noteq> Done" "lr_state (lm_rec (fst (run lead_step ?m evs))) = Done"
    proof -
      from written(2) d obtain rest where "evs = message_of env (li_now io) # rest" "redispatches (li_now io) rest" by auto
      with d done_by_message [of ?m env "li_now io" rest] have "lm_validateAcceptance ?m (e_body (envelopeOf env))" by simp
      with assms(2) t obtain v where "map_of (ld_verdicts h) T = Some v" "vd_verdict v = Some True"
        by (auto simp: projectValidator_def proven_def split: option.splits)
      with assms(3) show ?thesis unfolding verdicts_ok_def by blast
    qed
    with t show "proven lo (set (ld_log h)) T (ev_value e)"
      by (auto simp: proven_def commits_sel [OF written(3)])
  qed (use assms(1,4) in \<open>simp_all add: event_json_def\<close>)
qed

definition no_import :: "lead_ev \<Rightarrow> bool" where
  "no_import ev = (case ev of Le_import _ \<Rightarrow> False | _ \<Rightarrow> True)"

lemma project_step:
  assumes "good_lead lo" "lo_validate lo = None" "wf_map (nd_state (lead_db h))" "good_event ev" "no_import ev" "verdicts_ok lo h"
    and "row_holds lo taskId (proven lo (set (ld_log h)) T) (lead_db h)"
    and h1: "h1 = lead_ev_step lo io ev h"
  shows "wf_map (nd_state (lead_db h1)) \<and> verdicts_ok lo h1 \<and> row_holds lo taskId (proven lo (set (ld_log h1)) T) (lead_db h1)"
proof -
  have wf: "wf_map (nd_state (lead_db h1))"
    using lead_step_inv [OF assms(3,4), of "\<lambda>_. True" lo io] by (simp add: h1)
  from verdicts_step [of lo h io ev] assms(6) have ok: "verdicts_ok lo h1" "set (ld_log h) \<subseteq> set (ld_log h1)"
    by (simp_all add: vframe_def h1)
  have "row_holds lo taskId (proven lo (set (ld_log h)) T) (lead_db h1)"
  proof (cases "\<exists>env auth. ev = Le_consume env auth")
    case True
    then obtain env auth where ev: "ev = Le_consume env auth" by blast
    with project_consume [OF assms(1,2,6,7)] show ?thesis
      by (cases "ld_consume lo io env auth h") (simp add: h1 silent_def)
  next
    case False
    have "row_holds lo taskId (proven lo (set (ld_log h)) T) b"
      if "lead_eff lo (permitted io ev) a b" "row_holds lo taskId (proven lo (set (ld_log h)) T) a" for a b
    proof (rule project_eff [OF that(1) assms(1) _ _ that(2)])
      show "permitted io ev (By_machine e) \<Longrightarrow> \<not> is_message e" for e
        using False by (cases ev) (auto simp: is_message_def redispatch_cause_def tick_cause_def)
      show "\<not> permitted io ev (By_takeover id)" for id
        using assms(5) False by (cases ev) (auto simp: no_import_def redispatch_cause_def tick_cause_def)
    qed
    with lead_step_inv [where G = "row_holds lo taskId (proven lo (set (ld_log h)) T)", OF assms(3,4,7), of lo io] show ?thesis by (simp add: h1)
  qed
  then have "row_holds lo taskId (proven lo (set (ld_log h1)) T) (lead_db h1)"
    by (rule row_holds_mono) (use ok(2) in \<open>auto simp: proven_def\<close>)
  with wf ok show ?thesis by blast
qed

lemma project_history:
  assumes "good_lead lo" "lo_validate lo = None"
  shows "wf_map (nd_state (lead_db h)) \<Longrightarrow> \<forall>(io, ev) \<in> set hs. good_event ev \<and> no_import ev \<Longrightarrow> verdicts_ok lo h \<Longrightarrow>
    row_holds lo taskId (proven lo (set (ld_log h)) T) (lead_db h) \<Longrightarrow>
    row_holds lo taskId (proven lo (set (ld_log (lead_history lo hs h))) T) (lead_db (lead_history lo hs h))"
proof (induction hs arbitrary: h)
  case (Cons x hs)
  obtain io ev where x: "x = (io, ev)" by fastforce
  with project_step [OF assms, of h ev taskId T _ io] Cons show ?case by simp
qed simp

end
