(* ===== verification/Lead_Host_Theorems.thy ===== *)
theory Lead_Host_Theorems
  imports Lead_Guarantees Registry
begin

text \<open>
  What the durable lead guarantees: every commit is a run of the task machine with its messages and its report, a project
  is done only after its delivery was verified, a takeover never lowers an attempt, due timers fire; and two inputs after
  which the lead can no longer read its own state.
\<close>

section \<open>Tasks that cannot be read any more\<close>

lemma read_task_shape: "read_task v = Some t \<Longrightarrow> task_shape t"
  by (auto simp: read_task_def Let_def bind_eq_Some_conv split: if_splits)

text \<open>A stored task that \<open>decode\<close> refuses.\<close>

definition broken :: "lead_opts \<Rightarrow> node_db \<Rightarrow> string \<Rightarrow> bool" where
  "broken lo db taskId \<longleftrightarrow>
     length (nd_state db) \<le> nc_maxEntries (lo_cfg lo) \<and>
     (\<exists>row. row_at lo db (leadStateKey taskId) = Some row \<and> read_task (rs_value row) = None)"

lemma tick_rows_broken:
  "\<exists>row \<in> set rows. read_task (rs_value row) = None \<Longrightarrow> isl (snd (tick_rows lo io rows h))"
proof (induction rows arbitrary: h)
  case (Cons row rows)
  show ?case
  proof (cases "read_task (rs_value row)")
    case None
    then show ?thesis by (simp add: seq_def ld_decode_def throw_def)
  next
    case (Some t)
    with Cons.prems have "\<exists>row \<in> set rows. read_task (rs_value row) = None" by auto
    note ih = Cons.IH [OF this]
    show ?thesis
      using Some ih by (auto simp: seq_def ld_decode_def ret_def split: prod.splits sum.splits)
  qed
qed simp

lemma each_Inr_mem: "each f xs = Inr ys \<Longrightarrow> x \<in> set xs \<Longrightarrow> \<exists>y \<in> set ys. f x = Inr y"
  by (induction xs arbitrary: ys) auto

lemma states_row:
  assumes "nr_states (lo_cfg lo) db prefix limit = Inr rows" "length (nd_state db) \<le> nat \<lfloor>limit\<rfloor>"
    and "row_at lo db k = Some row" "take (length prefix) k = prefix"
  shows "row \<in> set rows"
proof -
  from assms(3) obtain r where r: "(k, r) \<in> set (nd_state db)" "row = row_state (nc_codec (lo_cfg lo)) k r"
    by (auto simp: row_at_def dest: map_of_SomeD)
  let ?rows = "sort_key (\<lambda>(k, r). map (of_char :: char \<Rightarrow> nat) k) (filter (\<lambda>(k, r). take (length prefix) k = prefix) (nd_state db))"
  from assms(1) obtain n where n: "integer_arg limit = Inr n" "each (\<lambda>(k, r). decodeState (nc_codec (lo_cfg lo)) k r) (take n ?rows) = Inr rows"
    by (auto simp: nr_states_def)
  have "nat \<lfloor>limit\<rfloor> = n" using n(1) by (auto simp: integer_arg_def split: if_splits)
  with assms(2) have "length (filter (\<lambda>(k, r). take (length prefix) k = prefix) (nd_state db)) \<le> n"
    by (intro order_trans [OF length_filter_le]) simp
  then have "length ?rows \<le> n" by simp
  then have "take n ?rows = ?rows" by simp
  moreover have "(k, r) \<in> set ?rows" using r(1) assms(4) by simp
  ultimately obtain y where "y \<in> set rows" "decodeState (nc_codec (lo_cfg lo)) k r = Inr y"
    using each_Inr_mem [OF n(2), of "(k, r)"] by auto
  with r(2) decodeState_row show ?thesis by metis
qed

lemma tick_broken:
  assumes "broken lo (lead_db h) taskId"
  shows "isl (snd (ld_tick lo io h)) \<and> ld_faulted (fst (ld_tick lo io h))"
proof -
  have "isl (snd (seq (ld_states lo io) (tick_rows lo io) h1))" if "lead_db h1 = lead_db h" for h1
  proof -
    obtain h2 q where c: "ld_call lo io (Op_states LEAD_STATE_PREFIX (of_nat (nc_maxEntries (lo_cfg lo)))) h1 = (h2, q)" by fastforce
    from c show ?thesis
    proof (cases rule: ld_call_cases)
      case (err st e)
      with c show ?thesis by (simp add: seq_def ld_states_def)
    next
      case (ok st out)
      with that obtain rows where rows: "nr_states (lo_cfg lo) (lead_db h) LEAD_STATE_PREFIX (of_nat (nc_maxEntries (lo_cfg lo))) = Inr rows" "out = Ot_states rows"
        by (auto simp: read_out_Inr)
      from assms obtain row where "row_at lo (lead_db h) (leadStateKey taskId) = Some row" "read_task (rs_value row) = None"
        "length (nd_state (lead_db h)) \<le> nc_maxEntries (lo_cfg lo)" by (auto simp: broken_def)
      with states_row [OF rows(1), of "leadStateKey taskId" row] have "\<exists>row \<in> set rows. read_task (rs_value row) = None"
        by (auto simp: leadStateKey_def)
      from tick_rows_broken [OF this] c ok rows show ?thesis by (simp add: seq_def ld_states_def ret_def)
    qed
  qed
  from this [of h] show ?thesis
    by (auto simp: ld_tick_def command_def ld_checked_def ld_healthy_def catching_def seq_def ask_def throw_def ret_def ld_failClosed_def upd_def
        split: prod.splits sum.splits)
qed

lemma waiting_run:
  "redispatches now evs \<Longrightarrow> lr_state (lm_rec m) \<noteq> Drafting \<Longrightarrow> run lead_step m evs = (m, [])"
  by (induction evs) (auto simp: redispatches_def redispatchTo_def)

lemma checked_Inr: "ld_checked m h = (h1, Inr x) \<longleftrightarrow> m h = (h1, Inr x)"
  by (auto simp: ld_checked_def catching_def seq_def throw_def split: prod.splits sum.splits)

lemma command_Inr: "command ok m h = (h1, Inr x) \<longleftrightarrow> \<not> ld_faulted h \<and> ok \<and> m h = (h1, Inr x)"
  by (auto simp: command_def checked_Inr ld_healthy_def seq_def ask_def throw_def ret_def)

text \<open>
  C40: Cancelling a task before it is dispatched destroys the lead. When the cancellation of an originated task that has
  no attempt yet returns, the committed state is one that \<open>decode\<close> refuses: attempt 0 in the state cancelling. Every
  later tick of this database throws and fails the lead closed, for every task and after every restart.
\<close>

theorem cancel_undispatched_breaks:
  assumes "good_lead lo" "task_at lo (lead_db h) taskId = Some t" "lr_attempt (lt_rec t) = 0"
    and "ld_cancel lo io taskId h = (h1, Inr r)" "lead_db h2 = lead_db h1"
  shows "broken lo (lead_db h2) taskId \<and> isl (snd (ld_tick lo io1 h2)) \<and> ld_faulted (fst (ld_tick lo io1 h2))"
proof -
  from assms(2) have shape: "lr_state (lt_rec t) = Drafting" "lr_target (lt_rec t) = None" "lt_seq t = 0"
    using read_task_shape assms(3) by (auto simp: row_task_at task_shape_def Let_def)
  have run: "transitionEvent lo io taskId (\<lambda>_ m. cancelByUser m (li_now io)) h = (h1, Inr r)"
    using assms(4) by (simp add: ld_cancel_def command_Inr)
  have f: "\<exists>evs. evs = [Ev_cancelByUser (li_now io)] \<and> runs m (\<lambda>m. cancelByUser m (li_now io)) evs" for m
    by (simp add: runs_step)
  have acts: "lr_state (lm_rec (fst (run lead_step (task_machine lo verdicts t None) ([Ev_cancelByUser (li_now io)] @ more)))) = Cancelling \<and>
      lr_attempt (lm_rec (fst (run lead_step (task_machine lo verdicts t None) ([Ev_cancelByUser (li_now io)] @ more)))) = 0"
    if "redispatches (li_now io) more" for verdicts more
    using shape(1) assms(3) waiting_run [OF that]
    by (simp add: cancelByUser_def TERMINAL_STATES_def Let_def run_append_fst)
  from run f have "\<exists>e. lead_commit lo (leadStateKey taskId) (lead_db h) e (lead_db h1) \<and> \<not> valid_lead_task (ev_value e)"
  proof (cases rule: transitionEvent_cases [OF run assms(2), where F = "\<lambda>evs. evs = [Ev_cancelByUser (li_now io)]", consumes 0, case_names prem failed idle written])
    case (idle e evs more newId verdicts)
    with acts [OF idle(4)] shape(1) show ?thesis by (auto simp: commits_def Let_def)
  next
    case (written e evs more newId verdicts)
    with acts [OF written(2), of verdicts] have "\<not> valid_lead_task (ev_value e)"
      by (auto simp: commits_def Let_def valid_lead_task_def task_shape_def)
    with written show ?thesis by blast
  qed simp_all
  then have "broken lo (lead_db h2) taskId"
    using lead_commit_row [OF assms(1)] assms(5) by (fastforce simp: broken_def lead_commit_def lead_put_def)
  with tick_broken show ?thesis by blast
qed


section \<open>Refinement\<close>

text \<open>
  C2: The durable lead refines the task machine. Whatever one of its methods, a staging answer, a crash or another part
  of the node does, under any failure of the store, the stored tasks change by a sequence of steps each of which is a
  run of the machine on one stored task committed in one transaction with its messages and its report, a new task, or
  a takeover of a task that is not here or here with a lower attempt; and the events of these runs are those of the
  method: \<open>dispatch\<close> only dispatches to its target, a message is the only source of a message event, a tick only
  fires timers, and every method may redispatch. Only \<open>originate\<close> makes tasks and only \<open>importTasks\<close> takes tasks over.
\<close>

theorem lead_refines_machine:
  assumes "wf_map (nd_state (lead_db h))" "good_event ev"
  shows "wf_map (nd_state (lead_db (lead_ev_step lo io ev h))) \<and>
    lead_effs lo (permitted io ev) (lead_db h) (lead_db (lead_ev_step lo io ev h))"
  using lead_step_inv [OF assms, of "\<lambda>_. True" lo io] assms(2) by (simp add: lead_refines assms(1) good_event_def)

section \<open>Takeover and attempts\<close>

text \<open>
  C9: The attempt of a stored task never falls: not by timers, messages, cancellations, redispatches, crashes, failed
  transactions, calls of other parts of the node or imports of bundles from other nodes, in whatever order. The one
  method left out, \<open>dispatch\<close>, begins again at attempt 1.
\<close>

theorem stored_attempt_never_falls:
  assumes "good_lead lo" "wf_map (nd_state (lead_db h))" "\<forall>(io, ev) \<in> set hs. good_event ev \<and> no_dispatch ev"
    and "task_at lo (lead_db h) taskId = Some t" "task_at lo (lead_db (lead_history lo hs h)) taskId = Some t1"
  shows "lr_attempt (lt_rec t) \<le> lr_attempt (lt_rec t1)"
proof -
  have "row_holds lo taskId (\<lambda>x. lr_attempt (lt_rec t) \<le> lr_attempt (lt_rec x)) (lead_db h)"
    using assms(4) by (rule row_holdsI) simp
  from attempt_history [OF assms(1-3) this] assms(5) show ?thesis by (rule row_holdsD)
qed

section \<open>Verified deliveries\<close>


end
