(* ===== verification/Delivery_Theorems.thy ===== *)
theory Delivery_Theorems
  imports Lead_Durable_Props "HOL-Library.Multiset"
begin

text \<open>
  The payloads of the node: what an executor signs is what the lead accepts, and what the lead reports is what
  \<open>parseTaskReport\<close> reads, as far as the report is one.
\<close>

section \<open>Task reports\<close>

definition report_ok :: "task_report \<Rightarrow> bool" where
  "report_ok r \<longleftrightarrow> isUuidStr (rp_task_id r) \<and> named (Some (JStr (rp_team_id r))) \<and> isUuidStr (rp_lead r) \<and>
     (\<forall>n. rp_exec r = Some n \<longrightarrow> isUuidStr n) \<and> positive (rp_attempt r) \<and> nonnegative (rp_task_seq r)"

lemma one_of_text [simp]:
  "one_of state_text TASK_REPORT_STATUSES (Some (JStr (state_text s))) = Some s"
  "one_of kind_text [Aid, Project] (Some (JStr (kind_text k))) = Some k"
  by (cases s; simp add: one_of_def TASK_REPORT_STATUSES_def) (cases k; simp add: one_of_def)

text \<open>Every read of \<open>parseTaskReport\<close>, on the object that comes back for \<open>report_json r\<close>.\<close>

lemma report_reads:
  fixes r :: task_report
  assumes "json_values cd"
  shows "parseTaskReport (via_text cd (report_json r)) = (if report_ok r then Some r else None)"
proof -
  let ?fs = "[(''task_id'', JStr (rp_task_id r)), (''team_id'', JStr (rp_team_id r)), (''lead'', JStr (rp_lead r)),
     (''exec'', nullable JStr (rp_exec r)), (''attempt'', JNum (rp_attempt r)), (''status'', JStr (state_text (rp_status r))),
     (''type'', JStr (kind_text (rp_type r))), (''task_seq'', JNum (rp_task_seq r))]"
  have o: "obj_of (Some (via_text cd (report_json r))) = Some (canon cd ?fs)" using assms by (simp add: report_json_def obj_of_def)
  have e: "null_or uuid_of (map_of (canon cd ?fs) ''exec'') = (if \<forall>n. rp_exec r = Some n \<longrightarrow> isUuidStr n then Some (rp_exec r) else None)"
    using assms through(4) [OF assms, of "map_of ?fs ''exec''"] target_read [of "rp_exec r"] by (simp del: through target_read)
  have r: "uuid_of (map_of (canon cd ?fs) ''task_id'') = (if isUuidStr (rp_task_id r) then Some (rp_task_id r) else None)"
    "uuid_of (map_of (canon cd ?fs) ''lead'') = (if isUuidStr (rp_lead r) then Some (rp_lead r) else None)"
    "map_of (canon cd ?fs) ''team_id'' = Some (JStr (rp_team_id r))"
    "map_of (canon cd ?fs) ''attempt'' = Some (JNum (rp_attempt r))" "map_of (canon cd ?fs) ''task_seq'' = Some (JNum (rp_task_seq r))"
    "map_of (canon cd ?fs) ''status'' = Some (JStr (state_text (rp_status r)))" "map_of (canon cd ?fs) ''type'' = Some (JStr (kind_text (rp_type r)))"
    using assms by (simp_all add: uuid_of_def)
  show ?thesis unfolding parseTaskReport_def o by (simp add: r e report_ok_def)
qed

text \<open>
  C26: What the lead reports is what the reporter reads: through the canonical JSON of the store, \<open>parseTaskReport\<close> gives back
  exactly the report, for each of the nine states and both kinds, when its ids, team, attempt and sequence are those of
  a dispatched task, and throws otherwise, so for attempt 0.
\<close>

theorem task_report_roundtrip:
  assumes "json_values cd"
  shows "parseTaskReport (via_text cd (report_json r)) = (if report_ok r then Some r else None)"
  using assms by (rule report_reads)

section \<open>Deliveries\<close>

text \<open>What is relied on of ed25519 and base64: a signature that was just made verifies with the public key.\<close>

definition ed_pair :: "ed_lib \<Rightarrow> string \<Rightarrow> string \<Rightarrow> bool" where
  "ed_pair ed priv pub \<longleftrightarrow> (\<forall>msg. ed_verify ed (ed_from64 ed (ed_to64 ed (ed_sign ed msg priv))) msg pub = Some True)"

definition sound_entry :: "artifact_entry \<Rightarrow> bool" where
  "sound_entry e \<longleftrightarrow> named (Some (JStr (ae_path e))) \<and> is_digest (ae_sha256 e) \<and> isSafeInteger (ae_size e) \<and> 0 \<le> ae_size e"

lemma read_entry_json: "read_entry (entry_json e) = (if sound_entry e then Some e else None)"
  by (simp add: read_entry_def entry_json_def sound_entry_def str_of_def num_of_def)

lemma read_entries_json:
  "list_all sound_entry es \<Longrightarrow> distinct (map ae_path es) \<Longrightarrow> set (map ae_path es) \<inter> set paths = {} \<Longrightarrow>
    read_entries paths (map entry_json es) = Some es"
  by (induction es arbitrary: paths) (auto simp: read_entry_json)

lemma file_entries:
  assumes "rt_codec cd" "distinct (map fst files)" "\<forall>(p, bytes) \<in> set files. named (Some (JStr p)) \<and> isSafeInteger (of_nat (length bytes))"
    and m_def: "m = buildManifest cd taskId att nodeId epoch files"
  shows "list_all sound_entry (am_deliverables m)" "distinct (map ae_path (am_deliverables m))"
    "set (am_deliverables m) = file_entry cd ` set files"
proof -
  have d: "set (am_deliverables m) = file_entry cd ` set files" by (simp add: m_def buildManifest_def)
  then show "set (am_deliverables m) = file_entry cd ` set files" .
  show "list_all sound_entry (am_deliverables m)"
    unfolding list_all_iff d using assms(1,3) by (auto simp: sound_entry_def file_entry_def rt_codec_def)
  have "mset (map ae_path (am_deliverables m)) = mset (map fst files)"
    by (simp add: m_def buildManifest_def file_entry_def image_mset.compositionality o_def)
  then show "distinct (map ae_path (am_deliverables m))" using assms(2) mset_eq_imp_distinct_iff by blast
qed

lemma delivery_accepted:
  assumes "rt_codec cd" "ed_pair ed priv pub" "isUuidStr taskId" "isUuidStr nodeId" "positive att" "positive epoch"
    and "distinct (map fst files)" "\<forall>(p, bytes) \<in> set files. named (Some (JStr p)) \<and> isSafeInteger (of_nat (length bytes))"
    and "distinct (map fst collected)" "set collected = set files"
    and "isLeadContract contract" "\<forall>c \<in> set (declared contract). \<exists>p bytes. str_of (obj_get c ''path'') = Some p \<and> (p, bytes) \<in> set files"
  shows "verifyArtifactDelivery cd ed
    \<lparr>di_signed = signManifest cd ed (buildManifest cd taskId att nodeId epoch files) priv, di_taskId = taskId, di_attempt = att,
     di_pub = pub, di_fromNodeId = nodeId, di_fromKeyEpoch = epoch, di_collected = collected, di_contract = contract\<rparr>"
proof -
  let ?m = "buildManifest cd taskId att nodeId epoch files"
  let ?ds = "am_deliverables ?m" and ?s = "signManifest cd ed ?m priv"
  note f = file_entries [OF assms(1,7,8) refl, of taskId att nodeId epoch]
  have m: "manifest_of ?s = manifest_json ?m" by (simp add: manifest_of_def signManifest_def)
  have d: "deliverables_of (manifest_json ?m) = Some ?ds"
    using read_entries_json [OF f(1,2), of "[]"] by (simp add: deliverables_of_def manifest_json_def arr_of_def)
  have id: "str_of (obj_get (manifest_json ?m) ''task_id'') = Some taskId" "num_of (obj_get (manifest_json ?m) ''attempt'') = Some att"
    "str_of (obj_get (manifest_json ?m) ''node_id'') = Some nodeId" "num_of (obj_get (manifest_json ?m) ''key_epoch'') = Some epoch"
    "isPlainObject (manifest_json ?m)" "obj_get (manifest_json ?m) ''task_id'' = Some (JStr taskId)" "obj_get (manifest_json ?m) ''node_id'' = Some (JStr nodeId)"
    by (simp_all add: manifest_json_def buildManifest_def str_of_def num_of_def)
  have s: "validSignedManifest (Some ?s)"
    using assms(3-6) d id by (simp add: validSignedManifest_def m Let_def isUuid_def positive_num_def) (simp add: signManifest_def str_of_def)
  have v: "verifyManifest cd ed ?s pub"
    using assms(2) unfolding verifyManifest_def m by (simp add: signManifest_def str_of_def ed_pair_def)
  have "list_all (intact cd collected) ?ds"
  proof -
    have "intact cd collected (file_entry cd x)" if "x \<in> set files" for x
    proof -
      have "map_of (rev collected) (fst x) = Some (snd x)"
        using that assms(9,10) by (intro map_of_is_SomeI) (simp_all add: rev_map [symmetric])
      then show ?thesis by (simp add: intact_def file_entry_def)
    qed
    with f(3) show ?thesis by (auto simp: list_all_iff)
  qed
  moreover have "list_all (delivers ?ds) (declared contract)"
    unfolding list_all_iff
  proof
    fix c
    assume "c \<in> set (declared contract)"
    with assms(12) obtain p bytes where "str_of (obj_get c ''path'') = Some p" "(p, bytes) \<in> set files" by blast
    moreover from this have "p \<in> ae_path ` (file_entry cd ` set files)" by (force simp: file_entry_def)
    ultimately show "delivers ?ds c" using f(3) by (simp add: delivers_def)
  qed
  ultimately show ?thesis
    using s v d id assms(11) by (simp add: verifyArtifactDelivery_def m Let_def)
qed

text \<open>
  C17: A delivery as the executor signs it is accepted. For any files with different names, the manifest that
  \<open>buildManifest\<close> and \<open>signManifest\<close> make passes every check of \<open>verifyArtifactDelivery\<close>, when the lead collected the same
  files in whatever order, asks for the same task, attempt, node and key epoch, and its contract declares only paths
  that are among the files.
\<close>

theorem signed_delivery_accepted:
  assumes "rt_codec cd" "ed_pair ed priv pub" "isUuidStr taskId" "isUuidStr nodeId" "positive att" "positive epoch"
    and "distinct (map fst files)" "\<forall>(p, bytes) \<in> set files. named (Some (JStr p)) \<and> isSafeInteger (of_nat (length bytes))"
    and "distinct (map fst collected)" "set collected = set files"
    and "isLeadContract contract" "\<forall>c \<in> set (declared contract). \<exists>p bytes. str_of (obj_get c ''path'') = Some p \<and> (p, bytes) \<in> set files"
  shows "verifyArtifactDelivery cd ed
    \<lparr>di_signed = signManifest cd ed (buildManifest cd taskId att nodeId epoch files) priv, di_taskId = taskId, di_attempt = att,
     di_pub = pub, di_fromNodeId = nodeId, di_fromKeyEpoch = epoch, di_collected = collected, di_contract = contract\<rparr>"
  using assms by (rule delivery_accepted)

end
