(* ===== verification/Lead_Host_Examples.thy ===== *)
theory Lead_Host_Examples
  imports Lead_Host_Theorems Delivery_Theorems Node_Store_Examples
begin

text \<open>
  A concrete durable lead over the node store of \<open>Node_Store_Examples\<close>, the delivery of a small artifact, and the
  theorems about the lead and its payloads applied to them.
\<close>

section \<open>Setting\<close>

text \<open>A signature is the message itself.\<close>

definition l_ed :: ed_lib where
  "l_ed = \<lparr>ed_sign = (\<lambda>msg _. msg), ed_verify = (\<lambda>sig msg _. Some (sig = msg)), ed_to64 = (\<lambda>s. s), ed_from64 = (\<lambda>s. s)\<rparr>"

definition l_opts :: lead_opts where
  "l_opts = \<lparr>lo_cfg = demo_cf, lo_team = ''t'', lo_params = DEFAULT_PARAMS\<lparr>leaseMsAid := 9, leaseMsProject := 9, cancelWaitMs := 9\<rparr>,
     lo_validate = None, lo_collect = True, lo_resolve = True, lo_ed = l_ed\<rparr>"

definition l_io :: lead_io where
  "l_io = \<lparr>li_pf = (\<lambda>_. healthy), li_now = 1, li_seal = (\<lambda>_. demo_msg other_uuid), li_id = (\<lambda>_. ''e''), li_select = (\<lambda>_ _. None), li_iso = ''now''\<rparr>"

lemma l_sel [simp]:
  "lo_cfg l_opts = demo_cf" "lo_team l_opts = ''t''" "lo_validate l_opts = None" "lo_ed l_opts = l_ed" "lo_collect l_opts" "lo_resolve l_opts"
  "leaseMsAid (lo_params l_opts) = 9" "leaseMsProject (lo_params l_opts) = 9" "cancelWaitMs (lo_params l_opts) = 9"
  "li_pf l_io n = healthy" "li_now l_io = 1" "li_seal l_io ob = demo_msg other_uuid" "li_id l_io n = ''e''" "li_select l_io n = (\<lambda>_. None)"
  by (simp_all add: l_opts_def l_io_def)

lemma l_good [simp]: "good_lead l_opts"
  by (simp add: good_lead_def text_codec_ok text_codec_values)

text \<open>A task that was originated, and the same after a cancellation.\<close>

definition l_task :: lead_task where
  "l_task = new_task l_opts demo_uuid Aid"

definition l_cancelled :: lead_task where
  "l_cancelled = l_task\<lparr>lt_rec := (lt_rec l_task)\<lparr>lr_cancelReason := Some Cr_user, lr_cancelWaitUntil := Some 10, lr_state := Cancelling\<rparr>, lt_seq := 1\<rparr>"

definition l_key :: string where
  "l_key = leadStateKey demo_uuid"

definition l_db :: "nat \<Rightarrow> lead_task \<Rightarrow> (string \<times> effect_row) list \<Rightarrow> node_db" where
  "l_db n t effs = demo_db\<lparr>nd_state := [(l_key, \<lparr>sr_revision = n, sr_value = enc (task_json t)\<rparr>)], nd_effects := effs\<rparr>"

lemma l_db_sel [simp]:
  "nd_state (l_db n t effs) = [(l_key, \<lparr>sr_revision = n, sr_value = enc (task_json t)\<rparr>)]" "nd_effects (l_db n t effs) = effs"
  "nd_inbox (l_db n t effs) = []" "nd_outbox (l_db n t effs) = []" "nd_delivery (l_db n t effs) = []" "nd_dedup (l_db n t effs) = []"
  by (simp_all add: l_db_def)

lemma l_key_ok [simp]: "key_ok text_codec l_key"
  using isUuidStr_length [OF demo_uuid_ok]
  by (simp add: key_ok_def l_key_def leadStateKey_def LEAD_STATE_PREFIX_def)

lemma l_key_length: "length l_key < 100"
  using isUuidStr_length [OF demo_uuid_ok] by (simp add: l_key_def leadStateKey_def LEAD_STATE_PREFIX_def)

definition l_host :: "node_db \<Rightarrow> nat \<Rightarrow> lead_host" where
  "l_host db n = fresh_lead (demo_store db) n 0 []"

lemma l_host_sel [simp]:
  "lead_db (l_host db n) = db" "ld_verdicts (l_host db n) = []" "ld_calls (l_host db n) = n" "\<not> ld_faulted (l_host db n)"
  "ld_store (l_host db n) = demo_store db"
  by (simp_all add: l_host_def fresh_lead_def)

lemma l_wf [simp]: "wf_map (nd_state (l_db n t effs))"
  by (simp add: wf_map_def)

lemma l_rec: "lt_rec l_task = \<lparr>lr_task_id = demo_uuid, lr_kind = Aid, lr_leaseMs = 9, lr_state = Drafting, lr_attempt = 0, lr_target = None,
    lr_acceptedThisAttempt = False, lr_acceptedFailedBudget = 0, lr_dispatchRounds = 0, lr_renewalSeq = 0, lr_excluded = [], lr_history = [],
    lr_offerTtlUntil = None, lr_leaseDeadline = None, lr_drainUntil = None, lr_drainClosed = None, lr_cancelWaitUntil = None,
    lr_completedBeforeCancel = None, lr_resultBody = None, lr_cancelReason = None, lr_contract = None\<rparr>"
  "lt_seq l_task = 0" "lt_past l_task = []" "lt_body l_task = None" "lt_why l_task = None"
  by (simp_all add: l_task_def new_task_def newLeadTaskMachine_def Let_def)


lemma l_valid: "valid_lead_task l_task"
  by (simp add: valid_lead_task_def valid_record_def l_rec safe_nat_def positive_def isSafeInteger_def deadline_ok_def task_shape_def
      isLeadContract_def)

lemma l_stored: "stored_task text_codec l_task = l_task"
  by (rule lead_task.equality) (simp_all add: stored_task_def Let_def l_rec stored_excluded_def canon_def excluded_json_def)

lemma l_read: "read_task (task_json l_task) = Some l_task"
  using read_task_json [OF text_codec_values, of l_task] by (simp add: l_valid l_stored)

section \<open>A cancellation before the dispatch\<close>

lemma l_visit: "visit (task_json l_task) 0" "visit (task_json l_cancelled) 0" "visit (task_json l_cancelled) (Suc 0)"
  by (simp_all add: task_json_def task_fixed_def task_optional_def opt_field_def l_rec l_cancelled_def nullable_def Let_def)

lemma l_readState:
  "readState text_codec (l_db 1 l_task []) l_key = Inr (Some \<lparr>rs_key = l_key, rs_revision = 1, rs_value = task_json l_task\<rparr>)"
  by (simp add: readState_def decodeState_def storedInteger_def safe_def valid_def storedJson_def l_visit del: enc.simps)

lemma l_ld_state:
  "ld_state l_opts l_io l_key (l_host (l_db 1 l_task []) n) =
    (l_host (l_db 1 l_task []) (n + 1), Inr (Some \<lparr>rs_key = l_key, rs_revision = 1, rs_value = task_json l_task\<rparr>))"
  by (simp add: ld_state_def seq_def ld_call_def transaction_healthy read_out_def ret_def l_readState l_host_def fresh_lead_def
      del: One_nat_def)

lemma l_task_at: "task_at l_opts (l_db n l_task effs) demo_uuid = Some l_task"
  by (simp add: task_at_def row_at_def row_state_def l_key_def [symmetric] l_read)


definition l_report :: json where
  "l_report = taskReportEffect (report_of l_opts (lt_rec l_cancelled) 1) ''e''"

definition l_effect :: effect_row where
  "l_effect = \<lparr>er_state_key = l_key, er_revision = 2, er_kind = TASK_REPORT_KIND,
     er_payload = enc (report_json (report_of l_opts (lt_rec l_cancelled) 1)), er_done = False\<rparr>"

lemma l_run:
  "runEvent l_opts (li_seal l_io) ''e'' (\<lambda>_. None) [] l_task (\<lambda>m. cancelByUser m 1) 1 None =
    Some \<lparr>ev_value = l_cancelled, ev_outbox = [], ev_effects = [l_report], ev_changed = True, ev_acted = True\<rparr>"
  by (simp add: runEvent_def task_machine_def newLeadTaskMachine_def Let_def cancelByUser_def cancel_msg_def stopTimers_def l_rec l_cancelled_def
      l_report_def TERMINAL_STATES_def sends_def isSafeInteger_def)

lemma l_event:
  "json_text text_codec (Some (event_json l_cancelled [] [l_report])) = Inr (enc (event_json l_cancelled [] [l_report]))"
  "json_text text_codec (obj_get (event_json l_cancelled [] [l_report]) ''state'') = Inr (enc (task_json l_cancelled))"
  "array_prop (obj_get (event_json l_cancelled [] [l_report]) ''outbox'') = Inr []"
  "array_prop (obj_get (event_json l_cancelled [] [l_report]) ''effects'') = Inr [l_report]"
proof -
  have "visit l_report 2"
    by (simp add: l_report_def taskReportEffect_def report_json_def report_of_def nullable_def l_cancelled_def l_rec)
  then show "json_text text_codec (Some (event_json l_cancelled [] [l_report])) = Inr (enc (event_json l_cancelled [] [l_report]))"
    using l_visit by (simp add: json_text_def event_json_def numeral_2_eq_2 del: enc.simps)
qed (use l_visit in \<open>simp_all add: event_json_def array_prop_def json_text_def del: enc.simps\<close>)

lemma l_report_fields:
  "obj_get l_report ''id'' = Some (JStr ''e'')" "obj_get l_report ''kind'' = Some (JStr TASK_REPORT_KIND)"
  "json_text text_codec (obj_get l_report ''payload'') = Inr (enc (report_json (report_of l_opts (lt_rec l_cancelled) 1)))"
  by (simp_all add: l_report_def taskReportEffect_def json_text_def del: enc.simps)
    (simp add: report_json_def report_of_def nullable_def l_cancelled_def l_rec)

lemma l_add_effect: "add_effect text_codec l_key 2 (l_db 2 l_cancelled []) l_report = Inr (l_db 2 l_cancelled [(''e'', l_effect)])"
  by (simp add: add_effect_def l_report_fields key_arg_def key_ok_def TASK_REPORT_KIND_def l_effect_def del: enc.simps)
    (simp add: l_db_def)

lemma l_apply:
  "applyTransition demo_cf (l_db 1 l_task []) l_key 1 (event_json l_cancelled [] [l_report]) = Inr (l_db 2 l_cancelled [(''e'', l_effect)], 2)"
proof -
  have "(l_db 1 l_task [])\<lparr>nd_state := AList.update l_key \<lparr>sr_revision = 2, sr_value = enc (task_json l_cancelled)\<rparr> (nd_state (l_db 1 l_task []))\<rparr>
      = l_db 2 l_cancelled []"
    by (simp add: l_db_def)
  moreover have "integer_arg (of_nat (1 + 1)) = Inr 2" by (simp add: integer_arg_def)
  ultimately show ?thesis
    unfolding applyTransition_def Let_def using l_event l_add_effect by (simp del: enc.simps AList.update.simps)
qed

lemma l_lengths: "length (enc (task_json l_cancelled)) < 10000" "length (er_payload l_effect) < 10000"
  using isUuidStr_length [OF demo_uuid_ok]
  by (simp_all add: task_json_def task_fixed_def task_optional_def opt_field_def l_rec l_cancelled_def nullable_def Let_def l_effect_def
      report_json_def report_of_def length_concat enc_str_def enc_num_def comp_def sum_list_triv)


lemma l_transition:
  "nr_transition demo_cf (l_db 1 l_task []) l_key 1 (\<lambda>_. Inr (event_json l_cancelled [] [l_report])) = Inr (l_db 2 l_cancelled [(''e'', l_effect)], 2)"
proof -
  have "capacity demo_cf (l_db 2 l_cancelled [(''e'', l_effect)]) = Inr ()"
    using l_lengths l_key_length
    by (simp add: capacity_Inr usage_entries_def usage_bytes_def safe_def del: enc.simps) (simp add: l_effect_def TASK_REPORT_KIND_def)
  then show ?thesis
    using l_apply by (simp add: nr_transition_def integer_arg_def l_readState revision_of_def del: One_nat_def enc.simps)
qed

lemma l_cancel:
  "ld_cancel l_opts l_io demo_uuid (l_host (l_db 1 l_task []) n) = (l_host (l_db 2 l_cancelled [(''e'', l_effect)]) (n + 2), Inr True)"
proof -
  let ?e = "\<lparr>ev_value = l_cancelled, ev_outbox = [], ev_effects = [l_report], ev_changed = True, ev_acted = True\<rparr>"
  let ?op = "Op_transition l_key 1 (\<lambda>_. Inr (event_json l_cancelled [] [l_report]))"
  have r: "ld_run l_opts l_io l_task (\<lambda>_ m. cancelByUser m 1) None (l_host (l_db 1 l_task []) (n + 1)) = (l_host (l_db 1 l_task []) (n + 1), Inr ?e)"
    using l_run by (simp add: ld_run_def seq_def ask_def ret_def)
  have c: "ld_call l_opts l_io ?op (l_host (l_db 1 l_task []) (n + 1)) = (l_host (l_db 2 l_cancelled [(''e'', l_effect)]) (n + 2), Inr (Ot_nat 2))"
    using l_transition by (simp add: ld_call_def transaction_healthy with_out_def l_host_def fresh_lead_def del: One_nat_def)
  have p: "ld_prune l_opts l_cancelled h = (h, Inr ())" if "ld_verdicts h = []" for h
    using that by (simp add: ld_prune_def upd_def pruneVerdict_def)
  have "transitionEvent l_opts l_io demo_uuid (\<lambda>_ m. cancelByUser m 1) (l_host (l_db 1 l_task []) n) =
      (l_host (l_db 2 l_cancelled [(''e'', l_effect)]) (n + 2), Inr True)"
    using l_ld_state [of n] r c p
    by (simp add: transitionEvent_def ld_event_def seq_def ld_decode_def ret_def l_read revision_of_def l_key_def [symmetric] del: One_nat_def)
  then show ?thesis
    by (simp add: ld_cancel_def command_def ld_checked_def catching_def seq_def ld_healthy_def ask_def ret_def)
qed

theorem cancel_undispatched_breaks_witness:
  "broken l_opts (l_db 2 l_cancelled [(''e'', l_effect)]) demo_uuid \<and>
   isl (snd (ld_tick l_opts l_io (l_host (l_db 2 l_cancelled [(''e'', l_effect)]) 0))) \<and>
   ld_faulted (fst (ld_tick l_opts l_io (l_host (l_db 2 l_cancelled [(''e'', l_effect)]) 0)))"
  using cancel_undispatched_breaks [OF l_good _ _ l_cancel [of 0], of l_task "l_host (l_db 2 l_cancelled [(''e'', l_effect)]) 0" l_io]
  by (simp add: l_task_at l_rec del: One_nat_def)

section \<open>Refinement and attempts\<close>

theorem lead_refines_machine_witness:
  "wf_map (nd_state (l_db 2 l_cancelled [(''e'', l_effect)])) \<and>
   lead_effs l_opts (permitted l_io (Le_cancel demo_uuid)) (l_db 1 l_task []) (l_db 2 l_cancelled [(''e'', l_effect)])"
  using lead_refines_machine [of "l_host (l_db 1 l_task []) 0" "Le_cancel demo_uuid" l_opts l_io] l_cancel [of 0]
  by (simp add: silent_def good_event_def wf_map_def del: One_nat_def)

text \<open>An export, an answer to a staging call that is gone, and a crash.\<close>

definition l_history :: "(lead_io \<times> lead_ev) list" where
  "l_history = [(l_io, Le_export), (l_io, Le_collected 0 None), (l_io, Le_crash (demo_store demo_db))]"

lemma l_history_db: "lead_db (lead_history l_opts l_history (l_host (l_db 1 l_task []) 0)) = l_db 1 l_task []"
  using collected_reads by (simp add: l_history_def silent_def export_reads keeps_def fresh_lead_def)

theorem stored_attempt_never_falls_witness:
  "task_at l_opts (lead_db (lead_history l_opts l_history (l_host (l_db 1 l_task []) 0))) demo_uuid = Some l_task \<and>
   lr_attempt (lt_rec l_task) \<le> lr_attempt (lt_rec l_task)"
proof
  have "\<forall>(io, ev) \<in> set l_history. good_event ev \<and> no_dispatch ev"
    by (simp add: l_history_def good_event_def no_dispatch_def)
  then show "lr_attempt (lt_rec l_task) \<le> lr_attempt (lt_rec l_task)"
    using stored_attempt_never_falls [OF l_good, of "l_host (l_db 1 l_task []) 0" l_history demo_uuid l_task l_task]
    by (simp add: l_history_db l_task_at wf_map_def del: One_nat_def)
qed (simp add: l_history_db l_task_at del: One_nat_def)


section \<open>Payloads\<close>

definition l_running :: task_report where
  "l_running = \<lparr>rp_task_id = demo_uuid, rp_team_id = ''t'', rp_lead = demo_uuid, rp_exec = Some other_uuid, rp_attempt = 1,
     rp_status = Running, rp_type = Aid, rp_task_seq = 2\<rparr>"

theorem task_report_roundtrip_witness:
  "parseTaskReport (via_text text_codec (report_json l_running)) = Some l_running \<and>
   parseTaskReport (via_text text_codec (report_json (report_of l_opts (lt_rec l_cancelled) 1))) = None"
proof
  have "report_ok l_running"
    by (simp add: report_ok_def l_running_def positive_def nonnegative_def isSafeInteger_def named_def str_of_def is_space_def)
  then show "parseTaskReport (via_text text_codec (report_json l_running)) = Some l_running"
    using task_report_roundtrip [OF text_codec_values, of l_running] by simp
  have "\<not> report_ok (report_of l_opts (lt_rec l_cancelled) 1)"
    by (simp add: report_ok_def report_of_def l_cancelled_def l_rec positive_def)
  then show "parseTaskReport (via_text text_codec (report_json (report_of l_opts (lt_rec l_cancelled) 1))) = None"
    using task_report_roundtrip [OF text_codec_values, of "report_of l_opts (lt_rec l_cancelled) 1"] by simp
qed

definition l_files :: "(string \<times> string) list" where
  "l_files = [(''b.txt'', ''yy''), (''a.txt'', ''x'')]"

definition l_contract :: json where
  "l_contract = JObj [(''deliverables'', JArr [JObj [(''path'', JStr ''a.txt'')]])]"

definition l_delivery :: delivery_input where
  "l_delivery = \<lparr>di_signed = signManifest text_codec l_ed (buildManifest text_codec demo_uuid 1 demo_uuid 1 l_files) ''key'',
     di_taskId = demo_uuid, di_attempt = 1, di_pub = ''key'', di_fromNodeId = demo_uuid, di_fromKeyEpoch = 1,
     di_collected = rev l_files, di_contract = Some l_contract\<rparr>"

lemma l_delivery_facts:
  "ed_pair l_ed ''key'' ''key''" "positive (1 :: number)"
  "\<forall>(p, bytes) \<in> set l_files. named (Some (JStr p)) \<and> isSafeInteger (of_nat (length bytes))"
  "distinct (map fst l_files)" "distinct (map fst (rev l_files))" "set (rev l_files) = set l_files"
  "isLeadContract (Some l_contract)"
  "\<forall>c \<in> set (declared (Some l_contract)). \<exists>p bytes. str_of (obj_get c ''path'') = Some p \<and> (p, bytes) \<in> set l_files"
  by (simp_all add: ed_pair_def l_ed_def positive_def isSafeInteger_def l_files_def named_def str_of_def is_space_def l_contract_def
      isLeadContract_def arr_of_def isDeliverable_def declared_def insert_commute)

theorem signed_delivery_accepted_witness: "verifyArtifactDelivery text_codec l_ed l_delivery"
  unfolding l_delivery_def by (rule signed_delivery_accepted) (simp_all add: text_codec_ok l_delivery_facts [simplified])

lemma l_delivered: "verifyArtifactDelivery text_codec l_ed l_delivery"
  unfolding l_delivery_def by (rule delivery_accepted) (simp_all add: text_codec_ok l_delivery_facts [simplified])

end
