(* ===== verification/Lead_Project_Example.thy ===== *)
theory Lead_Project_Example
  imports Lead_Host_Examples
begin

text \<open>
  A project that is done: a concrete lead holds a verdict for the result of its executor, consumes the result, and
  \<open>project_done_verified\<close> is applied to this history.
\<close>

section \<open>The result\<close>

text \<open>
  A running project whose delivery has been checked, and the result of its executor: a lead that holds the verdict
  consumes it, and the task is done.
\<close>

definition p_env :: json where
  "p_env = JObj (AList.update ''type'' (JStr ''task.result'')
     (AList.update ''from'' (JObj [(''node_id'', JStr demo_uuid), (''key_epoch'', JNum 1), (''team_id'', JStr ''t'')]) demo_fields))"

definition p_task :: lead_task where
  "p_task = l_task\<lparr>lt_rec := (lt_rec l_task)\<lparr>lr_kind := Project, lr_state := Running, lr_attempt := 1, lr_target := Some demo_uuid,
     lr_acceptedThisAttempt := True\<rparr>, lt_seq := 2\<rparr>"

lemma p_rec: "lt_rec p_task = \<lparr>lr_task_id = demo_uuid, lr_kind = Project, lr_leaseMs = 9, lr_state = Running, lr_attempt = 1,
    lr_target = Some demo_uuid, lr_acceptedThisAttempt = True, lr_acceptedFailedBudget = 0, lr_dispatchRounds = 0, lr_renewalSeq = 0,
    lr_excluded = [], lr_history = [], lr_offerTtlUntil = None, lr_leaseDeadline = None, lr_drainUntil = None, lr_drainClosed = None,
    lr_cancelWaitUntil = None, lr_completedBeforeCancel = None, lr_resultBody = None, lr_cancelReason = None, lr_contract = None\<rparr>"
  "lt_seq p_task = 2" "lt_past p_task = []" "lt_body p_task = None" "lt_why p_task = None"
  by (simp_all add: p_task_def l_rec)

lemma p_valid: "valid_lead_task p_task"
  by (simp add: valid_lead_task_def valid_record_def p_rec safe_nat_def positive_def isSafeInteger_def deadline_ok_def task_shape_def
      isLeadContract_def)

lemma p_read: "read_task (task_json p_task) = Some p_task"
proof -
  have "stored_task text_codec p_task = p_task"
    by (rule lead_task.equality) (simp_all add: stored_task_def Let_def p_rec stored_excluded_def canon_def excluded_json_def)
  then show ?thesis using read_task_json [OF text_codec_values, of p_task] by (simp add: p_valid)
qed

lemma p_envelope [simp]:
  "e_from_node (envelopeOf p_env) = demo_uuid" "e_to_node (envelopeOf p_env) = demo_uuid" "e_msg_id (envelopeOf p_env) = demo_uuid"
  "e_type (envelopeOf p_env) = ''task.result''" "e_task_id (envelopeOf p_env) = Some demo_uuid" "e_attempt (envelopeOf p_env) = Some 1"
  "e_from_team (envelopeOf p_env) = Some ''t''" "js_true (obj_get p_env ''sig'')" "alive_until text_codec p_env 1"
  "e_body (envelopeOf p_env) = [(''n'', JArr [JNum 1, JNum 2])]"
  by (simp_all add: envelopeOf_def Let_def p_env_def demo_fields_def str_or_def obj_opt_def alive_until_def text_codec_def str_of_def nat_of_def
      isSafeInteger_def)

definition p_en :: rt_encoded where
  "p_en = \<lparr>rn_env = p_env, rn_payload = enc p_env, rn_digest = toy_sha (enc p_env)\<rparr>"

lemma p_rt: "rt_envelope text_codec p_env = Inr p_en"
proof -
  have "TYPE_RE ''task.result''" "familyOf ''task.result'' = ''task''"
    by (simp_all add: TYPE_RE_def familyOf_def is_lower_def is_seg_char_def)
  then have "isPlainObject p_env" "common_ok (\<lambda>_. Some 1000) p_env" "family_ok (\<lambda>_. Some 1000) (\<lambda>_. 64) DEFAULT_PARAMS False p_env"
    "\<forall>q \<in> numbers p_env. isSafeInteger q"
    by (simp_all add: p_env_def demo_fields_def common_ok_def family_ok_def family_def signed_ok_def isUuid_def
        isRfc3339_def optionally_def isSafeIntGe_def DEFAULT_PARAMS_def isNonEmptyStr_def isSafeInteger_def)
  then have "\<exists>v. validateEnvelope (\<lambda>_. Some 1000) (\<lambda>_. 64) p_env DEFAULT_PARAMS False = Inr v"
    using validate_iff by blast
  then have "validateEnvelope (\<lambda>_. Some 1000) (\<lambda>_. 64) p_env DEFAULT_PARAMS False = Inr p_env"
    by (auto simp: validateEnvelope_def Let_def split: if_splits)
  moreover have "length (enc p_env) < 2000"
    using isUuidStr_length [OF demo_uuid_ok]
    by (simp add: p_env_def demo_fields_def length_concat enc_str_def enc_num_def comp_def sum_list_triv)
  moreover have "visit p_env 0" "sig_canonical text_codec (obj_get p_env ''sig'')"
    by (simp_all add: p_env_def demo_fields_def sig_canonical_def text_codec_def)
  ultimately show ?thesis
    unfolding rt_envelope_def json_text_def
    by (simp add: max_bytes_def p_en_def) (simp add: text_codec_def)
qed

definition p_row :: inbox_row where
  "p_row = \<lparr>ib_digest = toy_sha (enc p_env), ib_payload = Some (enc p_env), ib_decision = Undecided, ib_state_key = None, ib_revision = None\<rparr>"

definition p_db :: node_db where
  "p_db = demo_db\<lparr>nd_inbox := [((demo_uuid, demo_uuid), p_row)], nd_state := [(l_key, \<lparr>sr_revision = 1, sr_value = enc (task_json p_task)\<rparr>)]\<rparr>"

lemma p_db_sel [simp]:
  "nd_state p_db = [(l_key, \<lparr>sr_revision = 1, sr_value = enc (task_json p_task)\<rparr>)]" "nd_inbox p_db = [((demo_uuid, demo_uuid), p_row)]"
  "nd_effects p_db = []" "nd_outbox p_db = []" "nd_delivery p_db = []" "nd_dedup p_db = []"
  by (simp_all add: p_db_def)

lemma p_inbox: "readInbox demo_cf p_db (demo_uuid, demo_uuid) p_row = Inr (Some p_env)"
proof -
  have "rn_env p_en = p_env" "rn_payload p_en = enc p_env" "rn_digest p_en = toy_sha (enc p_env)" by (simp_all add: p_en_def)
  then have "readEnvelope demo_cf (demo_uuid, demo_uuid) (toy_sha (enc p_env)) (enc p_env) False = Inr p_env"
    using readEnvelope_stored [of demo_cf p_env p_en "(demo_uuid, demo_uuid)" False] text_codec_ok p_rt by auto
  then show ?thesis by (simp add: readInbox_def p_row_def storedIdentity_def toy_sha_digest)
qed

lemma p_visit: "visit (task_json p_task) 0"
  by (simp add: task_json_def task_fixed_def task_optional_def opt_field_def p_rec nullable_def Let_def)

lemma p_readState:
  "readState text_codec p_db l_key = Inr (Some \<lparr>rs_key = l_key, rs_revision = 1, rs_value = task_json p_task\<rparr>)"
  by (simp add: readState_def decodeState_def storedInteger_def safe_def valid_def storedJson_def p_visit del: enc.simps)

text \<open>The verdict, the task after the result, and its report.\<close>

definition p_verdicts :: "(string \<times> verdict) list" where
  "p_verdicts = [(demo_uuid, \<lparr>vd_token = 0, vd_context = acceptanceContext text_codec p_task, vd_delivery = digest_of text_codec p_env,
     vd_verdict = Some True\<rparr>)]"

definition p_done :: lead_task where
  "p_done = p_task\<lparr>lt_rec := (lt_rec p_task)\<lparr>lr_state := Done, lr_resultBody := Some [(''n'', JArr [JNum 1, JNum 2])],
     lr_history := [\<lparr>h_node = demo_uuid, h_attempt = 1, h_outcome = Oc_result_delivered, h_reason_code = None\<rparr>]\<rparr>, lt_seq := 3\<rparr>"

definition p_report :: json where
  "p_report = taskReportEffect (report_of l_opts (lt_rec p_done) 3) ''e''"

definition p_runner :: "lead_machine \<Rightarrow> lead_machine \<times> lead_action list" where
  "p_runner m = onMessage m ''task.result'' demo_uuid 1 [(''n'', JArr [JNum 1, JNum 2])] 1 (Some demo_uuid)"

lemma p_run:
  "runEvent l_opts (li_seal l_io) ''e'' (\<lambda>_. None) p_verdicts p_task p_runner 1 (Some p_env) =
    Some \<lparr>ev_value = p_done, ev_outbox = [], ev_effects = [p_report], ev_changed = True, ev_acted = True\<rparr>"
proof -
  have "projectValidator text_codec p_verdicts p_task (Some p_env) b" for b
    by (simp add: projectValidator_def p_rec p_verdicts_def)
  then show ?thesis
    by (simp add: runEvent_def task_machine_def newLeadTaskMachine_def Let_def p_runner_def onMessage_def onRunningMessage_def finish_def
        stopTimers_def push_def hist_def p_rec p_done_def p_report_def TERMINAL_STATES_def sends_def isSafeInteger_def)
qed

lemma p_done_visit: "visit (task_json p_done) 0" "visit (task_json p_done) (Suc 0)"
  by (simp_all add: task_json_def task_fixed_def task_optional_def opt_field_def p_rec p_done_def nullable_def Let_def history_json_def)

lemma p_event:
  "json_text text_codec (Some (event_json p_done [] [p_report])) = Inr (enc (event_json p_done [] [p_report]))"
  "json_text text_codec (obj_get (event_json p_done [] [p_report]) ''state'') = Inr (enc (task_json p_done))"
  "array_prop (obj_get (event_json p_done [] [p_report]) ''outbox'') = Inr []"
  "array_prop (obj_get (event_json p_done [] [p_report]) ''effects'') = Inr [p_report]"
proof -
  have "visit p_report 2"
    by (simp add: p_report_def taskReportEffect_def report_json_def report_of_def nullable_def p_done_def p_rec)
  then show "json_text text_codec (Some (event_json p_done [] [p_report])) = Inr (enc (event_json p_done [] [p_report]))"
    using p_done_visit by (simp add: json_text_def event_json_def numeral_2_eq_2 del: enc.simps)
qed (use p_done_visit in \<open>simp_all add: event_json_def array_prop_def json_text_def del: enc.simps\<close>)

definition p_effect :: effect_row where
  "p_effect = \<lparr>er_state_key = l_key, er_revision = 2, er_kind = TASK_REPORT_KIND,
     er_payload = enc (report_json (report_of l_opts (lt_rec p_done) 3)), er_done = False\<rparr>"

definition p_dedup :: "((string \<times> string \<times> string) \<times> string) list" where
  "p_dedup = [((demo_uuid, l_key, dedup_key text_codec p_env), body_digest text_codec p_env)]"

definition p_after :: node_db where
  "p_after = p_db\<lparr>nd_dedup := p_dedup, nd_state := [(l_key, \<lparr>sr_revision = 2, sr_value = enc (task_json p_done)\<rparr>)],
     nd_effects := [(''e'', p_effect)], nd_inbox := [((demo_uuid, demo_uuid), decide p_row Applied l_key 2)]\<rparr>"

lemma p_add_effect:
  "nd_effects db = [] \<Longrightarrow> add_effect text_codec l_key 2 db p_report = Inr (db\<lparr>nd_effects := [(''e'', p_effect)]\<rparr>)"
proof -
  have "obj_get p_report ''id'' = Some (JStr ''e'')" "obj_get p_report ''kind'' = Some (JStr TASK_REPORT_KIND)"
    "json_text text_codec (obj_get p_report ''payload'') = Inr (enc (report_json (report_of l_opts (lt_rec p_done) 3)))"
    by (simp_all add: p_report_def taskReportEffect_def json_text_def del: enc.simps)
      (simp add: report_json_def report_of_def nullable_def p_done_def p_rec)
  then show "nd_effects db = [] \<Longrightarrow> ?thesis"
    by (simp add: add_effect_def key_arg_def key_ok_def TASK_REPORT_KIND_def p_effect_def del: enc.simps)
qed

lemma p_apply:
  assumes "nd_effects db = []" "nd_state db = [(l_key, r)]"
  shows "applyTransition demo_cf db l_key 1 (event_json p_done [] [p_report]) =
    Inr (db\<lparr>nd_state := [(l_key, \<lparr>sr_revision = 2, sr_value = enc (task_json p_done)\<rparr>)], nd_effects := [(''e'', p_effect)]\<rparr>, 2)"
proof -
  have "integer_arg (of_nat (1 + 1)) = Inr 2" by (simp add: integer_arg_def)
  then show ?thesis
    unfolding applyTransition_def Let_def using p_event assms by (simp add: p_add_effect del: enc.simps)
qed

lemma p_lengths: "length (enc (task_json p_done)) < 10000" "length (er_payload p_effect) < 10000" "length (enc p_env) < 2000"
  using isUuidStr_length [OF demo_uuid_ok]
  by (simp_all add: task_json_def task_fixed_def task_optional_def opt_field_def p_rec p_done_def nullable_def Let_def p_effect_def
      report_json_def report_of_def length_concat enc_str_def enc_num_def comp_def sum_list_triv history_json_def p_env_def demo_fields_def)

lemma p_consume:
  "nr_consume demo_cf p_db \<lparr>cr_fromNode = demo_uuid, cr_msgId = demo_uuid, cr_stateKey = l_key, cr_expectedRevision = 1\<rparr>
     (\<lambda>env1 _. if digest_of text_codec env1 \<noteq> digest_of text_codec p_env then Inl (Domain_error Rc_conflict)
               else Inr (event_json p_done [] [p_report])) = Inr (p_after, Cn_decided Applied 2)"
proof -
  have gate: "r1_gate text_codec p_db demo_uuid l_key p_env = Inr (p_db\<lparr>nd_dedup := p_dedup\<rparr>, Applied)"
    by (simp add: r1_gate_def usesR1Dedup_def Let_def p_dedup_def body_digest_def)
  have k: "length (dedup_key text_codec p_env) < 1000"
    by code_simp
  have "er_state_key p_effect = l_key" "length (er_kind p_effect) < 20" by (simp_all add: p_effect_def TASK_REPORT_KIND_def)
  then have cap: "capacity demo_cf p_after = Inr ()"
    using k p_lengths l_key_length isUuidStr_length [OF demo_uuid_ok]
    by (simp add: capacity_Inr usage_entries_def usage_bytes_def inbox_bytes_def safe_def p_after_def p_dedup_def p_row_def decide_def
        body_digest_def del: enc.simps)
  have "ib_decision p_row = Undecided" by (simp add: p_row_def)
  with gate cap p_inbox p_readState show ?thesis
    by (simp add: nr_consume_def consume_tx_def Let_def integer_arg_def revision_of_def p_apply p_after_def del: enc.simps One_nat_def)
qed

definition p_host :: lead_host where
  "p_host = \<lparr>ld_store = demo_store p_db, ld_calls = 0, ld_faulted = False, ld_verdicts = p_verdicts, ld_tokens = 1, ld_staging = [],
     ld_log = [\<lparr>dc_task = demo_uuid, dc_context = acceptanceContext text_codec p_task, dc_env = p_env, dc_input = l_delivery\<rparr>]\<rparr>"

lemma p_consumed:
  "ld_consume l_opts l_io p_env True p_host = (p_host\<lparr>ld_store := demo_store p_after, ld_calls := 2, ld_verdicts := []\<rparr>, Inr ())"
proof -
  let ?e = "\<lparr>ev_value = p_done, ev_outbox = [], ev_effects = [p_report], ev_changed = True, ev_acted = True\<rparr>"
  let ?h = "p_host\<lparr>ld_calls := 1\<rparr>"
  let ?rq = "\<lparr>cr_fromNode = demo_uuid, cr_msgId = demo_uuid, cr_stateKey = l_key, cr_expectedRevision = 1\<rparr>"
  let ?t = "\<lambda>env1 _. if digest_of text_codec env1 \<noteq> digest_of text_codec p_env then Inl (Domain_error Rc_conflict)
               else Inr (event_json p_done [] [p_report])"
  have s: "ld_state l_opts l_io l_key p_host = (?h, Inr (Some \<lparr>rs_key = l_key, rs_revision = 1, rs_value = task_json p_task\<rparr>))"
    by (simp add: ld_state_def seq_def ld_call_def transaction_healthy read_out_def ret_def p_readState p_host_def del: One_nat_def)
  have r: "ld_run l_opts l_io p_task (\<lambda>_. p_runner) (Some p_env) ?h = (?h, Inr ?e)"
    using p_run by (simp add: ld_run_def seq_def ask_def ret_def p_host_def)
  have c: "ld_call l_opts l_io (Op_consume ?rq ?t) ?h = (p_host\<lparr>ld_store := demo_store p_after, ld_calls := 2\<rparr>, Inr (Ot_consume (Cn_decided Applied 2)))"
    using p_consume by (simp add: ld_call_def transaction_healthy with_out_def p_host_def del: One_nat_def)
  have f: "ld_forget demo_uuid (p_host\<lparr>ld_store := demo_store p_after, ld_calls := 2\<rparr>) =
      (p_host\<lparr>ld_store := demo_store p_after, ld_calls := 2, ld_verdicts := []\<rparr>, Inr ())"
    by (simp add: ld_forget_def upd_def p_host_def p_verdicts_def)
  have "\<not> ld_faulted p_host" "lr_task_id (lt_rec p_task) = demo_uuid" by (simp_all add: p_host_def p_rec)
  with s r c f show ?thesis
    unfolding ld_consume_def Let_def
    by (simp add: ld_checked_def catching_def seq_def ld_healthy_def ask_def ret_def ld_decode_def p_read revision_of_def l_key_def [symmetric]
        p_runner_def [abs_def] cong: if_cong del: One_nat_def)
qed

lemma p_task_at: "task_at l_opts p_db demo_uuid = Some p_task"
  by (simp add: task_at_def row_at_def row_state_def l_key_def [symmetric] p_read)

lemma p_done_valid: "valid_lead_task p_done"
  by (simp add: valid_lead_task_def valid_record_def p_rec p_done_def safe_nat_def positive_def isSafeInteger_def deadline_ok_def task_shape_def
      isLeadContract_def)

lemma p_done_at: "task_at l_opts p_after demo_uuid = Some (stored_task text_codec p_done)"
  using read_task_json [OF text_codec_values, of p_done]
  by (simp add: task_at_def row_at_def row_state_def l_key_def [symmetric] p_after_def p_done_valid)

lemma p_ok: "verdicts_ok l_opts p_host"
  using l_delivered by (simp add: verdicts_ok_def p_host_def p_verdicts_def checked_delivery_def) (simp add: l_delivery_def)


end
