(* ===== verification/Spec2Isabelle.thy ===== *)
theory Spec2Isabelle
  imports Core_Caps Core_Dedup Core_Envelope Lead_Recovery Exec_Props Node_Protocol Gateway_Cluster
    Gateway_Custody_Props Registry_Gateway Exec_Examples Lead_Project_Example
begin

text \<open>
  Verification of qlong, a network of nodes that delegate tasks to each other. The TypeScript sources are
  under \<open>packages/\<close>; every definition keeps the name of the function, method or type it translates, with a
  prefix where several classes share a name.

  \<^bold>\<open>The program.\<close> A \<^emph>\<open>lead\<close> node splits work into tasks and offers each to an \<^emph>\<open>executor\<close> node; both run a state
  machine per task (\<open>packages/node\<close>). Messages are signed envelopes (\<open>packages/core\<close>) that travel through
  \<^emph>\<open>gateways\<close> (\<open>packages/gateway\<close>): a gateway authorises every uplink against a directory snapshot, delivers it to
  a connected node, stores it in an inbox or takes durable custody of it, and shares the connected nodes with
  other gateways through claims. The \<^emph>\<open>registry\<close> (\<open>packages/registry\<close>) enrols nodes into teams, keeps their keys and
  statuses, the grants between teams and an index of task reports, and publishes the directory snapshots.
  Every daemon keeps its state in one SQLite database behind \<open>packages/storage\<close>; the node's database
  (\<open>node/src/runtime/store.ts\<close>) holds its inbox, outbox, versioned state and effect intents.

  \<^bold>\<open>The model.\<close> State is a record, an operation a function that returns the new state with the actions or the
  result, errors are values of sum types. Maps are association lists in insertion order (\<open>AList\<close>), numbers
  rational (times, limits) or natural (attempts, epochs, sequence numbers; the safe-integer bounds are written
  out where the code checks them), strings char lists. What the code takes from libraries is a parameter:
  canonical JSON, SHA-256, Ed25519, base64, \<open>Date.parse\<close>, \<open>toISOString\<close> and random identifiers; what is relied on
  of them is a named hypothesis (\<open>codec_ok\<close>, \<open>lib_ok\<close>, the round trip of a signature scheme). An SQLite table is
  the list of its rows in rowid order, and an operation that raises rolls back.

  \<^bold>\<open>The theories.\<close>
  \<^item> \<open>Qlong_Prelude\<close>: JSON values, strings and patterns, maps, runs of step functions, and the locales for invariants,
    absorbing states, monotone measures and traces that the components interpret.
  \<^item> \<open>Core_Params\<close>, \<open>Core_Caps\<close>, \<open>Core_Dedup\<close>, \<open>Core_Envelope\<close>: \<open>core/src\<close>. Capability matching is a preorder; the
    duplicate store processes a message once and confuses no two messages; the validator decides the envelope
    contract exactly; signing and verifying round-trip.
  \<^item> \<open>Node_Wire\<close>, \<open>Lead_Machine\<close>: \<open>node/src/wire.ts\<close>, \<open>lead/machine.ts\<close>. \<open>Lead_Props\<close> proves the invariant and the attempt
    budget, \<open>Lead_Trace\<close> what may have been sent before what (revoke before redispatch, results before done),
    \<open>Lead_Checkpoint\<close> and \<open>Lead_Recovery\<close> model \<open>checkpoint.ts\<close>, \<open>store.ts\<close>, \<open>supervisor.ts\<close> and \<open>takeover.ts\<close> and prove
    timer progress, termination under a silent network, crash recovery and the takeover fence.
  \<^item> \<open>Exec_Machine\<close>, \<open>Exec_Props\<close>: \<open>executor/machine.ts\<close>, \<open>gates.ts\<close>, \<open>profile.ts\<close>. Drivers start only behind every gate,
    results are sent only while the lease is live, and every accepted offer is answered at most once.
  \<^item> \<open>Node_Protocol\<close> composes both machines: delivery, cancellation and lease renewal end to end.
  \<^item> \<open>Gateway_Acl\<close>, \<open>Gateway_Core\<close>: \<open>gateway/src/acl.ts\<close>, \<open>core.ts\<close>, \<open>mailbox.ts\<close>, \<open>types.ts\<close>. The directory is a locale
    that the cached lookup interprets. \<open>Gateway_Claim\<close>: \<open>claim.ts\<close> and \<open>claim-store.ts\<close> under one locale, with the
    refinement between them. \<open>Gateway_Cluster\<close>: \<open>cluster.ts\<close>. \<open>Gateway_Custody\<close>, \<open>Gateway_Custody_Props\<close>: \<open>custody-store.ts\<close>.
  \<^item> \<open>Registry\<close>: \<open>registry/src/directory.ts\<close>, \<open>task-projection.ts\<close>, \<open>errors.ts\<close> and the validation of \<open>state-store.ts\<close>.
    \<open>Registry_Props\<close> gives the abstract changes (\<open>eff\<close>) and proves that every call is a sequence of them;
    \<open>Registry_Theorems\<close> lifts properties of the changes to whole histories through the locale \<open>history\<close>;
    \<open>Registry_Gateway\<close> connects the registry with the gateway.
  \<^item> \<open>Storage\<close>: \<open>storage/src/errors.ts\<close>, \<open>sqlite.ts\<close>, \<open>migrations.ts\<close>; every outcome of the platform (begin, commit, rollback,
    ownership, pragmas) is an input of a transaction. \<open>Storage_Props\<close>: the locale \<open>tx_client\<close> gives every user of
    transactions that a history is the serial run of the acknowledged calls, and an upgraded file equals a fresh one.
  \<^item> \<open>Node_Store\<close>: \<open>runtime/store.ts\<close> and \<open>runtime/schema.ts\<close>. \<open>Node_Store_Props\<close> gives the abstract changes of the tables
    (\<open>rt_eff\<close>) and proves that every call is a sequence of them; \<open>Node_Store_History\<close> the invariants of the tables;
    \<open>Node_Store_Theorems\<close> the contracts over histories with faults. \<open>Json_Codec\<close> is a concrete canonical text codec that
    satisfies the hypotheses on the codec, and \<open>Node_Store_Examples\<close> runs the store on it.
  \<^item> \<open>Exec_Durable\<close>, \<open>Exec_Host\<close>: \<open>runtime/executor.ts\<close>, the executor machine over the node store. Every method is cut at
    its awaits; the answer of a driver, of the workspace or of the publisher is an event, in any order, and so is a
    crash, which keeps the database only. A ghost log records the calls of the drivers. \<open>Exec_Durable_Props\<close>: the decoder
    of the stored state. \<open>Exec_Host_Props\<close>: triples \<open>\<lbrace>P\<rbrace> call \<lbrace>Q\<rbrace>\<close> of the host calls, written as predicates, and their rules.
    \<open>Exec_Safety\<close>, \<open>Exec_Steps\<close>: every event keeps the invariant of host, store and log. \<open>Exec_Theorems\<close> states it over
    histories of events from a fresh or a restarted executor: no driver starts while another may be running, a running
    driver is covered by the stored slot, and finishing answers the lead. The hypotheses: documented options
    (\<open>good_opts\<close>), a codec and library that round-trip (\<open>good_io\<close>), events that answer calls made (\<open>ev_ok\<close>).
    \<open>Exec_Examples\<close> runs a concrete executor.
  \<^item> \<open>Host_Procs\<close>: the procedures that the hosts are written in, their triples, and \<open>host_frame\<close>, the locale of relations
    that every part of a host keeps; \<open>Json_Read\<close>, \<open>Json_Codec\<close>: typed reads of JSON and values through the store.
  \<^item> \<open>Artifact\<close> (\<open>collab/artifact-manifest.ts\<close>), \<open>Task_Report\<close> (\<open>runtime/report.ts\<close>), \<open>Delivery_Theorems\<close>: signed manifests and
    the check of a delivery, the reports of a task and the reporter that posts them; what is signed is accepted and what is
    reported is read.
  \<^item> \<open>Lead_Durable\<close>, \<open>Lead_Host\<close> (\<open>runtime/lead.ts\<close>): class \<open>DurableLead\<close>, the task machine over the node store. \<open>Lead_Durable\<close>
    has the stored form of a task (\<open>task_json\<close>, \<open>read_task\<close>), its acceptance check and \<open>runEvent\<close>; \<open>Lead_Host\<close> every method,
    with the staging of a verdict cut at its awaits, and \<open>lead_ev_step\<close>, the lead as a system of calls, answers, foreign
    store calls and crashes under any store failure. \<open>Lead_Durable_Props\<close> and \<open>Lead_Host_Props\<close> have the stored form and the
    commits; \<open>Lead_History\<close> and \<open>Lead_Refines\<close> the abstract changes \<open>lead_eff\<close> and the proof that every call is a sequence of
    them; \<open>Lead_Verdicts\<close> the invariant of the verdicts; \<open>Lead_Guarantees\<close> and \<open>Lead_Host_Theorems\<close> what holds over every
    history: attempts never fall, a project is done only after a verified delivery, and the input that makes a lead unable
    to read its own state. \<open>Lead_Host_Examples\<close> and \<open>Lead_Project_Example\<close> run a concrete lead.

  \<^bold>\<open>Bounds.\<close> Every recursion is structural but \<open>driveRedispatch\<close>, which ends because a redispatch
  requests no further one; no definition runs on fuel. Lists of events and calls in the theorems
  are arbitrary. The counters of the registry have a hypothesis of room below the largest safe integer.

  \<^bold>\<open>Not modelled.\<close> Sockets and HTTP (\<open>ws.ts\<close>, \<open>http.ts\<close>, \<open>gateway-client.ts\<close>, \<open>remote/\<close>), the pump of the
  daemon that calls the modelled hosts (\<open>runtime/node.ts\<close>), the files of process handles, target selection, process drivers, git and file work, owner authentication, file locks
  and paths of the storage package, the command line and the console. Of \<open>state-store.ts\<close> the row encoding and the SQL; of the registry class the
  listener set, whose notification is the change of the epoch; of \<open>lead/store.ts\<close> the file store.
\<close>

end
